(* ===== verification/Prelude.thy ===== *)
theory Prelude
  imports Main "HOL-Library.Word"
begin

text \<open>
  Shared vocabulary of the development: names for Go's machine integers and byte slices,
  the big-endian codec of \<^verbatim>\<open>encoding/binary\<close>, Go's \<^verbatim>\<open>copy\<close> into a fixed-size buffer,
  the few functions of package \<^verbatim>\<open>strings\<close> the sources call, the conversion between Go
  strings and byte slices, and generic lemmas on lists and sums that several components
  use. Every later theory imports this one.

  The collections: \<open>codec_simps\<close> (slicing an encoded buffer back into its fields) and
  \<open>go_defs\<close> (the definitions of the Go helpers below, for evaluating closed terms).
\<close>

named_theorems codec_simps "cutting an encoded buffer into its fields"
named_theorems go_defs "definitions of the Go library helpers"

type_synonym byte = "8 word"
type_synonym u16 = "16 word"
type_synonym u32 = "32 word"
type_synonym u64 = "64 word"
type_synonym bytes = "byte list"

section \<open>Go library helpers\<close>

text \<open>
  A slice expression \<open>bs[i:j]\<close>. The sources only slice inside the bounds (they test the
  length first), so the panic of an out-of-range slice never arises.
\<close>

definition go_slice :: "'a list \<Rightarrow> nat \<Rightarrow> nat \<Rightarrow> 'a list" where
  [go_defs]: "go_slice bs i j = take (j - i) (drop i bs)"

text \<open>
  The big-endian accessors of \<^verbatim>\<open>encoding/binary\<close>: \<open>nat_be n x\<close> is the buffer of
  \<open>n\<close> bytes that \<^verbatim>\<open>PutUint\<close> writes, \<open>be_nat\<close> the number \<^verbatim>\<open>Uint\<close> reads.
\<close>

primrec nat_be :: "nat \<Rightarrow> nat \<Rightarrow> bytes" where
  "nat_be 0 x = []"
| "nat_be (Suc n) x = word_of_nat (x div 256 ^ n) # nat_be n x"

primrec be_nat :: "bytes \<Rightarrow> nat" where
  "be_nat [] = 0"
| "be_nat (b # bs) = unat b * 256 ^ length bs + be_nat bs"

definition PutUint16 :: "u16 \<Rightarrow> bytes" where
  [go_defs]: "PutUint16 v = nat_be 2 (unat v)"

definition PutUint32 :: "u32 \<Rightarrow> bytes" where
  [go_defs]: "PutUint32 v = nat_be 4 (unat v)"

definition PutUint64 :: "u64 \<Rightarrow> bytes" where
  [go_defs]: "PutUint64 v = nat_be 8 (unat v)"

definition Uint16 :: "bytes \<Rightarrow> u16" where
  [go_defs]: "Uint16 bs = word_of_nat (be_nat bs)"

definition Uint32 :: "bytes \<Rightarrow> u32" where
  [go_defs]: "Uint32 bs = word_of_nat (be_nat bs)"

definition Uint64 :: "bytes \<Rightarrow> u64" where
  [go_defs]: "Uint64 bs = word_of_nat (be_nat bs)"

text \<open>
  \<open>copy(buf[i:i+n], src)\<close> into a freshly made (zeroed) buffer: the bytes of that range
  afterwards.
\<close>

definition copy_into :: "nat \<Rightarrow> bytes \<Rightarrow> bytes" where
  [go_defs]: "copy_into n src = take n src @ replicate (n - length src) 0"

text \<open>
  Go strings are byte sequences, as HOL's \<open>string\<close> is a list of 8-bit characters;
  \<open>[]byte(s)\<close> and \<open>string(b)\<close> are the conversions.
\<close>

definition bytes_of_string :: "string \<Rightarrow> bytes" where
  [go_defs]: "bytes_of_string s = map (\<lambda>c. word_of_nat (of_char c)) s"

definition string_of_bytes :: "bytes \<Rightarrow> string" where
  [go_defs]: "string_of_bytes b = map (\<lambda>w. char_of (unat w)) b"

text \<open>
  \<^verbatim>\<open>strings.ToLower\<close> on ASCII strings, where Go lowers byte by byte. (Go also lowers
  non-ASCII letters; statements that depend on the letter case are about ASCII strings.)
\<close>

definition lower_char :: "char \<Rightarrow> char" where
  [go_defs]: "lower_char c = (let n = (of_char c :: nat) in
     if 65 \<le> n \<and> n \<le> 90 then char_of (n + 32) else c)"

definition ToLower :: "string \<Rightarrow> string" where
  [go_defs]: "ToLower s = map lower_char s"

definition HasPrefix :: "string \<Rightarrow> string \<Rightarrow> bool" where
  [go_defs]: "HasPrefix s p \<longleftrightarrow> take (length p) s = p"

definition HasSuffix :: "string \<Rightarrow> string \<Rightarrow> bool" where
  [go_defs]: "HasSuffix s p \<longleftrightarrow> length p \<le> length s \<and> drop (length s - length p) s = p"

text \<open>\<^verbatim>\<open>strings.Contains\<close>: some suffix of \<open>s\<close> starts with \<open>p\<close>.\<close>

fun Contains :: "string \<Rightarrow> string \<Rightarrow> bool" where
  "Contains [] p = (p = [])"
| "Contains (c # s) p = (HasPrefix (c # s) p \<or> Contains s p)"

text \<open>\<^verbatim>\<open>strings.Split(s, sep)\<close> for a one-character separator.\<close>

fun Split :: "char \<Rightarrow> string \<Rightarrow> string list" where
  "Split sep [] = [[]]"
| "Split sep (c # s) =
     (if c = sep then [] # Split sep s
      else (case Split sep s of [] \<Rightarrow> [[c]] | w # ws \<Rightarrow> (c # w) # ws))"

section \<open>Slices and buffers\<close>

lemma length_go_slice [simp]: "length (go_slice bs i j) = min (j - i) (length bs - i)"
  by (simp add: go_slice_def)

lemma go_slice_append_skip [codec_simps]:
  "length xs \<le> i \<Longrightarrow> go_slice (xs @ ys) i j = go_slice ys (i - length xs) (j - length xs)"
  by (simp add: go_slice_def)

lemma go_slice_append_exact [codec_simps]:
  "j = length xs \<Longrightarrow> go_slice (xs @ ys) 0 j = xs"
  by (simp add: go_slice_def)

lemma go_slice_all [codec_simps]: "length xs \<le> j \<Longrightarrow> go_slice xs 0 j = xs"
  by (simp add: go_slice_def)

lemma go_slice_Cons_skip [codec_simps]:
  "0 < i \<Longrightarrow> go_slice (x # xs) i j = go_slice xs (i - 1) (j - 1)"
  by (cases i) (auto simp: go_slice_def)

lemma go_slice_step: "i \<le> j \<Longrightarrow> go_slice xs i j @ drop j xs = drop i xs"
  by (simp add: go_slice_def) (metis append_take_drop_id drop_drop le_add_diff_inverse add.commute)

lemma go_slice_single: "i < length xs \<Longrightarrow> go_slice xs i (Suc i) = [xs ! i]"
  by (simp add: go_slice_def take_Suc_conv_app_nth)

lemma go_slice_to_end: "length xs \<le> j \<Longrightarrow> go_slice xs i j = drop i xs"
  by (simp add: go_slice_def)

lemma length_copy_into [simp]: "length (copy_into n src) = n"
  by (simp add: copy_into_def)

lemma copy_into_exact [simp]: "length src = n \<Longrightarrow> copy_into n src = src"
  by (simp add: copy_into_def)

section \<open>Big-endian numbers\<close>

lemma length_nat_be [simp]: "length (nat_be n x) = n"
  by (induction n) auto

lemma length_PutUint [simp]:
  "length (PutUint16 a) = 2" "length (PutUint32 b) = 4" "length (PutUint64 c) = 8"
  by (simp_all add: PutUint16_def PutUint32_def PutUint64_def)

lemma unat_byte_of_nat [simp]: "unat (word_of_nat x :: byte) = x mod 256"
  by (simp add: unat_of_nat)

lemma unat_lt256 [simp]: "unat (b :: byte) < 256"
  using unsigned_less [of b] by simp

lemma be_nat_nat_be: "be_nat (nat_be n x) = x mod 256 ^ n"
proof (induction n)
  case 0
  then show ?case by simp
next
  case (Suc n)
  have "x mod (256 ^ n * 256) = 256 ^ n * (x div 256 ^ n mod 256) + x mod 256 ^ n"
    by (rule mod_mult2_eq)
  with Suc show ?case by (simp add: mult.commute)
qed

lemma be_nat_less: "be_nat bs < 256 ^ length bs"
proof (induction bs)
  case Nil
  then show ?case by simp
next
  case (Cons b bs)
  have "unat b \<le> 255" using unat_lt256 [of b] by linarith
  then have "unat b * 256 ^ length bs \<le> 255 * 256 ^ length bs" by (rule mult_le_mono1)
  then have "unat b * 256 ^ length bs + be_nat bs < 255 * 256 ^ length bs + 256 ^ length bs"
    using Cons.IH by linarith
  then show ?case by simp
qed

lemma nat_be_mod: "nat_be n (x mod 256 ^ n) = nat_be n x"
proof -
  have gen: "nat_be m (y mod 256 ^ n) = nat_be m y" if "m \<le> n" for m y
    using that
  proof (induction m)
    case 0
    then show ?case by simp
  next
    case (Suc m)
    have "n = m + (n - m)" using Suc.prems by simp
    then have p: "(256::nat) ^ n = 256 ^ m * 256 ^ (n - m)" by (metis power_add)
    have d: "y mod 256 ^ n div 256 ^ m = y div 256 ^ m mod 256 ^ (n - m)"
      unfolding p by (simp add: mod_mult2_eq div_mult2_eq)
    have "(256::nat) dvd 256 ^ (n - m)" using Suc.prems by simp
    then have "y mod 256 ^ n div 256 ^ m mod 256 = y div 256 ^ m mod 256"
      unfolding d by (rule mod_mod_cancel)
    then have "(word_of_nat (y mod 256 ^ n div 256 ^ m) :: byte) = word_of_nat (y div 256 ^ m)"
      by (metis unat_byte_of_nat word_unat_eq_iff)
    with Suc show ?case by simp
  qed
  show ?thesis by (rule gen) simp
qed

lemma nat_be_be_nat: "nat_be (length bs) (be_nat bs) = bs"
proof (induction bs)
  case Nil
  then show ?case by simp
next
  case (Cons b bs)
  have less: "be_nat bs < 256 ^ length bs" by (rule be_nat_less)
  have hd: "(unat b * 256 ^ length bs + be_nat bs) div 256 ^ length bs = unat b"
    using less by simp
  have "nat_be (length bs) (unat b * 256 ^ length bs + be_nat bs)
      = nat_be (length bs) ((unat b * 256 ^ length bs + be_nat bs) mod 256 ^ length bs)"
    by (simp only: nat_be_mod)
  also have "\<dots> = nat_be (length bs) (be_nat bs)"
    using less by simp
  finally show ?case using Cons.IH by (simp only: nat_be.simps list.size add_Suc_right
        be_nat.simps hd add_0_right) simp
qed

lemma Uint_PutUint [simp, codec_simps]:
  "Uint16 (PutUint16 a) = a" "Uint32 (PutUint32 b) = b" "Uint64 (PutUint64 c) = c"
  using unsigned_less [of a, where ?'a = nat] unsigned_less [of b, where ?'a = nat]
    unsigned_less [of c, where ?'a = nat]
  by (simp_all add: Uint16_def PutUint16_def Uint32_def PutUint32_def Uint64_def PutUint64_def
      be_nat_nat_be)

lemma PutUint_Uint:
  "length bs = 2 \<Longrightarrow> PutUint16 (Uint16 bs) = bs"
  "length bs = 4 \<Longrightarrow> PutUint32 (Uint32 bs) = bs"
  "length bs = 8 \<Longrightarrow> PutUint64 (Uint64 bs) = bs"
  using be_nat_less [of bs] nat_be_be_nat [of bs]
  by (simp_all add: PutUint16_def Uint16_def PutUint32_def Uint32_def PutUint64_def Uint64_def
      unat_of_nat)

section \<open>Strings\<close>

lemma string_of_bytes_of_string [simp]: "string_of_bytes (bytes_of_string s) = s"
  by (induction s) (auto simp: string_of_bytes_def bytes_of_string_def)

lemma bytes_of_string_of_bytes [simp]: "bytes_of_string (string_of_bytes b) = b"
  by (induction b)
    (auto simp: string_of_bytes_def bytes_of_string_def unat_of_nat word_unat_eq_iff
      unat_lt256)

lemma length_bytes_of_string [simp]: "length (bytes_of_string s) = length s"
  by (simp add: bytes_of_string_def)

lemma length_string_of_bytes [simp]: "length (string_of_bytes b) = length b"
  by (simp add: string_of_bytes_def)

section \<open>Lists and sums\<close>

lemma sum_list_update:
  fixes f :: "'a \<Rightarrow> int"
  assumes "i < length xs"
  shows "(\<Sum>x\<leftarrow>xs[i := y]. f x) = (\<Sum>x\<leftarrow>xs. f x) - f (xs ! i) + f y"
  using assms by (induction xs arbitrary: i) (auto split: nat.splits)

lemma sum_list_nonneg_int:
  fixes f :: "'a \<Rightarrow> int"
  assumes "\<And>x. x \<in> set xs \<Longrightarrow> 0 \<le> f x"
  shows "0 \<le> (\<Sum>x\<leftarrow>xs. f x)"
  using assms by (induction xs) auto

lemma filter_ConsD: "filter P xs = y # ys \<Longrightarrow> y \<in> set xs \<and> P y"
proof -
  assume "filter P xs = y # ys"
  then have "y \<in> set (filter P xs)" by simp
  then show ?thesis by simp
qed

section \<open>First match\<close>

text \<open>
  A scan that returns the first hit of a list: the contract of every priority list of the
  program (routing rules, carriers of a direction).
\<close>

locale first_match =
  fixes hit :: "'a \<Rightarrow> 'b option" and scan :: "'a list \<Rightarrow> 'b option"
  assumes scan_Nil: "scan [] = None"
    and scan_Cons: "scan (x # xs) = (case hit x of Some y \<Rightarrow> Some y | None \<Rightarrow> scan xs)"
begin

lemma scan_None: "scan xs = None \<longleftrightarrow> (\<forall>x \<in> set xs. hit x = None)"
  by (induction xs) (auto simp: scan_Nil scan_Cons split: option.splits)

lemma scan_Some:
  "scan xs = Some y \<longleftrightarrow> (\<exists>i < length xs. hit (xs ! i) = Some y \<and> (\<forall>j < i. hit (xs ! j) = None))"
proof (induction xs)
  case Nil
  then show ?case by (simp add: scan_Nil)
next
  case (Cons x xs)
  then show ?case
    by (cases "hit x") (simp_all add: scan_Cons Ex_less_Suc2 All_less_Suc2)
qed

end

section \<open>Runs\<close>

text \<open>
  A component under concurrent callers is a partial step function applied to a list of
  labels, \<open>None\<close> when a step is not enabled. What every step keeps, every run keeps.
\<close>

locale run_system =
  fixes step :: "'l \<Rightarrow> 's \<Rightarrow> 's option" and exec :: "'l list \<Rightarrow> 's \<Rightarrow> 's option"
  assumes exec_Nil: "exec [] s = Some s"
    and exec_Cons: "exec (l # ls) s = (case step l s of None \<Rightarrow> None | Some s1 \<Rightarrow> exec ls s1)"
begin

lemma exec_inv:
  assumes "exec ls s = Some s'" and "I s"
    and "\<And>l s s'. l \<in> set ls \<Longrightarrow> I s \<Longrightarrow> step l s = Some s' \<Longrightarrow> I s'"
  shows "I s'"
  using assms
proof (induction ls arbitrary: s)
  case Nil
  then show ?case by (simp add: exec_Nil)
next
  case (Cons l ls)
  obtain s1 where s1: "step l s = Some s1" "exec ls s1 = Some s'"
    using Cons.prems(1) by (auto simp: exec_Cons split: option.splits)
  have "I s1" using Cons.prems(2) Cons.prems(3) [of l s s1] s1(1) by simp
  then show ?case by (rule Cons.IH [OF s1(2)]) (use Cons.prems(3) in auto)
qed

lemma exec_mono:
  assumes "exec ls s = Some s'" and "\<And>s. R s s" and "\<And>a b c. R a b \<Longrightarrow> R b c \<Longrightarrow> R a c"
    and "\<And>l s s'. l \<in> set ls \<Longrightarrow> step l s = Some s' \<Longrightarrow> R s s'"
  shows "R s s'"
  by (rule exec_inv [where I = "R s", OF assms(1) assms(2)]) (use assms(3,4) in blast)

lemma exec_append: "exec (ls @ ms) s = (case exec ls s of None \<Rightarrow> None | Some s1 \<Rightarrow> exec ms s1)"
  by (induction ls arbitrary: s) (auto simp: exec_Nil exec_Cons split: option.splits)

end

lemma Split_nonempty [simp]: "Split sep s \<noteq> []"
  by (induction s) (auto split: list.splits)

end
