(* ===== verification/Frame.thy ===== *)
theory Frame
  imports Prelude
begin

unbundle bit_operations_syntax

text \<open>
  The frame protocol of \<^verbatim>\<open>src/pkg/mux/frame.go\<close>: the 7-byte frame header, the frame
  encoders and the reader, and the fixed-size payload codecs of the control frames
  (FrameCredit, FrameReset, FrameBootstrapAck), with \<^verbatim>\<open>encodeControlFrame\<close> of
  \<^verbatim>\<open>carrier.go\<close>. The lemmas show that every codec round-trips, that a byte stream of
  encoded frames is cut back into exactly those frames, and what each validation accepts.
  The locales \<open>exact_codec\<close> and \<open>wire_codec\<close> are the contract the payload codecs share.
\<close>

section \<open>Constants\<close>

abbreviation HeaderSize :: nat where "HeaderSize \<equiv> 7"
abbreviation MaxPayload :: nat where "MaxPayload \<equiv> 65535"

abbreviation FrameData :: byte where "FrameData \<equiv> 0x00"
abbreviation FrameAuth :: byte where "FrameAuth \<equiv> 0x01"
abbreviation FramePing :: byte where "FramePing \<equiv> 0x02"
abbreviation FramePong :: byte where "FramePong \<equiv> 0x03"
abbreviation FrameClose :: byte where "FrameClose \<equiv> 0x04"
abbreviation FrameHeader :: byte where "FrameHeader \<equiv> 0x05"
abbreviation FrameRebind :: byte where "FrameRebind \<equiv> 0x06"
abbreviation FrameCredit :: byte where "FrameCredit \<equiv> 0x07"
abbreviation FrameReset :: byte where "FrameReset \<equiv> 0x08"
abbreviation FrameBootstrapAck :: byte where "FrameBootstrapAck \<equiv> 0x09"

abbreviation CreditPayloadSize :: nat where "CreditPayloadSize \<equiv> 32"
abbreviation CreditVersion :: byte where "CreditVersion \<equiv> 1"
abbreviation CreditFlagsFinal :: byte where "CreditFlagsFinal \<equiv> 0x01"
abbreviation CreditFlagsReservedMask :: byte where "CreditFlagsReservedMask \<equiv> 0xFE"

abbreviation ResetReasonUnknownStream :: byte where "ResetReasonUnknownStream \<equiv> 1"
abbreviation ResetReasonSessionClosed :: byte where "ResetReasonSessionClosed \<equiv> 2"
abbreviation ResetReasonRebindRefused :: byte where "ResetReasonRebindRefused \<equiv> 3"
abbreviation ResetReasonTargetDialFailed :: byte where "ResetReasonTargetDialFailed \<equiv> 4"
abbreviation ResetPayloadSize :: nat where "ResetPayloadSize \<equiv> 10"
abbreviation ResetVersion :: byte where "ResetVersion \<equiv> 1"

abbreviation BootstrapAckPayloadSize :: nat where "BootstrapAckPayloadSize \<equiv> 2"
abbreviation BootstrapAckVersion :: byte where "BootstrapAckVersion \<equiv> 1"

section \<open>Frames\<close>

record frame =
  StreamID :: u32
  Type :: byte
  Length :: u16
  Payload :: bytes

text \<open>
  The errors of the package, and the two ways \<^verbatim>\<open>io.ReadFull\<close> fails on a stream that
  ends: \<open>EOF\<close> when nothing was read, \<open>ErrUnexpectedEOF\<close> after a partial read.
\<close>

datatype mux_error =
    ErrPayloadTooLarge
  | ErrProtocolViolation
  | ErrCreditMalformedLength
  | ErrCreditUnknownStream
  | ErrResetMalformedLength nat
  | ErrResetVersion byte
  | ErrBootstrapAckMalformedLength nat
  | ErrBootstrapAckVersion byte
  | ErrCarrierClosed
  | ErrLimits int int
  | EOF
  | ErrUnexpectedEOF

text \<open>
  \<open>WriteFrame\<close> yields the one buffer handed to \<open>w.Write\<close>, whose result the code
  returns unchanged.
\<close>

definition WriteFrame :: "u32 \<Rightarrow> byte \<Rightarrow> bytes \<Rightarrow> mux_error + bytes" where
  "WriteFrame streamID typ payload =
     (if length payload > MaxPayload then Inl ErrPayloadTooLarge
      else (let hdr = PutUint32 streamID @ [typ] @ PutUint16 (word_of_nat (length payload))
            in if length payload > 0 then Inr (hdr @ payload) else Inr hdr))"

definition ReadFull :: "nat \<Rightarrow> bytes \<Rightarrow> mux_error + (bytes \<times> bytes)" where
  "ReadFull n r =
     (if n \<le> length r then Inr (take n r, drop n r)
      else if r = [] then Inl EOF else Inl ErrUnexpectedEOF)"

text \<open>The reader is the bytes the stream still delivers before its end.\<close>

definition ReadFrame :: "bytes \<Rightarrow> mux_error + (frame \<times> bytes)" where
  "ReadFrame r =
     (case ReadFull HeaderSize r of
        Inl err \<Rightarrow> Inl err
      | Inr (hdr, r1) \<Rightarrow>
          (let f = \<lparr>StreamID = Uint32 (go_slice hdr 0 4), Type = hdr ! 4,
                    Length = Uint16 (go_slice hdr 5 7), Payload = []\<rparr>
           in if Length f > 0
              then (case ReadFull (unat (Length f)) r1 of
                      Inl err \<Rightarrow> Inl err
                    | Inr (p, r2) \<Rightarrow> Inr (f\<lparr>Payload := p\<rparr>, r2))
              else Inr (f, r1)))"

text \<open>The read loop's consumption of the whole stream: frames until the first error.\<close>

lemma ReadFrame_consumes: "ReadFrame r = Inr (f, r') \<Longrightarrow> length r' < length r"
  by (auto simp: ReadFrame_def ReadFull_def Let_def split: if_splits sum.splits)

function read_frames :: "bytes \<Rightarrow> frame list \<times> mux_error" where
  "read_frames r =
     (case ReadFrame r of
        Inl err \<Rightarrow> ([], err)
      | Inr (f, r') \<Rightarrow> (let (fs, err) = read_frames r' in (f # fs, err)))"
  by pat_completeness auto
termination
  by (relation "measure length") (auto dest: ReadFrame_consumes)

declare read_frames.simps [simp del]

text \<open>
  \<open>encodeControlFrame\<close> has the layout of \<open>WriteFrame\<close> but no size test: the length
  field is \<open>uint16(len(payload))\<close>.
\<close>

definition encodeControlFrame :: "u32 \<Rightarrow> byte \<Rightarrow> bytes \<Rightarrow> bytes" where
  "encodeControlFrame streamID typ payload =
     PutUint32 streamID @ [typ] @ PutUint16 (word_of_nat (length payload)) @ payload"

section \<open>Credit payloads\<close>

record CreditPayload =
  Version :: byte
  Gen :: u64
  BytesConsumed :: u64
  WindowGranted :: u32
  Flags :: byte
  Reserved :: bytes

definition EncodeCreditPayload :: "CreditPayload \<Rightarrow> bytes" where
  "EncodeCreditPayload p =
     [Version p] @ PutUint64 (Gen p) @ PutUint64 (BytesConsumed p)
       @ PutUint32 (WindowGranted p) @ [Flags p] @ copy_into 10 (Reserved p)"

definition DecodeCreditPayload :: "bytes \<Rightarrow> mux_error + CreditPayload" where
  "DecodeCreditPayload raw =
     (if length raw \<noteq> CreditPayloadSize then Inl ErrCreditMalformedLength
      else Inr \<lparr>Version = raw ! 0, Gen = Uint64 (go_slice raw 1 9),
                BytesConsumed = Uint64 (go_slice raw 9 17),
                WindowGranted = Uint32 (go_slice raw 17 21),
                Flags = raw ! 21, Reserved = go_slice raw 22 32\<rparr>)"

definition ClampCreditWindow :: "u32 \<Rightarrow> u32 \<Rightarrow> u32" where
  "ClampCreditWindow w cap = (if w > cap then cap else w)"

definition StaleCreditGeneration :: "u64 \<Rightarrow> u64 \<Rightarrow> bool" where
  "StaleCreditGeneration gen carrierGen \<longleftrightarrow> gen \<noteq> carrierGen"

datatype CreditValidationErr = RuleVersion | RuleGenZero | RuleReservedBytes | RuleReservedFlags

text \<open>\<open>None\<close> is the accepting \<open>nil\<close>; the checks run in the order of the code.\<close>

definition ValidateCreditPayload :: "CreditPayload \<Rightarrow> CreditValidationErr option" where
  "ValidateCreditPayload p =
     (if Version p \<noteq> CreditVersion then Some RuleVersion
      else if Gen p = 0 then Some RuleGenZero
      else if \<not> list_all (\<lambda>b. b = 0) (Reserved p) then Some RuleReservedBytes
      else if Flags p AND CreditFlagsReservedMask \<noteq> 0 then Some RuleReservedFlags
      else None)"

section \<open>Reset and bootstrap-ack payloads\<close>

definition EncodeResetPayload :: "byte \<Rightarrow> u64 \<Rightarrow> bytes" where
  "EncodeResetPayload reason gen = [ResetVersion, reason] @ PutUint64 gen"

definition ParseResetPayload :: "bytes \<Rightarrow> mux_error + (byte \<times> u64)" where
  "ParseResetPayload payload =
     (if length payload \<noteq> ResetPayloadSize then Inl (ErrResetMalformedLength (length payload))
      else if payload ! 0 \<noteq> ResetVersion then Inl (ErrResetVersion (payload ! 0))
      else Inr (payload ! 1, Uint64 (go_slice payload 2 10)))"

definition EncodeBootstrapAckPayload :: "byte \<Rightarrow> bytes" where
  "EncodeBootstrapAckPayload status = [BootstrapAckVersion, status]"

definition ParseBootstrapAckPayload :: "bytes \<Rightarrow> mux_error + byte" where
  "ParseBootstrapAckPayload payload =
     (if length payload \<noteq> BootstrapAckPayloadSize
      then Inl (ErrBootstrapAckMalformedLength (length payload))
      else if payload ! 0 \<noteq> BootstrapAckVersion then Inl (ErrBootstrapAckVersion (payload ! 0))
      else Inr (payload ! 1))"

section \<open>The contract of a payload codec\<close>

text \<open>
  A codec encodes the well-formed values, decodes what it encoded, and accepts no payload
  but an encoding. Clients use three consequences: distinct values have distinct
  encodings, and the accepted payloads are exactly the encodings.
\<close>

locale exact_codec =
  fixes enc :: "'a \<Rightarrow> bytes"
    and dec :: "bytes \<Rightarrow> 'e + 'a"
    and wf :: "'a \<Rightarrow> bool"
  assumes dec_enc: "wf x \<Longrightarrow> dec (enc x) = Inr x"
    and enc_dec: "dec b = Inr x \<Longrightarrow> wf x \<and> enc x = b"
begin

lemma enc_inj: "wf x \<Longrightarrow> wf y \<Longrightarrow> enc x = enc y \<Longrightarrow> x = y"
  by (metis dec_enc sum.inject(2))

lemma accepted_iff: "(\<exists>x. dec b = Inr x) \<longleftrightarrow> (\<exists>x. wf x \<and> b = enc x)"
proof
  show "\<exists>x. dec b = Inr x \<Longrightarrow> \<exists>x. wf x \<and> b = enc x" by (blast dest: enc_dec)
  show "\<exists>x. wf x \<and> b = enc x \<Longrightarrow> \<exists>x. dec b = Inr x" by (blast dest: dec_enc)
qed

lemma dec_exact: "dec b = Inr x \<longleftrightarrow> wf x \<and> b = enc x"
  using dec_enc enc_dec by blast

end

text \<open>Most payloads have a fixed size.\<close>

locale wire_codec = exact_codec enc dec wf
  for enc :: "'a \<Rightarrow> bytes" and dec :: "bytes \<Rightarrow> 'e + 'a" and wf :: "'a \<Rightarrow> bool" +
  fixes size_of :: nat
  assumes enc_size: "wf x \<Longrightarrow> length (enc x) = size_of"
begin

lemma accepted_size: "dec b = Inr x \<Longrightarrow> length b = size_of"
  using enc_dec [of b x] enc_size [of x] by blast

lemma wrong_size_refused: "length b \<noteq> size_of \<Longrightarrow> \<exists>e. dec b = Inl e"
  using accepted_size by (cases "dec b") auto

end

section \<open>Lemmas: frames\<close>

lemma length_word16: "length p \<le> MaxPayload \<Longrightarrow> unat (word_of_nat (length p) :: u16) = length p"
  by (simp add: unat_of_nat)

lemma word16_pos_iff:
  "length p \<le> MaxPayload \<Longrightarrow> (0 < (word_of_nat (length p) :: u16)) \<longleftrightarrow> p \<noteq> []"
  using length_word16 [of p] by (auto simp: word_greater_zero_iff)

text \<open>The header of any buffer with the frame layout, whatever follows it.\<close>

lemma ReadFrame_layout:
  "ReadFrame (PutUint32 sid @ [typ] @ PutUint16 n @ rest) =
     (if n = 0 then Inr (\<lparr>StreamID = sid, Type = typ, Length = 0, Payload = []\<rparr>, rest)
      else if unat n \<le> length rest
      then Inr (\<lparr>StreamID = sid, Type = typ, Length = n, Payload = take (unat n) rest\<rparr>,
                drop (unat n) rest)
      else if rest = [] then Inl EOF else Inl ErrUnexpectedEOF)"
proof -
  let ?hdr = "PutUint32 sid @ typ # PutUint16 n"
  have full: "ReadFull HeaderSize (?hdr @ rest) = Inr (?hdr, rest)"
    by (simp add: ReadFull_def)
  have r: "PutUint32 sid @ [typ] @ PutUint16 n @ rest = ?hdr @ rest" by simp
  show ?thesis
    unfolding r ReadFrame_def full
    by (simp add: ReadFull_def word_greater_zero_iff Let_def codec_simps nth_append)
qed

lemma WriteFrame_layout:
  "WriteFrame sid typ p = Inr data \<longleftrightarrow>
     length p \<le> MaxPayload \<and>
     data = PutUint32 sid @ [typ] @ PutUint16 (word_of_nat (length p)) @ p"
  by (auto simp: WriteFrame_def Let_def)

lemma WriteFrame_ReadFrame:
  assumes "WriteFrame sid typ p = Inr data"
  shows "ReadFrame (data @ rest) =
           Inr (\<lparr>StreamID = sid, Type = typ, Length = word_of_nat (length p), Payload = p\<rparr>, rest)"
proof -
  from assms have len: "length p \<le> MaxPayload"
    and data: "data @ rest = PutUint32 sid @ [typ] @ PutUint16 (word_of_nat (length p)) @ (p @ rest)"
    by (simp_all add: WriteFrame_layout)
  show ?thesis
    unfolding data ReadFrame_layout
    using length_word16 [OF len] word16_pos_iff [OF len]
    by (auto simp: word_greater_zero_iff)
qed

lemma ReadFull_cases:
  "ReadFull n r = Inr (a, b) \<Longrightarrow> r = a @ b \<and> length a = n"
  by (auto simp: ReadFull_def split: if_splits)

text \<open>Conversely, whatever is read is the encoding of the frame that is returned.\<close>

lemma ReadFrame_inv:
  assumes "ReadFrame r = Inr (f, rest)"
  shows "r = PutUint32 (StreamID f) @ [Type f] @ PutUint16 (Length f) @ Payload f @ rest
         \<and> length (Payload f) = unat (Length f)"
proof -
  from assms obtain hdr r1 where full: "ReadFull HeaderSize r = Inr (hdr, r1)"
    by (auto simp: ReadFrame_def split: sum.splits)
  then have r: "r = hdr @ r1" and len: "length hdr = 7"
    by (auto dest: ReadFull_cases)
  define sid where "sid = Uint32 (go_slice hdr 0 4)"
  define n where "n = Uint16 (go_slice hdr 5 7)"
  have "hdr = go_slice hdr 0 4 @ [hdr ! 4] @ go_slice hdr 5 7"
    using id_take_nth_drop [of 4 hdr] len by (simp add: go_slice_def)
  then have hdr: "hdr = PutUint32 sid @ [hdr ! 4] @ PutUint16 n"
    using len by (simp add: sid_def n_def PutUint_Uint)
  then have lay: "r = PutUint32 sid @ [hdr ! 4] @ PutUint16 n @ r1"
    using r by simp
  show ?thesis
    using assms lay unfolding lay ReadFrame_layout
    by (auto split: if_splits)
qed

lemma read_frames_Cons:
  assumes "WriteFrame sid typ p = Inr data"
  shows "read_frames (data @ rest) =
    (\<lparr>StreamID = sid, Type = typ, Length = word_of_nat (length p), Payload = p\<rparr>
       # fst (read_frames rest), snd (read_frames rest))"
  by (subst read_frames.simps) (simp add: WriteFrame_ReadFrame [OF assms] split: prod.splits)

text \<open>The frame a peer reads for one \<open>WriteFrame\<close> call.\<close>

definition frame_of :: "u32 \<times> byte \<times> bytes \<Rightarrow> frame" where
  "frame_of = (\<lambda>(sid, typ, p).
     \<lparr>StreamID = sid, Type = typ, Length = word_of_nat (length p), Payload = p\<rparr>)"

lemma read_frames_written:
  assumes "list_all2 (\<lambda>(sid, typ, p) d. WriteFrame sid typ p = Inr d) ws ds"
  shows "read_frames (concat ds @ rest) =
           (map frame_of ws @ fst (read_frames rest), snd (read_frames rest))"
  using assms
proof (induction ws ds rule: list_all2_induct)
  case Nil
  then show ?case by simp
next
  case (Cons w ws d ds)
  then show ?case
    by (cases w) (simp add: read_frames_Cons frame_of_def)
qed

lemma ReadFull_short: "length r < n \<Longrightarrow> ReadFull n r = Inl (if r = [] then EOF else ErrUnexpectedEOF)"
  by (simp add: ReadFull_def)

text \<open>A frame cut anywhere before its last byte is an error, never a shorter frame.\<close>

lemma ReadFrame_torn:
  assumes "WriteFrame sid typ p = Inr data" and "k < length data"
  shows "ReadFrame (take k data) \<in> {Inl EOF, Inl ErrUnexpectedEOF}"
proof (cases "k < HeaderSize")
  case True
  then show ?thesis by (simp add: ReadFrame_def ReadFull_short)
next
  case False
  from assms(1) have len: "length p \<le> MaxPayload"
    and data: "data = PutUint32 sid @ [typ] @ PutUint16 (word_of_nat (length p)) @ p"
    by (simp_all add: WriteFrame_layout)
  have t: "take k data = PutUint32 sid @ [typ] @ PutUint16 (word_of_nat (length p)) @ take (k - 7) p"
    using False by (simp add: data take_Cons')
  from assms(2) False have "k - 7 < length p" by (simp add: data)
  then show ?thesis
    unfolding t ReadFrame_layout
    using length_word16 [OF len] by auto
qed

lemma encodeControlFrame_eq_WriteFrame:
  "length p \<le> MaxPayload \<Longrightarrow> WriteFrame sid typ p = Inr (encodeControlFrame sid typ p)"
  by (simp add: WriteFrame_layout encodeControlFrame_def)

text \<open>
  Above the limit the length field wraps, and the reader takes the tail of the payload for
  the next frame. Every caller passes a fixed-size payload (Ping, Pong, Close, Credit,
  Reset, BootstrapAck), so the branch is not reached.
\<close>

lemma encodeControlFrame_truncates:
  assumes "length p = 65536 + k" and "0 < k" and "k \<le> MaxPayload"
  shows "ReadFrame (encodeControlFrame sid typ p) =
    Inr (\<lparr>StreamID = sid, Type = typ, Length = word_of_nat k, Payload = take k p\<rparr>, drop k p)"
proof -
  have w: "(word_of_nat (length p) :: u16) = word_of_nat k"
    by (rule word_unat_eq_iff [THEN iffD2]) (simp only: unat_of_nat assms(1), simp)
  have u: "unat (word_of_nat k :: u16) = k"
    using assms(3) by (simp add: unat_of_nat)
  with assms(2) have nz: "(word_of_nat k :: u16) \<noteq> 0" by (auto simp: word_unat_eq_iff)
  show ?thesis
    unfolding encodeControlFrame_def w ReadFrame_layout
    using u nz assms(1) by simp
qed

section \<open>Lemmas: payload codecs\<close>

definition credit_wf :: "CreditPayload \<Rightarrow> bool" where
  "credit_wf p \<longleftrightarrow> length (Reserved p) = 10"

lemma split_credit:
  assumes "length raw = 32"
  shows "raw = [raw ! 0] @ go_slice raw 1 9 @ go_slice raw 9 17 @ go_slice raw 17 21
               @ [raw ! 21] @ go_slice raw 22 32"
proof -
  have "raw = go_slice raw 0 1 @ go_slice raw 1 9 @ go_slice raw 9 17 @ go_slice raw 17 21
               @ go_slice raw 21 22 @ go_slice raw 22 32"
    using assms by (simp add: go_slice_step go_slice_to_end)
  moreover have "go_slice raw 0 1 = [raw ! 0]" and "go_slice raw 21 22 = [raw ! 21]"
    using go_slice_single [of 0 raw] go_slice_single [of 21 raw] assms by simp_all
  ultimately show ?thesis by simp
qed

interpretation credit_codec: wire_codec EncodeCreditPayload DecodeCreditPayload credit_wf CreditPayloadSize
proof
  fix x :: CreditPayload
  assume "credit_wf x"
  then show "DecodeCreditPayload (EncodeCreditPayload x) = Inr x"
    by (simp add: credit_wf_def DecodeCreditPayload_def EncodeCreditPayload_def codec_simps nth_append)
next
  fix b x
  assume "DecodeCreditPayload b = Inr x"
  then show "credit_wf x \<and> EncodeCreditPayload x = b"
    using split_credit [of b]
    by (auto simp: credit_wf_def DecodeCreditPayload_def EncodeCreditPayload_def PutUint_Uint
        split: if_splits)
next
  fix x :: CreditPayload
  show "length (EncodeCreditPayload x) = CreditPayloadSize"
    by (simp add: EncodeCreditPayload_def)
qed

interpretation reset_codec: wire_codec
  "\<lambda>(reason, gen). EncodeResetPayload reason gen" ParseResetPayload "\<lambda>_. True" ResetPayloadSize
proof
  fix x :: "byte \<times> u64"
  show "ParseResetPayload (case x of (reason, gen) \<Rightarrow> EncodeResetPayload reason gen) = Inr x"
    by (cases x) (simp add: ParseResetPayload_def EncodeResetPayload_def codec_simps)
  show "length (case x of (reason, gen) \<Rightarrow> EncodeResetPayload reason gen) = ResetPayloadSize"
    by (cases x) (simp add: EncodeResetPayload_def)
next
  fix b :: bytes and x :: "byte \<times> u64"
  assume ok: "ParseResetPayload b = Inr x"
  then have len: "length b = 10"
    by (auto simp: ParseResetPayload_def split: if_splits)
  then have "b = go_slice b 0 1 @ go_slice b 1 2 @ go_slice b 2 10"
    by (simp add: go_slice_step go_slice_to_end)
  moreover have "go_slice b 0 1 = [b ! 0]" and "go_slice b 1 2 = [b ! 1]"
    using go_slice_single [of 0 b] go_slice_single [of 1 b] len
    by (simp_all add: numeral_2_eq_2)
  ultimately have "b = [b ! 0, b ! 1] @ go_slice b 2 10" by simp
  then show "True \<and> (case x of (reason, gen) \<Rightarrow> EncodeResetPayload reason gen) = b"
    using ok len
    by (auto simp: ParseResetPayload_def EncodeResetPayload_def PutUint_Uint split: if_splits)
qed

interpretation ack_codec: wire_codec
  EncodeBootstrapAckPayload ParseBootstrapAckPayload "\<lambda>_. True" BootstrapAckPayloadSize
proof
  fix b x
  assume "ParseBootstrapAckPayload b = Inr x"
  then show "True \<and> EncodeBootstrapAckPayload x = b"
    by (auto simp: ParseBootstrapAckPayload_def EncodeBootstrapAckPayload_def
        length_Suc_conv numeral_2_eq_2 split: if_splits)
qed (simp_all add: ParseBootstrapAckPayload_def EncodeBootstrapAckPayload_def)

lemma ValidateCreditPayload_ok:
  "ValidateCreditPayload p = None \<longleftrightarrow>
     Version p = 1 \<and> Gen p \<noteq> 0 \<and> (\<forall>b \<in> set (Reserved p). b = 0) \<and> Flags p AND 0xFE = 0"
  by (auto simp: ValidateCreditPayload_def list_all_iff)

lemma ClampCreditWindow_le: "ClampCreditWindow w cap \<le> cap" "ClampCreditWindow w cap \<le> w"
  by (auto simp: ClampCreditWindow_def)

lemma ClampCreditWindow_min: "ClampCreditWindow w cap = min w cap"
  by (auto simp: ClampCreditWindow_def)

lemma flags_reserved: "(f :: byte) AND 0xFE = 0 \<longleftrightarrow> f = 0 \<or> f = 1"
proof
  assume a: "f AND 0xFE = 0"
  have m: "(0xFE OR 1 :: byte) = - 1" by simp
  have "f = f AND (0xFE OR 1)" unfolding m by simp
  then have "f = (f AND 0xFE) OR (f AND 1)" by (simp only: bit.conj_disj_distrib)
  with a have "f = f AND 1" by simp
  then show "f = 0 \<or> f = 1" by (metis and_one_eq mod2_eq_if)
qed auto

section \<open>Properties\<close>

text \<open>C21. A peer that reads the byte stream of any sequence of successful \<open>WriteFrame\<close> calls
  gets exactly the frames that were written, in order, whatever the payloads contain; if
  the connection is cut inside the next frame, all complete frames are still delivered and
  the torn one is reported as the end of the stream, never as a frame.\<close>

theorem frame_stream_roundtrip:
  assumes "list_all2 (\<lambda>(sid, typ, p) d. WriteFrame sid typ p = Inr d) ws ds"
    and "WriteFrame sid typ p = Inr d" and "k < length d"
  shows "\<exists>err \<in> {EOF, ErrUnexpectedEOF}.
           read_frames (concat ds @ take k d) = (map frame_of ws, err)"
proof -
  from ReadFrame_torn [OF assms(2,3)]
  obtain err where err: "ReadFrame (take k d) = Inl err" "err \<in> {EOF, ErrUnexpectedEOF}" by auto
  then have "read_frames (take k d) = ([], err)" by (simp add: read_frames.simps)
  then show ?thesis
    using read_frames_written [OF assms(1), of "take k d"] err(2) by auto
qed

theorem frame_stream_roundtrip_witness:
  "\<exists>err \<in> {EOF, ErrUnexpectedEOF}.
     read_frames (concat [encodeControlFrame 7 FrameData [1, 2, 3], encodeControlFrame 7 FrameClose []]
        @ take 8 (encodeControlFrame 0 FramePing [9, 9]))
       = (map frame_of [(7, FrameData, [1, 2, 3]), (7, FrameClose, [])], err)"
  by (rule frame_stream_roundtrip [of _ _ 0 FramePing "[9, 9]"])
    (simp_all add: WriteFrame_layout encodeControlFrame_def)

text \<open>The exact wire format a credit receiver accepts: decoding and validating both succeed
  iff the payload is version 1, a non-zero generation, a cumulative count, a window, a flag
  byte with at most the Final bit, and ten zero bytes; the decoded fields are then those.\<close>

lemma credit_wire_format:
  "DecodeCreditPayload b = Inr p \<and> ValidateCreditPayload p = None \<longleftrightarrow>
     (\<exists>g c w f. b = [1] @ PutUint64 g @ PutUint64 c @ PutUint32 w @ [f] @ replicate 10 0
        \<and> g \<noteq> 0 \<and> (f = 0 \<or> f = 1)
        \<and> p = \<lparr>Version = 1, Gen = g, BytesConsumed = c, WindowGranted = w, Flags = f,
               Reserved = replicate 10 0\<rparr>)"
  (is "?l \<longleftrightarrow> ?r")
proof
  assume l: ?l
  then have wf: "length (Reserved p) = 10" and b: "EncodeCreditPayload p = b"
    using credit_codec.enc_dec [of b p] by (simp_all add: credit_wf_def)
  from l have v: "Version p = 1" "Gen p \<noteq> 0" "\<forall>x \<in> set (Reserved p). x = 0"
    "Flags p = 0 \<or> Flags p = 1"
    by (simp_all add: ValidateCreditPayload_ok flags_reserved)
  have res: "Reserved p = replicate 10 0"
    using wf v(3) by (metis replicate_eqI)
  show ?r
    using b v res wf
    by (intro exI [of _ "Gen p"] exI [of _ "BytesConsumed p"] exI [of _ "WindowGranted p"]
        exI [of _ "Flags p"]) (auto simp: EncodeCreditPayload_def)
next
  assume ?r
  then obtain g c w f where b: "b = [1] @ PutUint64 g @ PutUint64 c @ PutUint32 w @ [f] @ replicate 10 0"
    and nz: "g \<noteq> 0" and f: "f = 0 \<or> f = 1"
    and p: "p = \<lparr>Version = 1, Gen = g, BytesConsumed = c, WindowGranted = w, Flags = f,
               Reserved = replicate 10 0\<rparr>" by blast
  have "b = EncodeCreditPayload p" "credit_wf p"
    by (simp_all add: b p EncodeCreditPayload_def credit_wf_def)
  then show ?l
    using credit_codec.dec_enc [of p] nz f by (auto simp: p ValidateCreditPayload_ok)
qed

text \<open>The parsers of the Reset and BootstrapAck payloads accept exactly what their encoders
  write: a payload is accepted with a value iff it is the encoding of that value.\<close>

lemma control_payloads_exact:
  "(ParseResetPayload b = Inr (reason, gen) \<longleftrightarrow> b = EncodeResetPayload reason gen)
   \<and> (ParseBootstrapAckPayload b = Inr status \<longleftrightarrow> b = EncodeBootstrapAckPayload status)"
  using reset_codec.dec_enc [of "(reason, gen)"] reset_codec.enc_dec [of b "(reason, gen)"]
    ack_codec.dec_enc [of status] ack_codec.enc_dec [of b status]
  by auto

end
