(* ===== verification/Secret.thy ===== *)
theory Secret
  imports Prelude
begin

text \<open>
  The startup policy for the shared secret, \<^verbatim>\<open>src/pkg/mux/secret.go\<close>: which values
  \<^verbatim>\<open>ValidateSecretMaterial\<close> refuses, in the order of its checks. SHA-256 itself is a
  parameter \<open>sha256\<close> of \<open>DeriveSecret\<close>.
\<close>

abbreviation MinSecretLen :: nat where "MinSecretLen \<equiv> 32"

definition DeriveSecret :: "(bytes \<Rightarrow> bytes) \<Rightarrow> string \<Rightarrow> bytes" where
  "DeriveSecret sha256 s = sha256 (bytes_of_string s)"

text \<open>\<^verbatim>\<open>subtle.ConstantTimeCompare\<close> is 1 exactly for equal slices of equal length.\<close>

definition ValidateSecret :: "bytes \<Rightarrow> bytes \<Rightarrow> bool" where
  "ValidateSecret provided expected \<longleftrightarrow> provided = expected"

datatype secret_error = ErrSecretEmpty | ErrSecretKnownWeak | ErrSecretTooShort

definition knownWeakSecrets :: "string list" where
  "knownWeakSecrets =
     [''password'', ''passw0rd'', ''admin'', ''test'', ''secret'', ''changeme'',
      ''change-me'', ''split-secret'', ''default'', ''qwerty'', ''letmein'',
      ''123456'', ''12345678'', ''1234567890'', ''iloveyou'']"

definition knownWeakPrefixes :: "string list" where
  "knownWeakPrefixes = [''change-me'', ''your-secret'']"

definition ValidateSecretMaterial :: "string \<Rightarrow> bool \<Rightarrow> secret_error option" where
  "ValidateSecretMaterial secret allowWeak =
     (if secret = '''' then Some ErrSecretEmpty
      else (let low = ToLower secret in
        if list_ex (\<lambda>w. low = w) knownWeakSecrets then Some ErrSecretKnownWeak
        else if list_ex (\<lambda>p. HasPrefix low p) knownWeakPrefixes then Some ErrSecretKnownWeak
        else if \<not> allowWeak \<and> length secret < MinSecretLen then Some ErrSecretTooShort
        else None))"

lemma length_ToLower [simp]: "length (ToLower s) = length s"
  by (simp add: ToLower_def)

lemma lower_char_idem: "lower_char (lower_char c) = lower_char c"
  by (simp add: lower_char_def Let_def)

lemma ToLower_idem: "ToLower (ToLower s) = ToLower s"
  by (simp add: ToLower_def lower_char_idem)

text \<open>The verdict does not depend on the letter case of the secret.\<close>

lemma ValidateSecretMaterial_case:
  assumes "ToLower s = ToLower t"
  shows "ValidateSecretMaterial s w = ValidateSecretMaterial t w"
proof -
  have "length s = length t" using assms length_ToLower by metis
  then show ?thesis
    using assms by (auto simp: ValidateSecretMaterial_def Let_def)
qed

text \<open>The development bypass only waives the length: the blocklist stays in force.\<close>

lemma ValidateSecretMaterial_bypass:
  "ValidateSecretMaterial s True =
     (if ValidateSecretMaterial s False = Some ErrSecretTooShort then None
      else ValidateSecretMaterial s False)"
  by (auto simp: ValidateSecretMaterial_def Let_def)

end
