(* ===== verification/Auth.thy ===== *)
theory Auth
  imports Frame Secret
begin

text \<open>
  The carrier authentication handshake of \<^verbatim>\<open>src/pkg/mux/auth.go\<close>: the three messages, the
  server's checks of the client response, and the two ends of \<^verbatim>\<open>CarrierAuth\<close> run over the
  bytes the peer sends. HMAC-SHA256 is a parameter \<open>hmac key message\<close>; the only fact
  about it that is used is the length of a tag, named \<open>tag_len\<close> where a lemma needs it.
  Nonces and clock readings are arguments.

  A socket error, a missed deadline and a cancelled context all end the incoming byte
  stream: the handshake then fails with the reader's error. Write errors are not modelled.
\<close>

abbreviation AuthVersion :: byte where "AuthVersion \<equiv> 2"

type_synonym CarrierRole = byte

abbreviation RoleUpload :: CarrierRole where "RoleUpload \<equiv> 0x55"
abbreviation RoleDownload :: CarrierRole where "RoleDownload \<equiv> 0x44"

definition role_valid :: "CarrierRole \<Rightarrow> bool" where
  "role_valid r \<longleftrightarrow> r = RoleUpload \<or> r = RoleDownload"

abbreviation authChallengeSize :: nat where "authChallengeSize \<equiv> 22"
abbreviation authResponseSize :: nat where "authResponseSize \<equiv> 74"
abbreviation authConfirmSize :: nat where "authConfirmSize \<equiv> 50"
abbreviation authNonceSize :: nat where "authNonceSize \<equiv> 16"

text \<open>\<open>AuthMaxClockSkew\<close>, in nanoseconds as a Go \<open>Duration\<close>.\<close>

abbreviation AuthMaxClockSkew :: int where "AuthMaxClockSkew \<equiv> 60000000000"

datatype auth_error =
    ErrAuthInvalidRole
  | ErrAuthProtocol
  | ErrAuthVersion
  | ErrAuthRoleMismatch
  | ErrAuthFreshness
  | ErrAuthMAC
  | AuthIO mux_error

type_synonym mac = "bytes \<Rightarrow> bytes \<Rightarrow> bytes"

definition authMAC :: "mac \<Rightarrow> bytes \<Rightarrow> bytes list \<Rightarrow> bytes" where
  "authMAC hmac secret parts = hmac secret (concat parts)"

text \<open>\<open>now\<close> is the local clock in nanoseconds since the epoch.\<close>

definition authNow :: "int \<Rightarrow> bytes" where
  "authNow now = PutUint32 (word_of_int (now div 1000000000))"

definition authClockOK :: "int \<Rightarrow> bytes \<Rightarrow> bool" where
  "authClockOK now ts \<longleftrightarrow>
     (let d = now - int (unat (Uint32 ts)) * 1000000000;
          d' = (if d < 0 then - d else d)
      in d' \<le> AuthMaxClockSkew)"

definition buildChallenge :: "CarrierRole \<Rightarrow> int \<Rightarrow> bytes \<Rightarrow> bytes" where
  "buildChallenge role now nonce =
     [AuthVersion, role] @ copy_into 4 (authNow now) @ copy_into 16 nonce"

definition buildResponse ::
    "mac \<Rightarrow> bytes \<Rightarrow> CarrierRole \<Rightarrow> bytes \<Rightarrow> bytes \<Rightarrow> bytes \<Rightarrow> bytes" where
  "buildResponse hmac secret role challenge tsC nonceC =
     [AuthVersion, role] @ copy_into 4 tsC @ copy_into 4 (go_slice challenge 2 6)
       @ copy_into 16 (drop 6 challenge) @ copy_into 16 nonceC
       @ copy_into 32 (authMAC hmac secret [challenge, tsC, nonceC])"

definition buildConfirm ::
    "mac \<Rightarrow> bytes \<Rightarrow> CarrierRole \<Rightarrow> bytes \<Rightarrow> bytes \<Rightarrow> bytes \<Rightarrow> bytes" where
  "buildConfirm hmac secret role challenge response nonceS2 =
     [AuthVersion, role] @ copy_into 16 nonceS2
       @ copy_into 32 (authMAC hmac secret [challenge, response, nonceS2])"

definition verifyResponse ::
    "mac \<Rightarrow> bytes \<Rightarrow> CarrierRole \<Rightarrow> int \<Rightarrow> bytes \<Rightarrow> bytes \<Rightarrow> auth_error option" where
  "verifyResponse hmac secret role now challenge r =
     (if r ! 0 \<noteq> AuthVersion then Some ErrAuthVersion
      else if r ! 1 \<noteq> role then Some ErrAuthRoleMismatch
      else if go_slice r 6 10 \<noteq> go_slice challenge 2 6 \<or> go_slice r 10 26 \<noteq> drop 6 challenge
      then Some ErrAuthProtocol
      else if \<not> authClockOK now (go_slice r 2 6) then Some ErrAuthFreshness
      else if authMAC hmac secret [challenge, go_slice r 2 6, go_slice r 26 42] \<noteq> drop 42 r
      then Some ErrAuthMAC
      else None)"

definition readAuthFrame :: "nat \<Rightarrow> bytes \<Rightarrow> auth_error + (bytes \<times> bytes)" where
  "readAuthFrame wantLen br =
     (case ReadFrame br of
        Inl err \<Rightarrow> Inl (AuthIO err)
      | Inr (f, br') \<Rightarrow>
          (if Type f \<noteq> FrameAuth \<or> StreamID f \<noteq> 0 then Inl ErrAuthProtocol
           else if length (Payload f) \<noteq> wantLen then Inl ErrAuthProtocol
           else Inr (Payload f, br')))"

text \<open>
  The two branches of \<open>CarrierAuth\<close>. Each yields the payloads it wrote as FrameAuth
  frames on stream 0 and either the error or the reader's remaining bytes.
\<close>

definition CarrierAuth_server ::
    "mac \<Rightarrow> bytes \<Rightarrow> CarrierRole \<Rightarrow> int \<Rightarrow> bytes \<Rightarrow> int \<Rightarrow> bytes \<Rightarrow> bytes
      \<Rightarrow> bytes list \<times> (auth_error + bytes)" where
  "CarrierAuth_server hmac secret role now nonceS now' nonceS2 br =
     (if \<not> role_valid role then ([], Inl ErrAuthInvalidRole)
      else (let challenge = buildChallenge role now nonceS in
        case readAuthFrame authResponseSize br of
          Inl err \<Rightarrow> ([challenge], Inl err)
        | Inr (resp, br') \<Rightarrow>
            (case verifyResponse hmac secret role now' challenge resp of
               Some err \<Rightarrow> ([challenge], Inl err)
             | None \<Rightarrow>
                 ([challenge, buildConfirm hmac secret role challenge resp nonceS2], Inr br'))))"

definition CarrierAuth_client ::
    "mac \<Rightarrow> bytes \<Rightarrow> CarrierRole \<Rightarrow> int \<Rightarrow> bytes \<Rightarrow> bytes
      \<Rightarrow> bytes list \<times> (auth_error + bytes)" where
  "CarrierAuth_client hmac secret role now nonceC br =
     (if \<not> role_valid role then ([], Inl ErrAuthInvalidRole)
      else
        (case readAuthFrame authChallengeSize br of
           Inl err \<Rightarrow> ([], Inl err)
         | Inr (challenge, br1) \<Rightarrow>
             if challenge ! 0 \<noteq> AuthVersion then ([], Inl ErrAuthVersion)
             else if challenge ! 1 \<noteq> role then ([], Inl ErrAuthRoleMismatch)
             else if \<not> authClockOK now (go_slice challenge 2 6) then ([], Inl ErrAuthFreshness)
             else
               (let resp = buildResponse hmac secret role challenge (authNow now) nonceC in
                case readAuthFrame authConfirmSize br1 of
                  Inl err \<Rightarrow> ([resp], Inl err)
                | Inr (confirm, br2) \<Rightarrow>
                    if confirm ! 0 \<noteq> AuthVersion then ([resp], Inl ErrAuthVersion)
                    else if confirm ! 1 \<noteq> role then ([resp], Inl ErrAuthRoleMismatch)
                    else if authMAC hmac secret [challenge, resp, go_slice confirm 2 18]
                              \<noteq> drop 18 confirm
                    then ([resp], Inl ErrAuthMAC)
                    else ([resp], Inr br2))))"

text \<open>The bytes of one FrameAuth frame on stream 0, as \<open>writeAuth\<close> sends it.\<close>

definition auth_frame :: "bytes \<Rightarrow> bytes" where
  "auth_frame payload = encodeControlFrame 0 FrameAuth payload"

section \<open>Message layouts\<close>

lemma length_authNow [simp]: "length (authNow now) = 4"
  by (simp add: authNow_def)

lemma length_messages [simp]:
  "length (buildChallenge role now nonce) = authChallengeSize"
  "length (buildResponse hmac secret role c ts nc) = authResponseSize"
  "length (buildConfirm hmac secret role c r n2) = authConfirmSize"
  by (simp_all add: buildChallenge_def buildResponse_def buildConfirm_def)

lemma challenge_fields [codec_simps]:
  assumes "length nonce = authNonceSize"
  shows "buildChallenge role now nonce ! 0 = AuthVersion"
    and "buildChallenge role now nonce ! Suc 0 = role"
    and "go_slice (buildChallenge role now nonce) 2 6 = authNow now"
    and "drop 6 (buildChallenge role now nonce) = nonce"
  using assms by (simp_all add: buildChallenge_def codec_simps)

text \<open>Every field of a response, for a challenge and client values of the right sizes.\<close>

lemma response_fields [codec_simps]:
  assumes "length c = authChallengeSize" and "length ts = 4" and "length nc = authNonceSize"
    and tag_len: "\<And>k m. length (hmac k m) = 32"
  shows "buildResponse hmac secret role c ts nc ! 0 = AuthVersion"
    and "buildResponse hmac secret role c ts nc ! Suc 0 = role"
    and "go_slice (buildResponse hmac secret role c ts nc) 2 6 = ts"
    and "go_slice (buildResponse hmac secret role c ts nc) 6 10 = go_slice c 2 6"
    and "go_slice (buildResponse hmac secret role c ts nc) 10 26 = drop 6 c"
    and "go_slice (buildResponse hmac secret role c ts nc) 26 42 = nc"
    and "drop 42 (buildResponse hmac secret role c ts nc) = hmac secret (c @ ts @ nc)"
  using assms by (simp_all add: buildResponse_def authMAC_def codec_simps)

lemma confirm_fields [codec_simps]:
  assumes "length n2 = authNonceSize" and tag_len: "\<And>k m. length (hmac k m) = 32"
  shows "buildConfirm hmac secret role c r n2 ! 0 = AuthVersion"
    and "buildConfirm hmac secret role c r n2 ! Suc 0 = role"
    and "go_slice (buildConfirm hmac secret role c r n2) 2 18 = n2"
    and "drop 18 (buildConfirm hmac secret role c r n2) = hmac secret (c @ r @ n2)"
  using assms by (simp_all add: buildConfirm_def authMAC_def codec_simps)

lemma readAuthFrame_auth_frame:
  assumes "length p \<le> MaxPayload"
  shows "readAuthFrame n (auth_frame p @ rest) =
           (if length p = n then Inr (p, rest) else Inl ErrAuthProtocol)"
  using WriteFrame_ReadFrame [OF encodeControlFrame_eq_WriteFrame [OF assms], of 0 FrameAuth rest]
  by (simp add: readAuthFrame_def auth_frame_def)

lemma readAuthFrame_Inr:
  assumes "readAuthFrame n br = Inr (p, rest)"
  shows "length p = n \<and> br = auth_frame p @ rest"
proof -
  from assms obtain f where f: "ReadFrame br = Inr (f, rest)" "Type f = FrameAuth"
    "StreamID f = 0" "Payload f = p" "length p = n"
    by (auto simp: readAuthFrame_def split: sum.splits if_splits)
  have "word_of_nat (length p) = Length f"
    using ReadFrame_inv [OF f(1)] f(4) by simp
  with ReadFrame_inv [OF f(1)] f show ?thesis
    by (simp add: auth_frame_def encodeControlFrame_def)
qed

section \<open>What each side has established on success\<close>

lemma verifyResponse_None:
  "verifyResponse hmac secret role now challenge r = None \<longleftrightarrow>
     r ! 0 = AuthVersion \<and> r ! 1 = role \<and>
     go_slice r 6 10 = go_slice challenge 2 6 \<and> go_slice r 10 26 = drop 6 challenge \<and>
     authClockOK now (go_slice r 2 6) \<and>
     hmac secret (challenge @ go_slice r 2 6 @ go_slice r 26 42) = drop 42 r"
  by (auto simp: verifyResponse_def authMAC_def)

lemma server_success:
  assumes "CarrierAuth_server hmac secret role now nonceS now' nonceS2 br = (out, Inr rest)"
  obtains resp where "role_valid role" and "br = auth_frame resp @ rest"
    and "length resp = authResponseSize"
    and "verifyResponse hmac secret role now' (buildChallenge role now nonceS) resp = None"
    and "out = [buildChallenge role now nonceS,
                buildConfirm hmac secret role (buildChallenge role now nonceS) resp nonceS2]"
proof -
  from assms obtain resp where r: "role_valid role"
    "readAuthFrame authResponseSize br = Inr (resp, rest)"
    "verifyResponse hmac secret role now' (buildChallenge role now nonceS) resp = None"
    "out = [buildChallenge role now nonceS,
            buildConfirm hmac secret role (buildChallenge role now nonceS) resp nonceS2]"
    by (auto simp: CarrierAuth_server_def Let_def split: if_splits sum.splits option.splits)
  with readAuthFrame_Inr [OF r(2)] that show thesis by blast
qed

lemma challenge_eq_iff:
  assumes "length n = authNonceSize" and "length n' = authNonceSize"
  shows "buildChallenge role now n = buildChallenge role' now' n' \<longleftrightarrow>
           role = role' \<and> authNow now = authNow now' \<and> n = n'"
  using assms by (auto simp: buildChallenge_def)

section \<open>Properties\<close>

text \<open>Completeness of the handshake: a client and a server that hold the same secret and
  role, with 16-byte nonces and clocks within the allowed skew, both succeed; each hands
  over exactly the bytes that follow the handshake, and they exchange exactly the three
  messages challenge, response and confirmation.\<close>

lemma handshake_completes:
  fixes hmac :: mac and secret nonceS nonceC nonceS2 :: bytes
  assumes tag_len: "\<And>k m. length (hmac k m) = 32"
    and role: "role_valid role"
    and nonces: "length nonceS = authNonceSize" "length nonceC = authNonceSize"
      "length nonceS2 = authNonceSize"
    and skew: "authClockOK nowC (authNow nowS)" "authClockOK nowS' (authNow nowC)"
  defines "ch \<equiv> buildChallenge role nowS nonceS"
  defines "resp \<equiv> buildResponse hmac secret role ch (authNow nowC) nonceC"
  defines "conf \<equiv> buildConfirm hmac secret role ch resp nonceS2"
  shows "CarrierAuth_server hmac secret role nowS nonceS nowS' nonceS2 (auth_frame resp @ restC)
           = ([ch, conf], Inr restC)
       \<and> CarrierAuth_client hmac secret role nowC nonceC (auth_frame ch @ auth_frame conf @ restS)
           = ([resp], Inr restS)"
proof
  have chl: "length ch = authChallengeSize" by (simp add: ch_def)
  have chf: "ch ! 0 = AuthVersion" "ch ! 1 = role" "go_slice ch 2 6 = authNow nowS"
    using nonces(1) by (simp_all add: ch_def codec_simps)
  have rf: "resp ! 0 = AuthVersion" "resp ! 1 = role" "go_slice resp 2 6 = authNow nowC"
    "go_slice resp 6 10 = go_slice ch 2 6" "go_slice resp 10 26 = drop 6 ch"
    "go_slice resp 26 42 = nonceC" "drop 42 resp = hmac secret (ch @ authNow nowC @ nonceC)"
    unfolding resp_def using response_fields [OF chl _ nonces(2) tag_len] by simp_all
  have "verifyResponse hmac secret role nowS' ch resp = None"
    using skew(2) by (simp only: verifyResponse_None rf)
  then show "CarrierAuth_server hmac secret role nowS nonceS nowS' nonceS2 (auth_frame resp @ restC)
      = ([ch, conf], Inr restC)"
    unfolding CarrierAuth_server_def ch_def [symmetric] Let_def
    using role by (simp add: readAuthFrame_auth_frame resp_def conf_def)
  have cf: "conf ! 0 = AuthVersion" "conf ! 1 = role"
    "drop 18 conf = hmac secret (ch @ resp @ go_slice conf 2 18)"
    unfolding conf_def using confirm_fields [OF nonces(3) tag_len] by simp_all
  show "CarrierAuth_client hmac secret role nowC nonceC (auth_frame ch @ auth_frame conf @ restS)
      = ([resp], Inr restS)"
    unfolding CarrierAuth_client_def
    using role chl chf skew(1) cf
    by (simp add: readAuthFrame_auth_frame authMAC_def resp_def [symmetric] conf_def Let_def)
qed

text \<open>Witness: the upload role, clocks 3 s apart, a concrete 32-byte tag function.\<close>

lemma handshake_completes_witness:
  "let hmac = (\<lambda>k m. take 32 (k @ m @ replicate 32 0)) :: mac;
       ch = buildChallenge RoleUpload 1000000000000 (replicate 16 1);
       resp = buildResponse hmac [9] RoleUpload ch (authNow 1003000000000) (replicate 16 2);
       conf = buildConfirm hmac [9] RoleUpload ch resp (replicate 16 3)
   in CarrierAuth_server hmac [9] RoleUpload 1000000000000 (replicate 16 1) 1004000000000
        (replicate 16 3) (auth_frame resp @ [7]) = ([ch, conf], Inr [7])
    \<and> CarrierAuth_client hmac [9] RoleUpload 1003000000000 (replicate 16 2)
        (auth_frame ch @ auth_frame conf @ [8]) = ([resp], Inr [8])"
proof -
  have "authClockOK 1003000000000 (authNow 1000000000000)"
    and "authClockOK 1004000000000 (authNow 1003000000000)"
    by (simp_all add: authClockOK_def authNow_def)
  then show ?thesis
    unfolding Let_def
    by (intro handshake_completes) (simp_all add: role_valid_def)
qed

text \<open>C20. Soundness of the server side: when the server accepts, the peer sent one FrameAuth
  frame on stream 0 whose 74-byte payload carries this protocol version, the server's own
  role, an echo of the timestamp and nonce of the challenge of this very handshake, a
  timestamp within the clock skew, and the tag of that challenge under the shared secret.\<close>

theorem server_accepts_only_own_challenge:
  assumes "CarrierAuth_server hmac secret role now nonceS now' nonceS2 br = (out, Inr rest)"
    and "length nonceS = authNonceSize"
  shows "\<exists>ts nc tag. length ts = 4 \<and> length nc = authNonceSize \<and> authClockOK now' ts \<and>
           tag = hmac secret (buildChallenge role now nonceS @ ts @ nc) \<and>
           br = auth_frame ([AuthVersion, role] @ ts @ authNow now @ nonceS @ nc @ tag) @ rest"
proof -
  let ?ch = "buildChallenge role now nonceS"
  from assms(1) obtain r where br: "br = auth_frame r @ rest" and len: "length r = authResponseSize"
    and ok: "verifyResponse hmac secret role now' ?ch r = None"
    by (rule server_success)
  have split: "r = go_slice r 0 1 @ go_slice r 1 2 @ go_slice r 2 6 @ go_slice r 6 10
      @ go_slice r 10 26 @ go_slice r 26 42 @ drop 42 r"
    by (simp add: go_slice_step)
  have hd: "go_slice r 0 (Suc 0) = [r ! 0]" "go_slice r (Suc 0) 2 = [r ! Suc 0]"
    using go_slice_single [of 0 r] go_slice_single [of 1 r] len by (simp_all add: numeral_2_eq_2)
  have r: "r = [AuthVersion, role] @ go_slice r 2 6 @ authNow now @ nonceS @ go_slice r 26 42
      @ hmac secret (?ch @ go_slice r 2 6 @ go_slice r 26 42)"
    using ok assms(2) by (subst split) (simp add: verifyResponse_None hd codec_simps)
  show ?thesis
  proof (intro exI conjI)
    show "authClockOK now' (go_slice r 2 6)" using ok by (simp add: verifyResponse_None)
    show "br = auth_frame ([AuthVersion, role] @ go_slice r 2 6 @ authNow now @ nonceS
        @ go_slice r 26 42 @ hmac secret (?ch @ go_slice r 2 6 @ go_slice r 26 42)) @ rest"
      using br r by metis
  qed (use len in simp_all)
qed

theorem server_accepts_only_own_challenge_witness:
  "let hmac = (\<lambda>k m. take 32 (k @ m @ replicate 32 0)) :: mac;
       ch = buildChallenge RoleDownload 0 (replicate 16 1);
       br = auth_frame (buildResponse hmac [9] RoleDownload ch (authNow 0) (replicate 16 2)) @ []
   in \<exists>ts nc tag. length ts = 4 \<and> length nc = authNonceSize \<and> authClockOK 0 ts \<and>
        tag = hmac [9] (ch @ ts @ nc) \<and>
        br = auth_frame ([AuthVersion, RoleDownload] @ ts @ authNow 0 @ replicate 16 1 @ nc @ tag) @ []"
proof -
  let ?hmac = "(\<lambda>k m. take 32 (k @ m @ replicate 32 0)) :: mac"
  let ?ch = "buildChallenge RoleDownload 0 (replicate 16 1)"
  let ?r = "buildResponse ?hmac [9] RoleDownload ?ch (authNow 0) (replicate 16 2)"
  have "verifyResponse ?hmac [9] RoleDownload 0 ?ch ?r = None"
    by (simp add: verifyResponse_None response_fields) (simp add: authClockOK_def authNow_def)
  then have "CarrierAuth_server ?hmac [9] RoleDownload 0 (replicate 16 1) 0 [] (auth_frame ?r @ [])
      = ([?ch, buildConfirm ?hmac [9] RoleDownload ?ch ?r []], Inr [])"
    by (simp add: CarrierAuth_server_def role_valid_def readAuthFrame_auth_frame Let_def
        del: append_Nil2)
  then show ?thesis
    unfolding Let_def by (rule server_accepts_only_own_challenge) simp
qed

text \<open>Replay: a response that was built for another challenge (another nonce or another
  timestamp), by whatever secret, is refused by the echo check, before any MAC is
  computed.\<close>

lemma replayed_response_rejected:
  assumes "\<And>k m. length (hmac k m) = 32"
    and "length n = authNonceSize" "length n' = authNonceSize" "length nc = authNonceSize"
      "length ts = 4"
    and "authNow old \<noteq> authNow new \<or> n \<noteq> n'"
  shows "verifyResponse hmac secret role now (buildChallenge role new n')
           (buildResponse hmac secret' role (buildChallenge role old n) ts nc)
         = Some ErrAuthProtocol"
  using assms
  by (auto simp: verifyResponse_def response_fields challenge_fields)

lemma replayed_response_rejected_witness:
  "verifyResponse (\<lambda>k m. replicate 32 0) [9] RoleUpload 0 (buildChallenge RoleUpload 0 (replicate 16 2))
     (buildResponse (\<lambda>k m. replicate 32 0) [9] RoleUpload (buildChallenge RoleUpload 0 (replicate 16 1))
        (authNow 0) (replicate 16 5))
   = Some ErrAuthProtocol"
  by (rule replayed_response_rejected) (simp_all add: numeral_eq_Suc)

text \<open>Tag reuse: if the server accepts a response whose tag is that of an earlier client
  transcript with a different challenge (another nonce, another timestamp, or the other
  carrier role), or that of a server confirmation, then two different messages have the
  same tag under the secret.\<close>

lemma tag_reuse_is_a_collision:
  assumes "CarrierAuth_server hmac secret role now nonceS now' nonceS2 br = (out, Inr rest)"
    and "br = auth_frame resp @ rest" and "length resp \<le> MaxPayload"
    and "drop 42 resp = hmac secret m"
    and "length m \<noteq> 42 \<or> take authChallengeSize m \<noteq> buildChallenge role now nonceS"
  shows "\<exists>m'. m' \<noteq> m \<and> hmac secret m' = hmac secret m"
proof -
  let ?ch = "buildChallenge role now nonceS"
  from assms(1) obtain r where br: "br = auth_frame r @ rest" and len: "length r = authResponseSize"
    and ok: "verifyResponse hmac secret role now' ?ch r = None"
    by (rule server_success)
  have "readAuthFrame authResponseSize (auth_frame resp @ rest)
      = readAuthFrame authResponseSize (auth_frame r @ rest)"
    using br assms(2) by simp
  then have "r = resp"
    using len assms(3) by (simp add: readAuthFrame_auth_frame split: if_splits)
  let ?m = "?ch @ go_slice r 2 6 @ go_slice r 26 42"
  have "hmac secret ?m = hmac secret m"
    using ok assms(4) \<open>r = resp\<close> by (simp add: verifyResponse_None)
  moreover have "length ?m = 42" and "take authChallengeSize ?m = ?ch"
    using len by simp_all
  then have "?m \<noteq> m" using assms(5) by metis
  ultimately show ?thesis by blast
qed

lemma tag_reuse_is_a_collision_witness:
  "let hmac = (\<lambda>k m. replicate 32 0) :: mac
   in \<exists>m'. m' \<noteq> [] \<and> hmac [9] m' = hmac [9] []"
proof -
  let ?hmac = "(\<lambda>k m. replicate 32 0) :: mac"
  let ?ch = "buildChallenge RoleDownload 0 (replicate 16 1)"
  let ?r = "buildResponse ?hmac [9] RoleDownload ?ch (authNow 0) (replicate 16 2)"
  have "verifyResponse ?hmac [9] RoleDownload 0 ?ch ?r = None"
    by (simp add: verifyResponse_None response_fields) (simp add: authClockOK_def authNow_def)
  then have "CarrierAuth_server ?hmac [9] RoleDownload 0 (replicate 16 1) 0 [] (auth_frame ?r @ [])
      = ([?ch, buildConfirm ?hmac [9] RoleDownload ?ch ?r []], Inr [])"
    by (simp add: CarrierAuth_server_def role_valid_def readAuthFrame_auth_frame Let_def
        del: append_Nil2)
  then show ?thesis
    unfolding Let_def by (rule tag_reuse_is_a_collision [OF _ refl]) (simp_all add: response_fields)
qed

text \<open>No frame of another kind is accepted during the handshake: a first frame that is not
  FrameAuth, or not on stream 0, ends either side with a protocol error, and the server
  has then sent its challenge only, the client nothing.\<close>

lemma handshake_refuses_other_frames:
  assumes "role_valid role" and "ReadFrame br = Inr (f, rest)"
    and "Type f \<noteq> FrameAuth \<or> StreamID f \<noteq> 0"
  shows "CarrierAuth_server hmac secret role now nonceS now' nonceS2 br
           = ([buildChallenge role now nonceS], Inl ErrAuthProtocol)
       \<and> CarrierAuth_client hmac secret role now nonceC br = ([], Inl ErrAuthProtocol)"
  using assms by (auto simp: CarrierAuth_server_def CarrierAuth_client_def readAuthFrame_def Let_def)

lemma handshake_refuses_other_frames_witness:
  "CarrierAuth_server (\<lambda>_ _. []) [9] RoleUpload 0 [] 0 [] (encodeControlFrame 7 FrameData [1])
     = ([buildChallenge RoleUpload 0 []], Inl ErrAuthProtocol)
   \<and> CarrierAuth_client (\<lambda>_ _. []) [9] RoleUpload 0 [] (encodeControlFrame 7 FrameData [1])
     = ([], Inl ErrAuthProtocol)"
proof (rule handshake_refuses_other_frames)
  show "ReadFrame (encodeControlFrame 7 FrameData [1])
      = Inr (\<lparr>StreamID = 7, Type = FrameData, Length = 1, Payload = [1]\<rparr>, [])"
    unfolding encodeControlFrame_def ReadFrame_layout by simp
qed (simp_all add: role_valid_def)

end
