(* ===== verification/QStats.thy ===== *)
theory QStats
  imports Prelude
begin

text \<open>
  The queue telemetry of \<^verbatim>\<open>src/pkg/mux/qstats.go\<close>: the counters and the operations that
  fold one event into them. The Go counters are \<open>int64\<close> values updated atomically; here
  they are integers, and one operation is one step. A nil \<open>*QueueStats\<close> receiver is
  \<open>None\<close>, on which every operation does nothing. Of the renderer, which prints the
  counters, only the acceptance of the prefix is not a print and it is left out.
\<close>

datatype rejectReason = rejectStreamFrames | rejectStreamBytes | rejectAggregate | rejectClosed

record QueueStats =
  PushAccepted :: int
  PushRejectedStream :: int
  PushRejectedTotal :: int
  PushRejectedClosed :: int
  StreamQueuedBytesHigh :: int
  StreamQueuedFramesHigh :: int
  QueuedBytesNow :: int
  QueuedFramesNow :: int
  QueuedBytesHigh :: int
  QueuedFramesHigh :: int
  OverflowTerminations :: int
  OverflowTerminationsWorker :: int
  OverflowWaitSumNanos :: int
  OverflowWaitCount :: int
  OverflowWaitMaxNanos :: int
  DroppedDataFrames :: int
  WriteFailures :: int
  ReadFailures :: int
  ReadEOF :: int
  BlackholeDeaths :: int

definition zero_stats :: QueueStats where
  "zero_stats = \<lparr>PushAccepted = 0, PushRejectedStream = 0, PushRejectedTotal = 0,
     PushRejectedClosed = 0, StreamQueuedBytesHigh = 0, StreamQueuedFramesHigh = 0,
     QueuedBytesNow = 0, QueuedFramesNow = 0, QueuedBytesHigh = 0, QueuedFramesHigh = 0,
     OverflowTerminations = 0, OverflowTerminationsWorker = 0, OverflowWaitSumNanos = 0,
     OverflowWaitCount = 0, OverflowWaitMaxNanos = 0, DroppedDataFrames = 0,
     WriteFailures = 0, ReadFailures = 0, ReadEOF = 0, BlackholeDeaths = 0\<rparr>"

definition stats_push :: "QueueStats \<Rightarrow> QueueStats" where
  "stats_push s = s\<lparr>PushAccepted := PushAccepted s + 1\<rparr>"

definition stats_reject :: "rejectReason \<Rightarrow> QueueStats \<Rightarrow> QueueStats" where
  "stats_reject reason s =
     (case reason of
        rejectStreamFrames \<Rightarrow> s\<lparr>PushRejectedStream := PushRejectedStream s + 1\<rparr>
      | rejectStreamBytes \<Rightarrow> s\<lparr>PushRejectedStream := PushRejectedStream s + 1\<rparr>
      | rejectAggregate \<Rightarrow> s\<lparr>PushRejectedTotal := PushRejectedTotal s + 1\<rparr>
      | rejectClosed \<Rightarrow> s\<lparr>PushRejectedClosed := PushRejectedClosed s + 1\<rparr>)"

text \<open>The compare-and-swap loop ends with the maximum of the old and the new value.\<close>

definition atomicMax :: "int \<Rightarrow> int \<Rightarrow> int" where
  "atomicMax old v = (if v \<le> old then old else v)"

definition observeHighStream :: "int \<Rightarrow> int \<Rightarrow> QueueStats \<Rightarrow> QueueStats" where
  "observeHighStream nb ni s =
     s\<lparr>StreamQueuedBytesHigh := atomicMax (StreamQueuedBytesHigh s) nb,
       StreamQueuedFramesHigh := atomicMax (StreamQueuedFramesHigh s) ni\<rparr>"

definition observeHighQueued :: "int \<Rightarrow> int \<Rightarrow> QueueStats \<Rightarrow> QueueStats" where
  "observeHighQueued nb ni s =
     s\<lparr>QueuedBytesHigh := atomicMax (QueuedBytesHigh s) nb,
       QueuedFramesHigh := atomicMax (QueuedFramesHigh s) ni\<rparr>"

definition addQueued :: "int \<Rightarrow> int \<Rightarrow> QueueStats \<Rightarrow> QueueStats" where
  "addQueued bd idelta s =
     (let nb = QueuedBytesNow s + bd; ni = QueuedFramesNow s + idelta
      in observeHighQueued nb ni (s\<lparr>QueuedBytesNow := nb, QueuedFramesNow := ni\<rparr>))"

definition observeQueued :: "int \<Rightarrow> int \<Rightarrow> QueueStats \<Rightarrow> QueueStats" where
  "observeQueued nb ni s =
     observeHighQueued nb ni (s\<lparr>QueuedBytesNow := nb, QueuedFramesNow := ni\<rparr>)"

definition stats_discard :: "int \<Rightarrow> int \<Rightarrow> QueueStats \<Rightarrow> QueueStats" where
  "stats_discard nb ni s = observeHighStream nb ni s"

definition overflowTerminated :: "int \<Rightarrow> QueueStats \<Rightarrow> QueueStats" where
  "overflowTerminated wait s =
     s\<lparr>OverflowTerminations := OverflowTerminations s + 1,
       OverflowWaitSumNanos := OverflowWaitSumNanos s + wait,
       OverflowWaitCount := OverflowWaitCount s + 1,
       OverflowWaitMaxNanos := atomicMax (OverflowWaitMaxNanos s) wait\<rparr>"

definition overflowTerminatedWorker :: "QueueStats \<Rightarrow> QueueStats" where
  "overflowTerminatedWorker s =
     s\<lparr>OverflowTerminationsWorker := OverflowTerminationsWorker s + 1\<rparr>"

definition droppedDataFrame :: "QueueStats \<Rightarrow> QueueStats" where
  "droppedDataFrame s = s\<lparr>DroppedDataFrames := DroppedDataFrames s + 1\<rparr>"

definition writeFailure :: "QueueStats \<Rightarrow> QueueStats" where
  "writeFailure s = s\<lparr>WriteFailures := WriteFailures s + 1\<rparr>"

definition readFailure :: "bool \<Rightarrow> QueueStats \<Rightarrow> QueueStats" where
  "readFailure isEOF s =
     (if isEOF then s\<lparr>ReadEOF := ReadEOF s + 1\<rparr> else s\<lparr>ReadFailures := ReadFailures s + 1\<rparr>)"

definition blackholeDeath :: "QueueStats \<Rightarrow> QueueStats" where
  "blackholeDeath s = s\<lparr>BlackholeDeaths := BlackholeDeaths s + 1\<rparr>"

lemma atomicMax_max: "atomicMax a b = max a b"
  by (simp add: atomicMax_def max_def)

text \<open>The high-water marks never fall below the gauge they follow.\<close>

lemma addQueued_high:
  "QueuedBytesNow (addQueued b i s) \<le> QueuedBytesHigh (addQueued b i s)"
  "QueuedBytesHigh s \<le> QueuedBytesHigh (addQueued b i s)"
  by (simp_all add: addQueued_def observeHighQueued_def atomicMax_max Let_def)

end
