(* ===== verification/Queue.thy ===== *)
theory Queue
  imports QStats
begin

text \<open>
  The bounded per-stream mailbox of \<^verbatim>\<open>src/pkg/mux/queue.go\<close>: the primary region, the
  carry (overflow) region behind it, the shared aggregate budget, and the wake and free
  channels on which a consumer and a pusher park.

  Each exported method holds \<open>q.mu\<close> for its whole body, so one call is one step. What the
  queue's pointers reach (the carrier-wide byte budget, the carrier-wide item counter, the
  statistics) is the record \<open>shared\<close>, a nil pointer being \<open>None\<close>. The blocking
  methods \<open>Pop\<close> and \<open>PushPark\<close> are loops around one locked section; \<open>Pop_try\<close> and
  \<open>PushPark_try\<close> are that section, returning the channel to wait on when it parks.
  Channels are numbered: \<open>wake = Some c\<close> is the open channel \<open>c\<close>, every smaller number
  that is not current has been closed, so a sleeper on \<open>c\<close> is still asleep iff
  \<open>wake = Some c\<close>. Sizes and counters are integers: their values are bounded by the
  limits below, far from the ends of \<open>int64\<close>; only \<open>NewStreamQueue\<close> multiplies a
  caller's value and keeps the 64-bit wrap-around.
\<close>

section \<open>Data\<close>

record queueItem =
  payload :: bytes
  isClose :: bool

record StreamQueue =
  maxFrames :: int
  maxBytes :: int
  items :: "queueItem list"
  nBytes :: int
  overflow :: "queueItem list"
  overflowBytes :: int
  overflowCap :: int
  overflowFrameCap :: int
  qclosed :: bool
  wake :: "nat option"
  nWaiters :: nat
  free :: "nat option"
  nFreeWaiters :: nat
  budgetLimit :: int
  chanSeq :: nat

record shared =
  budget :: "int option"
  queuedItems :: "int option"
  sstats :: "QueueStats option"

definition plen :: "queueItem \<Rightarrow> int" where
  "plen it = int (length (payload it))"

definition upd_stats :: "(QueueStats \<Rightarrow> QueueStats) \<Rightarrow> shared \<Rightarrow> shared" where
  "upd_stats f sh = sh\<lparr>sstats := map_option f (sstats sh)\<rparr>"

section \<open>Operations\<close>

definition NewStreamQueue :: "int \<Rightarrow> int \<Rightarrow> int \<Rightarrow> StreamQueue" where
  "NewStreamQueue mf mb limit =
     (let frameCap = signed_take_bit 63 (mf * 16);
          frameCap' = (if frameCap < mf then mf else frameCap)
      in \<lparr>maxFrames = mf, maxBytes = mb, items = [], nBytes = 0, overflow = [],
          overflowBytes = 0, overflowCap = mb, overflowFrameCap = frameCap',
          qclosed = False, wake = None, nWaiters = 0, free = None, nFreeWaiters = 0,
          budgetLimit = limit, chanSeq = 0\<rparr>)"

definition SetBudgetLimit :: "int \<Rightarrow> StreamQueue \<Rightarrow> StreamQueue" where
  "SetBudgetLimit n q = q\<lparr>budgetLimit := n\<rparr>"

definition SetOverflowCap :: "int \<Rightarrow> StreamQueue \<Rightarrow> StreamQueue" where
  "SetOverflowCap n q = q\<lparr>overflowCap := n\<rparr>"

text \<open>The post-update totals, and the shared counters after the update.\<close>

definition adjustAggregateLocked :: "int \<Rightarrow> int \<Rightarrow> shared \<Rightarrow> (int \<times> int) \<times> shared" where
  "adjustAggregateLocked bytesDelta itemsDelta sh =
     (let sh1 = sh\<lparr>budget := map_option (\<lambda>b. b + bytesDelta) (budget sh),
                   queuedItems := map_option (\<lambda>n. n + itemsDelta) (queuedItems sh)\<rparr>;
          sh2 = upd_stats (\<lambda>s. s\<lparr>QueuedBytesNow := QueuedBytesNow s + bytesDelta,
                                 QueuedFramesNow := QueuedFramesNow s + itemsDelta\<rparr>) sh1;
          totalBytes = (case budget sh2 of Some b \<Rightarrow> b
                        | None \<Rightarrow> (case sstats sh2 of Some s \<Rightarrow> QueuedBytesNow s | None \<Rightarrow> 0));
          totalItems = (case queuedItems sh2 of Some n \<Rightarrow> n
                        | None \<Rightarrow> (case sstats sh2 of Some s \<Rightarrow> QueuedFramesNow s | None \<Rightarrow> 0))
      in ((totalBytes, totalItems), sh2))"

definition fullLocked :: "StreamQueue \<Rightarrow> queueItem \<Rightarrow> bool" where
  "fullLocked q it \<longleftrightarrow>
     length (overflow q) > 0 \<or> int (length (items q)) \<ge> maxFrames q \<or>
     nBytes q + plen it > maxBytes q"

definition rejectReasonLocked :: "StreamQueue \<Rightarrow> queueItem \<Rightarrow> rejectReason" where
  "rejectReasonLocked q it =
     (if qclosed q then rejectClosed
      else if length (overflow q) > 0 then rejectStreamFrames
      else if int (length (items q)) \<ge> maxFrames q then rejectStreamFrames
      else if nBytes q + plen it > maxBytes q then rejectStreamBytes
      else rejectAggregate)"

definition wakeLocked :: "StreamQueue \<Rightarrow> StreamQueue" where
  "wakeLocked q = (if nWaiters q > 0 then q\<lparr>wake := None, nWaiters := 0\<rparr> else q)"

definition signalFreeLocked :: "StreamQueue \<Rightarrow> StreamQueue" where
  "signalFreeLocked q = (if nFreeWaiters q > 0 then q\<lparr>free := None, nFreeWaiters := 0\<rparr> else q)"

definition overBudget :: "StreamQueue \<Rightarrow> shared \<Rightarrow> queueItem \<Rightarrow> bool" where
  "overBudget q sh it \<longleftrightarrow> (case budget sh of None \<Rightarrow> False | Some b \<Rightarrow> b + plen it > budgetLimit q)"

text \<open>The two accepting tails, shared by \<open>TryPushReason\<close>, \<open>TryCarry\<close> and \<open>PushPark\<close>.\<close>

definition appendPrimary :: "queueItem \<Rightarrow> StreamQueue \<Rightarrow> shared \<Rightarrow> StreamQueue \<times> shared" where
  "appendPrimary it q sh =
     (let q1 = q\<lparr>items := items q @ [it], nBytes := nBytes q + plen it\<rparr>;
          ((tb, ti), sh1) = adjustAggregateLocked (plen it) 1 sh;
          sh2 = upd_stats (\<lambda>s. observeHighQueued tb ti
                  (observeHighStream (nBytes q1) (int (length (items q1))) (stats_push s))) sh1
      in (wakeLocked q1, sh2))"

definition appendCarry :: "queueItem \<Rightarrow> StreamQueue \<Rightarrow> shared \<Rightarrow> StreamQueue \<times> shared" where
  "appendCarry it q sh =
     (let q1 = q\<lparr>overflow := overflow q @ [it], overflowBytes := overflowBytes q + plen it\<rparr>;
          ((tb, ti), sh1) = adjustAggregateLocked (plen it) 1 sh
      in (wakeLocked q1, upd_stats (observeHighQueued tb ti) sh1))"

text \<open>\<open>None\<close> is acceptance, \<open>Some r\<close> the refusal and its reason.\<close>

definition TryPushReason ::
    "queueItem \<Rightarrow> StreamQueue \<Rightarrow> shared \<Rightarrow> rejectReason option \<times> StreamQueue \<times> shared" where
  "TryPushReason it q sh =
     (if qclosed q \<or> fullLocked q it
      then (let r = rejectReasonLocked q it in (Some r, q, upd_stats (stats_reject r) sh))
      else if overBudget q sh it
      then (Some rejectAggregate, q, upd_stats (stats_reject rejectAggregate) sh)
      else (None, appendPrimary it q sh))"

definition TryPush :: "queueItem \<Rightarrow> StreamQueue \<Rightarrow> shared \<Rightarrow> bool \<times> StreamQueue \<times> shared" where
  "TryPush it q sh = (let (r, q', sh') = TryPushReason it q sh in (r = None, q', sh'))"

definition carryFull :: "StreamQueue \<Rightarrow> queueItem \<Rightarrow> bool" where
  "carryFull q it \<longleftrightarrow>
     overflowCap q \<le> 0 \<or> int (length (overflow q)) \<ge> overflowFrameCap q \<or>
     overflowBytes q + plen it > overflowCap q"

definition TryCarry ::
    "queueItem \<Rightarrow> StreamQueue \<Rightarrow> shared \<Rightarrow> rejectReason option \<times> StreamQueue \<times> shared" where
  "TryCarry it q sh =
     (if qclosed q then (Some rejectClosed, q, upd_stats (stats_reject rejectClosed) sh)
      else if carryFull q it
      then (Some rejectAggregate, q, upd_stats (stats_reject rejectAggregate) sh)
      else if overBudget q sh it
      then (Some rejectAggregate, q, upd_stats (stats_reject rejectAggregate) sh)
      else (None, appendCarry it q sh))"

datatype park_result = ParkAccepted | ParkClosed | Parked nat

definition PushPark_try ::
    "queueItem \<Rightarrow> StreamQueue \<Rightarrow> shared \<Rightarrow> park_result \<times> StreamQueue \<times> shared" where
  "PushPark_try it q sh =
     (if qclosed q then (ParkClosed, q, sh)
      else if \<not> fullLocked q it \<and> \<not> overBudget q sh it then (ParkAccepted, appendPrimary it q sh)
      else if \<not> carryFull q it \<and> \<not> overBudget q sh it then (ParkAccepted, appendCarry it q sh)
      else (let (f, q1) = (case free q of
                             Some c \<Rightarrow> (c, q)
                           | None \<Rightarrow> (chanSeq q, q\<lparr>free := Some (chanSeq q), chanSeq := chanSeq q + 1\<rparr>))
            in (Parked f, q1\<lparr>nFreeWaiters := nFreeWaiters q1 + 1\<rparr>, sh)))"

definition OverflowLen :: "StreamQueue \<Rightarrow> int" where
  "OverflowLen q = int (length (overflow q))"

definition OverflowDataLen :: "StreamQueue \<Rightarrow> int" where
  "OverflowDataLen q = int (length (filter (\<lambda>it. \<not> isClose it) (overflow q)))"

definition QueueDataLen :: "StreamQueue \<Rightarrow> int" where
  "QueueDataLen q = int (length (filter (\<lambda>it. \<not> isClose it) (items q)))
     + int (length (filter (\<lambda>it. \<not> isClose it) (overflow q)))"

definition overflowLocked ::
    "StreamQueue \<Rightarrow> shared \<Rightarrow> (queueItem option) \<times> StreamQueue \<times> shared" where
  "overflowLocked q sh =
     (case overflow q of
        [] \<Rightarrow> (None, q, sh)
      | it # rest \<Rightarrow>
          (let q1 = q\<lparr>overflow := rest, overflowBytes := overflowBytes q - plen it\<rparr>;
               ((tb, ti), sh1) = adjustAggregateLocked (- plen it) (-1) sh
           in (Some it, signalFreeLocked q1, upd_stats (observeHighQueued tb ti) sh1)))"

datatype pop_result = Popped queueItem | PopClosed | PopParked nat

definition Pop_try :: "StreamQueue \<Rightarrow> shared \<Rightarrow> pop_result \<times> StreamQueue \<times> shared" where
  "Pop_try q sh =
     (case items q of
        it # rest \<Rightarrow>
          (let q1 = q\<lparr>items := rest, nBytes := nBytes q - plen it\<rparr>;
               ((tb, ti), sh1) = adjustAggregateLocked (- plen it) (-1) sh;
               sh2 = upd_stats (\<lambda>s. observeHighQueued tb ti
                       (observeHighStream (nBytes q) (int (length (items q))) s)) sh1
           in (Popped it, signalFreeLocked q1, sh2))
      | [] \<Rightarrow>
          (case overflowLocked q sh of
             (Some it, q1, sh1) \<Rightarrow> (Popped it, q1, sh1)
           | (None, _, _) \<Rightarrow>
               if qclosed q then (PopClosed, q, sh)
               else (let (w, q1) = (case wake q of
                              Some c \<Rightarrow> (c, q)
                            | None \<Rightarrow> (chanSeq q, q\<lparr>wake := Some (chanSeq q), chanSeq := chanSeq q + 1\<rparr>))
                     in (PopParked w, q1\<lparr>nWaiters := nWaiters q1 + 1\<rparr>, sh))))"

definition queue_Close :: "StreamQueue \<Rightarrow> shared \<Rightarrow> int \<times> StreamQueue \<times> shared" where
  "queue_Close q sh =
     (if qclosed q then (0, q, sh)
      else
        (let sh1 = upd_stats (stats_discard (nBytes q) (int (length (items q)))) sh;
             discarded = nBytes q + overflowBytes q;
             discardedItems = int (length (items q)) + int (length (overflow q));
             q1 = q\<lparr>qclosed := True, items := [], nBytes := 0, overflow := [], overflowBytes := 0\<rparr>;
             ((tb, ti), sh2) = adjustAggregateLocked (- discarded) (- discardedItems) sh1
         in (discarded, signalFreeLocked (wakeLocked q1), upd_stats (observeHighQueued tb ti) sh2)))"


section \<open>One interface to the operations\<close>

text \<open>
  Every call a carrier makes on a mailbox, as one step with one result type. \<open>MPark\<close> is
  the locked section of \<open>PushPark\<close>, \<open>MPop\<close> that of \<open>Pop\<close>.
\<close>

datatype mailbox_op =
    MPush queueItem
  | MCarry queueItem
  | MPark queueItem
  | MPop
  | MClose

datatype mailbox_res =
    MAccepted
  | MRefused rejectReason
  | MShut
  | MBlocked nat
  | MItem queueItem
  | MDiscarded int

definition push_res :: "rejectReason option \<Rightarrow> mailbox_res" where
  "push_res r = (case r of None \<Rightarrow> MAccepted | Some x \<Rightarrow> MRefused x)"

definition park_res :: "park_result \<Rightarrow> mailbox_res" where
  "park_res r = (case r of ParkAccepted \<Rightarrow> MAccepted | ParkClosed \<Rightarrow> MShut | Parked c \<Rightarrow> MBlocked c)"

definition pop_res :: "pop_result \<Rightarrow> mailbox_res" where
  "pop_res r = (case r of Popped it \<Rightarrow> MItem it | PopClosed \<Rightarrow> MShut | PopParked c \<Rightarrow> MBlocked c)"

primrec mailbox_step ::
    "mailbox_op \<Rightarrow> StreamQueue \<Rightarrow> shared \<Rightarrow> mailbox_res \<times> StreamQueue \<times> shared" where
  "mailbox_step (MPush it) q sh = apfst push_res (TryPushReason it q sh)"
| "mailbox_step (MCarry it) q sh = apfst push_res (TryCarry it q sh)"
| "mailbox_step (MPark it) q sh = apfst park_res (PushPark_try it q sh)"
| "mailbox_step MPop q sh = apfst pop_res (Pop_try q sh)"
| "mailbox_step MClose q sh = apfst MDiscarded (queue_Close q sh)"

text \<open>Delivery order is the primary region, then the carry region.\<close>

definition contents :: "StreamQueue \<Rightarrow> queueItem list" where
  "contents q = items q @ overflow q"

definition qbytes :: "StreamQueue \<Rightarrow> int" where
  "qbytes q = nBytes q + overflowBytes q"

definition qcount :: "StreamQueue \<Rightarrow> int" where
  "qcount q = int (length (contents q))"

text \<open>
  The queue half and the counter half of the accepting and removing tails, so that case
  analysis on an operation does not open the statistics.
\<close>

definition moved :: "int \<Rightarrow> int \<Rightarrow> shared \<Rightarrow> shared \<Rightarrow> bool" where
  "moved db di sh sh' \<longleftrightarrow>
     budget sh' = map_option (\<lambda>b. b + db) (budget sh) \<and>
     queuedItems sh' = map_option (\<lambda>n. n + di) (queuedItems sh)"

lemma upd_stats_sel [simp]:
  "budget (upd_stats f sh) = budget sh" "queuedItems (upd_stats f sh) = queuedItems sh"
  "sstats (upd_stats f sh) = map_option f (sstats sh)"
  by (simp_all add: upd_stats_def)

lemma adjust_sel [simp]:
  "budget (snd (adjustAggregateLocked db di sh)) = map_option (\<lambda>b. b + db) (budget sh)"
  "queuedItems (snd (adjustAggregateLocked db di sh)) = map_option (\<lambda>n. n + di) (queuedItems sh)"
  by (simp_all add: adjustAggregateLocked_def Let_def)

lemma wake_signal_sel [simp]:
  "items (wakeLocked q) = items q" "nBytes (wakeLocked q) = nBytes q"
  "overflow (wakeLocked q) = overflow q" "overflowBytes (wakeLocked q) = overflowBytes q"
  "qclosed (wakeLocked q) = qclosed q" "free (wakeLocked q) = free q"
  "nFreeWaiters (wakeLocked q) = nFreeWaiters q" "chanSeq (wakeLocked q) = chanSeq q"
  "maxFrames (wakeLocked q) = maxFrames q" "maxBytes (wakeLocked q) = maxBytes q"
  "budgetLimit (wakeLocked q) = budgetLimit q" "overflowCap (wakeLocked q) = overflowCap q"
  "overflowFrameCap (wakeLocked q) = overflowFrameCap q"
  "items (signalFreeLocked q) = items q" "nBytes (signalFreeLocked q) = nBytes q"
  "overflow (signalFreeLocked q) = overflow q" "overflowBytes (signalFreeLocked q) = overflowBytes q"
  "qclosed (signalFreeLocked q) = qclosed q" "wake (signalFreeLocked q) = wake q"
  "nWaiters (signalFreeLocked q) = nWaiters q" "chanSeq (signalFreeLocked q) = chanSeq q"
  "maxFrames (signalFreeLocked q) = maxFrames q" "maxBytes (signalFreeLocked q) = maxBytes q"
  "budgetLimit (signalFreeLocked q) = budgetLimit q" "overflowCap (signalFreeLocked q) = overflowCap q"
  "overflowFrameCap (signalFreeLocked q) = overflowFrameCap q"
  by (simp_all add: wakeLocked_def signalFreeLocked_def)

lemma wake_wakeLocked [simp]:
  "wake (wakeLocked q) = (if 0 < nWaiters q then None else wake q)"
  "nWaiters (wakeLocked q) = 0"
  "free (signalFreeLocked q) = (if 0 < nFreeWaiters q then None else free q)"
  "nFreeWaiters (signalFreeLocked q) = 0"
  by (simp_all add: wakeLocked_def signalFreeLocked_def)

lemma appendPrimary_fst:
  "fst (appendPrimary it q sh) = wakeLocked (q\<lparr>items := items q @ [it], nBytes := nBytes q + plen it\<rparr>)"
  by (simp add: appendPrimary_def Let_def split: prod.splits)

lemma appendCarry_fst:
  "fst (appendCarry it q sh) =
     wakeLocked (q\<lparr>overflow := overflow q @ [it], overflowBytes := overflowBytes q + plen it\<rparr>)"
  by (simp add: appendCarry_def Let_def split: prod.splits)

lemma append_moved:
  "moved (plen it) 1 sh (snd (appendPrimary it q sh))"
  "moved (plen it) 1 sh (snd (appendCarry it q sh))"
proof -
  obtain tb ti sh1 where a: "adjustAggregateLocked (plen it) 1 sh = ((tb, ti), sh1)"
    by (metis prod.exhaust)
  have "moved (plen it) 1 sh sh1"
    using adjust_sel [of "plen it" 1 sh] a by (simp add: moved_def)
  with a show "moved (plen it) 1 sh (snd (appendPrimary it q sh))"
    "moved (plen it) 1 sh (snd (appendCarry it q sh))"
    by (simp_all add: appendPrimary_def appendCarry_def moved_def Let_def)
qed

text \<open>The possible transitions of a mailbox, the statistics left out.\<close>

inductive mailbox_trans ::
    "mailbox_op \<Rightarrow> StreamQueue \<Rightarrow> shared \<Rightarrow> mailbox_res \<Rightarrow> StreamQueue \<Rightarrow> shared \<Rightarrow> bool" where
  primary: "op = MPush it \<or> op = MPark it \<Longrightarrow> \<not> qclosed q \<Longrightarrow> \<not> fullLocked q it \<Longrightarrow>
    \<not> overBudget q sh it \<Longrightarrow> moved (plen it) 1 sh sh' \<Longrightarrow>
    q' = wakeLocked (q\<lparr>items := items q @ [it], nBytes := nBytes q + plen it\<rparr>) \<Longrightarrow>
    mailbox_trans op q sh MAccepted q' sh'"
| carry: "op = MCarry it \<or> op = MPark it \<Longrightarrow> \<not> qclosed q \<Longrightarrow> \<not> carryFull q it \<Longrightarrow>
    \<not> overBudget q sh it \<Longrightarrow> moved (plen it) 1 sh sh' \<Longrightarrow>
    q' = wakeLocked (q\<lparr>overflow := overflow q @ [it], overflowBytes := overflowBytes q + plen it\<rparr>) \<Longrightarrow>
    mailbox_trans op q sh MAccepted q' sh'"
| refuse: "op = MPush it \<or> op = MCarry it \<Longrightarrow> moved 0 0 sh sh' \<Longrightarrow>
    mailbox_trans op q sh (MRefused r) q sh'"
| shut: "op = MPark it \<or> op = MPop \<and> contents q = [] \<Longrightarrow> qclosed q \<Longrightarrow> mailbox_trans op q sh MShut q sh"
| park: "\<not> qclosed q \<Longrightarrow> (fullLocked q it \<and> carryFull q it) \<or> overBudget q sh it \<Longrightarrow>
    c = (case free q of Some c \<Rightarrow> c | None \<Rightarrow> chanSeq q) \<Longrightarrow>
    q' = q\<lparr>free := Some c, nFreeWaiters := nFreeWaiters q + 1,
           chanSeq := (if free q = None then chanSeq q + 1 else chanSeq q)\<rparr> \<Longrightarrow>
    mailbox_trans (MPark it) q sh (MBlocked c) q' sh"
| sleep: "\<not> qclosed q \<Longrightarrow> contents q = [] \<Longrightarrow>
    c = (case wake q of Some c \<Rightarrow> c | None \<Rightarrow> chanSeq q) \<Longrightarrow>
    q' = q\<lparr>wake := Some c, nWaiters := nWaiters q + 1,
           chanSeq := (if wake q = None then chanSeq q + 1 else chanSeq q)\<rparr> \<Longrightarrow>
    mailbox_trans MPop q sh (MBlocked c) q' sh"
| pop_primary: "items q = it # rest \<Longrightarrow> moved (- plen it) (- 1) sh sh' \<Longrightarrow>
    q' = signalFreeLocked (q\<lparr>items := rest, nBytes := nBytes q - plen it\<rparr>) \<Longrightarrow>
    mailbox_trans MPop q sh (MItem it) q' sh'"
| pop_carry: "items q = [] \<Longrightarrow> overflow q = it # rest \<Longrightarrow> moved (- plen it) (- 1) sh sh' \<Longrightarrow>
    q' = signalFreeLocked (q\<lparr>overflow := rest, overflowBytes := overflowBytes q - plen it\<rparr>) \<Longrightarrow>
    mailbox_trans MPop q sh (MItem it) q' sh'"
| reclose: "qclosed q \<Longrightarrow> mailbox_trans MClose q sh (MDiscarded 0) q sh"
| close: "\<not> qclosed q \<Longrightarrow> moved (- qbytes q) (- qcount q) sh sh' \<Longrightarrow>
    q' = signalFreeLocked (wakeLocked (q\<lparr>qclosed := True, items := [], nBytes := 0,
            overflow := [], overflowBytes := 0\<rparr>)) \<Longrightarrow>
    mailbox_trans MClose q sh (MDiscarded (qbytes q)) q' sh'"

section \<open>What a mailbox holds\<close>

definition bytes_of :: "queueItem list \<Rightarrow> int" where
  "bytes_of its = (\<Sum>it\<leftarrow>its. plen it)"

lemma bytes_of_simps [simp]:
  "bytes_of [] = 0" "bytes_of (it # its) = plen it + bytes_of its"
  "bytes_of (its @ its') = bytes_of its + bytes_of its'"
  by (simp_all add: bytes_of_def)

lemma plen_nonneg [simp]: "0 \<le> plen it"
  by (simp add: plen_def)

lemma plen_drop: "plen it + x \<le> c \<Longrightarrow> x \<le> c"
  using plen_nonneg [of it] by linarith

lemma minus_plen: "x \<le> c \<Longrightarrow> x - plen it \<le> c"
  using plen_nonneg [of it] by linarith

lemma bytes_of_nonneg [simp]: "0 \<le> bytes_of its"
  by (induction its) simp_all

text \<open>
  The well-formedness of a mailbox: the byte counters are the sums they stand for, both
  regions are within their bounds, a closed mailbox is empty, and a channel is open exactly
  while somebody waits on it.
\<close>

definition queue_wf :: "StreamQueue \<Rightarrow> bool" where
  "queue_wf q \<longleftrightarrow>
     nBytes q = bytes_of (items q) \<and> overflowBytes q = bytes_of (overflow q) \<and>
     (qclosed q \<longrightarrow> items q = [] \<and> overflow q = []) \<and>
     (wake q \<noteq> None \<longleftrightarrow> 0 < nWaiters q) \<and> (free q \<noteq> None \<longleftrightarrow> 0 < nFreeWaiters q) \<and>
     (\<forall>c. wake q = Some c \<or> free q = Some c \<longrightarrow> c < chanSeq q)"

definition queue_bounded :: "StreamQueue \<Rightarrow> bool" where
  "queue_bounded q \<longleftrightarrow>
     (items q = [] \<or> int (length (items q)) \<le> maxFrames q \<and> nBytes q \<le> maxBytes q) \<and>
     (overflow q = [] \<or>
        int (length (overflow q)) \<le> overflowFrameCap q \<and> overflowBytes q \<le> overflowCap q)"

lemma NewStreamQueue_wf:
  "queue_wf (NewStreamQueue mf mb lim)" "queue_bounded (NewStreamQueue mf mb lim)"
  "contents (NewStreamQueue mf mb lim) = []"
  by (simp_all add: NewStreamQueue_def queue_wf_def queue_bounded_def contents_def Let_def)

lemma moved_sh [simp]: "moved 0 0 sh sh" "moved 0 0 sh (upd_stats f sh)"
  by (simp_all add: moved_def option.map_ident)

lemma moved_upd [simp]: "moved db di sh (upd_stats f sh') = moved db di sh sh'"
  by (simp add: moved_def)

lemma moved_adjust [simp]:
  "adjustAggregateLocked db di sh = (t, sh') \<Longrightarrow> moved db di sh sh'"
  using adjust_sel [of db di sh] by (simp add: moved_def)

lemma moved_upd_left [simp]: "moved db di (upd_stats f sh) sh' = moved db di sh sh'"
  by (simp add: moved_def)

lemma moved_adjust_upd [simp]:
  "adjustAggregateLocked db di (upd_stats f sh) = (t, sh') \<Longrightarrow> moved db di sh sh'"
  using moved_adjust [of db di "upd_stats f sh"] by simp

lemma TryPush_trans: "mailbox_step (MPush it) q sh = (r, q', sh') \<Longrightarrow> mailbox_trans (MPush it) q sh r q' sh'"
  using append_moved(1) [of it sh q] appendPrimary_fst [of it q sh]
  by (auto simp: TryPushReason_def push_res_def Let_def intro!: mailbox_trans.primary
      mailbox_trans.refuse split: if_splits)

lemma TryCarry_trans: "mailbox_step (MCarry it) q sh = (r, q', sh') \<Longrightarrow> mailbox_trans (MCarry it) q sh r q' sh'"
  using append_moved(2) [of it sh q] appendCarry_fst [of it q sh]
  by (auto simp: TryCarry_def push_res_def Let_def intro!: mailbox_trans.carry
      mailbox_trans.refuse split: if_splits)

lemma PushPark_trans: "mailbox_step (MPark it) q sh = (r, q', sh') \<Longrightarrow> mailbox_trans (MPark it) q sh r q' sh'"
  using append_moved [of it sh q] appendPrimary_fst [of it q sh] appendCarry_fst [of it q sh]
  by (auto simp: PushPark_try_def park_res_def intro: mailbox_trans.intros split: if_splits option.splits)

lemma Pop_trans:
  assumes step: "mailbox_step MPop q sh = (r, q', sh')"
  shows "mailbox_trans MPop q sh r q' sh'"
proof (cases "items q")
  case (Cons it rest)
  then show ?thesis
    using step
    by (auto simp: Pop_try_def pop_res_def Let_def split: prod.splits
        intro!: mailbox_trans.pop_primary)
next
  case Nil
  show ?thesis
  proof (cases "overflow q")
    case (Cons it rest)
    with Nil show ?thesis
      using step
      by (auto simp: Pop_try_def overflowLocked_def pop_res_def Let_def split: prod.splits
          intro!: mailbox_trans.pop_carry)
  next
    case empty: Nil
    then have "contents q = []" using Nil by (simp add: contents_def)
    then show ?thesis
      using step Nil empty
      by (auto simp: Pop_try_def overflowLocked_def pop_res_def Let_def
          split: if_splits option.splits intro: mailbox_trans.shut intro!: mailbox_trans.sleep)
  qed
qed

lemma Close_trans: "mailbox_step MClose q sh = (r, q', sh') \<Longrightarrow> mailbox_trans MClose q sh r q' sh'"
  by (auto simp: queue_Close_def Let_def
      intro: mailbox_trans.reclose
      intro!: mailbox_trans.close [unfolded qbytes_def qcount_def contents_def]
      split: if_splits prod.splits)

lemma mailbox_step_trans:
  "mailbox_step op q sh = (r, q', sh') \<Longrightarrow> mailbox_trans op q sh r q' sh'"
  by (cases op) (blast intro: TryPush_trans TryCarry_trans PushPark_trans Pop_trans Close_trans)+

text \<open>What no operation changes.\<close>

lemma mailbox_trans_limits:
  assumes "mailbox_trans op q sh r q' sh'"
  shows "maxFrames q' = maxFrames q" "maxBytes q' = maxBytes q" "budgetLimit q' = budgetLimit q"
    "overflowCap q' = overflowCap q" "overflowFrameCap q' = overflowFrameCap q"
    "qclosed q \<Longrightarrow> qclosed q'" "chanSeq q \<le> chanSeq q'"
  using assms by (cases; auto)+

lemma mailbox_trans_wf:
  assumes "mailbox_trans op q sh r q' sh'" and "queue_wf q"
  shows "queue_wf q'"
  using assms
  by cases (auto simp: queue_wf_def contents_def split: option.splits)

lemma mailbox_trans_bounded:
  assumes "mailbox_trans op q sh r q' sh'" and "queue_wf q" and "queue_bounded q"
  shows "queue_bounded q'"
  using assms
  by cases (auto simp: queue_wf_def queue_bounded_def fullLocked_def carryFull_def dest: plen_drop)

text \<open>
  The shared counters move by exactly what the mailbox gains or loses, and never past the
  budget limit on a gain.
\<close>

lemma mailbox_trans_moved:
  assumes "mailbox_trans op q sh r q' sh'"
  shows "moved (qbytes q' - qbytes q) (qcount q' - qcount q) sh sh'"
  using assms
  by cases (auto simp: qbytes_def qcount_def contents_def)

lemma mailbox_trans_budget:
  assumes "mailbox_trans op q sh r q' sh'" and "queue_wf q"
    and "budget sh = Some b" and "b \<le> budgetLimit q"
  shows "\<exists>b'. budget sh' = Some b' \<and> b' \<le> budgetLimit q"
  using assms
proof -
  have "0 \<le> qbytes q" using assms(2) by (simp add: queue_wf_def qbytes_def)
  with assms(1) show ?thesis
    using assms(3,4)
    by cases (auto simp: moved_def overBudget_def intro: minus_plen)
qed

section \<open>Mailboxes as queues\<close>

text \<open>
  The contract of a mailbox towards its users: an operation that is not the closing one
  appends what it accepts to the contents and removes what it hands out from their front;
  a closed mailbox is empty, stays closed and neither accepts nor hands out anything.
\<close>

locale fifo_mailbox =
  fixes step :: "'op \<Rightarrow> 's \<Rightarrow> 'r \<times> 's"
    and content :: "'s \<Rightarrow> 'i list"
    and ins :: "'op \<Rightarrow> 'r \<Rightarrow> 'i list"
    and outs :: "'r \<Rightarrow> 'i list"
    and dead :: "'s \<Rightarrow> bool"
    and closing :: "'op \<Rightarrow> bool"
    and inv :: "'s \<Rightarrow> bool"
  assumes inv_step: "inv s \<Longrightarrow> step op s = (r, s') \<Longrightarrow> inv s'"
    and flow: "inv s \<Longrightarrow> step op s = (r, s') \<Longrightarrow> \<not> closing op \<Longrightarrow>
      content s @ ins op r = outs r @ content s'"
    and closes: "inv s \<Longrightarrow> step op s = (r, s') \<Longrightarrow> closing op \<Longrightarrow> dead s' \<and> ins op r = [] \<and> outs r = []"
    and dead_step: "inv s \<Longrightarrow> dead s \<Longrightarrow> step op s = (r, s') \<Longrightarrow> dead s' \<and> ins op r = [] \<and> outs r = []"
    and dead_empty: "inv s \<Longrightarrow> dead s \<Longrightarrow> content s = []"
begin

primrec run :: "'op list \<Rightarrow> 's \<Rightarrow> 'i list \<times> 'i list \<times> 's" where
  "run [] s = ([], [], s)"
| "run (op # ops) s =
     (let (r, s1) = step op s; (i, out, s2) = run ops s1 in (ins op r @ i, outs r @ out, s2))"

lemma run_inv: "inv s \<Longrightarrow> run ops s = (i, out, s') \<Longrightarrow> inv s'"
  by (induction ops arbitrary: s i out) (auto split: prod.splits dest: inv_step)

lemma run_flow:
  "inv s \<Longrightarrow> run ops s = (i, out, s') \<Longrightarrow> \<not> list_ex closing ops \<Longrightarrow> content s @ i = out @ content s'"
proof (induction ops arbitrary: s i out)
  case Nil
  then show ?case by simp
next
  case (Cons op ops)
  obtain r s1 where st: "step op s = (r, s1)" by fastforce
  obtain i2 out2 where rn: "run ops s1 = (i2, out2, s')" and io: "i = ins op r @ i2" "out = outs r @ out2"
    using Cons.prems(2) st by (auto split: prod.splits)
  have "content s @ ins op r = outs r @ content s1"
    using flow [OF Cons.prems(1) st] Cons.prems(3) by simp
  moreover have "content s1 @ i2 = out2 @ content s'"
    using Cons.IH [OF inv_step [OF Cons.prems(1) st] rn] Cons.prems(3) by simp
  ultimately show ?case by (metis io append.assoc)
qed

lemma run_dead:
  "inv s \<Longrightarrow> dead s \<Longrightarrow> run ops s = (i, out, s') \<Longrightarrow> dead s' \<and> i = [] \<and> out = []"
  by (induction ops arbitrary: s i out)
    (auto split: prod.splits dest: dead_step inv_step)

lemma run_prefix:
  "inv s \<Longrightarrow> run ops s = (i, out, s') \<Longrightarrow> \<exists>rest. content s @ i = out @ rest"
proof (induction ops arbitrary: s i out)
  case Nil
  then show ?case by simp
next
  case (Cons op ops)
  obtain r s1 where st: "step op s = (r, s1)" by fastforce
  obtain i2 out2 where rn: "run ops s1 = (i2, out2, s')" and io: "i = ins op r @ i2" "out = outs r @ out2"
    using Cons.prems(2) st by (auto split: prod.splits)
  have inv1: "inv s1" using inv_step [OF Cons.prems(1) st] .
  show ?case
  proof (cases "closing op")
    case True
    then have "dead s1 \<and> ins op r = [] \<and> outs r = []" using closes [OF Cons.prems(1) st] by simp
    then show ?thesis using run_dead [OF inv1 _ rn] io by simp
  next
    case False
    have "content s @ ins op r = outs r @ content s1" using flow [OF Cons.prems(1) st False] .
    then show ?thesis using Cons.IH [OF inv1 rn] io by (metis append.assoc)
  qed
qed

end

fun offered :: "mailbox_op \<Rightarrow> queueItem list" where
  "offered (MPush it) = [it]" | "offered (MCarry it) = [it]" | "offered (MPark it) = [it]"
| "offered _ = []"

definition op_ins :: "mailbox_op \<Rightarrow> mailbox_res \<Rightarrow> queueItem list" where
  "op_ins op r = (if r = MAccepted then offered op else [])"

fun res_outs :: "mailbox_res \<Rightarrow> queueItem list" where
  "res_outs (MItem it) = [it]" | "res_outs _ = []"

text \<open>The same flow law on the transition relation.\<close>

lemma mailbox_trans_flow:
  assumes "mailbox_trans op q sh r q' sh'" and "op \<noteq> MClose"
  shows "contents q @ op_ins op r = res_outs r @ contents q'"
  using assms
  by cases (auto simp: contents_def op_ins_def fullLocked_def)

interpretation mb: fifo_mailbox
  "\<lambda>op (q, sh). mailbox_step op q sh" "\<lambda>(q, sh). contents q" op_ins res_outs
  "\<lambda>(q, sh). qclosed q" "\<lambda>op. op = MClose" "\<lambda>(q, sh). queue_wf q"
proof (unfold_locales, goal_cases)
  case (1 s op r s')
  then show ?case
    by (cases s; cases s') (auto dest: mailbox_step_trans mailbox_trans_wf)
next
  case (2 s op r s')
  then show ?case
    by (cases s; cases s') (auto dest!: mailbox_step_trans mailbox_trans_flow)
next
  case (3 s op r s')
  then show ?case
    by (cases s; cases s')
      (auto dest!: mailbox_step_trans elim!: mailbox_trans.cases simp: op_ins_def
        simp del: mailbox_step.simps)
next
  case (4 s op r s')
  then show ?case
    by (cases s; cases s')
      (auto dest!: mailbox_step_trans elim!: mailbox_trans.cases simp: op_ins_def queue_wf_def)
next
  case (5 s)
  then show ?case by (cases s) (auto simp: queue_wf_def contents_def)
qed

primrec mailbox_run ::
    "mailbox_op list \<Rightarrow> StreamQueue \<Rightarrow> shared
       \<Rightarrow> queueItem list \<times> queueItem list \<times> StreamQueue \<times> shared" where
  "mailbox_run [] q sh = ([], [], q, sh)"
| "mailbox_run (op # ops) q sh =
     (let (r, q1, sh1) = mailbox_step op q sh; (i, out, q2, sh2) = mailbox_run ops q1 sh1
      in (op_ins op r @ i, res_outs r @ out, q2, sh2))"

lemma mailbox_run_eq: "mb.run ops (q, sh) = mailbox_run ops q sh"
  by (induction ops arbitrary: q sh) (auto split: prod.splits)

text \<open>The shapes of the results.\<close>

inductive_cases MPush_transE: "mailbox_trans (MPush it) q sh r q' sh'"
inductive_cases MCarry_transE: "mailbox_trans (MCarry it) q sh r q' sh'"
inductive_cases MPark_transE: "mailbox_trans (MPark it) q sh r q' sh'"
inductive_cases MPop_transE: "mailbox_trans MPop q sh r q' sh'"
inductive_cases MClose_transE: "mailbox_trans MClose q sh r q' sh'"

lemma mailbox_trans_qclosed:
  assumes "mailbox_trans op q sh r q' sh'"
  shows "qclosed q' \<longleftrightarrow> qclosed q \<or> op = MClose"
  using assms by cases auto

text \<open>A consumer that sleeps on the open channel still faces an empty open mailbox after
  any operation but its own pop.\<close>

lemma mailbox_trans_sleeper:
  assumes "mailbox_trans op q sh r q' sh'" and "queue_wf q" and "op \<noteq> MPop"
    and "w < chanSeq q" and "wake q = Some w \<Longrightarrow> contents q = [] \<and> \<not> qclosed q"
  shows "w < chanSeq q' \<and> (wake q' = Some w \<longrightarrow> contents q' = [] \<and> \<not> qclosed q')"
  using assms
  by cases (auto simp: queue_wf_def contents_def split: option.splits)

lemma mailbox_trans_parker:
  assumes "mailbox_trans op q sh r q' sh'" and "queue_wf q"
    and "w < chanSeq q" and "free q = Some w \<Longrightarrow> \<not> qclosed q"
  shows "w < chanSeq q' \<and> (free q' = Some w \<longrightarrow> \<not> qclosed q')"
  using assms
  by cases (auto simp: queue_wf_def split: option.splits)

section \<open>Sleeping and waking\<close>

text \<open>
  One mailbox with its consumer (the stream worker) and its pusher (the dispatcher), each
  asleep on a channel or running, and the other users of the shared counters. A sleeper
  runs again once its channel has been closed, that is when it is no longer the current one.
  A transition is a label; it yields \<open>None\<close> when the thread concerned cannot take it.
\<close>

record mailbox_sys =
  mq :: StreamQueue
  msh :: shared
  consumer :: "nat option"
  pusher :: "(nat \<times> queueItem) option"

datatype sys_label = LPop | LPush mailbox_op | LRetry | LClose | LOthers shared

definition blocked_on :: "mailbox_res \<Rightarrow> nat option" where
  "blocked_on r = (case r of MBlocked c \<Rightarrow> Some c | _ \<Rightarrow> None)"

definition consumer_runs :: "mailbox_sys \<Rightarrow> bool" where
  "consumer_runs s \<longleftrightarrow> (case consumer s of None \<Rightarrow> True | Some c \<Rightarrow> wake (mq s) \<noteq> Some c)"

definition do_push :: "mailbox_op \<Rightarrow> queueItem \<Rightarrow> mailbox_sys \<Rightarrow> mailbox_sys" where
  "do_push op it s =
     (let (r, q, sh) = mailbox_step op (mq s) (msh s)
      in s\<lparr>mq := q, msh := sh, pusher := map_option (\<lambda>c. (c, it)) (blocked_on r)\<rparr>)"

fun sys_do :: "sys_label \<Rightarrow> mailbox_sys \<Rightarrow> mailbox_sys option" where
  "sys_do LPop s =
     (if consumer_runs s
      then (let (r, q, sh) = mailbox_step MPop (mq s) (msh s)
            in Some (s\<lparr>mq := q, msh := sh, consumer := blocked_on r\<rparr>))
      else None)"
| "sys_do (LPush op) s =
     (case offered op of
        [it] \<Rightarrow> if pusher s = None then Some (do_push op it s) else None
      | _ \<Rightarrow> None)"
| "sys_do LRetry s =
     (case pusher s of
        Some (c, it) \<Rightarrow> if free (mq s) \<noteq> Some c then Some (do_push (MPark it) it s) else None
      | None \<Rightarrow> None)"
| "sys_do LClose s =
     (let (r, q, sh) = mailbox_step MClose (mq s) (msh s) in Some (s\<lparr>mq := q, msh := sh\<rparr>))"
| "sys_do (LOthers sh) s =
     (if (budget sh = None) = (budget (msh s) = None) then Some (s\<lparr>msh := sh\<rparr>) else None)"

fun sys_run :: "sys_label list \<Rightarrow> mailbox_sys \<Rightarrow> mailbox_sys option" where
  "sys_run [] s = Some s"
| "sys_run (l # ls) s = (case sys_do l s of None \<Rightarrow> None | Some s1 \<Rightarrow> sys_run ls s1)"

definition sys_init :: "int \<Rightarrow> int \<Rightarrow> int \<Rightarrow> shared \<Rightarrow> mailbox_sys" where
  "sys_init mf mb lim sh =
     \<lparr>mq = NewStreamQueue mf mb lim, msh = sh, consumer = None, pusher = None\<rparr>"

definition sys_inv :: "mailbox_sys \<Rightarrow> bool" where
  "sys_inv s \<longleftrightarrow>
     queue_wf (mq s) \<and>
     (\<forall>c. consumer s = Some c \<longrightarrow> c < chanSeq (mq s) \<and>
        (wake (mq s) = Some c \<longrightarrow> contents (mq s) = [] \<and> \<not> qclosed (mq s))) \<and>
     (\<forall>c it. pusher s = Some (c, it) \<longrightarrow> c < chanSeq (mq s) \<and>
        (free (mq s) = Some c \<longrightarrow> \<not> qclosed (mq s) \<and>
           (budget (msh s) = None \<longrightarrow> fullLocked (mq s) it \<and> carryFull (mq s) it)))"

lemma mailbox_sys_inv_pop:
  assumes "sys_inv s" and "sys_do LPop s = Some s'" shows "sys_inv s'"
proof -
  obtain r q sh where st: "mailbox_step MPop (mq s) (msh s) = (r, q, sh)"
    and s': "s' = s\<lparr>mq := q, msh := sh, consumer := blocked_on r\<rparr>"
    using assms(2) by (auto simp: Let_def split: if_splits prod.splits)
  have tr: "mailbox_trans MPop (mq s) (msh s) r q sh" by (rule mailbox_step_trans [OF st])
  moreover have "queue_wf q" using mailbox_trans_wf [OF tr] assms(1) by (simp add: sys_inv_def)
  ultimately show ?thesis
    using assms(1) unfolding sys_inv_def s'
    by cases (auto simp: blocked_on_def queue_wf_def contents_def moved_def fullLocked_def
        carryFull_def split: option.splits)
qed

lemma mailbox_sys_inv_push:
  assumes "sys_inv s" and "op \<in> {MPush it, MCarry it, MPark it}"
  shows "sys_inv (do_push op it s)"
proof -
  obtain r q sh where st: "mailbox_step op (mq s) (msh s) = (r, q, sh)" by (metis prod.exhaust)
  then have s': "do_push op it s =
      s\<lparr>mq := q, msh := sh, pusher := map_option (\<lambda>c. (c, it)) (blocked_on r)\<rparr>"
    by (simp add: do_push_def)
  have tr: "mailbox_trans op (mq s) (msh s) r q sh" by (rule mailbox_step_trans [OF st])
  moreover have "queue_wf q" using mailbox_trans_wf [OF tr] assms(1) by (simp add: sys_inv_def)
  ultimately show ?thesis
    using assms unfolding sys_inv_def s'
    by cases (auto simp: blocked_on_def queue_wf_def contents_def overBudget_def fullLocked_def
        carryFull_def split: option.splits)
qed

lemma mailbox_sys_inv_close:
  assumes "sys_inv s" and "sys_do LClose s = Some s'" shows "sys_inv s'"
proof -
  obtain r q sh where st: "mailbox_step MClose (mq s) (msh s) = (r, q, sh)" by (metis prod.exhaust)
  then have s': "s' = s\<lparr>mq := q, msh := sh\<rparr>" using assms(2) by (simp del: mailbox_step.simps)
  have tr: "mailbox_trans MClose (mq s) (msh s) r q sh" by (rule mailbox_step_trans [OF st])
  moreover have "queue_wf q" using mailbox_trans_wf [OF tr] assms(1) by (simp add: sys_inv_def)
  ultimately show ?thesis
    using assms(1) unfolding sys_inv_def s'
    by cases (auto simp: queue_wf_def contents_def)
qed

lemma offered_single: "offered op = [it] \<Longrightarrow> op \<in> {MPush it, MCarry it, MPark it}"
  by (cases op) auto

lemma sys_inv_step: "sys_inv s \<Longrightarrow> sys_do l s = Some s' \<Longrightarrow> sys_inv s'"
proof (cases l)
  case (LPush op)
  assume "sys_inv s" "sys_do l s = Some s'"
  with LPush show ?thesis
    by (auto split: list.splits if_splits dest!: offered_single intro!: mailbox_sys_inv_push)
next
  case LRetry
  assume "sys_inv s" "sys_do l s = Some s'"
  with LRetry show ?thesis
    by (auto split: option.splits if_splits intro!: mailbox_sys_inv_push)
next
  case (LOthers sh)
  assume "sys_inv s" "sys_do l s = Some s'"
  with LOthers show ?thesis by (auto simp: sys_inv_def split: if_splits)
qed (auto simp del: sys_do.simps dest: mailbox_sys_inv_pop mailbox_sys_inv_close)

lemma sys_init_inv: "sys_inv (sys_init mf mb lim sh)"
  by (simp add: sys_init_def sys_inv_def NewStreamQueue_wf)

interpretation mailbox_sys: run_system sys_do sys_run
  by unfold_locales simp_all

lemma sys_inv_run: "sys_inv s \<Longrightarrow> sys_run ls s = Some s' \<Longrightarrow> sys_inv s'"
  by (erule mailbox_sys.exec_inv) (auto dest: sys_inv_step)

lemma sys_step_budget:
  "sys_do l s = Some s' \<Longrightarrow> (budget (msh s') = None) = (budget (msh s) = None)"
proof -
  have *: "mailbox_step op q sh = (r, q', sh') \<Longrightarrow> (budget sh' = None) = (budget sh = None)"
    for op q sh r q' sh'
    using mailbox_trans_moved [OF mailbox_step_trans] by (auto simp: moved_def)
  show "sys_do l s = Some s' \<Longrightarrow> ?thesis"
    by (cases l) (auto simp: do_push_def Let_def simp del: mailbox_step.simps dest: *
        split: if_splits prod.splits list.splits option.splits)
qed

lemma sys_run_limits:
  "sys_run ls s = Some s' \<Longrightarrow> maxFrames (mq s') = maxFrames (mq s) \<and> maxBytes (mq s') = maxBytes (mq s)
     \<and> (budget (msh s') = None) = (budget (msh s) = None)"
proof -
  have "maxFrames (mq s1) = maxFrames (mq s0) \<and> maxBytes (mq s1) = maxBytes (mq s0)"
    if "sys_do l s0 = Some s1" for l s0 s1
    using that
    by (cases l) (auto simp: do_push_def Let_def simp del: mailbox_step.simps
        dest!: mailbox_step_trans dest: mailbox_trans_limits
        split: if_splits prod.splits list.splits option.splits)
  then show "sys_run ls s = Some s' \<Longrightarrow> ?thesis"
    by (elim mailbox_sys.exec_mono) (auto dest: sys_step_budget)
qed

text \<open>
  The starvation case: once the consumer has emptied the mailbox and sleeps, no step of
  anyone but \<open>Close\<close> closes the channel the pusher sleeps on.
\<close>

definition starved :: "mailbox_sys \<Rightarrow> bool" where
  "starved s \<longleftrightarrow> (\<exists>c it d. pusher s = Some (c, it) \<and> free (mq s) = Some c \<and>
     consumer s = Some d \<and> wake (mq s) = Some d \<and> contents (mq s) = [])"

lemma starved_step:
  assumes "starved s" and "sys_do l s = Some s'" and "l \<noteq> LClose"
  shows "starved s' \<and> pusher s' = pusher s \<and> mq s' = mq s"
  using assms
  by (cases l) (auto simp: starved_def consumer_runs_def split: if_splits list.splits)

lemma starved_run:
  assumes "starved s" and "sys_run ls s = Some s'" and "LClose \<notin> set ls"
  shows "starved s' \<and> pusher s' = pusher s \<and> mq s' = mq s"
  using assms(2)
  by (rule mailbox_sys.exec_inv [where I = "\<lambda>t. starved t \<and> pusher t = pusher s \<and> mq t = mq s"])
    (use assms in \<open>auto dest: starved_step\<close>)

section \<open>Concrete mailboxes\<close>

definition frame_item :: "bytes \<Rightarrow> queueItem" where
  "frame_item p = \<lparr>payload = p, isClose = False\<rparr>"

definition counters :: "int \<Rightarrow> shared" where
  "counters b = \<lparr>budget = Some b, queuedItems = Some 0, sstats = None\<rparr>"

lemmas mailbox_eval = TryPushReason_def TryCarry_def PushPark_try_def Pop_try_def queue_Close_def
  overflowLocked_def appendPrimary_def appendCarry_def adjustAggregateLocked_def wakeLocked_def
  signalFreeLocked_def push_res_def park_res_def pop_res_def fullLocked_def carryFull_def
  overBudget_def rejectReasonLocked_def upd_stats_def NewStreamQueue_def frame_item_def
  counters_def op_ins_def plen_def Let_def

section \<open>Properties\<close>




definition no_budget :: shared where
  "no_budget = \<lparr>budget = None, queuedItems = None, sstats = None\<rparr>"

definition wakeup_run :: "sys_label list" where
  "wakeup_run = [LPush (MPark (frame_item [1])), LPush (MPark (frame_item [2])),
     LPush (MPark (frame_item [3]))]"


text \<open>A parked pusher can starve: once its own mailbox has been drained and the consumer
  sleeps, no step other than \<open>Close\<close> wakes it, whatever the other streams do to the shared
  budget. (The witness reaches such a state from a fresh mailbox with another stream
  holding the budget, which that stream then gives back in full: the frame would now be
  accepted, yet its pusher sleeps.)\<close>

lemma parked_pusher_starves:
  assumes "pusher s = Some (c, it)" and "free (mq s) = Some c"
    and "consumer s = Some d" and "wake (mq s) = Some d" and "contents (mq s) = []"
    and "sys_run ls s = Some s'" and "LClose \<notin> set ls"
  shows "pusher s' = Some (c, it) \<and> free (mq s') = Some c \<and> contents (mq s') = []"
proof -
  have "starved s" using assms(1-5) by (auto simp: starved_def)
  from starved_run [OF this assms(6,7)] show ?thesis using assms(1,2,5) by simp
qed

definition starving_run :: "sys_label list" where
  "starving_run =
     [LOthers (counters 9), LPush (MPush (frame_item [1])), LPush (MPush (frame_item [2, 3])),
      LPush (MCarry (frame_item [2, 3])), LPush (MPark (frame_item [2, 3])),
      LPop, LRetry, LPop]"

lemma parked_pusher_starves_witness:
  "\<exists>s s'. sys_run starving_run (sys_init 1 10 10 (counters 0)) = Some s \<and>
     sys_run [LOthers (counters 0)] s = Some s' \<and>
     pusher s' = Some (1, frame_item [2, 3]) \<and> free (mq s') = Some 1 \<and> contents (mq s') = [] \<and>
     \<not> qclosed (mq s') \<and> \<not> fullLocked (mq s') (frame_item [2, 3]) \<and>
     \<not> overBudget (mq s') (msh s') (frame_item [2, 3])"
proof -
  obtain s where run: "sys_run starving_run (sys_init 1 10 10 (counters 0)) = Some s"
    and s: "pusher s = Some (1, frame_item [2, 3])" "free (mq s) = Some 1" "consumer s = Some 2"
      "wake (mq s) = Some 2" "contents (mq s) = []" "\<not> qclosed (mq s)" "maxFrames (mq s) = 1"
      "maxBytes (mq s) = 10" "budgetLimit (mq s) = 10" "nBytes (mq s) = 0" "budget (msh s) \<noteq> None"
    by (simp add: starving_run_def sys_init_def do_push_def mailbox_eval blocked_on_def
        consumer_runs_def contents_def)
  obtain s' where run': "sys_run [LOthers (counters 0)] s = Some s'"
    and s': "mq s' = mq s" "msh s' = counters 0"
    using s(11) by (simp add: counters_def)
  show ?thesis
    using parked_pusher_starves [OF s(1-5) run'] run run' s s'
    by (auto simp: fullLocked_def overBudget_def plen_def counters_def frame_item_def contents_def)
qed

end
