(* ===== verification/Carrier.thy ===== *)
theory Carrier
  imports Queue Frame
begin

text \<open>
  The carrier connection of \<^verbatim>\<open>src/pkg/mux/carrier.go\<close>: stream registration, the read
  loop's frame checks, the dispatcher with its deliver-or-fail policy, the per-stream
  workers, termination, the liveness rounds and Close.

  The state is the record \<open>CarrierConn\<close>. Stream records live in the append-only list
  \<open>allStreams\<close> and are referred to by index, as the code refers to them by pointer;
  \<open>streams\<close> is the map from stream ids. The goroutines are explicit: the dispatcher has a
  program counter (\<open>dispatcher\<close>), each stream worker a state (\<open>worker\<close>), and one
  transition is one section of code between two points where another goroutine can
  interfere (a mailbox call, a channel send, a check of an atomic flag). What the
  environment decides, whether a hand-off on the consumer channel goes through or times
  out, is an argument of the transition. Callbacks are the list \<open>events\<close>, each emitted
  only when the callback is set; frames accepted by the control writer are \<open>ctrlOut\<close>;
  what was sent on the consumer channel of a stream is \<open>ch\<close>, where \<open>None\<close> is Go's nil.
  The field \<open>fed\<close> records, for the statements only, the items the dispatcher was asked to
  deliver on a stream.
\<close>

section \<open>Data\<close>

record StreamLimits =
  MaxFramesPerStream :: int
  MaxBytesPerStream :: int
  MaxBytesTotal :: int
  OverflowWait :: int
  ConsumerStall :: int

abbreviation MaxFrames :: int where "MaxFrames \<equiv> 16"
abbreviation DefaultLivenessRounds :: int where "DefaultLivenessRounds \<equiv> 3"

definition DefaultStreamLimits :: StreamLimits where
  "DefaultStreamLimits = \<lparr>MaxFramesPerStream = MaxFrames, MaxBytesPerStream = 704 * 1024,
     MaxBytesTotal = 16 * 1024 * 1024, OverflowWait = 100000000, ConsumerStall = 30000000000\<rparr>"

definition SanitizeLimits :: "StreamLimits \<Rightarrow> mux_error + StreamLimits" where
  "SanitizeLimits l0 =
     (let d = DefaultStreamLimits;
          l1 = (if MaxFramesPerStream l0 \<le> 0 \<or> MaxFramesPerStream l0 > MaxFrames
                then l0\<lparr>MaxFramesPerStream := MaxFramesPerStream d\<rparr> else l0);
          l2 = (if MaxBytesPerStream l1 \<le> 0 then l1\<lparr>MaxBytesPerStream := MaxBytesPerStream d\<rparr> else l1);
          l3 = (if MaxBytesTotal l2 \<le> 0 then l2\<lparr>MaxBytesTotal := MaxBytesTotal d\<rparr> else l2);
          l4 = (if OverflowWait l3 \<le> 0 then l3\<lparr>OverflowWait := OverflowWait d\<rparr> else l3);
          l5 = (if ConsumerStall l4 \<le> 0 then l4\<lparr>ConsumerStall := ConsumerStall d\<rparr> else l4)
      in if MaxBytesTotal l5 < MaxBytesPerStream l5
         then Inl (ErrLimits (MaxBytesTotal l5) (MaxBytesPerStream l5)) else Inr l5)"

text \<open>Where a stream worker stands: about to pop, asleep in \<open>Pop\<close>, holding a popped item on
  the hand-off, or returned.\<close>

datatype worker_state = WRun | WSleep nat | WHold queueItem | WExited

record streamRec =
  rid :: u32
  mbox :: StreamQueue
  ch :: "bytes option list"
  terminated :: bool
  callback :: bool
  pressureStart :: "int option"
  stopped :: bool
  worker :: worker_state
  fed :: "queueItem list"

text \<open>Where the dispatcher stands inside \<open>deliver\<close> or \<open>deliverClose\<close> for one item.\<close>

datatype dispatch_pc =
    DIdle
  | DDeliver nat queueItem
  | DRefused nat queueItem rejectReason
  | DPark nat queueItem
  | DPushPark nat queueItem
  | DParked nat queueItem nat
  | DShut nat queueItem
  | DFail nat queueItem

datatype carrier_event =
    EvNewStream u32 byte nat
  | EvTerminated u32
  | EvUndeliverable u32
  | EvReset u32 byte u64
  | EvBootstrapAck u32 byte
  | EvCredit u32 CreditPayload

text \<open>The steps of \<open>Close\<close>: not called, connection shut, mailboxes closed, finished.\<close>

datatype close_phase = Open | ClosingConn | MailboxesClosed | Closed

record CarrierConn =
  limits :: StreamLimits
  close_st :: close_phase
  streams :: "u32 \<rightharpoonup> nat"
  allStreams :: "streamRec list"
  csh :: shared
  livenessRounds :: int
  sawPong :: bool
  missed :: int
  frames :: "frame list"
  readErr :: "mux_error option"
  readDone :: bool
  ctrlOut :: "bytes list"
  events :: "carrier_event list"
  dispatcher :: dispatch_pc
  onNewStream :: bool
  onStreamTerminated :: bool
  onStreamDataUndeliverable :: bool
  onStreamReset :: bool
  onStreamBootstrapAck :: bool
  onStreamCredit :: bool

definition closing :: "CarrierConn \<Rightarrow> bool" where
  "closing c \<longleftrightarrow> close_st c \<noteq> Open"

text \<open>A new carrier; the callbacks are assigned by the node before the loops see a frame.\<close>

definition newCarrierConn :: CarrierConn where
  "newCarrierConn = \<lparr>limits = DefaultStreamLimits, close_st = Open, streams = Map.empty,
     allStreams = [], csh = \<lparr>budget = Some 0, queuedItems = Some 0, sstats = None\<rparr>,
     livenessRounds = DefaultLivenessRounds, sawPong = False, missed = 0, frames = [],
     readErr = None, readDone = False, ctrlOut = [], events = [], dispatcher = DIdle,
     onNewStream = False, onStreamTerminated = False, onStreamDataUndeliverable = False,
     onStreamReset = False, onStreamBootstrapAck = False, onStreamCredit = False\<rparr>"

section \<open>Helpers\<close>

definition upd_stream :: "nat \<Rightarrow> (streamRec \<Rightarrow> streamRec) \<Rightarrow> CarrierConn \<Rightarrow> CarrierConn" where
  "upd_stream i f c = c\<lparr>allStreams := (allStreams c)[i := f (allStreams c ! i)]\<rparr>"

text \<open>One call on the mailbox of stream record \<open>i\<close>; the counters it reaches are the carrier's.\<close>

definition on_queue :: "nat \<Rightarrow> mailbox_op \<Rightarrow> CarrierConn \<Rightarrow> mailbox_res \<times> CarrierConn" where
  "on_queue i op c =
     (let (r, q', sh') = mailbox_step op (mbox (allStreams c ! i)) (csh c)
      in (r, (upd_stream i (\<lambda>s. s\<lparr>mbox := q'\<rparr>) c)\<lparr>csh := sh'\<rparr>))"

definition emit :: "bool \<Rightarrow> carrier_event \<Rightarrow> CarrierConn \<Rightarrow> CarrierConn" where
  "emit hook ev c = (if hook then c\<lparr>events := events c @ [ev]\<rparr> else c)"

definition stat :: "(QueueStats \<Rightarrow> QueueStats) \<Rightarrow> CarrierConn \<Rightarrow> CarrierConn" where
  "stat f c = c\<lparr>csh := upd_stats f (csh c)\<rparr>"

text \<open>\<open>nil\<close> for an item that has no payload bytes: \<open>ReadFrame\<close> leaves the payload nil then.\<close>

definition handoff :: "queueItem \<Rightarrow> bytes option" where
  "handoff it = (if isClose it \<or> payload it = [] then None else Some (payload it))"

section \<open>Control writes\<close>

definition writeControl :: "bytes \<Rightarrow> CarrierConn \<Rightarrow> mux_error option \<times> CarrierConn" where
  "writeControl data c =
     (if closing c then (Some ErrCarrierClosed, c) else (None, c\<lparr>ctrlOut := ctrlOut c @ [data]\<rparr>))"

definition WriteControlFrame ::
    "u32 \<Rightarrow> byte \<Rightarrow> bytes \<Rightarrow> CarrierConn \<Rightarrow> mux_error option \<times> CarrierConn" where
  "WriteControlFrame sid typ p c = writeControl (encodeControlFrame sid typ p) c"

section \<open>Configuration\<close>

definition SetQueueStats :: "QueueStats option \<Rightarrow> CarrierConn \<Rightarrow> CarrierConn" where
  "SetQueueStats s c = c\<lparr>csh := (csh c)\<lparr>sstats := s\<rparr>\<rparr>"

definition SetStreamLimits :: "StreamLimits \<Rightarrow> CarrierConn \<Rightarrow> mux_error + CarrierConn" where
  "SetStreamLimits l c =
     (case SanitizeLimits l of
        Inl err \<Rightarrow> Inl err
      | Inr s \<Rightarrow> Inr (c\<lparr>limits := s,
          allStreams := map (\<lambda>r. r\<lparr>mbox := SetOverflowCap (MaxBytesPerStream s)
                                       (SetBudgetLimit (MaxBytesTotal s) (mbox r))\<rparr>) (allStreams c)\<rparr>))"

definition SetLivenessRounds :: "int \<Rightarrow> CarrierConn \<Rightarrow> CarrierConn" where
  "SetLivenessRounds rounds c = (if rounds > 0 then c\<lparr>livenessRounds := rounds\<rparr> else c)"

section \<open>Streams\<close>

definition new_stream :: "u32 \<Rightarrow> bool \<Rightarrow> StreamLimits \<Rightarrow> streamRec" where
  "new_stream sid cb l =
     \<lparr>rid = sid,
      mbox = SetOverflowCap (MaxBytesPerStream l)
            (NewStreamQueue (MaxFramesPerStream l) (MaxBytesPerStream l) (MaxBytesTotal l)),
      ch = [], terminated = False, callback = cb, pressureStart = None, stopped = False,
      worker = WRun, fed = []\<rparr>"

definition createStreamLocked :: "u32 \<Rightarrow> bool \<Rightarrow> CarrierConn \<Rightarrow> nat option \<times> CarrierConn" where
  "createStreamLocked sid cb c =
     (if sid = 0 then (None, c)
      else (case streams c sid of
              Some i \<Rightarrow> (Some i, c)
            | None \<Rightarrow>
                (Some (length (allStreams c)),
                 c\<lparr>streams := (streams c)(sid \<mapsto> length (allStreams c)),
                   allStreams := allStreams c @ [new_stream sid cb (limits c)]\<rparr>)))"

definition Register :: "u32 \<Rightarrow> CarrierConn \<Rightarrow> nat option \<times> CarrierConn" where
  "Register sid c =
     (if closing c \<or> sid = 0 then (None, c)
      else (case streams c sid of Some i \<Rightarrow> (Some i, c) | None \<Rightarrow> createStreamLocked sid False c))"

definition Deregister :: "u32 \<Rightarrow> CarrierConn \<Rightarrow> CarrierConn" where
  "Deregister sid c = c\<lparr>streams := (streams c)(sid := None)\<rparr>"

text \<open>\<open>sent\<close>: the nil hand-off goes through before the carrier closes or \<open>OverflowWait\<close> ends.\<close>

definition terminateStream :: "nat \<Rightarrow> bool \<Rightarrow> bool \<Rightarrow> CarrierConn \<Rightarrow> CarrierConn" where
  "terminateStream i signalPeer sent c =
     (if stopped (allStreams c ! i) then c
      else (let sid = rid (allStreams c ! i);
                c1 = upd_stream i (\<lambda>s. s\<lparr>stopped := True, terminated := True\<rparr>) c;
                c2 = emit (onStreamTerminated c1) (EvTerminated sid) c1;
                c3 = snd (on_queue i MClose c2);
                c4 = (if signalPeer then snd (WriteControlFrame sid FrameClose [] c3) else c3)
            in if sent then upd_stream i (\<lambda>s. s\<lparr>ch := ch s @ [None]\<rparr>) c4 else c4))"

definition Terminate :: "u32 \<Rightarrow> bool \<Rightarrow> CarrierConn \<Rightarrow> CarrierConn" where
  "Terminate sid sent c =
     (let closingNow = closing c;
          (s, c1) = (case streams c sid of
                       Some i \<Rightarrow> (Some i, c)
                     | None \<Rightarrow> if \<not> closingNow then createStreamLocked sid False c else (None, c))
      in (case s of
            None \<Rightarrow> c1
          | Some i \<Rightarrow> if closingNow then c1 else terminateStream i True sent c1))"

section \<open>The read loop\<close>

text \<open>The frame checks of the loop body; \<open>None\<close> when the frame is passed to the dispatcher.\<close>

definition readLoop_check :: "frame \<Rightarrow> CarrierConn \<Rightarrow> mux_error option" where
  "readLoop_check f c =
     (if Type f = FrameAuth \<or> (StreamID f = 0 \<and> Type f \<noteq> FramePing \<and> Type f \<noteq> FramePong)
      then Some ErrProtocolViolation
      else if Type f = FrameCredit
      then (if length (Payload f) \<noteq> CreditPayloadSize then Some ErrCreditMalformedLength
            else if streams c (StreamID f) = None then Some ErrCreditUnknownStream
            else None)
      else None)"

text \<open>
  One iteration, given what \<open>ReadFrame\<close> returned. The frame channel holds 256 frames;
  the iteration waits while it is full. On a closed carrier the select may drop the frame.
\<close>

definition readLoop_step :: "mux_error + frame \<Rightarrow> bool \<Rightarrow> CarrierConn \<Rightarrow> CarrierConn option" where
  "readLoop_step rd dropped c =
     (if readDone c then None
      else (case rd of
              Inl err \<Rightarrow> Some (stat (readFailure (err = EOF)) (c\<lparr>readErr := Some err, readDone := True\<rparr>))
            | Inr f \<Rightarrow>
                (case readLoop_check f c of
                   Some err \<Rightarrow> Some (c\<lparr>readErr := Some err, readDone := True\<rparr>)
                 | None \<Rightarrow>
                     if closing c \<and> dropped then Some (c\<lparr>readDone := True\<rparr>)
                     else if length (frames c) < 256 then Some (c\<lparr>frames := frames c @ [f]\<rparr>)
                     else None)))"

section \<open>The dispatcher\<close>

definition set_pc :: "dispatch_pc \<Rightarrow> CarrierConn \<Rightarrow> CarrierConn" where
  "set_pc pc c = c\<lparr>dispatcher := pc\<rparr>"

text \<open>
  The body of the dispatch loop up to the call of \<open>deliver\<close>. \<open>None\<close> is the nil
  dereference the code would commit for a stream-0 frame, for which \<open>createStreamLocked\<close>
  returns nil (the read loop keeps such frames out).
\<close>

definition feed :: "nat \<Rightarrow> queueItem \<Rightarrow> CarrierConn \<Rightarrow> CarrierConn" where
  "feed i it c = set_pc (DDeliver i it) (upd_stream i (\<lambda>s. s\<lparr>fed := fed s @ [it]\<rparr>) c)"

definition dispatch_stream :: "frame \<Rightarrow> CarrierConn \<Rightarrow> CarrierConn option" where
  "dispatch_stream f c =
     (let (s, ok, c1) =
            (case streams c (StreamID f) of
               Some i \<Rightarrow> (Some i, True, c)
             | None \<Rightarrow>
                 if onNewStream c \<and> \<not> closing c
                 then (let (s, c1) = createStreamLocked (StreamID f) True c in (s, True, c1))
                 else (None, False, c))
      in if \<not> ok then Some c1
         else (case s of
                 None \<Rightarrow> None
               | Some i \<Rightarrow>
                   (let c2 = (if callback (allStreams c1 ! i)
                              then emit True (EvNewStream (StreamID f) (Type f) i)
                                     (upd_stream i (\<lambda>s. s\<lparr>callback := False\<rparr>) c1)
                              else c1);
                        it = (if Type f = FrameClose then \<lparr>payload = [], isClose = True\<rparr>
                              else \<lparr>payload = Payload f, isClose = False\<rparr>)
                    in Some (feed i it c2))))"

definition zero_credit :: CreditPayload where
  "zero_credit = \<lparr>Version = 0, Gen = 0, BytesConsumed = 0, WindowGranted = 0, Flags = 0,
     Reserved = replicate 10 0\<rparr>"

definition dispatch_credit :: "frame \<Rightarrow> bool \<Rightarrow> CarrierConn \<Rightarrow> CarrierConn" where
  "dispatch_credit f sent c =
     (let p = (case DecodeCreditPayload (Payload f) of Inr p \<Rightarrow> p | Inl _ \<Rightarrow> zero_credit)
      in if ValidateCreditPayload p \<noteq> None
         then (case streams c (StreamID f) of
                 Some i \<Rightarrow> terminateStream i False sent c
               | None \<Rightarrow> c)
         else emit (onStreamCredit c) (EvCredit (StreamID f) p) c)"

definition pong_frame :: bytes where
  "pong_frame = [0, 0, 0, 0, FramePong, 0, 1, 0]"

definition Dispatch_frame :: "frame \<Rightarrow> bool \<Rightarrow> CarrierConn \<Rightarrow> CarrierConn option" where
  "Dispatch_frame f sent c =
     (if Type f \<in> {FrameData, FrameHeader, FrameRebind, FrameClose} then dispatch_stream f c
      else if Type f = FrameReset
      then (case ParseResetPayload (Payload f) of
              Inr (reason, gen) \<Rightarrow> Some (emit (onStreamReset c) (EvReset (StreamID f) reason gen) c)
            | Inl _ \<Rightarrow> Some c)
      else if Type f = FrameBootstrapAck
      then (case ParseBootstrapAckPayload (Payload f) of
              Inr status \<Rightarrow> Some (emit (onStreamBootstrapAck c) (EvBootstrapAck (StreamID f) status) c)
            | Inl _ \<Rightarrow> Some c)
      else if Type f = FramePing then Some (snd (writeControl pong_frame c))
      else if Type f = FramePong then Some (c\<lparr>sawPong := True\<rparr>)
      else if Type f = FrameCredit then Some (dispatch_credit f sent c)
      else Some c)"

text \<open>One iteration of the loop: the dispatcher is between frames and one is waiting.\<close>

definition Dispatch_step :: "bool \<Rightarrow> CarrierConn \<Rightarrow> CarrierConn option" where
  "Dispatch_step sent c =
     (if dispatcher c = DIdle
      then (case frames c of
              [] \<Rightarrow> None
            | f # fs \<Rightarrow> Dispatch_frame f sent (c\<lparr>frames := fs\<rparr>))
      else None)"

section \<open>Deliver or fail\<close>

definition failUndeliverableData :: "nat \<Rightarrow> bool \<Rightarrow> bool \<Rightarrow> CarrierConn \<Rightarrow> CarrierConn" where
  "failUndeliverableData i triggerLostData sent c =
     (if terminated (allStreams c ! i) then c
      else (let lost = QueueDataLen (mbox (allStreams c ! i)) + (if triggerLostData then 1 else 0);
                c1 = stat (droppedDataFrame ^^ nat lost) c;
                c2 = terminateStream i True sent c1
            in emit (onStreamDataUndeliverable c2) (EvUndeliverable (rid (allStreams c2 ! i))) c2))"

text \<open>
  \<open>deliver\<close> and \<open>deliverClose\<close>, cut where the code re-reads the terminated flag or calls
  the mailbox again. A close item takes the carry path on any refusal, a data item only on
  a refusal by its own mailbox.
\<close>

definition deliver_first :: "nat \<Rightarrow> queueItem \<Rightarrow> CarrierConn \<Rightarrow> CarrierConn" where
  "deliver_first i it c =
     (if terminated (allStreams c ! i) then set_pc DIdle c
      else (let (r, c1) = on_queue i (MPush it) c
            in (case r of
                  MRefused reason \<Rightarrow> set_pc (DRefused i it reason) c1
                | _ \<Rightarrow> set_pc DIdle
                         (if isClose it then upd_stream i (\<lambda>s. s\<lparr>pressureStart := None\<rparr>) c1 else c1))))"

definition deliver_refused :: "nat \<Rightarrow> queueItem \<Rightarrow> rejectReason \<Rightarrow> CarrierConn \<Rightarrow> CarrierConn" where
  "deliver_refused i it reason c =
     (if terminated (allStreams c ! i) then set_pc DIdle c
      else if isClose it \<or> reason = rejectStreamFrames \<or> reason = rejectStreamBytes
      then (let (r, c1) = on_queue i (MCarry it) c
            in if r = MAccepted then set_pc DIdle c1 else set_pc (DPark i it) c1)
      else set_pc (DFail i it) c)"

definition deliver_park :: "nat \<Rightarrow> queueItem \<Rightarrow> CarrierConn \<Rightarrow> CarrierConn" where
  "deliver_park i it c =
     (let (r, c1) = on_queue i (MPark it) c
      in (case r of
            MBlocked w \<Rightarrow> set_pc (DParked i it w) c1
          | MShut \<Rightarrow> set_pc (DShut i it) c1
          | _ \<Rightarrow> set_pc DIdle c1))"

definition deliver_step :: "bool \<Rightarrow> CarrierConn \<Rightarrow> CarrierConn option" where
  "deliver_step sent c =
     (case dispatcher c of
        DIdle \<Rightarrow> None
      | DDeliver i it \<Rightarrow> Some (deliver_first i it c)
      | DRefused i it reason \<Rightarrow> Some (deliver_refused i it reason c)
      | DPark i it \<Rightarrow>
          Some (set_pc (if terminated (allStreams c ! i) then DIdle else DPushPark i it) c)
      | DPushPark i it \<Rightarrow> Some (deliver_park i it c)
      | DParked i it w \<Rightarrow>
          if free (mbox (allStreams c ! i)) = Some w then None else Some (deliver_park i it c)
      | DShut i it \<Rightarrow>
          Some (set_pc (if \<not> terminated (allStreams c ! i) \<and> \<not> closing c then DFail i it else DIdle) c)
      | DFail i it \<Rightarrow> Some (set_pc DIdle (failUndeliverableData i (\<not> isClose it) sent c)))"

text \<open>\<open>applyPressure\<close> at time \<open>now\<close>; no path of the program calls it any more.\<close>

definition applyPressure :: "nat \<Rightarrow> int \<Rightarrow> bool \<Rightarrow> CarrierConn \<Rightarrow> CarrierConn" where
  "applyPressure i now sent c =
     (case pressureStart (allStreams c ! i) of
        None \<Rightarrow> upd_stream i (\<lambda>s. s\<lparr>pressureStart := Some now\<rparr>) c
      | Some t \<Rightarrow>
          if now - t \<ge> OverflowWait (limits c)
          then terminateStream i True sent (stat (overflowTerminated (now - t)) c)
          else c)"

section \<open>Stream workers\<close>

text \<open>How the hand-off select ends: sent, carrier closed, or \<open>ConsumerStall\<close> over.\<close>

datatype handoff_end = HSent | HCarrierClosed | HStalled bool

definition worker_pop :: "nat \<Rightarrow> CarrierConn \<Rightarrow> CarrierConn" where
  "worker_pop i c =
     (let (r, c1) = on_queue i MPop c
      in upd_stream i (\<lambda>s. s\<lparr>worker := (case r of MItem it \<Rightarrow> WHold it | MBlocked w \<Rightarrow> WSleep w
                                        | _ \<Rightarrow> WExited)\<rparr>) c1)"

definition worker_handoff :: "nat \<Rightarrow> queueItem \<Rightarrow> handoff_end \<Rightarrow> CarrierConn \<Rightarrow> CarrierConn option" where
  "worker_handoff i it h c =
     (case h of
        HSent \<Rightarrow>
          Some (upd_stream i (\<lambda>s. s\<lparr>ch := ch s @ [handoff it],
                                     worker := (if isClose it then WExited else WRun)\<rparr>) c)
      | HCarrierClosed \<Rightarrow>
          if closing c then Some (upd_stream i (\<lambda>s. s\<lparr>worker := WExited\<rparr>) c) else None
      | HStalled sent \<Rightarrow>
          (let c1 = stat overflowTerminatedWorker c
           in if isClose it
              then Some (emit (onStreamTerminated c1) (EvTerminated (rid (allStreams c ! i)))
                     (upd_stream i (\<lambda>s. s\<lparr>terminated := True, worker := WExited\<rparr>) c1))
              else Some (upd_stream i (\<lambda>s. s\<lparr>worker := WExited\<rparr>) (terminateStream i False sent c1))))"

definition streamWorker_step :: "nat \<Rightarrow> handoff_end \<Rightarrow> CarrierConn \<Rightarrow> CarrierConn option" where
  "streamWorker_step i h c =
     (if i < length (allStreams c)
      then (case worker (allStreams c ! i) of
              WRun \<Rightarrow> Some (worker_pop i c)
            | WSleep w \<Rightarrow> if wake (mbox (allStreams c ! i)) = Some w then None else Some (worker_pop i c)
            | WHold it \<Rightarrow> worker_handoff i it h c
            | WExited \<Rightarrow> None)
      else None)"

section \<open>Close and liveness\<close>

definition close_conn :: "CarrierConn \<Rightarrow> CarrierConn" where
  "close_conn c = (if close_st c = Open then c\<lparr>close_st := ClosingConn\<rparr> else c)"

definition close_mailboxes :: "CarrierConn \<Rightarrow> CarrierConn" where
  "close_mailboxes c =
     (fold (\<lambda>i c. snd (on_queue i MClose c)) [0..<length (allStreams c)] c)\<lparr>close_st := MailboxesClosed\<rparr>"

text \<open>Once every worker and the dispatcher have returned, the channels are closed.\<close>

definition close_finish :: "CarrierConn \<Rightarrow> CarrierConn option" where
  "close_finish c =
     (if (\<forall>s \<in> set (allStreams c). worker s = WExited) \<and> readDone c \<and> frames c = [] \<and> dispatcher c = DIdle
      then Some (c\<lparr>close_st := Closed,
             streams := (\<lambda>sid. if sid \<in> rid ` set (allStreams c) then None else streams c sid)\<rparr>)
      else None)"

definition Close_step :: "CarrierConn \<Rightarrow> CarrierConn option" where
  "Close_step c =
     (case close_st c of
        Open \<Rightarrow> Some (close_conn c)
      | ClosingConn \<Rightarrow> Some (close_mailboxes c)
      | MailboxesClosed \<Rightarrow> close_finish c
      | Closed \<Rightarrow> None)"

definition ping_frame :: bytes where
  "ping_frame = [0, 0, 0, 0, FramePing, 0, 0]"

text \<open>One tick of the keepalive ticker: ping, count, and start Close when declared dead.\<close>

definition liveness_tick :: "CarrierConn \<Rightarrow> CarrierConn" where
  "liveness_tick c =
     (let rounds = livenessRounds c;
          c1 = snd (writeControl ping_frame c);
          c2 = (if sawPong c1 then c1\<lparr>sawPong := False, missed := 0\<rparr> else c1\<lparr>missed := missed c1 + 1\<rparr>)
      in if missed c2 \<ge> rounds then close_conn (stat blackholeDeath c2) else c2)"

section \<open>The system of goroutines\<close>

datatype carrier_label =
    CRegister u32
  | CDeregister u32
  | CTerminate u32 bool
  | CRead "mux_error + frame" bool
  | CDispatch bool
  | CDeliver bool
  | CWorker nat handoff_end
  | CClose
  | CTick

fun carrier_do :: "carrier_label \<Rightarrow> CarrierConn \<Rightarrow> CarrierConn option" where
  "carrier_do (CRegister sid) c = Some (snd (Register sid c))"
| "carrier_do (CDeregister sid) c = Some (Deregister sid c)"
| "carrier_do (CTerminate sid sent) c = Some (Terminate sid sent c)"
| "carrier_do (CRead rd dropped) c = readLoop_step rd dropped c"
| "carrier_do (CDispatch sent) c = Dispatch_step sent c"
| "carrier_do (CDeliver sent) c = deliver_step sent c"
| "carrier_do (CWorker i h) c = streamWorker_step i h c"
| "carrier_do CClose c = Close_step c"
| "carrier_do CTick c = Some (liveness_tick c)"

fun carrier_run :: "carrier_label list \<Rightarrow> CarrierConn \<Rightarrow> CarrierConn option" where
  "carrier_run [] c = Some c"
| "carrier_run (l # ls) c = (case carrier_do l c of None \<Rightarrow> None | Some c1 \<Rightarrow> carrier_run ls c1)"

text \<open>A carrier as the node hands it over: limits set, callbacks and counters chosen, no stream.\<close>

definition fresh_carrier :: "CarrierConn \<Rightarrow> bool" where
  "fresh_carrier c \<longleftrightarrow>
     close_st c = Open \<and> streams c = Map.empty \<and> allStreams c = [] \<and> frames c = [] \<and>
     dispatcher c = DIdle \<and> budget (csh c) = Some 0 \<and> queuedItems (csh c) = Some 0 \<and>
     (\<exists>l. SanitizeLimits l = Inr (limits c))"

section \<open>Invariant\<close>

definition held :: "streamRec \<Rightarrow> queueItem list" where
  "held s = (case worker s of WHold it \<Rightarrow> [it] | _ \<Rightarrow> [])"

definition pending :: "nat \<Rightarrow> dispatch_pc \<Rightarrow> queueItem list" where
  "pending i pc =
     (case pc of
        DIdle \<Rightarrow> []
      | DDeliver j it \<Rightarrow> if i = j then [it] else []
      | DRefused j it _ \<Rightarrow> if i = j then [it] else []
      | DPark j it \<Rightarrow> if i = j then [it] else []
      | DPushPark j it \<Rightarrow> if i = j then [it] else []
      | DParked j it _ \<Rightarrow> if i = j then [it] else []
      | DShut j it \<Rightarrow> if i = j then [it] else []
      | DFail j it \<Rightarrow> if i = j then [it] else [])"

text \<open>The values a consumer takes off the channel before the first end-of-stream marker.\<close>

definition observed :: "streamRec \<Rightarrow> bytes option list" where
  "observed s = takeWhile (\<lambda>x. x \<noteq> None) (ch s)"

text \<open>
  The life of one stream record: while it is open (not terminated, its mailbox open, its
  worker not sent home by the closing carrier) nothing fed to it is missing; whatever happens, what its consumer observes is a prefix of what was fed.
\<close>

definition stream_open :: "bool \<Rightarrow> streamRec \<Rightarrow> bool" where
  "stream_open cl s \<longleftrightarrow> \<not> terminated s \<and> \<not> qclosed (mbox s) \<and> \<not> (cl \<and> worker s = WExited)"

definition stream_flow :: "bool \<Rightarrow> queueItem list \<Rightarrow> streamRec \<Rightarrow> bool" where
  "stream_flow cl pend s \<longleftrightarrow>
     (stream_open cl s \<longrightarrow>
        map handoff (fed s) = ch s @ map handoff (held s @ contents (mbox s) @ pend)) \<and>
     ((\<exists>rest. map handoff (fed s) = ch s @ map handoff (held s) @ rest) \<or>
      (None \<in> set (ch s) \<and> (\<exists>rest. map handoff (fed s) = observed s @ rest)))"

definition stream_ok :: "StreamLimits \<Rightarrow> streamRec \<Rightarrow> bool" where
  "stream_ok l s \<longleftrightarrow>
     queue_wf (mbox s) \<and> queue_bounded (mbox s) \<and>
     budgetLimit (mbox s) = MaxBytesTotal l \<and> maxBytes (mbox s) = MaxBytesPerStream l \<and>
     maxFrames (mbox s) = MaxFramesPerStream l \<and> overflowCap (mbox s) = MaxBytesPerStream l \<and>
     rid s \<noteq> 0 \<and> \<not> callback s \<and>
     (stopped s \<longrightarrow> terminated s \<and> qclosed (mbox s)) \<and>
     (terminated s \<and> \<not> qclosed (mbox s) \<longrightarrow> worker s = WExited) \<and>
     (\<forall>w. worker s = WSleep w \<longrightarrow> w < chanSeq (mbox s) \<and>
        (wake (mbox s) = Some w \<longrightarrow> contents (mbox s) = [] \<and> \<not> qclosed (mbox s)))"

definition pc_ok :: "CarrierConn \<Rightarrow> dispatch_pc \<Rightarrow> bool" where
  "pc_ok c pc \<longleftrightarrow>
     (case pc of
        DIdle \<Rightarrow> True
      | DDeliver i it \<Rightarrow> i < length (allStreams c)
      | DRefused i it _ \<Rightarrow> i < length (allStreams c)
      | DPark i it \<Rightarrow> i < length (allStreams c)
      | DPushPark i it \<Rightarrow> i < length (allStreams c)
      | DParked i it w \<Rightarrow> i < length (allStreams c) \<and> w < chanSeq (mbox (allStreams c ! i)) \<and>
          (free (mbox (allStreams c ! i)) = Some w \<longrightarrow> \<not> qclosed (mbox (allStreams c ! i)))
      | DShut i it \<Rightarrow> i < length (allStreams c) \<and> qclosed (mbox (allStreams c ! i))
      | DFail i it \<Rightarrow> i < length (allStreams c))"

definition total_bytes :: "CarrierConn \<Rightarrow> int" where
  "total_bytes c = (\<Sum>s\<leftarrow>allStreams c. qbytes (mbox s))"

definition total_items :: "CarrierConn \<Rightarrow> int" where
  "total_items c = (\<Sum>s\<leftarrow>allStreams c. qcount (mbox s))"

definition carrier_inv :: "CarrierConn \<Rightarrow> bool" where
  "carrier_inv c \<longleftrightarrow>
     (\<forall>s \<in> set (allStreams c). stream_ok (limits c) s) \<and>
     (\<forall>i < length (allStreams c). stream_flow (closing c) (pending i (dispatcher c)) (allStreams c ! i)) \<and>
     (\<forall>sid i. streams c sid = Some i \<longrightarrow> i < length (allStreams c) \<and> rid (allStreams c ! i) = sid) \<and>
     pc_ok c (dispatcher c) \<and>
     budget (csh c) = Some (total_bytes c) \<and> total_bytes c \<le> MaxBytesTotal (limits c) \<and>
     queuedItems (csh c) = Some (total_items c) \<and>
     (close_st c \<in> {MailboxesClosed, Closed} \<longrightarrow> (\<forall>s \<in> set (allStreams c). qclosed (mbox s))) \<and>
     (close_st c = Open \<longrightarrow> (\<forall>s \<in> set (allStreams c). qclosed (mbox s) \<longrightarrow> terminated s))"

section \<open>Lemmas: one stream\<close>

lemma stream_ok_trans:
  assumes "stream_ok l s" and "mailbox_trans op (mbox s) sh r q' sh'" and "op \<noteq> MPop"
  shows "stream_ok l (s\<lparr>mbox := q'\<rparr>)"
  using assms mailbox_trans_limits [OF assms(2)] mailbox_trans_wf [OF assms(2)]
    mailbox_trans_bounded [OF assms(2)] mailbox_trans_qclosed [OF assms(2)]
    mailbox_trans_sleeper [OF assms(2)]
  unfolding stream_ok_def by auto

lemma stream_ok_pop:
  assumes "stream_ok l s" and "mailbox_trans MPop (mbox s) sh r q' sh'"
    and "worker s \<noteq> WExited"
  shows "stream_ok l (s\<lparr>mbox := q', worker := (case r of MItem it \<Rightarrow> WHold it | MBlocked w \<Rightarrow> WSleep w
                                        | _ \<Rightarrow> WExited)\<rparr>)"
proof -
  have "r = MBlocked w \<Longrightarrow> w < chanSeq q' \<and> (wake q' = Some w \<longrightarrow> contents q' = [] \<and> \<not> qclosed q')" for w
    using assms(1,2)
    by (auto simp: stream_ok_def queue_wf_def contents_def elim!: MPop_transE split: option.splits)
  then show ?thesis
    using assms mailbox_trans_limits [OF assms(2)] mailbox_trans_wf [OF assms(2)]
      mailbox_trans_bounded [OF assms(2)] mailbox_trans_qclosed [OF assms(2)]
    unfolding stream_ok_def by (auto split: mailbox_res.splits)
qed

text \<open>Effects of the transitions on the flow of one stream.\<close>

lemma flow_accept:
  assumes "stream_flow cl [it] s" and "mailbox_trans op (mbox s) sh MAccepted q' sh'"
    and "offered op = [it]"
  shows "stream_flow cl [] (s\<lparr>mbox := q'\<rparr>)"
proof -
  have op: "op \<noteq> MClose" using assms(3) by auto
  have "contents q' = contents (mbox s) @ [it]"
    using mailbox_trans_flow [OF assms(2) op] assms(3) by (simp add: op_ins_def)
  then show ?thesis
    using assms op mailbox_trans_qclosed [OF assms(2)]
    by (auto simp: stream_flow_def stream_open_def held_def observed_def)
qed

lemma flow_refuse:
  assumes "stream_flow cl pend s" and "mailbox_trans op (mbox s) sh r q' sh'"
    and "r \<noteq> MAccepted" and "op \<noteq> MPop" and "op \<noteq> MClose"
  shows "stream_flow cl pend (s\<lparr>mbox := q'\<rparr>)"
proof -
  have "res_outs r = []" using assms(2,4) by cases auto
  then have "contents q' = contents (mbox s)"
    using mailbox_trans_flow [OF assms(2,5)] assms(3) by (simp add: op_ins_def)
  then show ?thesis
    using assms mailbox_trans_qclosed [OF assms(2)]
    by (auto simp: stream_flow_def stream_open_def held_def observed_def)
qed

lemma flow_drop:
  assumes "stream_flow cl pend s" and "terminated s \<or> qclosed (mbox s)"
  shows "stream_flow cl pend' s"
  using assms by (auto simp: stream_flow_def stream_open_def)

lemma flow_feed:
  assumes "stream_flow cl [] s"
  shows "stream_flow cl [it] (s\<lparr>fed := fed s @ [it]\<rparr>)"
  using assms by (auto simp: stream_flow_def stream_open_def held_def observed_def)

lemma flow_pop:
  assumes "stream_flow cl pend s" and "stream_ok l s" and "mailbox_trans MPop (mbox s) sh r q' sh'"
    and "held s = []" and "worker s \<noteq> WExited"
  shows "stream_flow cl pend (s\<lparr>mbox := q', worker := (case r of MItem it \<Rightarrow> WHold it
            | MBlocked w \<Rightarrow> WSleep w | _ \<Rightarrow> WExited)\<rparr>)"
proof (cases "\<exists>it. r = MItem it")
  case True
  then obtain it where r: "r = MItem it" by blast
  have c: "contents (mbox s) = it # contents q'"
    using mailbox_trans_flow [OF assms(3)] r by (simp add: op_ins_def)
  then have open_q: "\<not> qclosed (mbox s)"
    using assms(2) by (auto simp: stream_ok_def queue_wf_def contents_def)
  then have "\<not> terminated s" using assms(2,5) by (auto simp: stream_ok_def)
  with assms(1,4,5) open_q have "map handoff (fed s) = ch s @ map handoff (contents (mbox s) @ pend)"
    by (simp add: stream_flow_def stream_open_def)
  then show ?thesis
    using c r open_q mailbox_trans_qclosed [OF assms(3)]
    by (simp add: stream_flow_def stream_open_def held_def)
next
  case False
  then have "res_outs r = []" by (cases r) auto
  then have "contents q' = contents (mbox s)"
    using mailbox_trans_flow [OF assms(3)] by (auto simp: op_ins_def split: if_splits)
  then show ?thesis
    using assms(1,4,5) False mailbox_trans_qclosed [OF assms(3)]
    by (auto simp: stream_flow_def stream_open_def held_def observed_def split: mailbox_res.splits)
qed

lemma flow_handoff:
  assumes "stream_flow cl pend s" and "worker s = WHold it" and "w = WRun \<or> w = WExited"
  shows "stream_flow cl pend (s\<lparr>ch := ch s @ [handoff it], worker := w\<rparr>)"
  using assms
  by (auto simp: stream_flow_def stream_open_def held_def observed_def takeWhile_append1)

text \<open>The end marker of a terminated stream, and a worker that drops what it holds.\<close>

lemma flow_end:
  assumes "stream_flow cl pend s" and "terminated s \<or> qclosed (mbox s)"
  shows "stream_flow cl pend' (s\<lparr>ch := ch s @ [None]\<rparr>)"
proof -
  from assms(1) obtain rest where "map handoff (fed s) = observed s @ rest"
    unfolding stream_flow_def observed_def by (metis append.assoc takeWhile_dropWhile_id)
  moreover have "takeWhile (\<lambda>x. x \<noteq> None) (ch s @ [None]) = observed s"
    by (simp add: observed_def takeWhile_tail)
  ultimately show ?thesis
    using assms(2) by (auto simp: stream_flow_def stream_open_def observed_def)
qed

section \<open>Lemmas: the carrier\<close>

lemma upd_stream_sel [simp]:
  "allStreams (upd_stream i f c) = (allStreams c)[i := f (allStreams c ! i)]"
  "limits (upd_stream i f c) = limits c" "streams (upd_stream i f c) = streams c"
  "close_st (upd_stream i f c) = close_st c" "csh (upd_stream i f c) = csh c"
  "dispatcher (upd_stream i f c) = dispatcher c" "closing (upd_stream i f c) = closing c"
  by (simp_all add: upd_stream_def closing_def)

lemma emit_sel [simp]:
  "allStreams (emit b e c) = allStreams c" "limits (emit b e c) = limits c"
  "streams (emit b e c) = streams c" "close_st (emit b e c) = close_st c"
  "csh (emit b e c) = csh c" "dispatcher (emit b e c) = dispatcher c" "closing (emit b e c) = closing c"
  by (simp_all add: emit_def closing_def)

lemma stat_sel [simp]:
  "allStreams (stat f c) = allStreams c" "limits (stat f c) = limits c"
  "streams (stat f c) = streams c" "close_st (stat f c) = close_st c"
  "csh (stat f c) = upd_stats f (csh c)" "dispatcher (stat f c) = dispatcher c"
  "closing (stat f c) = closing c"
  by (simp_all add: stat_def closing_def)

lemma set_pc_sel [simp]:
  "allStreams (set_pc pc c) = allStreams c" "limits (set_pc pc c) = limits c"
  "streams (set_pc pc c) = streams c" "close_st (set_pc pc c) = close_st c"
  "csh (set_pc pc c) = csh c" "dispatcher (set_pc pc c) = pc" "closing (set_pc pc c) = closing c"
  by (simp_all add: set_pc_def closing_def)

lemma writeControl_sel [simp]:
  "allStreams (snd (writeControl d c)) = allStreams c" "limits (snd (writeControl d c)) = limits c"
  "streams (snd (writeControl d c)) = streams c" "close_st (snd (writeControl d c)) = close_st c"
  "csh (snd (writeControl d c)) = csh c" "dispatcher (snd (writeControl d c)) = dispatcher c"
  "closing (snd (writeControl d c)) = closing c"
  by (simp_all add: writeControl_def closing_def)

text \<open>A step that leaves the streams, the counters and the dispatcher alone.\<close>

lemma carrier_inv_same:
  assumes "carrier_inv c" and "allStreams c' = allStreams c" "limits c' = limits c"
    "streams c' = streams c" "close_st c' = close_st c" "dispatcher c' = dispatcher c"
    "budget (csh c') = budget (csh c)" "queuedItems (csh c') = queuedItems (csh c)"
  shows "carrier_inv c'"
proof -
  have "pc_ok c' pc = pc_ok c pc" for pc using assms(2) by (simp add: pc_ok_def split: dispatch_pc.splits)
  with assms show ?thesis
    by (simp add: carrier_inv_def total_bytes_def total_items_def closing_def)
qed

text \<open>A step that touches one stream record and the dispatcher's position.\<close>

lemma carrier_inv_update:
  assumes inv: "carrier_inv c" and i: "i < length (allStreams c)"
    and s': "allStreams c' = (allStreams c)[i := s']"
    and keep: "limits c' = limits c" "streams c' = streams c" "close_st c' = close_st c"
    and rid: "rid s' = rid (allStreams c ! i)"
    and ok: "stream_ok (limits c) s'"
    and flow: "stream_flow (closing c) (pending i (dispatcher c')) s'"
    and others: "\<And>j. j \<noteq> i \<Longrightarrow> pending j (dispatcher c') = pending j (dispatcher c)"
    and pc: "pc_ok c' (dispatcher c')"
    and moved: "moved (qbytes (mbox s') - qbytes (mbox (allStreams c ! i)))
                  (qcount (mbox s') - qcount (mbox (allStreams c ! i))) (csh c) (csh c')"
    and bound: "\<exists>b. budget (csh c') = Some b \<and> b \<le> MaxBytesTotal (limits c)"
    and closed: "qclosed (mbox (allStreams c ! i)) \<Longrightarrow> qclosed (mbox s')"
    and stops: "close_st c = Open \<Longrightarrow> qclosed (mbox s') \<Longrightarrow> terminated s'"
  shows "carrier_inv c'"
proof -
  have tot: "total_bytes c' = total_bytes c + (qbytes (mbox s') - qbytes (mbox (allStreams c ! i)))"
    "total_items c' = total_items c + (qcount (mbox s') - qcount (mbox (allStreams c ! i)))"
    using i s' by (simp_all add: total_bytes_def total_items_def sum_list_update)
  have cnt: "budget (csh c') = Some (total_bytes c')" "queuedItems (csh c') = Some (total_items c')"
    using inv moved tot by (simp_all add: carrier_inv_def moved_def)
  have oks: "\<forall>s \<in> set (allStreams c'). stream_ok (limits c') s"
    using inv ok i s' keep set_update_subset_insert [of "allStreams c" i s']
    by (auto simp: carrier_inv_def)
  have "closing c' = closing c" using keep by (simp add: closing_def)
  then have flows: "\<forall>j < length (allStreams c'). stream_flow (closing c') (pending j (dispatcher c')) (allStreams c' ! j)"
    using inv flow others i s' by (auto simp: carrier_inv_def nth_list_update)
  have regs: "\<forall>sid j. streams c' sid = Some j \<longrightarrow> j < length (allStreams c') \<and> rid (allStreams c' ! j) = sid"
    using inv i s' keep rid by (auto simp: carrier_inv_def nth_list_update)
  have cl: "close_st c' \<in> {MailboxesClosed, Closed} \<longrightarrow> (\<forall>s \<in> set (allStreams c'). qclosed (mbox s))"
    using inv i s' keep closed set_update_subset_insert [of "allStreams c" i s']
    by (auto simp: carrier_inv_def)
  have tm: "close_st c' = Open \<longrightarrow> (\<forall>s \<in> set (allStreams c'). qclosed (mbox s) \<longrightarrow> terminated s)"
    using inv i s' keep stops set_update_subset_insert [of "allStreams c" i s']
    by (auto simp: carrier_inv_def)
  show ?thesis
    using oks flows regs pc cnt bound cl tm keep by (auto simp: carrier_inv_def)
qed

lemma moved_0 [simp]: "moved 0 0 sh sh' \<longleftrightarrow> budget sh' = budget sh \<and> queuedItems sh' = queuedItems sh"
  by (simp add: moved_def option.map_ident)

lemma carrier_inv_stream:
  "carrier_inv c \<Longrightarrow> i < length (allStreams c) \<Longrightarrow> stream_ok (limits c) (allStreams c ! i)"
  "carrier_inv c \<Longrightarrow> i < length (allStreams c) \<Longrightarrow> stream_flow (closing c) (pending i (dispatcher c)) (allStreams c ! i)"
  "carrier_inv c \<Longrightarrow> pc_ok c (dispatcher c)"
  "carrier_inv c \<Longrightarrow> streams c sid = Some i \<Longrightarrow> i < length (allStreams c)"
  "carrier_inv c \<Longrightarrow> \<exists>b. budget (csh c) = Some b \<and> b \<le> MaxBytesTotal (limits c)"
  "carrier_inv c \<Longrightarrow> i < length (allStreams c) \<Longrightarrow> close_st c = Open \<Longrightarrow>
     qclosed (mbox (allStreams c ! i)) \<Longrightarrow> terminated (allStreams c ! i)"
  by (auto simp: carrier_inv_def)

lemma on_queue_trans:
  assumes "on_queue i op c = (r, c1)"
  obtains q' sh' where "mailbox_trans op (mbox (allStreams c ! i)) (csh c) r q' sh'"
    "c1 = (upd_stream i (\<lambda>s. s\<lparr>mbox := q'\<rparr>) c)\<lparr>csh := sh'\<rparr>"
  using assms by (auto simp: on_queue_def Let_def dest: mailbox_step_trans split: prod.splits)

text \<open>The counters after one mailbox call stay exact and within the limit.\<close>

lemma trans_counters:
  assumes "carrier_inv c" and "i < length (allStreams c)"
    and "mailbox_trans op (mbox (allStreams c ! i)) (csh c) r q' sh'"
  shows "\<exists>b. budget sh' = Some b \<and> b \<le> MaxBytesTotal (limits c)"
    "moved (qbytes q' - qbytes (mbox (allStreams c ! i))) (qcount q' - qcount (mbox (allStreams c ! i))) (csh c) sh'"
proof -
  have ok: "stream_ok (limits c) (allStreams c ! i)" using carrier_inv_stream(1) assms(1,2) .
  obtain b where b: "budget (csh c) = Some b" "b \<le> MaxBytesTotal (limits c)"
    using carrier_inv_stream(5) [OF assms(1)] by blast
  then show "\<exists>b. budget sh' = Some b \<and> b \<le> MaxBytesTotal (limits c)"
    using mailbox_trans_budget [OF assms(3), of b] ok by (auto simp: stream_ok_def)
  show "moved (qbytes q' - qbytes (mbox (allStreams c ! i))) (qcount q' - qcount (mbox (allStreams c ! i))) (csh c) sh'"
    using mailbox_trans_moved [OF assms(3)] .
qed

lemma pc_ok_trans:
  assumes "pc_ok c pc" and "carrier_inv c" and "i < length (allStreams c)"
    and "mailbox_trans op (mbox (allStreams c ! i)) sh r q' sh'"
    and "allStreams c' = (allStreams c)[i := s']" and "mbox s' = q'"
  shows "pc_ok c' pc"
proof -
  have "queue_wf (mbox (allStreams c ! i))"
    using carrier_inv_stream(1) [OF assms(2,3)] by (simp add: stream_ok_def)
  then show ?thesis
    using assms mailbox_trans_qclosed [OF assms(4)] mailbox_trans_parker [OF assms(4)]
    by (auto simp: pc_ok_def nth_list_update split: dispatch_pc.splits)
qed

lemma pc_ok_same:
  assumes "pc_ok c pc" and "allStreams c' = (allStreams c)[i := s']" and "mbox s' = mbox (allStreams c ! i)"
  shows "pc_ok c' pc"
  using assms
  by (cases "i < length (allStreams c)") (auto simp: pc_ok_def nth_list_update split: dispatch_pc.splits)

text \<open>A mailbox call on stream \<open>i\<close> that leaves the rest of the record to \<open>s'\<close>.\<close>

lemma carrier_inv_call:
  assumes "carrier_inv c" and "i < length (allStreams c)"
    and "mailbox_trans op (mbox (allStreams c ! i)) (csh c) r q' sh'"
    and "allStreams c' = (allStreams c)[i := s']" and "mbox s' = q'" and "rid s' = rid (allStreams c ! i)"
    and "limits c' = limits c" "streams c' = streams c" "close_st c' = close_st c"
    and "budget (csh c') = budget sh'" "queuedItems (csh c') = queuedItems sh'"
    and "stream_ok (limits c) s'"
    and "stream_flow (closing c) (pending i (dispatcher c')) s'"
    and "\<And>j. j \<noteq> i \<Longrightarrow> pending j (dispatcher c') = pending j (dispatcher c)"
    and "pc_ok c' (dispatcher c')"
    and "terminated (allStreams c ! i) \<Longrightarrow> terminated s'"
    and "op = MClose \<Longrightarrow> terminated s' \<or> close_st c \<noteq> Open"
  shows "carrier_inv c'"
proof (rule carrier_inv_update [OF assms(1,2,4)])
  show "close_st c = Open \<Longrightarrow> qclosed (mbox s') \<Longrightarrow> terminated s'"
    using mailbox_trans_qclosed [OF assms(3)] carrier_inv_stream(6) [OF assms(1,2)] assms(5,16,17) by auto
  show "qclosed (mbox (allStreams c ! i)) \<Longrightarrow> qclosed (mbox s')"
    using mailbox_trans_qclosed [OF assms(3)] assms(5) by simp
  show "\<exists>b. budget (csh c') = Some b \<and> b \<le> MaxBytesTotal (limits c)"
    using trans_counters(1) [OF assms(1-3)] assms(10) by simp
  show "moved (qbytes (mbox s') - qbytes (mbox (allStreams c ! i)))
          (qcount (mbox s') - qcount (mbox (allStreams c ! i))) (csh c) (csh c')"
    using trans_counters(2) [OF assms(1-3)] assms(5,10,11) by (simp add: moved_def)
qed (use assms in auto)

text \<open>A change of one record that leaves its mailbox alone.\<close>

lemma carrier_inv_flags:
  assumes "carrier_inv c" and "i < length (allStreams c)"
    and "allStreams c' = (allStreams c)[i := s']" and "mbox s' = mbox (allStreams c ! i)"
    and "rid s' = rid (allStreams c ! i)"
    and "limits c' = limits c" "streams c' = streams c" "close_st c' = close_st c"
    and "budget (csh c') = budget (csh c)" "queuedItems (csh c') = queuedItems (csh c)"
    and "stream_ok (limits c) s'"
    and "stream_flow (closing c) (pending i (dispatcher c')) s'"
    and "\<And>j. j \<noteq> i \<Longrightarrow> pending j (dispatcher c') = pending j (dispatcher c)"
    and "pc_ok c' (dispatcher c')"
    and "terminated (allStreams c ! i) \<Longrightarrow> terminated s'"
  shows "carrier_inv c'"
  using carrier_inv_stream(5) [OF assms(1)] carrier_inv_stream(6) [OF assms(1,2)] assms
  by (intro carrier_inv_update [OF assms(1-3)]) auto

lemma carrier_inv_pc:
  assumes "carrier_inv c" and "i < length (allStreams c)"
    and "stream_flow (closing c) (pending i pc) (allStreams c ! i)"
    and "\<And>j. j \<noteq> i \<Longrightarrow> pending j pc = pending j (dispatcher c)" and "pc_ok c pc"
  shows "carrier_inv (set_pc pc c)"
proof (rule carrier_inv_flags [OF assms(1,2), where s' = "allStreams c ! i"])
  show "pc_ok (set_pc pc c) (dispatcher (set_pc pc c))"
    using assms(5) by (simp add: pc_ok_def split: dispatch_pc.splits)
qed (use assms carrier_inv_stream(1) [OF assms(1,2)] in auto)

section \<open>Preservation: the dispatcher\<close>

lemma pending_simps [simp]:
  "pending i DIdle = []" "pending i (DDeliver j it) = (if i = j then [it] else [])"
  "pending i (DRefused j it r) = (if i = j then [it] else [])"
  "pending i (DPark j it) = (if i = j then [it] else [])"
  "pending i (DPushPark j it) = (if i = j then [it] else [])"
  "pending i (DParked j it w) = (if i = j then [it] else [])"
  "pending i (DShut j it) = (if i = j then [it] else [])"
  "pending i (DFail j it) = (if i = j then [it] else [])"
  by (simp_all add: pending_def)

lemma irrelevant_fields [simp]:
  "stream_flow cl p (s\<lparr>pressureStart := x\<rparr>) = stream_flow cl p s"
  "stream_ok l (s\<lparr>pressureStart := x\<rparr>) = stream_ok l s"
  "stream_flow cl p (s\<lparr>callback := b\<rparr>) = stream_flow cl p s"
  "stream_flow cl p (s\<lparr>stopped := b\<rparr>) = stream_flow cl p s"
  "stream_ok l (s\<lparr>ch := z\<rparr>) = stream_ok l s"
  "stream_ok l (s\<lparr>fed := y\<rparr>) = stream_ok l s"
  by (simp_all add: stream_flow_def stream_open_def stream_ok_def held_def observed_def)

text \<open>Offering the pending item to its mailbox, whichever of the three calls does it.\<close>

lemma inv_offer:
  assumes inv: "carrier_inv c" and i: "i < length (allStreams c)"
    and pend: "\<And>j. pending j (dispatcher c) = (if j = i then [it] else [])"
    and oq: "on_queue i op c = (r, c1)" and op: "offered op = [it]"
    and pend': "\<And>j. pending j pc = (if j = i \<and> r \<noteq> MAccepted then [it] else [])"
    and pc: "pc_ok c1 pc"
  shows "carrier_inv (set_pc pc c1)"
proof -
  obtain q' sh' where tr: "mailbox_trans op (mbox (allStreams c ! i)) (csh c) r q' sh'"
    and c1: "c1 = (upd_stream i (\<lambda>s. s\<lparr>mbox := q'\<rparr>) c)\<lparr>csh := sh'\<rparr>"
    using oq by (rule on_queue_trans)
  have ne: "op \<noteq> MPop" "op \<noteq> MClose" using op by auto
  have fl: "stream_flow (closing c) [it] (allStreams c ! i)" using carrier_inv_stream(2) [OF inv i] pend by simp
  have "stream_flow (closing c) (if r = MAccepted then [] else [it]) ((allStreams c ! i)\<lparr>mbox := q'\<rparr>)"
    using flow_accept [OF fl _ op] flow_refuse [OF fl tr _ ne] tr by auto
  moreover have "stream_ok (limits c) ((allStreams c ! i)\<lparr>mbox := q'\<rparr>)"
    using stream_ok_trans [OF carrier_inv_stream(1) [OF inv i] tr ne(1)] .
  moreover have "pc_ok (set_pc pc c1) pc" using pc by (simp add: pc_ok_def split: dispatch_pc.splits)
  ultimately show ?thesis
    using i pend pend'
    by (intro carrier_inv_call [OF inv i tr, where s' = "(allStreams c ! i)\<lparr>mbox := q'\<rparr>"])
      (use ne in \<open>auto simp: c1 split: if_splits\<close>)
qed

text \<open>Dropping the pending item of a stream that is over, and moving on with it unchanged.\<close>

lemma inv_pending_drop:
  assumes "carrier_inv c" and "i < length (allStreams c)"
    and "\<And>j. pending j (dispatcher c) = (if j = i then [it] else [])"
    and "terminated (allStreams c ! i) \<or> qclosed (mbox (allStreams c ! i))"
  shows "carrier_inv (set_pc DIdle c)"
  using assms carrier_inv_stream(2) [OF assms(1,2)]
  by (intro carrier_inv_pc [OF assms(1,2)]) (auto simp: pc_ok_def intro: flow_drop)

lemma inv_pending_keep:
  assumes "carrier_inv c" and "i < length (allStreams c)"
    and "\<And>j. pending j (dispatcher c) = (if j = i then [it] else [])"
    and "\<And>j. pending j pc = (if j = i then [it] else [])" and "pc_ok c pc"
  shows "carrier_inv (set_pc pc c)"
  using assms carrier_inv_stream(2) [OF assms(1,2)]
  by (intro carrier_inv_pc [OF assms(1,2)]) auto

lemma on_queue_length:
  "on_queue i op c = (r, c1) \<Longrightarrow> length (allStreams c1) = length (allStreams c)"
  by (auto elim!: on_queue_trans)

lemma inv_pressure_reset:
  "carrier_inv c \<Longrightarrow> carrier_inv (upd_stream i (\<lambda>s. s\<lparr>pressureStart := None\<rparr>) c)"
proof (cases "i < length (allStreams c)")
  case True
  assume inv: "carrier_inv c"
  show ?thesis
    using carrier_inv_stream(1,2) [OF inv True] carrier_inv_stream(3) [OF inv] True
    by (intro carrier_inv_flags [OF inv True, where s' = "(allStreams c ! i)\<lparr>pressureStart := None\<rparr>"])
      (auto intro: pc_ok_same)
next
  case False
  assume "carrier_inv c"
  with False show ?thesis by (simp add: upd_stream_def list_update_beyond)
qed

lemma set_pc_pressure:
  "set_pc pc (upd_stream i (\<lambda>s. s\<lparr>pressureStart := None\<rparr>) c)
     = upd_stream i (\<lambda>s. s\<lparr>pressureStart := None\<rparr>) (set_pc pc c)"
  by (simp add: set_pc_def upd_stream_def)

lemma inv_deliver_first:
  assumes inv: "carrier_inv c" and pc: "dispatcher c = DDeliver i it"
  shows "carrier_inv (deliver_first i it c)"
proof -
  have i: "i < length (allStreams c)" using carrier_inv_stream(3) [OF inv] pc by (simp add: pc_ok_def)
  have pend: "pending j (dispatcher c) = (if j = i then [it] else [])" for j using pc by simp
  obtain r c1 where oq: "on_queue i (MPush it) c = (r, c1)" by fastforce
  then have r: "r = MAccepted \<or> (\<exists>x. r = MRefused x)"
    by (auto elim!: on_queue_trans elim: MPush_transE)
  show ?thesis
    using inv_pending_drop [OF inv i pend] inv_offer [OF inv i pend oq] oq r i on_queue_length [OF oq]
    by (auto simp: deliver_first_def pc_ok_def set_pc_pressure intro!: inv_pressure_reset)
qed

lemma inv_deliver_refused:
  assumes inv: "carrier_inv c" and pc: "dispatcher c = DRefused i it reason"
  shows "carrier_inv (deliver_refused i it reason c)"
proof -
  have i: "i < length (allStreams c)" using carrier_inv_stream(3) [OF inv] pc by (simp add: pc_ok_def)
  have pend: "pending j (dispatcher c) = (if j = i then [it] else [])" for j using pc by simp
  obtain r c1 where oq: "on_queue i (MCarry it) c = (r, c1)" by fastforce
  show ?thesis
    using inv_pending_drop [OF inv i pend] inv_pending_keep [OF inv i pend, of "DFail i it"]
      inv_offer [OF inv i pend oq] oq i on_queue_length [OF oq]
    by (auto simp: deliver_refused_def pc_ok_def)
qed

lemma inv_deliver_park:
  assumes inv: "carrier_inv c" and i: "i < length (allStreams c)"
    and pend: "\<And>j. pending j (dispatcher c) = (if j = i then [it] else [])"
  shows "carrier_inv (deliver_park i it c)"
proof -
  obtain r c1 where oq: "on_queue i (MPark it) c = (r, c1)" by fastforce
  then obtain q' sh' where tr: "mailbox_trans (MPark it) (mbox (allStreams c ! i)) (csh c) r q' sh'"
    and c1: "c1 = (upd_stream i (\<lambda>s. s\<lparr>mbox := q'\<rparr>) c)\<lparr>csh := sh'\<rparr>"
    by (rule on_queue_trans)
  have "queue_wf (mbox (allStreams c ! i))"
    using carrier_inv_stream(1) [OF inv i] by (simp add: stream_ok_def)
  with tr have pc: "r = MBlocked w \<Longrightarrow> pc_ok c1 (DParked i it w)"
    "r = MShut \<Longrightarrow> pc_ok c1 (DShut i it)" for w
    using i by (auto simp: c1 pc_ok_def queue_wf_def elim!: MPark_transE split: option.splits)
  have r: "r = MAccepted \<or> r = MShut \<or> (\<exists>w. r = MBlocked w)"
    using tr by (auto elim: MPark_transE)
  show ?thesis
    using inv_offer [OF inv i pend oq] oq r pc
    by (auto simp: deliver_park_def pc_ok_def [of _ DIdle])
qed

section \<open>Preservation: termination\<close>

lemma stop_commute:
  "s\<lparr>stopped := x, terminated := b, mbox := q'\<rparr> = s\<lparr>mbox := q', terminated := b, stopped := x\<rparr>"
  "s\<lparr>mbox := q', stopped := x, terminated := b\<rparr> = s\<lparr>mbox := q', terminated := b, stopped := x\<rparr>"
  by (cases s, simp)+

lemma stream_ok_closed_worker:
  assumes "stream_ok l s" and "qclosed (mbox s)"
  shows "stream_ok l (s\<lparr>stopped := b, terminated := True\<rparr>)" "stream_ok l (s\<lparr>worker := WExited\<rparr>)"
  using assms by (auto simp: stream_ok_def)

lemma flow_close:
  assumes "stream_flow cl pend s" and "qclosed q'"
  shows "stream_flow cl pend' (s\<lparr>mbox := q', terminated := b, stopped := x\<rparr>)"
  using assms by (auto simp: stream_flow_def stream_open_def held_def observed_def)

text \<open>
  What \<open>terminateStream\<close> does to a record that was not stopped: the mailbox is closed, the
  flags are set, an end marker may be sent.
\<close>

lemma terminateStream_effect:
  assumes i: "i < length (allStreams c)" and ns: "\<not> stopped (allStreams c ! i)"
  obtains r q' sh' where
    "mailbox_trans MClose (mbox (allStreams c ! i)) (csh c) r q' sh'"
    "allStreams (terminateStream i p sent c) = (allStreams c)[i :=
       (allStreams c ! i)\<lparr>mbox := q', terminated := True, stopped := True,
          ch := ch (allStreams c ! i) @ (if sent then [None] else [])\<rparr>]"
    "csh (terminateStream i p sent c) = sh'"
    "limits (terminateStream i p sent c) = limits c" "streams (terminateStream i p sent c) = streams c"
    "close_st (terminateStream i p sent c) = close_st c"
    "dispatcher (terminateStream i p sent c) = dispatcher c"
proof -
  define c1 where "c1 = upd_stream i (\<lambda>s. s\<lparr>stopped := True, terminated := True\<rparr>) c"
  define c2 where "c2 = emit (onStreamTerminated c1) (EvTerminated (rid (allStreams c ! i))) c1"
  obtain r c3 where oq: "on_queue i MClose c2 = (r, c3)" by fastforce
  then obtain q' sh' where tr: "mailbox_trans MClose (mbox (allStreams c2 ! i)) (csh c2) r q' sh'"
    and c3: "c3 = (upd_stream i (\<lambda>s. s\<lparr>mbox := q'\<rparr>) c2)\<lparr>csh := sh'\<rparr>"
    by (rule on_queue_trans)
  have q: "mbox (allStreams c2 ! i) = mbox (allStreams c ! i)" "csh c2 = csh c"
    using i by (simp_all add: c2_def c1_def)
  have t: "terminateStream i p sent c =
      (let c4 = (if p then snd (WriteControlFrame (rid (allStreams c ! i)) FrameClose [] c3) else c3)
       in if sent then upd_stream i (\<lambda>s. s\<lparr>ch := ch s @ [None]\<rparr>) c4 else c4)"
    using ns oq by (simp add: terminateStream_def Let_def c1_def c2_def)
  show thesis
    by (rule that [OF tr [unfolded q]])
      (use i in \<open>simp_all add: t c3 Let_def WriteControlFrame_def c2_def c1_def stop_commute(1)\<close>)
qed

lemma inv_terminateStream:
  assumes inv: "carrier_inv c" and i: "i < length (allStreams c)"
  shows "carrier_inv (terminateStream i p sent c)"
proof (cases "stopped (allStreams c ! i)")
  case True
  then show ?thesis using inv by (simp add: terminateStream_def)
next
  case False
  obtain r q' sh' where tr: "mailbox_trans MClose (mbox (allStreams c ! i)) (csh c) r q' sh'"
    and eff: "allStreams (terminateStream i p sent c) = (allStreams c)[i :=
       (allStreams c ! i)\<lparr>mbox := q', terminated := True, stopped := True,
          ch := ch (allStreams c ! i) @ (if sent then [None] else [])\<rparr>]"
    "csh (terminateStream i p sent c) = sh'"
    "limits (terminateStream i p sent c) = limits c" "streams (terminateStream i p sent c) = streams c"
    "close_st (terminateStream i p sent c) = close_st c"
    "dispatcher (terminateStream i p sent c) = dispatcher c"
    using terminateStream_effect [OF i False] by metis
  let ?s = "(allStreams c ! i)\<lparr>mbox := q', terminated := True, stopped := True,
          ch := ch (allStreams c ! i) @ (if sent then [None] else [])\<rparr>"
  have cl: "qclosed q'" using mailbox_trans_qclosed [OF tr] by simp
  have fl: "stream_flow (closing c) (pending i (dispatcher c)) (allStreams c ! i)"
    by (rule carrier_inv_stream(2) [OF inv i])
  then have "stream_flow (closing c) (pending i (dispatcher c)) ((allStreams c ! i)\<lparr>mbox := q', terminated := True, stopped := True\<rparr>)"
    using flow_close cl by blast
  then have "stream_flow (closing c) (pending i (dispatcher c)) ?s"
    using flow_end [of "closing c" "pending i (dispatcher c)"
        "(allStreams c ! i)\<lparr>mbox := q', terminated := True, stopped := True\<rparr>"] cl by auto
  moreover have "stream_ok (limits c) ?s"
    using stream_ok_closed_worker(1) [OF stream_ok_trans [OF carrier_inv_stream(1) [OF inv i] tr], of True] cl
    by (simp add: stop_commute(2))
  moreover have "pc_ok (terminateStream i p sent c) (dispatcher c)"
    using pc_ok_trans [OF carrier_inv_stream(3) [OF inv] inv i tr eff(1)] by simp
  ultimately show ?thesis
    using eff by (intro carrier_inv_call [OF inv i tr eff(1)]) auto
qed

lemma terminateStream_terminated:
  assumes "carrier_inv c" and "i < length (allStreams c)"
  shows "terminated (allStreams (terminateStream i p sent c) ! i)"
    "length (allStreams (terminateStream i p sent c)) = length (allStreams c)"
    "dispatcher (terminateStream i p sent c) = dispatcher c"
proof -
  have "terminated (allStreams (terminateStream i p sent c) ! i) \<and>
    length (allStreams (terminateStream i p sent c)) = length (allStreams c) \<and>
    dispatcher (terminateStream i p sent c) = dispatcher c"
  proof (cases "stopped (allStreams c ! i)")
    case True
    then show ?thesis
      using carrier_inv_stream(1) [OF assms] by (simp add: terminateStream_def stream_ok_def)
  next
    case False
    show ?thesis
      by (rule terminateStream_effect [OF assms(2) False, where p = p and sent = sent]) (use assms(2) in simp)
  qed
  then show "terminated (allStreams (terminateStream i p sent c) ! i)"
    "length (allStreams (terminateStream i p sent c)) = length (allStreams c)"
    "dispatcher (terminateStream i p sent c) = dispatcher c" by blast+
qed

lemma inv_emit [simp]: "carrier_inv (emit b e c) = carrier_inv c"
  using carrier_inv_same [of c "emit b e c"] carrier_inv_same [of "emit b e c" c] by auto

lemma inv_stat [simp]: "carrier_inv (stat f c) = carrier_inv c"
  using carrier_inv_same [of c "stat f c"] carrier_inv_same [of "stat f c" c] by auto

lemma inv_writeControl [simp]: "carrier_inv (snd (writeControl d c)) = carrier_inv c"
  using carrier_inv_same [of c "snd (writeControl d c)"] carrier_inv_same [of "snd (writeControl d c)" c]
  by auto

lemma fail_facts:
  assumes inv: "carrier_inv c" and i: "i < length (allStreams c)"
  shows "carrier_inv (failUndeliverableData i t sent c)"
    "terminated (allStreams (failUndeliverableData i t sent c) ! i)"
    "length (allStreams (failUndeliverableData i t sent c)) = length (allStreams c)"
    "dispatcher (failUndeliverableData i t sent c) = dispatcher c"
proof -
  let ?c1 = "stat (droppedDataFrame ^^ nat (QueueDataLen (mbox (allStreams c ! i)) + (if t then 1 else 0))) c"
  have inv1: "carrier_inv ?c1" and i1: "i < length (allStreams ?c1)" using inv i by simp_all
  show "carrier_inv (failUndeliverableData i t sent c)"
    "terminated (allStreams (failUndeliverableData i t sent c) ! i)"
    "length (allStreams (failUndeliverableData i t sent c)) = length (allStreams c)"
    "dispatcher (failUndeliverableData i t sent c) = dispatcher c"
    using inv inv_terminateStream [OF inv1 i1, of True sent]
      terminateStream_terminated [OF inv1 i1, of True sent]
    by (simp_all add: failUndeliverableData_def Let_def)
qed

lemma inv_deliver_step:
  assumes inv: "carrier_inv c" and st: "deliver_step sent c = Some c'"
  shows "carrier_inv c'"
proof -
  have pc: "pc_ok c (dispatcher c)" by (rule carrier_inv_stream(3) [OF inv])
  show ?thesis
  proof (cases "dispatcher c")
    case DIdle
    then show ?thesis using st by (simp add: deliver_step_def)
  next
    case (DDeliver i it)
    then show ?thesis using st inv_deliver_first [OF inv] by (simp add: deliver_step_def)
  next
    case (DRefused i it r)
    then show ?thesis using st inv_deliver_refused [OF inv] by (simp add: deliver_step_def)
  next
    case (DPark i it)
    then have "i < length (allStreams c)" using pc by (simp add: pc_ok_def)
    then show ?thesis
      using st DPark inv_pending_drop [OF inv, of i it] inv_pending_keep [OF inv, of i it "DPushPark i it"]
      by (auto simp: deliver_step_def pc_ok_def)
  next
    case (DPushPark i it)
    then have "i < length (allStreams c)" using pc by (simp add: pc_ok_def)
    then show ?thesis
      using st DPushPark inv_deliver_park [OF inv, of i it] by (simp add: deliver_step_def)
  next
    case (DParked i it w)
    then have "i < length (allStreams c)" using pc by (simp add: pc_ok_def)
    then show ?thesis
      using st DParked inv_deliver_park [OF inv, of i it] by (auto simp: deliver_step_def split: if_splits)
  next
    case (DShut i it)
    then have "i < length (allStreams c)" "qclosed (mbox (allStreams c ! i))"
      using pc by (simp_all add: pc_ok_def)
    then show ?thesis
      using st DShut inv_pending_drop [OF inv, of i it] inv_pending_keep [OF inv, of i it "DFail i it"]
      by (auto simp: deliver_step_def pc_ok_def)
  next
    case (DFail i it)
    then have i: "i < length (allStreams c)" using pc by (simp add: pc_ok_def)
    show ?thesis
      using st DFail fail_facts [OF inv i, of "\<not> isClose it" sent] i
        inv_pending_drop [of "failUndeliverableData i (\<not> isClose it) sent c" i it]
      by (auto simp: deliver_step_def)
  qed
qed

section \<open>Preservation: workers\<close>

lemma inv_worker_pop:
  assumes inv: "carrier_inv c" and i: "i < length (allStreams c)"
    and w: "worker (allStreams c ! i) = WRun \<or> (\<exists>n. worker (allStreams c ! i) = WSleep n)"
  shows "carrier_inv (worker_pop i c)"
proof -
  obtain r c1 where oq: "on_queue i MPop c = (r, c1)" by fastforce
  then obtain q' sh' where tr: "mailbox_trans MPop (mbox (allStreams c ! i)) (csh c) r q' sh'"
    and c1: "c1 = (upd_stream i (\<lambda>s. s\<lparr>mbox := q'\<rparr>) c)\<lparr>csh := sh'\<rparr>"
    by (rule on_queue_trans)
  let ?s = "(allStreams c ! i)\<lparr>mbox := q', worker := (case r of MItem it \<Rightarrow> WHold it
            | MBlocked w \<Rightarrow> WSleep w | _ \<Rightarrow> WExited)\<rparr>"
  have st: "allStreams (worker_pop i c) = (allStreams c)[i := ?s]"
    and rest: "dispatcher (worker_pop i c) = dispatcher c" "limits (worker_pop i c) = limits c"
      "streams (worker_pop i c) = streams c" "close_st (worker_pop i c) = close_st c"
      "csh (worker_pop i c) = sh'"
    using oq i by (simp_all add: worker_pop_def c1)
  have ne: "worker (allStreams c ! i) \<noteq> WExited" and h: "held (allStreams c ! i) = []"
    using w by (auto simp: held_def)
  have "stream_ok (limits c) ?s" by (rule stream_ok_pop [OF carrier_inv_stream(1) [OF inv i] tr ne])
  moreover have "stream_flow (closing c) (pending i (dispatcher c)) ?s"
    by (rule flow_pop [OF carrier_inv_stream(2) [OF inv i] carrier_inv_stream(1) [OF inv i] tr h ne])
  moreover have "pc_ok (worker_pop i c) (dispatcher c)"
    using pc_ok_trans [OF carrier_inv_stream(3) [OF inv] inv i tr st] by simp
  ultimately show ?thesis
    using rest by (intro carrier_inv_call [OF inv i tr st]) auto
qed

lemma stream_ok_worker:
  assumes "stream_ok l s" and "worker s = WHold it"
  shows "stream_ok l (s\<lparr>ch := x, worker := WRun\<rparr>)" "stream_ok l (s\<lparr>ch := x, worker := WExited\<rparr>)"
    "stream_ok l (s\<lparr>worker := WExited\<rparr>)" "stream_ok l (s\<lparr>terminated := True, worker := WExited\<rparr>)"
  using assms by (auto simp: stream_ok_def)

text \<open>A worker that returns with its item undelivered: only once the stream is over.\<close>

lemma flow_abandon:
  assumes "stream_flow cl pend s" and "terminated s \<or> qclosed (mbox s)"
  shows "stream_flow cl pend' (s\<lparr>worker := WExited\<rparr>)"
  using assms by (auto simp: stream_flow_def stream_open_def held_def observed_def)

lemma flow_stall:
  assumes "stream_flow cl pend s"
  shows "stream_flow cl pend' (s\<lparr>terminated := True, worker := WExited\<rparr>)"
  using assms by (auto simp: stream_flow_def stream_open_def held_def observed_def)

lemma inv_worker_handoff:
  assumes inv: "carrier_inv c" and i: "i < length (allStreams c)"
    and w: "worker (allStreams c ! i) = WHold it" and st: "worker_handoff i it h c = Some c'"
  shows "carrier_inv c'"
proof -
  let ?s = "allStreams c ! i"
  have ok: "stream_ok (limits c) ?s" and fl: "stream_flow (closing c) (pending i (dispatcher c)) ?s"
    and pc: "pc_ok c (dispatcher c)"
    using carrier_inv_stream(1,2) [OF inv i] carrier_inv_stream(3) [OF inv] .
  have flags: "carrier_inv d"
    if "allStreams d = (allStreams c)[i := s']" "mbox s' = mbox ?s" "rid s' = rid ?s"
      "limits d = limits c" "streams d = streams c" "close_st d = close_st c"
      "budget (csh d) = budget (csh c)" "queuedItems (csh d) = queuedItems (csh c)"
      "dispatcher d = dispatcher c" "stream_ok (limits c) s'"
      "stream_flow (closing c) (pending i (dispatcher c)) s'" "terminated ?s \<Longrightarrow> terminated s'" for d s'
    using that by (intro carrier_inv_flags [OF inv i that(1-3)]) (auto intro: pc_ok_same [OF pc])
  show ?thesis
  proof (cases h)
    case HSent
    then show ?thesis
      using st stream_ok_worker(1,2) [OF ok w] flow_handoff [OF fl w] i
      by (intro flags [where s' = "?s\<lparr>ch := ch ?s @ [handoff it],
            worker := (if isClose it then WExited else WRun)\<rparr>"]) (auto simp: worker_handoff_def)
  next
    case HCarrierClosed
    then have cl: "closing c" and c': "c' = upd_stream i (\<lambda>s. s\<lparr>worker := WExited\<rparr>) c"
      using st by (auto simp: worker_handoff_def split: if_splits)
    have "stream_flow (closing c) (pending i (dispatcher c)) (?s\<lparr>worker := WExited\<rparr>)"
      using fl cl by (auto simp: stream_flow_def stream_open_def held_def observed_def)
    then show ?thesis
      using c' stream_ok_worker(3) [OF ok w] i
      by (intro flags [where s' = "?s\<lparr>worker := WExited\<rparr>"]) auto
  next
    case (HStalled sent)
    show ?thesis
    proof (cases "isClose it")
      case True
      then show ?thesis
        using st HStalled stream_ok_worker(4) [OF ok w] flow_stall [OF fl] i
        by (intro flags [where s' = "?s\<lparr>terminated := True, worker := WExited\<rparr>"])
          (auto simp: worker_handoff_def Let_def)
    next
      case False
      let ?t = "terminateStream i False sent (stat overflowTerminatedWorker c)"
      have invt: "carrier_inv ?t" and it: "i < length (allStreams ?t)"
        and tt: "terminated (allStreams ?t ! i)"
        using inv_terminateStream [of "stat overflowTerminatedWorker c" i False sent]
          terminateStream_terminated [of "stat overflowTerminatedWorker c" i False sent] inv i
        by simp_all
      have "c' = upd_stream i (\<lambda>s. s\<lparr>worker := WExited\<rparr>) ?t"
        using st HStalled False by (simp add: worker_handoff_def Let_def)
      moreover have "stream_ok (limits ?t) ((allStreams ?t ! i)\<lparr>worker := WExited\<rparr>)"
        using carrier_inv_stream(1) [OF invt it] by (auto simp: stream_ok_def)
      moreover have "stream_flow (closing ?t) (pending i (dispatcher ?t)) ((allStreams ?t ! i)\<lparr>worker := WExited\<rparr>)"
        using flow_abandon [OF carrier_inv_stream(2) [OF invt it]] tt by blast
      ultimately show ?thesis
        using it
        by (intro carrier_inv_flags [OF invt it, where s' = "(allStreams ?t ! i)\<lparr>worker := WExited\<rparr>"])
          (auto intro: pc_ok_same [OF carrier_inv_stream(3) [OF invt]])
    qed
  qed
qed

lemma inv_streamWorker_step:
  assumes "carrier_inv c" and "streamWorker_step i h c = Some c'"
  shows "carrier_inv c'"
  using assms
  by (auto simp: streamWorker_step_def split: if_splits worker_state.splits
      intro: inv_worker_pop inv_worker_handoff)

section \<open>Preservation: registration, reading, closing\<close>

lemma new_stream_ok:
  assumes "sid \<noteq> 0"
  shows "stream_ok l (new_stream sid False l)" "stream_flow cl [] (new_stream sid b l)"
    "qbytes (mbox (new_stream sid b l)) = 0" "qcount (mbox (new_stream sid b l)) = 0"
    "rid (new_stream sid b l) = sid" "\<not> qclosed (mbox (new_stream sid b l))"
  using assms
  by (simp_all add: new_stream_def stream_ok_def stream_flow_def stream_open_def SetOverflowCap_def
      NewStreamQueue_def queue_wf_def queue_bounded_def contents_def held_def observed_def qbytes_def
      qcount_def Let_def)

text \<open>Appending a fresh record, registered under an unused id on an open carrier.\<close>

lemma carrier_inv_append:
  assumes inv: "carrier_inv c" and cl: "\<not> closing c" and sid: "sid \<noteq> 0"
    and s: "s = new_stream sid False (limits c)"
  shows "carrier_inv (c\<lparr>streams := (streams c)(sid \<mapsto> length (allStreams c)),
                        allStreams := allStreams c @ [s]\<rparr>)" (is "carrier_inv ?c")
proof -
  have pend: "pending (length (allStreams c)) (dispatcher c) = []"
    using carrier_inv_stream(3) [OF inv] by (cases "dispatcher c") (auto simp: pc_ok_def)
  have pc: "pc_ok ?c (dispatcher c)"
    using carrier_inv_stream(3) [OF inv] by (auto simp: pc_ok_def nth_append split: dispatch_pc.splits)
  have cl': "closing ?c = closing c" by (simp add: closing_def)
  have op: "close_st c = Open" using cl by (simp add: closing_def)
  show ?thesis
    using inv new_stream_ok [OF sid] pc pend cl' op
    by (auto simp: carrier_inv_def total_bytes_def total_items_def nth_append s less_Suc_eq)
qed

lemma inv_create:
  assumes "carrier_inv c" and "\<not> closing c" and "createStreamLocked sid False c = (r, c')"
  shows "carrier_inv c' \<and> (\<forall>i. r = Some i \<longrightarrow> i < length (allStreams c')) \<and> dispatcher c' = dispatcher c"
  using assms carrier_inv_append [OF assms(1,2)] carrier_inv_stream(4) [OF assms(1)]
  by (auto simp: createStreamLocked_def split: if_splits option.splits)

lemma inv_Register: "carrier_inv c \<Longrightarrow> carrier_inv (snd (Register sid c))"
  using inv_create [of c sid]
  by (auto simp: Register_def split: option.splits) (metis prod.collapse)

lemma inv_Deregister: "carrier_inv c \<Longrightarrow> carrier_inv (Deregister sid c)"
proof -
  assume inv: "carrier_inv c"
  have "pc_ok (Deregister sid c) pc = pc_ok c pc" for pc
    by (simp add: Deregister_def pc_ok_def split: dispatch_pc.splits)
  then show ?thesis
    using inv by (auto simp: carrier_inv_def Deregister_def total_bytes_def total_items_def closing_def)
qed

lemma inv_Terminate: "carrier_inv c \<Longrightarrow> carrier_inv (Terminate sid sent c)"
  using inv_create [of c sid] carrier_inv_stream(4) [of c sid]
  by (auto simp: Terminate_def Let_def split: option.splits prod.splits intro: inv_terminateStream)

lemma inv_feed:
  assumes inv: "carrier_inv c" and i: "i < length (allStreams c)" and pc: "dispatcher c = DIdle"
  shows "carrier_inv (feed i it c)"
proof (rule carrier_inv_flags [OF inv i, where s' = "(allStreams c ! i)\<lparr>fed := fed (allStreams c ! i) @ [it]\<rparr>"])
  have "stream_flow (closing c) [] (allStreams c ! i)" using carrier_inv_stream(2) [OF inv i] pc by simp
  from flow_feed [OF this]
  show "stream_flow (closing c) (pending i (dispatcher (feed i it c)))
          ((allStreams c ! i)\<lparr>fed := fed (allStreams c ! i) @ [it]\<rparr>)"
    by (simp add: feed_def)
qed (use carrier_inv_stream(1) [OF inv i] i pc in \<open>simp_all add: feed_def pc_ok_def\<close>)

lemma inv_frames [simp]: "carrier_inv (c\<lparr>frames := fs\<rparr>) = carrier_inv c"
  using carrier_inv_same [of c "c\<lparr>frames := fs\<rparr>"] carrier_inv_same [of "c\<lparr>frames := fs\<rparr>" c] by auto

lemma no_callback:
  "carrier_inv c \<Longrightarrow> i < length (allStreams c) \<Longrightarrow> \<not> callback (allStreams c ! i)"
  using carrier_inv_stream(1) by (auto simp: stream_ok_def)

text \<open>A stream the dispatcher creates is announced and handed on as a registered one.\<close>

lemma dispatch_create:
  assumes "createStreamLocked sid True c = (Some i, c1)" and "streams c sid = None" and "sid \<noteq> 0"
  shows "i = length (allStreams c)" "callback (allStreams c1 ! i)"
    "upd_stream i (\<lambda>s. s\<lparr>callback := False\<rparr>) c1 =
       c\<lparr>streams := (streams c)(sid \<mapsto> length (allStreams c)),
         allStreams := allStreams c @ [new_stream sid False (limits c)]\<rparr>"
  using assms by (auto simp: createStreamLocked_def upd_stream_def new_stream_def)

lemma inv_dispatch_stream:
  assumes inv: "carrier_inv c" and pc: "dispatcher c = DIdle" and st: "dispatch_stream f c = Some c'"
  shows "carrier_inv c'"
proof (cases "streams c (StreamID f)")
  case (Some i)
  then have i: "i < length (allStreams c)" using carrier_inv_stream(4) [OF inv] by blast
  then show ?thesis
    using st Some no_callback [OF inv i] inv_feed [OF inv i pc]
    by (auto simp: dispatch_stream_def Let_def)
next
  case None
  show ?thesis
  proof (cases "onNewStream c \<and> \<not> closing c")
    case False
    then show ?thesis using st None inv by (auto simp: dispatch_stream_def)
  next
    case True
    have nz: "StreamID f \<noteq> 0"
      using st None True by (auto simp: dispatch_stream_def createStreamLocked_def)
    obtain i c1 where cr: "createStreamLocked (StreamID f) True c = (Some i, c1)"
      using nz None by (auto simp: createStreamLocked_def)
    let ?c2 = "emit True (EvNewStream (StreamID f) (Type f) i) (upd_stream i (\<lambda>s. s\<lparr>callback := False\<rparr>) c1)"
    note d = dispatch_create [OF cr None nz]
    have inv2: "carrier_inv ?c2" using d(3) carrier_inv_append [OF inv _ nz] True by simp
    moreover have "i < length (allStreams ?c2)" "dispatcher ?c2 = DIdle"
      using d pc by simp_all
    ultimately show ?thesis
      using st None True cr d(2) inv_feed [of ?c2 i]
      by (auto simp: dispatch_stream_def Let_def)
  qed
qed

lemma inv_dispatch_credit: "carrier_inv c \<Longrightarrow> carrier_inv (dispatch_credit f sent c)"
  using carrier_inv_stream(4) [of c "StreamID f"]
  by (auto simp: dispatch_credit_def Let_def intro: inv_terminateStream split: option.splits)

lemma inv_sawPong: "carrier_inv c \<Longrightarrow> carrier_inv (c\<lparr>sawPong := b, missed := m\<rparr>)"
  "carrier_inv c \<Longrightarrow> carrier_inv (c\<lparr>sawPong := b\<rparr>)" "carrier_inv c \<Longrightarrow> carrier_inv (c\<lparr>missed := m\<rparr>)"
  "carrier_inv c \<Longrightarrow> carrier_inv (c\<lparr>readErr := e, readDone := d\<rparr>)"
  "carrier_inv c \<Longrightarrow> carrier_inv (c\<lparr>readDone := d\<rparr>)"
  by (auto intro: carrier_inv_same)

lemma inv_Dispatch_step:
  assumes inv: "carrier_inv c" and st: "Dispatch_step sent c = Some c'"
  shows "carrier_inv c'"
proof -
  obtain f fs where pc: "dispatcher c = DIdle"
    and fr: "Dispatch_frame f sent (c\<lparr>frames := fs\<rparr>) = Some c'"
    using st by (auto simp: Dispatch_step_def split: if_splits list.splits)
  have "carrier_inv (c\<lparr>frames := fs\<rparr>)" "dispatcher (c\<lparr>frames := fs\<rparr>) = DIdle" using inv pc by simp_all
  then show ?thesis
    using fr inv_dispatch_stream [of "c\<lparr>frames := fs\<rparr>" f c'] unfolding Dispatch_frame_def
    by (auto split: if_splits sum.splits prod.splits intro: inv_dispatch_credit inv_sawPong)
qed

lemma inv_readLoop_step: "carrier_inv c \<Longrightarrow> readLoop_step rd d c = Some c' \<Longrightarrow> carrier_inv c'"
  by (auto simp: readLoop_step_def split: if_splits sum.splits option.splits intro: inv_sawPong)

lemma inv_close_one:
  assumes inv: "carrier_inv c" and i: "i < length (allStreams c)"
    and oq: "on_queue i MClose c = (r, c')" and phase: "close_st c \<noteq> Open"
  shows "carrier_inv c' \<and> close_st c' = close_st c \<and> length (allStreams c') = length (allStreams c) \<and>
    qclosed (mbox (allStreams c' ! i)) \<and>
    (\<forall>j < length (allStreams c). qclosed (mbox (allStreams c ! j)) \<longrightarrow> qclosed (mbox (allStreams c' ! j)))"
proof -
  obtain q' sh' where tr: "mailbox_trans MClose (mbox (allStreams c ! i)) (csh c) r q' sh'"
    and c': "c' = (upd_stream i (\<lambda>s. s\<lparr>mbox := q'\<rparr>) c)\<lparr>csh := sh'\<rparr>"
    using oq by (rule on_queue_trans)
  have cl: "qclosed q'" using mailbox_trans_qclosed [OF tr] by simp
  have st: "allStreams c' = (allStreams c)[i := (allStreams c ! i)\<lparr>mbox := q'\<rparr>]" by (simp add: c')
  have "stream_flow (closing c) (pending i (dispatcher c)) ((allStreams c ! i)\<lparr>mbox := q'\<rparr>)"
    using carrier_inv_stream(2) [OF inv i] cl
    by (auto simp: stream_flow_def stream_open_def held_def observed_def)
  moreover have "stream_ok (limits c) ((allStreams c ! i)\<lparr>mbox := q'\<rparr>)"
    using stream_ok_trans [OF carrier_inv_stream(1) [OF inv i] tr] by simp
  moreover have "pc_ok c' (dispatcher c)"
    using pc_ok_trans [OF carrier_inv_stream(3) [OF inv] inv i tr st] by simp
  ultimately have "carrier_inv c'"
    using phase by (intro carrier_inv_call [OF inv i tr st]) (auto simp: c')
  then show ?thesis using st cl i by (auto simp: nth_list_update c')
qed

abbreviation close_all :: "nat list \<Rightarrow> CarrierConn \<Rightarrow> CarrierConn" where
  "close_all is c \<equiv> fold (\<lambda>i c. snd (on_queue i MClose c)) is c"

lemma inv_close_fold:
  "carrier_inv c \<Longrightarrow> close_st c \<noteq> Open \<Longrightarrow> \<forall>i \<in> set is. i < length (allStreams c) \<Longrightarrow>
    carrier_inv (close_all is c) \<and> length (allStreams (close_all is c)) = length (allStreams c) \<and>
    (\<forall>j < length (allStreams c). j \<in> set is \<or> qclosed (mbox (allStreams c ! j)) \<longrightarrow>
       qclosed (mbox (allStreams (close_all is c) ! j)))"
proof (induction "is" arbitrary: c)
  case Nil
  then show ?case by simp
next
  case (Cons i "is")
  obtain r c1 where oq: "on_queue i MClose c = (r, c1)" by fastforce
  note one = inv_close_one [OF Cons.prems(1) _ oq Cons.prems(2)]
  show ?case
    using Cons.IH [of c1] Cons.prems one oq by auto
qed

lemma inv_close_st:
  assumes "carrier_inv c" and "st \<in> {MailboxesClosed, Closed} \<Longrightarrow> \<forall>s \<in> set (allStreams c). qclosed (mbox s)"
    and "st \<noteq> Open"
  shows "carrier_inv (c\<lparr>close_st := st\<rparr>)"
proof -
  have "stream_flow True p s" if "stream_flow b p s" for b p s
    using that by (auto simp: stream_flow_def stream_open_def)
  moreover have "pc_ok (c\<lparr>close_st := st\<rparr>) pc = pc_ok c pc" for pc
    by (simp add: pc_ok_def split: dispatch_pc.splits)
  ultimately show ?thesis
    using assms by (auto simp: carrier_inv_def total_bytes_def total_items_def closing_def)
qed

lemma inv_close_conn: "carrier_inv c \<Longrightarrow> carrier_inv (close_conn c)"
  by (auto simp: close_conn_def intro: inv_close_st)

lemma inv_close_mailboxes:
  assumes "carrier_inv c" and "close_st c \<noteq> Open" shows "carrier_inv (close_mailboxes c)"
proof -
  have "set [0..<length (allStreams c)] = {..<length (allStreams c)}" by auto
  then show ?thesis
    using inv_close_fold [OF assms, of "[0..<length (allStreams c)]"]
    unfolding close_mailboxes_def by (intro inv_close_st) (auto simp: in_set_conv_nth)
qed

lemma inv_close_finish:
  assumes "carrier_inv c" and "close_st c = MailboxesClosed" and "close_finish c = Some c'"
  shows "carrier_inv c'"
proof -
  have inv2: "carrier_inv (c\<lparr>close_st := Closed\<rparr>)"
    using assms(1,2) by (intro inv_close_st) (auto simp: carrier_inv_def)
  let ?m = "\<lambda>sid. if sid \<in> rid ` set (allStreams c) then None else streams c sid"
  have "pc_ok (c\<lparr>close_st := Closed, streams := ?m\<rparr>) pc = pc_ok (c\<lparr>close_st := Closed\<rparr>) pc" for pc
    by (simp add: pc_ok_def split: dispatch_pc.splits)
  then have "carrier_inv (c\<lparr>close_st := Closed, streams := ?m\<rparr>)"
    using inv2 by (auto simp: carrier_inv_def total_bytes_def total_items_def closing_def split: if_splits)
  then show ?thesis using assms(3) by (auto simp: close_finish_def split: if_splits)
qed

lemma inv_Close_step: "carrier_inv c \<Longrightarrow> Close_step c = Some c' \<Longrightarrow> carrier_inv c'"
  by (auto simp: Close_step_def split: close_phase.splits
      intro: inv_close_conn inv_close_mailboxes inv_close_finish)

lemma inv_liveness_tick: "carrier_inv c \<Longrightarrow> carrier_inv (liveness_tick c)"
  by (auto simp: liveness_tick_def Let_def intro!: inv_close_conn inv_sawPong)

lemma carrier_inv_step: "carrier_inv c \<Longrightarrow> carrier_do l c = Some c' \<Longrightarrow> carrier_inv c'"
  by (cases l) (auto intro: inv_Register inv_Deregister inv_Terminate inv_readLoop_step
      inv_Dispatch_step inv_deliver_step inv_streamWorker_step inv_Close_step inv_liveness_tick)

lemma SanitizeLimits_ok:
  assumes "SanitizeLimits l = Inr s"
  shows "0 < MaxFramesPerStream s" "MaxFramesPerStream s \<le> MaxFrames" "0 < MaxBytesPerStream s"
    "MaxBytesPerStream s \<le> MaxBytesTotal s" "0 < OverflowWait s" "0 < ConsumerStall s"
  using assms
  by (auto simp: SanitizeLimits_def DefaultStreamLimits_def Let_def split: if_splits)

lemma fresh_carrier_inv: "fresh_carrier c \<Longrightarrow> carrier_inv c"
  using SanitizeLimits_ok(3,4) [of _ "limits c"]
  by (fastforce simp: fresh_carrier_def carrier_inv_def total_bytes_def total_items_def pc_ok_def)

interpretation carrier_sys: run_system carrier_do carrier_run
  by unfold_locales simp_all

lemma carrier_inv_run: "carrier_inv c \<Longrightarrow> carrier_run ls c = Some c' \<Longrightarrow> carrier_inv c'"
  by (erule carrier_sys.exec_inv) (auto dest: carrier_inv_step)

section \<open>Lemmas: closed carriers and checked frames\<close>

lemma closed_mailbox_empty:
  assumes "stream_ok l s" and "qclosed (mbox s)"
  shows "qbytes (mbox s) = 0" "qcount (mbox s) = 0" "contents (mbox s) = []"
  using assms by (auto simp: stream_ok_def queue_wf_def qbytes_def qcount_def contents_def)

lemma totals_closed:
  assumes "carrier_inv c" and "\<forall>s \<in> set (allStreams c). qclosed (mbox s)"
  shows "total_bytes c = 0" "total_items c = 0"
proof -
  have "\<forall>s \<in> set (allStreams c). qbytes (mbox s) = 0 \<and> qcount (mbox s) = 0"
    using assms closed_mailbox_empty by (auto simp: carrier_inv_def)
  then have "map (\<lambda>s. qbytes (mbox s)) (allStreams c) = map (\<lambda>s. 0) (allStreams c)"
    "map (\<lambda>s. qcount (mbox s)) (allStreams c) = map (\<lambda>s. 0) (allStreams c)" by simp_all
  then show "total_bytes c = 0" "total_items c = 0"
    by (simp_all only: total_bytes_def total_items_def) (simp_all add: sum_list_triv)
qed

definition frame_checked :: "frame \<Rightarrow> bool" where
  "frame_checked f \<longleftrightarrow> Type f \<noteq> FrameAuth \<and> (StreamID f = 0 \<longrightarrow> Type f = FramePing \<or> Type f = FramePong)"

lemma terminateStream_frames: "frames (terminateStream i p sent c) = frames c"
  by (simp add: terminateStream_def Let_def upd_stream_def emit_def on_queue_def WriteControlFrame_def
      writeControl_def split: prod.splits)

lemma on_queue_frames: "on_queue i op c = (r, c1) \<Longrightarrow> frames c1 = frames c"
  by (auto simp: on_queue_def Let_def upd_stream_def split: prod.splits)

lemma frames_sel [simp]:
  "frames (upd_stream i f c) = frames c" "frames (emit b e c) = frames c" "frames (stat g c) = frames c"
  "frames (set_pc pc c) = frames c" "frames (snd (writeControl d c)) = frames c"
  "frames (close_conn c) = frames c" "frames (snd (on_queue i op c)) = frames c"
  "frames (terminateStream i p sent c) = frames c"
  using on_queue_frames [of i op c] terminateStream_frames [of i p sent c]
  by (auto simp: upd_stream_def emit_def stat_def set_pc_def writeControl_def close_conn_def)
    (metis prod.collapse)

lemma frames_deliver: "deliver_step sent c = Some c' \<Longrightarrow> frames c' = frames c"
  by (auto simp: deliver_step_def deliver_first_def deliver_refused_def deliver_park_def
      failUndeliverableData_def Let_def dest: on_queue_frames
      split: dispatch_pc.splits if_splits prod.splits mailbox_res.splits)

lemma frames_worker: "streamWorker_step i h c = Some c' \<Longrightarrow> frames c' = frames c"
  by (auto simp: streamWorker_step_def worker_pop_def worker_handoff_def Let_def dest: on_queue_frames
      split: if_splits worker_state.splits handoff_end.splits prod.splits)

lemma frames_close_all: "frames (close_all is c) = frames c"
  by (induction "is" arbitrary: c) auto

lemma frames_create: "frames (snd (createStreamLocked sid b c)) = frames c"
  by (simp add: createStreamLocked_def split: option.splits)

lemma frames_admin:
  "frames (snd (Register sid c)) = frames c" "frames (Deregister sid c) = frames c"
  "frames (Terminate sid sent c) = frames c" "frames (liveness_tick c) = frames c"
  "Close_step c = Some c' \<Longrightarrow> frames c' = frames c"
  using frames_create [of sid False c]
  by (auto simp: Register_def Deregister_def Terminate_def liveness_tick_def Close_step_def
      close_mailboxes_def close_finish_def frames_close_all Let_def
      split: option.splits prod.splits close_phase.splits if_splits)

lemma frames_create_eq: "createStreamLocked sid b c = (r, c1) \<Longrightarrow> frames c1 = frames c"
  using frames_create [of sid b c] by simp

lemma frames_dispatch_stream: "dispatch_stream f c = Some c' \<Longrightarrow> frames c' = frames c"
  by (auto simp: dispatch_stream_def feed_def Let_def dest: frames_create_eq
      split: if_splits option.splits prod.splits)

lemma frames_dispatch_frame: "Dispatch_frame f sent c = Some c' \<Longrightarrow> frames c' = frames c"
  by (auto simp: Dispatch_frame_def dispatch_credit_def Let_def dest: frames_dispatch_stream
      split: if_splits option.splits sum.splits prod.splits)

lemma frames_dispatch: "Dispatch_step sent c = Some c' \<Longrightarrow> \<exists>f. frames c = f # frames c'"
  by (auto simp: Dispatch_step_def dest: frames_dispatch_frame split: if_splits list.splits)

lemma readLoop_frame_checked: "readLoop_check f c = None \<Longrightarrow> frame_checked f"
  by (auto simp: readLoop_check_def frame_checked_def split: if_splits)

lemma frames_checked_step:
  assumes "carrier_do l c = Some c'" and "\<forall>f \<in> set (frames c). frame_checked f"
  shows "\<forall>f \<in> set (frames c'). frame_checked f"
proof (cases l)
  case (CRead rd d)
  then show ?thesis
    using assms
    by (auto simp: readLoop_step_def dest: readLoop_frame_checked split: if_splits sum.splits option.splits)
next
  case (CDispatch sent)
  then show ?thesis using assms frames_dispatch [of sent c c'] by auto
qed (use assms in \<open>auto simp: frames_admin frames_deliver frames_worker\<close>)

lemma frames_checked_run:
  "carrier_run ls c = Some c' \<Longrightarrow> \<forall>f \<in> set (frames c). frame_checked f \<Longrightarrow> \<forall>f \<in> set (frames c'). frame_checked f"
  by (erule carrier_sys.exec_inv) (auto dest: frames_checked_step)

lemma Dispatch_frame_total: "frame_checked f \<Longrightarrow> \<exists>c'. Dispatch_frame f sent c = Some c'"
  by (auto simp: Dispatch_frame_def dispatch_stream_def createStreamLocked_def frame_checked_def Let_def
      split: option.splits sum.splits prod.splits)

section \<open>A concrete carrier\<close>

text \<open>A carrier with small limits, one data frame on stream 5 read and dispatched.\<close>

definition small_limits :: StreamLimits where
  "small_limits = \<lparr>MaxFramesPerStream = 1, MaxBytesPerStream = 10, MaxBytesTotal = 10,
     OverflowWait = 1, ConsumerStall = 1\<rparr>"

definition small_carrier :: CarrierConn where
  "small_carrier = newCarrierConn\<lparr>limits := small_limits, onNewStream := True, onStreamTerminated := True,
     onStreamDataUndeliverable := True\<rparr>"

lemma small_carrier_fresh: "fresh_carrier small_carrier"
proof -
  have "SanitizeLimits small_limits = Inr small_limits"
    by (simp add: SanitizeLimits_def small_limits_def)
  then show ?thesis
    by (auto simp: fresh_carrier_def small_carrier_def newCarrierConn_def)
qed

definition data_frame :: "u32 \<Rightarrow> bytes \<Rightarrow> frame" where
  "data_frame sid p = \<lparr>StreamID = sid, Type = FrameData, Length = word_of_nat (length p), Payload = p\<rparr>"

definition small_run :: "carrier_label list" where
  "small_run = [CRead (Inr (data_frame 5 [1, 2])) False, CRead (Inr (data_frame 5 [3])) False,
     CDispatch False, CDeliver False, CWorker 0 HSent, CWorker 0 HSent, CDispatch False, CDeliver False]"

lemmas carrier_eval = small_carrier_def newCarrierConn_def small_limits_def data_frame_def
  readLoop_step_def readLoop_check_def Dispatch_step_def Dispatch_frame_def dispatch_stream_def
  createStreamLocked_def new_stream_def upd_stream_def emit_def feed_def set_pc_def deliver_step_def
  deliver_first_def deliver_refused_def deliver_park_def on_queue_def streamWorker_step_def worker_pop_def
  worker_handoff_def handoff_def closing_def SetOverflowCap_def mailbox_eval

lemma small_run_ends:
  "\<exists>c. carrier_run small_run small_carrier = Some c \<and> length (allStreams c) = 1 \<and> close_st c = Open \<and>
     \<not> terminated (allStreams c ! 0) \<and> \<not> qclosed (mbox (allStreams c ! 0)) \<and>
     ch (allStreams c ! 0) = [Some [1, 2]] \<and> streams c 5 = Some 0"
  by (simp add: small_run_def carrier_eval)

section \<open>Lemmas: liveness rounds\<close>

lemma tick_missed:
  assumes "\<not> sawPong c" and "close_st c = Open"
  shows "missed (liveness_tick c) = missed c + 1" "\<not> sawPong (liveness_tick c)"
    "livenessRounds (liveness_tick c) = livenessRounds c"
    "close_st (liveness_tick c) = (if missed c + 1 \<ge> livenessRounds c then ClosingConn else Open)"
  using assms
  by (simp_all add: liveness_tick_def Let_def writeControl_def closing_def close_conn_def stat_def)

lemma tick_closed: "close_st c \<noteq> Open \<Longrightarrow> close_st (liveness_tick c) \<noteq> Open"
  by (auto simp: liveness_tick_def Let_def writeControl_def closing_def close_conn_def stat_def)

lemma ticks_open:
  assumes "close_st c = Open" "\<not> sawPong c" "missed c = 0" "int k < livenessRounds c"
  shows "close_st ((liveness_tick ^^ k) c) = Open \<and> \<not> sawPong ((liveness_tick ^^ k) c) \<and>
    missed ((liveness_tick ^^ k) c) = int k \<and> livenessRounds ((liveness_tick ^^ k) c) = livenessRounds c"
  using assms by (induction k) (auto simp: tick_missed)

section \<open>Properties\<close>

text \<open>C2. Memory: whatever the peer sends and however the goroutines interleave, the carrier's byte
  counter is exactly the sum over its mailboxes and never exceeds \<open>MaxBytesTotal\<close>, the item
  counter is exact too, and each mailbox stays within its frame and byte limits, the carry
  region included.\<close>

theorem carrier_memory_bounded:
  assumes "fresh_carrier c" and "carrier_run ls c = Some c'"
  shows "budget (csh c') = Some (total_bytes c') \<and> total_bytes c' \<le> MaxBytesTotal (limits c') \<and>
    queuedItems (csh c') = Some (total_items c') \<and>
    (\<forall>s \<in> set (allStreams c').
       (items (mbox s) = [] \<or> int (length (items (mbox s))) \<le> MaxFramesPerStream (limits c') \<and>
          nBytes (mbox s) \<le> MaxBytesPerStream (limits c')) \<and>
       (overflow (mbox s) = [] \<or> overflowBytes (mbox s) \<le> MaxBytesPerStream (limits c')))"
proof -
  have "carrier_inv c'" using carrier_inv_run [OF fresh_carrier_inv] assms by blast
  then show ?thesis
    by (auto simp: carrier_inv_def stream_ok_def queue_bounded_def)
qed

theorem carrier_memory_bounded_witness:
  "\<exists>c. carrier_run small_run small_carrier = Some c \<and>
     budget (csh c) = Some (total_bytes c) \<and> total_bytes c \<le> MaxBytesTotal (limits c)"
  using small_run_ends carrier_memory_bounded [OF small_carrier_fresh] by blast

text \<open>C1. Deliver or fail: on a stream that has not been terminated on an open carrier, every item
  the dispatcher was given is, in order and once, either already handed to the consumer, held
  by the worker, queued in the mailbox, or in the dispatcher's hands; and even on a
  terminated stream what the consumer reads before the end marker is a prefix of it.\<close>

theorem carrier_deliver_or_fail:
  assumes "fresh_carrier c" and "carrier_run ls c = Some c'" and "i < length (allStreams c')"
    and "s = allStreams c' ! i"
  shows "(\<not> terminated s \<and> close_st c' = Open \<longrightarrow>
      map handoff (fed s) = ch s @ map handoff (held s @ contents (mbox s) @ pending i (dispatcher c'))) \<and>
    (\<exists>rest. map handoff (fed s) = observed s @ rest)"
proof -
  have inv: "carrier_inv c'" using carrier_inv_run [OF fresh_carrier_inv] assms(1,2) by blast
  have fl: "stream_flow (closing c') (pending i (dispatcher c')) s"
    using carrier_inv_stream(2) [OF inv assms(3)] assms(4) by simp
  then have "\<exists>rest. map handoff (fed s) = observed s @ rest"
    unfolding stream_flow_def observed_def by (metis append.assoc takeWhile_dropWhile_id)
  with fl show ?thesis
    using carrier_inv_stream(6) [OF inv assms(3)] assms(4)
    by (auto simp: stream_flow_def stream_open_def closing_def)
qed

theorem carrier_deliver_or_fail_witness:
  "\<exists>c. carrier_run small_run small_carrier = Some c \<and>
     map handoff (fed (allStreams c ! 0)) =
       [Some [1, 2]] @ map handoff (held (allStreams c ! 0) @ contents (mbox (allStreams c ! 0))
         @ pending 0 (dispatcher c))"
proof -
  obtain c where "carrier_run small_run small_carrier = Some c" "length (allStreams c) = 1"
    "close_st c = Open" "\<not> terminated (allStreams c ! 0)" "ch (allStreams c ! 0) = [Some [1, 2]]"
    using small_run_ends by blast
  then show ?thesis
    using carrier_deliver_or_fail [OF small_carrier_fresh, of small_run c 0 "allStreams c ! 0"]
    by (intro exI [of _ c]) simp
qed

text \<open>Close frees everything and leaves nobody asleep: once the mailboxes have been closed, the
  byte and item counters are zero, no worker sleeps in \<open>Pop\<close>, and a dispatcher parked in
  \<open>PushPark\<close> has been woken.\<close>

lemma carrier_close_releases:
  assumes "fresh_carrier c" and "carrier_run ls c = Some c'"
    and "close_st c' = MailboxesClosed \<or> close_st c' = Closed"
  shows "budget (csh c') = Some 0 \<and> queuedItems (csh c') = Some 0 \<and>
    (\<forall>s \<in> set (allStreams c'). \<forall>w. worker s = WSleep w \<longrightarrow> wake (mbox s) \<noteq> Some w) \<and>
    (\<forall>i it w. dispatcher c' = DParked i it w \<longrightarrow> free (mbox (allStreams c' ! i)) \<noteq> Some w)"
proof -
  have inv: "carrier_inv c'" using carrier_inv_run [OF fresh_carrier_inv] assms(1,2) by blast
  then have cl: "\<forall>s \<in> set (allStreams c'). qclosed (mbox s)"
    using assms(3) by (auto simp: carrier_inv_def)
  have "\<forall>s \<in> set (allStreams c'). \<forall>w. worker s = WSleep w \<longrightarrow> wake (mbox s) \<noteq> Some w"
    using inv cl by (auto simp: carrier_inv_def stream_ok_def)
  moreover have "free (mbox (allStreams c' ! i)) \<noteq> Some w" if "dispatcher c' = DParked i it w" for i it w
    using carrier_inv_stream(3) [OF inv] that cl by (auto simp: pc_ok_def)
  ultimately show ?thesis
    using totals_closed [OF inv cl] inv by (auto simp: carrier_inv_def)
qed

lemma carrier_close_releases_witness:
  "\<exists>c. carrier_run (small_run @ [CClose, CClose]) small_carrier = Some c \<and>
     budget (csh c) = Some 0 \<and> queuedItems (csh c) = Some 0"
proof -
  obtain c where "carrier_run (small_run @ [CClose, CClose]) small_carrier = Some c"
    and "close_st c = MailboxesClosed"
    by (simp add: small_run_def carrier_eval Close_step_def close_conn_def close_mailboxes_def)
  then show ?thesis using carrier_close_releases [OF small_carrier_fresh] by blast
qed

text \<open>A terminated stream stays dead: a later data, header, rebind or close frame on its id
  changes nothing but the record of what was asked: no callback fires, no stream is created,
  nothing is queued or handed to the consumer.\<close>

lemma terminated_stream_stays_dead:
  assumes "fresh_carrier c0" and "carrier_run ls c0 = Some c" and "dispatcher c = DIdle"
    and "streams c (StreamID f) = Some i" and "terminated (allStreams c ! i)"
    and "Type f \<in> {FrameData, FrameHeader, FrameRebind, FrameClose}"
  shows "\<exists>c1 it. Dispatch_frame f sent c = Some c1 \<and>
    deliver_step sent' c1 = Some (upd_stream i (\<lambda>s. s\<lparr>fed := fed s @ [it]\<rparr>) c)"
proof -
  have inv: "carrier_inv c" using carrier_inv_run [OF fresh_carrier_inv] assms(1,2) by blast
  have i: "i < length (allStreams c)" using carrier_inv_stream(4) [OF inv assms(4)] .
  obtain it where "Dispatch_frame f sent c = Some (feed i it c)"
    using assms(4,6) no_callback [OF inv i] by (auto simp: Dispatch_frame_def dispatch_stream_def Let_def)
  moreover have "deliver_step sent' (feed i it c) = Some (upd_stream i (\<lambda>s. s\<lparr>fed := fed s @ [it]\<rparr>) c)"
    using assms(3,5) i
    by (simp add: deliver_step_def deliver_first_def feed_def set_pc_def upd_stream_def)
  ultimately show ?thesis by blast
qed

lemma terminated_stream_stays_dead_witness:
  "\<exists>c c1 it. carrier_run (small_run @ [CTerminate 5 True]) small_carrier = Some c \<and>
     Dispatch_frame (data_frame 5 [9]) True c = Some c1 \<and>
     deliver_step True c1 = Some (upd_stream 0 (\<lambda>s. s\<lparr>fed := fed s @ [it]\<rparr>) c)"
proof -
  obtain c where run: "carrier_run (small_run @ [CTerminate 5 True]) small_carrier = Some c"
    and c: "dispatcher c = DIdle" "streams c 5 = Some 0" "terminated (allStreams c ! 0)"
    by (simp add: small_run_def carrier_eval Terminate_def terminateStream_def WriteControlFrame_def
        writeControl_def)
  show ?thesis
    using terminated_stream_stays_dead [OF small_carrier_fresh run, of "data_frame 5 [9]" 0] run c
    by (auto simp: data_frame_def)
qed

text \<open>The dispatcher never dereferences a missing stream: every frame the read loop has let
  through, in any reachable state, is processed (stream 0 never reaches stream creation).\<close>

lemma dispatcher_never_panics:
  assumes "fresh_carrier c0" and "carrier_run ls c0 = Some c" and "dispatcher c = DIdle" and "frames c \<noteq> []"
  shows "\<exists>c'. Dispatch_step sent c = Some c'"
proof -
  have "\<forall>f \<in> set (frames c). frame_checked f"
    using frames_checked_run [OF assms(2)] assms(1) by (simp add: fresh_carrier_def)
  then show ?thesis
    using assms(3,4) by (cases "frames c") (auto simp: Dispatch_step_def intro: Dispatch_frame_total)
qed

lemma dispatcher_never_panics_witness:
  "\<exists>c c'. carrier_run [CRead (Inr (data_frame 5 [1, 2])) False] small_carrier = Some c \<and>
     Dispatch_step False c = Some c'"
proof -
  obtain c where "carrier_run [CRead (Inr (data_frame 5 [1, 2])) False] small_carrier = Some c"
    and "dispatcher c = DIdle" "frames c \<noteq> []"
    by (simp add: carrier_eval)
  then show ?thesis using dispatcher_never_panics [OF small_carrier_fresh] by blast
qed

text \<open>Blackhole detection: without any pong the carrier survives exactly
  \<open>livenessRounds - 1\<close> ticks and is closed by the next one; a carrier whose pong arrives
  before every tick is never closed by the keepalive loop.\<close>

lemma liveness_detection:
  assumes "close_st c = Open" and "missed c = 0" and "0 < livenessRounds c"
  shows "(\<not> sawPong c \<longrightarrow>
      (\<forall>k. int k < livenessRounds c \<longrightarrow> close_st ((liveness_tick ^^ k) c) = Open) \<and>
      close_st ((liveness_tick ^^ nat (livenessRounds c)) c) = ClosingConn) \<and>
    (\<forall>k. close_st (((\<lambda>c. liveness_tick (c\<lparr>sawPong := True\<rparr>)) ^^ k) c) = Open)"
proof -
  define r where "r = nat (livenessRounds c - 1)"
  have r: "nat (livenessRounds c) = Suc r" "int r < livenessRounds c" using assms(3) by (simp_all add: r_def)
  have dead: "close_st ((liveness_tick ^^ Suc r) c) = ClosingConn" if "\<not> sawPong c"
  proof -
    let ?d = "(liveness_tick ^^ r) c"
    have d: "close_st ?d = Open \<and> \<not> sawPong ?d \<and> missed ?d = int r \<and> livenessRounds ?d = livenessRounds c"
      by (rule ticks_open [OF assms(1) that assms(2) r(2)])
    then show ?thesis using tick_missed(4) [of ?d] assms(3) by (simp add: r_def)
  qed
  have "close_st (((\<lambda>c. liveness_tick (c\<lparr>sawPong := True\<rparr>)) ^^ k) c) = Open \<and>
      livenessRounds (((\<lambda>c. liveness_tick (c\<lparr>sawPong := True\<rparr>)) ^^ k) c) = livenessRounds c" for k
    using assms(1,3)
    by (induction k) (simp_all add: liveness_tick_def Let_def writeControl_def closing_def)
  then show ?thesis using ticks_open [OF assms(1) _ assms(2)] dead r(1) by auto
qed

lemma liveness_detection_witness:
  "close_st ((liveness_tick ^^ 2) small_carrier) = Open \<and>
   close_st ((liveness_tick ^^ 3) small_carrier) = ClosingConn"
proof -
  have c: "close_st small_carrier = Open" "missed small_carrier = 0" "livenessRounds small_carrier = 3"
    "\<not> sawPong small_carrier"
    by (simp_all add: small_carrier_def newCarrierConn_def)
  have "int 2 < livenessRounds small_carrier" by (simp add: c)
  then show ?thesis using liveness_detection [OF c(1,2)] c(3,4) by auto
qed

text \<open>The round count is one short: with \<open>SetLivenessRounds 1\<close> (an accepted setting) the very
  first tick closes a new carrier, before the pong of the first ping could possibly arrive.\<close>

lemma single_round_kills_new_carrier:
  "close_st (liveness_tick (SetLivenessRounds 1 newCarrierConn)) = ClosingConn"
  by (simp add: SetLivenessRounds_def newCarrierConn_def liveness_tick_def Let_def writeControl_def
      closing_def close_conn_def stat_def)

text \<open>A late credit kills the carrier: after a stream has been deregistered, a well-formed
  credit frame that the peer had already sent for it ends the read loop of the whole
  carrier with \<open>ErrCreditUnknownStream\<close>.\<close>

lemma late_credit_kills_carrier:
  assumes "\<not> readDone c" and "sid \<noteq> 0"
    and "f = \<lparr>StreamID = sid, Type = FrameCredit, Length = 32, Payload = EncodeCreditPayload p\<rparr>"
  shows "readLoop_step (Inr f) d (Deregister sid c) =
    Some ((Deregister sid c)\<lparr>readErr := Some ErrCreditUnknownStream, readDone := True\<rparr>)"
  using assms by (simp add: readLoop_step_def readLoop_check_def Deregister_def EncodeCreditPayload_def)

lemma late_credit_kills_carrier_witness:
  "\<exists>c. carrier_run (small_run @ [CDeregister 5,
      CRead (Inr \<lparr>StreamID = 5, Type = FrameCredit, Length = 32, Payload = EncodeCreditPayload zero_credit\<rparr>) False])
      small_carrier = Some c \<and> readErr c = Some ErrCreditUnknownStream \<and> readDone c"
proof -
  obtain c where run: "carrier_run small_run small_carrier = Some c" and rd: "\<not> readDone c"
    by (simp add: small_run_def carrier_eval)
  show ?thesis
    using late_credit_kills_carrier [OF rd, of 5 _ zero_credit False] run by (simp add: carrier_sys.exec_append)
qed

end
