(* ===== verification/Writer.thy ===== *)
theory Writer
  imports Frame "HOL-Library.Multiset" "HOL-Library.Sublist"
begin

text \<open>
  The write plane of the carrier, \<^verbatim>\<open>src/pkg/mux/carrier.go\<close>: the data queue and the control
  queue, the blocking callers \<^verbatim>\<open>write\<close> and \<^verbatim>\<open>writeControl\<close>, the dropping caller
  \<^verbatim>\<open>TryWriteControlFrame\<close>, the writer goroutine with its priority peek, and the part of
  \<^verbatim>\<open>Close\<close> that waits for the callers and drains both queues.

  A request is a number, the index of its bytes in \<open>w_reqs\<close>. Between the locked section that
  counts it in its wait group and its channel send it is in \<open>w_pend\<close> (the wait group's
  counter is the length of that list); then it is in the channel \<open>w_chan\<close>, then with the
  writer, and finally it has an outcome in \<open>w_log\<close>. One label is one section of code of one
  goroutine; which of several ready cases a select takes, and what the connection answers to
  a write, are in the label. \<open>w_wire\<close> lists the requests handed to the connection, each
  with one \<^verbatim>\<open>Write\<close> call, and \<open>w_enq\<close> the requests that entered a channel, both in order.
\<close>

datatype plane = PData | PCtrl

datatype outcome = Resolved "mux_error option" | DroppedFull

datatype writer_pc = WPeek | WSelect | WWriting plane nat | WReturned

text \<open>The steps of \<open>Close\<close>: before, latch set, channel and connection closed, control callers
  gone, control queue drained, data callers gone, data queue drained.\<close>

datatype closer_pc = CBefore | CLatched | CShut | CCtrlWaited | CCtrlDrained | CDataWaited | CDrained

record write_plane =
  w_reqs :: "bytes list"
  w_pend :: "plane \<Rightarrow> nat list"
  w_try :: "nat list"
  w_chan :: "plane \<Rightarrow> nat list"
  w_pc :: writer_pc
  w_close :: closer_pc
  w_log :: "(nat \<times> outcome) list"
  w_wire :: "(plane \<times> nat) list"
  w_enq :: "plane \<Rightarrow> nat list"
  w_failures :: nat

definition new_plane :: write_plane where
  "new_plane = \<lparr>w_reqs = [], w_pend = (\<lambda>_. []), w_try = [], w_chan = (\<lambda>_. []), w_pc = WPeek,
     w_close = CBefore, w_log = [], w_wire = [], w_enq = (\<lambda>_. []), w_failures = 0\<rparr>"

primrec chan_cap :: "plane \<Rightarrow> nat" where
  "chan_cap PData = 256"
| "chan_cap PCtrl = 64"

definition w_shut :: "write_plane \<Rightarrow> bool" where
  "w_shut w \<longleftrightarrow> w_close w \<noteq> CBefore \<and> w_close w \<noteq> CLatched"

definition resolve :: "nat \<Rightarrow> outcome \<Rightarrow> write_plane \<Rightarrow> write_plane" where
  "resolve r x w = w\<lparr>w_log := w_log w @ [(r, x)]\<rparr>"

text \<open>The locked section of \<open>write\<close> (plane \<open>PData\<close>), \<open>writeControl\<close> and
  \<open>TryWriteControlFrame\<close> (plane \<open>PCtrl\<close>).\<close>

definition write_begin :: "plane \<Rightarrow> bool \<Rightarrow> bytes \<Rightarrow> write_plane \<Rightarrow> write_plane" where
  "write_begin p nb data w =
     (let r = length (w_reqs w); w1 = w\<lparr>w_reqs := w_reqs w @ [data]\<rparr>
      in if w_close w \<noteq> CBefore then resolve r (Resolved (Some ErrCarrierClosed)) w1
         else w1\<lparr>w_pend := (w_pend w1)(p := w_pend w1 p @ [r]),
                 w_try := (if nb then w_try w1 @ [r] else w_try w1)\<rparr>)"

definition unpend :: "plane \<Rightarrow> nat \<Rightarrow> write_plane \<Rightarrow> write_plane" where
  "unpend p r w = w\<lparr>w_pend := (w_pend w)(p := remove1 r (w_pend w p))\<rparr>"

text \<open>The select of a caller: the send, or the other case (the closed carrier for a blocking
  caller, the default of a dropping one, which Go takes only when the channel is full).\<close>

definition write_send :: "plane \<Rightarrow> nat \<Rightarrow> write_plane \<Rightarrow> write_plane option" where
  "write_send p r w =
     (if r \<in> set (w_pend w p) \<and> length (w_chan w p) < chan_cap p
      then Some ((unpend p r w)\<lparr>w_chan := (w_chan w)(p := w_chan w p @ [r]),
                                w_enq := (w_enq w)(p := w_enq w p @ [r])\<rparr>)
      else None)"

definition write_give_up :: "plane \<Rightarrow> nat \<Rightarrow> write_plane \<Rightarrow> write_plane option" where
  "write_give_up p r w =
     (if r \<notin> set (w_pend w p) then None
      else if r \<in> set (w_try w)
      then (if length (w_chan w p) < chan_cap p then None else Some (resolve r DroppedFull (unpend p r w)))
      else if w_shut w then Some (resolve r (Resolved (Some ErrCarrierClosed)) (unpend p r w))
      else None)"

text \<open>The writer goroutine: take from a channel, peek, select, and one \<open>writeOne\<close>.\<close>

definition writer_take :: "plane \<Rightarrow> write_plane \<Rightarrow> write_plane option" where
  "writer_take p w =
     (case w_chan w p of
        [] \<Rightarrow> None
      | r # rs \<Rightarrow> Some (w\<lparr>w_chan := (w_chan w)(p := rs), w_pc := WWriting p r\<rparr>))"

definition writer_peek :: "write_plane \<Rightarrow> write_plane option" where
  "writer_peek w =
     (if w_pc w \<noteq> WPeek then None
      else (case writer_take PCtrl w of Some w' \<Rightarrow> Some w' | None \<Rightarrow> Some (w\<lparr>w_pc := WSelect\<rparr>)))"

definition writer_select :: "plane option \<Rightarrow> write_plane \<Rightarrow> write_plane option" where
  "writer_select arm w =
     (if w_pc w \<noteq> WSelect then None
      else (case arm of
              None \<Rightarrow> if w_shut w then Some (w\<lparr>w_pc := WReturned\<rparr>) else None
            | Some p \<Rightarrow> writer_take p w))"

definition writeOne :: "mux_error option \<Rightarrow> write_plane \<Rightarrow> write_plane option" where
  "writeOne err w =
     (case w_pc w of
        WWriting p r \<Rightarrow>
          (let w1 = w\<lparr>w_wire := w_wire w @ [(p, r)], w_pc := WPeek,
                      w_failures := (if err \<noteq> None then w_failures w + 1 else w_failures w)\<rparr>;
               res = (if w_shut w then Some ErrCarrierClosed else err)
           in Some (resolve r (Resolved res) w1))
      | _ \<Rightarrow> None)"

text \<open>\<open>drainCtrl\<close> and \<open>drainWrites\<close>: fail what is queued, until the channel is empty.\<close>

definition drain_one :: "plane \<Rightarrow> write_plane \<Rightarrow> write_plane option" where
  "drain_one p w =
     (case w_chan w p of
        [] \<Rightarrow> None
      | r # rs \<Rightarrow> Some (resolve r (Resolved (Some ErrCarrierClosed)) (w\<lparr>w_chan := (w_chan w)(p := rs)\<rparr>)))"

text \<open>One step of \<open>Close\<close>; a wait group's \<open>Wait\<close> is passed when its counter is zero.\<close>

definition close_step :: "write_plane \<Rightarrow> write_plane option" where
  "close_step w =
     (case w_close w of
        CBefore \<Rightarrow> Some (w\<lparr>w_close := CLatched\<rparr>)
      | CLatched \<Rightarrow> Some (w\<lparr>w_close := CShut\<rparr>)
      | CShut \<Rightarrow> if w_pend w PCtrl = [] then Some (w\<lparr>w_close := CCtrlWaited\<rparr>) else None
      | CCtrlWaited \<Rightarrow>
          (case drain_one PCtrl w of Some w' \<Rightarrow> Some w' | None \<Rightarrow> Some (w\<lparr>w_close := CCtrlDrained\<rparr>))
      | CCtrlDrained \<Rightarrow> if w_pend w PData = [] then Some (w\<lparr>w_close := CDataWaited\<rparr>) else None
      | CDataWaited \<Rightarrow>
          (case drain_one PData w of Some w' \<Rightarrow> Some w' | None \<Rightarrow> Some (w\<lparr>w_close := CDrained\<rparr>))
      | CDrained \<Rightarrow> None)"

section \<open>The system\<close>

datatype write_label =
    LBegin plane bool bytes
  | LSend plane nat
  | LGiveUp plane nat
  | LPeek
  | LSelect "plane option"
  | LWriteOne "mux_error option"
  | LClose

fun write_do :: "write_label \<Rightarrow> write_plane \<Rightarrow> write_plane option" where
  "write_do (LBegin p nb data) w = (if nb \<and> p = PData then None else Some (write_begin p nb data w))"
| "write_do (LSend p r) w = write_send p r w"
| "write_do (LGiveUp p r) w = write_give_up p r w"
| "write_do LPeek w = writer_peek w"
| "write_do (LSelect arm) w = writer_select arm w"
| "write_do (LWriteOne err) w = writeOne err w"
| "write_do LClose w = close_step w"

fun write_run :: "write_label list \<Rightarrow> write_plane \<Rightarrow> write_plane option" where
  "write_run [] w = Some w"
| "write_run (l # ls) w = (case write_do l w of None \<Rightarrow> None | Some w1 \<Rightarrow> write_run ls w1)"

section \<open>Every request is in one place\<close>

definition writing :: "write_plane \<Rightarrow> (plane \<times> nat) list" where
  "writing w = (case w_pc w of WWriting p r \<Rightarrow> [(p, r)] | _ \<Rightarrow> [])"

definition parts :: "write_plane \<Rightarrow> nat multiset" where
  "parts w = mset (w_pend w PData) + mset (w_pend w PCtrl) + mset (w_chan w PData) + mset (w_chan w PCtrl)
     + mset (map snd (writing w)) + mset (map fst (w_log w))"

lemmas write_defs = write_begin_def unpend_def write_send_def write_give_up_def writer_take_def
  writer_peek_def writer_select_def writeOne_def drain_one_def close_step_def resolve_def Let_def

lemma mset_unpend: "r \<in> set xs \<Longrightarrow> mset xs = add_mset r (mset (remove1 r xs))"
  by simp

lemma parts_step:
  assumes "write_do l w = Some w'"
  shows "parts w' = parts w + mset [length (w_reqs w) ..< length (w_reqs w')] \<and>
    length (w_reqs w) \<le> length (w_reqs w')"
proof (cases l)
  case (LBegin p nb data)
  then show ?thesis
    using assms by (cases p) (auto simp: write_defs parts_def writing_def split: if_splits)
next
  case (LSend p r)
  then show ?thesis
    using assms mset_unpend [of r "w_pend w p"]
    by (cases p) (auto simp: write_defs parts_def writing_def split: if_splits)
next
  case (LGiveUp p r)
  then show ?thesis
    using assms mset_unpend [of r "w_pend w p"]
    by (cases p) (auto simp: write_defs parts_def writing_def split: if_splits)
next
  case LPeek
  then show ?thesis
    using assms by (auto simp: write_defs parts_def writing_def split: if_splits list.splits option.splits)
next
  case (LSelect arm)
  then show ?thesis
  proof (cases arm)
    case None
    then show ?thesis using assms LSelect by (auto simp: write_defs parts_def writing_def split: if_splits)
  next
    case (Some p)
    then show ?thesis
      using assms LSelect
      by (cases p) (auto simp: write_defs parts_def writing_def split: if_splits list.splits)
  qed
next
  case (LWriteOne err)
  then show ?thesis
    using assms by (auto simp: write_defs parts_def writing_def split: writer_pc.splits)
next
  case LClose
  then show ?thesis
    using assms
    by (auto simp: write_defs parts_def writing_def split: closer_pc.splits if_splits list.splits option.splits)
qed

interpretation write_sys: run_system write_do write_run
  by unfold_locales simp_all

lemma parts_run:
  "write_run ls w = Some w' \<Longrightarrow> parts w = mset [0 ..< length (w_reqs w)] \<Longrightarrow>
    parts w' = mset [0 ..< length (w_reqs w')]"
proof -
  have "parts w1 = mset [0 ..< length (w_reqs w1)]"
    if "parts w0 = mset [0 ..< length (w_reqs w0)]" "write_do l w0 = Some w1" for l w0 w1
    using parts_step [OF that(2)] that(1)
    by (metis le_add_diff_inverse mset_append plus_nat.add_0 upt_add_eq_append zero_le)
  then show "write_run ls w = Some w' \<Longrightarrow> parts w = mset [0 ..< length (w_reqs w)] \<Longrightarrow> ?thesis"
    using write_sys.exec_inv [where I = "\<lambda>v. parts v = mset [0 ..< length (w_reqs v)]"] by blast
qed

section \<open>Close leaves nothing behind\<close>

definition close_inv :: "write_plane \<Rightarrow> bool" where
  "close_inv w \<longleftrightarrow>
     (w_close w \<in> {CCtrlWaited, CCtrlDrained, CDataWaited, CDrained} \<longrightarrow> w_pend w PCtrl = []) \<and>
     (w_close w \<in> {CCtrlDrained, CDataWaited, CDrained} \<longrightarrow> w_chan w PCtrl = []) \<and>
     (w_close w \<in> {CDataWaited, CDrained} \<longrightarrow> w_pend w PData = []) \<and>
     (w_close w = CDrained \<longrightarrow> w_chan w PData = []) \<and>
     (w_pc w = WReturned \<longrightarrow> w_shut w)"

lemma plane_cases: "p = PData \<or> p = PCtrl"
  by (cases p) simp_all

lemma close_inv_begin:
  assumes "close_inv w"
  shows "close_inv (write_begin p nb data w)"
proof (cases "w_close w = CBefore")
  case True
  then show ?thesis using assms by (simp add: write_begin_def Let_def close_inv_def w_shut_def)
next
  case False
  then show ?thesis using assms by (simp add: write_begin_def resolve_def Let_def close_inv_def w_shut_def)
qed

text \<open>The other goroutines only take requests out of the pending lists and the channels, or put
  a pending one into its channel.\<close>

lemma close_inv_keep:
  assumes "close_inv w" and "w_close w' = w_close w"
    and "\<And>p. w_pend w p = [] \<Longrightarrow> w_pend w' p = []"
    and "\<And>p. w_pend w p = [] \<Longrightarrow> w_chan w p = [] \<Longrightarrow> w_chan w' p = []"
    and "w_pc w' = WReturned \<Longrightarrow> w_pc w = WReturned \<or> w_shut w"
  shows "close_inv w'"
  using assms unfolding close_inv_def w_shut_def by (cases "w_close w") (simp_all, blast+)

lemma close_inv_step:
  assumes "close_inv w" and "write_do l w = Some w'"
  shows "close_inv w'"
proof (cases l)
  case (LBegin p nb data)
  then show ?thesis
    using assms close_inv_begin by (auto split: if_splits)
next
  case (LSend p r)
  then show ?thesis
    using assms(2) by (intro close_inv_keep [OF assms(1)])
      (auto simp: write_send_def unpend_def split: if_splits)
next
  case (LGiveUp p r)
  then show ?thesis
    using assms(2) by (intro close_inv_keep [OF assms(1)])
      (auto simp: write_give_up_def unpend_def resolve_def split: if_splits)
next
  case LPeek
  then show ?thesis
    using assms(2) by (intro close_inv_keep [OF assms(1)])
      (auto simp: writer_peek_def writer_take_def split: if_splits list.splits option.splits)
next
  case (LSelect arm)
  then show ?thesis
    using assms(2) by (intro close_inv_keep [OF assms(1)])
      (auto simp: writer_select_def writer_take_def split: if_splits list.splits option.splits)
next
  case (LWriteOne err)
  then show ?thesis
    using assms(2) by (intro close_inv_keep [OF assms(1)])
      (auto simp: writeOne_def resolve_def Let_def split: writer_pc.splits)
next
  case LClose
  then show ?thesis
    using assms by (cases "w_close w")
      (auto simp: close_step_def drain_one_def resolve_def close_inv_def w_shut_def
        split: if_splits list.splits option.splits)
qed

lemma close_inv_run: "write_run ls w = Some w' \<Longrightarrow> close_inv w \<Longrightarrow> close_inv w'"
  by (erule write_sys.exec_inv) (auto dest: close_inv_step)

lemma close_inv_new: "close_inv new_plane"
  by (simp add: close_inv_def new_plane_def)

section \<open>Order on the wire\<close>

definition taken :: "plane \<Rightarrow> write_plane \<Rightarrow> nat list" where
  "taken p w = map snd (filter (\<lambda>x. fst x = p) (w_wire w @ writing w))"

definition draining :: "write_plane \<Rightarrow> bool" where
  "draining w \<longleftrightarrow> w_close w \<notin> {CBefore, CLatched, CShut}"

definition pipe :: "plane \<Rightarrow> write_plane \<Rightarrow> nat list" where
  "pipe p w = taken p w @ w_chan w p"

definition order_inv :: "write_plane \<Rightarrow> bool" where
  "order_inv w \<longleftrightarrow> (\<forall>p. subseq (pipe p w) (w_enq w p) \<and> (\<not> draining w \<longrightarrow> pipe p w = w_enq w p))"

lemma order_same:
  assumes "order_inv w" and "\<And>q. pipe q w' = pipe q w" and "w_enq w' = w_enq w"
    and "draining w \<longrightarrow> draining w'"
  shows "order_inv w'"
  using assms by (auto simp: order_inv_def)

lemma order_send:
  assumes "order_inv w" and "write_send p r w = Some w'"
  shows "order_inv w'"
proof -
  have "pipe q w' = (if q = p then pipe q w @ [r] else pipe q w)"
    "w_enq w' q = (if q = p then w_enq w q @ [r] else w_enq w q)" for q
    using assms(2) by (auto simp: write_send_def unpend_def pipe_def taken_def writing_def split: if_splits)
  moreover have "draining w' = draining w"
    using assms(2) by (auto simp: write_send_def unpend_def draining_def split: if_splits)
  ultimately show ?thesis using assms(1) by (auto simp: order_inv_def)
qed

lemma take_keeps:
  assumes "writer_take p w = Some w'" and "writing w = []"
  shows "pipe q w' = pipe q w \<and> w_enq w' = w_enq w \<and> draining w' = draining w"
  using assms by (auto simp: writer_take_def pipe_def taken_def writing_def draining_def split: list.splits)

lemma writeOne_keeps:
  assumes "writeOne err w = Some w'"
  shows "pipe q w' = pipe q w \<and> w_enq w' = w_enq w \<and> draining w' = draining w"
  using assms
  by (auto simp: writeOne_def pipe_def taken_def writing_def draining_def resolve_def Let_def split: writer_pc.splits)

lemma order_drain:
  assumes "order_inv w" and "drain_one p w = Some w'" and "draining w"
  shows "order_inv w'"
proof -
  obtain r rs where c: "w_chan w p = r # rs"
      "w' = resolve r (Resolved (Some ErrCarrierClosed)) (w\<lparr>w_chan := (w_chan w)(p := rs)\<rparr>)"
    using assms(2) by (auto simp: drain_one_def split: list.splits)
  have "subseq (pipe q w') (pipe q w)" for q
    using c by (auto simp: pipe_def taken_def writing_def resolve_def intro: list_emb_append_mono)
  moreover have "w_enq w' = w_enq w" "draining w' = draining w" using c by (simp_all add: resolve_def draining_def)
  ultimately show ?thesis
    using assms(1,3) by (auto simp: order_inv_def intro: subseq_order.trans)
qed

lemma order_close:
  assumes "order_inv w" and "close_step w = Some w'"
  shows "order_inv w'"
proof (cases "w_close w = CCtrlWaited \<or> w_close w = CDataWaited")
  case True
  then have d: "draining w" by (auto simp: draining_def)
  have keep: "order_inv (w\<lparr>w_close := c\<rparr>)" if "draining (w\<lparr>w_close := c\<rparr>)" for c
    using that by (intro order_same [OF assms(1)]) (simp_all add: pipe_def taken_def writing_def)
  show ?thesis
    using True assms order_drain [OF assms(1) _ d] keep
    by (auto simp: close_step_def draining_def split: option.splits)
next
  case False
  then obtain c where c: "w' = w\<lparr>w_close := c\<rparr>" "draining w \<longrightarrow> draining w'"
    using assms(2) by (cases "w_close w") (auto simp: close_step_def draining_def split: if_splits)
  show ?thesis
    using c by (intro order_same [OF assms(1)]) (simp_all add: pipe_def taken_def writing_def)
qed

lemma order_step:
  assumes "order_inv w" and "write_do l w = Some w'"
  shows "order_inv w'"
proof (cases l)
  case (LBegin p nb data)
  then show ?thesis
    using assms(2) by (intro order_same [OF assms(1)])
      (auto simp: write_begin_def resolve_def pipe_def taken_def writing_def draining_def Let_def split: if_splits)
next
  case (LSend p r)
  then show ?thesis using assms order_send by simp
next
  case (LGiveUp p r)
  then show ?thesis
    using assms(2) by (intro order_same [OF assms(1)])
      (auto simp: write_give_up_def unpend_def resolve_def pipe_def taken_def writing_def draining_def split: if_splits)
next
  case LPeek
  then have pk: "w_pc w = WPeek" using assms(2) by (auto simp: writer_peek_def split: if_splits)
  then have "writing w = []" by (simp add: writing_def)
  then show ?thesis
    using assms LPeek pk take_keeps [of PCtrl w w'] order_same [OF assms(1), of w']
    by (auto simp: writer_peek_def pipe_def taken_def writing_def draining_def split: option.splits)
next
  case (LSelect arm)
  then have pk: "w_pc w = WSelect" using assms(2) by (auto simp: writer_select_def split: if_splits)
  then have wr: "writing w = []" by (simp add: writing_def)
  show ?thesis
  proof (cases arm)
    case None
    then show ?thesis
      using assms(2) LSelect pk by (intro order_same [OF assms(1)])
        (auto simp: writer_select_def pipe_def taken_def writing_def draining_def split: if_splits)
  next
    case (Some p)
    then have "writer_take p w = Some w'" using assms(2) LSelect pk by (simp add: writer_select_def)
    then show ?thesis using take_keeps [OF _ wr] by (intro order_same [OF assms(1)]) auto
  qed
next
  case (LWriteOne err)
  then show ?thesis using assms(2) writeOne_keeps by (intro order_same [OF assms(1)]) auto
next
  case LClose
  then show ?thesis using assms order_close by simp
qed

lemma order_run: "write_run ls w = Some w' \<Longrightarrow> order_inv w \<Longrightarrow> order_inv w'"
  by (erule write_sys.exec_inv) (auto dest: order_step)

lemma order_new: "order_inv new_plane"
  by (simp add: order_inv_def new_plane_def pipe_def taken_def writing_def)

section \<open>Close terminates\<close>

fun is_begin :: "write_label \<Rightarrow> bool" where
  "is_begin (LBegin p nb data) = True"
| "is_begin _ = False"

primrec pc_weight :: "writer_pc \<Rightarrow> nat" where
  "pc_weight WPeek = 2" | "pc_weight WSelect = 1" | "pc_weight (WWriting p r) = 3" | "pc_weight WReturned = 0"

primrec close_weight :: "closer_pc \<Rightarrow> nat" where
  "close_weight CBefore = 6" | "close_weight CLatched = 5" | "close_weight CShut = 4"
| "close_weight CCtrlWaited = 3" | "close_weight CCtrlDrained = 2" | "close_weight CDataWaited = 1"
| "close_weight CDrained = 0"

text \<open>An upper bound on the steps that are left once \<open>Close\<close> has latched.\<close>

definition work_left :: "write_plane \<Rightarrow> nat" where
  "work_left w = 5 * (length (w_pend w PData) + length (w_pend w PCtrl))
     + 4 * (length (w_chan w PData) + length (w_chan w PCtrl)) + pc_weight (w_pc w) + close_weight (w_close w)"

lemma length_unpend: "r \<in> set xs \<Longrightarrow> length xs = Suc (length (remove1 r xs))"
  by (induction xs) auto

lemma take_decreases:
  assumes "writer_take p w = Some w'" and "w_pc w = WPeek \<or> w_pc w = WSelect"
  shows "work_left w' < work_left w \<and> w_close w' = w_close w"
  using assms by (cases p) (auto simp: writer_take_def work_left_def split: list.splits)

lemma drain_decreases:
  assumes "drain_one p w = Some w'"
  shows "work_left w' < work_left w \<and> w_close w' = w_close w"
  using assms by (cases p) (auto simp: drain_one_def resolve_def work_left_def split: list.splits)

lemma step_decreases:
  assumes "write_do l w = Some w'" and "\<not> is_begin l" and "w_close w \<noteq> CBefore"
  shows "work_left w' < work_left w \<and> w_close w' \<noteq> CBefore"
proof (cases l)
  case (LSend p r)
  then show ?thesis
    using assms(1,3) length_unpend [of r "w_pend w p"]
    by (cases p) (auto simp: write_send_def unpend_def work_left_def split: if_splits)
next
  case (LGiveUp p r)
  then show ?thesis
    using assms(1,3) length_unpend [of r "w_pend w p"]
    by (cases p) (auto simp: write_give_up_def unpend_def resolve_def work_left_def split: if_splits)
next
  case LPeek
  then show ?thesis
    using assms(1,3) take_decreases [of PCtrl w w']
    by (cases "writer_take PCtrl w") (auto simp: writer_peek_def split: if_splits, auto simp: work_left_def)
next
  case (LSelect arm)
  then show ?thesis
    using assms(1,3) take_decreases [of "the arm" w w']
    by (cases arm) (auto simp: writer_select_def, auto simp: work_left_def split: if_splits)
next
  case (LWriteOne err)
  then show ?thesis
    using assms(1,3) by (auto simp: writeOne_def resolve_def work_left_def Let_def split: writer_pc.splits)
next
  case LClose
  then show ?thesis
    using assms(1,3) drain_decreases [of PCtrl w w'] drain_decreases [of PData w w']
    by (cases "w_close w") (auto simp: close_step_def split: if_splits option.splits, auto simp: work_left_def)
qed (use assms in simp)

lemma run_bounded:
  "write_run ks w = Some w' \<Longrightarrow> \<not> list_ex is_begin ks \<Longrightarrow> w_close w \<noteq> CBefore \<Longrightarrow>
    length ks + work_left w' \<le> work_left w \<and> w_close w' \<noteq> CBefore"
proof (induction ks arbitrary: w)
  case Nil
  then show ?case by simp
next
  case (Cons l ks)
  then obtain w1 where w1: "write_do l w = Some w1" "write_run ks w1 = Some w'"
    by (auto split: option.splits)
  show ?case
    using step_decreases [OF w1(1)] Cons.IH [OF w1(2)] Cons.prems(2,3) by auto
qed

lemma pending_can_move:
  assumes "w_pend w p \<noteq> []" and "w_shut w"
  shows "\<exists>l w'. \<not> is_begin l \<and> write_do l w = Some w'"
proof -
  obtain r where r: "r \<in> set (w_pend w p)" using assms(1) by (meson hd_in_set)
  show ?thesis
  proof (cases "length (w_chan w p) < chan_cap p")
    case True
    then show ?thesis using r by (intro exI [of _ "LSend p r"]) (simp add: write_send_def)
  next
    case False
    then show ?thesis using r assms(2) by (intro exI [of _ "LGiveUp p r"]) (simp add: write_give_up_def)
  qed
qed

lemma closing_not_stuck:
  assumes "w_close w \<noteq> CBefore" and "\<not> (w_close w = CDrained \<and> w_pc w = WReturned)"
  shows "\<exists>l w'. \<not> is_begin l \<and> write_do l w = Some w'"
proof (cases "\<exists>w'. close_step w = Some w'")
  case True
  then show ?thesis by (metis is_begin.simps(7) write_do.simps(7))
next
  case False
  then consider "w_close w = CShut" "w_pend w PCtrl \<noteq> []" | "w_close w = CCtrlDrained" "w_pend w PData \<noteq> []"
    | "w_close w = CDrained"
    using assms(1) by (cases "w_close w") (auto simp: close_step_def split: if_splits option.splits)
  then show ?thesis
  proof cases
    case 3
    then have "w_shut w" by (simp add: w_shut_def)
    then have "\<exists>l \<in> {LPeek, LSelect None, LWriteOne None}. \<exists>w'. write_do l w = Some w'"
      using 3 assms(2) by (cases "w_pc w") (auto simp: writer_peek_def writer_select_def writeOne_def Let_def
          split: option.splits)
    then obtain l where "l \<in> {LPeek, LSelect None, LWriteOne None}" "\<exists>w'. write_do l w = Some w'" by blast
    then show ?thesis by (intro exI [of _ l]) auto
  next
    case 1
    then show ?thesis by (intro pending_can_move [of w PCtrl]) (simp_all add: w_shut_def)
  next
    case 2
    then show ?thesis by (intro pending_can_move [of w PData]) (simp_all add: w_shut_def)
  qed
qed

lemma parts_new: "write_run ls new_plane = Some w \<Longrightarrow> parts w = mset [0 ..< length (w_reqs w)]"
  using parts_run [of ls new_plane w] by (simp add: parts_def new_plane_def writing_def)

lemma all_resolved:
  assumes "write_run ls new_plane = Some w" and "w_close w = CDrained" and "w_pc w = WReturned"
  shows "set (map fst (w_log w)) = {..<length (w_reqs w)}"
proof -
  have "mset (map fst (w_log w)) = mset [0 ..< length (w_reqs w)]"
    using parts_new [OF assms(1)] close_inv_run [OF assms(1) close_inv_new] assms(2,3)
    by (simp add: parts_def close_inv_def writing_def)
  then show ?thesis by (metis atLeast0LessThan mset_eq_setD set_upt)
qed

section \<open>Properties\<close>



text \<open>C19. No caller waits on a dead writer: once \<open>Close\<close> has latched, every further run of the callers,
  the writer and \<open>Close\<close> is finite (at most \<open>work_left\<close> steps), and it can only stop when
  both queues are drained, the writer has returned and every request has its outcome.\<close>

theorem write_close_terminates:
  assumes "write_run ls new_plane = Some w" and "w_close w \<noteq> CBefore"
    and "write_run ks w = Some w'" and "\<not> list_ex is_begin ks"
  shows "length ks \<le> work_left w \<and>
    ((\<exists>l w''. \<not> is_begin l \<and> write_do l w' = Some w'') \<or>
     (w_close w' = CDrained \<and> w_pc w' = WReturned \<and> set (map fst (w_log w')) = {..<length (w_reqs w')}))"
proof -
  have b: "length ks + work_left w' \<le> work_left w" "w_close w' \<noteq> CBefore"
    using run_bounded [OF assms(3,4,2)] by blast+
  have run: "write_run (ls @ ks) new_plane = Some w'" using assms(1,3) by (simp add: write_sys.exec_append)
  have "set (map fst (w_log w')) = {..<length (w_reqs w')}" if "w_close w' = CDrained" "w_pc w' = WReturned"
    using all_resolved [OF run] that by simp
  then show ?thesis using b closing_not_stuck [OF b(2)] by fastforce
qed

theorem write_close_terminates_witness:
  "\<exists>w w'. write_run [LBegin PData False [1], LClose] new_plane = Some w \<and>
     write_run [LClose, LGiveUp PData 0] w = Some w' \<and> (\<exists>l w''. \<not> is_begin l \<and> write_do l w' = Some w'')"
proof -
  obtain w w' where r: "write_run [LBegin PData False [1], LClose] new_plane = Some w" "w_close w \<noteq> CBefore"
      "write_run [LClose, LGiveUp PData 0] w = Some w'" "w_close w' = CShut"
    by (simp add: write_defs new_plane_def w_shut_def)
  then show ?thesis using write_close_terminates [OF r(1,2,3)] by auto
qed

end
