(* ===== verification/Attachment.thy ===== *)
theory Attachment
  imports Frame
begin

text \<open>
  The carrier binding of one session direction, \<^verbatim>\<open>src/pkg/session/attachment.go\<close>: the
  state machine of \<^verbatim>\<open>Attachment\<close> with its grace timer, and the FrameRebind payload codec
  in both versions.

  Every method holds \<open>a.mu\<close> for its whole body, so one call is one step. The grace timer is
  Go's \<^verbatim>\<open>time.AfterFunc\<close>: \<open>armed\<close> is the set of timers that have neither expired nor been
  stopped, \<open>timer\<close> the pointer the struct keeps, and \<open>inflight\<close> counts callbacks that
  have started on their own goroutine and wait for the lock. Stopping a timer does not
  recall a callback that has already started. Calls of \<open>onTimeout\<close> are counted in
  \<open>timeouts\<close>, and the state they found in \<open>timeout_states\<close>. Channels are numbered.
\<close>

datatype AttachmentState = AttUnavailable | AttRebinding | AttAttached | AttClosed

record Attachment =
  att_state :: AttachmentState
  att_gen :: u64
  timer :: "nat option"
  armed :: "nat list"
  inflight :: nat
  timerSeq :: nat
  ready :: nat
  readyClosed :: bool
  readySeq :: nat
  lastRebindGen :: u64
  epochDone :: "nat option"
  timeout_states :: "AttachmentState list"

definition NewAttachment :: Attachment where
  "NewAttachment = \<lparr>att_state = AttUnavailable, att_gen = 0, timer = None, armed = [], inflight = 0,
     timerSeq = 0, ready = 0, readyClosed = False, readySeq = 1, lastRebindGen = 0,
     epochDone = None, timeout_states = []\<rparr>"

definition stopTimer :: "Attachment \<Rightarrow> Attachment" where
  "stopTimer a =
     (case timer a of
        None \<Rightarrow> a
      | Some t \<Rightarrow> a\<lparr>timer := None, armed := filter (\<lambda>x. x \<noteq> t) (armed a)\<rparr>)"

definition Attach :: "u64 \<Rightarrow> Attachment \<Rightarrow> bool \<times> Attachment" where
  "Attach gen a =
     (if att_state a \<noteq> AttUnavailable \<and> att_state a \<noteq> AttRebinding then (False, a)
      else (let a1 = stopTimer (a\<lparr>att_state := AttAttached, att_gen := gen\<rparr>)
            in (True, if \<not> readyClosed a1 then a1\<lparr>readyClosed := True\<rparr> else a1)))"

definition fresh_ready :: "Attachment \<Rightarrow> Attachment" where
  "fresh_ready a = a\<lparr>ready := readySeq a, readySeq := readySeq a + 1, readyClosed := False\<rparr>"

definition startTimerLocked :: "Attachment \<Rightarrow> Attachment" where
  "startTimerLocked a =
     (if timer a \<noteq> None then a
      else a\<lparr>timer := Some (timerSeq a), armed := timerSeq a # armed a, timerSeq := timerSeq a + 1\<rparr>)"

definition Detach :: "u64 \<Rightarrow> Attachment \<Rightarrow> bool \<times> Attachment" where
  "Detach gen a =
     (if att_state a \<noteq> AttAttached \<or> att_gen a \<noteq> gen then (False, a)
      else (True, startTimerLocked (fresh_ready (a\<lparr>att_state := AttUnavailable, att_gen := 0\<rparr>))))"

definition BeginRebind :: "Attachment \<Rightarrow> bool \<times> Attachment" where
  "BeginRebind a =
     (if att_state a \<noteq> AttUnavailable then (False, a) else (True, a\<lparr>att_state := AttRebinding\<rparr>))"

definition FailRebind :: "Attachment \<Rightarrow> bool \<times> Attachment" where
  "FailRebind a =
     (if att_state a \<noteq> AttRebinding then (False, a) else (True, a\<lparr>att_state := AttUnavailable\<rparr>))"

definition att_Close :: "Attachment \<Rightarrow> Attachment" where
  "att_Close a =
     (if att_state a = AttClosed then a
      else fresh_ready (stopTimer (a\<lparr>att_state := AttClosed, att_gen := 0\<rparr>)))"

definition SetLastRebindGen :: "u64 \<Rightarrow> Attachment \<Rightarrow> Attachment" where
  "SetLastRebindGen gen a = a\<lparr>lastRebindGen := gen\<rparr>"

definition SetEpochDone :: "nat option \<Rightarrow> Attachment \<Rightarrow> Attachment" where
  "SetEpochDone d a = a\<lparr>epochDone := d\<rparr>"

text \<open>The runtime starts the callback of a timer that has run out; the callback itself.\<close>

definition timer_expires :: "nat \<Rightarrow> Attachment \<Rightarrow> Attachment option" where
  "timer_expires t a =
     (if t \<in> set (armed a)
      then Some (a\<lparr>armed := filter (\<lambda>x. x \<noteq> t) (armed a), inflight := inflight a + 1\<rparr>)
      else None)"

definition timer_callback :: "Attachment \<Rightarrow> Attachment option" where
  "timer_callback a =
     (if inflight a = 0 then None
      else if att_state a = AttClosed then Some (a\<lparr>inflight := inflight a - 1\<rparr>)
      else Some (a\<lparr>inflight := inflight a - 1, timer := None,
                   timeout_states := timeout_states a @ [att_state a]\<rparr>))"

datatype att_op =
    OpAttach u64 | OpDetach u64 | OpBeginRebind | OpFailRebind | OpClose
  | OpSetLastRebindGen u64 | OpSetEpochDone "nat option" | OpExpire nat | OpCallback

fun att_do :: "att_op \<Rightarrow> Attachment \<Rightarrow> Attachment option" where
  "att_do (OpAttach g) a = Some (snd (Attach g a))"
| "att_do (OpDetach g) a = Some (snd (Detach g a))"
| "att_do OpBeginRebind a = Some (snd (BeginRebind a))"
| "att_do OpFailRebind a = Some (snd (FailRebind a))"
| "att_do OpClose a = Some (att_Close a)"
| "att_do (OpSetLastRebindGen g) a = Some (SetLastRebindGen g a)"
| "att_do (OpSetEpochDone d) a = Some (SetEpochDone d a)"
| "att_do (OpExpire t) a = timer_expires t a"
| "att_do OpCallback a = timer_callback a"

fun att_run :: "att_op list \<Rightarrow> Attachment \<Rightarrow> Attachment option" where
  "att_run [] a = Some a"
| "att_run (p # ps) a = (case att_do p a of None \<Rightarrow> None | Some a1 \<Rightarrow> att_run ps a1)"

section \<open>Rebind payloads\<close>

abbreviation SessionIDLen :: nat where "SessionIDLen \<equiv> 16"
abbreviation RebindVersion :: byte where "RebindVersion \<equiv> 1"
abbreviation RebindVersionV2 :: byte where "RebindVersionV2 \<equiv> 2"
abbreviation RebindPayloadSize :: nat where "RebindPayloadSize \<equiv> 25"
abbreviation RebindMaxCarrierIDLen :: nat where "RebindMaxCarrierIDLen \<equiv> 32"

definition EncodeRebind :: "bytes \<Rightarrow> u64 \<Rightarrow> bytes" where
  "EncodeRebind sid gen = [RebindVersion] @ copy_into SessionIDLen sid @ PutUint64 gen"

definition EncodeRebindV2 :: "bytes \<Rightarrow> string \<Rightarrow> u64 \<Rightarrow> bytes" where
  "EncodeRebindV2 sid carrierID0 gen =
     (let carrierID = (if length carrierID0 > RebindMaxCarrierIDLen
                       then take RebindMaxCarrierIDLen carrierID0 else carrierID0);
          n = length carrierID
      in [RebindVersionV2] @ copy_into SessionIDLen sid @ [word_of_nat n]
           @ bytes_of_string carrierID @ PutUint64 gen)"

record Rebind =
  rbVersion :: byte
  rbSessionID :: bytes
  rbCarrierID :: string
  rbGen :: u64

definition ParseRebind :: "bytes \<Rightarrow> (bytes \<times> u64) option" where
  "ParseRebind payload =
     (if length payload \<noteq> RebindPayloadSize \<or> payload ! 0 \<noteq> RebindVersion then None
      else Some (go_slice payload 1 17, Uint64 (go_slice payload 17 (length payload))))"

definition ParseRebindAny :: "bytes \<Rightarrow> Rebind option" where
  "ParseRebindAny payload =
     (if length payload = 0 then None
      else if payload ! 0 = RebindVersion
      then (if length payload \<noteq> RebindPayloadSize then None
            else Some \<lparr>rbVersion = RebindVersion, rbSessionID = go_slice payload 1 17,
                       rbCarrierID = '''', rbGen = Uint64 (go_slice payload 17 (length payload))\<rparr>)
      else if payload ! 0 = RebindVersionV2
      then (if length payload < 18 then None
            else (let idLen = unat (payload ! 17) in
                  if idLen > RebindMaxCarrierIDLen then None
                  else if length payload \<noteq> 18 + idLen + 8 then None
                  else Some \<lparr>rbVersion = RebindVersionV2, rbSessionID = go_slice payload 1 17,
                             rbCarrierID = string_of_bytes (go_slice payload 18 (18 + idLen)),
                             rbGen = Uint64 (go_slice payload (18 + idLen) (length payload))\<rparr>))
      else None)"

section \<open>Invariant of an attachment\<close>

definition att_inv :: "Attachment \<Rightarrow> bool" where
  "att_inv a \<longleftrightarrow>
     (readyClosed a \<longleftrightarrow> att_state a = AttAttached) \<and>
     (att_state a \<noteq> AttAttached \<longrightarrow> att_gen a = 0) \<and>
     (att_state a = AttAttached \<or> att_state a = AttClosed \<longrightarrow> timer a = None) \<and>
     (\<forall>t. timer a = Some t \<longrightarrow> t \<in> set (armed a) \<or> 0 < inflight a) \<and>
     ready a < readySeq a"

lemmas att_defs = Attach_def Detach_def BeginRebind_def FailRebind_def att_Close_def stopTimer_def
  fresh_ready_def startTimerLocked_def SetLastRebindGen_def SetEpochDone_def timer_expires_def
  timer_callback_def Let_def

interpretation att_sys: run_system att_do att_run
  by unfold_locales simp_all

lemma NewAttachment_inv: "att_inv NewAttachment"
  by (simp add: NewAttachment_def att_inv_def)

lemma att_inv_step: "att_inv a \<Longrightarrow> att_do p a = Some a' \<Longrightarrow> att_inv a'"
  by (cases p) (auto simp: att_defs att_inv_def split: if_splits option.splits)

lemma att_inv_run: "att_inv a \<Longrightarrow> att_run ps a = Some a' \<Longrightarrow> att_inv a'"
  by (erule att_sys.exec_inv) (auto dest: att_inv_step)

lemma att_closed_step:
  "att_state a = AttClosed \<Longrightarrow> att_do p a = Some a' \<Longrightarrow>
     att_state a' = AttClosed \<and> timeout_states a' = timeout_states a \<and> att_gen a' = att_gen a"
  by (cases p) (auto simp: att_defs split: if_splits option.splits)

text \<open>While a lost direction waits, its grace timer is pending or has already fired.\<close>

definition waiting :: "nat \<Rightarrow> Attachment \<Rightarrow> bool" where
  "waiting n a \<longleftrightarrow> (att_state a = AttUnavailable \<or> att_state a = AttRebinding) \<and>
     (timer a \<noteq> None \<or> n < length (timeout_states a)) \<and> n \<le> length (timeout_states a)"

definition recovers :: "att_op \<Rightarrow> bool" where
  "recovers p \<longleftrightarrow> p = OpClose \<or> (\<exists>g. p = OpAttach g)"

lemma waiting_step:
  "waiting n a \<Longrightarrow> att_do p a = Some a' \<Longrightarrow> \<not> recovers p \<Longrightarrow> waiting n a'"
  by (cases p) (auto simp: att_defs waiting_def recovers_def split: if_splits option.splits)

lemma waiting_run:
  "waiting n a \<Longrightarrow> att_run ps a = Some a' \<Longrightarrow> \<not> list_ex recovers ps \<Longrightarrow> waiting n a'"
  by (erule att_sys.exec_inv) (auto dest: waiting_step simp: list_ex_iff)

section \<open>Rebind codec lemmas\<close>

definition of_option :: "'a option \<Rightarrow> unit + 'a" where
  "of_option x = (case x of None \<Rightarrow> Inl () | Some y \<Rightarrow> Inr y)"

lemma of_option_Inr [simp]: "of_option x = Inr y \<longleftrightarrow> x = Some y"
  by (simp add: of_option_def split: option.splits)

definition enc_rebind :: "Rebind \<Rightarrow> bytes" where
  "enc_rebind r = (if rbVersion r = RebindVersion then EncodeRebind (rbSessionID r) (rbGen r)
     else EncodeRebindV2 (rbSessionID r) (rbCarrierID r) (rbGen r))"

definition rebind_wf :: "Rebind \<Rightarrow> bool" where
  "rebind_wf r \<longleftrightarrow> length (rbSessionID r) = SessionIDLen \<and>
     (rbVersion r = RebindVersion \<and> rbCarrierID r = '''' \<or>
      rbVersion r = RebindVersionV2 \<and> length (rbCarrierID r) \<le> RebindMaxCarrierIDLen)"

lemma ParseRebind_EncodeRebind:
  "length sid = SessionIDLen \<Longrightarrow> ParseRebind (EncodeRebind sid gen) = Some (sid, gen)"
  by (simp add: ParseRebind_def EncodeRebind_def codec_simps)

lemma split_at: "i \<le> j \<Longrightarrow> j \<le> length xs \<Longrightarrow> drop i xs = go_slice xs i j @ drop j xs"
  by (simp add: go_slice_step)

lemma EncodeRebind_of_parts:
  assumes "length b = 25" and "b ! 0 = RebindVersion"
  shows "EncodeRebind (go_slice b 1 17) (Uint64 (go_slice b 17 25)) = b"
proof -
  have "b = b ! 0 # drop 1 b" using assms(1) by (cases b) auto
  moreover have "drop 1 b = go_slice b 1 17 @ go_slice b 17 25"
    using split_at [of 1 17 b] split_at [of 17 25 b] assms(1) by simp
  ultimately show ?thesis
    using assms by (simp add: EncodeRebind_def PutUint_Uint)
qed

lemma EncodeRebindV2_of_parts:
  assumes n: "n \<le> 32" and len: "length b = 18 + n + 8" and b0: "b ! 0 = RebindVersionV2"
    and b17: "b ! 17 = word_of_nat n"
  shows "EncodeRebindV2 (go_slice b 1 17) (string_of_bytes (go_slice b 18 (18 + n)))
           (Uint64 (go_slice b (18 + n) (18 + n + 8))) = b"
proof -
  have "b = b ! 0 # drop 1 b" using len by (cases b) auto
  moreover have "drop 1 b = go_slice b 1 17 @ drop 17 b" using split_at [of 1 17 b] len by simp
  moreover have "drop 17 b = b ! 17 # drop 18 b"
    using len Cons_nth_drop_Suc [of 17 b] by simp
  moreover have "drop 18 b = go_slice b 18 (18 + n) @ go_slice b (18 + n) (18 + n + 8)"
    using split_at [of 18 "18 + n" b] len by (simp add: go_slice_to_end)
  moreover have "length (go_slice b 18 (18 + n)) = n" "length (go_slice b (18 + n) (18 + n + 8)) = 8"
    using len by simp_all
  ultimately show ?thesis
    using n b0 b17 len by (simp add: EncodeRebindV2_def Let_def PutUint_Uint)
qed

interpretation rebind_codec: exact_codec enc_rebind "\<lambda>b. of_option (ParseRebindAny b)" rebind_wf
proof
  fix x :: Rebind
  assume wf: "rebind_wf x"
  show "of_option (ParseRebindAny (enc_rebind x)) = Inr x"
  proof (cases "rbVersion x = RebindVersion")
    case True
    with wf show ?thesis
      by (simp add: rebind_wf_def enc_rebind_def ParseRebindAny_def EncodeRebind_def codec_simps)
  next
    case False
    with wf have v: "rbVersion x = RebindVersionV2" "length (rbCarrierID x) \<le> 32" "length (rbSessionID x) = 16"
      by (auto simp: rebind_wf_def)
    have u: "unat (word_of_nat (length (rbCarrierID x)) :: byte) = length (rbCarrierID x)"
      using v(2) by simp
    show ?thesis
      using v u
      by (simp add: enc_rebind_def ParseRebindAny_def EncodeRebindV2_def codec_simps nth_append Let_def)
  qed
next
  fix b x
  assume "of_option (ParseRebindAny b) = Inr x"
  then have p: "ParseRebindAny b = Some x" by simp
  show "rebind_wf x \<and> enc_rebind x = b"
  proof (cases "b ! 0 = RebindVersion")
    case True
    with p show ?thesis
      using EncodeRebind_of_parts [of b]
      by (auto simp: ParseRebindAny_def rebind_wf_def enc_rebind_def split: if_splits)
  next
    case False
    with p show ?thesis
      using EncodeRebindV2_of_parts [of "unat (b ! 17)" b]
      by (auto simp: ParseRebindAny_def rebind_wf_def enc_rebind_def Let_def split: if_splits)
  qed
qed

section \<open>Properties\<close>

text \<open>An attachment is in step with its signals in every reachable state: the ready channel is
  closed exactly while attached, a generation is recorded only then, and the struct keeps no
  grace timer on an attached or closed attachment.\<close>

lemma attachment_invariant:
  assumes "att_run ps NewAttachment = Some a"
  shows "(readyClosed a \<longleftrightarrow> att_state a = AttAttached) \<and>
    (att_gen a \<noteq> 0 \<longrightarrow> att_state a = AttAttached) \<and>
    (att_state a = AttAttached \<or> att_state a = AttClosed \<longrightarrow> timer a = None)"
  using att_inv_run [OF NewAttachment_inv assms] by (auto simp: att_inv_def)

lemma attachment_invariant_witness:
  "\<exists>a. att_run [OpAttach 3] NewAttachment = Some a \<and> readyClosed a \<and> att_state a = AttAttached \<and> timer a = None"
  using attachment_invariant [of "[OpAttach 3]"]
  by (simp add: att_defs NewAttachment_def)

text \<open>A lost direction is never forgotten: after a carrier loss, until the direction is
  re-attached or closed, whatever rebind attempts are begun and failed, its grace timer is
  armed, or its callback is on the way, or the timeout has already been reported.\<close>

lemma lost_direction_times_out:
  assumes "att_run ps NewAttachment = Some a" and "Detach g a = (True, a1)"
    and "att_run qs a1 = Some a2" and "\<not> list_ex recovers qs"
  shows "(\<exists>t. timer a2 = Some t \<and> t \<in> set (armed a2)) \<or> 0 < inflight a2 \<or>
    length (timeout_states a) < length (timeout_states a2)"
proof -
  have a: "att_inv a" by (rule att_inv_run [OF NewAttachment_inv assms(1)])
  have a1: "waiting (length (timeout_states a)) a1"
    using assms(2) a by (auto simp: att_defs waiting_def att_inv_def split: if_splits)
  have "att_inv a1" using att_inv_step [OF a, of "OpDetach g"] assms(2) by simp
  then have "att_inv a2" using att_inv_run assms(3) by blast
  with waiting_run [OF a1 assms(3,4)] show ?thesis
    by (auto simp: waiting_def att_inv_def)
qed

lemma lost_direction_times_out_witness:
  "\<exists>a a1 a2. att_run [OpAttach 3] NewAttachment = Some a \<and> Detach 3 a = (True, a1) \<and>
     att_run [OpBeginRebind, OpFailRebind] a1 = Some a2 \<and>
     ((\<exists>t. timer a2 = Some t \<and> t \<in> set (armed a2)) \<or> 0 < inflight a2 \<or>
      length (timeout_states a) < length (timeout_states a2))"
proof -
  obtain a where a: "att_run [OpAttach 3] NewAttachment = Some a" "att_state a = AttAttached" "att_gen a = 3"
    by (simp add: att_defs NewAttachment_def)
  obtain a1 where a1: "Detach 3 a = (True, a1)" using a by (simp add: Detach_def)
  obtain a2 where a2: "att_run [OpBeginRebind, OpFailRebind] a1 = Some a2" by simp
  show ?thesis
    using lost_direction_times_out [OF a(1) a1 a2] a(1) a1 a2 by (auto simp: recovers_def)
qed

text \<open>Closed is final and stale losses are ignored: no operation leaves \<open>AttClosed\<close> or reports a
  timeout there, and the death of a carrier generation other than the bound one changes
  nothing.\<close>

lemma attachment_closed_and_stale:
  "(att_state a = AttClosed \<and> att_run ps a = Some a' \<longrightarrow>
      att_state a' = AttClosed \<and> timeout_states a' = timeout_states a) \<and>
   (att_state b = AttAttached \<and> h \<noteq> att_gen b \<longrightarrow> Detach h b = (False, b))"
proof -
  have "att_state a = AttClosed \<Longrightarrow> att_run ps a = Some a' \<Longrightarrow>
      att_state a' = AttClosed \<and> timeout_states a' = timeout_states a"
    by (erule att_sys.exec_inv) (auto dest: att_closed_step)
  then show ?thesis by (auto simp: Detach_def)
qed

lemma attachment_closed_and_stale_witness:
  "\<exists>a. att_run [OpAttach 2, OpExpire 0] (att_Close NewAttachment) = None \<and>
     att_run [OpAttach 2] (att_Close NewAttachment) = Some a \<and> att_state a = AttClosed \<and>
     Detach 4 (snd (Attach 3 NewAttachment)) = (False, snd (Attach 3 NewAttachment))"
proof -
  obtain a where a: "att_run [OpAttach 2] (att_Close NewAttachment) = Some a" by simp
  have c: "att_state (att_Close NewAttachment) = AttClosed"
    "att_state (snd (Attach 3 NewAttachment)) = AttAttached" "att_gen (snd (Attach 3 NewAttachment)) = 3"
    "att_run [OpAttach 2, OpExpire 0] (att_Close NewAttachment) = None"
    by (simp_all add: att_defs NewAttachment_def)
  show ?thesis
    using attachment_closed_and_stale [of "att_Close NewAttachment" "[OpAttach 2]" a
        "snd (Attach 3 NewAttachment)" 4] a c by auto
qed

text \<open>The grace callback fires on a recovered direction: a timer that runs out just before the
  re-attach leaves a callback behind that reports the timeout although the attachment is
  bound to the new carrier by then (the callback only checks for \<open>AttClosed\<close>).\<close>

lemma timeout_after_reattach:
  "\<exists>a. att_run [OpAttach 1, OpDetach 1, OpExpire 0, OpBeginRebind, OpAttach 2, OpCallback] NewAttachment = Some a \<and>
     att_state a = AttAttached \<and> att_gen a = 2 \<and> timeout_states a = [AttAttached]"
  by (simp add: att_defs NewAttachment_def)

text \<open>The rebind payload codec is exact: the receiver decodes a payload to a rebind iff it is the
  encoding of it in its version, with a 16-byte session id and, in version 2, a carrier id of
  at most 32 bytes; every encoding is read back unchanged, and version 1 by the old parser
  too.\<close>

lemma rebind_codec_exact:
  "(ParseRebindAny b = Some r \<longleftrightarrow> rebind_wf r \<and> b = enc_rebind r) \<and>
   (length sid = SessionIDLen \<longrightarrow> ParseRebind (EncodeRebind sid gen) = Some (sid, gen))"
  using rebind_codec.dec_exact [of b r] ParseRebind_EncodeRebind by simp

lemma rebind_codec_exact_witness:
  "ParseRebind (EncodeRebind (replicate 16 7) 9) = Some (replicate 16 7, 9)"
  using rebind_codec_exact [of "[]" undefined "replicate 16 7" 9] by simp

end
