(* ===== verification/Session.thy ===== *)
theory Session
  imports Attachment "HOL-Library.Multiset"
begin

text \<open>
  The session lifecycle and the session store of \<^verbatim>\<open>src/pkg/session/session.go\<close>.

  A session's mutex protects every transition of \<open>ses_state\<close>. \<open>Close\<close> and
  \<open>MarkDirClosed\<close> release it before they call \<open>teardown\<close>, so the locked part
  (\<open>Close_begin\<close>, \<open>MarkDirClosed_begin\<close>) and \<open>teardown\<close> are separate steps of the run
  system, and other goroutines may act between them. Connections and hooks are numbered;
  \<open>conn_closes\<close> and \<open>hook_runs\<close> log what was called, \<open>registered\<close> logs every hook
  passed to \<open>OnClose\<close>. The bootstrap channel has capacity one: \<open>Some b\<close> is the channel
  with buffer \<open>b\<close>, \<open>None\<close> no channel.
\<close>

section \<open>Sessions\<close>

datatype State = StatePending | StateActive | StateClosing | StateClosed
datatype Direction = DirUp | DirDown

abbreviation BootstrapEndedWithoutResult :: byte where "BootstrapEndedWithoutResult \<equiv> 0xFF"

record Session =
  ClientConn :: "nat option"
  TargetConn :: "nat option"
  StreamIDUp :: u32
  StreamIDDown :: u32
  UpAtt :: "Attachment option"
  DownAtt :: "Attachment option"
  cancelled :: bool
  ses_state :: State
  upClosed :: bool
  downClosed :: bool
  reason :: string
  once_done :: bool
  done_closed :: bool
  onClose :: "nat list"
  bootstrapC :: "byte list option"
  clientConnClosed :: bool
  conn_closes :: "nat list"
  hook_runs :: "nat list"
  registered :: "nat list"

definition NewSession :: "nat option \<Rightarrow> nat option \<Rightarrow> Session" where
  "NewSession clientConn targetConn =
     \<lparr>ClientConn = clientConn, TargetConn = targetConn, StreamIDUp = 0, StreamIDDown = 0,
      UpAtt = None, DownAtt = None, cancelled = False, ses_state = StatePending,
      upClosed = False, downClosed = False, reason = '''', once_done = False, done_closed = False,
      onClose = [], bootstrapC = None, clientConnClosed = (clientConn \<noteq> None),
      conn_closes = [], hook_runs = [], registered = []\<rparr>"

text \<open>A session as both node roles set it up before it is published: one stream id for both
  directions and a fresh attachment each.\<close>

definition node_session :: "nat option \<Rightarrow> nat option \<Rightarrow> u32 \<Rightarrow> Session" where
  "node_session clientConn targetConn sid = (NewSession clientConn targetConn)
     \<lparr>StreamIDUp := sid, StreamIDDown := sid, UpAtt := Some NewAttachment, DownAtt := Some NewAttachment\<rparr>"

definition Activate :: "Session \<Rightarrow> bool \<times> Session" where
  "Activate s =
     (if ses_state s \<noteq> StatePending then (False, s) else (True, s\<lparr>ses_state := StateActive\<rparr>))"

definition SetBootstrapChannel :: "Session \<Rightarrow> bool \<times> Session" where
  "SetBootstrapChannel s =
     (if ses_state s = StateClosing \<or> ses_state s = StateClosed then (False, s)
      else if bootstrapC s \<noteq> None then (True, s)
      else (True, s\<lparr>bootstrapC := Some []\<rparr>))"

definition ResolveBootstrap :: "byte \<Rightarrow> Session \<Rightarrow> bool \<times> Session" where
  "ResolveBootstrap status s =
     (case bootstrapC s of
        None \<Rightarrow> (False, s)
      | Some buf \<Rightarrow> if length buf < 1 then (True, s\<lparr>bootstrapC := Some (buf @ [status])\<rparr>)
                    else (False, s))"

text \<open>The receive of \<open>WaitBootstrap\<close>: \<open>None\<close> while it blocks; a nil channel returns at once.\<close>

definition WaitBootstrap :: "Session \<Rightarrow> ((byte \<times> bool) \<times> Session) option" where
  "WaitBootstrap s =
     (case bootstrapC s of
        None \<Rightarrow> Some ((0, False), s)
      | Some [] \<Rightarrow> None
      | Some (st # buf) \<Rightarrow> Some ((st, True), s\<lparr>bootstrapC := Some buf\<rparr>))"

definition DirClosed :: "Direction \<Rightarrow> Session \<Rightarrow> bool" where
  "DirClosed dir s = (if dir = DirUp then upClosed s else downClosed s)"

definition Att :: "Direction \<Rightarrow> Session \<Rightarrow> Attachment option" where
  "Att dir s = (if dir = DirUp then UpAtt s else DownAtt s)"

definition OnClose :: "nat \<Rightarrow> Session \<Rightarrow> Session" where
  "OnClose fn s0 =
     (let s = s0\<lparr>registered := registered s0 @ [fn]\<rparr>
      in if ses_state s = StatePending \<or> ses_state s = StateActive
         then s\<lparr>onClose := onClose s @ [fn]\<rparr>
         else s\<lparr>hook_runs := hook_runs s @ [fn]\<rparr>)"

definition close_att :: "Direction \<Rightarrow> Session \<Rightarrow> Session" where
  "close_att dir s =
     (if dir = DirUp then s\<lparr>UpAtt := map_option att_Close (UpAtt s)\<rparr>
      else s\<lparr>DownAtt := map_option att_Close (DownAtt s)\<rparr>)"

text \<open>The locked part and the attachment close; the result is the code's \<open>complete\<close>.\<close>

definition MarkDirClosed_begin :: "Direction \<Rightarrow> string \<Rightarrow> Session \<Rightarrow> bool \<times> Session" where
  "MarkDirClosed_begin dir rsn s =
     (if ses_state s = StateClosed \<or> ses_state s = StateClosing then (False, s)
      else if ses_state s = StatePending then (False, s)
      else if DirClosed dir s then (False, s)
      else (let s1 = (if dir = DirUp then s\<lparr>upClosed := True\<rparr> else s\<lparr>downClosed := True\<rparr>);
                s2 = (if reason s1 = '''' then s1\<lparr>reason := rsn\<rparr> else s1);
                complete = (upClosed s2 \<and> downClosed s2);
                s3 = (if complete then s2\<lparr>ses_state := StateClosing\<rparr> else s2)
            in (complete, close_att dir s3)))"

definition AdoptConn :: "nat \<Rightarrow> Session \<Rightarrow> bool \<times> Session" where
  "AdoptConn c s =
     (if ses_state s = StateClosed \<or> ses_state s = StateClosing then (False, s)
      else (True, s\<lparr>ClientConn := Some c, clientConnClosed := True\<rparr>))"

definition Close_begin :: "string \<Rightarrow> Session \<Rightarrow> bool \<times> Session" where
  "Close_begin rsn s =
     (if ses_state s = StateClosed \<or> ses_state s = StateClosing then (False, s)
      else (let s1 = s\<lparr>ses_state := StateClosing\<rparr>
            in (True, if reason s1 = '''' then s1\<lparr>reason := rsn\<rparr> else s1)))"

definition close_conn_opt :: "nat option \<Rightarrow> Session \<Rightarrow> Session" where
  "close_conn_opt c s = (case c of None \<Rightarrow> s | Some x \<Rightarrow> s\<lparr>conn_closes := conn_closes s @ [x]\<rparr>)"

definition teardown :: "Session \<Rightarrow> Session" where
  "teardown s =
     (if once_done s then s
      else (let s1 = s\<lparr>once_done := True, cancelled := True, clientConnClosed := True\<rparr>;
                s2 = snd (ResolveBootstrap BootstrapEndedWithoutResult s1);
                s3 = close_conn_opt (TargetConn s2) (close_conn_opt (ClientConn s2) s2);
                s4 = close_att DirDown (close_att DirUp s3);
                s5 = s4\<lparr>hook_runs := hook_runs s4 @ onClose s4\<rparr>
            in s5\<lparr>ses_state := StateClosed, done_closed := True\<rparr>))"

definition session_Close :: "string \<Rightarrow> Session \<Rightarrow> Session" where
  "session_Close rsn s = (let (go, s1) = Close_begin rsn s in if go then teardown s1 else s1)"

definition MarkDirClosed :: "Direction \<Rightarrow> string \<Rightarrow> Session \<Rightarrow> bool \<times> Session" where
  "MarkDirClosed dir rsn s =
     (let (complete, s1) = MarkDirClosed_begin dir rsn s
      in (complete, if complete then teardown s1 else s1))"

definition SetOverflowReason :: "Session \<Rightarrow> Session" where
  "SetOverflowReason s = s\<lparr>reason := ''stream overflow terminated''\<rparr>"

definition SetDataUndeliverableReason :: "Session \<Rightarrow> Session" where
  "SetDataUndeliverableReason s = s\<lparr>reason := ''in-stream data undeliverable (byte gap)''\<rparr>"

text \<open>
  One session under concurrent callers. \<open>SesTeardown\<close> is the call of \<open>teardown\<close> by the
  goroutine whose locked part set \<open>StateClosing\<close>; the attachments are driven by the node.
\<close>

datatype ses_op =
    SesActivate | SesSetBootstrap | SesResolve byte | SesWait | SesOnClose nat
  | SesMark Direction string | SesAdopt nat | SesClose string | SesTeardown
  | SesAttOp Direction att_op | SesSetReason

definition att_upd :: "Direction \<Rightarrow> att_op \<Rightarrow> Session \<Rightarrow> Session" where
  "att_upd dir p s =
     (case Att dir s of
        None \<Rightarrow> s
      | Some a \<Rightarrow> (case att_do p a of
            None \<Rightarrow> s
          | Some a' \<Rightarrow> if dir = DirUp then s\<lparr>UpAtt := Some a'\<rparr> else s\<lparr>DownAtt := Some a'\<rparr>))"

fun ses_do :: "ses_op \<Rightarrow> Session \<Rightarrow> Session option" where
  "ses_do SesActivate s = Some (snd (Activate s))"
| "ses_do SesSetBootstrap s = Some (snd (SetBootstrapChannel s))"
| "ses_do (SesResolve st) s = Some (snd (ResolveBootstrap st s))"
| "ses_do SesWait s = map_option snd (WaitBootstrap s)"
| "ses_do (SesOnClose fn) s = Some (OnClose fn s)"
| "ses_do (SesMark dir rsn) s = Some (snd (MarkDirClosed_begin dir rsn s))"
| "ses_do (SesAdopt c) s = Some (snd (AdoptConn c s))"
| "ses_do (SesClose rsn) s = Some (snd (Close_begin rsn s))"
| "ses_do SesTeardown s = (if ses_state s = StateClosing then Some (teardown s) else None)"
| "ses_do (SesAttOp dir p) s = Some (att_upd dir p s)"
| "ses_do SesSetReason s = Some (SetOverflowReason s)"

fun ses_run :: "ses_op list \<Rightarrow> Session \<Rightarrow> Session option" where
  "ses_run [] s = Some s"
| "ses_run (p # ps) s = (case ses_do p s of None \<Rightarrow> None | Some s1 \<Rightarrow> ses_run ps s1)"

section \<open>The store\<close>

text \<open>Sessions are referred to by number; \<open>tbl\<close> is the heap of sessions the code points to.\<close>

record SessionStore =
  st_sessions :: "bytes \<rightharpoonup> nat"
  st_streams :: "u32 \<rightharpoonup> nat"

definition NewSessionStore :: SessionStore where
  "NewSessionStore = \<lparr>st_sessions = Map.empty, st_streams = Map.empty\<rparr>"

definition is_closing :: "Session \<Rightarrow> bool" where
  "is_closing s \<longleftrightarrow> ses_state s = StateClosing \<or> ses_state s = StateClosed"

definition store_Add :: "(nat \<Rightarrow> Session) \<Rightarrow> bytes \<Rightarrow> nat \<Rightarrow> SessionStore \<Rightarrow> SessionStore" where
  "store_Add tbl i r ss =
     (if is_closing (tbl r) then ss else ss\<lparr>st_sessions := (st_sessions ss)(i \<mapsto> r)\<rparr>)"

definition store_Get :: "bytes \<Rightarrow> SessionStore \<Rightarrow> nat option" where
  "store_Get i ss = st_sessions ss i"

definition removeStreamsLocked :: "Session \<Rightarrow> SessionStore \<Rightarrow> SessionStore" where
  "removeStreamsLocked s ss =
     (let m1 = (if StreamIDUp s \<noteq> 0 then (st_streams ss)(StreamIDUp s := None) else st_streams ss);
          m2 = (if StreamIDDown s \<noteq> 0 then m1(StreamIDDown s := None) else m1)
      in ss\<lparr>st_streams := m2\<rparr>)"

definition store_Remove :: "(nat \<Rightarrow> Session) \<Rightarrow> bytes \<Rightarrow> SessionStore \<Rightarrow> SessionStore" where
  "store_Remove tbl i ss =
     (case st_sessions ss i of
        None \<Rightarrow> ss
      | Some r \<Rightarrow> (removeStreamsLocked (tbl r) ss)\<lparr>st_sessions := (st_sessions ss)(i := None)\<rparr>)"

definition AddStream :: "(nat \<Rightarrow> Session) \<Rightarrow> nat \<Rightarrow> SessionStore \<Rightarrow> SessionStore" where
  "AddStream tbl r ss =
     (if is_closing (tbl r) then ss
      else (let m1 = (if StreamIDUp (tbl r) \<noteq> 0 then (st_streams ss)(StreamIDUp (tbl r) \<mapsto> r)
                      else st_streams ss);
                m2 = (if StreamIDDown (tbl r) \<noteq> 0 then m1(StreamIDDown (tbl r) \<mapsto> r) else m1)
            in ss\<lparr>st_streams := m2\<rparr>))"

definition GetByStream :: "u32 \<Rightarrow> SessionStore \<Rightarrow> nat option" where
  "GetByStream sid ss = st_streams ss sid"

definition RemoveStream :: "(nat \<Rightarrow> Session) \<Rightarrow> nat \<Rightarrow> SessionStore \<Rightarrow> SessionStore" where
  "RemoveStream tbl r ss = removeStreamsLocked (tbl r) ss"

section \<open>Lifecycle invariant\<close>

primrec rank :: "State \<Rightarrow> nat" where
  "rank StatePending = 0" | "rank StateActive = 1" | "rank StateClosing = 2" | "rank StateClosed = 3"

definition conns :: "Session \<Rightarrow> nat list" where
  "conns s = (case ClientConn s of None \<Rightarrow> [] | Some c \<Rightarrow> [c]) @ (case TargetConn s of None \<Rightarrow> [] | Some c \<Rightarrow> [c])"

definition ses_inv :: "Session \<Rightarrow> bool" where
  "ses_inv s \<longleftrightarrow>
     (once_done s \<longleftrightarrow> ses_state s = StateClosed) \<and> (done_closed s \<longleftrightarrow> ses_state s = StateClosed) \<and>
     conn_closes s = (if ses_state s = StateClosed then conns s else []) \<and>
     mset (registered s) = mset (hook_runs s) + (if ses_state s = StateClosed then {#} else mset (onClose s)) \<and>
     (ses_state s \<in> {StatePending, StateActive} \<longrightarrow> hook_runs s = [] \<and> \<not> (upClosed s \<and> downClosed s)) \<and>
     (ses_state s = StatePending \<longrightarrow> \<not> upClosed s \<and> \<not> downClosed s) \<and>
     (ses_state s = StateClosed \<longrightarrow> cancelled s \<and> clientConnClosed s \<and>
        (\<forall>a. UpAtt s = Some a \<longrightarrow> att_state a = AttClosed) \<and> (\<forall>a. DownAtt s = Some a \<longrightarrow> att_state a = AttClosed)) \<and>
     (upClosed s \<longrightarrow> (\<forall>a. UpAtt s = Some a \<longrightarrow> att_state a = AttClosed)) \<and>
     (downClosed s \<longrightarrow> (\<forall>a. DownAtt s = Some a \<longrightarrow> att_state a = AttClosed))"

lemmas ses_defs = Activate_def SetBootstrapChannel_def ResolveBootstrap_def WaitBootstrap_def OnClose_def
  MarkDirClosed_begin_def AdoptConn_def Close_begin_def teardown_def close_att_def close_conn_opt_def
  SetOverflowReason_def DirClosed_def Att_def Let_def

interpretation ses_sys: run_system ses_do ses_run
  by unfold_locales simp_all

lemma att_Close_closed [simp]: "att_state (att_Close a) = AttClosed"
  by (simp add: att_Close_def fresh_ready_def stopTimer_def split: option.splits)

lemma ses_inv_node_session: "ses_inv (node_session c t sid)"
  by (simp add: node_session_def NewSession_def ses_inv_def conns_def)

lemma ses_inv_teardown:
  assumes "ses_inv s" and "ses_state s = StateClosing"
  shows "ses_inv (teardown s)"
proof -
  let ?s2 = "snd (ResolveBootstrap BootstrapEndedWithoutResult
               (s\<lparr>once_done := True, cancelled := True, clientConnClosed := True\<rparr>))"
  have "?s2 = s\<lparr>once_done := True, cancelled := True, clientConnClosed := True, bootstrapC := bootstrapC ?s2\<rparr>"
    by (simp add: ResolveBootstrap_def split: option.splits)
  then obtain b where b: "?s2 = s\<lparr>once_done := True, cancelled := True, clientConnClosed := True, bootstrapC := b\<rparr>"
    by blast
  show ?thesis
    using assms
    unfolding teardown_def Let_def b
    by (cases "ClientConn s"; cases "TargetConn s"; cases "UpAtt s"; cases "DownAtt s")
      (simp_all add: ses_inv_def close_att_def close_conn_opt_def conns_def)
qed

lemma ses_inv_mark: "ses_inv s \<Longrightarrow> ses_inv (snd (MarkDirClosed_begin dir rsn s))"
  by (cases "ses_state s"; cases dir)
    (auto simp: ses_inv_def MarkDirClosed_begin_def close_att_def DirClosed_def Let_def)

lemma ses_inv_att_set:
  assumes "ses_inv s" and "\<And>a. UpAtt s = Some a \<Longrightarrow> att_state a = AttClosed \<Longrightarrow> att_state a' = AttClosed"
    and "UpAtt s \<noteq> None"
  shows "ses_inv (s\<lparr>UpAtt := Some a'\<rparr>)"
  using assms unfolding ses_inv_def conns_def by auto

lemma ses_inv_att_set_down:
  assumes "ses_inv s" and "\<And>a. DownAtt s = Some a \<Longrightarrow> att_state a = AttClosed \<Longrightarrow> att_state a' = AttClosed"
    and "DownAtt s \<noteq> None"
  shows "ses_inv (s\<lparr>DownAtt := Some a'\<rparr>)"
  using assms unfolding ses_inv_def conns_def by auto

lemma ses_inv_att:
  assumes "ses_inv s" shows "ses_inv (att_upd dir p s)"
proof (cases dir)
  case DirUp
  show ?thesis
  proof (cases "UpAtt s")
    case None
    with DirUp assms show ?thesis by (simp add: att_upd_def Att_def)
  next
    case (Some a)
    show ?thesis
    proof (cases "att_do p a")
      case None
      with DirUp Some assms show ?thesis by (simp add: att_upd_def Att_def)
    next
      case (Some a')
      then have "ses_inv (s\<lparr>UpAtt := Some a'\<rparr>)"
        using ses_inv_att_set [OF assms, of a'] \<open>UpAtt s = Some a\<close> att_closed_step by auto
      with DirUp Some \<open>UpAtt s = Some a\<close> show ?thesis by (simp add: att_upd_def Att_def)
    qed
  qed
next
  case DirDown
  show ?thesis
  proof (cases "DownAtt s")
    case None
    with DirDown assms show ?thesis by (simp add: att_upd_def Att_def)
  next
    case (Some a)
    show ?thesis
    proof (cases "att_do p a")
      case None
      with DirDown Some assms show ?thesis by (simp add: att_upd_def Att_def)
    next
      case (Some a')
      then have "ses_inv (s\<lparr>DownAtt := Some a'\<rparr>)"
        using ses_inv_att_set_down [OF assms, of a'] \<open>DownAtt s = Some a\<close> att_closed_step by auto
      with DirDown Some \<open>DownAtt s = Some a\<close> show ?thesis by (simp add: att_upd_def Att_def)
    qed
  qed
qed

lemma conns_cong [simp]:
  "conns (s\<lparr>ses_state := x\<rparr>) = conns s" "conns (s\<lparr>bootstrapC := b\<rparr>) = conns s"
  "conns (s\<lparr>reason := r\<rparr>) = conns s" "conns (s\<lparr>ses_state := x, reason := r\<rparr>) = conns s"
  "conns (s\<lparr>registered := g, onClose := h\<rparr>) = conns s"
  "conns (s\<lparr>registered := g, hook_runs := h\<rparr>) = conns s"
  by (simp_all add: conns_def)

lemma ses_inv_state:
  "ses_inv s \<Longrightarrow> ses_inv (snd (Activate s))" "ses_inv s \<Longrightarrow> ses_inv (snd (Close_begin rsn s))"
  "ses_inv s \<Longrightarrow> ses_inv (snd (AdoptConn c s))" "ses_inv s \<Longrightarrow> ses_inv (s\<lparr>reason := r\<rparr>)"
  by (cases "ses_state s"; simp add: ses_inv_def Activate_def Close_begin_def AdoptConn_def Let_def)+

lemma ses_inv_bootstrapC: "ses_inv s \<Longrightarrow> ses_inv (s\<lparr>bootstrapC := b\<rparr>)"
  by (simp add: ses_inv_def)

lemma ses_inv_boot:
  "ses_inv s \<Longrightarrow> ses_inv (snd (SetBootstrapChannel s))" "ses_inv s \<Longrightarrow> ses_inv (snd (ResolveBootstrap st s))"
  "ses_inv s \<Longrightarrow> WaitBootstrap s = Some (r, s') \<Longrightarrow> ses_inv s'"
  by (auto simp: SetBootstrapChannel_def ResolveBootstrap_def WaitBootstrap_def
      intro: ses_inv_bootstrapC split: option.splits list.splits)

lemma ses_inv_OnClose: "ses_inv s \<Longrightarrow> ses_inv (OnClose fn s)"
  by (cases "ses_state s") (simp_all add: ses_inv_def OnClose_def Let_def)

lemma ses_inv_step: "ses_inv s \<Longrightarrow> ses_do p s = Some s' \<Longrightarrow> ses_inv s'"
  by (cases p)
    (auto simp: SetOverflowReason_def split: if_splits
      intro: ses_inv_state ses_inv_boot ses_inv_OnClose ses_inv_mark ses_inv_att ses_inv_teardown)

lemma ses_inv_run: "ses_inv s \<Longrightarrow> ses_run ps s = Some s' \<Longrightarrow> ses_inv s'"
  by (erule ses_sys.exec_inv) (auto dest: ses_inv_step)

text \<open>States only move forward.\<close>

lemma teardown_state: "ses_state (teardown s) = (if once_done s then ses_state s else StateClosed)"
  by (simp add: teardown_def Let_def)

lemma rank_step: "ses_do p s = Some s' \<Longrightarrow> rank (ses_state s) \<le> rank (ses_state s')"
  by (cases p; cases "ses_state s")
    (auto simp: Activate_def SetBootstrapChannel_def ResolveBootstrap_def WaitBootstrap_def OnClose_def
      MarkDirClosed_begin_def AdoptConn_def Close_begin_def close_att_def SetOverflowReason_def att_upd_def
      teardown_state Let_def split: if_splits option.splits list.splits)

lemma rank_run: "ses_run ps s = Some s' \<Longrightarrow> rank (ses_state s) \<le> rank (ses_state s')"
  by (erule ses_sys.exec_mono) (auto dest: rank_step)

text \<open>The bootstrap buffer: a committed verdict stays until it is taken.\<close>

lemma teardown_bootstrap:
  "bootstrapC (teardown s) =
     (if once_done s then bootstrapC s
      else map_option (\<lambda>b. if b = [] then [BootstrapEndedWithoutResult] else b) (bootstrapC s))"
  by (cases "ClientConn s"; cases "TargetConn s"; cases "bootstrapC s")
    (auto simp: teardown_def ResolveBootstrap_def close_att_def close_conn_opt_def Let_def)

lemma verdict_step:
  "bootstrapC s = Some [v] \<Longrightarrow> ses_do p s = Some s' \<Longrightarrow> p \<noteq> SesWait \<Longrightarrow> bootstrapC s' = Some [v]"
  by (cases p)
    (auto simp: Activate_def SetBootstrapChannel_def ResolveBootstrap_def OnClose_def
      MarkDirClosed_begin_def AdoptConn_def Close_begin_def close_att_def SetOverflowReason_def att_upd_def
      teardown_bootstrap Let_def split: if_splits option.splits)

lemma verdict_run:
  "bootstrapC s = Some [v] \<Longrightarrow> ses_run ps s = Some s' \<Longrightarrow> SesWait \<notin> set ps \<Longrightarrow> bootstrapC s' = Some [v]"
  by (erule ses_sys.exec_inv) (auto dest: verdict_step)

definition boot_inv :: "Session \<Rightarrow> bool" where
  "boot_inv s \<longleftrightarrow> (ses_state s = StateClosed \<longrightarrow> bootstrapC s \<noteq> Some [])"

lemma boot_step:
  assumes "ses_inv s" and "boot_inv s" and "ses_do p s = Some s'" and "p \<noteq> SesWait"
  shows "boot_inv s'"
proof (cases p)
  case SesTeardown
  then have "s' = teardown s" "ses_state s = StateClosing" using assms(3) by (simp_all split: if_splits)
  then show ?thesis
    using assms(1) by (cases "bootstrapC s") (auto simp: boot_inv_def ses_inv_def teardown_bootstrap)
qed (use assms in \<open>auto simp: boot_inv_def Activate_def SetBootstrapChannel_def ResolveBootstrap_def OnClose_def
      MarkDirClosed_begin_def AdoptConn_def Close_begin_def close_att_def SetOverflowReason_def att_upd_def
      Let_def split: if_splits option.splits\<close>)

lemma boot_run:
  "ses_inv s \<Longrightarrow> boot_inv s \<Longrightarrow> ses_run ps s = Some s' \<Longrightarrow> SesWait \<notin> set ps \<Longrightarrow> boot_inv s'"
  by (induction ps s rule: ses_run.induct) (auto split: option.splits dest: boot_step ses_inv_step)

section \<open>Store lemmas\<close>

text \<open>Every stream entry points to a session that owns the stream id.\<close>

definition store_inv :: "(nat \<Rightarrow> Session) \<Rightarrow> SessionStore \<Rightarrow> bool" where
  "store_inv tbl ss \<longleftrightarrow> (\<forall>sid r. st_streams ss sid = Some r \<longrightarrow>
     sid \<noteq> 0 \<and> (StreamIDUp (tbl r) = sid \<or> StreamIDDown (tbl r) = sid))"

lemma store_inv_ops:
  "store_inv tbl NewSessionStore"
  "store_inv tbl ss \<Longrightarrow> store_inv tbl (store_Add tbl i r ss)"
  "store_inv tbl ss \<Longrightarrow> store_inv tbl (store_Remove tbl i ss)"
  "store_inv tbl ss \<Longrightarrow> store_inv tbl (AddStream tbl r ss)"
  "store_inv tbl ss \<Longrightarrow> store_inv tbl (RemoveStream tbl r ss)"
  by (auto simp: store_inv_def NewSessionStore_def store_Add_def store_Remove_def AddStream_def
      RemoveStream_def removeStreamsLocked_def Let_def split: option.splits if_splits)

section \<open>Properties\<close>



text \<open>No revival: the lifecycle only moves forward, so a session that started closing never
  becomes active again, refuses activation, adoption of a connection, half-closes and new
  bootstrap waiters, and keeps refusing after any further calls.\<close>

lemma session_never_revived:
  assumes "ses_state s = StateClosing \<or> ses_state s = StateClosed" and "ses_run ps s = Some s'"
  shows "(ses_state s' = StateClosing \<or> ses_state s' = StateClosed) \<and>
    Activate s' = (False, s') \<and> AdoptConn c s' = (False, s') \<and>
    MarkDirClosed dir rsn s' = (False, s') \<and> session_Close rsn s' = s' \<and>
    SetBootstrapChannel s' = (False, s')"
proof -
  have "2 \<le> rank (ses_state s')" using rank_run [OF assms(2)] assms(1) by auto
  then have "ses_state s' = StateClosing \<or> ses_state s' = StateClosed" by (cases "ses_state s'") auto
  then show ?thesis
    by (auto simp: Activate_def AdoptConn_def MarkDirClosed_def MarkDirClosed_begin_def session_Close_def
        Close_begin_def SetBootstrapChannel_def)
qed

lemma session_never_revived_witness:
  "\<exists>s. ses_run [SesActivate, SesWait] (session_Close ''x'' (NewSession None None)) = Some s \<and>
     Activate s = (False, s) \<and> AdoptConn 4 s = (False, s)"
proof -
  obtain s where run: "ses_run [SesActivate, SesWait] (session_Close ''x'' (NewSession None None)) = Some s"
    by (simp add: NewSession_def session_Close_def ses_defs)
  have "ses_state (session_Close ''x'' (NewSession None None)) = StateClosed"
    by (simp add: NewSession_def session_Close_def ses_defs)
  then show ?thesis using session_never_revived [OF _ run] run by blast
qed

text \<open>Half-close: closing one direction of an active session whose other direction is open ends
  neither the session nor the other direction: the call returns false, the session stays
  active, no connection is closed, the direction's attachment is closed for good and the
  other attachment is untouched; when the other direction is already closed the call
  completes the session.\<close>

lemma session_half_close:
  assumes "ses_run ps (node_session c t sid) = Some s" and "ses_state s = StateActive" and "\<not> DirClosed dir s"
  shows "\<exists>done s'. MarkDirClosed dir rsn s = (done, s') \<and>
    (let other = (if dir = DirUp then DirDown else DirUp) in
     done = DirClosed other s \<and> DirClosed dir s' \<and>
     (\<not> done \<longrightarrow> ses_state s' = StateActive \<and> conn_closes s' = [] \<and> Att other s' = Att other s \<and>
        Att dir s' = map_option att_Close (Att dir s)) \<and>
     (done \<longrightarrow> ses_state s' = StateClosed))"
proof -
  have inv: "ses_inv s" by (rule ses_inv_run [OF ses_inv_node_session assms(1)])
  then have nd: "\<not> once_done s" "conn_closes s = []" using assms(2) by (auto simp: ses_inv_def)
  show ?thesis
    using assms(2,3) nd
    by (cases dir)
      (auto simp: MarkDirClosed_def MarkDirClosed_begin_def DirClosed_def Att_def close_att_def teardown_def
        ResolveBootstrap_def close_conn_opt_def Let_def split: option.splits)
qed

lemma session_half_close_witness:
  "\<exists>s' . MarkDirClosed DirUp ''eof'' (snd (Activate (node_session (Some 1) None 9))) = (False, s') \<and>
     ses_state s' = StateActive \<and> conn_closes s' = []"
proof -
  let ?s = "snd (Activate (node_session (Some 1) None 9))"
  have run: "ses_run [SesActivate] (node_session (Some 1) None 9) = Some ?s" by simp
  have "ses_state ?s = StateActive" "\<not> DirClosed DirUp ?s" "\<not> DirClosed DirDown ?s"
    by (simp_all add: NewSession_def node_session_def Activate_def DirClosed_def)
  then show ?thesis using session_half_close [OF run, of DirUp "''eof''"] by (auto simp: Let_def)
qed

text \<open>The bootstrap verdict is neither lost nor overwritten: the first status committed is the one
  the waiter gets, whatever happens in between (later acks, close, teardown); and a closed
  session whose channel was installed always has a value for its waiter, so the wait ends.\<close>

lemma bootstrap_verdict_kept:
  assumes "ses_run ps (node_session c t sid) = Some s" and "SesWait \<notin> set ps" and "bootstrapC s \<noteq> None"
  shows "(bootstrapC s = Some [] \<and> ResolveBootstrap v s = (True, s1) \<and> ses_run qs s1 = Some s2 \<and> SesWait \<notin> set qs
      \<longrightarrow> (\<exists>s3. WaitBootstrap s2 = Some ((v, True), s3))) \<and>
    (ses_state s = StateClosed \<longrightarrow> (\<exists>st s3. WaitBootstrap s = Some ((st, True), s3)))"
proof -
  have "boot_inv (node_session c t sid)" by (simp add: boot_inv_def node_session_def NewSession_def)
  then have "boot_inv s" using boot_run [OF ses_inv_node_session] assms(1,2) by blast
  then have closed: "ses_state s = StateClosed \<longrightarrow> (\<exists>st s3. WaitBootstrap s = Some ((st, True), s3))"
    using assms(3) by (auto simp: boot_inv_def WaitBootstrap_def split: option.splits list.splits)
  have "bootstrapC s1 = Some [v]" if "bootstrapC s = Some []" "ResolveBootstrap v s = (True, s1)"
    using that by (auto simp: ResolveBootstrap_def)
  then have "bootstrapC s2 = Some [v]"
    if "bootstrapC s = Some []" "ResolveBootstrap v s = (True, s1)" "ses_run qs s1 = Some s2" "SesWait \<notin> set qs"
    using that verdict_run by blast
  then show ?thesis using closed by (auto simp: WaitBootstrap_def)
qed

lemma bootstrap_verdict_kept_witness:
  "\<exists>s s3. ses_run [SesSetBootstrap, SesClose ''x'', SesTeardown] (node_session None None 9) = Some s \<and>
     WaitBootstrap s = Some ((BootstrapEndedWithoutResult, True), s3)"
proof -
  obtain s where run: "ses_run [SesSetBootstrap, SesClose ''x'', SesTeardown] (node_session None None 9) = Some s"
    and s: "ses_state s = StateClosed" "bootstrapC s = Some [BootstrapEndedWithoutResult]"
    by (simp add: NewSession_def node_session_def ses_defs)
  then obtain st s3 where "WaitBootstrap s = Some ((st, True), s3)"
    using bootstrap_verdict_kept [OF run] by auto
  then show ?thesis using run s by (auto simp: WaitBootstrap_def)
qed

text \<open>The store never resolves a stream to a removed session: after a session is removed, no
  stream id leads to it any more, other sessions' ids are untouched, and a session that has
  started closing is never indexed again.\<close>

lemma store_remove_complete:
  assumes "store_inv tbl ss" and "store_Get i ss = Some r"
  shows "store_Get i (store_Remove tbl i ss) = None \<and>
    (\<forall>sid. GetByStream sid (store_Remove tbl i ss) \<noteq> Some r) \<and>
    (\<forall>sid. sid \<noteq> StreamIDUp (tbl r) \<and> sid \<noteq> StreamIDDown (tbl r) \<longrightarrow>
       GetByStream sid (store_Remove tbl i ss) = GetByStream sid ss) \<and>
    (is_closing (tbl k) \<longrightarrow> store_Add tbl j k ss = ss \<and> AddStream tbl k ss = ss)"
  using assms
  by (auto simp: store_inv_def store_Get_def GetByStream_def store_Remove_def removeStreamsLocked_def
      store_Add_def AddStream_def Let_def split: if_splits)

lemma store_remove_complete_witness:
  "GetByStream 5 (store_Remove (\<lambda>r. (NewSession None None)\<lparr>StreamIDUp := 5\<rparr>) [1]
     (AddStream (\<lambda>r. (NewSession None None)\<lparr>StreamIDUp := 5\<rparr>) 0
       (store_Add (\<lambda>r. (NewSession None None)\<lparr>StreamIDUp := 5\<rparr>) [1] 0 NewSessionStore))) \<noteq> Some 0"
proof -
  let ?t = "\<lambda>r :: nat. (NewSession None None)\<lparr>StreamIDUp := 5\<rparr>"
  let ?ss = "AddStream ?t 0 (store_Add ?t [1] 0 NewSessionStore)"
  have "store_inv ?t ?ss" by (intro store_inv_ops)
  moreover have "store_Get [1] ?ss = Some 0"
    by (simp add: store_Get_def AddStream_def store_Add_def is_closing_def NewSession_def Let_def)
  ultimately show ?thesis using store_remove_complete by blast
qed

end
