(* ===== verification/Budget.thy ===== *)
theory Budget
  imports Prelude "HOL-Library.AList"
begin

text \<open>
  The node-wide byte budget of the reconnect buffers, \<^verbatim>\<open>src/pkg/node/budget.go\<close>: charging
  with a FIFO queue of waiters, refunds, deregistration and force-reclaim.

  Every section of code runs under \<open>b.mu\<close> and is one step. \<open>chargeWait\<close> is cut at its
  final select: \<open>chargeWait_begin\<close> is the part before it, \<open>chargeWait_cancel\<close> the arm taken
  when the session's context ends; the other arm just reads the outcome. The map of live
  relays is an association list with distinct keys; waiters carry a number, their
  identity, and \<open>admitted\<close> and \<open>released\<close> log the numbers whose channel was closed by a
  grant and by \<open>Close\<close>. The metrics mirror of the counter is left out.
\<close>

declare split_paired_All [simp del]

type_synonym bufKey = "nat \<times> bool"

record budgetWaiter =
  w_key :: bufKey
  w_n :: int
  w_id :: nat

record sessionBufferBudget =
  b_limit :: int
  accounted :: int
  active :: "(bufKey \<times> int) list"
  waiters :: "budgetWaiter list"
  b_closed :: bool
  w_seq :: nat
  admitted :: "nat list"
  released :: "nat list"

definition newSessionBufferBudget :: "int \<Rightarrow> sessionBufferBudget" where
  "newSessionBufferBudget l = \<lparr>b_limit = l, accounted = 0, active = [], waiters = [], b_closed = False,
     w_seq = 0, admitted = [], released = []\<rparr>"

text \<open>A Go map read of an absent key yields zero.\<close>

definition charge_of :: "(bufKey \<times> int) list \<Rightarrow> bufKey \<Rightarrow> int" where
  "charge_of m k = (case map_of m k of None \<Rightarrow> 0 | Some v \<Rightarrow> v)"

definition begin_relay :: "bufKey \<Rightarrow> sessionBufferBudget \<Rightarrow> sessionBufferBudget" where
  "begin_relay k b = (if \<not> b_closed b then b\<lparr>active := AList.update k 0 (active b)\<rparr> else b)"

text \<open>
  The loop of \<open>grantWaitersLocked\<close> over the waiters from the current index on: those kept,
  the new total, the new charges, and the admitted ones.
\<close>

fun grant_scan ::
    "int \<Rightarrow> budgetWaiter list \<Rightarrow> int \<Rightarrow> (bufKey \<times> int) list
       \<Rightarrow> budgetWaiter list \<times> int \<times> (bufKey \<times> int) list \<times> nat list" where
  "grant_scan l [] acc act = ([], acc, act, [])"
| "grant_scan l (w # ws) acc act =
     (if acc + w_n w > l
      then (let (kept, r) = grant_scan l ws acc act in (w # kept, r))
      else (let (kept, acc', act', adm) =
                  grant_scan l ws (acc + w_n w) (AList.update (w_key w) (charge_of act (w_key w) + w_n w) act)
            in (kept, acc', act', w_id w # adm)))"

definition grantWaitersLocked :: "sessionBufferBudget \<Rightarrow> sessionBufferBudget" where
  "grantWaitersLocked b =
     (if b_closed b \<or> b_limit b \<le> 0 then b
      else (let (kept, acc, act, adm) = grant_scan (b_limit b) (waiters b) (accounted b) (active b)
            in b\<lparr>waiters := kept, accounted := acc, active := act, admitted := admitted b @ adm\<rparr>))"

datatype charge_result = ChargeAdmitted | ChargeRefused | ChargeParked nat

definition chargeWait_begin ::
    "bufKey \<Rightarrow> int \<Rightarrow> bool \<Rightarrow> sessionBufferBudget \<Rightarrow> charge_result \<times> sessionBufferBudget" where
  "chargeWait_begin k n ctxDone b =
     (if n \<le> 0 then (ChargeAdmitted, b)
      else if ctxDone then (ChargeRefused, b)
      else if b_closed b then (ChargeRefused, b)
      else if b_limit b \<le> 0 then (ChargeAdmitted, b)
      else if map_of (active b) k = None then (ChargeRefused, b)
      else (let w = \<lparr>w_key = k, w_n = n, w_id = w_seq b\<rparr>
            in (ChargeParked (w_seq b),
                grantWaitersLocked (b\<lparr>waiters := waiters b @ [w], w_seq := w_seq b + 1\<rparr>))))"

definition removeWaiterLocked :: "nat \<Rightarrow> sessionBufferBudget \<Rightarrow> sessionBufferBudget" where
  "removeWaiterLocked i b = b\<lparr>waiters := filter (\<lambda>w. w_id w \<noteq> i) (waiters b)\<rparr>"

definition chargeWait_cancel :: "nat \<Rightarrow> sessionBufferBudget \<Rightarrow> bool \<times> sessionBufferBudget" where
  "chargeWait_cancel i b =
     (if i \<in> set (admitted b) then (True, b)
      else (False, grantWaitersLocked (removeWaiterLocked i b)))"

definition refund :: "bufKey \<Rightarrow> int \<Rightarrow> sessionBufferBudget \<Rightarrow> int \<times> sessionBufferBudget" where
  "refund k n b =
     (if n \<le> 0 \<or> b_limit b \<le> 0 \<or> b_closed b then (0, b)
      else (let cur = charge_of (active b) k; m = (if n > cur then cur else n)
            in if m = 0 then (0, b)
               else (m, grantWaitersLocked (b\<lparr>accounted := accounted b - m,
                                              active := AList.update k (cur - m) (active b)\<rparr>))))"

definition end_relay :: "bufKey \<Rightarrow> sessionBufferBudget \<Rightarrow> int \<times> sessionBufferBudget" where
  "end_relay k b =
     (case map_of (active b) k of
        None \<Rightarrow> (0, b)
      | Some cur \<Rightarrow>
          (let b1 = (if b_limit b > 0 \<and> \<not> b_closed b \<and> cur > 0
                     then b\<lparr>accounted := accounted b - cur\<rparr> else b);
               b2 = b1\<lparr>active := AList.delete k (active b1)\<rparr>
           in (cur, if cur > 0 then grantWaitersLocked b2 else b2)))"

definition budget_Close :: "sessionBufferBudget \<Rightarrow> int \<times> sessionBufferBudget" where
  "budget_Close b =
     (if b_closed b then (0, b)
      else (let reclaimed = (if b_limit b > 0 then (\<Sum>x\<leftarrow>active b. snd x) else 0)
            in (reclaimed, b\<lparr>b_closed := True, accounted := accounted b - reclaimed, active := [],
                             released := released b @ map w_id (waiters b), waiters := []\<rparr>)))"

text \<open>The callers' protocol: a relay registers once; everything else may come in any order.\<close>

datatype budget_op =
    BBegin bufKey | BCharge bufKey int bool | BCancel nat | BRefund bufKey int | BEnd bufKey | BClose

fun budget_do :: "budget_op \<Rightarrow> sessionBufferBudget \<Rightarrow> sessionBufferBudget option" where
  "budget_do (BBegin k) b = (if map_of (active b) k = None then Some (begin_relay k b) else None)"
| "budget_do (BCharge k n d) b = Some (snd (chargeWait_begin k n d b))"
| "budget_do (BCancel i) b = Some (snd (chargeWait_cancel i b))"
| "budget_do (BRefund k n) b = Some (snd (refund k n b))"
| "budget_do (BEnd k) b = Some (snd (end_relay k b))"
| "budget_do BClose b = Some (snd (budget_Close b))"

fun budget_run :: "budget_op list \<Rightarrow> sessionBufferBudget \<Rightarrow> sessionBufferBudget option" where
  "budget_run [] b = Some b"
| "budget_run (p # ps) b = (case budget_do p b of None \<Rightarrow> None | Some b1 \<Rightarrow> budget_run ps b1)"

section \<open>Sums over the charges\<close>

definition charges :: "(bufKey \<times> int) list \<Rightarrow> int" where
  "charges m = (\<Sum>x\<leftarrow>m. snd x)"

lemma charges_simps [simp]: "charges [] = 0" "charges (x # m) = snd x + charges m"
  by (simp_all add: charges_def)

lemma charges_update:
  "distinct (map fst m) \<Longrightarrow> charges (AList.update k v m) = charges m - charge_of m k + v"
  by (induction m) (auto simp: charge_of_def split: option.splits dest: map_of_SomeD)

lemma charges_delete:
  "distinct (map fst m) \<Longrightarrow> charges (AList.delete k m) = charges m - charge_of m k"
proof (induction m)
  case Nil
  then show ?case by (simp add: charge_of_def)
next
  case (Cons x m)
  show ?case
  proof (cases "fst x = k")
    case True
    with Cons.prems have "k \<notin> fst ` set m" by auto
    then have "AList.delete k m = m" "map_of m k = None"
      by (simp_all add: map_of_eq_None_iff)
    with True show ?thesis by (cases x) (simp add: charge_of_def)
  next
    case False
    with Cons show ?thesis by (auto simp: AList.delete_eq charge_of_def)
  qed
qed

definition charges_ok :: "(bufKey \<times> int) list \<Rightarrow> bool" where
  "charges_ok m \<longleftrightarrow> distinct (map fst m) \<and> (\<forall>k v. map_of m k = Some v \<longrightarrow> 0 \<le> v)"

lemma charges_ok_update: "charges_ok m \<Longrightarrow> 0 \<le> v \<Longrightarrow> charges_ok (AList.update k v m)"
  by (auto simp: charges_ok_def distinct_update update_conv' split: if_splits)

lemma charges_ok_delete: "charges_ok m \<Longrightarrow> charges_ok (AList.delete k m)"
  by (auto simp: charges_ok_def distinct_delete delete_conv' split: if_splits)

lemma charges_nonneg: "charges_ok m \<Longrightarrow> 0 \<le> charges m"
proof -
  assume ok: "charges_ok m"
  have "0 \<le> snd x" if "x \<in> set m" for x
    using that ok map_of_is_SomeI [of m "fst x" "snd x"] unfolding charges_ok_def by (metis prod.collapse)
  then show ?thesis unfolding charges_def by (rule sum_list_nonneg_int)
qed

lemma charge_of_nonneg: "charges_ok m \<Longrightarrow> 0 \<le> charge_of m k"
  by (cases k) (auto simp: charges_ok_def charge_of_def split: option.splits)

section \<open>The grant loop\<close>

text \<open>
  One pass admits in arrival order whatever fits: the total grows by what was admitted, stays
  within the limit, matches the charges, and nobody who fits is left behind.
\<close>

lemma grant_scan_ok:
  assumes "grant_scan l ws acc act = (kept, acc', act', adm)" and "acc \<le> l"
    and "\<forall>w \<in> set ws. 0 < w_n w" and "charges_ok act"
  shows "acc \<le> acc' \<and> acc' \<le> l \<and> charges act' - charges act = acc' - acc \<and> charges_ok act' \<and>
    set kept \<subseteq> set ws \<and> (\<forall>w \<in> set kept. acc' + w_n w > l)"
  using assms
proof (induction l ws acc act arbitrary: kept acc' act' adm rule: grant_scan.induct)
  case (1 l acc act)
  then show ?case by simp
next
  case (2 l w ws acc act)
  show ?case
  proof (cases "acc + w_n w > l")
    case True
    obtain kept1 where r: "grant_scan l ws acc act = (kept1, acc', act', adm)" and k: "kept = w # kept1"
      using 2(3) True by (auto split: prod.splits)
    show ?thesis using 2(1) [OF True r] 2(4-6) True k by auto
  next
    case False
    let ?act = "AList.update (w_key w) (charge_of act (w_key w) + w_n w) act"
    obtain adm1 where r: "grant_scan l ws (acc + w_n w) ?act = (kept, acc', act', adm1)"
      using 2(3) False by (auto split: prod.splits)
    have ok: "charges_ok ?act" and ch: "charges ?act = charges act + w_n w"
      using 2(5,6) charges_ok_update [OF 2(6)] charge_of_nonneg [OF 2(6), of "w_key w"]
      by (simp_all add: charges_update charges_ok_def [of act])
    show ?thesis using 2(2) [OF False r] 2(4-6) False ok ch by auto
  qed
qed

text \<open>Fairness: a waiter is overtaken only by a strictly smaller request.\<close>

lemma grant_scan_adm:
  "grant_scan l ws acc act = (kept, acc', act', adm) \<Longrightarrow> set adm \<subseteq> w_id ` set ws"
  by (induction l ws acc act arbitrary: kept acc' act' adm rule: grant_scan.induct)
    (fastforce split: if_splits prod.splits)+

lemma grant_scan_fits:
  assumes "grant_scan l ws acc act = (kept, acc', act', adm)" and "v \<in> set ws" and "w_id v \<in> set adm"
    and "distinct (map w_id ws)" and "\<forall>w \<in> set ws. 0 < w_n w"
  shows "acc + w_n v \<le> l"
  using assms
proof (induction l ws acc act arbitrary: kept acc' act' adm rule: grant_scan.induct)
  case (1 l acc act)
  then show ?case by simp
next
  case (2 l u us acc act)
  show ?case
  proof (cases "acc + w_n u > l")
    case True
    then obtain k1 where r: "grant_scan l us acc act = (k1, acc', act', adm)"
      using 2(3) by (auto split: prod.splits)
    have "w_id v \<in> w_id ` set us" using grant_scan_adm [OF r] 2(5) by blast
    then have "v \<noteq> u" using 2(6) by auto
    then show ?thesis using 2(1) [OF True r _ 2(5)] 2(4,6,7) by auto
  next
    case le: False
    then obtain a1 where r: "grant_scan l us (acc + w_n u)
        (AList.update (w_key u) (charge_of act (w_key u) + w_n u) act) = (kept, acc', act', a1)"
      and a: "adm = w_id u # a1" using 2(3) by (auto split: prod.splits)
    show ?thesis
    proof (cases "v = u")
      case True
      then show ?thesis using le by simp
    next
      case False
      then have v: "v \<in> set us" using 2(4) by simp
      then have "w_id v \<in> w_id ` set us" by simp
      then have "w_id v \<in> set a1" using 2(5,6) a by auto
      then show ?thesis using 2(2) [OF le r v] 2(6,7) by auto
    qed
  qed
qed

lemma grant_scan_fair:
  assumes "grant_scan l (xs @ u # ys) acc act = (kept, acc', act', adm)" and "v \<in> set ys"
    and "w_id v \<in> set adm" and "w_id u \<notin> set adm"
    and "distinct (map w_id (xs @ u # ys))" and "\<forall>w \<in> set (xs @ u # ys). 0 < w_n w"
  shows "w_n v < w_n u"
  using assms
proof (induction xs arbitrary: acc act kept acc' act' adm)
  case Nil
  have big: "acc + w_n u > l" using Nil(1,4) by (auto split: if_splits prod.splits)
  then obtain k1 where r: "grant_scan l ys acc act = (k1, acc', act', adm)"
    using Nil(1) by (auto split: prod.splits)
  show ?case using grant_scan_fits [OF r Nil(2,3)] Nil(5,6) big by auto
next
  case (Cons x xs)
  show ?case
  proof (cases "acc + w_n x > l")
    case True
    then obtain k1 where r: "grant_scan l (xs @ u # ys) acc act = (k1, acc', act', adm)"
      using Cons(2) by (auto split: prod.splits)
    show ?thesis using Cons.IH [OF r] Cons.prems by auto
  next
    case False
    then obtain a1 where r: "grant_scan l (xs @ u # ys) (acc + w_n x)
        (AList.update (w_key x) (charge_of act (w_key x) + w_n x) act) = (kept, acc', act', a1)"
      and a: "adm = w_id x # a1" using Cons(2) by (auto split: prod.splits)
    have "w_id x \<notin> w_id ` set ys" using Cons(6) by simp
    then have "w_id v \<noteq> w_id x" using Cons(3) by (metis imageI)
    then have "w_id v \<in> set a1" "w_id u \<notin> set a1" using Cons(4,5) a by auto
    then show ?thesis using Cons.IH [OF r Cons(3)] Cons.prems by auto
  qed
qed

section \<open>Invariant\<close>

definition budget_inv :: "sessionBufferBudget \<Rightarrow> bool" where
  "budget_inv b \<longleftrightarrow>
     charges_ok (active b) \<and> accounted b = charges (active b) \<and> 0 \<le> accounted b \<and>
     (0 < b_limit b \<longrightarrow> accounted b \<le> b_limit b) \<and>
     (\<forall>w \<in> set (waiters b). 0 < w_n w \<and> accounted b + w_n w > b_limit b) \<and>
     (b_limit b \<le> 0 \<longrightarrow> waiters b = [] \<and> accounted b = 0 \<and> (\<forall>k v. map_of (active b) k = Some v \<longrightarrow> v = 0)) \<and>
     (b_closed b \<longrightarrow> active b = [] \<and> waiters b = [])"

lemma grant_inv:
  assumes "charges_ok (active b)" and "accounted b = charges (active b)" and "0 \<le> accounted b"
    and "0 < b_limit b" and "accounted b \<le> b_limit b" and "\<forall>w \<in> set (waiters b). 0 < w_n w"
    and "\<not> b_closed b"
  shows "budget_inv (grantWaitersLocked b)"
proof -
  obtain kept acc act adm
    where g: "grant_scan (b_limit b) (waiters b) (accounted b) (active b) = (kept, acc, act, adm)"
    by (metis prod.exhaust)
  have "grantWaitersLocked b =
      b\<lparr>waiters := kept, accounted := acc, active := act, admitted := admitted b @ adm\<rparr>"
    using assms(4,7) by (simp add: grantWaitersLocked_def g)
  then show ?thesis
    using grant_scan_ok [OF g] assms by (auto simp: budget_inv_def)
qed

lemma grant_idle: "b_limit b \<le> 0 \<Longrightarrow> grantWaitersLocked b = b" "b_closed b \<Longrightarrow> grantWaitersLocked b = b"
  by (simp_all add: grantWaitersLocked_def)

lemma inv_charge: "budget_inv b \<Longrightarrow> budget_inv (snd (chargeWait_begin k n d b))"
  by (auto simp: chargeWait_begin_def Let_def budget_inv_def [of b] intro!: grant_inv)

lemma inv_cancel:
  assumes "budget_inv b" shows "budget_inv (snd (chargeWait_cancel i b))"
proof (cases "b_closed b \<or> b_limit b \<le> 0")
  case True
  then have "waiters b = []" using assms by (auto simp: budget_inv_def)
  then have "removeWaiterLocked i b = b" by (simp add: removeWaiterLocked_def)
  then show ?thesis using True assms grant_idle by (auto simp: chargeWait_cancel_def)
next
  case False
  then show ?thesis
    using assms
    by (auto simp: chargeWait_cancel_def removeWaiterLocked_def budget_inv_def [of b] intro!: grant_inv)
qed

lemma inv_refund:
  assumes "budget_inv b" shows "budget_inv (snd (refund k n b))"
proof (cases "n \<le> 0 \<or> b_limit b \<le> 0 \<or> b_closed b")
  case True
  then show ?thesis using assms by (auto simp: refund_def)
next
  case False
  have ok: "charges_ok (active b)" using assms by (simp add: budget_inv_def)
  let ?m = "if n > charge_of (active b) k then charge_of (active b) k else n"
  have m: "0 \<le> ?m" "?m \<le> charge_of (active b) k"
    using False charge_of_nonneg [OF ok, of k] by auto
  have up: "charges (AList.update k (charge_of (active b) k - ?m) (active b)) = charges (active b) - ?m"
    using ok by (simp add: charges_update charges_ok_def)
  have ok': "charges_ok (AList.update k (charge_of (active b) k - ?m) (active b))"
    using charges_ok_update [OF ok] m by simp
  have nn: "0 \<le> charges (AList.update k (charge_of (active b) k - ?m) (active b))"
    using ok' charges_nonneg by simp
  show ?thesis
    using assms False m up ok' nn
    by (auto simp: refund_def Let_def budget_inv_def [of b] intro!: grant_inv simp del: charges_update)
qed

lemma inv_begin:
  assumes "budget_inv b" and "map_of (active b) k = None"
  shows "budget_inv (begin_relay k b)"
proof (cases "b_closed b")
  case True
  then show ?thesis using assms(1) by (simp add: begin_relay_def)
next
  case False
  have ok: "charges_ok (active b)" using assms(1) by (simp add: budget_inv_def)
  have "charges_ok (AList.update k 0 (active b))" by (rule charges_ok_update [OF ok]) simp
  moreover have "charges (AList.update k 0 (active b)) = charges (active b)"
    using ok assms(2) by (simp add: charges_update charges_ok_def charge_of_def)
  ultimately show ?thesis
    using assms(1) False by (auto simp: begin_relay_def budget_inv_def update_conv' split: if_splits)
qed

lemma inv_end:
  assumes "budget_inv b" shows "budget_inv (snd (end_relay k b))"
proof (cases "map_of (active b) k")
  case None
  then show ?thesis using assms by (simp add: end_relay_def)
next
  case (Some cur)
  have ok: "charges_ok (active b)" and nc: "\<not> b_closed b"
    using assms Some by (auto simp: budget_inv_def)
  have cur: "charge_of (active b) k = cur" "0 \<le> cur" using Some charge_of_nonneg [OF ok, of k]
    by (simp_all add: charge_of_def)
  have del: "charges (AList.delete k (active b)) = charges (active b) - cur"
    using ok cur by (simp add: charges_delete charges_ok_def)
  have ok': "charges_ok (AList.delete k (active b))" using charges_ok_delete [OF ok] .
  have nn: "0 \<le> charges (AList.delete k (active b))" by (rule charges_nonneg [OF ok'])
  show ?thesis
  proof (cases "0 < b_limit b \<and> 0 < cur")
    case True
    then show ?thesis
      using assms Some nc del ok' nn
      by (auto simp: end_relay_def Let_def budget_inv_def [of b] intro!: grant_inv)
  next
    case False
    then have "cur = 0" using assms Some cur(2) by (auto simp: budget_inv_def)
    then show ?thesis
      using assms Some nc del ok' False
      by (auto simp: end_relay_def budget_inv_def delete_conv' split: if_splits)
  qed
qed

lemma inv_Close: "budget_inv b \<Longrightarrow> budget_inv (snd (budget_Close b))"
  by (auto simp: budget_Close_def budget_inv_def charges_def charges_ok_def Let_def)

lemma budget_inv_step: "budget_inv b \<Longrightarrow> budget_do p b = Some b' \<Longrightarrow> budget_inv b'"
  by (cases p) (auto split: if_splits intro: inv_begin inv_charge inv_cancel inv_refund inv_end inv_Close)

interpretation budget_sys: run_system budget_do budget_run
  by unfold_locales simp_all

lemma budget_inv_run: "budget_inv b \<Longrightarrow> budget_run ps b = Some b' \<Longrightarrow> budget_inv b'"
  by (erule budget_sys.exec_inv) (auto dest: budget_inv_step)

lemma budget_inv_new: "budget_inv (newSessionBufferBudget l)"
  by (simp add: newSessionBufferBudget_def budget_inv_def charges_ok_def)

text \<open>Waiter numbers are distinct.\<close>

definition ids_ok :: "sessionBufferBudget \<Rightarrow> bool" where
  "ids_ok b \<longleftrightarrow> distinct (map w_id (waiters b)) \<and> (\<forall>w \<in> set (waiters b). w_id w < w_seq b)"

lemma grant_scan_kept:
  "grant_scan l ws acc act = (kept, acc', act', adm) \<Longrightarrow>
     set kept \<subseteq> set ws \<and> (distinct (map w_id ws) \<longrightarrow> distinct (map w_id kept))"
  by (induction l ws acc act arbitrary: kept acc' act' adm rule: grant_scan.induct)
    (fastforce split: if_splits prod.splits)+

lemma ids_grant: "ids_ok b \<Longrightarrow> ids_ok (grantWaitersLocked b)"
  by (auto simp: grantWaitersLocked_def ids_ok_def dest: grant_scan_kept split: prod.splits)

lemma ids_filter: "ids_ok b \<Longrightarrow> ids_ok (removeWaiterLocked i b)"
  by (auto simp: removeWaiterLocked_def ids_ok_def distinct_map_filter)

lemma ids_same:
  "ids_ok b \<Longrightarrow> waiters b' = waiters b \<Longrightarrow> w_seq b' = w_seq b \<Longrightarrow> ids_ok b'"
  by (simp add: ids_ok_def)

lemma ids_enqueue:
  "ids_ok b \<Longrightarrow> ids_ok (b\<lparr>waiters := waiters b @ [\<lparr>w_key = k, w_n = n, w_id = w_seq b\<rparr>], w_seq := w_seq b + 1\<rparr>)"
  by (auto simp: ids_ok_def less_Suc_eq)

lemma ids_step: "ids_ok b \<Longrightarrow> budget_do p b = Some b' \<Longrightarrow> ids_ok b'"
  by (cases p)
    (auto simp: begin_relay_def chargeWait_begin_def chargeWait_cancel_def refund_def end_relay_def
      budget_Close_def Let_def split: if_splits option.splits
      intro!: ids_grant ids_enqueue ids_filter intro: ids_same simp: ids_ok_def [of "_\<lparr>waiters := []\<rparr>"])

lemma ids_run: "ids_ok b \<Longrightarrow> budget_run ps b = Some b' \<Longrightarrow> ids_ok b'"
  by (erule budget_sys.exec_inv) (auto dest: ids_step)

section \<open>Properties\<close>

text \<open>C22. The aggregate budget holds: after any sequence of registrations, charges, cancellations,
  refunds, deregistrations and close, the gauge is exactly the sum of the relays' charges,
  lies between zero and the limit, no relay has a negative charge, and no request that would
  fit is left waiting; once closed, nothing is charged and nobody waits.\<close>

theorem budget_accounting:
  assumes "0 < l" and "budget_run ps (newSessionBufferBudget l) = Some b"
  shows "accounted b = (\<Sum>x\<leftarrow>active b. snd x) \<and> 0 \<le> accounted b \<and> accounted b \<le> b_limit b \<and>
    (\<forall>k v. map_of (active b) k = Some v \<longrightarrow> 0 \<le> v) \<and>
    (\<forall>w \<in> set (waiters b). accounted b + w_n w > b_limit b) \<and>
    (b_closed b \<longrightarrow> accounted b = 0 \<and> active b = [] \<and> waiters b = [])"
proof -
  have "budget_inv b" by (rule budget_inv_run [OF budget_inv_new assms(2)])
  moreover have "b_limit b = l"
  proof -
    have step: "budget_do p c = Some c' \<Longrightarrow> b_limit c' = b_limit c" for p c c'
      by (cases p) (auto simp: begin_relay_def chargeWait_begin_def chargeWait_cancel_def refund_def
          end_relay_def budget_Close_def grantWaitersLocked_def removeWaiterLocked_def Let_def
          split: if_splits option.splits prod.splits)
    have "b_limit b = b_limit (newSessionBufferBudget l)"
      using assms(2) by (rule budget_sys.exec_inv [where I = "\<lambda>c. b_limit c = b_limit (newSessionBufferBudget l)"])
        (auto dest: step)
    then show ?thesis by (simp add: newSessionBufferBudget_def)
  qed
  ultimately show ?thesis
    using assms(1) by (auto simp: budget_inv_def charges_ok_def charges_def)
qed

definition demo_ops :: "budget_op list" where
  "demo_ops = [BBegin (0, True), BBegin (1, True), BCharge (0, True) 8 False, BCharge (1, True) 5 False,
     BCharge (0, True) 2 False]"

lemma demo_ops_run:
  "\<exists>b. budget_run demo_ops (newSessionBufferBudget 10) = Some b \<and> accounted b = 10 \<and>
     map w_n (waiters b) = [5] \<and> admitted b = [0, 2]"
  by (simp add: demo_ops_def newSessionBufferBudget_def begin_relay_def chargeWait_begin_def
      grantWaitersLocked_def charge_of_def)

theorem budget_accounting_witness:
  "\<exists>b. budget_run demo_ops (newSessionBufferBudget 10) = Some b \<and> accounted b = 10 \<and>
     accounted b = (\<Sum>x\<leftarrow>active b. snd x) \<and> accounted b \<le> b_limit b"
  using demo_ops_run budget_accounting [of 10 demo_ops] by fastforce

text \<open>Admission is fair: in any reachable state, when a grant admits a request that arrived after
  one it leaves waiting, the later one is strictly smaller; so requests of equal size are
  admitted in arrival order, and a request is only overtaken by what fits beside it.\<close>

lemma budget_fair:
  assumes "0 < l" and "budget_run ps (newSessionBufferBudget l) = Some b0"
    and "b = b0\<lparr>accounted := a, active := act\<rparr>" and "waiters b = xs @ u # ys" and "v \<in> set ys"
    and "admitted (grantWaitersLocked b) = admitted b @ adm" and "w_id v \<in> set adm" and "w_id u \<notin> set adm"
  shows "w_n v < w_n u"
proof -
  have ids: "distinct (map w_id (waiters b))"
    using ids_run [of "newSessionBufferBudget l"] assms(2,3)
    by (auto simp: ids_ok_def newSessionBufferBudget_def)
  have pos: "\<forall>w \<in> set (waiters b). 0 < w_n w"
    using budget_inv_run [OF budget_inv_new assms(2)] assms(3) by (auto simp: budget_inv_def)
  obtain kept acc act' adm' where g: "grant_scan (b_limit b) (xs @ u # ys) (accounted b) (active b) = (kept, acc, act', adm')"
    by (metis prod.exhaust)
  have "adm = adm' \<or> adm = []"
    using assms(4,6) by (auto simp: grantWaitersLocked_def g split: if_splits)
  then have "adm = adm'" using assms(7) by auto
  then show ?thesis
    using grant_scan_fair [OF g assms(5)] assms(4,7,8) ids pos by simp
qed

lemma budget_fair_witness:
  "w_n \<lparr>w_key = (1, True), w_n = 3, w_id = 2\<rparr> < w_n \<lparr>w_key = (0, True), w_n = 6, w_id = 1\<rparr>"
proof -
  let ?ps = "[BBegin (0, True), BBegin (1, True), BCharge (0, True) 10 False,
     BCharge (0, True) 6 False, BCharge (1, True) 3 False]"
  let ?u = "\<lparr>w_key = (0, True), w_n = 6, w_id = 1\<rparr>" and ?v = "\<lparr>w_key = (1, True), w_n = 3, w_id = 2\<rparr>"
  obtain b0 where run: "budget_run ?ps (newSessionBufferBudget 10) = Some b0"
    and b0: "waiters b0 = [] @ ?u # [?v]" "b_limit b0 = 10" "\<not> b_closed b0" "admitted b0 = [0]"
    by (simp add: newSessionBufferBudget_def begin_relay_def chargeWait_begin_def
        grantWaitersLocked_def charge_of_def)
  let ?b = "b0\<lparr>accounted := 5, active := [((0, True), 5), ((1, True), 0)]\<rparr>"
  have adm: "admitted (grantWaitersLocked ?b) = admitted ?b @ [2]"
    using b0 by (simp add: grantWaitersLocked_def charge_of_def)
  show ?thesis
    by (rule budget_fair [OF _ run refl _ _ adm, where xs = "[]" and ys = "[?v]"]) (use b0 in simp_all)
qed

end
