(* ===== verification/Credit.thy ===== *)
theory Credit
  imports Frame
begin

text \<open>
  The credit plane of \<^verbatim>\<open>src/pkg/node/credit.go\<close>: the sender's ledger that gates how much
  may be in flight, the registry of ledgers with the fallback timers, and the receiver's
  cumulative emitter.

  Each method holds its lock for the state it reads and writes and is one step; the two
  waits (\<open>creditPark\<close>'s select, the timers) are the channel or timer they wait for.
  Byte totals are natural numbers (a \<open>uint64\<close> total of issued bytes cannot wrap in
  practice); values that come from the wire are words, and the conversions of the code
  (\<open>uint32(capBytes)\<close>, the 64-bit total on the wire) are written out.
\<close>

abbreviation creditWindowMax :: nat where "creditWindowMax \<equiv> 524288"
abbreviation creditUnackedAllowance :: nat where "creditUnackedAllowance \<equiv> 131072"
abbreviation creditPreLatchBound :: nat where "creditPreLatchBound \<equiv> 655360"
abbreviation CreditSafeWindow :: nat where "CreditSafeWindow \<equiv> 65535"
abbreviation creditBatchBytes :: nat where "creditBatchBytes \<equiv> 65535"
abbreviation creditBatchMaxAge :: int where "creditBatchMaxAge \<equiv> 100000000"

section \<open>The sender's ledger\<close>

record creditLedger =
  outstanding :: nat
  lastSeen :: nat
  cr_window :: u32
  latched :: bool
  safelyCapped :: bool
  cr_gen :: u64
  cr_ready :: "nat option"
  cr_nWaiters :: nat
  cr_chanSeq :: nat

definition new_ledger :: "u64 \<Rightarrow> creditLedger" where
  "new_ledger gen = \<lparr>outstanding = 0, lastSeen = 0, cr_window = word_of_nat creditWindowMax, latched = False,
     safelyCapped = False, cr_gen = gen, cr_ready = None, cr_nWaiters = 0, cr_chanSeq = 0\<rparr>"

definition cr_wakeLocked :: "creditLedger \<Rightarrow> creditLedger" where
  "cr_wakeLocked l = (if cr_nWaiters l > 0 then l\<lparr>cr_ready := None, cr_nWaiters := 0\<rparr> else l)"

definition gate_limit :: "creditLedger \<Rightarrow> nat \<Rightarrow> nat" where
  "gate_limit l capBytes =
     (let limit = (if latched l
                   then (if safelyCapped l then CreditSafeWindow
                         else unat (cr_window l) + creditUnackedAllowance)
                   else creditPreLatchBound)
      in if limit > capBytes then capBytes else limit)"

definition canSendLocked :: "nat \<Rightarrow> nat \<Rightarrow> creditLedger \<Rightarrow> bool" where
  "canSendLocked chunk capBytes l \<longleftrightarrow> outstanding l + chunk \<le> gate_limit l capBytes"

definition recordSent :: "nat \<Rightarrow> creditLedger \<Rightarrow> creditLedger" where
  "recordSent n l = l\<lparr>outstanding := outstanding l + n\<rparr>"

definition onCredit :: "CreditPayload \<Rightarrow> u64 \<Rightarrow> nat \<Rightarrow> creditLedger \<Rightarrow> bool \<times> creditLedger" where
  "onCredit p arrivingGen capBytes l =
     (if StaleCreditGeneration (Gen p) arrivingGen then (False, l)
      else if Gen p \<noteq> cr_gen l then (False, l)
      else if unat (BytesConsumed p) < lastSeen l then (False, l)
      else (let consumed0 = unat (BytesConsumed p) - lastSeen l;
                consumed = (if consumed0 > outstanding l then outstanding l else consumed0);
                lowered = (consumed > 0);
                l1 = l\<lparr>outstanding := outstanding l - consumed, lastSeen := unat (BytesConsumed p)\<rparr>;
                l2 = (if latched l1
                      then l1\<lparr>cr_window := ClampCreditWindow (WindowGranted p) (word_of_nat capBytes),
                              safelyCapped := False\<rparr>
                      else l1);
                l3 = l2\<lparr>latched := True\<rparr>
            in (True, if lowered then cr_wakeLocked l3 else l3)))"

definition ledger_reset :: "u64 \<Rightarrow> creditLedger \<Rightarrow> creditLedger" where
  "ledger_reset gen l = l\<lparr>outstanding := 0, lastSeen := 0, latched := False, safelyCapped := False,
     cr_gen := gen, cr_window := word_of_nat creditWindowMax, cr_ready := None, cr_nWaiters := 0\<rparr>"

definition latchSafelyCapped :: "creditLedger \<Rightarrow> creditLedger" where
  "latchSafelyCapped l = l\<lparr>latched := True, safelyCapped := True, cr_window := word_of_nat CreditSafeWindow\<rparr>"

text \<open>The locked part of \<open>creditPark\<close>: \<open>None\<close> when it returns at once, else the channel it
  waits on (with the context and the two-second timeout as the other ways out).\<close>

definition creditPark_begin :: "nat \<Rightarrow> nat \<Rightarrow> creditLedger \<Rightarrow> nat option \<times> creditLedger" where
  "creditPark_begin chunk capBytes l =
     (if canSendLocked chunk capBytes l then (None, l)
      else (let (r, l1) = (case cr_ready l of
                             Some c \<Rightarrow> (c, l)
                           | None \<Rightarrow> (cr_chanSeq l, l\<lparr>cr_ready := Some (cr_chanSeq l), cr_chanSeq := cr_chanSeq l + 1\<rparr>))
            in (Some r, l1\<lparr>cr_nWaiters := cr_nWaiters l1 + 1\<rparr>)))"

section \<open>The registry of ledgers\<close>

text \<open>A ledger carries a number, its identity as a pointer; timers are numbered likewise.\<close>

record creditGateManager =
  ledgers :: "u32 \<rightharpoonup> (nat \<times> creditLedger)"
  timers :: "u32 \<rightharpoonup> nat"
  gate_seq :: nat

definition newCreditGateManager :: creditGateManager where
  "newCreditGateManager = \<lparr>ledgers = Map.empty, timers = Map.empty, gate_seq = 0\<rparr>"

definition armTimerLocked :: "u32 \<Rightarrow> creditGateManager \<Rightarrow> creditGateManager" where
  "armTimerLocked sid g = g\<lparr>timers := (timers g)(sid \<mapsto> gate_seq g), gate_seq := gate_seq g + 1\<rparr>"

definition gate_ledger :: "u64 \<Rightarrow> u32 \<Rightarrow> creditGateManager \<Rightarrow> creditLedger \<times> creditGateManager" where
  "gate_ledger gen sid g =
     (case ledgers g sid of
        Some (i, l) \<Rightarrow> (l, g)
      | None \<Rightarrow>
          (new_ledger gen,
           armTimerLocked sid (g\<lparr>ledgers := (ledgers g)(sid \<mapsto> (gate_seq g, new_ledger gen)),
                                 gate_seq := gate_seq g + 1\<rparr>)))"

definition upd_ledger :: "u32 \<Rightarrow> (creditLedger \<Rightarrow> creditLedger) \<Rightarrow> creditGateManager \<Rightarrow> creditGateManager" where
  "upd_ledger sid f g =
     (case ledgers g sid of
        None \<Rightarrow> g
      | Some (i, l) \<Rightarrow> g\<lparr>ledgers := (ledgers g)(sid \<mapsto> (i, f l))\<rparr>)"

definition gate_resetStream :: "u64 \<Rightarrow> u32 \<Rightarrow> creditGateManager \<Rightarrow> creditGateManager" where
  "gate_resetStream gen sid g =
     (let g1 = (case ledgers g sid of
                  Some _ \<Rightarrow> g
                | None \<Rightarrow> g\<lparr>ledgers := (ledgers g)(sid \<mapsto> (gate_seq g, new_ledger gen)),
                            gate_seq := gate_seq g + 1\<rparr>)
      in upd_ledger sid (ledger_reset gen) (armTimerLocked sid g1))"

text \<open>The callback of timer \<open>t\<close>, armed for ledger \<open>i\<close> of the stream.\<close>

definition timer_fires :: "u32 \<Rightarrow> nat \<Rightarrow> nat \<Rightarrow> creditGateManager \<Rightarrow> creditGateManager" where
  "timer_fires sid t i g =
     (case ledgers g sid of
        None \<Rightarrow> g
      | Some (j, l) \<Rightarrow>
          if timers g sid = Some t \<and> i = j then upd_ledger sid latchSafelyCapped g else g)"

definition cancelTimer :: "u32 \<Rightarrow> creditGateManager \<Rightarrow> creditGateManager" where
  "cancelTimer sid g = g\<lparr>timers := (timers g)(sid := None)\<rparr>"

definition gate_removeStream :: "u32 \<Rightarrow> creditGateManager \<Rightarrow> creditGateManager" where
  "gate_removeStream sid g = g\<lparr>timers := (timers g)(sid := None), ledgers := (ledgers g)(sid := None)\<rparr>"

section \<open>The receiver's emitter\<close>

record streamCredit =
  consumed :: nat
  pending_bytes :: nat
  peerGen :: u64
  lastEmit :: nat
  lastEmitTime :: int

text \<open>Records are keyed by carrier number and stream id.\<close>

type_synonym carrierKey = "nat \<times> u32"

record creditEmitter =
  recs :: "carrierKey \<rightharpoonup> streamCredit"
  em_maxBytes :: u32

definition newCreditEmitter :: "u32 \<Rightarrow> creditEmitter" where
  "newCreditEmitter mx = \<lparr>recs = Map.empty, em_maxBytes = mx\<rparr>"

definition recordLocked :: "int \<Rightarrow> carrierKey \<Rightarrow> creditEmitter \<Rightarrow> streamCredit" where
  "recordLocked now k e =
     (case recs e k of
        Some rc \<Rightarrow> rc
      | None \<Rightarrow> \<lparr>consumed = 0, pending_bytes = 0, peerGen = 0, lastEmit = 0, lastEmitTime = now\<rparr>)"

definition recordPeerGen :: "int \<Rightarrow> carrierKey \<Rightarrow> u64 \<Rightarrow> creditEmitter \<Rightarrow> creditEmitter" where
  "recordPeerGen now k gen e = e\<lparr>recs := (recs e)(k \<mapsto> (recordLocked now k e)\<lparr>peerGen := gen\<rparr>)\<rparr>"

definition recordConsumed :: "int \<Rightarrow> carrierKey \<Rightarrow> nat \<Rightarrow> creditEmitter \<Rightarrow> bool \<times> creditEmitter" where
  "recordConsumed now k n e =
     (let rc0 = recordLocked now k e;
          rc = rc0\<lparr>consumed := consumed rc0 + n, pending_bytes := pending_bytes rc0 + n\<rparr>
      in (pending_bytes rc \<ge> creditBatchBytes \<or> now - lastEmitTime rc \<ge> creditBatchMaxAge,
          e\<lparr>recs := (recs e)(k \<mapsto> rc)\<rparr>))"

definition buildPayload :: "streamCredit \<Rightarrow> bool \<Rightarrow> creditEmitter \<Rightarrow> CreditPayload" where
  "buildPayload rc final e =
     \<lparr>Version = CreditVersion, Gen = peerGen rc, BytesConsumed = word_of_nat (consumed rc),
      WindowGranted = ClampCreditWindow (word_of_nat creditWindowMax) (em_maxBytes e),
      Flags = (if final then CreditFlagsFinal else 0), Reserved = replicate 10 0\<rparr>"

text \<open>The payload handed to \<open>TryWriteControlFrame\<close>, if any; whether it is sent or dropped on
  a full control queue does not come back into the record.\<close>

definition emit_credit :: "int \<Rightarrow> carrierKey \<Rightarrow> bool \<Rightarrow> creditEmitter \<Rightarrow> CreditPayload option \<times> creditEmitter" where
  "emit_credit now k final e =
     (let rc = recordLocked now k e; e1 = e\<lparr>recs := (recs e)(k \<mapsto> rc)\<rparr>
      in if pending_bytes rc = 0 \<and> \<not> final then (None, e1)
         else (Some (buildPayload rc final e),
               e\<lparr>recs := (recs e)(k \<mapsto> rc\<lparr>lastEmit := consumed rc, pending_bytes := 0, lastEmitTime := now\<rparr>)\<rparr>))"

definition finalize :: "int \<Rightarrow> carrierKey \<Rightarrow> creditEmitter \<Rightarrow> CreditPayload option \<times> creditEmitter" where
  "finalize now k e = emit_credit now k True e"

definition emitAnchor :: "int \<Rightarrow> carrierKey \<Rightarrow> creditEmitter \<Rightarrow> CreditPayload \<times> creditEmitter" where
  "emitAnchor now k e =
     (let rc = recordLocked now k e
      in (\<lparr>Version = CreditVersion, Gen = peerGen rc, BytesConsumed = 0,
           WindowGranted = ClampCreditWindow (word_of_nat creditWindowMax) (em_maxBytes e),
           Flags = 0, Reserved = replicate 10 0\<rparr>,
          e\<lparr>recs := (recs e)(k \<mapsto> rc)\<rparr>))"

definition emitter_resetStream :: "carrierKey \<Rightarrow> creditEmitter \<Rightarrow> creditEmitter" where
  "emitter_resetStream k e = e\<lparr>recs := (recs e)(k := None)\<rparr>"

definition emitter_removeStream :: "carrierKey \<Rightarrow> creditEmitter \<Rightarrow> creditEmitter" where
  "emitter_removeStream k e = e\<lparr>recs := (recs e)(k := None)\<rparr>"

text \<open>
  What the download relay does after a complete, error-free socket write of \<open>n\<close> bytes: charge
  them, and emit when a batch is due (the clock is read once by each call). \<open>consume_all\<close>
  is the relay over a sequence of frames; it collects the emitted credits.
\<close>

definition consume_frame ::
    "carrierKey \<Rightarrow> int \<times> int \<times> nat \<Rightarrow> creditEmitter \<Rightarrow> CreditPayload option \<times> creditEmitter" where
  "consume_frame k f e =
     (case f of (t1, t2, n) \<Rightarrow>
        let (due, e1) = recordConsumed t1 k n e
        in if due then emit_credit t2 k False e1 else (None, e1))"

fun consume_all ::
    "carrierKey \<Rightarrow> (int \<times> int \<times> nat) list \<Rightarrow> creditEmitter \<Rightarrow> CreditPayload list \<times> creditEmitter" where
  "consume_all k [] e = ([], e)"
| "consume_all k (f # fs) e =
     (let (p, e1) = consume_frame k f e; (ps, e2) = consume_all k fs e1
      in (case p of Some c \<Rightarrow> c # ps | None \<Rightarrow> ps, e2))"

section \<open>Runs of a ledger\<close>

text \<open>
  A gated sender and its ledger. \<open>LGate\<close> is the relay's \<open>canSend\<close> for one chunk, which admits
  that much; \<open>LSent\<close> is a write of at most what is still admitted; credits, the fallback
  timer and resets come in between in any order. The third part counts the bytes sent since
  the last reset. A credit of the current generation reports at most those bytes
  (it comes from an emitter that counts what it received); all others are unconstrained.
\<close>

datatype ledger_op = LGate nat | LSent nat | LCredit CreditPayload u64 | LCap | LReset u64

type_synonym ledger_st = "creditLedger \<times> nat \<times> nat"

fun ledger_do :: "nat \<Rightarrow> ledger_op \<Rightarrow> ledger_st \<Rightarrow> ledger_st option" where
  "ledger_do cap (LGate chunk) (l, adm, sent) =
     (if canSendLocked chunk cap l then Some (l, chunk, sent) else Some (l, 0, sent))"
| "ledger_do cap (LSent n) (l, adm, sent) =
     (if n \<le> adm then Some (recordSent n l, adm - n, sent + n) else None)"
| "ledger_do cap (LCredit p g) (l, adm, sent) =
     (if Gen p = cr_gen l \<and> sent < unat (BytesConsumed p) then None
      else Some (snd (onCredit p g cap l), adm, sent))"
| "ledger_do cap LCap (l, adm, sent) = Some (latchSafelyCapped l, adm, sent)"
| "ledger_do cap (LReset g) (l, adm, sent) = Some (ledger_reset g l, adm, 0)"

fun ledger_run :: "nat \<Rightarrow> ledger_op list \<Rightarrow> ledger_st \<Rightarrow> ledger_st option" where
  "ledger_run cap [] s = Some s"
| "ledger_run cap (p # ps) s = (case ledger_do cap p s of None \<Rightarrow> None | Some s1 \<Rightarrow> ledger_run cap ps s1)"

lemma gate_limit_le: "gate_limit l cap \<le> cap"
  by (simp add: gate_limit_def Let_def)

lemma wake_sel [simp]:
  "outstanding (cr_wakeLocked l) = outstanding l" "lastSeen (cr_wakeLocked l) = lastSeen l"
  "cr_window (cr_wakeLocked l) = cr_window l" "latched (cr_wakeLocked l) = latched l"
  "safelyCapped (cr_wakeLocked l) = safelyCapped l" "cr_gen (cr_wakeLocked l) = cr_gen l"
  by (simp_all add: cr_wakeLocked_def)

text \<open>The effect of a credit on the accounting.\<close>

lemma onCredit_cases:
  assumes "onCredit p g cap l = (ok, l')"
  shows "(\<not> ok \<and> l' = l) \<or>
    (ok \<and> Gen p = g \<and> Gen p = cr_gen l \<and> lastSeen l \<le> unat (BytesConsumed p) \<and>
     lastSeen l' = unat (BytesConsumed p) \<and> cr_gen l' = cr_gen l \<and> latched l' \<and>
     outstanding l' = outstanding l - (unat (BytesConsumed p) - lastSeen l) \<and>
     cr_window l' = (if latched l then ClampCreditWindow (WindowGranted p) (word_of_nat cap) else cr_window l) \<and>
     safelyCapped l' = (\<not> latched l \<and> safelyCapped l))"
  using assms
  by (auto simp: onCredit_def StaleCreditGeneration_def Let_def split: if_splits)

section \<open>The ledger's invariant\<close>

fun ledger_inv :: "nat \<Rightarrow> ledger_st \<Rightarrow> bool" where
  "ledger_inv cap (l, adm, sent) \<longleftrightarrow>
     outstanding l + adm \<le> cap \<and> outstanding l + lastSeen l = sent \<and>
     unat (cr_window l) \<le> max creditWindowMax (cap mod 2 ^ 32)"

lemma unat_clamp: "unat (ClampCreditWindow w (word_of_nat cap)) \<le> cap mod 2 ^ 32"
  using ClampCreditWindow_le(1) [of w "word_of_nat cap"]
  by (simp add: word_le_nat_alt unat_of_nat take_bit_eq_mod)

lemma ledger_do_inv:
  assumes "ledger_inv cap s" and "ledger_do cap p s = Some s'"
  shows "ledger_inv cap s'"
proof -
  obtain l adm sent where s: "s = (l, adm, sent)" by (cases s)
  show ?thesis
  proof (cases p)
    case (LGate chunk)
    then show ?thesis using assms s gate_limit_le [of l cap]
      by (auto simp: canSendLocked_def split: if_splits)
  next
    case (LSent n)
    then show ?thesis using assms s by (auto simp: recordSent_def split: if_splits)
  next
    case (LCredit c g)
    obtain ok l1 where oc: "onCredit c g cap l = (ok, l1)" by fastforce
    show ?thesis
      using assms s LCredit oc onCredit_cases [OF oc] unat_clamp [of "WindowGranted c" cap]
      by (auto split: if_splits)
  qed (use assms s in \<open>auto simp: latchSafelyCapped_def ledger_reset_def\<close>)
qed

interpretation ledger_sys: run_system "ledger_do cap" "ledger_run cap" for cap
  by unfold_locales simp_all

lemma ledger_run_inv:
  "ledger_inv cap s \<Longrightarrow> ledger_run cap ps s = Some s' \<Longrightarrow> ledger_inv cap s'"
  by (erule ledger_sys.exec_inv) (auto dest: ledger_do_inv)

lemma new_ledger_inv: "ledger_inv cap (new_ledger g, 0, 0)"
  by (simp add: new_ledger_def)

text \<open>Only the largest report of a generation matters.\<close>

definition deliver_credits :: "nat \<Rightarrow> CreditPayload list \<Rightarrow> creditLedger \<Rightarrow> creditLedger" where
  "deliver_credits cap ps l = fold (\<lambda>p l. snd (onCredit p (cr_gen l) cap l)) ps l"

lemma onCredit_effect:
  assumes "Gen p = cr_gen l" and "l' = snd (onCredit p (cr_gen l) cap l)"
  shows "cr_gen l' = cr_gen l \<and> lastSeen l' = max (lastSeen l) (unat (BytesConsumed p)) \<and>
    outstanding l' = outstanding l - (lastSeen l' - lastSeen l)"
  using assms by (auto simp: onCredit_def StaleCreditGeneration_def Let_def)

lemma deliver_credits_effect:
  assumes "\<forall>p \<in> set ps. Gen p = cr_gen l"
  shows "lastSeen (deliver_credits cap ps l) = Max (insert (lastSeen l) ((\<lambda>p. unat (BytesConsumed p)) ` set ps)) \<and>
    outstanding (deliver_credits cap ps l) = outstanding l - (lastSeen (deliver_credits cap ps l) - lastSeen l)"
  using assms
proof (induction ps arbitrary: l)
  case Nil
  then show ?case by (simp add: deliver_credits_def)
next
  case (Cons p ps)
  define l1 where "l1 = snd (onCredit p (cr_gen l) cap l)"
  have eff: "cr_gen l1 = cr_gen l" "lastSeen l1 = max (lastSeen l) (unat (BytesConsumed p))"
      "outstanding l1 = outstanding l - (lastSeen l1 - lastSeen l)"
    using onCredit_effect [of p l l1 cap] Cons.prems by (simp_all add: l1_def)
  have step: "deliver_credits cap (p # ps) l = deliver_credits cap ps l1"
    by (simp add: deliver_credits_def l1_def)
  have ih: "lastSeen (deliver_credits cap ps l1) = Max (insert (lastSeen l1) ((\<lambda>p. unat (BytesConsumed p)) ` set ps))"
      "outstanding (deliver_credits cap ps l1) = outstanding l1 - (lastSeen (deliver_credits cap ps l1) - lastSeen l1)"
    using Cons.IH [of l1] Cons.prems eff(1) by simp_all
  have seen: "lastSeen (deliver_credits cap ps l1) =
      Max (insert (lastSeen l) ((\<lambda>p. unat (BytesConsumed p)) ` set (p # ps)))"
    unfolding ih(1) eff(2) by (cases "ps = []") (simp_all add: max.assoc)
  have mono: "lastSeen l1 \<le> lastSeen (deliver_credits cap ps l1)" unfolding ih(1) by simp
  have "outstanding (deliver_credits cap ps l1) =
      outstanding l - (lastSeen (deliver_credits cap ps l1) - lastSeen l)"
    using mono ih(2) eff(2,3) by linarith
  then show ?case using seen step by simp
qed



text \<open>C25. Cumulative credits tolerate loss, repetition and reordering: whatever subsequence of a
  generation's credits arrives, in whatever order and however often, the bytes in flight are
  lowered by exactly the largest reported total less what was known before (never below
  zero); two deliveries of the same set of credits leave the same amount in flight.\<close>

theorem credit_delivery_order_irrelevant:
  assumes "\<forall>p \<in> set ps. Gen p = cr_gen l" and "set qs = set ps"
  shows "outstanding (deliver_credits cap ps l) =
      outstanding l - (Max (insert (lastSeen l) ((\<lambda>p. unat (BytesConsumed p)) ` set ps)) - lastSeen l) \<and>
    outstanding (deliver_credits cap qs l) = outstanding (deliver_credits cap ps l)"
  using deliver_credits_effect [of ps l cap] deliver_credits_effect [of qs l cap] assms by simp

theorem credit_delivery_order_irrelevant_witness:
  "outstanding (deliver_credits 1048576
     [\<lparr>Version = 1, Gen = 3, BytesConsumed = 500, WindowGranted = 0, Flags = 0, Reserved = []\<rparr>,
      \<lparr>Version = 1, Gen = 3, BytesConsumed = 200, WindowGranted = 0, Flags = 0, Reserved = []\<rparr>]
     (recordSent 900 (new_ledger 3))) = 400"
proof -
  let ?ps = "[\<lparr>Version = 1, Gen = 3, BytesConsumed = 500, WindowGranted = 0, Flags = 0, Reserved = []\<rparr>,
      \<lparr>Version = 1, Gen = 3, BytesConsumed = 200, WindowGranted = 0, Flags = 0, Reserved = []\<rparr>]"
  let ?l = "recordSent 900 (new_ledger 3)"
  have gen: "\<forall>p \<in> set ?ps. Gen p = cr_gen ?l" by (simp add: recordSent_def new_ledger_def)
  have l: "outstanding ?l = 900" "lastSeen ?l = 0" by (simp_all add: recordSent_def new_ledger_def)
  have "outstanding (deliver_credits 1048576 ?ps ?l) =
      outstanding ?l - (Max (insert (lastSeen ?l) ((\<lambda>p. unat (BytesConsumed p)) ` set ?ps)) - lastSeen ?l)"
    by (rule credit_delivery_order_irrelevant [OF gen refl, THEN conjunct1])
  then show ?thesis unfolding l by simp
qed

section \<open>The emitter's invariant\<close>

definition rec_ok :: "u64 \<Rightarrow> nat \<Rightarrow> carrierKey \<Rightarrow> creditEmitter \<Rightarrow> bool" where
  "rec_ok g tot k e \<longleftrightarrow> (\<exists>rc. recs e k = Some rc \<and> peerGen rc = g \<and> consumed rc = tot \<and>
     consumed rc = lastEmit rc + pending_bytes rc \<and> pending_bytes rc < creditBatchBytes)"

definition good_credit :: "u64 \<Rightarrow> nat \<Rightarrow> CreditPayload \<Rightarrow> bool" where
  "good_credit g tot p \<longleftrightarrow> ValidateCreditPayload p = None \<and> Gen p = g \<and> BytesConsumed p = word_of_nat tot \<and>
     DecodeCreditPayload (EncodeCreditPayload p) = Inr p"

lemma buildPayload_good:
  assumes "peerGen rc \<noteq> 0"
  shows "good_credit (peerGen rc) (consumed rc) (buildPayload rc f e)"
proof -
  have "credit_wf (buildPayload rc f e)" by (simp add: credit_wf_def buildPayload_def)
  from credit_codec.dec_enc [OF this] assms show ?thesis
    by (simp add: good_credit_def ValidateCreditPayload_ok) (simp add: buildPayload_def)
qed

lemma consume_frame_ok:
  assumes "rec_ok g tot k e" and "consume_frame k (t1, t2, n) e = (p, e')" and "g \<noteq> 0"
  shows "rec_ok g (tot + n) k e' \<and> (\<forall>c. p = Some c \<longrightarrow> good_credit g (tot + n) c)"
proof -
  obtain rc where rc: "recs e k = Some rc" "peerGen rc = g" "consumed rc = tot"
      "consumed rc = lastEmit rc + pending_bytes rc" "pending_bytes rc < creditBatchBytes"
    using assms(1) by (auto simp: rec_ok_def)
  define r1 where "r1 = rc\<lparr>consumed := consumed rc + n, pending_bytes := pending_bytes rc + n\<rparr>"
  have good: "good_credit g (tot + n) (buildPayload r1 f e1)" for f e1
    using buildPayload_good [of r1 f e1] rc assms(3) by (simp add: r1_def)
  show ?thesis
    using assms(2) rc good
    by (auto simp: consume_frame_def recordConsumed_def recordLocked_def emit_credit_def rec_ok_def
        Let_def r1_def split: if_splits)
qed

lemma consume_all_ok:
  assumes "rec_ok g tot k e" and "consume_all k fs e = (ps, e')" and "g \<noteq> 0"
  shows "rec_ok g (tot + sum_list (map (snd \<circ> snd) fs)) k e' \<and>
    (\<forall>c \<in> set ps. \<exists>i \<le> length fs. good_credit g (tot + sum_list (map (snd \<circ> snd) (take i fs))) c)"
  using assms(1,2)
proof (induction fs arbitrary: e tot ps)
  case Nil
  then show ?case by simp
next
  case (Cons f fs)
  obtain t1 t2 n where f: "f = (t1, t2, n)" by (cases f)
  obtain p e1 where p: "consume_frame k f e = (p, e1)" by fastforce
  obtain qs where q: "consume_all k fs e1 = (qs, e')" and ps: "ps = (case p of Some c \<Rightarrow> c # qs | None \<Rightarrow> qs)"
    using Cons.prems(2) p by (auto split: prod.splits)
  have step: "rec_ok g (tot + n) k e1" "\<forall>c. p = Some c \<longrightarrow> good_credit g (tot + n) c"
    using consume_frame_ok [OF Cons.prems(1)] p f assms(3) by auto
  have ih: "rec_ok g (tot + n + sum_list (map (snd \<circ> snd) fs)) k e'"
      "\<forall>c \<in> set qs. \<exists>i \<le> length fs. good_credit g (tot + n + sum_list (map (snd \<circ> snd) (take i fs))) c"
    using Cons.IH [OF step(1) q] by blast+
  have "\<exists>i \<le> length (f # fs). good_credit g (tot + sum_list (map (snd \<circ> snd) (take i (f # fs)))) c"
    if "c \<in> set ps" for c
  proof (cases "p = Some c")
    case True
    then show ?thesis using step(2) f by (intro exI [of _ 1]) simp
  next
    case False
    then have "c \<in> set qs" using that ps by (auto split: option.splits)
    then obtain i where "i \<le> length fs" "good_credit g (tot + n + sum_list (map (snd \<circ> snd) (take i fs))) c"
      using ih(2) by blast
    then show ?thesis using f by (intro exI [of _ "Suc i"]) (simp add: add.assoc)
  qed
  then show ?case using ih(1) f by (simp add: add.assoc comp_def)
qed

text \<open>The receiver never over-acknowledges and never under-reports by a whole batch: once the
  peer generation \<open>g\<close> is stamped on a fresh record, every credit emitted while frames are
  written to the socket decodes on the wire to itself, passes the receiver's validation, carries
  \<open>g\<close> and a prefix sum of the bytes written; at the end all bytes are counted and fewer than
  one batch of them are not yet in an emitted credit.\<close>

lemma credit_emitter_truthful:
  assumes "recs e k = None" and "g \<noteq> 0"
    and "consume_all k fs (recordPeerGen now k g e) = (ps, e')"
  shows "(\<forall>c \<in> set ps. ValidateCreditPayload c = None \<and> DecodeCreditPayload (EncodeCreditPayload c) = Inr c \<and>
      Gen c = g \<and> (\<exists>i \<le> length fs. BytesConsumed c = word_of_nat (sum_list (map (snd \<circ> snd) (take i fs))))) \<and>
    (\<exists>rc. recs e' k = Some rc \<and> consumed rc = sum_list (map (snd \<circ> snd) fs) \<and>
      consumed rc - lastEmit rc < creditBatchBytes)"
proof -
  have "rec_ok g 0 k (recordPeerGen now k g e)"
    using assms(1) by (simp add: rec_ok_def recordPeerGen_def recordLocked_def)
  from consume_all_ok [OF this assms(3,2)]
  have ok: "rec_ok g (sum_list (map (snd \<circ> snd) fs)) k e'"
    "\<forall>c \<in> set ps. \<exists>i \<le> length fs. good_credit g (sum_list (map (snd \<circ> snd) (take i fs))) c" by simp_all
  have "\<forall>c \<in> set ps. ValidateCreditPayload c = None \<and> DecodeCreditPayload (EncodeCreditPayload c) = Inr c \<and>
      Gen c = g \<and> (\<exists>i \<le> length fs. BytesConsumed c = word_of_nat (sum_list (map (snd \<circ> snd) (take i fs))))"
    using ok(2) unfolding good_credit_def by blast
  moreover have "\<exists>rc. recs e' k = Some rc \<and> consumed rc = sum_list (map (snd \<circ> snd) fs) \<and>
      consumed rc - lastEmit rc < creditBatchBytes"
    using ok(1) unfolding rec_ok_def by auto
  ultimately show ?thesis by blast
qed

lemma credit_emitter_truthful_witness:
  "\<exists>p e'. consume_all (0, 7) [(0, 0, 65000), (1, 2, 600)] (recordPeerGen 0 (0, 7) 1 (newCreditEmitter 1048576)) = ([p], e')
     \<and> Gen p = 1 \<and> ValidateCreditPayload p = None"
proof -
  obtain p e' where r: "consume_all (0, 7) [(0, 0, 65000), (1, 2, 600)]
      (recordPeerGen 0 (0, 7) 1 (newCreditEmitter 1048576)) = ([p], e')"
    by (simp add: consume_frame_def recordConsumed_def recordLocked_def recordPeerGen_def emit_credit_def
        newCreditEmitter_def Let_def)
  then show ?thesis
    using credit_emitter_truthful [OF _ _ r] by (auto simp: newCreditEmitter_def)
qed

text \<open>A quiet stream can stall for good: the sender issued \<open>n\<close> bytes on a fresh ledger, the receiver
  wrote all of them within the batching age of its fresh record, so no credit is due; when the
  fallback timer then fires, the gate refuses every further chunk whatever the mailbox cap,
  although nothing is in flight any more, and the receiver, which emits only on a socket
  write or at the end of the stream, has nothing to send.\<close>

lemma quiet_stream_stalls:
  assumes "0 < n" "n < creditBatchBytes" "recs e k = None" "t1 - t0 < creditBatchMaxAge"
  shows "\<not> canSendLocked creditBatchBytes cap (latchSafelyCapped (recordSent n (new_ledger g))) \<and>
    fst (consume_frame k (t1, t2, n) (recordPeerGen t0 k g e)) = None"
  using assms
  by (auto simp: canSendLocked_def gate_limit_def latchSafelyCapped_def recordSent_def new_ledger_def
      consume_frame_def recordConsumed_def recordLocked_def recordPeerGen_def Let_def)

lemma quiet_stream_stalls_witness:
  "\<not> canSendLocked creditBatchBytes 1048576 (latchSafelyCapped (recordSent 300 (new_ledger 1))) \<and>
   fst (consume_frame (0, 7) (50000000, 50000001, 300) (recordPeerGen 0 (0, 7) 1 (newCreditEmitter 1048576))) = None"
  by (rule quiet_stream_stalls) (simp_all add: newCreditEmitter_def)
end
