(* ===== verification/Registry.thy ===== *)
theory Registry
  imports Session
begin

text \<open>
  The per-direction carrier registry of \<^verbatim>\<open>src/pkg/node/carrier_registry.go\<close>: installation
  by carrier id, static-priority selection of the primary, the failover set, and closing.

  Each method holds \<open>r.mu\<close>. Handles are numbered; \<open>ready_of h\<close> is \<^verbatim>\<open>h.carrier.Ready()\<close> at the
  time of the call, an argument of the methods that ask it. A nil entry and an absent entry
  of the map read the same, so both are \<open>None\<close>.
\<close>

type_synonym CarrierID = string

abbreviation DefaultUpCarrierID :: CarrierID where "DefaultUpCarrierID \<equiv> ''up-cdn-ws''"
abbreviation DefaultDownCarrierID :: CarrierID where "DefaultDownCarrierID \<equiv> ''down-reality-a''"
abbreviation SecondDownCarrierID :: CarrierID where "SecondDownCarrierID \<equiv> ''down-reality-b''"

definition FamilyOfID :: "CarrierID \<Rightarrow> string" where
  "FamilyOfID cid = (if cid = DefaultUpCarrierID then ''cdn-ws'' else ''reality'')"

record CarrierDescriptor =
  d_ID :: CarrierID
  d_Dir :: Direction
  d_Family :: string

record carrierRegistry =
  r_dir :: Direction
  allowed :: "CarrierID list"
  r_order :: "CarrierID list"
  handles :: "CarrierID \<rightharpoonup> nat"

text \<open>\<open>RegistryPanic\<close> is the index panic of \<^verbatim>\<open>r.order[0]\<close> on an empty order, which both constructors'
  callers exclude.\<close>

datatype registry_error = ErrNilHandle | ErrUnknownCarrierID CarrierID CarrierID | RegistryPanic

definition newCarrierRegistry :: "CarrierDescriptor \<Rightarrow> carrierRegistry" where
  "newCarrierRegistry desc =
     \<lparr>r_dir = d_Dir desc, allowed = [d_ID desc], r_order = [d_ID desc], handles = Map.empty\<rparr>"

definition newMultiCarrierRegistry :: "Direction \<Rightarrow> CarrierID list \<Rightarrow> carrierRegistry" where
  "newMultiCarrierRegistry dir ids =
     \<lparr>r_dir = dir, allowed = ids, r_order = ids, handles = Map.empty\<rparr>"

definition registry_ID :: "carrierRegistry \<Rightarrow> registry_error + CarrierID" where
  "registry_ID r = (case r_order r of [] \<Rightarrow> Inl RegistryPanic | c # _ \<Rightarrow> Inr c)"

definition Descriptor :: "carrierRegistry \<Rightarrow> registry_error + CarrierDescriptor" where
  "Descriptor r =
     (case registry_ID r of
        Inl e \<Rightarrow> Inl e
      | Inr c \<Rightarrow> Inr \<lparr>d_ID = c, d_Dir = r_dir r, d_Family = FamilyOfID c\<rparr>)"

definition KnownIDs :: "carrierRegistry \<Rightarrow> CarrierID list" where
  "KnownIDs r = r_order r"

definition IsKnown :: "CarrierID \<Rightarrow> carrierRegistry \<Rightarrow> bool" where
  "IsKnown cid r \<longleftrightarrow> cid \<in> set (allowed r)"

definition SingleEntry :: "carrierRegistry \<Rightarrow> bool" where
  "SingleEntry r \<longleftrightarrow> length (r_order r) = 1"

definition Handle :: "CarrierID \<Rightarrow> carrierRegistry \<Rightarrow> nat option" where
  "Handle cid r = handles r cid"

definition ready_handle :: "(nat \<Rightarrow> bool) \<Rightarrow> carrierRegistry \<Rightarrow> CarrierID \<Rightarrow> nat option" where
  "ready_handle ready_of r cid =
     (case handles r cid of Some h \<Rightarrow> if ready_of h then Some h else None | None \<Rightarrow> None)"

fun first_ready :: "(CarrierID \<Rightarrow> nat option) \<Rightarrow> CarrierID list \<Rightarrow> nat option" where
  "first_ready f [] = None"
| "first_ready f (cid # ids) = (case f cid of Some h \<Rightarrow> Some h | None \<Rightarrow> first_ready f ids)"

definition Primary :: "(nat \<Rightarrow> bool) \<Rightarrow> carrierRegistry \<Rightarrow> nat option" where
  "Primary ready_of r = first_ready (ready_handle ready_of r) (r_order r)"

definition registry_Ready :: "(nat \<Rightarrow> bool) \<Rightarrow> carrierRegistry \<Rightarrow> bool" where
  "registry_Ready ready_of r \<longleftrightarrow> list_ex (\<lambda>cid. ready_handle ready_of r cid \<noteq> None) (r_order r)"

definition ReadyIDs :: "(nat \<Rightarrow> bool) \<Rightarrow> carrierRegistry \<Rightarrow> CarrierID list" where
  "ReadyIDs ready_of r = filter (\<lambda>cid. ready_handle ready_of r cid \<noteq> None) (r_order r)"

definition ReadyExcept :: "(nat \<Rightarrow> bool) \<Rightarrow> CarrierID \<Rightarrow> carrierRegistry \<Rightarrow> nat list" where
  "ReadyExcept ready_of exclude r =
     List.map_filter (\<lambda>cid. if cid = exclude then None else ready_handle ready_of r cid) (r_order r)"

definition Generation :: "(nat \<Rightarrow> u64) \<Rightarrow> CarrierID \<Rightarrow> carrierRegistry \<Rightarrow> u64" where
  "Generation gen_of cid r = (case handles r cid of Some h \<Rightarrow> gen_of h | None \<Rightarrow> 0)"

definition registry_Add ::
    "CarrierID \<Rightarrow> nat option \<Rightarrow> carrierRegistry \<Rightarrow> (registry_error + nat option) \<times> carrierRegistry" where
  "registry_Add cid h r =
     (case h of
        None \<Rightarrow> (Inl ErrNilHandle, r)
      | Some x \<Rightarrow>
          if cid \<notin> set (allowed r)
          then (case registry_ID r of
                  Inl e \<Rightarrow> (Inl e, r)
                | Inr c \<Rightarrow> (Inl (ErrUnknownCarrierID c cid), r))
          else (Inr (handles r cid), r\<lparr>handles := (handles r)(cid \<mapsto> x)\<rparr>))"

definition ClearIf :: "CarrierID \<Rightarrow> nat \<Rightarrow> carrierRegistry \<Rightarrow> carrierRegistry" where
  "ClearIf cid h r = (if handles r cid = Some h then r\<lparr>handles := (handles r)(cid := None)\<rparr> else r)"

definition Clear :: "CarrierID \<Rightarrow> carrierRegistry \<Rightarrow> carrierRegistry" where
  "Clear cid r = r\<lparr>handles := (handles r)(cid := None)\<rparr>"

definition Handles :: "carrierRegistry \<Rightarrow> nat option list" where
  "Handles r = map (handles r) (r_order r)"

definition registry_Count :: "carrierRegistry \<Rightarrow> nat" where
  "registry_Count r = length (filter (\<lambda>cid. handles r cid \<noteq> None) (r_order r))"

text \<open>The handles to close, in order, and the registry with the slots emptied.\<close>

fun close_scan :: "CarrierID list \<Rightarrow> (CarrierID \<rightharpoonup> nat) \<Rightarrow> nat list \<times> (CarrierID \<rightharpoonup> nat)" where
  "close_scan [] m = ([], m)"
| "close_scan (cid # ids) m =
     (case m cid of
        None \<Rightarrow> close_scan ids m
      | Some h \<Rightarrow> (let (hs, m') = close_scan ids (m(cid := None)) in (h # hs, m')))"

definition registry_CloseAll :: "carrierRegistry \<Rightarrow> nat list \<times> carrierRegistry" where
  "registry_CloseAll r = (let (hs, m) = close_scan (r_order r) (handles r) in (hs, r\<lparr>handles := m\<rparr>))"

section \<open>Lemmas\<close>

interpretation ready_scan: first_match f "first_ready f" for f
  by unfold_locales simp_all

lemma close_scan_clears:
  "close_scan ids m = (hs, m') \<Longrightarrow>
     (\<forall>cid. m' cid = (if cid \<in> set ids then None else m cid)) \<and>
     set hs = {h. \<exists>cid \<in> set ids. m cid = Some h}"
proof (induction ids arbitrary: m hs m')
  case Nil
  then show ?case by simp
next
  case (Cons cid ids)
  show ?case
  proof (cases "m cid")
    case None
    then have r: "close_scan ids m = (hs, m')" using Cons.prems by simp
    show ?thesis using Cons.IH [OF r] None by auto
  next
    case (Some h)
    obtain hs1 where r: "close_scan ids (m(cid := None)) = (hs1, m')" and hs: "hs = h # hs1"
      using Cons.prems Some by (auto split: prod.splits)
    have "set hs = insert h {x. \<exists>c \<in> set ids. c \<noteq> cid \<and> m c = Some x}"
      using Cons.IH [OF r] hs by auto
    also have "\<dots> = {x. \<exists>c \<in> set (cid # ids). m c = Some x}"
    proof -
      have ne: "c \<noteq> cid" if "m c = Some x" "x \<noteq> h" for c x using that Some by auto
      show ?thesis using Some ne by (intro set_eqI iffI) (simp, blast, simp, blast)
    qed
    finally have "set hs = {x. \<exists>c \<in> set (cid # ids). m c = Some x}" .
    then show ?thesis using Cons.IH [OF r] by simp
  qed
qed

section \<open>Properties\<close>

text \<open>Static priority and fail-closed installation: the primary is the first id in the configured
  order whose installed carrier is ready, and there is one iff the registry is ready; an id
  outside the configured set is refused and changes nothing; a dying carrier clears its slot
  only while it is still the installed one; and after \<open>CloseAll\<close> no configured slot holds a
  carrier and exactly the installed ones have been closed.\<close>

lemma registry_priority:
  "(Primary ready_of r = Some h \<longleftrightarrow>
      (\<exists>i < length (r_order r). ready_handle ready_of r (r_order r ! i) = Some h \<and>
         (\<forall>j < i. ready_handle ready_of r (r_order r ! j) = None))) \<and>
   (registry_Ready ready_of r \<longleftrightarrow> Primary ready_of r \<noteq> None) \<and>
   (\<not> IsKnown cid r \<longrightarrow> snd (registry_Add cid (Some x) r) = r \<and>
      (\<forall>c. registry_ID r = Inr c \<longrightarrow>
         fst (registry_Add cid (Some x) r) = Inl (ErrUnknownCarrierID c cid))) \<and>
   (IsKnown cid r \<longrightarrow> Handle cid (snd (registry_Add cid (Some x) r)) = Some x \<and>
      Handle cid (ClearIf cid y (snd (registry_Add cid (Some x) r))) = (if y = x then None else Some x)) \<and>
   (\<forall>c \<in> set (r_order r). Handle c (snd (registry_CloseAll r)) = None) \<and>
   set (fst (registry_CloseAll r)) = {g. Some g \<in> set (Handles r)}"
proof -
  obtain hs m where cs: "close_scan (r_order r) (handles r) = (hs, m)" by fastforce
  have close: "(\<forall>c \<in> set (r_order r). Handle c (snd (registry_CloseAll r)) = None) \<and>
      set (fst (registry_CloseAll r)) = {g. Some g \<in> set (Handles r)}"
    using close_scan_clears [OF cs]
    by (simp add: registry_CloseAll_def cs Handle_def Handles_def image_iff eq_commute [of "Some _"])
  have ready: "registry_Ready ready_of r \<longleftrightarrow> Primary ready_of r \<noteq> None"
    using ready_scan.scan_None [of "ready_handle ready_of r" "r_order r"]
    by (auto simp: registry_Ready_def Primary_def list_ex_iff)
  show ?thesis
    using ready_scan.scan_Some [of "ready_handle ready_of r" "r_order r" h] close ready
    by (simp add: Primary_def IsKnown_def registry_Add_def Handle_def ClearIf_def split: sum.splits)
qed

lemma registry_priority_witness:
  "snd (registry_Add ''other'' (Some 3) (newMultiCarrierRegistry DirDown [DefaultDownCarrierID, SecondDownCarrierID]))
     = newMultiCarrierRegistry DirDown [DefaultDownCarrierID, SecondDownCarrierID]"
  using registry_priority [of "\<lambda>_. True"
      "newMultiCarrierRegistry DirDown [DefaultDownCarrierID, SecondDownCarrierID]" 0 "''other''" 3 0]
  by (simp add: IsKnown_def newMultiCarrierRegistry_def)
end
