(* ===== verification/Backoff.thy ===== *)
theory Backoff
  imports Prelude
begin

text \<open>
  The reconnect schedule of \<^verbatim>\<open>src/internal/backoff/backoff.go\<close>. Durations are Go's
  \<open>int64\<close> nanoseconds: integers whose shift and sum are reduced to 64-bit two's complement
  (\<open>wrap64\<close>). The random source is an argument of the jitter: the value \<open>Int63n\<close> returns.
\<close>

definition wrap64 :: "int \<Rightarrow> int" where
  "wrap64 x = signed_take_bit 63 x"

record Backoff =
  bo_base :: int
  bo_max :: int
  attempts :: nat
  window :: int
  clamp :: int
  slept :: int

abbreviation Millisecond :: int where "Millisecond \<equiv> 1000000"

definition NewBounded :: "int \<Rightarrow> int \<Rightarrow> int \<Rightarrow> int \<Rightarrow> Backoff" where
  "NewBounded base0 max0 window0 clamp0 =
     (let base = (if base0 \<le> 0 then Millisecond else base0);
          mx = (if max0 < base then base else max0);
          cl1 = (if clamp0 > 0 \<and> clamp0 > mx then mx else clamp0);
          win = (if window0 > 0 \<and> cl1 \<le> 0 then 0 else window0);
          cl2 = (if win \<le> 0 \<and> cl1 > 0 then 0 else cl1)
      in \<lparr>bo_base = base, bo_max = mx, attempts = 0, window = win, clamp = cl2, slept = 0\<rparr>)"

definition New :: "int \<Rightarrow> int \<Rightarrow> Backoff" where
  "New base mx = NewBounded base mx 0 0"

definition WindowExhausted :: "Backoff \<Rightarrow> bool" where
  "WindowExhausted b \<longleftrightarrow> window b > 0 \<and> clamp b > 0 \<and> slept b \<ge> window b"

definition Next :: "Backoff \<Rightarrow> int \<times> Backoff" where
  "Next b =
     (let ex = (if attempts b > 30 then 30 else attempts b);
          d0 = wrap64 (bo_base b * 2 ^ ex);
          d1 = (if d0 \<le> 0 \<or> d0 > bo_max b then bo_max b else d0);
          d2 = (if window b > 0 \<and> clamp b > 0 \<and> slept b \<ge> window b \<and> clamp b < d1 then clamp b else d1)
      in (d2, b\<lparr>slept := wrap64 (slept b + d2), attempts := attempts b + 1\<rparr>))"

definition Reset :: "Backoff \<Rightarrow> Backoff" where
  "Reset b = b\<lparr>attempts := 0, slept := 0\<rparr>"

text \<open>The delay \<open>Sleep\<close> waits for, \<open>rnd\<close> being the value of \<open>Int63n (d/2 + 1)\<close>.\<close>

definition Sleep_delay :: "int \<Rightarrow> int \<Rightarrow> int" where
  "Sleep_delay d rnd = (let j = d div 2 in if d div 2 > 0 then j + rnd else j)"

definition after_failures :: "nat \<Rightarrow> Backoff \<Rightarrow> Backoff" where
  "after_failures n b = ((\<lambda>b. snd (Next b)) ^^ n) b"

section \<open>Lemmas\<close>

lemma wrap64_id: "- (2 ^ 63) \<le> x \<Longrightarrow> x < 2 ^ 63 \<Longrightarrow> wrap64 x = x"
  unfolding wrap64_def by (simp add: signed_take_bit_int_eq_self)

lemma NewBounded_ok:
  "0 < bo_base (NewBounded b m w c)" "bo_base (NewBounded b m w c) \<le> bo_max (NewBounded b m w c)"
  "slept (NewBounded b m w c) = 0" "attempts (NewBounded b m w c) = 0"
  "window (NewBounded b m w c) > 0 \<longleftrightarrow> w > 0 \<and> c > 0" "clamp (NewBounded b m w c) \<le> bo_max (NewBounded b m w c)"
  by (auto simp: NewBounded_def Let_def)

lemma Next_keeps [simp]:
  "bo_base (snd (Next b)) = bo_base b" "bo_max (snd (Next b)) = bo_max b" "window (snd (Next b)) = window b"
  "clamp (snd (Next b)) = clamp b" "attempts (snd (Next b)) = attempts b + 1"
  "slept (snd (Next b)) = wrap64 (slept b + fst (Next b))"
  by (simp_all add: Next_def Let_def)

lemma after_failures_keeps [simp]:
  "bo_base (after_failures n b) = bo_base b" "bo_max (after_failures n b) = bo_max b"
  "window (after_failures n b) = window b" "clamp (after_failures n b) = clamp b"
  "attempts (after_failures n b) = attempts b + n"
  by (induction n) (simp_all add: after_failures_def)

text \<open>Every delay is positive and at most the cap, whatever the shift does.\<close>

lemma Next_bounds:
  assumes "0 < bo_base b" and "bo_base b \<le> bo_max b"
  shows "0 < fst (Next b)" "fst (Next b) \<le> bo_max b"
  using assms by (auto simp: Next_def Let_def)

text \<open>Without overflow the nominal delay is the capped doubling.\<close>

lemma Next_nominal:
  assumes "0 < bo_base b" and "bo_base b < 2 ^ 33" and "\<not> WindowExhausted b"
  shows "fst (Next b) = min (bo_max b) (bo_base b * 2 ^ min 30 (attempts b))"
proof -
  define e where "e = min 30 (attempts b)"
  have e: "(if attempts b > 30 then 30 else attempts b) = e" by (simp add: e_def)
  have "(2::int) ^ e \<le> 2 ^ 30" unfolding e_def by (rule power_increasing) auto
  then have "bo_base b * 2 ^ e \<le> bo_base b * 2 ^ 30" using assms(1) by simp
  also have "bo_base b * 2 ^ 30 < 2 ^ 33 * 2 ^ 30" using assms(2) by simp
  finally have lt: "bo_base b * 2 ^ e < 2 ^ 63" by simp
  have pos: "0 < bo_base b * 2 ^ e" using assms(1) by simp
  have "wrap64 (bo_base b * 2 ^ e) = bo_base b * 2 ^ e"
    using lt pos by (intro wrap64_id) linarith+
  then show ?thesis
    using pos assms(3) unfolding Next_def Let_def e
    by (auto simp: WindowExhausted_def e_def [symmetric])
qed

lemma Next_clamped:
  assumes "WindowExhausted b"
  shows "fst (Next b) \<le> clamp b"
  using assms by (auto simp: Next_def WindowExhausted_def Let_def)

text \<open>While the window is open the sum of the delays stays below the window plus one cap.\<close>

lemma slept_bound:
  assumes "0 < bo_base b" and "bo_base b \<le> bo_max b" and "0 < window b" and "0 < clamp b"
    and "0 \<le> slept b" and "slept b < window b" and "window b + bo_max b < 2 ^ 63"
  shows "0 \<le> slept (snd (Next b)) \<and> slept (snd (Next b)) \<le> window b - 1 + bo_max b"
proof -
  have d: "0 < fst (Next b)" "fst (Next b) \<le> bo_max b" using Next_bounds [OF assms(1,2)] .
  then have "wrap64 (slept b + fst (Next b)) = slept b + fst (Next b)"
    using assms(5-7) by (intro wrap64_id) linarith+
  then show ?thesis using d assms(5,6) by simp
qed

section \<open>Properties\<close>

text \<open>The reconnect schedule: every delay is positive and never above the cap; until the window is
  used up the n-th delay is the base doubled n times (30 at most) and capped, so delays never
  shrink; once it is used up no delay exceeds the clamp; a reset starts over; and the jitter
  stays between half the delay and the delay.\<close>

lemma backoff_schedule:
  assumes b: "b = NewBounded base mx win cl" and base: "bo_base b < 2 ^ 33" and n: "b' = after_failures n b"
  shows "0 < fst (Next b') \<and> fst (Next b') \<le> bo_max b \<and>
    (\<not> WindowExhausted b' \<longrightarrow> fst (Next b') = min (bo_max b) (bo_base b * 2 ^ min 30 n)) \<and>
    (WindowExhausted b' \<longrightarrow> fst (Next b') \<le> clamp b) \<and>
    Reset b' = b \<and>
    (0 \<le> rnd \<and> rnd \<le> fst (Next b') div 2 \<longrightarrow>
       fst (Next b') div 2 \<le> Sleep_delay (fst (Next b')) rnd \<and>
       Sleep_delay (fst (Next b')) rnd \<le> fst (Next b'))"
proof -
  have pos: "0 < bo_base b'" "bo_base b' \<le> bo_max b'" using NewBounded_ok by (simp_all add: b n)
  have d: "0 < fst (Next b')" "fst (Next b') \<le> bo_max b'" by (rule Next_bounds [OF pos])+
  have at: "attempts b' = n" using NewBounded_ok(4) by (simp add: b n)
  have nom: "\<not> WindowExhausted b' \<longrightarrow> fst (Next b') = min (bo_max b) (bo_base b * 2 ^ min 30 n)"
    using Next_nominal [OF pos(1)] base at by (simp add: n)
  have cl: "WindowExhausted b' \<longrightarrow> fst (Next b') \<le> clamp b" using Next_clamped [of b'] by (simp add: n)
  have rs: "Reset b' = b"
    using NewBounded_ok(3,4) [of base mx win cl] by (simp add: Reset_def n b)
  have "Sleep_delay (fst (Next b')) rnd \<le> fst (Next b') \<and> fst (Next b') div 2 \<le> Sleep_delay (fst (Next b')) rnd"
    if "0 \<le> rnd" "rnd \<le> fst (Next b') div 2"
    using that d unfolding Sleep_delay_def Let_def by presburger
  then show ?thesis using d nom cl rs by (simp add: n)
qed

lemma backoff_schedule_witness:
  "fst (Next (after_failures 3 (NewBounded 2000000000 60000000000 0 0))) = 16000000000"
proof -
  let ?b = "NewBounded 2000000000 60000000000 0 0"
  have "bo_base ?b < 2 ^ 33" "bo_base ?b = 2000000000" "bo_max ?b = 60000000000" "window ?b = 0"
    by (simp_all add: NewBounded_def)
  then show ?thesis
    using backoff_schedule [OF refl _ refl, of 2000000000 60000000000 0 0 3 0]
    by (simp add: WindowExhausted_def)
qed
end
