(* ===== verification/NetIP.thy ===== *)
theory NetIP
  imports Prelude
begin

unbundle bit_operations_syntax

text \<open>
  What the sources use of Go's package \<^verbatim>\<open>net\<close>: \<^verbatim>\<open>ParseIP\<close>, \<^verbatim>\<open>ParseCIDR\<close>,
  \<^verbatim>\<open>IPNet.Contains\<close>, \<^verbatim>\<open>SplitHostPort\<close> and \<^verbatim>\<open>strconv.Atoi\<close>, written after the
  library's algorithms. An address is its list of bytes; an IPv4 address inside a
  16-byte \<^verbatim>\<open>net.IP\<close> has the prefix \<open>v4InV6Prefix\<close>.
\<close>

section \<open>Address literals\<close>

definition digit_val :: "char \<Rightarrow> nat option" where
  "digit_val c = (let n = of_char c in if 48 \<le> n \<and> n \<le> 57 then Some (n - 48) else None)"

definition hex_val :: "char \<Rightarrow> nat option" where
  "hex_val c = (let n = of_char c in
     if 48 \<le> n \<and> n \<le> 57 then Some (n - 48)
     else if 97 \<le> n \<and> n \<le> 102 then Some (n - 87)
     else if 65 \<le> n \<and> n \<le> 70 then Some (n - 55) else None)"

text \<open>The octets read so far are \<open>acc\<close>; \<open>val\<close> and \<open>dl\<close> are the value and number of digits of the
  current one.\<close>

fun parseIPv4Fields :: "string \<Rightarrow> nat \<Rightarrow> nat \<Rightarrow> bytes \<Rightarrow> bytes option" where
  "parseIPv4Fields [] val dl acc = (if length acc < 3 then None else Some (acc @ [word_of_nat val]))"
| "parseIPv4Fields (c # s) val dl acc =
     (case digit_val c of
        Some d \<Rightarrow>
          if dl = 1 \<and> val = 0 then None
          else if val * 10 + d > 255 then None
          else parseIPv4Fields s (val * 10 + d) (dl + 1) acc
      | None \<Rightarrow>
          if c = CHR ''.''
          then (if dl = 0 \<or> s = [] then None
                else if length acc = 3 then None
                else parseIPv4Fields s 0 0 (acc @ [word_of_nat val]))
          else None)"

fun hex_group :: "string \<Rightarrow> nat \<Rightarrow> nat \<Rightarrow> (nat \<times> nat \<times> string) option" where
  "hex_group [] off acc = Some (off, acc, [])"
| "hex_group (c # s) off acc =
     (case hex_val c of
        None \<Rightarrow> Some (off, acc, c # s)
      | Some d \<Rightarrow> if off > 3 then None else hex_group s (off + 1) (acc * 16 + d))"

text \<open>At most \<open>k\<close> more groups; \<open>ell\<close> is the position of the double colon.\<close>

fun parse_groups :: "nat \<Rightarrow> string \<Rightarrow> nat option \<Rightarrow> bytes \<Rightarrow> (string \<times> nat option \<times> bytes) option" where
  "parse_groups 0 s ell ip = Some (s, ell, ip)"
| "parse_groups (Suc k) s ell ip =
     (case hex_group s 0 0 of
        None \<Rightarrow> None
      | Some (off, acc, r) \<Rightarrow>
          if off = 0 then None
          else if r \<noteq> [] \<and> hd r = CHR ''.''
          then (if ell = None \<and> length ip \<noteq> 12 then None
                else if length ip + 4 > 16 then None
                else (case parseIPv4Fields s 0 0 [] of None \<Rightarrow> None | Some b \<Rightarrow> Some ([], ell, ip @ b)))
          else (let ip' = ip @ [word_of_nat (acc div 256), word_of_nat acc] in
                case r of
                  [] \<Rightarrow> Some ([], ell, ip')
                | c # r' \<Rightarrow>
                    if c \<noteq> CHR '':'' \<or> r' = [] then None
                    else if hd r' = CHR '':''
                    then (if ell \<noteq> None then None
                          else if tl r' = [] then Some ([], Some (length ip'), ip')
                          else parse_groups k (tl r') (Some (length ip')) ip')
                    else parse_groups k r' ell ip'))"

definition expand :: "string \<times> nat option \<times> bytes \<Rightarrow> bytes option" where
  "expand r =
     (case r of (s, ell, ip) \<Rightarrow>
        if s \<noteq> [] then None
        else if length ip < 16
        then (case ell of
                None \<Rightarrow> None
              | Some e \<Rightarrow> Some (take e ip @ replicate (16 - length ip) 0 @ drop e ip))
        else if ell \<noteq> None then None else Some ip)"

definition parseIPv6 :: "string \<Rightarrow> bytes option" where
  "parseIPv6 s =
     (if take 2 s = ''::''
      then (if drop 2 s = [] then Some (replicate 16 0)
            else Option.bind (parse_groups 8 (drop 2 s) (Some 0) []) expand)
      else Option.bind (parse_groups 8 s None []) expand)"

text \<open>\<^verbatim>\<open>netip.ParseAddr\<close>; a literal with a zone is refused by its two callers here.\<close>

datatype addr = Addr4 bytes | Addr6 bytes

definition parse_addr :: "string \<Rightarrow> addr option" where
  "parse_addr s =
     (case dropWhile (\<lambda>c. c \<noteq> CHR ''.'' \<and> c \<noteq> CHR '':'' \<and> c \<noteq> CHR ''%'') s of
        [] \<Rightarrow> None
      | c # _ \<Rightarrow>
          if c = CHR ''.'' then map_option Addr4 (parseIPv4Fields s 0 0 [])
          else if c = CHR '':'' \<and> CHR ''%'' \<notin> set s then map_option Addr6 (parseIPv6 s)
          else None)"

definition v4InV6Prefix :: bytes where
  "v4InV6Prefix = replicate 10 0 @ [0xFF, 0xFF]"

fun As16 :: "addr \<Rightarrow> bytes" where
  "As16 (Addr4 b) = v4InV6Prefix @ b"
| "As16 (Addr6 b) = b"

definition ParseIP :: "string \<Rightarrow> bytes option" where
  "ParseIP s = map_option As16 (parse_addr s)"

definition To4 :: "bytes \<Rightarrow> bytes option" where
  "To4 ip =
     (if length ip = 4 then Some ip
      else if length ip = 16 \<and> take 12 ip = v4InV6Prefix then Some (drop 12 ip)
      else None)"

section \<open>CIDR blocks\<close>

fun CIDRMask :: "nat \<Rightarrow> nat \<Rightarrow> bytes" where
  "CIDRMask n 0 = []"
| "CIDRMask n (Suc l) =
     (if n \<ge> 8 then 0xFF # CIDRMask (n - 8) l else NOT (drop_bit n 0xFF) # CIDRMask 0 l)"

definition and_bytes :: "bytes \<Rightarrow> bytes \<Rightarrow> bytes" where
  "and_bytes a b = map (\<lambda>(x, y). x AND y) (zip a b)"

record IPNet =
  net_IP :: bytes
  net_Mask :: bytes

text \<open>\<^verbatim>\<open>dtoi\<close>: a non-empty run of digits that spans the whole mask text, below 0xFFFFFF.\<close>

fun dec_val :: "string \<Rightarrow> nat \<Rightarrow> nat option" where
  "dec_val [] acc = Some acc"
| "dec_val (c # s) acc = (case digit_val c of None \<Rightarrow> None | Some d \<Rightarrow> dec_val s (acc * 10 + d))"

definition ParseCIDR :: "string \<Rightarrow> IPNet option" where
  "ParseCIDR s =
     (let a = takeWhile (\<lambda>c. c \<noteq> CHR ''/'') s; m = drop (length a + 1) s in
      if CHR ''/'' \<notin> set s then None
      else (case (parse_addr a, if m = [] then None else dec_val m 0) of
              (Some (Addr4 b), Some n) \<Rightarrow>
                if n > 32 then None
                else Some \<lparr>net_IP = and_bytes b (CIDRMask n 4), net_Mask = CIDRMask n 4\<rparr>
            | (Some (Addr6 b), Some n) \<Rightarrow>
                if n > 128 then None
                else Some \<lparr>net_IP = and_bytes b (CIDRMask n 16), net_Mask = CIDRMask n 16\<rparr>
            | _ \<Rightarrow> None))"

definition networkNumberAndMask :: "IPNet \<Rightarrow> bytes \<times> bytes" where
  "networkNumberAndMask n =
     (let ip = (case To4 (net_IP n) of Some x \<Rightarrow> x | None \<Rightarrow> net_IP n); m = net_Mask n in
      if To4 (net_IP n) = None \<and> length ip \<noteq> 16 then ([], [])
      else if length m = 4 then (if length ip \<noteq> 4 then ([], []) else (ip, m))
      else if length m = 16 then (ip, if length ip = 4 then drop 12 m else m)
      else ([], []))"

definition net_Contains :: "IPNet \<Rightarrow> bytes \<Rightarrow> bool" where
  "net_Contains n ip0 =
     (let (nn, m) = networkNumberAndMask n; ip = (case To4 ip0 of Some x \<Rightarrow> x | None \<Rightarrow> ip0)
      in length ip = length nn \<and> and_bytes nn m = and_bytes ip m)"

section \<open>Host and port\<close>

definition last_index :: "char \<Rightarrow> string \<Rightarrow> nat option" where
  "last_index c s =
     (if c \<in> set s then Some (length s - 1 - length (takeWhile (\<lambda>x. x \<noteq> c) (rev s))) else None)"

definition first_index :: "char \<Rightarrow> string \<Rightarrow> nat option" where
  "first_index c s = (if c \<in> set s then Some (length (takeWhile (\<lambda>x. x \<noteq> c) s)) else None)"

definition net_SplitHostPort :: "string \<Rightarrow> (string \<times> string) option" where
  "net_SplitHostPort hp =
     (case last_index CHR '':'' hp of
        None \<Rightarrow> None
      | Some i \<Rightarrow>
          (let r = (if hd hp = CHR ''[''
                    then (case first_index CHR '']'' hp of
                            None \<Rightarrow> None
                          | Some e \<Rightarrow> if e + 1 = i then Some (go_slice hp 1 e, 1, e + 1) else None)
                    else if CHR '':'' \<in> set (take i hp) then None
                    else Some (take i hp, 0, 0))
           in (case r of
                 None \<Rightarrow> None
               | Some (host, j, k) \<Rightarrow>
                   if CHR ''['' \<in> set (drop j hp) \<or> CHR '']'' \<in> set (drop k hp) then None
                   else Some (host, drop (i + 1) hp))))"

text \<open>\<^verbatim>\<open>strconv.Atoi\<close>; values beyond 64 bits are an error there and out of range for every
  caller here.\<close>

definition Atoi :: "string \<Rightarrow> int option" where
  "Atoi s =
     (case s of
        [] \<Rightarrow> None
      | c # r \<Rightarrow>
          (let neg = (c = CHR ''-''); ds = (if c = CHR ''+'' \<or> neg then r else s)
           in if ds = [] then None
              else map_option (\<lambda>n. if neg then - int n else int n) (dec_val ds 0)))"

section \<open>Prefixes as bits\<close>

definition byte_bits :: "byte \<Rightarrow> bool list" where
  "byte_bits b = map (\<lambda>i. bit b (7 - i)) [0 ..< 8]"

definition addr_bits :: "bytes \<Rightarrow> bool list" where
  "addr_bits a = concat (map byte_bits a)"

lemma length_byte_bits [simp]: "length (byte_bits b) = 8"
  by (simp add: byte_bits_def)

lemma byte_bits_inj: "byte_bits b = byte_bits c \<longleftrightarrow> b = c"
proof
  assume "byte_bits b = byte_bits c"
  then have *: "bit b (7 - i) = bit c (7 - i)" if "i < 8" for i
    using that by (auto simp: byte_bits_def)
  have "bit b i = bit c i" if "i < 8" for i using * [of "7 - i"] that by (cases "i = 0") auto
  then show "b = c" by (intro bit_word_eqI) simp
qed simp

lemma byte_ff: "(0xFF :: byte) = - 1"
  by simp

lemma mask_byte:
  assumes "n < 8"
  shows "(b AND NOT (drop_bit n 0xFF) = c AND NOT (drop_bit n (0xFF :: byte))) \<longleftrightarrow>
    take n (byte_bits b) = take n (byte_bits c)"
proof -
  have ff: "bit (drop_bit n (0xFF :: byte)) i \<longleftrightarrow> i + n < 8" for i
    unfolding byte_ff by (auto simp: bit_mask_iff)
  have "(b AND NOT (drop_bit n 0xFF) = c AND NOT (drop_bit n (0xFF :: byte))) \<longleftrightarrow>
      (\<forall>i < 8. 8 \<le> i + n \<longrightarrow> bit b i = bit c i)"
    by (auto simp: bit_eq_iff bit_and_iff bit_not_iff ff dest: bit_imp_le_length)
  also have "\<dots> \<longleftrightarrow> (\<forall>i < n. bit b (7 - i) = bit c (7 - i))"
  proof (rule iffI; intro allI impI)
    fix i assume *: "\<forall>i < 8. 8 \<le> i + n \<longrightarrow> bit b i = bit c i" and "i < n"
    then show "bit b (7 - i) = bit c (7 - i)" using assms by simp
  next
    fix i assume *: "\<forall>i < n. bit b (7 - i) = bit c (7 - i)" and i: "i < 8" "8 \<le> i + n"
    then have "7 - i < n" "7 - (7 - i) = i" by linarith+
    then show "bit b i = bit c i" using * by metis
  qed
  also have "\<dots> \<longleftrightarrow> take n (byte_bits b) = take n (byte_bits c)"
    using assms by (auto simp: byte_bits_def list_eq_iff_nth_eq)
  finally show ?thesis .
qed

lemma and_bytes_Cons [simp]: "and_bytes (x # xs) (y # ys) = (x AND y) # and_bytes xs ys"
  by (simp add: and_bytes_def)

lemma and_bytes_Nil [simp]: "and_bytes [] ys = []"
  by (simp add: and_bytes_def)

lemma masked_eq:
  assumes "length a = l" and "length b = l"
  shows "and_bytes a (CIDRMask n l) = and_bytes b (CIDRMask n l) \<longleftrightarrow> take n (addr_bits a) = take n (addr_bits b)"
  using assms
proof (induction n l arbitrary: a b rule: CIDRMask.induct)
  case (1 n)
  then show ?case by simp
next
  case (2 n l)
  then obtain x xs y ys where a: "a = x # xs" "length xs = l" and b: "b = y # ys" "length ys = l"
    by (metis length_Suc_conv)
  show ?case
  proof (cases "n \<ge> 8")
    case True
    have ff: "z AND 0xFF = z" for z :: byte
      unfolding byte_ff by simp
    have "and_bytes a (CIDRMask n (Suc l)) = and_bytes b (CIDRMask n (Suc l)) \<longleftrightarrow>
        x = y \<and> take (n - 8) (addr_bits xs) = take (n - 8) (addr_bits ys)"
      using True 2(1) [OF True a(2) b(2)] a b by (simp add: ff)
    then show ?thesis using True a b by (simp add: addr_bits_def byte_bits_inj)
  next
    case False
    have rest: "and_bytes xs (CIDRMask 0 l) = and_bytes ys (CIDRMask 0 l)"
      using 2(2) [OF False a(2) b(2)] by simp
    have "and_bytes a (CIDRMask n (Suc l)) = and_bytes b (CIDRMask n (Suc l)) \<longleftrightarrow>
        take n (byte_bits x) = take n (byte_bits y)"
      using False rest mask_byte [of n x y] a b by simp
    then show ?thesis using False a b by (simp add: addr_bits_def)
  qed
qed

lemma and_bytes_idem: "and_bytes (and_bytes a m) m = and_bytes a m"
  by (induction a m rule: list_induct2') (auto simp: and_bytes_def)

lemma length_CIDRMask [simp]: "length (CIDRMask n l) = l"
  by (induction n l rule: CIDRMask.induct) auto

lemma length_and_bytes [simp]: "length (and_bytes a b) = min (length a) (length b)"
  by (simp add: and_bytes_def)

lemma parseIPv4_length:
  "parseIPv4Fields s val dl acc = Some b \<Longrightarrow> length acc \<le> 3 \<Longrightarrow> length b = 4"
  by (induction s val dl acc rule: parseIPv4Fields.induct) (auto split: option.splits if_splits)

lemma parse_addr4_length: "parse_addr s = Some (Addr4 b) \<Longrightarrow> length b = 4"
  by (auto simp: parse_addr_def dest: parseIPv4_length split: list.splits if_splits)

lemma To4_length: "To4 ip = Some c \<Longrightarrow> length c = 4"
  by (auto simp: To4_def split: if_splits)

text \<open>A block of IPv4 addresses contains an address iff it is IPv4 and agrees on the prefix.\<close>

lemma net4_Contains:
  assumes "length b = 4"
  shows "net_Contains \<lparr>net_IP = and_bytes b (CIDRMask n 4), net_Mask = CIDRMask n 4\<rparr> ip \<longleftrightarrow>
    (\<exists>c. To4 ip = Some c \<and> take n (addr_bits c) = take n (addr_bits b))"
proof -
  have nn: "networkNumberAndMask \<lparr>net_IP = and_bytes b (CIDRMask n 4), net_Mask = CIDRMask n 4\<rparr>
      = (and_bytes b (CIDRMask n 4), CIDRMask n 4)"
    using assms by (simp add: networkNumberAndMask_def To4_def Let_def)
  show ?thesis
  proof (cases "To4 ip")
    case None
    then have "length ip \<noteq> 4" by (auto simp: To4_def)
    then show ?thesis using None nn assms by (simp add: net_Contains_def)
  next
    case (Some c)
    then show ?thesis
      using nn assms To4_length [OF Some] masked_eq [of b 4 c n]
      by (auto simp: net_Contains_def and_bytes_idem)
  qed
qed

end
