(* ===== verification/Routing.thy ===== *)
theory Routing
  imports NetIP
begin

text \<open>
  The outbound routing engine of \<^verbatim>\<open>src/pkg/routing\<close>: the rule model with its validation
  (\<^verbatim>\<open>rule.go\<close>), the matcher (\<^verbatim>\<open>matcher.go\<close>) and the dial with the WARP health gate
  (\<^verbatim>\<open>engine.go\<close>).

  Strings are byte strings. A dial is the list of outbounds it contacted and its result;
  the direct dial is an argument (its outcome for an address), and the WARP endpoint is the
  record \<open>warp_env\<close>: whether the connect and the two writes succeed and what the endpoint
  sends before it stops. JSON decoding and the debug log line are not modelled.
\<close>

section \<open>Rules\<close>

datatype OutboundKind = OutboundDirect | OutboundWarp | OutboundBlock

definition ParseOutboundKind :: "string \<Rightarrow> OutboundKind option" where
  "ParseOutboundKind s =
     (if s = ''direct'' then Some OutboundDirect
      else if s = ''warp'' then Some OutboundWarp
      else if s = ''block'' then Some OutboundBlock
      else None)"

text \<open>\<open>kind, _ := ParseOutboundKind(s)\<close>: the error is dropped and the zero value kept.\<close>

definition kind_of :: "string \<Rightarrow> OutboundKind" where
  "kind_of s = (case ParseOutboundKind s of Some k \<Rightarrow> k | None \<Rightarrow> OutboundDirect)"

record Match =
  m_Domain :: string
  m_Keyword :: string
  m_IPCIDR :: string
  m_PortMin :: int
  m_PortMax :: int

record Rule =
  r_ID :: string
  r_Enabled :: bool
  r_Match :: Match
  r_Action :: string
  r_Fallback :: string
  r_Comment :: string
  mCIDR :: "IPNet option"
  mKW :: string
  mDom :: string
  mDomSuffix :: bool

record RuleSet =
  rs_Version :: int
  DefaultAction :: string
  Rules :: "Rule list"

abbreviation MaxRules :: nat where "MaxRules \<equiv> 500"

datatype domain_error = DomainEmpty | DomainTooLong | LabelEmpty | LabelTooLong | DomainWildcard
  | LabelHyphen | LabelChar

datatype rule_error = ActionMissing | ActionUnknown | FallbackUnknown | FallbackNotWarp | NoCriterion
  | DomainInvalid domain_error | CIDRInvalid | PortMinRange | PortMaxRange | PortOrder

datatype routing_error = ErrVersion int | ErrDefaultUnknown | ErrDefaultBlock | ErrTooManyRules
  | ErrIDRequired nat | ErrDuplicateID nat | ErrRule nat rule_error
  | ErrRulesRequired | ErrDirectRequired | ErrWARPAddrNotConfigured

section \<open>Validation\<close>

definition lower_alnum :: "char \<Rightarrow> bool" where
  "lower_alnum c \<longleftrightarrow> (let n = (of_char c :: nat) in (97 \<le> n \<and> n \<le> 122) \<or> (48 \<le> n \<and> n \<le> 57))"

fun check_label :: "string \<Rightarrow> nat \<Rightarrow> nat \<Rightarrow> domain_error option" where
  "check_label [] i n = None"
| "check_label (c # s) i n =
     (if c = CHR ''-''
      then (if i = 0 \<or> i = n - 1 then Some LabelHyphen else check_label s (i + 1) n)
      else if lower_alnum c
      then check_label s (i + 1) n
      else Some LabelChar)"

fun check_labels :: "string list \<Rightarrow> domain_error option" where
  "check_labels [] = None"
| "check_labels (l # ls) =
     (if l = [] then Some LabelEmpty
      else if length l > 63 then Some LabelTooLong
      else if Contains l ''*'' then Some DomainWildcard
      else (case check_label l 0 (length l) of Some e \<Rightarrow> Some e | None \<Rightarrow> check_labels ls))"

definition domain_core :: "string \<Rightarrow> string" where
  "domain_core d = (if HasPrefix d ''.'' then drop 1 d else d)"

definition validateDomain :: "string \<Rightarrow> domain_error option" where
  "validateDomain d =
     (let core = domain_core d in
      if core = [] then Some DomainEmpty
      else if length core > 253 then Some DomainTooLong
      else check_labels (Split CHR ''.'' core))"

definition set_domain :: "Rule \<Rightarrow> rule_error + Rule" where
  "set_domain r =
     (if m_Domain (r_Match r) = [] then Inr r
      else (case validateDomain (m_Domain (r_Match r)) of
              Some e \<Rightarrow> Inl (DomainInvalid e)
            | None \<Rightarrow>
                (let dom = ToLower (m_Domain (r_Match r)) in
                 if HasPrefix dom ''.'' then Inr (r\<lparr>mDom := drop 1 dom, mDomSuffix := True\<rparr>)
                 else Inr (r\<lparr>mDom := dom\<rparr>))))"

definition set_cidr :: "Rule \<Rightarrow> rule_error + Rule" where
  "set_cidr r =
     (if m_IPCIDR (r_Match r) = [] then Inr r
      else (case ParseCIDR (m_IPCIDR (r_Match r)) of
              None \<Rightarrow> Inl CIDRInvalid
            | Some n \<Rightarrow> Inr (r\<lparr>mCIDR := Some n\<rparr>)))"

definition check_ports :: "Match \<Rightarrow> rule_error option" where
  "check_ports m =
     (if m_PortMin m < 0 \<or> m_PortMin m > 65535 then Some PortMinRange
      else if m_PortMax m < 0 \<or> m_PortMax m > 65535 then Some PortMaxRange
      else if m_PortMin m > 0 \<and> m_PortMax m > 0 \<and> m_PortMin m > m_PortMax m then Some PortOrder
      else None)"

definition validateRule :: "Rule \<Rightarrow> rule_error + Rule" where
  "validateRule r =
     (if r_Action r = [] then Inl ActionMissing
      else if ParseOutboundKind (r_Action r) = None then Inl ActionUnknown
      else if r_Fallback r \<noteq> [] \<and> r_Fallback r \<noteq> ''direct'' then Inl FallbackUnknown
      else if r_Fallback r \<noteq> [] \<and> r_Action r \<noteq> ''warp'' then Inl FallbackNotWarp
      else if m_Domain (r_Match r) = [] \<and> m_Keyword (r_Match r) = [] \<and> m_IPCIDR (r_Match r) = []
      then Inl NoCriterion
      else (case set_domain r of
              Inl e \<Rightarrow> Inl e
            | Inr r1 \<Rightarrow>
                (case set_cidr (r1\<lparr>mKW := ToLower (m_Keyword (r_Match r1))\<rparr>) of
                   Inl e \<Rightarrow> Inl e
                 | Inr r2 \<Rightarrow>
                     (case check_ports (r_Match r2) of Some e \<Rightarrow> Inl e | None \<Rightarrow> Inr r2))))"

fun sanitize_rules :: "nat \<Rightarrow> string list \<Rightarrow> Rule list \<Rightarrow> routing_error + Rule list" where
  "sanitize_rules i seen [] = Inr []"
| "sanitize_rules i seen (r # rs) =
     (if r_ID r = [] then Inl (ErrIDRequired i)
      else if r_ID r \<in> set seen then Inl (ErrDuplicateID i)
      else (case validateRule r of
              Inl e \<Rightarrow> Inl (ErrRule i e)
            | Inr r' \<Rightarrow>
                (case sanitize_rules (i + 1) (r_ID r # seen) rs of
                   Inl e \<Rightarrow> Inl e
                 | Inr rs' \<Rightarrow> Inr (r' # rs'))))"

definition Sanitize :: "RuleSet \<Rightarrow> routing_error + RuleSet" where
  "Sanitize rs0 =
     (if rs_Version rs0 \<noteq> 1 then Inl (ErrVersion (rs_Version rs0))
      else (let rs = (if DefaultAction rs0 = [] then rs0\<lparr>DefaultAction := ''direct''\<rparr> else rs0) in
        if ParseOutboundKind (DefaultAction rs) = None then Inl ErrDefaultUnknown
        else if DefaultAction rs = ''block'' then Inl ErrDefaultBlock
        else if length (Rules rs) > MaxRules then Inl ErrTooManyRules
        else (case sanitize_rules 0 [] (Rules rs) of
                Inl e \<Rightarrow> Inl e
              | Inr rules \<Rightarrow> Inr (rs\<lparr>Rules := rules\<rparr>))))"

section \<open>Matching\<close>

record Destination =
  d_Host :: string
  d_Port :: int

definition PortInRange :: "Match \<Rightarrow> int \<Rightarrow> bool" where
  "PortInRange m port =
     (let lo = (if m_PortMin m = 0 then 1 else m_PortMin m);
          hi = (if m_PortMax m = 0 then 65535 else m_PortMax m)
      in port \<ge> lo \<and> port \<le> hi)"

definition matchDomain :: "Rule \<Rightarrow> string \<Rightarrow> bool" where
  "matchDomain r host =
     (let h = ToLower host in
      if ParseIP h \<noteq> None then False
      else if mDomSuffix r then h = mDom r \<or> HasSuffix h (''.'' @ mDom r)
      else h = mDom r)"

definition matchKeyword :: "Rule \<Rightarrow> string \<Rightarrow> bool" where
  "matchKeyword r host = Contains (ToLower host) (mKW r)"

definition matchCIDR :: "IPNet \<Rightarrow> string \<Rightarrow> bool" where
  "matchCIDR n host = (case ParseIP host of None \<Rightarrow> False | Some ip \<Rightarrow> net_Contains n ip)"

definition matchRule :: "Rule \<Rightarrow> Destination \<Rightarrow> bool" where
  "matchRule r dst =
     (if \<not> r_Enabled r then False
      else if \<not> PortInRange (r_Match r) (d_Port dst) then False
      else if m_Domain (r_Match r) \<noteq> [] \<and> matchDomain r (d_Host dst) then True
      else if mKW r \<noteq> [] \<and> matchKeyword r (d_Host dst) then True
      else (case mCIDR r of Some n \<Rightarrow> matchCIDR n (d_Host dst) | None \<Rightarrow> False))"

fun eval_rules :: "Rule list \<Rightarrow> Destination \<Rightarrow> (OutboundKind \<times> string) option" where
  "eval_rules [] dst = None"
| "eval_rules (r # rs) dst = (if matchRule r dst then Some (kind_of (r_Action r), r_ID r) else eval_rules rs dst)"

definition Evaluate :: "RuleSet \<Rightarrow> Destination \<Rightarrow> OutboundKind \<times> string" where
  "Evaluate rs dst =
     (case eval_rules (Rules rs) dst of Some x \<Rightarrow> x | None \<Rightarrow> (kind_of (DefaultAction rs), []))"

definition SplitHostPort :: "string \<Rightarrow> (string \<times> int) option" where
  "SplitHostPort a =
     (case net_SplitHostPort a of
        None \<Rightarrow> None
      | Some (h, p) \<Rightarrow>
          (case Atoi p of
             None \<Rightarrow> None
           | Some port \<Rightarrow> if port < 1 \<or> port > 65535 then None else Some (h, port)))"

section \<open>The engine\<close>

record Engine =
  e_rs :: RuleSet
  e_warpAddr :: string
  e_warpProto :: bool

definition engine_New :: "RuleSet option \<Rightarrow> bool \<Rightarrow> string \<Rightarrow> bool \<Rightarrow> routing_error + Engine" where
  "engine_New rules direct_set warpAddr skipProto =
     (case rules of
        None \<Rightarrow> Inl ErrRulesRequired
      | Some rs \<Rightarrow>
          if \<not> direct_set then Inl ErrDirectRequired
          else (let needsWARP = (DefaultAction rs = ''warp'' \<or> list_ex (\<lambda>r. r_Action r = ''warp'') (Rules rs)) in
            if needsWARP \<and> warpAddr = [] then Inl ErrWARPAddrNotConfigured
            else Inr \<lparr>e_rs = rs, e_warpAddr = warpAddr, e_warpProto = \<not> skipProto\<rparr>))"

datatype dial_error = ErrMalformedAddr | ErrBlocked | ErrWarpUnreachable | WarpRefused byte
  | WarpReplyMalformed | DirectFailed

datatype tunnel = TDirect nat | TWarp bytes

datatype dial_event = ContactDirect string | ContactWarp string "bytes list"

record warp_env =
  we_connect :: bool
  we_write1 :: bool
  we_write2 :: bool
  we_read :: bytes

definition buildConnectReq :: "string \<Rightarrow> int \<Rightarrow> bytes" where
  "buildConnectReq host port =
     [5, 1, 0] @
     (case ParseIP host of
        Some ip \<Rightarrow> (case To4 ip of Some v4 \<Rightarrow> 1 # v4 | None \<Rightarrow> 4 # ip)
      | None \<Rightarrow> (let hb = take 255 (bytes_of_string host) in [3, word_of_nat (length hb)] @ hb)) @
     [word_of_int (port div 256), word_of_int port]"

definition readN :: "bytes \<Rightarrow> nat \<Rightarrow> bytes option" where
  "readN r n = (if length r < n then None else Some (drop n r))"

definition readAddrBlock :: "bytes \<Rightarrow> byte \<Rightarrow> bytes option" where
  "readAddrBlock r atype =
     (if atype = 1 then readN r 6
      else if atype = 4 then readN r 18
      else if atype = 3 then (case r of [] \<Rightarrow> None | l # r' \<Rightarrow> readN r' (unat l + 2))
      else None)"

definition dialWarp :: "Engine \<Rightarrow> warp_env \<Rightarrow> string \<Rightarrow> bytes list \<times> (dial_error + bytes)" where
  "dialWarp e we a =
     (case SplitHostPort a of
        None \<Rightarrow> ([], Inl ErrMalformedAddr)
      | Some (host, port) \<Rightarrow>
          if \<not> we_connect we then ([], Inl ErrWarpUnreachable)
          else if \<not> e_warpProto e then ([], Inr (we_read we))
          else if \<not> we_write1 we \<or> length (we_read we) < 2 then ([[5, 1, 0]], Inl ErrWarpUnreachable)
          else (let req = buildConnectReq host port; rd = drop 2 (we_read we) in
            if \<not> we_write2 we \<or> length rd < 4 then ([[5, 1, 0], req], Inl ErrWarpUnreachable)
            else if rd ! 1 \<noteq> 0 then ([[5, 1, 0], req], Inl (WarpRefused (rd ! 1)))
            else (case readAddrBlock (drop 4 rd) (rd ! 3) of
                    None \<Rightarrow> ([[5, 1, 0], req], Inl WarpReplyMalformed)
                  | Some rest \<Rightarrow> ([[5, 1, 0], req], Inr rest))))"

definition ruleByID :: "Engine \<Rightarrow> string \<Rightarrow> Rule option" where
  "ruleByID e rid = (if rid = [] then None else List.find (\<lambda>r. r_ID r = rid) (Rules (e_rs e)))"

definition dial_direct :: "(string \<Rightarrow> nat option) \<Rightarrow> string \<Rightarrow> dial_error + tunnel" where
  "dial_direct direct a = (case direct a of Some c \<Rightarrow> Inr (TDirect c) | None \<Rightarrow> Inl DirectFailed)"

definition Dial ::
    "Engine \<Rightarrow> (string \<Rightarrow> nat option) \<Rightarrow> warp_env \<Rightarrow> string \<Rightarrow> dial_event list \<times> (dial_error + tunnel)" where
  "Dial e direct we a =
     (case SplitHostPort a of
        None \<Rightarrow> ([], Inl ErrMalformedAddr)
      | Some (host, port) \<Rightarrow>
          (let (kind, rid) = Evaluate (e_rs e) \<lparr>d_Host = host, d_Port = port\<rparr>; rule = ruleByID e rid in
           case kind of
             OutboundBlock \<Rightarrow> ([], Inl ErrBlocked)
           | OutboundDirect \<Rightarrow> ([ContactDirect a], dial_direct direct a)
           | OutboundWarp \<Rightarrow>
               (case dialWarp e we a of
                  (ws, Inr rest) \<Rightarrow> ([ContactWarp (e_warpAddr e) ws], Inr (TWarp rest))
                | (ws, Inl err) \<Rightarrow>
                    if err = ErrWarpUnreachable \<and> (case rule of Some r \<Rightarrow> r_Fallback r = ''direct'' | None \<Rightarrow> False)
                    then ([ContactWarp (e_warpAddr e) ws, ContactDirect a], dial_direct direct a)
                    else ([ContactWarp (e_warpAddr e) ws], Inl err))))"

section \<open>What validation guarantees\<close>

interpretation rule_scan: first_match
  "\<lambda>r. if matchRule r dst then Some (kind_of (r_Action r), r_ID r) else None" "\<lambda>rs. eval_rules rs dst" for dst
  by unfold_locales simp_all

lemma set_domain_keeps:
  assumes "set_domain r = Inr r'"
  shows "r_ID r' = r_ID r \<and> r_Action r' = r_Action r \<and> r_Fallback r' = r_Fallback r \<and> r_Match r' = r_Match r
    \<and> r_Enabled r' = r_Enabled r \<and> mCIDR r' = mCIDR r"
  using assms by (auto simp: set_domain_def Let_def split: if_splits option.splits)

lemma set_cidr_keeps:
  assumes "set_cidr r = Inr r'"
  shows "r_ID r' = r_ID r \<and> r_Action r' = r_Action r \<and> r_Fallback r' = r_Fallback r \<and> r_Match r' = r_Match r
    \<and> r_Enabled r' = r_Enabled r \<and> mDom r' = mDom r \<and> mDomSuffix r' = mDomSuffix r \<and> mKW r' = mKW r"
  using assms by (auto simp: set_cidr_def split: if_splits option.splits)

lemma validateRule_Inr:
  assumes "validateRule r = Inr r'"
  obtains r1 where "set_domain r = Inr r1" "set_cidr (r1\<lparr>mKW := ToLower (m_Keyword (r_Match r1))\<rparr>) = Inr r'"
    "ParseOutboundKind (r_Action r) \<noteq> None" "r_Fallback r = [] \<or> r_Action r = ''warp''"
    "check_ports (r_Match r') = None"
  using assms unfolding validateRule_def by (auto split: if_splits sum.splits option.splits)

lemma validateRule_keeps:
  assumes "validateRule r = Inr r'"
  shows "r_ID r' = r_ID r \<and> ParseOutboundKind (r_Action r') \<noteq> None \<and>
    (r_Fallback r' = [] \<or> r_Action r' = ''warp'')"
proof -
  obtain r1 where *: "set_domain r = Inr r1" "set_cidr (r1\<lparr>mKW := ToLower (m_Keyword (r_Match r1))\<rparr>) = Inr r'"
    "ParseOutboundKind (r_Action r) \<noteq> None" "r_Fallback r = [] \<or> r_Action r = ''warp''"
    using validateRule_Inr [OF assms] .
  show ?thesis using set_domain_keeps [OF *(1)] set_cidr_keeps [OF *(2)] *(3,4) by simp
qed

lemma sanitize_rules_ok:
  assumes "sanitize_rules i seen rs = Inr rs'"
  shows "distinct (map r_ID rs') \<and> set (map r_ID rs') \<inter> set seen = {} \<and>
    (\<forall>r \<in> set rs'. r_ID r \<noteq> [] \<and> ParseOutboundKind (r_Action r) \<noteq> None)"
  using assms
proof (induction rs arbitrary: i seen rs')
  case Nil
  then show ?case by simp
next
  case (Cons r rs)
  then obtain r1 rs1 where 1: "r_ID r \<noteq> []" "r_ID r \<notin> set seen" "validateRule r = Inr r1"
    "sanitize_rules (i + 1) (r_ID r # seen) rs = Inr rs1" "rs' = r1 # rs1"
    by (auto split: if_splits sum.splits)
  show ?case using Cons.IH [OF 1(4)] validateRule_keeps [OF 1(3)] 1(1,2,5) by auto
qed

lemma Sanitize_ok:
  assumes "Sanitize rs0 = Inr rs"
  shows "distinct (map r_ID (Rules rs)) \<and>
    (\<forall>r \<in> set (Rules rs). r_ID r \<noteq> [] \<and> ParseOutboundKind (r_Action r) \<noteq> None) \<and>
    ParseOutboundKind (DefaultAction rs) \<noteq> None \<and> DefaultAction rs \<noteq> ''block'' \<and> length (Rules rs0) \<le> MaxRules"
  using assms
  by (auto simp: Sanitize_def Let_def split: if_splits sum.splits dest!: sanitize_rules_ok)

lemma find_by_id:
  assumes "distinct (map f xs)" and "i < length xs"
  shows "List.find (\<lambda>x. f x = f (xs ! i)) xs = Some (xs ! i)"
  using assms
proof (induction xs arbitrary: i)
  case Nil
  then show ?case by simp
next
  case (Cons x xs)
  show ?case
  proof (cases i)
    case (Suc k)
    then have "f (xs ! k) \<in> f ` set xs" using Cons.prems(2) by simp
    then have "f x \<noteq> f (xs ! k)" using Cons.prems(1) by auto
    then show ?thesis using Cons Suc by simp
  qed simp
qed

lemma ruleByID_hit:
  assumes "Sanitize rs0 = Inr (e_rs e)" and "i < length (Rules (e_rs e))"
  shows "ruleByID e (r_ID (Rules (e_rs e) ! i)) = Some (Rules (e_rs e) ! i)"
  using Sanitize_ok [OF assms(1)] find_by_id [of r_ID "Rules (e_rs e)" i] assms(2)
  by (auto simp: ruleByID_def)

lemma routing_decision:
  assumes "Sanitize rs0 = Inr rs" and "e_rs e = rs"
  shows "(\<exists>i < length (Rules rs). \<exists>r k. r = Rules rs ! i \<and> matchRule r dst \<and> (\<forall>j < i. \<not> matchRule (Rules rs ! j) dst) \<and>
        ParseOutboundKind (r_Action r) = Some k \<and> Evaluate rs dst = (k, r_ID r) \<and> ruleByID e (r_ID r) = Some r) \<or>
    ((\<forall>r \<in> set (Rules rs). \<not> matchRule r dst) \<and> ruleByID e [] = None \<and>
       (Evaluate rs dst = (OutboundDirect, []) \<or> Evaluate rs dst = (OutboundWarp, [])))"
proof (cases "eval_rules (Rules rs) dst")
  case None
  then have "\<forall>r \<in> set (Rules rs). \<not> matchRule r dst"
    using rule_scan.scan_None [where xs = "Rules rs" and dst = dst] by (auto split: if_splits)
  moreover have "kind_of (DefaultAction rs) = OutboundDirect \<or> kind_of (DefaultAction rs) = OutboundWarp"
    using Sanitize_ok [OF assms(1)] by (auto simp: kind_of_def ParseOutboundKind_def split: if_splits)
  ultimately show ?thesis using None by (auto simp: Evaluate_def ruleByID_def)
next
  case (Some x)
  then obtain i where i: "i < length (Rules rs)" "matchRule (Rules rs ! i) dst"
      "x = (kind_of (r_Action (Rules rs ! i)), r_ID (Rules rs ! i))" "\<forall>j < i. \<not> matchRule (Rules rs ! j) dst"
    using rule_scan.scan_Some [where xs = "Rules rs" and y = x and dst = dst] by (auto split: if_splits)
  obtain k where k: "ParseOutboundKind (r_Action (Rules rs ! i)) = Some k"
    using Sanitize_ok [OF assms(1)] i(1) by fastforce
  have "Evaluate rs dst = (k, r_ID (Rules rs ! i))" using Some i(3) k by (simp add: Evaluate_def kind_of_def)
  moreover have "ruleByID e (r_ID (Rules rs ! i)) = Some (Rules rs ! i)"
    using ruleByID_hit assms i(1) by blast
  ultimately show ?thesis using i k by blast
qed

section \<open>Properties\<close>


definition demo_rule :: "string \<Rightarrow> string \<Rightarrow> string \<Rightarrow> string \<Rightarrow> Rule" where
  "demo_rule rid d action fb =
     \<lparr>r_ID = rid, r_Enabled = True, r_Match = \<lparr>m_Domain = d, m_Keyword = [], m_IPCIDR = [], m_PortMin = 0, m_PortMax = 0\<rparr>,
      r_Action = action, r_Fallback = fb, r_Comment = [], mCIDR = None, mKW = [], mDom = [], mDomSuffix = False\<rparr>"

definition demo_rules :: RuleSet where
  "demo_rules = \<lparr>rs_Version = 1, DefaultAction = [], Rules =
     [demo_rule ''a'' ''.b.c'' ''block'' [], demo_rule ''w'' ''.c'' ''warp'' ''direct'']\<rparr>"

lemma demo_decides:
  "case Sanitize demo_rules of
     Inl _ \<Rightarrow> False
   | Inr rs \<Rightarrow> Evaluate rs \<lparr>d_Host = ''x.B.c'', d_Port = 443\<rparr> = (OutboundBlock, ''a'') \<and>
       Evaluate rs \<lparr>d_Host = ''bc.c'', d_Port = 443\<rparr> = (OutboundWarp, ''w'') \<and>
       Evaluate rs \<lparr>d_Host = ''1.2.3.4'', d_Port = 443\<rparr> = (OutboundDirect, [])"
  by code_simp






section \<open>Domain rules and fully qualified names\<close>

lemma Split_last: "Split sep (s @ [sep]) = Split sep s @ [[]]"
proof (induction s)
  case Nil
  then show ?case by simp
next
  case (Cons c s)
  then show ?case by (cases "Split sep s") auto
qed

lemma check_labels_nonempty: "check_labels ls = None \<Longrightarrow> l \<in> set ls \<Longrightarrow> l \<noteq> []"
  by (induction ls) (auto split: if_splits option.splits)

lemma valid_core_last:
  assumes "validateDomain d = None"
  shows "domain_core d \<noteq> [] \<and> last (domain_core d) \<noteq> CHR ''.''"
proof -
  have ne: "domain_core d \<noteq> []" and ok: "check_labels (Split CHR ''.'' (domain_core d)) = None"
    using assms by (auto simp: validateDomain_def Let_def split: if_splits)
  have "last (domain_core d) \<noteq> CHR ''.''"
  proof
    assume "last (domain_core d) = CHR ''.''"
    then obtain s where "domain_core d = s @ [CHR ''.'']" using ne by (metis append_butlast_last_id)
    then show False 
      using ok check_labels_nonempty [of "Split CHR ''.'' s @ [[]]" "[]"] by (simp add: Split_last)
  qed
  then show ?thesis using ne by simp
qed

lemma lower_char_dot: "lower_char c = CHR ''.'' \<longleftrightarrow> c = CHR ''.''"
proof (cases "65 \<le> (of_char c :: nat) \<and> (of_char c :: nat) \<le> 90")
  case True
  then have n: "of_char (lower_char c) = (of_char c + 32 :: nat)" by (simp add: lower_char_def Let_def)
  have dot: "(of_char CHR ''.'' :: nat) = 46" by simp
  have "lower_char c \<noteq> CHR ''.''"
  proof
    assume "lower_char c = CHR ''.''"
    then have "(of_char c + 32 :: nat) = 46" using n dot by simp
    then show False using True by linarith
  qed
  moreover have "c \<noteq> CHR ''.''" using True dot by auto
  ultimately show ?thesis by simp
next
  case False
  then show ?thesis by (auto simp: lower_char_def Let_def)
qed

lemma set_domain_core:
  assumes "set_domain r = Inr r'" and "m_Domain (r_Match r) \<noteq> []"
  shows "mDom r' = ToLower (domain_core (m_Domain (r_Match r))) \<and> validateDomain (m_Domain (r_Match r)) = None"
proof -
  have pre: "HasPrefix (ToLower d) ''.'' = HasPrefix d ''.''" for d
    by (cases d) (auto simp: HasPrefix_def ToLower_def lower_char_dot)
  have low_drop: "drop n (ToLower d) = ToLower (drop n d)" for n d by (simp add: ToLower_def drop_map)
  show ?thesis
    using assms low_drop by (auto simp: set_domain_def domain_core_def pre Let_def split: if_splits option.splits)
qed

text \<open>A trailing dot escapes every domain rule: a rule whose only criterion is a domain pattern,
  a block rule included, matches no host name written in its fully qualified form with the
  final dot, although that name resolves to the same host.\<close>

lemma trailing_dot_escapes_domain_rule:
  assumes "validateRule r = Inr r'" and "mCIDR r = None"
    and "m_Keyword (r_Match r) = []" and "m_IPCIDR (r_Match r) = []"
  shows "\<not> matchRule r' \<lparr>d_Host = h @ ''.'', d_Port = p\<rparr>"
proof -
  obtain r1 where v: "set_domain r = Inr r1" "set_cidr (r1\<lparr>mKW := ToLower (m_Keyword (r_Match r1))\<rparr>) = Inr r'"
    using validateRule_Inr [OF assms(1)] .
  have keep: "mKW r' = []" "mCIDR r' = None" "r_Match r' = r_Match r" "mDom r' = mDom r1" "mDomSuffix r' = mDomSuffix r1"
    using set_domain_keeps [OF v(1)] set_cidr_keeps [OF v(2)] v(2) assms(2,3,4)
    by (auto simp: ToLower_def set_cidr_def)
  have "\<not> matchDomain r' (h @ ''.'')" if ne: "m_Domain (r_Match r) \<noteq> []"
  proof -
    have core: "mDom r' \<noteq> []" "last (mDom r') \<noteq> CHR ''.''"
      using set_domain_core [OF v(1) ne] valid_core_last [of "m_Domain (r_Match r)"] keep(4)
      by (auto simp: ToLower_def last_map lower_char_dot)
    have lh: "last (ToLower (h @ ''.'')) = CHR ''.''" by (simp add: ToLower_def lower_char_dot)
    have "\<not> HasSuffix (ToLower (h @ ''.'')) (''.'' @ mDom r')"
    proof
      assume "HasSuffix (ToLower (h @ ''.'')) (''.'' @ mDom r')"
      then have "''.'' @ mDom r' = drop (length (ToLower (h @ ''.'')) - length (''.'' @ mDom r')) (ToLower (h @ ''.''))"
          "length (ToLower (h @ ''.'')) - length (''.'' @ mDom r') < length (ToLower (h @ ''.''))"
        unfolding HasSuffix_def by (auto simp: ToLower_def)
      then have "last (mDom r') = last (ToLower (h @ ''.''))"
        using core(1) by (metis last_appendR last_drop)
      then show False using core lh by simp
    qed
    moreover have "ToLower (h @ ''.'') \<noteq> mDom r'" using core lh by auto
    ultimately show ?thesis by (simp add: matchDomain_def Let_def)
  qed
  then show ?thesis using keep by (auto simp: matchRule_def)
qed

lemma trailing_dot_escapes_domain_rule_witness:
  "\<exists>r'. validateRule (demo_rule ''a'' ''.b.c'' ''block'' []) = Inr r' \<and>
     \<not> matchRule r' \<lparr>d_Host = ''x.b.c.'', d_Port = 443\<rparr>"
proof -
  have "case validateRule (demo_rule ''a'' ''.b.c'' ''block'' []) of Inl _ \<Rightarrow> False | Inr _ \<Rightarrow> True" by code_simp
  then obtain r' where r': "validateRule (demo_rule ''a'' ''.b.c'' ''block'' []) = Inr r'" by (auto split: sum.splits)
  have "\<not> matchRule r' \<lparr>d_Host = ''x.b.c'' @ ''.'', d_Port = 443\<rparr>"
    by (rule trailing_dot_escapes_domain_rule [OF r']) (simp_all add: demo_rule_def)
  then show ?thesis using r' by simp
qed


section \<open>CIDR rules\<close>

text \<open>An IPv4 CIDR rule matches by prefix bits: for a block \<open>a/m\<close> with an IPv4 literal and a
  decimal length of at most 32, a literal-IP host matches iff it is an IPv4 address (also in
  its IPv6-mapped spelling) whose first bits, as many as the length says, are those of the
  block; a host name never matches.\<close>

lemma cidr_rule_matches_prefix:
  assumes "parse_addr a = Some (Addr4 b)" and "CHR ''/'' \<notin> set a" and "m \<noteq> []" and "dec_val m 0 = Some n" and "n \<le> 32"
  shows "\<exists>net. ParseCIDR (a @ ''/'' @ m) = Some net \<and>
    (\<forall>host. matchCIDR net host \<longleftrightarrow>
       (\<exists>ip c. ParseIP host = Some ip \<and> To4 ip = Some c \<and> take n (addr_bits c) = take n (addr_bits b)))"
proof -
  have tw: "takeWhile (\<lambda>c. c \<noteq> CHR ''/'') (a @ ''/'' @ m) = a"
    using assms(2) by (simp add: takeWhile_append)
  have "ParseCIDR (a @ ''/'' @ m) = Some \<lparr>net_IP = and_bytes b (CIDRMask n 4), net_Mask = CIDRMask n 4\<rparr>"
    unfolding ParseCIDR_def tw using assms by (simp add: Let_def)
  then show ?thesis
    using net4_Contains [OF parse_addr4_length [OF assms(1)]]
    by (auto simp: matchCIDR_def split: option.splits)
qed

lemma cidr_rule_matches_prefix_witness:
  "\<exists>net. ParseCIDR ''10.0.0.0/8'' = Some net \<and> matchCIDR net ''10.1.2.3'' \<and> \<not> matchCIDR net ''11.1.2.3''"
proof -
  have p: "parse_addr ''10.0.0.0'' = Some (Addr4 [10, 0, 0, 0])" "dec_val ''8'' 0 = Some 8"
    "ParseIP ''10.1.2.3'' = Some (v4InV6Prefix @ [10, 1, 2, 3])" "To4 (v4InV6Prefix @ [10, 1, 2, 3]) = Some [10, 1, 2, 3]"
    "ParseIP ''11.1.2.3'' = Some (v4InV6Prefix @ [11, 1, 2, 3])" "To4 (v4InV6Prefix @ [11, 1, 2, 3]) = Some [11, 1, 2, 3]"
    "take 8 (addr_bits [10, 1, 2, 3]) = take 8 (addr_bits [10, 0, 0, 0])"
    "take 8 (addr_bits [11, 1, 2, 3]) \<noteq> take 8 (addr_bits [10, 0, 0, 0])"
    by code_simp+
  have "\<exists>net. ParseCIDR (''10.0.0.0'' @ ''/'' @ ''8'') = Some net \<and>
    (\<forall>host. matchCIDR net host \<longleftrightarrow>
       (\<exists>ip c. ParseIP host = Some ip \<and> To4 ip = Some c \<and> take 8 (addr_bits c) = take 8 (addr_bits [10, 0, 0, 0])))"
    by (rule cidr_rule_matches_prefix [OF p(1) _ _ p(2)]) simp_all
  then show ?thesis using p(3-8) by auto
qed

end
