(* ===== verification/Destination.thy ===== *)
theory Destination
  imports NetIP Frame
begin

text \<open>
  The destination header of \<^verbatim>\<open>src/pkg/session/session.go\<close>: the SOCKS address forms, read from a
  stream, written to a stream, and the buffer variants that travel in the first frame of an
  up stream. \<^verbatim>\<open>net.IP.String\<close> is written after the library: dotted decimal for IPv4 and for
  IPv4 in IPv6, else hexadecimal groups with the first longest run of at least two zero
  groups shortened.

  A reader is the list of bytes still to come; \<open>Inl\<close> is the error of the code. A writer
  collects what was written, also before an error.
\<close>

section \<open>Printing addresses\<close>

definition dig :: "nat \<Rightarrow> char" where
  "dig n = (if n < 10 then char_of (48 + n) else char_of (87 + n))"

definition dec_string :: "nat \<Rightarrow> string" where
  "dec_string n =
     (if n < 10 then [dig n] else if n < 100 then [dig (n div 10), dig (n mod 10)]
      else [dig (n div 100), dig (n div 10 mod 10), dig (n mod 10)])"

text \<open>Hexadecimal without leading zeros, for a 16-bit group.\<close>

definition hex_string :: "nat \<Rightarrow> string" where
  "hex_string n =
     (if n < 16 then [dig n] else if n < 256 then [dig (n div 16), dig (n mod 16)]
      else if n < 4096 then [dig (n div 256), dig (n div 16 mod 16), dig (n mod 16)]
      else [dig (n div 4096), dig (n div 256 mod 16), dig (n div 16 mod 16), dig (n mod 16)])"

fun join :: "char \<Rightarrow> string list \<Rightarrow> string" where
  "join sep [] = []"
| "join sep [s] = s"
| "join sep (s # t # ts) = s @ sep # join sep (t # ts)"

fun groups :: "bytes \<Rightarrow> nat list" where
  "groups (a # b # bs) = (unat a * 256 + unat b) # groups bs"
| "groups _ = []"

definition zero_run :: "nat list \<Rightarrow> nat" where
  "zero_run gs = length (takeWhile (\<lambda>g. g = 0) gs)"

text \<open>The scan for the run to shorten, from group \<open>i\<close> on, with the best run so far.\<close>

fun find_run :: "nat \<Rightarrow> nat list \<Rightarrow> nat \<times> nat \<Rightarrow> nat \<times> nat" where
  "find_run i [] best = best"
| "find_run i (g # gs) best =
     (let l = zero_run (g # gs)
      in find_run (i + 1) gs (if l \<ge> 2 \<and> l > snd best then (i, l) else best))"

definition string6 :: "nat list \<Rightarrow> string" where
  "string6 gs =
     (let (start, len) = find_run 0 gs (0, 0)
      in if len = 0 then join CHR '':'' (map hex_string gs)
         else join CHR '':'' (map hex_string (take start gs)) @ ''::'' @
              join CHR '':'' (map hex_string (drop (start + len) gs)))"

definition ip_String :: "bytes \<Rightarrow> string" where
  "ip_String ip =
     (case To4 ip of
        Some b \<Rightarrow> join CHR ''.'' (map (\<lambda>x. dec_string (unat x)) b)
      | None \<Rightarrow> string6 (groups ip))"

section \<open>Destinations\<close>

abbreviation AddrTypeIPv4 :: byte where "AddrTypeIPv4 \<equiv> 1"
abbreviation AddrTypeDomain :: byte where "AddrTypeDomain \<equiv> 3"
abbreviation AddrTypeIPv6 :: byte where "AddrTypeIPv6 \<equiv> 4"
abbreviation MaxHeaderSize :: nat where "MaxHeaderSize \<equiv> 259"

record Destination =
  AddrType :: byte
  Addr :: string
  Port :: u16

datatype dest_error =
  DestRead mux_error | UnknownAddrType | InvalidIPv4 | InvalidIPv6 | DomainTooLong

text \<open>\<^verbatim>\<open>io.ReadFull\<close> for \<open>n\<close> bytes.\<close>

definition read_n :: "nat \<Rightarrow> bytes \<Rightarrow> dest_error + (bytes \<times> bytes)" where
  "read_n n r = (case ReadFull n r of Inl e \<Rightarrow> Inl (DestRead e) | Inr x \<Rightarrow> Inr x)"

definition read_port :: "byte \<Rightarrow> string \<Rightarrow> bytes \<Rightarrow> dest_error + (Destination \<times> bytes)" where
  "read_port atype a r =
     (case read_n 2 r of
        Inl e \<Rightarrow> Inl e
      | Inr (p, r') \<Rightarrow> Inr (\<lparr>AddrType = atype, Addr = a, Port = Uint16 p\<rparr>, r'))"

definition readDestFromReader :: "byte \<Rightarrow> bytes \<Rightarrow> dest_error + (Destination \<times> bytes)" where
  "readDestFromReader atype r =
     (if atype = AddrTypeIPv4
      then (case read_n 4 r of Inl e \<Rightarrow> Inl e | Inr (ip, r1) \<Rightarrow> read_port atype (ip_String ip) r1)
      else if atype = AddrTypeDomain
      then (case read_n 1 r of
              Inl e \<Rightarrow> Inl e
            | Inr (dl, r1) \<Rightarrow>
                (case read_n (unat (hd dl)) r1 of
                   Inl e \<Rightarrow> Inl e
                 | Inr (d, r2) \<Rightarrow> read_port atype (string_of_bytes d) r2))
      else if atype = AddrTypeIPv6
      then (case read_n 16 r of Inl e \<Rightarrow> Inl e | Inr (ip, r1) \<Rightarrow> read_port atype (ip_String ip) r1)
      else Inl UnknownAddrType)"

definition ReadDestination :: "bytes \<Rightarrow> dest_error + (Destination \<times> bytes)" where
  "ReadDestination r =
     (case read_n 1 r of Inl e \<Rightarrow> Inl e | Inr (at, r1) \<Rightarrow> readDestFromReader (hd at) r1)"

text \<open>The bytes written, and the error that stopped the writing.\<close>

definition WriteDestination :: "Destination \<Rightarrow> bytes \<times> dest_error option" where
  "WriteDestination d =
     (let at = AddrType d in
      if at = AddrTypeIPv4
      then (case Option.bind (ParseIP (Addr d)) To4 of
              None \<Rightarrow> ([at], Some InvalidIPv4)
            | Some ip \<Rightarrow> (at # ip @ PutUint16 (Port d), None))
      else if at = AddrTypeDomain
      then (if length (Addr d) > 255 then ([at], Some DomainTooLong)
            else (at # word_of_nat (length (Addr d)) # bytes_of_string (Addr d) @ PutUint16 (Port d), None))
      else if at = AddrTypeIPv6
      then (case ParseIP (Addr d) of
              None \<Rightarrow> ([at], Some InvalidIPv6)
            | Some ip \<Rightarrow> if To4 ip \<noteq> None then ([at], Some InvalidIPv6)
                         else (at # ip @ PutUint16 (Port d), None))
      else ([at], Some UnknownAddrType))"

text \<open>
  The header written into a buffer of \<open>MaxHeaderSize\<close> bytes, as the slice \<open>hdr[:n]\<close> the caller
  sends; the empty slice is the result 0.
\<close>

definition WriteDestinationBuffer :: "Destination \<Rightarrow> bytes" where
  "WriteDestinationBuffer d =
     (let at = AddrType d in
      if at = AddrTypeIPv4
      then (case Option.bind (ParseIP (Addr d)) To4 of
              None \<Rightarrow> []
            | Some ip \<Rightarrow> at # copy_into 4 ip @ PutUint16 (Port d))
      else if at = AddrTypeDomain
      then (let l = min (length (Addr d)) 255
            in at # word_of_nat l # take l (bytes_of_string (Addr d)) @ PutUint16 (Port d))
      else if at = AddrTypeIPv6
      then (case ParseIP (Addr d) of
              None \<Rightarrow> []
            | Some ip \<Rightarrow> if To4 ip \<noteq> None then [] else at # copy_into 16 ip @ PutUint16 (Port d))
      else [])"

definition ParseDestinationFromBuf :: "bytes \<Rightarrow> Destination option" where
  "ParseDestinationFromBuf buf =
     (if length buf < 4 then None
      else (let at = buf ! 0;
                fin = (\<lambda>a i. if length buf < i + 2 then None
                            else Some \<lparr>AddrType = at, Addr = a, Port = Uint16 (go_slice buf i (i + 2))\<rparr>)
            in if at = AddrTypeIPv4
               then (if length buf < 1 + 4 + 2 then None else fin (ip_String (go_slice buf 1 5)) 5)
               else if at = AddrTypeDomain
               then (let n = unat (buf ! 1)
                     in if length buf < 2 + n + 2 then None
                        else fin (string_of_bytes (go_slice buf 2 (2 + n))) (2 + n))
               else if at = AddrTypeIPv6
               then (if length buf < 1 + 16 + 2 then None else fin (ip_String (go_slice buf 1 17)) 17)
               else None))"

section \<open>Lemmas: printing and parsing digits\<close>

lemma dig_code: "n < 16 \<Longrightarrow> of_char (dig n) = (if n < 10 then 48 + n else 87 + n)"
  by (auto simp: dig_def)

lemma digit_val_dig [simp]: "n < 10 \<Longrightarrow> digit_val (dig n) = Some n"
  by (simp add: digit_val_def dig_def Let_def)

lemma hex_val_dig [simp]: "n < 16 \<Longrightarrow> hex_val (dig n) = Some n"
  by (auto simp: hex_val_def dig_def Let_def)

lemma punctuation [simp]:
  "digit_val CHR ''.'' = None" "digit_val CHR '':'' = None" "hex_val CHR ''.'' = None" "hex_val CHR '':'' = None"
  by (simp_all add: digit_val_def hex_val_def)

lemma dig_neq [simp]:
  "n < 16 \<Longrightarrow> dig n \<noteq> CHR ''.''" "n < 16 \<Longrightarrow> dig n \<noteq> CHR '':''" "n < 16 \<Longrightarrow> dig n \<noteq> CHR ''%''"
  using hex_val_dig [of n] by (auto simp: hex_val_def)

lemma dec_string_ne [simp]: "dec_string n \<noteq> []" "hex_string n \<noteq> []"
  by (simp_all add: dec_string_def hex_string_def)

lemma digit_step: "(n :: nat) div (a * b) * b + n div a mod b = n div a"
  by (simp add: div_mult2_eq)

lemma parse_dec:
  assumes "n < 256"
  shows "parseIPv4Fields (dec_string n @ r) 0 0 acc = parseIPv4Fields r n (length (dec_string n)) acc"
proof -
  have d: "n div 100 < 10" "n div 10 mod 10 < 10" "n mod 10 < 10" using assms by simp_all
  consider "n < 10" | "10 \<le> n" "n < 100" | "100 \<le> n" by linarith
  then show ?thesis
  proof cases
    case 1
    then show ?thesis by (simp add: dec_string_def)
  next
    case 2
    then have "n div 10 < 10" "0 < n div 10" by (simp_all add: div_greater_zero_iff)
    then show ?thesis using 2 assms by (simp add: dec_string_def)
  next
    case 3
    then have "0 < n div 100" by (simp add: div_greater_zero_iff)
    moreover have "n div 100 * 10 + n div 10 mod 10 = n div 10" using digit_step [of n 10 10] by simp
    ultimately show ?thesis using 3 assms d by (auto simp: dec_string_def)
  qed
qed

lemma parse_dotted:
  assumes "length b = 4"
  shows "parseIPv4Fields (join CHR ''.'' (map (\<lambda>x. dec_string (unat x)) b)) 0 0 [] = Some b"
proof -
  obtain a1 a2 a3 a4 where b: "b = [a1, a2, a3, a4]"
    using assms by (auto simp: numeral_eq_Suc length_Suc_conv)
  have "parseIPv4Fields (dec_string (unat x)) 0 0 acc = parseIPv4Fields [] (unat x) (length (dec_string (unat x))) acc"
    for x :: byte and acc using parse_dec [of "unat x" "[]" acc] by simp
  then show ?thesis by (simp add: b parse_dec)
qed

definition plain :: "string \<Rightarrow> bool" where
  "plain s \<longleftrightarrow> set s \<subseteq> dig ` {..< 16}"

lemma plain_strings: "n < 1000 \<Longrightarrow> plain (dec_string n)" "m < 65536 \<Longrightarrow> plain (hex_string m)"
proof -
  show "plain (dec_string n)" if "n < 1000"
  proof -
    have "n div 100 < 16" "n div 10 mod 10 < 16" "n mod 10 < 16" "n < 100 \<longrightarrow> n div 10 < 16" using that by auto
    then show ?thesis by (auto simp: plain_def dec_string_def intro!: imageI)
  qed
  show "plain (hex_string m)" if "m < 65536"
  proof -
    have "m div 4096 < 16" "m div 256 mod 16 < 16" "m div 16 mod 16 < 16" "m mod 16 < 16"
      "m < 4096 \<longrightarrow> m div 256 < 16" "m < 256 \<longrightarrow> m div 16 < 16" using that by auto
    then show ?thesis by (auto simp: plain_def hex_string_def intro!: imageI)
  qed
qed

lemma set_join: "c \<in> set (join sep ss) \<Longrightarrow> c = sep \<or> (\<exists>s \<in> set ss. c \<in> set s)"
  by (induction sep ss rule: join.induct) auto

lemma sep_in_join: "2 \<le> length ss \<Longrightarrow> sep \<in> set (join sep ss)"
  by (induction sep ss rule: join.induct) auto

lemma first_separator:
  assumes "sep \<in> set s" and "set s \<subseteq> insert sep (dig ` {..< 16})" and "sep = CHR ''.'' \<or> sep = CHR '':''"
  shows "\<exists>r. dropWhile (\<lambda>c. c \<noteq> CHR ''.'' \<and> c \<noteq> CHR '':'' \<and> c \<noteq> CHR ''%'') s = sep # r \<and> CHR ''%'' \<notin> set s"
proof -
  have eq: "(c \<noteq> CHR ''.'' \<and> c \<noteq> CHR '':'' \<and> c \<noteq> CHR ''%'') = (c \<noteq> sep)" if c: "c \<in> set s" for c
  proof (cases "c = sep")
    case False
    then obtain n where "n < 16" "c = dig n" using subsetD [OF assms(2) c] by auto
    then show ?thesis using False dig_neq [of n] by simp
  qed (use assms(3) in auto)
  then have "dropWhile (\<lambda>c. c \<noteq> CHR ''.'' \<and> c \<noteq> CHR '':'' \<and> c \<noteq> CHR ''%'') s = dropWhile (\<lambda>c. c \<noteq> sep) s"
    by (intro dropWhile_cong) auto
  moreover have "\<exists>r. dropWhile (\<lambda>c. c \<noteq> sep) s = sep # r" using assms(1) by (induction s) auto
  moreover have "CHR ''%'' \<notin> set s"
  proof
    assume "CHR ''%'' \<in> set s"
    then show False using eq [of "CHR ''%''"] assms(3) by auto
  qed
  ultimately show ?thesis by simp
qed

lemma ParseIP_v4:
  assumes "length b = 4"
  shows "ParseIP (join CHR ''.'' (map (\<lambda>x. dec_string (unat x)) b)) = Some (v4InV6Prefix @ b)"
proof -
  let ?s = "join CHR ''.'' (map (\<lambda>x. dec_string (unat x)) b)"
  have "plain (dec_string (unat x))" for x :: byte
    using unat_lt256 [of x] by (intro plain_strings) linarith
  then have "set ?s \<subseteq> insert CHR ''.'' (dig ` {..< 16})"
    by (fastforce simp: plain_def dest: set_join)
  moreover have "CHR ''.'' \<in> set ?s" using assms by (intro sep_in_join) simp
  ultimately obtain r where "dropWhile (\<lambda>c. c \<noteq> CHR ''.'' \<and> c \<noteq> CHR '':'' \<and> c \<noteq> CHR ''%'') ?s = CHR ''.'' # r"
    using first_separator [of "CHR ''.''" ?s] by blast
  then show ?thesis using parse_dotted [OF assms] by (simp add: ParseIP_def parse_addr_def)
qed

lemma To4_mapped: "length b = 4 \<Longrightarrow> To4 (v4InV6Prefix @ b) = Some b"
  by (simp add: To4_def v4InV6Prefix_def)

section \<open>Lemmas: IPv6 groups\<close>

lemma hex_group_string:
  assumes "n < 65536" and "r = [] \<or> hex_val (hd r) = None"
  shows "hex_group (hex_string n @ r) 0 0 = Some (length (hex_string n), n, r)"
proof -
  have stop: "hex_group r off acc = Some (off, acc, r)" for off acc
    using assms(2) by (cases r) auto
  have d: "n div 4096 < 16" "n div 256 mod 16 < 16" "n div 16 mod 16 < 16" "n mod 16 < 16"
    "n < 4096 \<longrightarrow> n div 256 < 16" "n < 256 \<longrightarrow> n div 16 < 16" using assms(1) by auto
  have "n div 4096 * 16 + n div 256 mod 16 = n div 256" "n div 256 * 16 + n div 16 mod 16 = n div 16"
    using digit_step [of n 256 16] digit_step [of n 16 16] by simp_all
  then show ?thesis using d stop by (auto simp: hex_string_def)
qed

abbreviation group_bytes :: "nat \<Rightarrow> bytes" where
  "group_bytes g \<equiv> [word_of_nat (g div 256), word_of_nat g]"

abbreviation cat :: "nat list \<Rightarrow> bytes" where
  "cat gs \<equiv> concat (map group_bytes gs)"

abbreviation hexes :: "nat list \<Rightarrow> string" where
  "hexes gs \<equiv> join CHR '':'' (map hex_string gs)"

lemma hd_hex: "n < 65536 \<Longrightarrow> hd (hex_string n @ r) \<noteq> CHR '':'' \<and> hd (hex_string n @ r) \<noteq> CHR ''.''"
proof -
  assume "n < 65536"
  then have "hd (hex_string n @ r) \<in> dig ` {..< 16}"
    using plain_strings(2) [of n] by (cases "hex_string n") (auto simp: plain_def)
  then obtain x where "x < 16" "hd (hex_string n @ r) = dig x" by auto
  then show ?thesis using dig_neq [of x] by simp
qed

lemma hexes_ne: "gs \<noteq> [] \<Longrightarrow> hexes gs \<noteq> []"
  by (cases gs rule: list.exhaust [of "tl gs", case_product list.exhaust]) (auto simp: neq_Nil_conv)

lemma hd_hexes: "gs \<noteq> [] \<Longrightarrow> \<forall>g \<in> set gs. g < 65536 \<Longrightarrow> hd (hexes gs @ r) \<noteq> CHR '':''"
proof (cases gs)
  case (Cons g gs')
  assume "\<forall>g \<in> set gs. g < 65536"
  then show ?thesis using Cons hd_hex [of g] by (cases gs') simp_all
qed simp

text \<open>
  Parsing groups. A printed list of groups is read group by group: to the end of the text, or
  up to the double colon behind it.
\<close>

lemma join_Cons: "ss \<noteq> [] \<Longrightarrow> join sep (s # ss) = s @ sep # join sep ss"
  by (cases ss) simp_all

lemma hex_string_length [simp]: "length (hex_string g) \<noteq> 0"
  by (simp add: hex_string_def)

lemma parse_one_group:
  assumes "g < 65536" and "r = [] \<or> hd r = CHR '':''"
  shows "parse_groups (Suc k) (hex_string g @ r) ell ip =
     (let ip' = ip @ group_bytes g in
      case r of
        [] \<Rightarrow> Some ([], ell, ip')
      | c # r' \<Rightarrow>
          if r' = [] then None
          else if hd r' = CHR '':''
          then (if ell \<noteq> None then None
                else if tl r' = [] then Some ([], Some (length ip'), ip')
                else parse_groups k (tl r') (Some (length ip')) ip')
          else parse_groups k r' ell ip')"
proof -
  have "hex_group (hex_string g @ r) 0 0 = Some (length (hex_string g), g, r)"
    using assms by (intro hex_group_string) auto
  then show ?thesis using assms(2) by (cases r) (simp_all add: Let_def)
qed

lemma parse_group_list:
  assumes "gs \<noteq> []" and "\<forall>g \<in> set gs. g < 65536" and "length gs \<le> k"
  shows "parse_groups k (hexes gs) ell ip = Some ([], ell, ip @ cat gs)"
  using assms
proof (induction gs arbitrary: k ip)
  case (Cons g gs)
  obtain k' where k: "k = Suc k'" using Cons.prems(3) by (cases k) auto
  show ?case
  proof (cases "gs = []")
    case True
    then show ?thesis using Cons.prems parse_one_group [of g "[]" k' ell ip] by (simp add: k del: parse_groups.simps)
  next
    case False
    have "parse_groups k (hexes (g # gs)) ell ip = parse_groups k' (hexes gs) ell (ip @ group_bytes g)"
      using Cons.prems False hd_hexes [of gs "[]"] hexes_ne [of gs]
      by (simp add: join_Cons k parse_one_group del: parse_groups.simps)
    then show ?thesis using Cons.IH [of k'] Cons.prems False by (simp add: k del: parse_groups.simps)
  qed
qed simp

lemma parse_group_list_ellipsis:
  assumes "gs \<noteq> []" and "\<forall>g \<in> set gs. g < 65536" and "length gs \<le> k"
  shows "parse_groups k (hexes gs @ ''::'' @ t) None ip =
     (if t = [] then Some ([], Some (length ip + 2 * length gs), ip @ cat gs)
      else parse_groups (k - length gs) t (Some (length ip + 2 * length gs)) (ip @ cat gs))"
  using assms
proof (induction gs arbitrary: k ip)
  case (Cons g gs)
  obtain k' where k: "k = Suc k'" using Cons.prems(3) by (cases k) auto
  show ?case
  proof (cases "gs = []")
    case True
    then show ?thesis using Cons.prems parse_one_group [of g "''::'' @ t" k' None ip]
      by (simp add: k Let_def del: parse_groups.simps)
  next
    case False
    have "parse_groups k (hexes (g # gs) @ ''::'' @ t) None ip =
        parse_groups k' (hexes gs @ ''::'' @ t) None (ip @ group_bytes g)"
      using Cons.prems False hd_hexes [of gs "''::'' @ t"] hexes_ne [of gs]
      by (simp add: join_Cons k parse_one_group del: parse_groups.simps)
    then show ?thesis using Cons.IH [of k' "ip @ group_bytes g"] Cons.prems False by (simp add: k del: parse_groups.simps)
  qed
qed simp

lemma zero_run_zeros: "gs = replicate (zero_run gs) 0 @ drop (zero_run gs) gs" "zero_run gs \<le> length gs"
proof -
  have "takeWhile (\<lambda>g. g = 0) gs = replicate (zero_run gs) 0"
    by (auto simp: zero_run_def list_eq_iff_nth_eq dest: nth_mem set_takeWhileD)
  then show "gs = replicate (zero_run gs) 0 @ drop (zero_run gs) gs"
    by (metis append_take_drop_id takeWhile_eq_take zero_run_def)
  show "zero_run gs \<le> length gs" by (simp add: zero_run_def length_takeWhile_le)
qed

lemma find_run_result:
  assumes "find_run i gs best = (s, l)"
  shows "(s, l) = best \<or>
         (2 \<le> l \<and> i \<le> s \<and> s - i + l \<le> length gs \<and> drop (s - i) gs = replicate l 0 @ drop (s - i + l) gs)"
  using assms
proof (induction i gs best rule: find_run.induct)
  case (2 i g gs best)
  let ?l = "zero_run (g # gs)"
  let ?b = "if ?l \<ge> 2 \<and> ?l > snd best then (i, ?l) else best"
  consider "(s, l) = ?b" | "2 \<le> l" "i + 1 \<le> s" "s - (i + 1) + l \<le> length gs"
      "drop (s - (i + 1)) gs = replicate l 0 @ drop (s - (i + 1) + l) gs"
    using 2 by (auto simp: Let_def)
  then show ?case
  proof cases
    case 1
    then show ?thesis using zero_run_zeros [of "g # gs"] by (auto split: if_splits)
  next
    case (2)
    then obtain n where "s - i = Suc n" "s - (i + 1) = n" by (cases "s - i") auto
    then show ?thesis using 2 by auto
  qed
qed simp

lemma groups_props:
  assumes "even (length ip)"
  shows "cat (groups ip) = ip" "2 * length (groups ip) = length ip" "\<forall>g \<in> set (groups ip). g < 65536"
proof -
  have b0: "(256 :: byte) = 0" by simp
  show "cat (groups ip) = ip" using assms unat_lt256
  proof (induction ip rule: groups.induct)
    case (1 a b bs)
    have "(unat a * 256 + unat b) div 256 = unat a" using unat_lt256 [of b] by simp
    moreover have "word_of_nat (unat a * 256 + unat b) = b"
      using b0 by (simp only: of_nat_add of_nat_mult of_nat_numeral) simp
    ultimately show ?case using 1 by simp
  qed auto
  show "2 * length (groups ip) = length ip" using assms by (induction ip rule: groups.induct) auto
  have "unat a * 256 + unat b < 65536" for a b :: byte
    using unat_lt256 [of a] unat_lt256 [of b] by linarith
  then show "\<forall>g \<in> set (groups ip). g < 65536" by (induction ip rule: groups.induct) auto
qed

lemma length_cat [simp]: "length (cat gs) = 2 * length gs"
  by (induction gs) auto

lemma cat_zeros [simp]: "cat (replicate l 0) = replicate (2 * l) 0"
  by (induction l) auto

lemma no_leading_colons: "gs \<noteq> [] \<Longrightarrow> \<forall>g \<in> set gs. g < 65536 \<Longrightarrow> take 2 (hexes gs @ r) \<noteq> ''::''"
  using hd_hexes [of gs r] hexes_ne [of gs] by (cases "hexes gs") (auto simp: numeral_2_eq_2)

lemma parse_short:
  assumes "length gs1 + length gs2 < 8" and "\<forall>g \<in> set gs1. g < 65536" and "\<forall>g \<in> set gs2. g < 65536"
  shows "parseIPv6 (hexes gs1 @ ''::'' @ hexes gs2) =
         Some (cat gs1 @ replicate (16 - 2 * (length gs1 + length gs2)) 0 @ cat gs2)"
proof (cases "gs1 = []")
  case True
  then show ?thesis using assms parse_group_list [of gs2 8 "Some 0" "[]"] hexes_ne [of gs2]
    by (cases "gs2 = []") (simp_all add: parseIPv6_def expand_def del: parse_groups.simps)
next
  case False
  then have "parseIPv6 (hexes gs1 @ ''::'' @ hexes gs2) =
      Option.bind (parse_groups 8 (hexes gs1 @ ''::'' @ hexes gs2) None []) expand"
    using no_leading_colons [of gs1 "''::'' @ hexes gs2"] assms by (simp add: parseIPv6_def del: parse_groups.simps)
  also have "\<dots> = Some (cat gs1 @ replicate (16 - 2 * (length gs1 + length gs2)) 0 @ cat gs2)"
    using False assms parse_group_list_ellipsis [of gs1 8 "hexes gs2" "[]"] hexes_ne [of gs2]
      parse_group_list [of gs2 "8 - length gs1" "Some (2 * length gs1)" "cat gs1"]
    by (cases "gs2 = []") (simp_all add: expand_def del: parse_groups.simps)
  finally show ?thesis .
qed

lemma parse_string6:
  assumes "length gs = 8" and "\<forall>g \<in> set gs. g < 65536"
  shows "parseIPv6 (string6 gs) = Some (cat gs)"
proof -
  obtain s l where r: "find_run 0 gs (0, 0) = (s, l)" by fastforce
  show ?thesis
  proof (cases "l = 0")
    case True
    have "gs \<noteq> []" using assms(1) by auto
    then show ?thesis
      using True assms r no_leading_colons [of gs "[]"] parse_group_list [of gs 8 None "[]"]
      by (simp add: string6_def parseIPv6_def expand_def del: parse_groups.simps)
  next
    case False
    then have zeros: "2 \<le> l" "s + l \<le> 8" "drop s gs = replicate l 0 @ drop (s + l) gs"
      using find_run_result [OF r] assms(1) by auto
    have small: "\<forall>g \<in> set (take s gs). g < 65536" "\<forall>g \<in> set (drop (s + l) gs). g < 65536"
      using assms(2) by (auto dest: in_set_takeD in_set_dropD)
    have "cat gs = cat (take s gs) @ replicate (2 * l) 0 @ cat (drop (s + l) gs)"
    proof -
      have "cat gs = cat (take s gs @ drop s gs)" by simp
      also have "\<dots> = cat (take s gs) @ replicate (2 * l) 0 @ cat (drop (s + l) gs)"
        by (simp only: zeros(3) map_append concat_append cat_zeros)
      finally show ?thesis .
    qed
    then show ?thesis
      using False zeros assms(1) parse_short [OF _ small] r by (simp add: string6_def)
  qed
qed

lemma ParseIP_v6:
  assumes "length ip = 16"
  shows "ParseIP (string6 (groups ip)) = Some ip"
proof -
  let ?gs = "groups ip"
  have gs: "cat ?gs = ip" "length ?gs = 8" "\<forall>g \<in> set ?gs. g < 65536"
    using groups_props [of ip] assms by auto
  have part: "set (hexes gs) \<subseteq> insert CHR '':'' (dig ` {..< 16})" if "set gs \<subseteq> set ?gs" for gs
  proof
    fix c
    assume "c \<in> set (hexes gs)"
    then consider "c = CHR '':''" | g where "g \<in> set gs" "c \<in> set (hex_string g)" by (auto dest!: set_join)
    then show "c \<in> insert CHR '':'' (dig ` {..< 16})"
      using that gs(3) plain_strings(2) by cases (auto simp: plain_def)
  qed
  obtain s l where r: "find_run 0 ?gs (0, 0) = (s, l)" by fastforce
  have "set (string6 ?gs) \<subseteq> insert CHR '':'' (dig ` {..< 16})"
    using part [of ?gs] part [of "take s ?gs"] part [of "drop (s + l) ?gs"] set_take_subset [of s ?gs] set_drop_subset [of "s + l" ?gs]
    by (auto simp: string6_def r)
  moreover have "CHR '':'' \<in> set (string6 ?gs)"
    using gs(2) sep_in_join [of "map hex_string ?gs" "CHR '':''"] by (simp add: string6_def r)
  ultimately obtain t where
    "dropWhile (\<lambda>c. c \<noteq> CHR ''.'' \<and> c \<noteq> CHR '':'' \<and> c \<noteq> CHR ''%'') (string6 ?gs) = CHR '':'' # t"
    "CHR ''%'' \<notin> set (string6 ?gs)"
    using first_separator [of "CHR '':''" "string6 ?gs"] by blast
  then show ?thesis using parse_string6 gs by (simp add: ParseIP_def parse_addr_def)
qed

lemma ParseIP_String:
  "length ip = 4 \<Longrightarrow> ParseIP (ip_String ip) = Some (v4InV6Prefix @ ip)"
  "length ip = 16 \<Longrightarrow> ParseIP (ip_String ip) = Some ip"
proof -
  show "ParseIP (ip_String ip) = Some (v4InV6Prefix @ ip)" if "length ip = 4"
    using that by (simp add: ip_String_def To4_def ParseIP_v4)
  assume l: "length ip = 16"
  show "ParseIP (ip_String ip) = Some ip"
  proof (cases "To4 ip")
    case None
    then show ?thesis using l by (simp add: ip_String_def ParseIP_v6)
  next
    case (Some b)
    then have "b = drop 12 ip" "take 12 ip = v4InV6Prefix" using l by (auto simp: To4_def split: if_splits)
    then have "ip = v4InV6Prefix @ b" "length b = 4"
      using l append_take_drop_id [of 12 ip] by auto
    then show ?thesis using Some by (simp add: ip_String_def ParseIP_v4)
  qed
qed

section \<open>Reading and writing headers\<close>

lemma read_n_Inr [simp]: "read_n n r = Inr (x, r') \<longleftrightarrow> length x = n \<and> r = x @ r'"
  by (auto simp: read_n_def ReadFull_def split: if_splits)

lemma read_n_append: "length x = n \<Longrightarrow> read_n n (x @ r) = Inr (x, r)"
  by simp

lemma read_port_Inr [simp]:
  "read_port t a r = Inr (d, r') \<longleftrightarrow>
     (\<exists>p. length p = 2 \<and> r = p @ r' \<and> d = \<lparr>AddrType = t, Addr = a, Port = Uint16 p\<rparr>)"
  by (auto simp: read_port_def read_n_append split: sum.splits)

text \<open>The three forms of a header.\<close>

definition header :: "byte \<Rightarrow> bytes \<Rightarrow> bytes" where
  "header t a = t # (if t = AddrTypeDomain then word_of_nat (length a) # a else a)"

definition header_addr :: "byte \<Rightarrow> bytes \<Rightarrow> string" where
  "header_addr t a = (if t = AddrTypeDomain then string_of_bytes a else ip_String a)"

definition header_ok :: "byte \<Rightarrow> bytes \<Rightarrow> bool" where
  "header_ok t a \<longleftrightarrow>
     (t = AddrTypeIPv4 \<and> length a = 4) \<or> (t = AddrTypeDomain \<and> length a < 256) \<or> (t = AddrTypeIPv6 \<and> length a = 16)"

lemma ReadDestination_iff:
  "ReadDestination b = Inr (d, r) \<longleftrightarrow>
     (\<exists>t a p. header_ok t a \<and> length p = 2 \<and> b = header t a @ p @ r \<and>
        d = \<lparr>AddrType = t, Addr = header_addr t a, Port = Uint16 p\<rparr>)" (is "_ \<longleftrightarrow> ?rhs")
proof
  assume "ReadDestination b = Inr (d, r)"
  then obtain t r1 where b: "b = t # r1" and rd: "readDestFromReader t r1 = Inr (d, r)"
    by (auto simp: ReadDestination_def length_Suc_conv split: sum.splits)
  have addr: ?rhs if v: "t = AddrTypeIPv4 \<or> t = AddrTypeIPv6"
  proof -
    have "(case read_n (if t = AddrTypeIPv4 then 4 else 16) r1 of
            Inl e \<Rightarrow> Inl e | Inr (ip, r1) \<Rightarrow> read_port t (ip_String ip) r1) = Inr (d, r)"
      using rd v by (auto simp: readDestFromReader_def)
    then obtain a p where "r1 = a @ p @ r" "length a = (if t = AddrTypeIPv4 then 4 else 16)" "length p = 2"
      "d = \<lparr>AddrType = t, Addr = ip_String a, Port = Uint16 p\<rparr>"
      by (auto split: sum.splits)
    then show ?rhs using b v
      by (intro exI [of _ t] exI [of _ a] exI [of _ p]) (auto simp: header_ok_def header_def header_addr_def)
  qed
  consider "t = AddrTypeIPv4" | "t = AddrTypeDomain" | "t = AddrTypeIPv6" | "t \<notin> {AddrTypeIPv4, AddrTypeDomain, AddrTypeIPv6}" by blast
  then show ?rhs
  proof cases
    case 2
    then obtain l a p where "r1 = l # a @ p @ r" "length a = unat l" "length p = 2"
      "d = \<lparr>AddrType = t, Addr = string_of_bytes a, Port = Uint16 p\<rparr>"
      using rd by (auto simp: readDestFromReader_def length_Suc_conv split: sum.splits)
    then show ?thesis using b 2 unat_lt256 [of l]
      by (intro exI [of _ t] exI [of _ a] exI [of _ p]) (simp add: header_ok_def header_def header_addr_def)
  next
    case 4
    then show ?thesis using rd by (simp add: readDestFromReader_def)
  qed (use addr in blast)+
next
  assume ?rhs
  then obtain t a p where h: "header_ok t a" "length p = 2" "b = header t a @ p @ r"
    "d = \<lparr>AddrType = t, Addr = header_addr t a, Port = Uint16 p\<rparr>" by blast
  have first: "read_n (Suc 0) (x # y) = Inr ([x], y)" for x y by simp
  have "length a < 256 \<Longrightarrow> length a = unat (word_of_nat (length a) :: byte)" by (simp add: unat_of_nat)
  then show "ReadDestination b = Inr (d, r)"
    using h
    by (auto simp: ReadDestination_def readDestFromReader_def header_ok_def header_def header_addr_def first read_n_append)
qed

lemma header_parsed:
  assumes "header_ok t a" and "length p = 2"
  shows "ParseDestinationFromBuf (header t a @ p @ r) = Some \<lparr>AddrType = t, Addr = header_addr t a, Port = Uint16 p\<rparr>"
proof -
  have slice: "go_slice (u @ v @ w) i j = v" if "length u = i" "length v = j - i" for u v w :: bytes and i j
    using that by (simp add: go_slice_def)
  consider "t = AddrTypeIPv4" "length a = 4" | "t = AddrTypeDomain" "length a < 256" | "t = AddrTypeIPv6" "length a = 16"
    using assms(1) by (auto simp: header_ok_def)
  then show ?thesis
  proof cases
    case 1
    then show ?thesis using assms(2) slice [of "[t]" 1 a 5 "p @ r"] slice [of "t # a" 5 p 7 r]
      by (simp add: ParseDestinationFromBuf_def header_def header_addr_def Let_def)
  next
    case 2
    then have "unat (word_of_nat (length a) :: byte) = length a" by (simp add: unat_of_nat)
    then show ?thesis
      using 2 assms(2) slice [of "[t, word_of_nat (length a)]" 2 a "2 + length a" "p @ r"]
        slice [of "t # word_of_nat (length a) # a" "2 + length a" p "2 + length a + 2" r]
      by (simp add: ParseDestinationFromBuf_def header_def header_addr_def Let_def)
  next
    case 3
    then show ?thesis using assms(2) slice [of "[t]" 1 a 17 "p @ r"] slice [of "t # a" 17 p 19 r]
      by (simp add: ParseDestinationFromBuf_def header_def header_addr_def Let_def)
  qed
qed

lemma parsed_header:
  assumes "ParseDestinationFromBuf b = Some d"
  shows "\<exists>t a p r. header_ok t a \<and> length p = 2 \<and> b = header t a @ p @ r"
proof -
  have rest: "\<exists>p r. length p = 2 \<and> drop i b = p @ r" if "i + 2 \<le> length b" for i
    using that by (intro exI [of _ "take 2 (drop i b)"] exI [of _ "drop 2 (drop i b)"]) (simp del: drop_drop)
  have "b \<noteq> []" using assms by (auto simp: ParseDestinationFromBuf_def)
  then obtain t b' where b: "b = t # b'" by (cases b) auto
  consider "t = AddrTypeIPv4" "7 \<le> length b" | "t = AddrTypeDomain" "4 \<le> length b" "2 + unat (b ! 1) + 2 \<le> length b"
    | "t = AddrTypeIPv6" "19 \<le> length b"
    using assms b by (auto simp: ParseDestinationFromBuf_def Let_def split: if_splits)
  then show ?thesis
  proof cases
    case 1
    then obtain p r where "length p = 2" "drop 5 b = p @ r" using rest [of 5] by auto
    then show ?thesis using 1 b append_take_drop_id [of 4 b']
      by (intro exI [of _ t] exI [of _ "take 4 b'"] exI [of _ p] exI [of _ r]) (auto simp: header_ok_def header_def)
  next
    case 2
    then obtain l b'' where b': "b' = l # b''" using b by (cases b') auto
    obtain p r where "length p = 2" "drop (2 + unat l) b = p @ r" using rest [of "2 + unat l"] 2 b b' by auto
    then show ?thesis using 2 b b' append_take_drop_id [of "unat l" b''] unat_lt256 [of l]
      by (intro exI [of _ t] exI [of _ "take (unat l) b''"] exI [of _ p] exI [of _ r])
        (auto simp: header_ok_def header_def min_def)
  next
    case 3
    then obtain p r where "length p = 2" "drop 17 b = p @ r" using rest [of 17] by auto
    then show ?thesis using 3 b append_take_drop_id [of 16 b']
      by (intro exI [of _ t] exI [of _ "take 16 b'"] exI [of _ p] exI [of _ r]) (auto simp: header_ok_def header_def)
  qed
qed

text \<open>The parser of the buffered header and the stream reader are the same function of the bytes:
  they accept the same headers with the same result, whatever follows, and refuse the same
  ones (short, truncated, of unknown type).\<close>

lemma destination_parsers_agree:
  "ParseDestinationFromBuf b = (case ReadDestination b of Inl _ \<Rightarrow> None | Inr (d, _) \<Rightarrow> Some d)"
proof (cases "ParseDestinationFromBuf b")
  case None
  have "ReadDestination b \<noteq> Inr (d, r)" for d r
    using None header_parsed by (auto simp: ReadDestination_iff)
  then show ?thesis using None by (auto split: sum.splits)
next
  case (Some d)
  then obtain t a p r where h: "header_ok t a" "length p = 2" "b = header t a @ p @ r"
    using parsed_header by blast
  then have "ReadDestination b = Inr (\<lparr>AddrType = t, Addr = header_addr t a, Port = Uint16 p\<rparr>, r)"
    unfolding ReadDestination_iff by blast
  then show ?thesis using h header_parsed by simp
qed

lemma header_written:
  assumes "header_ok t a" and "length p = 2" and "t = AddrTypeIPv6 \<Longrightarrow> To4 a = None"
  shows "WriteDestination \<lparr>AddrType = t, Addr = header_addr t a, Port = Uint16 p\<rparr> = (header t a @ p, None)"
    "WriteDestinationBuffer \<lparr>AddrType = t, Addr = header_addr t a, Port = Uint16 p\<rparr> = header t a @ p"
  using assms
  by (auto simp: WriteDestination_def WriteDestinationBuffer_def header_ok_def header_def header_addr_def Let_def
      ParseIP_String To4_mapped copy_into_def PutUint_Uint)

lemma header_not_written:
  assumes "length a = 16" and "To4 a \<noteq> None"
  shows "WriteDestination \<lparr>AddrType = AddrTypeIPv6, Addr = ip_String a, Port = p\<rparr> = ([AddrTypeIPv6], Some InvalidIPv6)"
    "WriteDestinationBuffer \<lparr>AddrType = AddrTypeIPv6, Addr = ip_String a, Port = p\<rparr> = []"
  using assms by (simp_all add: WriteDestination_def WriteDestinationBuffer_def Let_def ParseIP_String)

text \<open>C26. Reading a destination and writing it back, to a stream or to the header of the first
  frame, gives exactly the bytes that were read, and the peer parses them into the same
  destination. The one exception is an IPv6 address in the IPv4-mapped range: it is read, but
  both writers refuse it.\<close>

theorem destination_roundtrip:
  assumes "ReadDestination b = Inr (d, r)"
  shows "if AddrType d = AddrTypeIPv6 \<and> To4 (go_slice b 1 17) \<noteq> None
         then WriteDestinationBuffer d = [] \<and> WriteDestination d = ([AddrTypeIPv6], Some InvalidIPv6)
         else b = WriteDestinationBuffer d @ r \<and> WriteDestination d = (WriteDestinationBuffer d, None) \<and>
              ParseDestinationFromBuf (WriteDestinationBuffer d @ x) = Some d"
proof -
  obtain t a p where h: "header_ok t a" "length p = 2" "b = header t a @ p @ r"
    and d: "d = \<lparr>AddrType = t, Addr = header_addr t a, Port = Uint16 p\<rparr>"
    using assms unfolding ReadDestination_iff by blast
  have a16: "go_slice b 1 17 = a" "length a = 16" "header_addr t a = ip_String a" if "t = AddrTypeIPv6"
    using h that by (auto simp: header_ok_def header_def header_addr_def go_slice_def)
  show ?thesis
  proof (cases "t = AddrTypeIPv6 \<and> To4 a \<noteq> None")
    case True
    then show ?thesis using a16 header_not_written [of a] by (simp add: d)
  next
    case False
    then show ?thesis using a16 h header_written [OF h(1,2)] header_parsed [OF h(1,2), of x] by (auto simp: d)
  qed
qed

definition dest_bytes :: bytes where
  "dest_bytes = [4, 0x20, 1, 0x0d, 0xb8, 0, 0, 0, 0, 0, 0, 0, 0, 0, 0, 0, 1, 1, 0xbb, 7]"

lemma dest_bytes_string: "ip_String [0x20, 1, 0x0d, 0xb8, 0, 0, 0, 0, 0, 0, 0, 0, 0, 0, 0, 1] = ''2001:db8::1''"
  by (simp add: ip_String_def To4_def v4InV6Prefix_def string6_def zero_run_def hex_string_def dig_def Let_def char_of_def bit_Suc_0_iff)

theorem destination_roundtrip_witness:
  "WriteDestinationBuffer \<lparr>AddrType = AddrTypeIPv6, Addr = ''2001:db8::1'', Port = 443\<rparr> = take 19 dest_bytes"
proof -
  have "ReadDestination dest_bytes = Inr (\<lparr>AddrType = AddrTypeIPv6, Addr = ''2001:db8::1'', Port = 443\<rparr>, [7])"
    using dest_bytes_string by (simp add: ReadDestination_def readDestFromReader_def read_port_def read_n_def
      ReadFull_def dest_bytes_def Uint16_def)
  moreover have "To4 (go_slice dest_bytes 1 17) = None" by code_simp
  ultimately have "dest_bytes = WriteDestinationBuffer \<lparr>AddrType = AddrTypeIPv6, Addr = ''2001:db8::1'', Port = 443\<rparr> @ [7]"
    using destination_roundtrip [of dest_bytes "\<lparr>AddrType = AddrTypeIPv6, Addr = ''2001:db8::1'', Port = 443\<rparr>" "[7]" "[]"]
    by simp
  then show ?thesis by (simp add: dest_bytes_def)
qed

lemma bytes_of_string_take: "take n (bytes_of_string s) = bytes_of_string (take n s)"
  by (simp add: bytes_of_string_def take_map)

lemma long_domain_truncated:
  "255 < length a \<Longrightarrow> ParseDestinationFromBuf (WriteDestinationBuffer \<lparr>AddrType = AddrTypeDomain, Addr = a, Port = p\<rparr>) =
     Some \<lparr>AddrType = AddrTypeDomain, Addr = take 255 a, Port = p\<rparr>"
  using header_parsed [of AddrTypeDomain "bytes_of_string (take 255 a)" "PutUint16 p" "[]"]
  by (simp add: WriteDestinationBuffer_def header_ok_def header_def header_addr_def Let_def bytes_of_string_take)

end
