(* ===== verification/Telemetry.thy ===== *)
theory Telemetry
  imports Session
begin

text \<open>
  The counters of a node: the per-session flags of \<^verbatim>\<open>src/pkg/session/streamstats.go\<close> and the
  metrics set of \<^verbatim>\<open>src/pkg/node/metrics.go\<close> with its classification of close reasons.

  The metrics struct is a fixed list of \<open>int64\<close> fields under one lock. A value of \<open>counter\<close>
  names a field and the struct is a function from fields to values; each method is one
  update. The per-carrier maps exist only after \<open>SetMultiCarrier\<close>.
\<close>

section \<open>Session flags\<close>

record SessionStats =
  FirstByte :: bool
  CleanHalfClose :: bool
  Terminated :: bool
  DataUndeliverable :: bool
  OpenNanos :: int
  FirstByteNanos :: int

definition new_stats :: "int \<Rightarrow> SessionStats" where
  "new_stats now = \<lparr>FirstByte = False, CleanHalfClose = False, Terminated = False,
     DataUndeliverable = False, OpenNanos = now, FirstByteNanos = 0\<rparr>"

definition MarkFirstByte :: "SessionStats \<Rightarrow> bool \<times> SessionStats" where
  "MarkFirstByte s = (if FirstByte s then (False, s) else (True, s\<lparr>FirstByte := True\<rparr>))"

definition MarkCleanHalfClose :: "SessionStats \<Rightarrow> SessionStats" where
  "MarkCleanHalfClose s = s\<lparr>CleanHalfClose := True\<rparr>"

definition MarkFirstByteNanos :: "int \<Rightarrow> SessionStats \<Rightarrow> SessionStats" where
  "MarkFirstByteNanos nanos s =
     (if FirstByteNanos s \<noteq> 0 then s else s\<lparr>FirstByteNanos := nanos\<rparr>)"

definition TTFB :: "SessionStats \<Rightarrow> int" where
  "TTFB s =
     (if OpenNanos s \<le> 0 \<or> FirstByteNanos s \<le> 0 \<or> FirstByteNanos s < OpenNanos s then 0
      else FirstByteNanos s - OpenNanos s)"

definition MarkTerminated :: "SessionStats \<Rightarrow> SessionStats" where
  "MarkTerminated s = s\<lparr>Terminated := True\<rparr>"

definition MarkDataUndeliverable :: "SessionStats \<Rightarrow> SessionStats" where
  "MarkDataUndeliverable s = s\<lparr>DataUndeliverable := True\<rparr>"

section \<open>Close reasons\<close>

datatype CloseReason =
  ReasonOther | ReasonClientEOF | ReasonTargetEOF | ReasonCarrier | ReasonOverflow | ReasonTimeout
  | ReasonDataUndeliverable

primrec closeReasonNames :: "CloseReason \<Rightarrow> string" where
  "closeReasonNames ReasonOther = ''other''"
| "closeReasonNames ReasonClientEOF = ''client_eof''"
| "closeReasonNames ReasonTargetEOF = ''target_eof''"
| "closeReasonNames ReasonCarrier = ''carrier''"
| "closeReasonNames ReasonOverflow = ''overflow''"
| "closeReasonNames ReasonTimeout = ''timeout''"
| "closeReasonNames ReasonDataUndeliverable = ''data_undeliverable''"

definition closeReasonClass :: "SessionStats \<Rightarrow> string \<Rightarrow> CloseReason" where
  "closeReasonClass st rsn =
     (if DataUndeliverable st \<or> Contains rsn ''undeliverable'' then ReasonDataUndeliverable
      else if Terminated st then ReasonOverflow
      else if Contains rsn ''overflow'' then ReasonOverflow
      else if Contains rsn ''timeout'' \<or> Contains rsn ''did not finish'' then ReasonTimeout
      else if Contains rsn ''carrier'' \<or> Contains rsn ''reattach'' \<or> Contains rsn ''grace'' \<or>
              Contains rsn ''stream registration failed'' \<or>
              Contains rsn ''up-carrier header write failed'' \<or> Contains rsn ''closed by peer'' \<or>
              Contains rsn ''peer reset'' \<or> Contains rsn ''bootstrap'' then ReasonCarrier
      else if Contains rsn ''client EOF'' \<or> Contains rsn ''client socket EOF'' then ReasonClientEOF
      else if Contains rsn ''target EOF'' \<or> Contains rsn ''target socket EOF'' then ReasonTargetEOF
      else ReasonOther)"

section \<open>Counters\<close>

datatype counter =
    activeSessions | totalSessions | bytesUp | bytesDown | errs
  | carrierLossEvents | carrierReconnects | carrierRebinds | carrierRebindFailures
  | rebindUnknownPeer | rebindStaleGeneration | rebindOtherRefusal
  | sessionsRecovered | sessionsLostAfterCarF | graceTimeoutTerminalClose | sessionBufferReclaimed
  | sessionFirstByteSeen | sessionClosedPreFirst | sessionMidTransfer | sessionCleanComplete
  | targetDialOK | targetDialFail | upNewStreamRefired | downNewStreamRefired
  | streamResetsReceived | bootstrapAcksReceived | targetDialFailBreakerOpen | targetDialFailTimeout
  | relayBytesRead | relayBytesWritten | relayPendingHigh | relayBufferHighBytes | relayWriteFail
  | relayBufferFull | relaySocketReadErr | relaySocketWriteErr
  | closeReasonCount CloseReason
  | relayCreditEmittedTotal | relayCreditDroppedTotal | relayCreditGateParkTotal
  | relayCreditSentBytesTotal | relayCreditConsumedBytesTotal

record Metrics =
  cnt :: "counter \<Rightarrow> int"
  multiCarrier :: bool
  carrierOrder :: "string list"
  carrierLossByID :: "string \<Rightarrow> int"
  carrierReconnectByID :: "string \<Rightarrow> int"

definition NewMetrics :: Metrics where
  "NewMetrics = \<lparr>cnt = (\<lambda>_. 0), multiCarrier = False, carrierOrder = [], carrierLossByID = (\<lambda>_. 0),
     carrierReconnectByID = (\<lambda>_. 0)\<rparr>"

definition SetMultiCarrier :: "string list \<Rightarrow> Metrics \<Rightarrow> Metrics" where
  "SetMultiCarrier ids m = m\<lparr>multiCarrier := True, carrierOrder := ids, carrierLossByID := (\<lambda>_. 0),
     carrierReconnectByID := (\<lambda>_. 0)\<rparr>"

text \<open>The shared body of the counting methods: add to one field.\<close>

definition bump :: "counter \<Rightarrow> int \<Rightarrow> Metrics \<Rightarrow> Metrics" where
  "bump c n m = m\<lparr>cnt := (cnt m)(c := cnt m c + n)\<rparr>"

definition CarrierLossEvent :: "Metrics \<Rightarrow> Metrics" where
  "CarrierLossEvent m = bump carrierLossEvents 1 m"

definition CarrierReconnect :: "Metrics \<Rightarrow> Metrics" where
  "CarrierReconnect m = bump carrierReconnects 1 m"

definition CarrierLossEventOn :: "string \<Rightarrow> Metrics \<Rightarrow> Metrics" where
  "CarrierLossEventOn cid m =
     (if multiCarrier m then m\<lparr>carrierLossByID := (carrierLossByID m)(cid := carrierLossByID m cid + 1)\<rparr>
      else m)"

definition CarrierReconnectOn :: "string \<Rightarrow> Metrics \<Rightarrow> Metrics" where
  "CarrierReconnectOn cid m =
     (if multiCarrier m
      then m\<lparr>carrierReconnectByID := (carrierReconnectByID m)(cid := carrierReconnectByID m cid + 1)\<rparr>
      else m)"

definition SessionStarted :: "Metrics \<Rightarrow> Metrics" where
  "SessionStarted m = bump totalSessions 1 (bump activeSessions 1 m)"

definition SessionEnded :: "Metrics \<Rightarrow> Metrics" where
  "SessionEnded m = bump activeSessions (- 1) m"

definition AddUp :: "int \<Rightarrow> Metrics \<Rightarrow> Metrics" where
  "AddUp n m = bump bytesUp n m"

definition AddDown :: "int \<Rightarrow> Metrics \<Rightarrow> Metrics" where
  "AddDown n m = bump bytesDown n m"

definition metric_Error :: "Metrics \<Rightarrow> Metrics" where
  "metric_Error m = bump errs 1 m"

definition metric_Rebind :: "Metrics \<Rightarrow> Metrics" where
  "metric_Rebind m = bump carrierRebinds 1 m"

definition RebindRefusal :: "string \<Rightarrow> Metrics \<Rightarrow> Metrics" where
  "RebindRefusal rsn m =
     (let m1 = bump carrierRebindFailures 1 m
      in if rsn = ''unknown_peer'' then bump rebindUnknownPeer 1 m1
         else if rsn = ''stale_generation'' then bump rebindStaleGeneration 1 m1
         else bump rebindOtherRefusal 1 m1)"

definition RebindFailure :: "Metrics \<Rightarrow> Metrics" where
  "RebindFailure m = RebindRefusal ''other'' m"

definition SessionRecovered :: "Metrics \<Rightarrow> Metrics" where
  "SessionRecovered m = bump sessionsRecovered 1 m"

definition SessionLostAfterFailure :: "Metrics \<Rightarrow> Metrics" where
  "SessionLostAfterFailure m = bump graceTimeoutTerminalClose 1 (bump sessionsLostAfterCarF 1 m)"

text \<open>The byte counters ignore a count that is not positive, the high-water marks keep the maximum.\<close>

definition add_positive :: "counter \<Rightarrow> int \<Rightarrow> Metrics \<Rightarrow> Metrics" where
  "add_positive c n m = (if n \<le> 0 then m else bump c n m)"

definition raise_mark :: "counter \<Rightarrow> int \<Rightarrow> Metrics \<Rightarrow> Metrics" where
  "raise_mark c n m =
     (if n \<le> 0 then m else if n > cnt m c then m\<lparr>cnt := (cnt m)(c := n)\<rparr> else m)"

definition AddSessionBufferReclaimed :: "int \<Rightarrow> Metrics \<Rightarrow> Metrics" where
  "AddSessionBufferReclaimed n m = add_positive sessionBufferReclaimed n m"

definition SessionFirstByteSeen :: "Metrics \<Rightarrow> Metrics" where
  "SessionFirstByteSeen m = bump sessionFirstByteSeen 1 m"

definition SessionClosedBeforeFirstByte :: "Metrics \<Rightarrow> Metrics" where
  "SessionClosedBeforeFirstByte m = bump sessionClosedPreFirst 1 m"

definition SessionMidTransfer :: "Metrics \<Rightarrow> Metrics" where
  "SessionMidTransfer m = bump sessionMidTransfer 1 m"

definition SessionCleanComplete :: "Metrics \<Rightarrow> Metrics" where
  "SessionCleanComplete m = bump sessionCleanComplete 1 m"

definition TargetDialSuccess :: "Metrics \<Rightarrow> Metrics" where
  "TargetDialSuccess m = bump targetDialOK 1 m"

definition TargetDialFailure :: "Metrics \<Rightarrow> Metrics" where
  "TargetDialFailure m = bump targetDialFail 1 m"

definition UpNewStreamRefiredAfterDeregister :: "Metrics \<Rightarrow> Metrics" where
  "UpNewStreamRefiredAfterDeregister m = bump upNewStreamRefired 1 m"

definition DownNewStreamRefiredAfterDeregister :: "Metrics \<Rightarrow> Metrics" where
  "DownNewStreamRefiredAfterDeregister m = bump downNewStreamRefired 1 m"

definition TargetDialFailureBreakerOpen :: "Metrics \<Rightarrow> Metrics" where
  "TargetDialFailureBreakerOpen m = bump targetDialFailBreakerOpen 1 m"

definition TargetDialFailureTimeout :: "Metrics \<Rightarrow> Metrics" where
  "TargetDialFailureTimeout m = bump targetDialFailTimeout 1 m"

definition ResetReceived :: "Metrics \<Rightarrow> Metrics" where
  "ResetReceived m = bump streamResetsReceived 1 m"

definition BootstrapAckReceived :: "Metrics \<Rightarrow> Metrics" where
  "BootstrapAckReceived m = bump bootstrapAcksReceived 1 m"

definition AddRelayBytesRead :: "int \<Rightarrow> Metrics \<Rightarrow> Metrics" where
  "AddRelayBytesRead n m = add_positive relayBytesRead n m"

definition AddRelayBytesWritten :: "int \<Rightarrow> Metrics \<Rightarrow> Metrics" where
  "AddRelayBytesWritten n m = add_positive relayBytesWritten n m"

definition RelayPendingHigh :: "int \<Rightarrow> Metrics \<Rightarrow> Metrics" where
  "RelayPendingHigh n m = raise_mark relayPendingHigh n m"

definition RelayBufferHigh :: "int \<Rightarrow> Metrics \<Rightarrow> Metrics" where
  "RelayBufferHigh n m = raise_mark relayBufferHighBytes n m"

definition RelayWriteFailure :: "Metrics \<Rightarrow> Metrics" where
  "RelayWriteFailure m = bump relayWriteFail 1 m"

definition RelayBufferFull :: "Metrics \<Rightarrow> Metrics" where
  "RelayBufferFull m = bump relayBufferFull 1 m"

definition RelaySocketReadError :: "Metrics \<Rightarrow> Metrics" where
  "RelaySocketReadError m = bump relaySocketReadErr 1 m"

definition RelaySocketWriteError :: "Metrics \<Rightarrow> Metrics" where
  "RelaySocketWriteError m = bump relaySocketWriteErr 1 m"

definition CreditEmitted :: "Metrics \<Rightarrow> Metrics" where
  "CreditEmitted m = bump relayCreditEmittedTotal 1 m"

definition CreditDropped :: "Metrics \<Rightarrow> Metrics" where
  "CreditDropped m = bump relayCreditDroppedTotal 1 m"

definition CreditGatePark :: "Metrics \<Rightarrow> Metrics" where
  "CreditGatePark m = bump relayCreditGateParkTotal 1 m"

definition AddCreditSentBytes :: "int \<Rightarrow> Metrics \<Rightarrow> Metrics" where
  "AddCreditSentBytes n m = bump relayCreditSentBytesTotal n m"

definition AddCreditConsumedBytes :: "int \<Rightarrow> Metrics \<Rightarrow> Metrics" where
  "AddCreditConsumedBytes n m = bump relayCreditConsumedBytesTotal n m"

definition metric_SessionClosed :: "CloseReason \<Rightarrow> Metrics \<Rightarrow> Metrics" where
  "metric_SessionClosed r m = bump (closeReasonCount r) 1 m"

lemmas metric_defs = CarrierLossEvent_def CarrierReconnect_def CarrierLossEventOn_def CarrierReconnectOn_def
  SessionStarted_def SessionEnded_def AddUp_def AddDown_def metric_Error_def metric_Rebind_def RebindRefusal_def
  RebindFailure_def SessionRecovered_def SessionLostAfterFailure_def add_positive_def raise_mark_def
  AddSessionBufferReclaimed_def SessionFirstByteSeen_def SessionClosedBeforeFirstByte_def SessionMidTransfer_def
  SessionCleanComplete_def TargetDialSuccess_def TargetDialFailure_def UpNewStreamRefiredAfterDeregister_def
  DownNewStreamRefiredAfterDeregister_def TargetDialFailureBreakerOpen_def TargetDialFailureTimeout_def
  ResetReceived_def BootstrapAckReceived_def AddRelayBytesRead_def AddRelayBytesWritten_def RelayPendingHigh_def
  RelayBufferHigh_def RelayWriteFailure_def RelayBufferFull_def RelaySocketReadError_def
  RelaySocketWriteError_def CreditEmitted_def CreditDropped_def CreditGatePark_def AddCreditSentBytes_def
  AddCreditConsumedBytes_def metric_SessionClosed_def bump_def Let_def

section \<open>Lemmas\<close>

lemma Contains_append: "Contains (xs @ p @ ys) p"
  by (induction xs) (cases p; cases ys; simp add: HasPrefix_def; force simp: HasPrefix_def)+

text \<open>The reasons the program closes sessions with, and their class on an unmarked session.\<close>

lemma closeReasonClass_known:
  assumes "\<not> DataUndeliverable st" and "\<not> Terminated st"
  shows "closeReasonClass st ''client EOF'' = ReasonClientEOF"
    "closeReasonClass st ''target EOF'' = ReasonTargetEOF"
    "closeReasonClass st ''upload carrier timeout'' = ReasonTimeout"
    "closeReasonClass st ''download carrier timeout'' = ReasonTimeout"
    "closeReasonClass st ''target did not finish after client EOF'' = ReasonTimeout"
    "closeReasonClass st ''up stream closed by peer'' = ReasonCarrier"
    "closeReasonClass st ''client disconnected before bootstrap'' = ReasonCarrier"
    "closeReasonClass st ''client socket read error'' = ReasonOther"
  using assms by (simp_all add: closeReasonClass_def HasPrefix_def)

end
