(* ===== verification/Intel.thy ===== *)
theory Intel
  imports Complex_Main Registry
begin

text \<open>
  The carrier-intelligence policy of \<^verbatim>\<open>src/pkg/node/intel.go\<close>: health windows of the down
  carriers, scoring with hard gates, the lifecycle of a carrier with its cooldown, the
  hysteresis of the primary, probe budgets and the selection for new streams.

  Times and durations are nanoseconds; \<open>None\<close> is the zero \<^verbatim>\<open>time.Time\<close>. A \<open>float64\<close> is a
  rational number: rounding is not modelled, and the power function of the moving averages
  is an argument (\<open>pow_half x\<close> stands for \<^verbatim>\<open>math.Pow(0.5, x)\<close>). \<open>midnight\<close> is
  the start of the local day, the calendar of \<^verbatim>\<open>time.Date\<close>.

  Every method takes \<open>p.mu\<close>, which is not reentrant. A method is one atomic step; for the two
  methods of which one calls the other the lock is explicit (\<open>Lock\<close>, \<open>Unlock\<close>), and a call
  that waits for a lock its own goroutine holds never returns (\<open>Inl\<close>).
\<close>

section \<open>Configuration\<close>

datatype carrierState = stateCandidate | stateActive | stateExcluded | stateHalfOpen

primrec state_String :: "carrierState \<Rightarrow> string" where
  "state_String stateCandidate = ''candidate''"
| "state_String stateActive = ''active''"
| "state_String stateExcluded = ''excluded''"
| "state_String stateHalfOpen = ''half_open''"

abbreviation PolicyStatic :: string where "PolicyStatic \<equiv> ''static''"
abbreviation PolicyAdaptive :: string where "PolicyAdaptive \<equiv> ''adaptive''"
abbreviation Second :: int where "Second \<equiv> 1000000000"

record PolicyConfig =
  pc_Mode :: string
  TopK :: int
  TTFBBaseline :: int
  SLAFloorMiBps :: rat
  HardGateMinSuccess :: rat
  HardGateMaxStallRate :: rat
  HardGateZeroDeliver :: int
  FlapWindow :: int
  FlapLimit :: int
  ResetWindow :: int
  ResetLimit :: int
  AuthFailWindow :: int
  HysteresisMargin :: rat
  HysteresisTicks :: int
  MinDwell :: int
  pc_EvalInterval :: int
  InitialCooldown :: int
  MaxCooldown :: int
  ActiveHealthReset :: int
  AdmitScore :: rat
  AdmitPassesCand :: int
  AdmitPassesHalf :: int
  ProbingEnabled :: bool
  ProbeURL :: string
  ProbeDailyBudgetBytes :: int
  ProbeQuickBytes :: int
  ProbeFullBytes :: int
  ProbeQuickInterval :: int
  ProbeFullInterval :: int
  ProbeYieldMiBps :: rat
  ProbePassQuickFloorMiBps :: rat
  ProbePassFullFloorMiBps :: rat
  WGoodput :: rat
  WSuccess :: rat
  WStall :: rat
  WTTFB :: rat
  WReset :: rat

definition PolicyConfigDefaults :: PolicyConfig where
  "PolicyConfigDefaults =
     \<lparr>pc_Mode = PolicyStatic, TopK = 2, TTFBBaseline = 500000000, SLAFloorMiBps = 1,
      HardGateMinSuccess = 1 / 2, HardGateMaxStallRate = 10, HardGateZeroDeliver = 30 * Second,
      FlapWindow = 600 * Second, FlapLimit = 3, ResetWindow = 600 * Second, ResetLimit = 3,
      AuthFailWindow = 60 * Second, HysteresisMargin = 1 / 10, HysteresisTicks = 3, MinDwell = 60 * Second,
      pc_EvalInterval = 10 * Second, InitialCooldown = 30 * Second, MaxCooldown = 900 * Second,
      ActiveHealthReset = 1800 * Second, AdmitScore = 6 / 10, AdmitPassesCand = 2, AdmitPassesHalf = 3,
      ProbingEnabled = False, ProbeURL = '''', ProbeDailyBudgetBytes = 96 * 1048576,
      ProbeQuickBytes = 128 * 1024, ProbeFullBytes = 2 * 1048576, ProbeQuickInterval = 300 * Second,
      ProbeFullInterval = 3600 * Second, ProbeYieldMiBps = 2 / 10, ProbePassQuickFloorMiBps = 1 / 2,
      ProbePassFullFloorMiBps = 1, WGoodput = 35 / 100, WSuccess = 25 / 100, WStall = 15 / 100,
      WTTFB = 10 / 100, WReset = 15 / 100\<rparr>"

text \<open>\<open>pos d x\<close>: the value, or the default when it is not positive.\<close>

definition pos :: "'a::linordered_idom \<Rightarrow> 'a \<Rightarrow> 'a" where
  "pos d x = (if x \<le> 0 then d else x)"

definition sanitizePolicyConfig :: "PolicyConfig \<Rightarrow> PolicyConfig" where
  "sanitizePolicyConfig c =
     (let d = PolicyConfigDefaults in
      \<lparr>pc_Mode = (if pc_Mode c \<noteq> PolicyStatic \<and> pc_Mode c \<noteq> PolicyAdaptive then pc_Mode d else pc_Mode c),
       TopK = pos (TopK d) (TopK c), TTFBBaseline = pos (TTFBBaseline d) (TTFBBaseline c),
       SLAFloorMiBps = pos (SLAFloorMiBps d) (SLAFloorMiBps c),
       HardGateMinSuccess = (if HardGateMinSuccess c \<le> 0 \<or> HardGateMinSuccess c > 1
                             then HardGateMinSuccess d else HardGateMinSuccess c),
       HardGateMaxStallRate = (if HardGateMaxStallRate c < 0 then HardGateMaxStallRate d
                               else HardGateMaxStallRate c),
       HardGateZeroDeliver = pos (HardGateZeroDeliver d) (HardGateZeroDeliver c),
       FlapWindow = pos (FlapWindow d) (FlapWindow c), FlapLimit = pos (FlapLimit d) (FlapLimit c),
       ResetWindow = pos (ResetWindow d) (ResetWindow c), ResetLimit = pos (ResetLimit d) (ResetLimit c),
       AuthFailWindow = pos (AuthFailWindow d) (AuthFailWindow c),
       HysteresisMargin = pos (HysteresisMargin d) (HysteresisMargin c),
       HysteresisTicks = pos (HysteresisTicks d) (HysteresisTicks c), MinDwell = pos (MinDwell d) (MinDwell c),
       pc_EvalInterval = pos (pc_EvalInterval d) (pc_EvalInterval c),
       InitialCooldown = pos (InitialCooldown d) (InitialCooldown c),
       MaxCooldown = pos (MaxCooldown d) (MaxCooldown c),
       ActiveHealthReset = pos (ActiveHealthReset d) (ActiveHealthReset c),
       AdmitScore = (if AdmitScore c \<le> 0 \<or> AdmitScore c > 1 then AdmitScore d else AdmitScore c),
       AdmitPassesCand = pos (AdmitPassesCand d) (AdmitPassesCand c),
       AdmitPassesHalf = pos (AdmitPassesHalf d) (AdmitPassesHalf c),
       ProbingEnabled = ProbingEnabled c, ProbeURL = ProbeURL c,
       ProbeDailyBudgetBytes = (if ProbeDailyBudgetBytes c < 0 then ProbeDailyBudgetBytes d
                                else ProbeDailyBudgetBytes c),
       ProbeQuickBytes = pos (ProbeQuickBytes d) (ProbeQuickBytes c),
       ProbeFullBytes = pos (ProbeFullBytes d) (ProbeFullBytes c),
       ProbeQuickInterval = pos (ProbeQuickInterval d) (ProbeQuickInterval c),
       ProbeFullInterval = pos (ProbeFullInterval d) (ProbeFullInterval c),
       ProbeYieldMiBps = pos (ProbeYieldMiBps d) (ProbeYieldMiBps c),
       ProbePassQuickFloorMiBps = pos (ProbePassQuickFloorMiBps d) (ProbePassQuickFloorMiBps c),
       ProbePassFullFloorMiBps = pos (ProbePassFullFloorMiBps d) (ProbePassFullFloorMiBps c),
       WGoodput = pos (WGoodput d) (WGoodput c), WSuccess = pos (WSuccess d) (WSuccess c),
       WStall = pos (WStall d) (WStall c), WTTFB = pos (WTTFB d) (WTTFB c),
       WReset = pos (WReset d) (WReset c)\<rparr>)"

section \<open>State\<close>

record CarrierHealth =
  ch_State :: carrierState
  GoodputEWMA :: rat
  goodputRing :: "rat list"
  goodputCursor :: nat
  goodputWrites :: nat
  passiveLastAt :: "int option"
  DeliveredBytes :: int
  LastDeliveredAt :: "int option"
  LastPendingAt :: "int option"
  HasPending :: bool
  SuccessRing :: "bool list"
  SuccessCursor :: nat
  SuccessWrites :: nat
  SuccessOK :: int
  StallCount :: int
  StallTotalDur :: int
  LastStallAt :: "int option"
  TTFBRing :: "int list"
  TTFBCursor :: nat
  TTFBWrites :: nat
  Resets :: "int option list"
  ResetsCursor :: nat
  Flaps :: "int option list"
  FlapsCursor :: nat
  AuthFails :: "int option list"
  AuthFailsCursor :: nat
  Rebinds :: int
  ProbeGoodputEWMA :: rat
  ProbeBytesToday :: int
  ProbeDayStamp :: "int option"
  LastProbePassFull :: "int option"
  LastProbePassQuick :: "int option"
  LastFullProbeAt :: "int option"
  LastQuickProbeAt :: "int option"
  ConsecProbeFails :: int
  ConnectRTTLast :: int
  CooldownUntil :: "int option"
  CooldownPeriod :: int
  ExcludedSince :: "int option"
  ExclusionStreak :: nat
  ActiveSince :: "int option"
  HalfOpenPasses :: int
  CandidatePasses :: int
  LastScore :: rat
  ch_GateReason :: string

definition new_health :: CarrierHealth where
  "new_health = \<lparr>ch_State = stateCandidate, GoodputEWMA = 0, goodputRing = replicate 50 0, goodputCursor = 0,
     goodputWrites = 0, passiveLastAt = None, DeliveredBytes = 0, LastDeliveredAt = None,
     LastPendingAt = None, HasPending = False, SuccessRing = replicate 50 False, SuccessCursor = 0,
     SuccessWrites = 0, SuccessOK = 0, StallCount = 0, StallTotalDur = 0, LastStallAt = None,
     TTFBRing = replicate 50 0, TTFBCursor = 0, TTFBWrites = 0, Resets = replicate 64 None,
     ResetsCursor = 0, Flaps = replicate 64 None, FlapsCursor = 0, AuthFails = replicate 32 None,
     AuthFailsCursor = 0, Rebinds = 0, ProbeGoodputEWMA = 0, ProbeBytesToday = 0, ProbeDayStamp = None,
     LastProbePassFull = None, LastProbePassQuick = None, LastFullProbeAt = None,
     LastQuickProbeAt = None, ConsecProbeFails = 0, ConnectRTTLast = 0, CooldownUntil = None,
     CooldownPeriod = 0, ExcludedSince = None, ExclusionStreak = 0, ActiveSince = None,
     HalfOpenPasses = 0, CandidatePasses = 0, LastScore = 0, ch_GateReason = ''''\<rparr>"

record Policy =
  p_mu :: bool
  p_cfg :: PolicyConfig
  p_ids :: "CarrierID list"
  health :: "CarrierID \<rightharpoonup> CarrierHealth"
  wrr :: "CarrierID \<Rightarrow> int"
  incumbent :: CarrierID
  challenger :: CarrierID
  challengerTicks :: int
  lastSwitchAt :: "int option"
  switchCount :: int
  lastEval :: "int option"

datatype policy_error = ProbeURLMissingError

definition NewPolicy :: "PolicyConfig \<Rightarrow> CarrierID list \<Rightarrow> policy_error + Policy" where
  "NewPolicy cfg0 ids =
     (let cfg = sanitizePolicyConfig cfg0
      in if ProbingEnabled cfg \<and> ProbeURL cfg = '''' then Inl ProbeURLMissingError
         else Inr \<lparr>p_mu = False, p_cfg = cfg, p_ids = ids,
                   health = (\<lambda>i. if i \<in> set ids then Some new_health else None), wrr = (\<lambda>_. 0),
                   incumbent = '''', challenger = '''', challengerTicks = 0, lastSwitchAt = None,
                   switchCount = 0, lastEval = None\<rparr>)"

section \<open>Measurements\<close>

text \<open>The common frame of the recording methods: an unknown id changes nothing.\<close>

definition upd_health :: "CarrierID \<Rightarrow> (CarrierHealth \<Rightarrow> CarrierHealth) \<Rightarrow> Policy \<Rightarrow> Policy" where
  "upd_health cid f p =
     (case health p cid of None \<Rightarrow> p | Some h \<Rightarrow> p\<lparr>health := (health p)(cid \<mapsto> f h)\<rparr>)"

abbreviation seconds :: "int \<Rightarrow> rat" where "seconds d \<equiv> of_int d / 1000000000"

definition inst_rate :: "int \<Rightarrow> int \<Rightarrow> CarrierHealth \<Rightarrow> rat" where
  "inst_rate n now h =
     (case passiveLastAt h of
        None \<Rightarrow> 0
      | Some t \<Rightarrow> if seconds (now - t) > 0 then of_int n / 1048576 / seconds (now - t) else 0)"

definition ewma_alpha :: "(rat \<Rightarrow> rat) \<Rightarrow> int \<Rightarrow> CarrierHealth \<Rightarrow> rat" where
  "ewma_alpha pow_half now h =
     (case passiveLastAt h of
        None \<Rightarrow> 1
      | Some t \<Rightarrow> (let dt = (if seconds (now - t) \<le> 0 then 1 else seconds (now - t));
                       a = 1 - pow_half (dt / 60)
                   in if a > 1 then 1 else a))"

definition passive_sample :: "(rat \<Rightarrow> rat) \<Rightarrow> int \<Rightarrow> int \<Rightarrow> CarrierHealth \<Rightarrow> CarrierHealth" where
  "passive_sample pow_half n now h =
     h\<lparr>DeliveredBytes := DeliveredBytes h + n, LastDeliveredAt := Some now, HasPending := False,
       goodputRing := (goodputRing h)[goodputCursor h := inst_rate n now h],
       goodputCursor := (goodputCursor h + 1) mod 50, goodputWrites := goodputWrites h + 1,
       GoodputEWMA := (1 - ewma_alpha pow_half now h) * GoodputEWMA h
                        + ewma_alpha pow_half now h * inst_rate n now h,
       passiveLastAt := Some now\<rparr>"

definition RecordPassiveBytes :: "(rat \<Rightarrow> rat) \<Rightarrow> CarrierID \<Rightarrow> int \<Rightarrow> int \<Rightarrow> Policy \<Rightarrow> Policy" where
  "RecordPassiveBytes pow_half cid n now p =
     (if n \<le> 0 then p else upd_health cid (passive_sample pow_half n now) p)"

definition RecordPending :: "CarrierID \<Rightarrow> int \<Rightarrow> Policy \<Rightarrow> Policy" where
  "RecordPending cid now p = upd_health cid (\<lambda>h. h\<lparr>HasPending := True, LastPendingAt := Some now\<rparr>) p"

definition RecordStall :: "CarrierID \<Rightarrow> int \<Rightarrow> int \<Rightarrow> Policy \<Rightarrow> Policy" where
  "RecordStall cid dur now p =
     upd_health cid (\<lambda>h. h\<lparr>StallCount := StallCount h + 1, StallTotalDur := StallTotalDur h + dur,
       LastStallAt := Some now\<rparr>) p"

definition success_write :: "bool \<Rightarrow> CarrierHealth \<Rightarrow> CarrierHealth" where
  "success_write ok h =
     h\<lparr>SuccessOK := SuccessOK h - (if SuccessWrites h \<ge> 50 \<and> SuccessRing h ! SuccessCursor h then 1 else 0)
                      + (if ok then 1 else 0),
       SuccessRing := (SuccessRing h)[SuccessCursor h := ok],
       SuccessWrites := SuccessWrites h + 1, SuccessCursor := (SuccessCursor h + 1) mod 50\<rparr>"

definition outcome_write :: "PolicyConfig \<Rightarrow> bool \<Rightarrow> int \<Rightarrow> CarrierHealth \<Rightarrow> CarrierHealth" where
  "outcome_write cfg ok ttfb h0 =
     (let h1 = success_write ok h0;
          h2 = h1\<lparr>TTFBRing := (TTFBRing h1)[TTFBCursor h1 := ttfb],
                  TTFBCursor := (TTFBCursor h1 + 1) mod 50, TTFBWrites := TTFBWrites h1 + 1\<rparr>
      in if ok \<and> \<not> ProbingEnabled cfg
         then (case ch_State h2 of
                 stateCandidate \<Rightarrow> h2\<lparr>CandidatePasses := CandidatePasses h2 + 1\<rparr>
               | stateHalfOpen \<Rightarrow> h2\<lparr>HalfOpenPasses := HalfOpenPasses h2 + 1\<rparr>
               | _ \<Rightarrow> h2)
         else h2)"

definition RecordStreamOutcome :: "CarrierID \<Rightarrow> bool \<Rightarrow> int \<Rightarrow> Policy \<Rightarrow> Policy" where
  "RecordStreamOutcome cid ok ttfb p = upd_health cid (outcome_write (p_cfg p) ok ttfb) p"

definition RecordReset :: "CarrierID \<Rightarrow> int \<Rightarrow> Policy \<Rightarrow> Policy" where
  "RecordReset cid now p =
     upd_health cid (\<lambda>h. h\<lparr>Resets := (Resets h)[ResetsCursor h := Some now],
       ResetsCursor := (ResetsCursor h + 1) mod 64\<rparr>) p"

definition RecordFlap :: "CarrierID \<Rightarrow> int \<Rightarrow> Policy \<Rightarrow> Policy" where
  "RecordFlap cid now p =
     upd_health cid (\<lambda>h. h\<lparr>Flaps := (Flaps h)[FlapsCursor h := Some now],
       FlapsCursor := (FlapsCursor h + 1) mod 64\<rparr>) p"

definition RecordAuthFail :: "CarrierID \<Rightarrow> int \<Rightarrow> Policy \<Rightarrow> Policy" where
  "RecordAuthFail cid now p =
     upd_health cid (\<lambda>h. h\<lparr>AuthFails := (AuthFails h)[AuthFailsCursor h := Some now],
       AuthFailsCursor := (AuthFailsCursor h + 1) mod 32\<rparr>) p"

definition RecordRebind :: "CarrierID \<Rightarrow> Policy \<Rightarrow> Policy" where
  "RecordRebind cid p = upd_health cid (\<lambda>h. h\<lparr>Rebinds := Rebinds h + 1\<rparr>) p"

definition RecordConnectRTT :: "CarrierID \<Rightarrow> int \<Rightarrow> Policy \<Rightarrow> Policy" where
  "RecordConnectRTT cid rtt p = upd_health cid (\<lambda>h. h\<lparr>ConnectRTTLast := rtt\<rparr>) p"

section \<open>Probing\<close>

type_synonym 'a locked = "Policy + 'a \<times> Policy"

definition Lock :: "Policy \<Rightarrow> Policy + Policy" where
  "Lock p = (if p_mu p then Inl p else Inr (p\<lparr>p_mu := True\<rparr>))"

definition Unlock :: "Policy \<Rightarrow> Policy" where
  "Unlock p = p\<lparr>p_mu := False\<rparr>"

definition rollProbeDay :: "(int \<Rightarrow> int) \<Rightarrow> int \<Rightarrow> CarrierHealth \<Rightarrow> CarrierHealth" where
  "rollProbeDay midnight now h =
     (case ProbeDayStamp h of
        None \<Rightarrow> h\<lparr>ProbeDayStamp := Some now\<rparr>
      | Some s \<Rightarrow> if midnight now > midnight s
                  then h\<lparr>ProbeBytesToday := 0, ProbeDayStamp := Some now\<rparr> else h)"

definition CanProbe :: "(int \<Rightarrow> int) \<Rightarrow> CarrierID \<Rightarrow> int \<Rightarrow> int \<Rightarrow> Policy \<Rightarrow> bool locked" where
  "CanProbe midnight cid n now p0 =
     (case Lock p0 of
        Inl b \<Rightarrow> Inl b
      | Inr p \<Rightarrow>
          (case health p cid of
             None \<Rightarrow> Inr (False, Unlock p)
           | Some h \<Rightarrow>
               if \<not> ProbingEnabled (p_cfg p) then Inr (False, Unlock p)
               else if ProbeDailyBudgetBytes (p_cfg p) > 0
               then (let h1 = rollProbeDay midnight now h;
                         p1 = p\<lparr>health := (health p)(cid \<mapsto> h1)\<rparr>
                     in Inr (\<not> ProbeBytesToday h1 + n > ProbeDailyBudgetBytes (p_cfg p), Unlock p1))
               else Inr (True, Unlock p)))"

definition probe_write :: "(int \<Rightarrow> int) \<Rightarrow> (rat \<Rightarrow> rat) \<Rightarrow> PolicyConfig \<Rightarrow> bool \<Rightarrow> rat \<Rightarrow> int \<Rightarrow> int \<Rightarrow> bool
    \<Rightarrow> CarrierHealth \<Rightarrow> CarrierHealth" where
  "probe_write midnight pow_half cfg ok goodput n now full h0 =
     (let h = (if n > 0 \<and> ProbingEnabled cfg
               then (let h1 = rollProbeDay midnight now h0 in h1\<lparr>ProbeBytesToday := ProbeBytesToday h1 + n\<rparr>)
               else h0)
      in if ok
         then (let alpha = 1 - pow_half (1 / 600);
                   h2 = h\<lparr>ProbeGoodputEWMA := (1 - alpha) * ProbeGoodputEWMA h + alpha * goodput,
                          ConsecProbeFails := 0\<rparr>
               in if full
                  then (let h3 = h2\<lparr>LastProbePassFull := Some now, LastFullProbeAt := Some now\<rparr>
                        in if ch_State h3 = stateHalfOpen
                           then h3\<lparr>HalfOpenPasses := HalfOpenPasses h3 + 1\<rparr>
                           else if ch_State h3 = stateCandidate
                           then h3\<lparr>CandidatePasses := CandidatePasses h3 + 1\<rparr> else h3)
                  else (let h3 = h2\<lparr>LastProbePassQuick := Some now, LastQuickProbeAt := Some now\<rparr>
                        in if ch_State h3 = stateCandidate
                           then h3\<lparr>CandidatePasses := CandidatePasses h3 + 1\<rparr> else h3))
         else (let h2 = h\<lparr>ConsecProbeFails := ConsecProbeFails h + 1, HalfOpenPasses := 0, CandidatePasses := 0\<rparr>
               in if full then h2\<lparr>LastFullProbeAt := Some now\<rparr> else h2\<lparr>LastQuickProbeAt := Some now\<rparr>))"

definition RecordProbe ::
    "(int \<Rightarrow> int) \<Rightarrow> (rat \<Rightarrow> rat) \<Rightarrow> CarrierID \<Rightarrow> bool \<Rightarrow> rat \<Rightarrow> int \<Rightarrow> int \<Rightarrow> bool \<Rightarrow> Policy \<Rightarrow> Policy" where
  "RecordProbe midnight pow_half cid ok goodput n now full p =
     upd_health cid (probe_write midnight pow_half (p_cfg p) ok goodput n now full) p"

text \<open>The cadence rule of \<open>DueProbe\<close>, after its budget check.\<close>

definition probe_due :: "PolicyConfig \<Rightarrow> int \<Rightarrow> bool \<Rightarrow> CarrierHealth \<Rightarrow> bool" where
  "probe_due cfg now full h =
     (if full
      then (case LastFullProbeAt h of None \<Rightarrow> True | Some a \<Rightarrow> now - a \<ge> ProbeFullInterval cfg)
      else if GoodputEWMA h > ProbeYieldMiBps cfg then False
      else (case LastQuickProbeAt h of None \<Rightarrow> True | Some a \<Rightarrow> now - a \<ge> ProbeQuickInterval cfg))"

definition DueProbe :: "(int \<Rightarrow> int) \<Rightarrow> CarrierID \<Rightarrow> int \<Rightarrow> bool \<Rightarrow> Policy \<Rightarrow> bool locked" where
  "DueProbe midnight cid now full p0 =
     (case Lock p0 of
        Inl b \<Rightarrow> Inl b
      | Inr p \<Rightarrow>
          (case health p cid of
             None \<Rightarrow> Inr (False, Unlock p)
           | Some h \<Rightarrow>
               if \<not> ProbingEnabled (p_cfg p) then Inr (False, Unlock p)
               else (case CanProbe midnight cid 1 now p of
                       Inl b \<Rightarrow> Inl b
                     | Inr (ok, p1) \<Rightarrow>
                         if \<not> ok then Inr (False, Unlock p1)
                         else (case health p1 cid of
                                 None \<Rightarrow> Inr (False, Unlock p1)
                               | Some h1 \<Rightarrow> Inr (probe_due (p_cfg p1) now full h1, Unlock p1)))))"

definition ProbesAllowed :: "(int \<Rightarrow> int) \<Rightarrow> CarrierID \<Rightarrow> int \<Rightarrow> Policy \<Rightarrow> bool locked" where
  "ProbesAllowed midnight cid now p = CanProbe midnight cid 1 now p"

definition ProbeBytesUsedToday :: "CarrierID \<Rightarrow> Policy \<Rightarrow> int" where
  "ProbeBytesUsedToday cid p = (case health p cid of Some h \<Rightarrow> ProbeBytesToday h | None \<Rightarrow> 0)"

section \<open>Scoring\<close>

record ScoreComponents =
  sc_Goodput :: rat
  sc_Success :: rat
  sc_Stall :: rat
  sc_TTFB :: rat
  sc_Reset :: rat
  sc_Total :: rat
  Neutral :: "string list"
  Eligible :: bool
  GateReason :: string

definition clamp01 :: "rat \<Rightarrow> rat" where
  "clamp01 x = (if x < 0 then 0 else if x > 1 then 1 else x)"

text \<open>\<^verbatim>\<open>int(0.1 * float64(n))\<close> is \<open>n div 10\<close> for the sizes up to 50 that occur here.\<close>

definition goodputP10Locked :: "CarrierHealth \<Rightarrow> rat" where
  "goodputP10Locked h =
     (let n = min (goodputWrites h) 50
      in if n = 0 then 0
         else (let idx = n div 10; idx1 = (if idx \<ge> n then n - 1 else idx)
               in sort (take n (goodputRing h)) ! idx1))"

definition gateExcluded :: "ScoreComponents \<Rightarrow> bool" where
  "gateExcluded c \<longleftrightarrow> GateReason c \<in>
     {''H1 probe'', ''H2 flap'', ''H3 auth'', ''H4 stall'', ''success_ratio'', ''stall_rate''}"

definition stallRatePer100MiB :: "CarrierHealth \<Rightarrow> rat" where
  "stallRatePer100MiB h =
     (if DeliveredBytes h \<le> 0 then 0
      else of_int (StallCount h) * 100 * 1048576 / of_int (DeliveredBytes h))"

definition ttfbP50Locked :: "CarrierHealth \<Rightarrow> int" where
  "ttfbP50Locked h =
     (let n = min (TTFBWrites h) 50
      in if n = 0 then 0 else sort (take n (TTFBRing h)) ! (n div 2))"

text \<open>How many stamps of a ring are younger than the window.\<close>

definition count_after :: "int \<Rightarrow> int option list \<Rightarrow> nat" where
  "count_after cutoff ring = length (filter (\<lambda>ts. case ts of None \<Rightarrow> False | Some t \<Rightarrow> t > cutoff) ring)"

definition resetCountLocked :: "PolicyConfig \<Rightarrow> CarrierHealth \<Rightarrow> int \<Rightarrow> nat" where
  "resetCountLocked cfg h now = count_after (now - ResetWindow cfg) (Resets h)"

definition flapCountLocked :: "PolicyConfig \<Rightarrow> CarrierHealth \<Rightarrow> int \<Rightarrow> nat" where
  "flapCountLocked cfg h now = count_after (now - FlapWindow cfg) (Flaps h)"

definition authFailCountLocked :: "PolicyConfig \<Rightarrow> CarrierHealth \<Rightarrow> int \<Rightarrow> nat" where
  "authFailCountLocked cfg h now = count_after (now - AuthFailWindow cfg) (AuthFails h)"

definition zero_delivery :: "PolicyConfig \<Rightarrow> CarrierHealth \<Rightarrow> int \<Rightarrow> bool" where
  "zero_delivery cfg h now \<longleftrightarrow> HasPending h \<and>
     (case LastDeliveredAt h of None \<Rightarrow> False | Some t \<Rightarrow> now - t \<ge> HardGateZeroDeliver cfg)"

definition scoreLocked :: "PolicyConfig \<Rightarrow> CarrierHealth \<Rightarrow> int \<Rightarrow> ScoreComponents" where
  "scoreLocked cfg h now =
     (let p10_0 = goodputP10Locked h;
          usedProbe = (p10_0 \<le> 0 \<and> ProbeGoodputEWMA h > 0);
          p10 = (if usedProbe then ProbeGoodputEWMA h else p10_0);
          neutral0 = (if usedProbe then [''G(probe)''] else []);
          goodput = clamp01 (p10 / SLAFloorMiBps cfg);
          attempts = min (SuccessWrites h) 50;
          success = (if attempts < 10 then 1 / 2 else of_int (SuccessOK h + 1) / of_nat (attempts + 2));
          neutral1 = (if attempts < 10 then neutral0 @ [''S(neutral)''] else neutral0);
          stallRate = stallRatePer100MiB h;
          stall = clamp01 (1 - stallRate / 4);
          p50 = ttfbP50Locked h;
          ttfbKnown = (p50 > 0 \<and> TTFBBaseline cfg > 0);
          ttfb = (if ttfbKnown
                  then clamp01 (1 - (seconds p50 / seconds (TTFBBaseline cfg) - 3 / 2) / (5 / 2))
                  else 1 / 2);
          neutral2 = (if ttfbKnown then neutral1 else neutral1 @ [''T(neutral)'']);
          reset = 1 - min 1 (of_nat (resetCountLocked cfg h now) / of_int (ResetLimit cfg));
          total = clamp01 (WGoodput cfg * goodput + WSuccess cfg * success + WStall cfg * stall +
                    WTTFB cfg * ttfb + WReset cfg * reset);
          gate0 = (if ProbingEnabled cfg \<and> ConsecProbeFails h \<ge> 2 then ''H1 probe''
                   else if int (flapCountLocked cfg h now) \<ge> FlapLimit cfg then ''H2 flap''
                   else if authFailCountLocked cfg h now > 0 then ''H3 auth''
                   else if zero_delivery cfg h now then ''H4 stall''
                   else if success < HardGateMinSuccess cfg then ''success_ratio''
                   else if stallRate > HardGateMaxStallRate cfg then ''stall_rate''
                   else '''');
          gate = (if gate0 = '''' \<and> ch_State h \<noteq> stateActive then ''not_active'' else gate0)
      in \<lparr>sc_Goodput = goodput, sc_Success = success, sc_Stall = stall, sc_TTFB = ttfb, sc_Reset = reset,
          sc_Total = total, Neutral = neutral2, Eligible = (gate = ''''), GateReason = gate\<rparr>)"

section \<open>Lifecycle\<close>

text \<open>The doubling loop of the cooldown: \<open>n\<close> more exclusions than the first.\<close>

fun cooldown_loop :: "nat \<Rightarrow> int \<Rightarrow> int \<Rightarrow> int" where
  "cooldown_loop 0 period mx = period"
| "cooldown_loop (Suc n) period mx =
     (let period2 = period * 2 in if period2 > mx then mx else cooldown_loop n period2 mx)"

definition excludeLocked :: "PolicyConfig \<Rightarrow> int \<Rightarrow> string \<Rightarrow> CarrierHealth \<Rightarrow> CarrierHealth" where
  "excludeLocked cfg now rsn h =
     (if ch_State h = stateExcluded then h\<lparr>ch_GateReason := rsn\<rparr>
      else (let streak = ExclusionStreak h + 1;
                period = cooldown_loop (streak - 1) (InitialCooldown cfg) (MaxCooldown cfg)
            in h\<lparr>ch_State := stateExcluded, ExcludedSince := Some now, ch_GateReason := rsn,
                 ExclusionStreak := streak, CooldownUntil := Some (now + period), CooldownPeriod := period\<rparr>))"

definition advanceLifecycle :: "PolicyConfig \<Rightarrow> ScoreComponents \<Rightarrow> int \<Rightarrow> CarrierHealth \<Rightarrow> CarrierHealth" where
  "advanceLifecycle cfg scp now h =
     (case ch_State h of
        stateCandidate \<Rightarrow>
          if ProbingEnabled cfg \<and> ConsecProbeFails h \<ge> 2 then excludeLocked cfg now ''H1 probe'' h
          else if CandidatePasses h \<ge> AdmitPassesCand cfg \<and> LastScore h \<ge> AdmitScore cfg \<and> \<not> gateExcluded scp
          then h\<lparr>ch_State := stateActive, ActiveSince := Some now, CandidatePasses := 0\<rparr>
          else if gateExcluded scp then excludeLocked cfg now (GateReason scp) h
          else h
      | stateActive \<Rightarrow>
          if int (flapCountLocked cfg h now) \<ge> FlapLimit cfg then excludeLocked cfg now ''H2 flap'' h
          else if authFailCountLocked cfg h now > 0 then excludeLocked cfg now ''H3 auth'' h
          else if zero_delivery cfg h now then excludeLocked cfg now ''H4 stall'' h
          else if gateExcluded scp then excludeLocked cfg now (GateReason scp) h
          else if (case ActiveSince h of None \<Rightarrow> True | Some a \<Rightarrow> now - a \<ge> ActiveHealthReset cfg)
          then h\<lparr>ExclusionStreak := 0, CooldownPeriod := 0\<rparr>
          else h
      | stateExcluded \<Rightarrow>
          (case CooldownUntil h of
             None \<Rightarrow> h
           | Some u \<Rightarrow> if now \<ge> u then h\<lparr>ch_State := stateHalfOpen, ExcludedSince := None\<rparr> else h)
      | stateHalfOpen \<Rightarrow>
          if ProbingEnabled cfg \<and> ConsecProbeFails h > 0
          then excludeLocked cfg now ''half_open probe fail'' h
          else if HalfOpenPasses h \<ge> AdmitPassesHalf cfg
          then h\<lparr>ch_State := stateActive, ActiveSince := Some now, HalfOpenPasses := 0\<rparr>
          else h)"

text \<open>\<open>NewPolicy\<close> makes an entry for every configured id and none is ever removed.\<close>

definition health_of :: "Policy \<Rightarrow> CarrierID \<Rightarrow> CarrierHealth" where
  "health_of p cid = (case health p cid of Some h \<Rightarrow> h | None \<Rightarrow> new_health)"

definition eligibleActiveLocked :: "int \<Rightarrow> Policy \<Rightarrow> CarrierID list" where
  "eligibleActiveLocked now p =
     filter (\<lambda>cid. ch_State (health_of p cid) = stateActive \<and>
                   Eligible (scoreLocked (p_cfg p) (health_of p cid) now)) (p_ids p)"

definition activeLocked :: "Policy \<Rightarrow> CarrierID list" where
  "activeLocked p = filter (\<lambda>cid. ch_State (health_of p cid) = stateActive) (p_ids p)"

definition primaryOf :: "Policy \<Rightarrow> CarrierID list \<Rightarrow> CarrierID" where
  "primaryOf p candidates =
     (case candidates of
        [] \<Rightarrow> ''''
      | c # _ \<Rightarrow> (case filter (\<lambda>cid. cid \<in> set candidates) (p_ids p) of [] \<Rightarrow> c | x # _ \<Rightarrow> x))"

definition adoptStaticPrimary :: "int \<Rightarrow> Policy \<Rightarrow> Policy" where
  "adoptStaticPrimary lastEv p =
     (let e = eligibleActiveLocked lastEv p; e1 = (if e = [] then activeLocked p else e)
      in p\<lparr>incumbent := (if e1 \<noteq> [] then primaryOf p e1 else '''')\<rparr>)"

text \<open>Go compares strings bytewise.\<close>

fun str_less :: "string \<Rightarrow> string \<Rightarrow> bool" where
  "str_less _ [] = False"
| "str_less [] (_ # _) = True"
| "str_less (a # x) (b # y) = ((of_char a :: nat) < of_char b \<or> a = b \<and> str_less x y)"

fun best_scan :: "(CarrierID \<Rightarrow> rat) \<Rightarrow> CarrierID list \<Rightarrow> CarrierID \<Rightarrow> rat \<Rightarrow> CarrierID" where
  "best_scan sc [] best bestScore = best"
| "best_scan sc (cid # ids) best bestScore =
     (if best = '''' \<or> sc cid > bestScore \<or> (sc cid = bestScore \<and> str_less cid best)
      then best_scan sc ids cid (sc cid) else best_scan sc ids best bestScore)"

definition bestEligibleLocked :: "Policy \<Rightarrow> CarrierID list \<Rightarrow> CarrierID" where
  "bestEligibleLocked p eligible = best_scan (\<lambda>cid. LastScore (health_of p cid)) eligible '''' (- 1)"

definition evaluate_one :: "PolicyConfig \<Rightarrow> int \<Rightarrow> CarrierHealth \<Rightarrow> CarrierHealth" where
  "evaluate_one cfg now h =
     (let scp = scoreLocked cfg h now;
          h1 = h\<lparr>LastScore := sc_Total scp,
                 ch_GateReason := (if \<not> Eligible scp \<and> GateReason scp \<noteq> '''' then GateReason scp else '''')\<rparr>
      in advanceLifecycle cfg scp now h1)"

fun evaluate_all :: "int \<Rightarrow> CarrierID list \<Rightarrow> Policy \<Rightarrow> Policy" where
  "evaluate_all now [] p = p"
| "evaluate_all now (cid # ids) p =
     evaluate_all now ids (p\<lparr>health := (health p)(cid \<mapsto> evaluate_one (p_cfg p) now (health_of p cid))\<rparr>)"

definition switch_to :: "CarrierID \<Rightarrow> int \<Rightarrow> Policy \<Rightarrow> Policy" where
  "switch_to best now p = p\<lparr>incumbent := best, lastSwitchAt := Some now, switchCount := switchCount p + 1,
     challenger := '''', challengerTicks := 0\<rparr>"

definition hysteresis :: "int \<Rightarrow> CarrierID list \<Rightarrow> Policy \<Rightarrow> Policy" where
  "hysteresis now eligible p =
     (if eligible = [] then p\<lparr>incumbent := '''', challenger := '''', challengerTicks := 0\<rparr>
      else (let best = bestEligibleLocked p eligible in
        if incumbent p = ''''
        then p\<lparr>incumbent := best, lastSwitchAt := Some now, challenger := '''', challengerTicks := 0\<rparr>
        else if incumbent p \<notin> set eligible then switch_to best now p
        else if best = incumbent p then p\<lparr>challenger := '''', challengerTicks := 0\<rparr>
        else (let incScore = LastScore (health_of p (incumbent p));
                  challengerScore = LastScore (health_of p best);
                  p1 = (if challengerScore \<ge> incScore + HysteresisMargin (p_cfg p)
                        then (if challenger p = best then p\<lparr>challengerTicks := challengerTicks p + 1\<rparr>
                              else p\<lparr>challenger := best, challengerTicks := 1\<rparr>)
                        else p\<lparr>challenger := '''', challengerTicks := 0\<rparr>)
              in if challenger p1 = best \<and> challengerTicks p1 \<ge> HysteresisTicks (p_cfg p1) \<and>
                    (case lastSwitchAt p1 of None \<Rightarrow> True | Some t \<Rightarrow> now \<ge> t + MinDwell (p_cfg p1))
                 then switch_to best now p1 else p1)))"

definition Evaluate :: "int \<Rightarrow> Policy \<Rightarrow> Policy" where
  "Evaluate now p0 =
     (let p = (evaluate_all now (p_ids p0) p0)\<lparr>lastEval := Some now\<rparr>
      in if pc_Mode (p_cfg p) \<noteq> PolicyAdaptive then p
         else hysteresis now (eligibleActiveLocked now p) p)"

section \<open>Selection\<close>

definition rank_before :: "Policy \<Rightarrow> CarrierID \<Rightarrow> CarrierID \<Rightarrow> bool" where
  "rank_before p a b =
     (let sa = LastScore (health_of p a); sb = LastScore (health_of p b)
      in if sa \<noteq> sb then sa > sb
         else if a = incumbent p then True
         else if b = incumbent p then False
         else str_less a b)"

text \<open>The order is total on distinct ids, so the stable library sort is this insertion sort.\<close>

fun insert_ranked :: "(CarrierID \<Rightarrow> CarrierID \<Rightarrow> bool) \<Rightarrow> CarrierID \<Rightarrow> CarrierID list \<Rightarrow> CarrierID list" where
  "insert_ranked lt x [] = [x]"
| "insert_ranked lt x (y # ys) = (if lt x y then x # y # ys else y # insert_ranked lt x ys)"

definition rank_all :: "Policy \<Rightarrow> CarrierID list \<Rightarrow> CarrierID list" where
  "rank_all p ids = foldr (insert_ranked (rank_before p)) ids []"

definition wrr_weight :: "rat \<Rightarrow> int" where
  "wrr_weight s = (let w = floor (100 * s * s + 1 / 2) in if w < 0 then 0 else w)"

text \<open>The index of the first strict maximum above \<open>-1\<close>, else 0.\<close>

fun max_index :: "nat \<Rightarrow> int list \<Rightarrow> int \<Rightarrow> nat \<Rightarrow> nat" where
  "max_index i [] maxV maxIdx = maxIdx"
| "max_index i (v # vs) maxV maxIdx =
     (if v > maxV then max_index (i + 1) vs v i else max_index (i + 1) vs maxV maxIdx)"

fun store_virts :: "CarrierID list \<Rightarrow> int list \<Rightarrow> (CarrierID \<Rightarrow> int) \<Rightarrow> CarrierID \<Rightarrow> int" where
  "store_virts (c # cs) (v # vs) m = store_virts cs vs (m(c := v))"
| "store_virts _ _ m = m"

definition smoothWRR :: "CarrierID list \<Rightarrow> Policy \<Rightarrow> CarrierID \<times> Policy" where
  "smoothWRR topk p =
     (let weights = map (\<lambda>cid. wrr_weight (LastScore (health_of p cid))) topk
      in if sum_list weights = 0 then (primaryOf p topk, p)
         else (let virts = map2 (\<lambda>cid w. wrr p cid + w) topk weights;
                   maxIdx = max_index 0 virts (- 1) 0;
                   win = virts ! maxIdx;
                   virts' = map (\<lambda>i. if i \<noteq> maxIdx then virts ! i - win else virts ! i) [0 ..< length topk]
               in (topk ! maxIdx, p\<lparr>wrr := store_virts topk virts' (wrr p)\<rparr>)))"

definition PickForNewStream :: "int \<Rightarrow> Policy \<Rightarrow> CarrierID \<times> Policy" where
  "PickForNewStream now p =
     (if pc_Mode (p_cfg p) \<noteq> PolicyAdaptive
      then (case eligibleActiveLocked now p of
              c # _ \<Rightarrow> (c, p)
            | [] \<Rightarrow> (case activeLocked p of c # _ \<Rightarrow> (c, p) | [] \<Rightarrow> ('''', p)))
      else (let eligible = eligibleActiveLocked now p
            in if eligible = [] then ('''', p)
               else (let k = (if TopK (p_cfg p) > int (length eligible) then length eligible
                              else nat (TopK (p_cfg p)))
                     in smoothWRR (take k (rank_all p eligible)) p)))"

definition CooldownRemaining :: "CarrierID \<Rightarrow> int \<Rightarrow> Policy \<Rightarrow> int" where
  "CooldownRemaining cid now p =
     (case health p cid of
        None \<Rightarrow> 0
      | Some h \<Rightarrow> (case CooldownUntil h of
                    None \<Rightarrow> 0
                  | Some u \<Rightarrow> if ch_State h \<noteq> stateExcluded then 0 else if u - now > 0 then u - now else 0))"

definition SuccessRatio :: "CarrierID \<Rightarrow> Policy \<Rightarrow> rat" where
  "SuccessRatio cid p =
     (case health p cid of
        None \<Rightarrow> 0
      | Some h \<Rightarrow> of_int (SuccessOK h + 1) / of_nat (min (SuccessWrites h) 50 + 2))"

section \<open>Observability\<close>

definition gateReasonOrdinal :: "string \<Rightarrow> int" where
  "gateReasonOrdinal r =
     (if r = '''' then 0 else if r = ''H1 probe'' then 1 else if r = ''H2 flap'' then 2
      else if r = ''H3 auth'' then 3 else if r = ''H4 stall'' then 4 else if r = ''success_ratio'' then 5
      else if r = ''stall_rate'' then 6 else if r = ''not_active'' then 7 else 8)"

definition stateOrdinal :: "string \<Rightarrow> int" where
  "stateOrdinal s =
     (if s = ''candidate'' then 0 else if s = ''active'' then 1 else if s = ''excluded'' then 2
      else if s = ''half_open'' then 3 else 4)"

record CarrierSnapshot =
  cs_ID :: string
  cs_State :: string
  cs_Score :: rat
  cs_GoodputMiBps :: rat
  cs_ProbeGoodputMiBps :: rat
  cs_SuccessRatio :: rat
  cs_StallCount :: int
  cs_StallRate :: rat
  cs_TTFBP50MS :: int
  cs_FlapCount :: nat
  cs_ResetCount :: nat
  cs_Rebinds :: int
  cs_ConnectRTTMS :: int
  cs_GateReason :: string
  cs_Eligible :: bool
  cs_CooldownRemainingSec :: int
  cs_ProbeBytesToday :: int
  cs_ProbeBudgetBytes :: int
  cs_ProbeExhausted :: bool

definition snapshot_of :: "int \<Rightarrow> Policy \<Rightarrow> CarrierID \<Rightarrow> CarrierSnapshot" where
  "snapshot_of now p cid =
     (let h = health_of p cid; cfg = p_cfg p; scp = scoreLocked cfg h now
      in \<lparr>cs_ID = cid, cs_State = state_String (ch_State h), cs_Score = sc_Total scp,
          cs_GoodputMiBps = GoodputEWMA h, cs_ProbeGoodputMiBps = ProbeGoodputEWMA h,
          cs_SuccessRatio = sc_Success scp, cs_StallCount = StallCount h,
          cs_StallRate = stallRatePer100MiB h, cs_TTFBP50MS = ttfbP50Locked h div 1000000,
          cs_FlapCount = flapCountLocked cfg h now, cs_ResetCount = resetCountLocked cfg h now,
          cs_Rebinds = Rebinds h, cs_ConnectRTTMS = ConnectRTTLast h div 1000000,
          cs_GateReason = ch_GateReason h, cs_Eligible = Eligible scp,
          cs_CooldownRemainingSec = CooldownRemaining cid now p div Second,
          cs_ProbeBytesToday = ProbeBytesToday h, cs_ProbeBudgetBytes = ProbeDailyBudgetBytes cfg,
          cs_ProbeExhausted = (ProbingEnabled cfg \<and> ProbeDailyBudgetBytes cfg > 0 \<and>
                               ProbeBytesToday h \<ge> ProbeDailyBudgetBytes cfg)\<rparr>)"

definition HealthSnapshotNow :: "int \<Rightarrow> Policy \<Rightarrow> CarrierSnapshot list" where
  "HealthSnapshotNow now p = map (snapshot_of now p) (p_ids p)"

definition EligibleMetric :: "CarrierSnapshot \<Rightarrow> int" where
  "EligibleMetric cs = (if cs_Eligible cs then 1 else 0)"

section \<open>The probe scheduler\<close>

definition policyProbeBytes :: "bool \<Rightarrow> Policy \<Rightarrow> int" where
  "policyProbeBytes full p = (if full then ProbeFullBytes (p_cfg p) else ProbeQuickBytes (p_cfg p))"

definition locked_bind :: "'a locked \<Rightarrow> ('a \<Rightarrow> Policy \<Rightarrow> 'b locked) \<Rightarrow> 'b locked" where
  "locked_bind m f = (case m of Inl b \<Rightarrow> Inl b | Inr (x, p) \<Rightarrow> f x p)"

text \<open>The scheduler of \<^verbatim>\<open>node.go\<close>: the four checks of each carrier, in the order of the code.\<close>

fun policySchedProbe :: "(int \<Rightarrow> int) \<Rightarrow> int \<Rightarrow> CarrierID list \<Rightarrow> Policy \<Rightarrow> unit locked" where
  "policySchedProbe midnight now [] p = Inr ((), p)"
| "policySchedProbe midnight now (cid # ids) p =
     locked_bind (DueProbe midnight cid now True p) (\<lambda>fullDue p1.
     locked_bind (DueProbe midnight cid now False p1) (\<lambda>quickDue p2.
     locked_bind (CanProbe midnight cid (policyProbeBytes True p2) now p2) (\<lambda>fullOK p3.
     locked_bind (CanProbe midnight cid (policyProbeBytes False p3) now p3) (\<lambda>quickOK p4.
       policySchedProbe midnight now ids p4))))"

text \<open>\<open>PickForNewStream\<close> as the node calls it, with the lock.\<close>

definition PickForNewStream_lock :: "int \<Rightarrow> Policy \<Rightarrow> CarrierID locked" where
  "PickForNewStream_lock now p0 =
     (case Lock p0 of
        Inl b \<Rightarrow> Inl b
      | Inr p \<Rightarrow> (let (c, p1) = PickForNewStream now p in Inr (c, Unlock p1)))"

section \<open>Runs\<close>

text \<open>
  The transport layer's calls. \<open>PProbe\<close> is a probe as the scheduler allows it: the budget
  check for its bytes, then its report.
\<close>

datatype policy_op =
    PPassive CarrierID int int
  | PPending CarrierID int
  | PStall CarrierID int int
  | POutcome CarrierID bool int
  | PReset CarrierID int
  | PFlap CarrierID int
  | PAuthFail CarrierID int
  | PRebind CarrierID
  | PConnectRTT CarrierID int
  | PProbe CarrierID bool rat int int bool
  | PEvaluate int
  | PPick int

fun policy_do :: "(int \<Rightarrow> int) \<Rightarrow> (rat \<Rightarrow> rat) \<Rightarrow> policy_op \<Rightarrow> Policy \<Rightarrow> CarrierID list \<times> Policy" where
  "policy_do mid pw (PPassive c n t) p = ([], RecordPassiveBytes pw c n t p)"
| "policy_do mid pw (PPending c t) p = ([], RecordPending c t p)"
| "policy_do mid pw (PStall c d t) p = ([], RecordStall c d t p)"
| "policy_do mid pw (POutcome c ok ttfb) p = ([], RecordStreamOutcome c ok ttfb p)"
| "policy_do mid pw (PReset c t) p = ([], RecordReset c t p)"
| "policy_do mid pw (PFlap c t) p = ([], RecordFlap c t p)"
| "policy_do mid pw (PAuthFail c t) p = ([], RecordAuthFail c t p)"
| "policy_do mid pw (PRebind c) p = ([], RecordRebind c p)"
| "policy_do mid pw (PConnectRTT c r) p = ([], RecordConnectRTT c r p)"
| "policy_do mid pw (PProbe c ok g n t full) p =
     (case CanProbe mid c n t p of
        Inl b \<Rightarrow> ([], b)
      | Inr (may, p1) \<Rightarrow> ([], if may then RecordProbe mid pw c ok g n t full p1 else p1))"
| "policy_do mid pw (PEvaluate t) p = ([], Evaluate t p)"
| "policy_do mid pw (PPick t) p = (let (c, p1) = PickForNewStream t p in ([c], p1))"

fun policy_run :: "(int \<Rightarrow> int) \<Rightarrow> (rat \<Rightarrow> rat) \<Rightarrow> policy_op list \<Rightarrow> Policy \<Rightarrow> CarrierID list \<times> Policy" where
  "policy_run mid pw [] p = ([], p)"
| "policy_run mid pw (op # ops) p =
     (let (cs, p1) = policy_do mid pw op p; (ds, p2) = policy_run mid pw ops p1 in (cs @ ds, p2))"

section \<open>Lemmas: scores\<close>

lemma clamp01_bounds [simp]: "0 \<le> clamp01 x" "clamp01 x \<le> 1"
  by (simp_all add: clamp01_def)

lemma score_total_bounds: "0 \<le> sc_Total (scoreLocked cfg h now)" "sc_Total (scoreLocked cfg h now) \<le> 1"
  by (simp_all add: scoreLocked_def Let_def)

section \<open>Lemmas: connect time has no influence\<close>

definition forget_h :: "CarrierHealth \<Rightarrow> CarrierHealth" where
  "forget_h h = h\<lparr>ConnectRTTLast := 0\<rparr>"

definition forget :: "Policy \<Rightarrow> Policy" where
  "forget p = p\<lparr>health := (\<lambda>c. map_option forget_h (health p c))\<rparr>"

lemma forget_h_sel [simp]:
  "ch_State (forget_h h) = ch_State h"
  "GoodputEWMA (forget_h h) = GoodputEWMA h"
  "goodputRing (forget_h h) = goodputRing h"
  "goodputCursor (forget_h h) = goodputCursor h"
  "goodputWrites (forget_h h) = goodputWrites h"
  "passiveLastAt (forget_h h) = passiveLastAt h"
  "DeliveredBytes (forget_h h) = DeliveredBytes h"
  "LastDeliveredAt (forget_h h) = LastDeliveredAt h"
  "LastPendingAt (forget_h h) = LastPendingAt h"
  "HasPending (forget_h h) = HasPending h"
  "SuccessRing (forget_h h) = SuccessRing h"
  "SuccessCursor (forget_h h) = SuccessCursor h"
  "SuccessWrites (forget_h h) = SuccessWrites h"
  "SuccessOK (forget_h h) = SuccessOK h"
  "StallCount (forget_h h) = StallCount h"
  "StallTotalDur (forget_h h) = StallTotalDur h"
  "LastStallAt (forget_h h) = LastStallAt h"
  "TTFBRing (forget_h h) = TTFBRing h"
  "TTFBCursor (forget_h h) = TTFBCursor h"
  "TTFBWrites (forget_h h) = TTFBWrites h"
  "Resets (forget_h h) = Resets h"
  "ResetsCursor (forget_h h) = ResetsCursor h"
  "Flaps (forget_h h) = Flaps h"
  "FlapsCursor (forget_h h) = FlapsCursor h"
  "AuthFails (forget_h h) = AuthFails h"
  "AuthFailsCursor (forget_h h) = AuthFailsCursor h"
  "Rebinds (forget_h h) = Rebinds h"
  "ProbeGoodputEWMA (forget_h h) = ProbeGoodputEWMA h"
  "ProbeBytesToday (forget_h h) = ProbeBytesToday h"
  "ProbeDayStamp (forget_h h) = ProbeDayStamp h"
  "LastProbePassFull (forget_h h) = LastProbePassFull h"
  "LastProbePassQuick (forget_h h) = LastProbePassQuick h"
  "LastFullProbeAt (forget_h h) = LastFullProbeAt h"
  "LastQuickProbeAt (forget_h h) = LastQuickProbeAt h"
  "ConsecProbeFails (forget_h h) = ConsecProbeFails h"
  "CooldownUntil (forget_h h) = CooldownUntil h"
  "CooldownPeriod (forget_h h) = CooldownPeriod h"
  "ExcludedSince (forget_h h) = ExcludedSince h"
  "ExclusionStreak (forget_h h) = ExclusionStreak h"
  "ActiveSince (forget_h h) = ActiveSince h"
  "HalfOpenPasses (forget_h h) = HalfOpenPasses h"
  "CandidatePasses (forget_h h) = CandidatePasses h"
  "LastScore (forget_h h) = LastScore h"
  "ch_GateReason (forget_h h) = ch_GateReason h"
  by (simp_all add: forget_h_def)

lemma forget_h_upd [simp]:
  "(forget_h h)\<lparr>ch_State := x0\<rparr> = forget_h (h\<lparr>ch_State := x0\<rparr>)"
  "(forget_h h)\<lparr>GoodputEWMA := x1\<rparr> = forget_h (h\<lparr>GoodputEWMA := x1\<rparr>)"
  "(forget_h h)\<lparr>goodputRing := x2\<rparr> = forget_h (h\<lparr>goodputRing := x2\<rparr>)"
  "(forget_h h)\<lparr>goodputCursor := x3\<rparr> = forget_h (h\<lparr>goodputCursor := x3\<rparr>)"
  "(forget_h h)\<lparr>goodputWrites := x4\<rparr> = forget_h (h\<lparr>goodputWrites := x4\<rparr>)"
  "(forget_h h)\<lparr>passiveLastAt := x5\<rparr> = forget_h (h\<lparr>passiveLastAt := x5\<rparr>)"
  "(forget_h h)\<lparr>DeliveredBytes := x6\<rparr> = forget_h (h\<lparr>DeliveredBytes := x6\<rparr>)"
  "(forget_h h)\<lparr>LastDeliveredAt := x7\<rparr> = forget_h (h\<lparr>LastDeliveredAt := x7\<rparr>)"
  "(forget_h h)\<lparr>LastPendingAt := x8\<rparr> = forget_h (h\<lparr>LastPendingAt := x8\<rparr>)"
  "(forget_h h)\<lparr>HasPending := x9\<rparr> = forget_h (h\<lparr>HasPending := x9\<rparr>)"
  "(forget_h h)\<lparr>SuccessRing := x10\<rparr> = forget_h (h\<lparr>SuccessRing := x10\<rparr>)"
  "(forget_h h)\<lparr>SuccessCursor := x11\<rparr> = forget_h (h\<lparr>SuccessCursor := x11\<rparr>)"
  "(forget_h h)\<lparr>SuccessWrites := x12\<rparr> = forget_h (h\<lparr>SuccessWrites := x12\<rparr>)"
  "(forget_h h)\<lparr>SuccessOK := x13\<rparr> = forget_h (h\<lparr>SuccessOK := x13\<rparr>)"
  "(forget_h h)\<lparr>StallCount := x14\<rparr> = forget_h (h\<lparr>StallCount := x14\<rparr>)"
  "(forget_h h)\<lparr>StallTotalDur := x15\<rparr> = forget_h (h\<lparr>StallTotalDur := x15\<rparr>)"
  "(forget_h h)\<lparr>LastStallAt := x16\<rparr> = forget_h (h\<lparr>LastStallAt := x16\<rparr>)"
  "(forget_h h)\<lparr>TTFBRing := x17\<rparr> = forget_h (h\<lparr>TTFBRing := x17\<rparr>)"
  "(forget_h h)\<lparr>TTFBCursor := x18\<rparr> = forget_h (h\<lparr>TTFBCursor := x18\<rparr>)"
  "(forget_h h)\<lparr>TTFBWrites := x19\<rparr> = forget_h (h\<lparr>TTFBWrites := x19\<rparr>)"
  "(forget_h h)\<lparr>Resets := x20\<rparr> = forget_h (h\<lparr>Resets := x20\<rparr>)"
  "(forget_h h)\<lparr>ResetsCursor := x21\<rparr> = forget_h (h\<lparr>ResetsCursor := x21\<rparr>)"
  "(forget_h h)\<lparr>Flaps := x22\<rparr> = forget_h (h\<lparr>Flaps := x22\<rparr>)"
  "(forget_h h)\<lparr>FlapsCursor := x23\<rparr> = forget_h (h\<lparr>FlapsCursor := x23\<rparr>)"
  "(forget_h h)\<lparr>AuthFails := x24\<rparr> = forget_h (h\<lparr>AuthFails := x24\<rparr>)"
  "(forget_h h)\<lparr>AuthFailsCursor := x25\<rparr> = forget_h (h\<lparr>AuthFailsCursor := x25\<rparr>)"
  "(forget_h h)\<lparr>Rebinds := x26\<rparr> = forget_h (h\<lparr>Rebinds := x26\<rparr>)"
  "(forget_h h)\<lparr>ProbeGoodputEWMA := x27\<rparr> = forget_h (h\<lparr>ProbeGoodputEWMA := x27\<rparr>)"
  "(forget_h h)\<lparr>ProbeBytesToday := x28\<rparr> = forget_h (h\<lparr>ProbeBytesToday := x28\<rparr>)"
  "(forget_h h)\<lparr>ProbeDayStamp := x29\<rparr> = forget_h (h\<lparr>ProbeDayStamp := x29\<rparr>)"
  "(forget_h h)\<lparr>LastProbePassFull := x30\<rparr> = forget_h (h\<lparr>LastProbePassFull := x30\<rparr>)"
  "(forget_h h)\<lparr>LastProbePassQuick := x31\<rparr> = forget_h (h\<lparr>LastProbePassQuick := x31\<rparr>)"
  "(forget_h h)\<lparr>LastFullProbeAt := x32\<rparr> = forget_h (h\<lparr>LastFullProbeAt := x32\<rparr>)"
  "(forget_h h)\<lparr>LastQuickProbeAt := x33\<rparr> = forget_h (h\<lparr>LastQuickProbeAt := x33\<rparr>)"
  "(forget_h h)\<lparr>ConsecProbeFails := x34\<rparr> = forget_h (h\<lparr>ConsecProbeFails := x34\<rparr>)"
  "(forget_h h)\<lparr>CooldownUntil := x35\<rparr> = forget_h (h\<lparr>CooldownUntil := x35\<rparr>)"
  "(forget_h h)\<lparr>CooldownPeriod := x36\<rparr> = forget_h (h\<lparr>CooldownPeriod := x36\<rparr>)"
  "(forget_h h)\<lparr>ExcludedSince := x37\<rparr> = forget_h (h\<lparr>ExcludedSince := x37\<rparr>)"
  "(forget_h h)\<lparr>ExclusionStreak := x38\<rparr> = forget_h (h\<lparr>ExclusionStreak := x38\<rparr>)"
  "(forget_h h)\<lparr>ActiveSince := x39\<rparr> = forget_h (h\<lparr>ActiveSince := x39\<rparr>)"
  "(forget_h h)\<lparr>HalfOpenPasses := x40\<rparr> = forget_h (h\<lparr>HalfOpenPasses := x40\<rparr>)"
  "(forget_h h)\<lparr>CandidatePasses := x41\<rparr> = forget_h (h\<lparr>CandidatePasses := x41\<rparr>)"
  "(forget_h h)\<lparr>LastScore := x42\<rparr> = forget_h (h\<lparr>LastScore := x42\<rparr>)"
  "(forget_h h)\<lparr>ch_GateReason := x43\<rparr> = forget_h (h\<lparr>ch_GateReason := x43\<rparr>)"
  by (simp_all add: forget_h_def)

lemma forget_sel [simp]:
  "p_cfg (forget p) = p_cfg p" "p_ids (forget p) = p_ids p" "wrr (forget p) = wrr p"
  "incumbent (forget p) = incumbent p" "p_mu (forget p) = p_mu p"
  "health (forget p) c = map_option forget_h (health p c)"
  by (simp_all add: forget_def)

lemma counts_forget [simp]:
  "flapCountLocked cfg (forget_h h) now = flapCountLocked cfg h now"
  "authFailCountLocked cfg (forget_h h) now = authFailCountLocked cfg h now"
  "resetCountLocked cfg (forget_h h) now = resetCountLocked cfg h now"
  "zero_delivery cfg (forget_h h) now = zero_delivery cfg h now"
  "goodputP10Locked (forget_h h) = goodputP10Locked h"
  "stallRatePer100MiB (forget_h h) = stallRatePer100MiB h"
  "ttfbP50Locked (forget_h h) = ttfbP50Locked h"
  by (simp_all only: flapCountLocked_def authFailCountLocked_def resetCountLocked_def zero_delivery_def
      goodputP10Locked_def stallRatePer100MiB_def ttfbP50Locked_def forget_h_sel)

lemma score_forget [simp]: "scoreLocked cfg (forget_h h) now = scoreLocked cfg h now"
  by (simp only: scoreLocked_def forget_h_sel counts_forget)

lemma health_of_forget [simp]: "health_of (forget p) c = forget_h (health_of p c)"
  by (simp add: health_of_def split: option.splits) (simp add: forget_h_def new_health_def)

lemma upd_health_forget:
  "(\<And>h. f (forget_h h) = forget_h (f h)) \<Longrightarrow> upd_health c f (forget p) = forget (upd_health c f p)"
  by (auto simp: upd_health_def forget_def fun_eq_iff split: option.splits)

lemma passive_forget: "passive_sample pw n t (forget_h h) = forget_h (passive_sample pw n t h)"
  by (simp add: passive_sample_def inst_rate_def ewma_alpha_def)

lemma outcome_forget: "outcome_write cfg ok ttfb (forget_h h) = forget_h (outcome_write cfg ok ttfb h)"
proof -
  have "success_write ok (forget_h h) = forget_h (success_write ok h)" for h
    by (simp add: success_write_def)
  then show ?thesis by (simp add: outcome_write_def Let_def split: carrierState.splits)
qed

lemma roll_forget [simp]: "rollProbeDay mid t (forget_h h) = forget_h (rollProbeDay mid t h)"
  by (simp add: rollProbeDay_def split: option.splits)

lemma probe_forget:
  "probe_write mid pw cfg ok g n t full (forget_h h) = forget_h (probe_write mid pw cfg ok g n t full h)"
proof -
  have if_forget: "(if b then forget_h x else forget_h y) = forget_h (if b then x else y)" for b x y
    by simp
  show ?thesis
    by (simp only: probe_write_def Let_def roll_forget forget_h_sel forget_h_upd if_forget)
qed

lemma exclude_forget [simp]: "excludeLocked cfg now r (forget_h h) = forget_h (excludeLocked cfg now r h)"
  by (simp add: excludeLocked_def Let_def)

lemma advance_forget [simp]:
  "advanceLifecycle cfg scp now (forget_h h) = forget_h (advanceLifecycle cfg scp now h)"
  by (cases "ch_State h") (simp_all add: advanceLifecycle_def split: option.splits)

lemma evaluate_one_forget: "evaluate_one cfg now (forget_h h) = forget_h (evaluate_one cfg now h)"
  by (simp add: evaluate_one_def Let_def)

lemma evaluate_all_forget: "evaluate_all now ids (forget p) = forget (evaluate_all now ids p)"
proof (induction ids arbitrary: p)
  case (Cons c ids)
  have "(forget p)\<lparr>health := (health (forget p))(c \<mapsto> evaluate_one (p_cfg p) now (forget_h (health_of p c)))\<rparr>
      = forget (p\<lparr>health := (health p)(c \<mapsto> evaluate_one (p_cfg p) now (health_of p c))\<rparr>)"
    by (simp add: forget_def evaluate_one_forget fun_eq_iff)
  then show ?case using Cons.IH by simp
qed simp

lemma policy_upd_forget:
  "(forget p)\<lparr>lastEval := a\<rparr> = forget (p\<lparr>lastEval := a\<rparr>)"
  "(forget p)\<lparr>incumbent := b\<rparr> = forget (p\<lparr>incumbent := b\<rparr>)"
  "(forget p)\<lparr>challenger := b\<rparr> = forget (p\<lparr>challenger := b\<rparr>)"
  "(forget p)\<lparr>challengerTicks := i\<rparr> = forget (p\<lparr>challengerTicks := i\<rparr>)"
  "(forget p)\<lparr>lastSwitchAt := a\<rparr> = forget (p\<lparr>lastSwitchAt := a\<rparr>)"
  "(forget p)\<lparr>switchCount := i\<rparr> = forget (p\<lparr>switchCount := i\<rparr>)"
  "(forget p)\<lparr>wrr := w\<rparr> = forget (p\<lparr>wrr := w\<rparr>)"
  "(forget p)\<lparr>p_mu := m\<rparr> = forget (p\<lparr>p_mu := m\<rparr>)"
  by (simp_all add: forget_def)

lemma policy_sel_forget:
  "challenger (forget p) = challenger p" "challengerTicks (forget p) = challengerTicks p"
  "lastSwitchAt (forget p) = lastSwitchAt p" "switchCount (forget p) = switchCount p"
  by (simp_all add: forget_def)

lemma rank_before_forget: "rank_before (forget p) = rank_before p"
  by (simp add: rank_before_def fun_eq_iff)

lemma lists_forget:
  "eligibleActiveLocked now (forget p) = eligibleActiveLocked now p"
  "activeLocked (forget p) = activeLocked p" "primaryOf (forget p) cs = primaryOf p cs"
  "bestEligibleLocked (forget p) cs = bestEligibleLocked p cs" "rank_all (forget p) cs = rank_all p cs"
  by (simp_all only: eligibleActiveLocked_def activeLocked_def primaryOf_def bestEligibleLocked_def
      rank_all_def rank_before_forget forget_sel health_of_forget forget_h_sel score_forget)

lemma if_forget: "(if b then forget x else forget y) = forget (if b then x else y)"
  by simp

lemma hysteresis_forget: "hysteresis now cs (forget p) = forget (hysteresis now cs p)"
  by (simp only: hysteresis_def switch_to_def Let_def lists_forget policy_upd_forget forget_sel policy_sel_forget
      health_of_forget forget_h_sel if_forget)

lemma Evaluate_forget: "Evaluate now (forget p) = forget (Evaluate now p)"
  by (simp only: Evaluate_def Let_def evaluate_all_forget lists_forget policy_upd_forget forget_sel
      hysteresis_forget if_forget)

lemma smoothWRR_forget: "smoothWRR cs (forget p) = map_prod id forget (smoothWRR cs p)"
proof -
  have "map (\<lambda>cid. wrr_weight (LastScore (health_of (forget p) cid))) cs
      = map (\<lambda>cid. wrr_weight (LastScore (health_of p cid))) cs" by simp
  then show ?thesis
    by (simp only: smoothWRR_def lists_forget policy_upd_forget forget_sel Let_def if_distrib
        [where f = "map_prod id forget"] map_prod_simp id_apply)
qed

lemma Pick_forget: "PickForNewStream now (forget p) = map_prod id forget (PickForNewStream now p)"
  by (simp add: PickForNewStream_def smoothWRR_forget lists_forget Let_def split: list.splits)

lemma CanProbe_forget:
  "CanProbe mid c n t (forget p) =
     (case CanProbe mid c n t p of Inl b \<Rightarrow> Inl (forget b) | Inr (ok, p1) \<Rightarrow> Inr (ok, forget p1))"
proof -
  have "(forget q)\<lparr>health := (health (forget q))(c \<mapsto> forget_h h)\<rparr> = forget (q\<lparr>health := (health q)(c \<mapsto> h)\<rparr>)" for q h
    by (simp add: forget_def fun_eq_iff)
  then show ?thesis
    by (simp add: CanProbe_def Lock_def Unlock_def policy_upd_forget Let_def split: option.splits)
qed

fun is_rtt :: "policy_op \<Rightarrow> bool" where
  "is_rtt (PConnectRTT _ _) = True"
| "is_rtt _ = False"

lemma policy_do_forget:
  assumes "policy_do mid pw op p = (cs, p')" and "\<not> is_rtt op"
  shows "policy_do mid pw op (forget p) = (cs, forget p')"
proof (cases op)
  case (PProbe c ok g n t full)
  show ?thesis
  proof (cases "CanProbe mid c n t p")
    case (Inl b)
    then show ?thesis using assms PProbe by (simp add: CanProbe_forget)
  next
    case (Inr x)
    obtain may q where x: "x = (may, q)" by (cases x)
    show ?thesis using assms PProbe Inr x
      by (auto simp: CanProbe_forget RecordProbe_def upd_health_forget probe_forget)
  qed
next
  case (PPick t)
  then show ?thesis using assms by (auto simp: Pick_forget Let_def split: prod.splits)
next
  case (PConnectRTT c r)
  then show ?thesis using assms(2) by simp
qed (use assms in \<open>auto simp: RecordPassiveBytes_def RecordPending_def RecordStall_def RecordStreamOutcome_def
      RecordReset_def RecordFlap_def RecordAuthFail_def RecordRebind_def upd_health_forget
      passive_forget outcome_forget Evaluate_forget\<close>)

lemma rtt_forget: "forget (RecordConnectRTT c r p) = forget p"
  by (simp add: RecordConnectRTT_def upd_health_def forget_def forget_h_def fun_eq_iff split: option.splits)

lemma rtt_irrelevant:
  assumes "forget q = forget p"
  shows "fst (policy_run mid pw (filter (\<lambda>op. \<not> is_rtt op) ops) q) = fst (policy_run mid pw ops p)"
  using assms
proof (induction ops arbitrary: p q)
  case (Cons op ops)
  obtain cs p1 where 1: "policy_do mid pw op p = (cs, p1)" by fastforce
  show ?case
  proof (cases "is_rtt op")
    case True
    then have "forget p1 = forget p" "cs = []" using 1 rtt_forget by (cases op; auto)+
    then show ?thesis using Cons.IH [of q p1] Cons.prems 1 True by (simp add: split_def)
  next
    case False
    obtain ds q1 where 2: "policy_do mid pw op q = (ds, q1)" by fastforce
    have "(ds, forget q1) = (cs, forget p1)"
      using policy_do_forget [OF 1 False] policy_do_forget [OF 2 False] Cons.prems by simp
    then show ?thesis using Cons.IH [of q1 p1] 1 2 False by (simp add: split_def Let_def)
  qed
qed simp

section \<open>Lemmas: selection\<close>

lemma set_insert_ranked [simp]: "set (insert_ranked lt x ys) = insert x (set ys)"
  by (induction ys) auto

lemma distinct_insert_ranked [simp]: "distinct (insert_ranked lt x ys) = (x \<notin> set ys \<and> distinct ys)"
  by (induction ys) auto

lemma rank_all_set [simp]: "set (rank_all p ids) = set ids"
  by (induction ids) (simp_all add: rank_all_def)

lemma rank_all_distinct [simp]: "distinct (rank_all p ids) = distinct ids"
  using rank_all_set by (induction ids) (simp_all add: rank_all_def)

lemma length_rank_all [simp]: "length (rank_all p ids) = length ids"
proof -
  have "length (insert_ranked lt x ys) = Suc (length ys)" for lt x ys by (induction ys) auto
  then show ?thesis by (induction ids) (simp_all add: rank_all_def)
qed

lemma max_index_cases:
  "(max_index i vs m d = d \<and> (\<forall>v \<in> set vs. v \<le> m)) \<or>
   (\<exists>j < length vs. max_index i vs m d = i + j \<and> vs ! j > m \<and> (\<forall>l < length vs. vs ! l \<le> vs ! j))"
proof (induction vs arbitrary: i m d)
  case (Cons v vs)
  show ?case
  proof (cases "v > m")
    case True
    from Cons.IH [of "i + 1" v i] show ?thesis
    proof
      assume "max_index (i + 1) vs v i = i \<and> (\<forall>x \<in> set vs. x \<le> v)"
      then show ?thesis using True
        by (intro disjI2 exI [of _ 0]) (auto simp: nth_Cons split: nat.splits)
    next
      assume "\<exists>j < length vs. max_index (i + 1) vs v i = i + 1 + j \<and> vs ! j > v \<and> (\<forall>l < length vs. vs ! l \<le> vs ! j)"
      then obtain j where "j < length vs" "max_index (i + 1) vs v i = i + 1 + j" "vs ! j > v"
        "\<forall>l < length vs. vs ! l \<le> vs ! j" by blast
      then show ?thesis using True
        by (intro disjI2 exI [of _ "Suc j"]) (auto simp: nth_Cons split: nat.splits)
    qed
  next
    case False
    from Cons.IH [of "i + 1" m d] show ?thesis
    proof
      assume "max_index (i + 1) vs m d = d \<and> (\<forall>x \<in> set vs. x \<le> m)"
      then show ?thesis using False by simp
    next
      assume "\<exists>j < length vs. max_index (i + 1) vs m d = i + 1 + j \<and> vs ! j > m \<and> (\<forall>l < length vs. vs ! l \<le> vs ! j)"
      then obtain j where "j < length vs" "max_index (i + 1) vs m d = i + 1 + j" "vs ! j > m"
        "\<forall>l < length vs. vs ! l \<le> vs ! j" by blast
      then show ?thesis using False
        by (intro disjI2 exI [of _ "Suc j"]) (auto simp: nth_Cons split: nat.splits)
    qed
  qed
qed simp

lemma max_index_strict:
  assumes "j < length vs" and "vs ! j > m" and "\<And>l. l < length vs \<Longrightarrow> l \<noteq> j \<Longrightarrow> vs ! l < vs ! j"
  shows "max_index 0 vs m d = j"
  using max_index_cases [of 0 vs m d]
proof
  assume "max_index 0 vs m d = d \<and> (\<forall>v \<in> set vs. v \<le> m)"
  then show ?thesis using assms(1,2) nth_mem by fastforce
next
  assume "\<exists>i < length vs. max_index 0 vs m d = 0 + i \<and> vs ! i > m \<and> (\<forall>l < length vs. vs ! l \<le> vs ! i)"
  then obtain i where "i < length vs" "max_index 0 vs m d = i" "vs ! j \<le> vs ! i" using assms(1) by auto
  then show ?thesis using assms(3) [of i] by fastforce
qed

lemma store_virts_keep: "c \<notin> set cs \<Longrightarrow> store_virts cs vs m c = m c"
  by (induction cs vs m rule: store_virts.induct) auto

lemma store_virts_nth:
  "distinct cs \<Longrightarrow> length vs = length cs \<Longrightarrow> i < length cs \<Longrightarrow> store_virts cs vs m (cs ! i) = vs ! i"
  by (induction cs vs m arbitrary: i rule: store_virts.induct)
    (auto simp: store_virts_keep nth_Cons split: nat.splits)

text \<open>
  The counters after any number of equal rounds: the first winner keeps its growing total and
  everybody else is at or below zero, so the winner wins again.
\<close>

definition wrr_stuck :: "CarrierID list \<Rightarrow> nat \<Rightarrow> Policy \<Rightarrow> bool" where
  "wrr_stuck cs j p \<longleftrightarrow> (\<exists>m :: nat. wrr p (cs ! j) = int m * wrr_weight (LastScore (health_of p (cs ! j))) \<and>
     (m = 0 \<longrightarrow> (\<forall>c. wrr p c = 0)) \<and> (\<forall>i < length cs. i \<noteq> j \<longrightarrow> wrr p (cs ! i) \<le> 0))"

lemma wrr_weight_nonneg [simp]: "0 \<le> wrr_weight s"
  by (simp add: wrr_weight_def Let_def)

lemma smoothWRR_sticks:
  fixes p cs
  defines "W \<equiv> map (\<lambda>c. wrr_weight (LastScore (health_of p c))) cs"
  defines "j \<equiv> max_index 0 W (- 1) 0"
  assumes "distinct cs" and "sum_list W \<noteq> 0" and stuck: "wrr_stuck cs j p"
  shows "\<exists>w. smoothWRR cs p = (cs ! j, p\<lparr>wrr := w\<rparr>) \<and> wrr_stuck cs j (p\<lparr>wrr := w\<rparr>)"
proof -
  have lenW: "length W = length cs" by (simp add: W_def)
  have nonneg: "W ! i \<ge> 0" if "i < length cs" for i using that by (simp add: W_def)
  have "\<exists>i < length cs. W ! i > 0"
  proof (rule ccontr)
    assume "\<not> ?thesis"
    then have "W ! i = 0" if "i < length W" for i
      using that nonneg [of i] lenW by (metis antisym not_less)
    then have "W = map (\<lambda>_. 0) W" by (intro nth_equalityI) auto
    then have "sum_list W = 0" by (metis sum_list_0)
    then show False using assms(4) by simp
  qed
  then obtain i0 where i0: "i0 < length cs" "W ! i0 > 0" by blast
  have "\<not> (\<forall>v \<in> set W. v \<le> - 1)" using i0 lenW nth_mem [of i0 W] by fastforce
  then have "j < length W \<and> (\<forall>i < length W. W ! i \<le> W ! j)"
    using max_index_cases [of 0 W "- 1" 0] unfolding j_def by force
  then have j: "j < length cs" "\<forall>i < length cs. W ! i \<le> W ! j" "W ! j > 0"
    using lenW i0 by fastforce+
  obtain m :: nat where m: "wrr p (cs ! j) = int m * W ! j" "m = 0 \<longrightarrow> (\<forall>c. wrr p c = 0)"
    "\<forall>i < length cs. i \<noteq> j \<longrightarrow> wrr p (cs ! i) \<le> 0"
    using stuck j(1) by (auto simp: wrr_stuck_def W_def)
  let ?V = "map2 (\<lambda>c w. wrr p c + w) cs W"
  have V: "?V ! i = wrr p (cs ! i) + W ! i" "length ?V = length cs" if "i < length cs" for i
    using that by (simp_all add: W_def)
  have mx: "max_index 0 ?V (- 1) 0 = j"
  proof (cases "m = 0")
    case True
    then have "?V = W" using m(2) by (intro nth_equalityI) (simp_all add: W_def)
    then show ?thesis by (simp add: j_def)
  next
    case False
    have "W ! j * 1 \<le> W ! j * int m" using False j(3) by (intro mult_left_mono) auto
    then have big: "?V ! j \<ge> 2 * W ! j" using j(1) m(1) V by (simp add: algebra_simps)
    show ?thesis
    proof (rule max_index_strict)
      fix l assume "l < length ?V" "l \<noteq> j"
      then have l: "l < length cs" by (simp add: W_def)
      have "?V ! l \<le> W ! j" using m(3) j(2) V(1) [OF l] l \<open>l \<noteq> j\<close> by fastforce
      then show "?V ! l < ?V ! j" using big j(3) by linarith
    qed (use j V big in \<open>auto simp: W_def\<close>)
  qed
  have win: "?V ! j = int (Suc m) * W ! j" using V [OF j(1)] m(1) by (simp add: algebra_simps)
  define V' where "V' = map (\<lambda>i. if i \<noteq> j then ?V ! i - ?V ! j else ?V ! i) [0 ..< length cs]"
  define w where "w = store_virts cs V' (wrr p)"
  have step: "smoothWRR cs p = (cs ! j, p\<lparr>wrr := w\<rparr>)"
    unfolding smoothWRR_def Let_def W_def [symmetric] mx w_def V'_def using assms(4) by simp
  have w: "w (cs ! i) = V' ! i" if "i < length cs" for i
    unfolding w_def using that assms(3) by (intro store_virts_nth) (simp_all add: V'_def)
  have keep: "health_of (p\<lparr>wrr := w\<rparr>) = health_of p" by (simp add: health_of_def fun_eq_iff)
  have "wrr_stuck cs j (p\<lparr>wrr := w\<rparr>)"
    unfolding wrr_stuck_def keep
  proof (intro exI [of _ "Suc m"] conjI allI impI)
    show "wrr (p\<lparr>wrr := w\<rparr>) (cs ! j) = int (Suc m) * wrr_weight (LastScore (health_of p (cs ! j)))"
      using w [OF j(1)] j(1) win by (simp add: V'_def W_def)
  next
    fix i assume i: "i < length cs" "i \<noteq> j"
    have "?V ! i \<le> W ! j" using m(3) j(2) V(1) [OF i(1)] i by fastforce
    moreover have "W ! j * 1 \<le> W ! j * int (Suc m)" using j(3) by (intro mult_left_mono) auto
    moreover have "w (cs ! i) = ?V ! i - int (Suc m) * W ! j"
      using w [OF i(1)] i win by (simp add: V'_def)
    ultimately show "wrr (p\<lparr>wrr := w\<rparr>) (cs ! i) \<le> 0"
      by (simp add: mult.commute)
  qed simp
  then show ?thesis using step by blast
qed

lemma lists_wrr [simp]:
  "eligibleActiveLocked now (p\<lparr>wrr := w\<rparr>) = eligibleActiveLocked now p"
  "rank_all (p\<lparr>wrr := w\<rparr>) cs = rank_all p cs" "primaryOf (p\<lparr>wrr := w\<rparr>) cs = primaryOf p cs"
  "health_of (p\<lparr>wrr := w\<rparr>) = health_of p"
proof -
  show h: "health_of (p\<lparr>wrr := w\<rparr>) = health_of p" by (simp add: health_of_def fun_eq_iff)
  show "eligibleActiveLocked now (p\<lparr>wrr := w\<rparr>) = eligibleActiveLocked now p"
    by (simp add: eligibleActiveLocked_def h)
  have "rank_before (p\<lparr>wrr := w\<rparr>) = rank_before p" by (simp add: rank_before_def h fun_eq_iff)
  then show "rank_all (p\<lparr>wrr := w\<rparr>) cs = rank_all p cs" by (simp add: rank_all_def)
  show "primaryOf (p\<lparr>wrr := w\<rparr>) cs = primaryOf p cs" by (cases cs) (simp_all add: primaryOf_def)
qed

definition top_of :: "int \<Rightarrow> Policy \<Rightarrow> CarrierID list" where
  "top_of now p = (let e = eligibleActiveLocked now p
     in take (if TopK (p_cfg p) > int (length e) then length e else nat (TopK (p_cfg p))) (rank_all p e))"

lemma Pick_adaptive:
  "pc_Mode (p_cfg p) = PolicyAdaptive \<Longrightarrow> eligibleActiveLocked now p \<noteq> [] \<Longrightarrow>
     PickForNewStream now p = smoothWRR (top_of now p) p"
  by (simp add: PickForNewStream_def top_of_def Let_def)

lemma top_of_wrr [simp]: "top_of now (p\<lparr>wrr := w\<rparr>) = top_of now p"
  by (simp add: top_of_def Let_def)

lemma picks_stuck:
  assumes "pc_Mode (p_cfg p) = PolicyAdaptive" and "eligibleActiveLocked now p \<noteq> []" and "distinct (p_ids p)"
    and "sum_list (map (\<lambda>c. wrr_weight (LastScore (health_of p c))) (top_of now p)) \<noteq> 0"
    and "j = max_index 0 (map (\<lambda>c. wrr_weight (LastScore (health_of p c))) (top_of now p)) (- 1) 0"
    and "wrr_stuck (top_of now p) j p"
  shows "fst (policy_run mid pw (replicate k (PPick now)) p) = replicate k (top_of now p ! j)"
  using assms
proof (induction k arbitrary: p)
  case (Suc k)
  have "distinct (top_of now p)"
    using Suc.prems(3) by (simp add: top_of_def Let_def eligibleActiveLocked_def)
  then obtain w where w: "smoothWRR (top_of now p) p = (top_of now p ! j, p\<lparr>wrr := w\<rparr>)"
    "wrr_stuck (top_of now p) j (p\<lparr>wrr := w\<rparr>)"
    using smoothWRR_sticks [of "top_of now p" p] Suc.prems(4,5,6) by blast
  have "fst (policy_run mid pw (replicate k (PPick now)) (p\<lparr>wrr := w\<rparr>)) = replicate k (top_of now p ! j)"
    using Suc.IH [of "p\<lparr>wrr := w\<rparr>"] Suc.prems w(2) by simp
  then show ?case
    using w(1) Pick_adaptive [OF Suc.prems(1,2)] by (simp add: split_def Let_def)
qed simp

section \<open>Lemmas: the outcome window\<close>

text \<open>The ring of the last 50 outcomes against the list of all outcomes.\<close>

definition window_ok :: "bool list \<Rightarrow> CarrierHealth \<Rightarrow> bool" where
  "window_ok outs h \<longleftrightarrow> length (SuccessRing h) = 50 \<and> SuccessWrites h = length outs \<and>
     SuccessCursor h = length outs mod 50 \<and>
     (\<forall>i < length outs. length outs \<le> i + 50 \<longrightarrow> SuccessRing h ! (i mod 50) = outs ! i) \<and>
     SuccessOK h = int (length (filter id (drop (length outs - 50) outs)))"

lemma window_new: "window_ok [] new_health"
  by (simp add: window_ok_def new_health_def)

lemma mod_window_neq: "(i :: nat) < n \<Longrightarrow> n < i + 50 \<Longrightarrow> i mod 50 \<noteq> n mod 50"
proof
  assume "i < n" "n < i + 50" "i mod 50 = n mod 50"
  then have "50 dvd n - i" using mod_eq_dvd_iff_nat [of i n 50] by simp
  then show False using \<open>i < n\<close> \<open>n < i + 50\<close> by (auto dest: dvd_imp_le)
qed

lemma window_write:
  assumes "window_ok outs h"
  shows "window_ok (outs @ [ok]) (success_write ok h)"
proof -
  let ?n = "length outs"
  have w: "length (SuccessRing h) = 50" "SuccessWrites h = ?n" "SuccessCursor h = ?n mod 50"
    "\<And>i. i < ?n \<Longrightarrow> ?n \<le> i + 50 \<Longrightarrow> SuccessRing h ! (i mod 50) = outs ! i"
    "SuccessOK h = int (length (filter id (drop (?n - 50) outs)))"
    using assms by (auto simp: window_ok_def)
  have ring: "(SuccessRing h)[?n mod 50 := ok] ! (i mod 50) = (outs @ [ok]) ! i"
    if "i < Suc ?n" "Suc ?n \<le> i + 50" for i
  proof (cases "i = ?n")
    case True
    then show ?thesis using w(1) by simp
  next
    case False
    then show ?thesis using that w(1) w(4) [of i] mod_window_neq [of i ?n] by (simp add: nth_append)
  qed
  have old: "SuccessRing h ! (?n mod 50) = outs ! (?n - 50)" if "?n \<ge> 50"
  proof -
    have "(?n - 50) mod 50 = ?n mod 50" using that by (metis le_mod_geq)
    then show ?thesis using w(4) [of "?n - 50"] that by simp
  qed
  have count: "SuccessOK h - (if ?n \<ge> 50 \<and> SuccessRing h ! (?n mod 50) then 1 else 0) + (if ok then 1 else 0)
      = int (length (filter id (drop (length (outs @ [ok]) - 50) (outs @ [ok]))))"
  proof (cases "?n \<ge> 50")
    case True
    have "drop (?n - 50) outs = outs ! (?n - 50) # drop (Suc ?n - 50) outs"
      unfolding Suc_diff_le [OF True] using True by (intro Cons_nth_drop_Suc [symmetric]) linarith
    then show ?thesis using w(5) old [OF True] True by simp
  next
    case False
    then show ?thesis using w(5) by simp
  qed
  show ?thesis
    unfolding window_ok_def success_write_def
    using w(1,2,3) ring count by (simp add: mod_Suc_eq)
qed

lemma window_bounds: "window_ok outs h \<Longrightarrow> 0 \<le> SuccessOK h \<and> SuccessOK h \<le> int (min (SuccessWrites h) 50)"
  using length_filter_le [of id "drop (length outs - 50) outs"] by (auto simp: window_ok_def)

section \<open>Lemmas: exclusion\<close>

lemma cooldown_closed_form:
  assumes "0 < period"
  shows "cooldown_loop n period mx = (if n = 0 then period else min (period * 2 ^ n) mx)"
  using assms
proof (induction n arbitrary: period)
  case (Suc n)
  have le: "period * 2 \<le> period * 2 * 2 ^ n" using Suc.prems by simp
  show ?case
  proof (cases "period * 2 > mx")
    case True
    then show ?thesis using le by (simp add: Let_def min_def)
  next
    case False
    then show ?thesis using Suc.IH [of "period * 2"] Suc.prems by (simp add: Let_def mult.assoc)
  qed
qed simp

definition sits_out :: "CarrierID \<Rightarrow> int \<Rightarrow> Policy \<Rightarrow> bool" where
  "sits_out cid u p \<longleftrightarrow> (\<exists>h. health p cid = Some h \<and> ch_State h = stateExcluded \<and> CooldownUntil h = Some u)"

lemma sits_out_upd:
  "sits_out cid u p \<Longrightarrow> (\<And>h. ch_State (f h) = ch_State h \<and> CooldownUntil (f h) = CooldownUntil h) \<Longrightarrow>
     sits_out cid u (upd_health c f p)"
  by (auto simp: sits_out_def upd_health_def split: option.splits)

lemma roll_keeps [simp]:
  "ch_State (rollProbeDay mid t h) = ch_State h" "CooldownUntil (rollProbeDay mid t h) = CooldownUntil h"
  by (simp_all add: rollProbeDay_def split: option.splits)

lemma writes_keep [simp]:
  "ch_State (passive_sample pw n t h) = ch_State h" "CooldownUntil (passive_sample pw n t h) = CooldownUntil h"
  "ch_State (outcome_write cfg ok x h) = ch_State h" "CooldownUntil (outcome_write cfg ok x h) = CooldownUntil h"
  "ch_State (probe_write mid pw cfg ok g n t full h) = ch_State h"
  "CooldownUntil (probe_write mid pw cfg ok g n t full h) = CooldownUntil h"
  by (simp_all add: passive_sample_def outcome_write_def success_write_def probe_write_def Let_def
      split: carrierState.splits)

lemma evaluate_one_excluded:
  assumes "ch_State h = stateExcluded" and "CooldownUntil h = Some u" and "now < u"
  shows "ch_State (evaluate_one cfg now h) = stateExcluded" "CooldownUntil (evaluate_one cfg now h) = Some u"
  using assms by (simp_all add: evaluate_one_def advanceLifecycle_def Let_def)

lemma evaluate_all_health:
  "health (evaluate_all now ids p) c =
     (if c \<in> set ids then health (evaluate_all now ids p) c else health p c)"
  by (induction ids arbitrary: p) auto

lemma evaluate_all_sits_out: "sits_out c u p \<Longrightarrow> now < u \<Longrightarrow> sits_out c u (evaluate_all now ids p)"
proof (induction ids arbitrary: p)
  case (Cons i ids)
  have "sits_out c u (p\<lparr>health := (health p)(i \<mapsto> evaluate_one (p_cfg p) now (health_of p i))\<rparr>)"
    using Cons.prems evaluate_one_excluded [of "health_of p i" u now "p_cfg p"]
    by (auto simp: sits_out_def health_of_def)
  then show ?case using Cons by simp
qed simp

lemma hysteresis_health [simp]: "health (hysteresis now e p) = health p"
  by (simp add: hysteresis_def switch_to_def Let_def)

lemma Evaluate_health: "health (Evaluate now p) = health (evaluate_all now (p_ids p) p)"
  by (simp add: Evaluate_def Let_def)

lemma smoothWRR_health: "smoothWRR cs p = (c, p') \<Longrightarrow> health p' = health p"
  by (auto simp: smoothWRR_def Let_def split: if_splits)

lemma Pick_health: "PickForNewStream now p = (c, p') \<Longrightarrow> health p' = health p"
  by (auto simp: PickForNewStream_def Let_def dest: smoothWRR_health split: if_splits list.splits)

lemma CanProbe_health:
  "CanProbe mid c n t p = Inr (ok, p') \<Longrightarrow>
     health p' = health p \<or> (\<exists>h. health p c = Some h \<and> health p' = (health p)(c \<mapsto> rollProbeDay mid t h))"
  by (auto simp: CanProbe_def Lock_def Unlock_def Let_def split: option.splits if_splits)

lemma CanProbe_stuck: "CanProbe mid c n t p = Inl b \<Longrightarrow> b = p"
  by (auto simp: CanProbe_def Lock_def Let_def split: option.splits if_splits)

lemma sits_out_step:
  assumes "sits_out cid u p" and "policy_do mid pw op p = (cs, p')" and "\<And>t. op = PEvaluate t \<Longrightarrow> t < u"
  shows "sits_out cid u p'"
proof (cases op)
  case (PProbe c ok g n t full)
  show ?thesis
  proof (cases "CanProbe mid c n t p")
    case (Inl b)
    then show ?thesis using assms PProbe CanProbe_stuck [OF Inl] by simp
  next
    case (Inr x)
    obtain may q where x: "x = (may, q)" by (cases x)
    have "sits_out cid u q"
      using CanProbe_health [of mid c n t p may q] Inr x assms(1) by (auto simp: sits_out_def)
    then show ?thesis using assms(2) PProbe Inr x
      by (auto simp: RecordProbe_def intro: sits_out_upd split: if_splits)
  qed
next
  case (PEvaluate t)
  then show ?thesis
    using assms evaluate_all_sits_out [OF assms(1), of t "p_ids p"] by (auto simp: sits_out_def Evaluate_health)
next
  case (PPick t)
  then show ?thesis using assms Pick_health [of t p] by (auto simp: sits_out_def split: prod.splits)
qed (use assms in \<open>auto simp: RecordPassiveBytes_def RecordPending_def RecordStall_def RecordStreamOutcome_def
      RecordReset_def RecordFlap_def RecordAuthFail_def RecordRebind_def RecordConnectRTT_def
      intro!: sits_out_upd\<close>)

lemma primaryOf_mem: "primaryOf p cs = c \<Longrightarrow> c = '''' \<or> c \<in> set cs"
  by (auto simp: primaryOf_def split: list.splits dest: filter_ConsD)

lemma smoothWRR_mem:
  assumes "smoothWRR cs p = (c, p')"
  shows "c = '''' \<or> c \<in> set cs"
proof (cases "(\<Sum>x\<leftarrow>cs. wrr_weight (LastScore (health_of p x))) = 0")
  case True
  then have "primaryOf p cs = c" using assms by (auto simp: smoothWRR_def)
  then show ?thesis by (rule primaryOf_mem)
next
  case False
  then have "cs \<noteq> []" by auto
  define vs where "vs = map2 (\<lambda>c w. wrr p c + w) cs (map (\<lambda>x. wrr_weight (LastScore (health_of p x))) cs)"
  have "max_index 0 vs (- 1) 0 < length cs"
    using max_index_cases [of 0 vs "- 1" 0] \<open>cs \<noteq> []\<close> by (auto simp: vs_def)
  moreover have "c = cs ! max_index 0 vs (- 1) 0"
    using assms False by (simp add: smoothWRR_def Let_def vs_def)
  ultimately show ?thesis by simp
qed

lemma Pick_active:
  assumes "PickForNewStream now p = (c, p')"
  shows "c = '''' \<or> (c \<in> set (p_ids p) \<and> ch_State (health_of p c) = stateActive)"
proof (cases "pc_Mode (p_cfg p) = PolicyAdaptive")
  case True
  show ?thesis
  proof (cases "eligibleActiveLocked now p = []")
    case False
    then have "c = '''' \<or> c \<in> set (top_of now p)"
      using assms Pick_adaptive [OF True False] smoothWRR_mem by simp
    then show ?thesis
      using set_take_subset [of _ "rank_all p (eligibleActiveLocked now p)"]
      by (auto simp: top_of_def Let_def eligibleActiveLocked_def dest!: in_set_takeD)
  qed (use assms True in \<open>simp add: PickForNewStream_def\<close>)
next
  case False
  then show ?thesis
    using assms by (auto simp: PickForNewStream_def eligibleActiveLocked_def activeLocked_def
        split: list.splits dest: filter_ConsD)
qed

lemma sits_out_run:
  assumes "sits_out cid u p" and "policy_run mid pw ops p = (cs, p')" and "\<And>t. PEvaluate t \<in> set ops \<Longrightarrow> t < u"
    and "cid \<noteq> ''''"
  shows "cid \<notin> set cs \<and> sits_out cid u p'"
  using assms
proof (induction ops arbitrary: p cs)
  case (Cons op ops)
  obtain cs1 p1 where 1: "policy_do mid pw op p = (cs1, p1)" by fastforce
  obtain ds where 2: "policy_run mid pw ops p1 = (ds, p')" "cs = cs1 @ ds"
    using Cons.prems(2) 1 by (auto split: prod.splits)
  have s: "sits_out cid u p1" using sits_out_step [OF Cons.prems(1) 1] Cons.prems(3) by auto
  have "cid \<notin> set cs1"
  proof (cases op)
    case (PPick t)
    then show ?thesis
      using 1 Cons.prems(1,4) Pick_active [of t p]
      by (auto simp: sits_out_def health_of_def split: prod.splits)
  qed (use 1 in \<open>auto split: sum.splits\<close>)
  then show ?case using Cons.IH [OF s 2(1)] Cons.prems(3,4) 2(2) by auto
qed simp

section \<open>Lemmas: the probe budget\<close>

definition within_budget :: "Policy \<Rightarrow> bool" where
  "within_budget p \<longleftrightarrow> (\<forall>c. 0 \<le> ProbeBytesToday (health_of p c) \<and>
     ProbeBytesToday (health_of p c) \<le> ProbeDailyBudgetBytes (p_cfg p))"

lemma health_of_set [simp]:
  "health_of (p\<lparr>health := (health p)(i \<mapsto> h)\<rparr>) c = (if c = i then h else health_of p c)"
  by (simp add: health_of_def)

lemma health_of_upd:
  "health_of (upd_health i f p) c = (if c = i \<and> health p i \<noteq> None then f (health_of p i) else health_of p c)"
  by (auto simp: health_of_def upd_health_def split: option.splits)

lemma upd_health_sel [simp]: "p_cfg (upd_health i f p) = p_cfg p" "p_mu (upd_health i f p) = p_mu p"
  by (simp_all add: upd_health_def split: option.splits)

lemma budget_upd:
  "within_budget p \<Longrightarrow> (\<And>h. ProbeBytesToday (f h) = ProbeBytesToday h) \<Longrightarrow>
     within_budget (upd_health c f p)"
  by (simp add: within_budget_def health_of_upd)

lemma bytes_keep [simp]:
  "ProbeBytesToday (passive_sample pw n t h) = ProbeBytesToday h"
  "ProbeBytesToday (outcome_write cfg ok x h) = ProbeBytesToday h"
  "ProbeBytesToday (excludeLocked cfg t r h) = ProbeBytesToday h"
  by (simp_all add: passive_sample_def outcome_write_def success_write_def excludeLocked_def Let_def
      split: carrierState.splits)

lemma bytes_advance [simp]: "ProbeBytesToday (advanceLifecycle cfg scp now h) = ProbeBytesToday h"
  by (cases "ch_State h") (simp_all add: advanceLifecycle_def split: option.splits)

lemma budget_evaluate: "within_budget p \<Longrightarrow> within_budget (evaluate_all now ids p)"
proof (induction ids arbitrary: p)
  case (Cons i ids)
  have "within_budget (p\<lparr>health := (health p)(i \<mapsto> evaluate_one (p_cfg p) now (health_of p i))\<rparr>)"
    using Cons.prems by (simp add: within_budget_def evaluate_one_def Let_def)
  then show ?case using Cons by simp
qed simp

lemma evaluate_all_sel [simp]:
  "p_cfg (evaluate_all now ids p) = p_cfg p" "p_mu (evaluate_all now ids p) = p_mu p"
  "p_ids (evaluate_all now ids p) = p_ids p" "incumbent (evaluate_all now ids p) = incumbent p"
  "challenger (evaluate_all now ids p) = challenger p"
  "challengerTicks (evaluate_all now ids p) = challengerTicks p"
  "lastSwitchAt (evaluate_all now ids p) = lastSwitchAt p"
  by (induction ids arbitrary: p) simp_all

lemma budget_same: "within_budget p \<Longrightarrow> health q = health p \<Longrightarrow> p_cfg q = p_cfg p \<Longrightarrow> within_budget q"
  by (simp add: within_budget_def health_of_def)

lemma hysteresis_cfg [simp]: "p_cfg (hysteresis now e p) = p_cfg p"
  by (simp add: hysteresis_def switch_to_def Let_def)

lemma smoothWRR_cfg: "smoothWRR cs p = (c, p') \<Longrightarrow> p_cfg p' = p_cfg p"
  by (auto simp: smoothWRR_def Let_def split: if_splits)

lemma Pick_cfg: "PickForNewStream now p = (c, p') \<Longrightarrow> p_cfg p' = p_cfg p"
  by (auto simp: PickForNewStream_def Let_def dest: smoothWRR_cfg split: if_splits list.splits)

lemma roll_bytes: "0 \<le> ProbeBytesToday h \<Longrightarrow> ProbeBytesToday h \<le> b \<Longrightarrow>
    0 \<le> ProbeBytesToday (rollProbeDay mid t h) \<and> ProbeBytesToday (rollProbeDay mid t h) \<le> b"
  by (auto simp: rollProbeDay_def split: option.splits)

lemma roll_twice [simp]: "rollProbeDay mid t (rollProbeDay mid t h) = rollProbeDay mid t h"
  by (auto simp: rollProbeDay_def split: option.splits)

lemma probe_write_bytes:
  "ProbeBytesToday (probe_write mid pw cfg ok g n t full h) =
     (if n > 0 \<and> ProbingEnabled cfg then ProbeBytesToday (rollProbeDay mid t h) + n else ProbeBytesToday h)"
  by (simp add: probe_write_def Let_def)

lemma CanProbe_budget:
  assumes "within_budget p" and "0 < ProbeDailyBudgetBytes (p_cfg p)" and "CanProbe mid c n t p = Inr (may, q)"
  shows "within_budget q \<and> p_cfg q = p_cfg p \<and>
    (may \<longrightarrow> rollProbeDay mid t (health_of q c) = health_of q c \<and>
       ProbeBytesToday (health_of q c) + n \<le> ProbeDailyBudgetBytes (p_cfg p))"
proof (cases "health p c = None \<or> \<not> ProbingEnabled (p_cfg p) \<or> p_mu p")
  case True
  then have "\<not> may \<and> q = p\<lparr>p_mu := False\<rparr>"
    using assms(3) by (cases "p_mu p"; cases "health p c") (auto simp: CanProbe_def Lock_def Unlock_def)
  then show ?thesis using budget_same [OF assms(1), of q] by simp
next
  case False
  then obtain h where h: "health p c = Some h" "ProbingEnabled (p_cfg p)" "\<not> p_mu p" by auto
  let ?h = "rollProbeDay mid t h"
  have q: "q = p\<lparr>p_mu := False, health := (health p)(c \<mapsto> ?h)\<rparr>"
    "may = (\<not> ProbeBytesToday ?h + n > ProbeDailyBudgetBytes (p_cfg p))"
    using assms(2,3) h by (auto simp: CanProbe_def Lock_def Unlock_def Let_def)
  have hq: "health_of q x = (if x = c then ?h else health_of p x)" for x
    by (simp add: q(1) health_of_def)
  have "0 \<le> ProbeBytesToday ?h \<and> ProbeBytesToday ?h \<le> ProbeDailyBudgetBytes (p_cfg p)"
    using assms(1) h(1) by (intro roll_bytes) (auto simp: within_budget_def health_of_def split: option.splits)
  then show ?thesis using assms(1) q hq by (simp add: within_budget_def)
qed

lemma budget_step:
  assumes "within_budget p" and "0 < ProbeDailyBudgetBytes (p_cfg p)" and "policy_do mid pw op p = (cs, p')"
  shows "within_budget p' \<and> p_cfg p' = p_cfg p"
proof (cases op)
  case (PProbe c ok g n t full)
  show ?thesis
  proof (cases "CanProbe mid c n t p")
    case (Inl b)
    then show ?thesis using assms PProbe CanProbe_stuck [OF Inl] by simp
  next
    case (Inr x)
    obtain may q where x: "x = (may, q)" by (cases x)
    have q: "within_budget q" "p_cfg q = p_cfg p"
      "may \<Longrightarrow> rollProbeDay mid t (health_of q c) = health_of q c \<and>
         ProbeBytesToday (health_of q c) + n \<le> ProbeDailyBudgetBytes (p_cfg p)"
      using CanProbe_budget [OF assms(1,2)] Inr x by auto
    have "within_budget (RecordProbe mid pw c ok g n t full q)" if "may"
      using q(1,2) q(3) [OF that]
      by (fastforce simp: within_budget_def RecordProbe_def health_of_upd probe_write_bytes)
    then show ?thesis using assms(3) PProbe Inr x q by (auto simp: RecordProbe_def split: if_splits)
  qed
next
  case (PEvaluate t)
  then show ?thesis
    using assms budget_evaluate [OF assms(1), of t "p_ids p"]
    by (auto simp: Evaluate_def Let_def intro: budget_same)
next
  case (PPick t)
  then show ?thesis
    using assms Pick_health [of t p] Pick_cfg [of t p] by (auto intro: budget_same split: prod.splits)
qed (use assms in \<open>auto simp: RecordPassiveBytes_def RecordPending_def RecordStall_def RecordStreamOutcome_def
      RecordReset_def RecordFlap_def RecordAuthFail_def RecordRebind_def RecordConnectRTT_def
      intro!: budget_upd\<close>)

lemma budget_run:
  assumes "within_budget p" and "0 < ProbeDailyBudgetBytes (p_cfg p)" and "policy_run mid pw ops p = (cs, p')"
  shows "within_budget p' \<and> p_cfg p' = p_cfg p"
  using assms
proof (induction ops arbitrary: p cs)
  case (Cons op ops)
  obtain cs1 p1 where 1: "policy_do mid pw op p = (cs1, p1)" by fastforce
  obtain ds where 2: "policy_run mid pw ops p1 = (ds, p')" using Cons.prems(3) 1 by (auto split: prod.splits)
  show ?case using budget_step [OF Cons.prems(1,2) 1] Cons.IH [OF _ _ 2] Cons.prems(2) by simp
qed simp

section \<open>Lemmas: hysteresis\<close>

text \<open>The evidence one tick sees: the incumbent and a carrier that beats it by the margin.\<close>

definition verdict :: "int \<Rightarrow> Policy \<Rightarrow> (CarrierID \<times> CarrierID) option" where
  "verdict now p =
     (let q = evaluate_all now (p_ids p) p; e = eligibleActiveLocked now q; best = bestEligibleLocked q e
      in if incumbent p \<noteq> '''' \<and> incumbent p \<in> set e \<and> best \<noteq> incumbent p \<and>
            LastScore (health_of q best) \<ge> LastScore (health_of q (incumbent p)) + HysteresisMargin (p_cfg p)
         then Some (incumbent p, best) else None)"

fun verdicts :: "(int \<Rightarrow> int) \<Rightarrow> (rat \<Rightarrow> rat) \<Rightarrow> policy_op list \<Rightarrow> Policy \<Rightarrow> (CarrierID \<times> CarrierID) option list" where
  "verdicts mid pw [] p = []"
| "verdicts mid pw (op # ops) p =
     (case op of PEvaluate t \<Rightarrow> [verdict t p] | _ \<Rightarrow> []) @ verdicts mid pw ops (snd (policy_do mid pw op p))"

text \<open>The challenger's count is a suffix of the verdicts that name it.\<close>

definition ticks_ok :: "(CarrierID \<times> CarrierID) option list \<Rightarrow> Policy \<Rightarrow> bool" where
  "ticks_ok vs p \<longleftrightarrow> 0 \<le> challengerTicks p \<and> nat (challengerTicks p) \<le> length vs \<and>
     (\<forall>v \<in> set (drop (length vs - nat (challengerTicks p)) vs). v = Some (incumbent p, challenger p))"

lemma ticks_ok_zero: "challengerTicks p = 0 \<Longrightarrow> ticks_ok vs p"
  by (simp add: ticks_ok_def)

lemma ticks_ok_same:
  "ticks_ok vs p \<Longrightarrow> challengerTicks q = challengerTicks p \<Longrightarrow> challenger q = challenger p \<Longrightarrow>
     incumbent q = incumbent p \<Longrightarrow> ticks_ok vs q"
  by (simp add: ticks_ok_def)

text \<open>One tick in adaptive mode.\<close>

lemma eligible_lastEval [simp]: "eligibleActiveLocked now (p\<lparr>lastEval := x\<rparr>) = eligibleActiveLocked now p"
  by (simp add: eligibleActiveLocked_def health_of_def)

lemma best_lastEval [simp]: "bestEligibleLocked (p\<lparr>lastEval := x\<rparr>) e = bestEligibleLocked p e"
  by (simp add: bestEligibleLocked_def health_of_def)

lemma health_of_lastEval [simp]: "health_of (p\<lparr>lastEval := x\<rparr>) = health_of p"
  by (simp add: health_of_def fun_eq_iff)

definition dwelled :: "int \<Rightarrow> Policy \<Rightarrow> bool" where
  "dwelled now p \<longleftrightarrow> (case lastSwitchAt p of None \<Rightarrow> True | Some t \<Rightarrow> now \<ge> t + MinDwell (p_cfg p))"

definition leads :: "CarrierID list \<Rightarrow> Policy \<Rightarrow> bool" where
  "leads e q \<longleftrightarrow> incumbent q \<noteq> '''' \<and> incumbent q \<in> set e \<and> bestEligibleLocked q e \<noteq> incumbent q \<and>
     LastScore (health_of q (bestEligibleLocked q e)) \<ge> LastScore (health_of q (incumbent q)) + HysteresisMargin (p_cfg q)"

lemma hysteresis_no_lead:
  assumes "\<not> leads e q" and "0 < HysteresisTicks (p_cfg q)"
  shows "challengerTicks (hysteresis now e q) = 0 \<and>
    (incumbent (hysteresis now e q) = incumbent q \<or> incumbent q = '''' \<or> incumbent q \<notin> set e)"
  using assms unfolding hysteresis_def switch_to_def leads_def Let_def by auto

lemma hysteresis_lead:
  assumes "leads e q" and "k = (if challenger q = bestEligibleLocked q e then challengerTicks q + 1 else 1)"
  shows "if k \<ge> HysteresisTicks (p_cfg q) \<and> dwelled now q
    then incumbent (hysteresis now e q) = bestEligibleLocked q e \<and> challengerTicks (hysteresis now e q) = 0
    else incumbent (hysteresis now e q) = incumbent q \<and> challenger (hysteresis now e q) = bestEligibleLocked q e \<and>
         challengerTicks (hysteresis now e q) = k"
proof -
  have "e \<noteq> []" using assms(1) by (auto simp: leads_def)
  then show ?thesis
    using assms unfolding hysteresis_def switch_to_def leads_def dwelled_def Let_def
    by (cases "challenger q = bestEligibleLocked q e") (auto split: option.splits)
qed

lemma verdict_leads:
  "verdict now p =
     (let q = evaluate_all now (p_ids p) p; e = eligibleActiveLocked now q
      in if leads e q then Some (incumbent p, bestEligibleLocked q e) else None)"
  by (simp add: verdict_def leads_def Let_def)

lemma Evaluate_tick:
  assumes "pc_Mode (p_cfg p) = PolicyAdaptive" and "0 < HysteresisTicks (p_cfg p)"
  shows "verdict now p = None \<Longrightarrow> challengerTicks (Evaluate now p) = 0 \<and>
      (incumbent (Evaluate now p) = incumbent p \<or> incumbent p = '''' \<or>
       incumbent p \<notin> set (eligibleActiveLocked now (evaluate_all now (p_ids p) p)))"
    and "verdict now p = Some (a, b) \<Longrightarrow> k = (if challenger p = b then challengerTicks p + 1 else 1) \<Longrightarrow>
      a = incumbent p \<and>
      (if k \<ge> HysteresisTicks (p_cfg p) \<and> dwelled now p
       then incumbent (Evaluate now p) = b \<and> challengerTicks (Evaluate now p) = 0
       else incumbent (Evaluate now p) = incumbent p \<and> challenger (Evaluate now p) = b \<and>
            challengerTicks (Evaluate now p) = k)"
proof -
  define q where "q = evaluate_all now (p_ids p) p"
  define e where "e = eligibleActiveLocked now q"
  have ev: "Evaluate now p = hysteresis now e (q\<lparr>lastEval := Some now\<rparr>)"
    using assms(1) by (simp add: Evaluate_def Let_def q_def e_def)
  have l: "leads e (q\<lparr>lastEval := x\<rparr>) = leads e q" for x by (simp add: leads_def)
  have v: "verdict now p = (if leads e q then Some (incumbent p, bestEligibleLocked q e) else None)"
    by (simp add: verdict_leads Let_def q_def e_def)
  have sel: "p_cfg q = p_cfg p" "incumbent q = incumbent p" "challenger q = challenger p"
    "challengerTicks q = challengerTicks p" "lastSwitchAt q = lastSwitchAt p"
    by (simp_all add: q_def)
  have d: "dwelled now (q\<lparr>lastEval := Some now\<rparr>) = dwelled now p"
    by (simp add: dwelled_def sel split: option.splits)
  show "verdict now p = None \<Longrightarrow> challengerTicks (Evaluate now p) = 0 \<and>
      (incumbent (Evaluate now p) = incumbent p \<or> incumbent p = '''' \<or>
       incumbent p \<notin> set (eligibleActiveLocked now (evaluate_all now (p_ids p) p)))"
    using hysteresis_no_lead [of e "q\<lparr>lastEval := Some now\<rparr>" now] assms(2)
    by (simp add: ev v l sel e_def [symmetric] q_def [symmetric] split: if_splits)
  show "verdict now p = Some (a, b) \<Longrightarrow> k = (if challenger p = b then challengerTicks p + 1 else 1) \<Longrightarrow>
      a = incumbent p \<and>
      (if k \<ge> HysteresisTicks (p_cfg p) \<and> dwelled now p
       then incumbent (Evaluate now p) = b \<and> challengerTicks (Evaluate now p) = 0
       else incumbent (Evaluate now p) = incumbent p \<and> challenger (Evaluate now p) = b \<and>
            challengerTicks (Evaluate now p) = k)"
    using hysteresis_lead [of e "q\<lparr>lastEval := Some now\<rparr>" k now]
    by (simp add: ev v l sel d split: if_splits)
qed

lemma step_keeps_hysteresis:
  assumes "policy_do mid pw op p = (cs, p')" and "\<And>t. op \<noteq> PEvaluate t"
  shows "challengerTicks p' = challengerTicks p \<and> challenger p' = challenger p \<and> incumbent p' = incumbent p \<and>
    lastSwitchAt p' = lastSwitchAt p \<and> p_cfg p' = p_cfg p"
proof -
  have u: "challengerTicks (upd_health c f q) = challengerTicks q" "challenger (upd_health c f q) = challenger q"
    "incumbent (upd_health c f q) = incumbent q" "lastSwitchAt (upd_health c f q) = lastSwitchAt q" for c f q
    by (simp_all add: upd_health_def split: option.splits)
  show ?thesis
  proof (cases op)
    case (PProbe c ok g n t full)
    then show ?thesis using assms(1)
      by (auto simp: CanProbe_def Lock_def Unlock_def RecordProbe_def u Let_def split: option.splits if_splits)
  next
    case (PPick t)
    have "smoothWRR xs q = (y, q') \<Longrightarrow> \<exists>w. q' = q\<lparr>wrr := w\<rparr>" for xs q y q'
      by (auto simp: smoothWRR_def Let_def split: if_splits intro: exI [of _ "wrr q"])
    then show ?thesis using assms(1) PPick
      by (auto simp: PickForNewStream_def Let_def split: if_splits list.splits prod.splits) fastforce+
  next
    case (PEvaluate t)
    then show ?thesis using assms(2) by simp
  qed (use assms(1) in \<open>auto simp: RecordPassiveBytes_def RecordPending_def RecordStall_def RecordStreamOutcome_def
      RecordReset_def RecordFlap_def RecordAuthFail_def RecordRebind_def RecordConnectRTT_def u\<close>)
qed

lemma ticks_step:
  assumes "ticks_ok vs p" and "pc_Mode (p_cfg p) = PolicyAdaptive" and "0 < HysteresisTicks (p_cfg p)"
  shows "ticks_ok (vs @ [verdict now p]) (Evaluate now p)"
proof (cases "verdict now p")
  case None
  then show ?thesis using Evaluate_tick(1) [OF assms(2,3) None] by (simp add: ticks_ok_zero)
next
  case (Some ab)
  obtain a b where ab: "ab = (a, b)" by (cases ab)
  define k where "k = (if challenger p = b then challengerTicks p + 1 else 1)"
  note t = Evaluate_tick(2) [OF assms(2,3) Some [unfolded ab] k_def]
  show ?thesis
  proof (cases "k \<ge> HysteresisTicks (p_cfg p) \<and> dwelled now p")
    case True
    then show ?thesis using t by (simp add: ticks_ok_zero)
  next
    case False
    then have e: "incumbent (Evaluate now p) = a" "challenger (Evaluate now p) = b"
      "challengerTicks (Evaluate now p) = k" "a = incumbent p" using t by (simp_all only: if_False)
    let ?vs = "vs @ [Some (a, b)]"
    have v: "\<forall>v \<in> set (drop (length ?vs - nat k) ?vs). v = Some (a, b)"
    proof (cases "challenger p = b")
      case True
      then have "nat k = Suc (nat (challengerTicks p))" using assms(1) by (simp add: k_def ticks_ok_def nat_add_distrib)
      then show ?thesis using assms(1) True e(4) by (auto simp: ticks_ok_def)
    next
      case False
      then show ?thesis by (simp add: k_def)
    qed
    have "0 \<le> k" "nat k \<le> length ?vs" using assms(1) by (auto simp: k_def ticks_ok_def)
    then show ?thesis using v e Some ab by (simp add: ticks_ok_def)
  qed
qed

lemma policy_cfg_step: "policy_do mid pw op p = (cs, p') \<Longrightarrow> p_cfg p' = p_cfg p"
  by (cases "\<exists>t. op = PEvaluate t") (auto simp: Evaluate_def Let_def dest: step_keeps_hysteresis)

lemma ticks_run:
  assumes "ticks_ok vs p" and "pc_Mode (p_cfg p) = PolicyAdaptive" and "0 < HysteresisTicks (p_cfg p)"
    and "policy_run mid pw ops p = (cs, p')"
  shows "ticks_ok (vs @ verdicts mid pw ops p) p' \<and> p_cfg p' = p_cfg p"
  using assms
proof (induction ops arbitrary: vs p cs)
  case (Cons op ops)
  obtain cs1 p1 where 1: "policy_do mid pw op p = (cs1, p1)" by fastforce
  obtain ds where 2: "policy_run mid pw ops p1 = (ds, p')" using Cons.prems(4) 1 by (auto split: prod.splits)
  let ?w = "case op of PEvaluate t \<Rightarrow> [verdict t p] | _ \<Rightarrow> []"
  have w: "ticks_ok (vs @ ?w) p1"
  proof (cases "\<exists>t. op = PEvaluate t")
    case True
    then show ?thesis using ticks_step [OF Cons.prems(1-3)] 1 by auto
  next
    case False
    then have "?w = []" by (cases op) auto
    then show ?thesis
      using step_keeps_hysteresis [OF 1] False ticks_ok_same [OF Cons.prems(1), of p1] by auto
  qed
  show ?case using Cons.IH [OF w _ _ 2] policy_cfg_step [OF 1] Cons.prems(2,3) 1 by simp
qed simp

lemma sanitize_positive:
  "0 < HysteresisTicks (sanitizePolicyConfig c)" "0 < InitialCooldown (sanitizePolicyConfig c)"
  "0 < SLAFloorMiBps (sanitizePolicyConfig c)" "0 < ResetLimit (sanitizePolicyConfig c)"
  "0 \<le> ProbeDailyBudgetBytes (sanitizePolicyConfig c)" "0 < TopK (sanitizePolicyConfig c)"
  by (simp_all add: sanitizePolicyConfig_def pos_def PolicyConfigDefaults_def Let_def)

lemma NewPolicy_fields:
  assumes "NewPolicy cfg ids = Inr p"
  shows "p_cfg p = sanitizePolicyConfig cfg" "p_ids p = ids" "\<not> p_mu p" "challengerTicks p = 0"
    "wrr p = (\<lambda>_. 0)" "incumbent p = ''''" "health p c = (if c \<in> set ids then Some new_health else None)"
  using assms by (auto simp: NewPolicy_def Let_def split: if_splits)

section \<open>Properties\<close>

text \<open>The primary moves only on evidence: in adaptive mode, whatever is measured in between, a
  tick replaces an incumbent that is still eligible only if on each of the last
  \<open>HysteresisTicks\<close> ticks this same challenger led this same incumbent by the margin, and the
  incumbent has held its place for \<open>MinDwell\<close>.\<close>

lemma switch_needs_evidence:
  assumes "NewPolicy cfg ids = Inr p0" and "pc_Mode cfg = PolicyAdaptive"
    and "policy_run mid pw ops p0 = (cs, p)"
    and "incumbent p \<noteq> ''''" and "incumbent (Evaluate now p) \<noteq> incumbent p"
    and "incumbent p \<in> set (eligibleActiveLocked now (evaluate_all now (p_ids p) p))"
  shows "\<exists>k. int k \<ge> HysteresisTicks (p_cfg p) \<and> k \<le> length (verdicts mid pw ops p0) + 1 \<and>
    (\<forall>v \<in> set (drop (length (verdicts mid pw ops p0) + 1 - k) (verdicts mid pw ops p0 @ [verdict now p])).
       v = Some (incumbent p, incumbent (Evaluate now p))) \<and>
    (\<forall>t. lastSwitchAt p = Some t \<longrightarrow> now \<ge> t + MinDwell (p_cfg p))"
proof -
  let ?vs = "verdicts mid pw ops p0"
  have m: "pc_Mode (p_cfg p0) = PolicyAdaptive" "0 < HysteresisTicks (p_cfg p0)"
    using NewPolicy_fields(1) [OF assms(1)] assms(2) sanitize_positive(1)
    by (simp_all add: sanitizePolicyConfig_def Let_def)
  have t: "ticks_ok ?vs p" "p_cfg p = p_cfg p0"
    using ticks_run [of "[]", OF ticks_ok_zero m assms(3)] NewPolicy_fields(4) [OF assms(1)] by simp_all
  note m' = m [folded t(2)]
  obtain a b where v: "verdict now p = Some (a, b)"
    using Evaluate_tick(1) [OF m', of now] assms(4-6) by (cases "verdict now p") auto
  define k where "k = (if challenger p = b then challengerTicks p + 1 else 1)"
  note e = Evaluate_tick(2) [OF m' v k_def]
  have big: "k \<ge> HysteresisTicks (p_cfg p)" "dwelled now p" "incumbent (Evaluate now p) = b" "a = incumbent p"
    using e assms(5) by (auto split: if_splits)
  have "nat k \<le> length ?vs + 1 \<and> (\<forall>w \<in> set (drop (length ?vs + 1 - nat k) (?vs @ [verdict now p])). w = Some (a, b))"
  proof (cases "challenger p = b")
    case True
    then have "nat k = Suc (nat (challengerTicks p))" using t(1) by (simp add: k_def ticks_ok_def nat_add_distrib)
    then show ?thesis using t(1) True v big(4) by (auto simp: ticks_ok_def)
  next
    case False
    then show ?thesis using v by (simp add: k_def)
  qed
  then show ?thesis using big t(1) m'(2) by (intro exI [of _ "nat k"]) (auto simp: dwelled_def)
qed

definition demo_probing :: PolicyConfig where
  "demo_probing = PolicyConfigDefaults\<lparr>pc_Mode := PolicyAdaptive, ProbingEnabled := True, ProbeURL := ''u'',
     HysteresisTicks := 1, MinDwell := 1, AdmitPassesCand := 1\<rparr>"

definition demo_start :: Policy where
  "demo_start = (case NewPolicy demo_probing [''a'', ''b''] of Inr p \<Rightarrow> p | Inl _ \<Rightarrow> undefined)"

definition demo_ticks :: "policy_op list" where
  "demo_ticks = [PProbe ''a'' True (1 / 2) 1 1 True, PEvaluate 10, PProbe ''b'' True 1 1 3 True]"

lemma demo_ticks_run:
  "incumbent (snd (policy_run (\<lambda>t. 0) (\<lambda>x. 0) demo_ticks demo_start)) = ''a''"
  "incumbent (Evaluate (20) (snd (policy_run (\<lambda>t. 0) (\<lambda>x. 0) demo_ticks demo_start))) = ''b''"
  "''a'' \<in> set (eligibleActiveLocked (20) (evaluate_all (20)
     (p_ids (snd (policy_run (\<lambda>t. 0) (\<lambda>x. 0) demo_ticks demo_start)))
     (snd (policy_run (\<lambda>t. 0) (\<lambda>x. 0) demo_ticks demo_start))))"
  by code_simp+

lemma switch_needs_evidence_witness:
  "\<exists>k. int k \<ge> HysteresisTicks (p_cfg (snd (policy_run (\<lambda>t. 0) (\<lambda>x. 0) demo_ticks demo_start))) \<and>
     k \<le> length (verdicts (\<lambda>t. 0) (\<lambda>x. 0) demo_ticks demo_start) + 1"
proof -
  let ?p = "snd (policy_run (\<lambda>t. 0) (\<lambda>x. 0) demo_ticks demo_start)"
  have new: "NewPolicy demo_probing [''a'', ''b''] = Inr demo_start"
    by (simp add: demo_start_def NewPolicy_def sanitizePolicyConfig_def demo_probing_def PolicyConfigDefaults_def
        pos_def Let_def)
  obtain cs where run: "policy_run (\<lambda>t. 0) (\<lambda>x. 0) demo_ticks demo_start = (cs, ?p)" by (metis prod.collapse)
  have mode: "pc_Mode demo_probing = PolicyAdaptive" by (simp add: demo_probing_def)
  show ?thesis
    using switch_needs_evidence [OF new mode run, of "20"] demo_ticks_run by auto
qed

text \<open>Connect time has no say: deleting every connect-time report from any sequence of
  measurements, probes, ticks and selections leaves every selection unchanged.\<close>

lemma connect_time_irrelevant:
  "fst (policy_run mid pw (filter (\<lambda>op. \<not> is_rtt op) ops) p) = fst (policy_run mid pw ops p)"
  by (rule rtt_irrelevant) simp

text \<open>An excluded carrier sits out its cooldown: when a carrier is excluded at time \<open>t\<close>, the
  cooldown is the initial one for a first exclusion and otherwise doubles with every
  exclusion in a row up to the cap; until that time is over no sequence of measurements,
  probes and ticks brings the carrier back, and it is not selected for a new stream.\<close>

lemma excluded_carrier_sits_out:
  assumes "ch_State h \<noteq> stateExcluded" and "0 < InitialCooldown cfg" and "cid \<noteq> ''''"
    and "health p cid = Some (excludeLocked cfg t rsn h)"
    and "cd = (if ExclusionStreak h = 0 then InitialCooldown cfg
               else min (InitialCooldown cfg * 2 ^ ExclusionStreak h) (MaxCooldown cfg))"
    and "\<forall>now. PEvaluate now \<in> set ops \<longrightarrow> now < t + cd"
    and "policy_run mid pw ops p = (cs, p')"
  shows "cid \<notin> set cs \<and> ch_State (health_of p' cid) = stateExcluded \<and>
    CooldownRemaining cid now p' = max 0 (t + cd - now)"
proof -
  have "sits_out cid (t + cd) p"
    using assms(1,2,4,5) by (auto simp: sits_out_def excludeLocked_def Let_def cooldown_closed_form)
  then have "cid \<notin> set cs \<and> sits_out cid (t + cd) p'"
    using sits_out_run [OF _ assms(7)] assms(3,6) by blast
  then show ?thesis by (auto simp: sits_out_def health_of_def CooldownRemaining_def)
qed

definition demo_health :: CarrierHealth where
  "demo_health = new_health\<lparr>ch_State := stateActive, ActiveSince := Some 1\<rparr>"

definition demo_policy :: "string \<Rightarrow> Policy" where
  "demo_policy mode = \<lparr>p_mu = False, p_cfg = PolicyConfigDefaults\<lparr>pc_Mode := mode\<rparr>, p_ids = [''a'', ''b''],
     health = [''a'' \<mapsto> demo_health\<lparr>LastScore := 1 / 2\<rparr>, ''b'' \<mapsto> demo_health\<lparr>LastScore := 1 / 2\<rparr>],
     wrr = (\<lambda>_. 0), incumbent = '''', challenger = '''', challengerTicks = 0, lastSwitchAt = None,
     switchCount = 0, lastEval = None\<rparr>"

lemma excluded_carrier_sits_out_witness:
  "\<exists>cs p'. policy_run (\<lambda>t. t) (\<lambda>x. x) [PPick 1, PEvaluate (20 * Second), PPick 2]
      (upd_health ''a'' (excludeLocked PolicyConfigDefaults 0 ''H2 flap'') (demo_policy PolicyStatic)) = (cs, p') \<and>
     ''a'' \<notin> set cs \<and> CooldownRemaining ''a'' (20 * Second) p' = 10 * Second"
proof -
  let ?p = "upd_health ''a'' (excludeLocked PolicyConfigDefaults 0 ''H2 flap'') (demo_policy PolicyStatic)"
  obtain cs p' where run: "policy_run (\<lambda>t. t) (\<lambda>x. x) [PPick 1, PEvaluate (20 * Second), PPick 2] ?p = (cs, p')"
    by fastforce
  have h: "health ?p ''a'' = Some (excludeLocked PolicyConfigDefaults 0 ''H2 flap'' (demo_health\<lparr>LastScore := 1 / 2\<rparr>))"
    by (simp add: upd_health_def demo_policy_def)
  have "''a'' \<notin> set cs \<and> ch_State (health_of p' ''a'') = stateExcluded \<and>
    CooldownRemaining ''a'' (20 * Second) p' = max 0 (0 + 30 * Second - 20 * Second)"
    by (rule excluded_carrier_sits_out [OF _ _ _ h _ _ run])
      (simp_all add: demo_health_def new_health_def PolicyConfigDefaults_def)
  then show ?thesis using run by auto
qed

text \<open>The daily probe budget holds: with a positive budget, no sequence of probes that ask first,
  measurements, ticks and selections takes a carrier's probe bytes of the day above the
  budget, across day changes and clock steps in either direction.\<close>

lemma probe_budget_holds:
  assumes "NewPolicy cfg ids = Inr p0" and "0 < ProbeDailyBudgetBytes (p_cfg p0)"
    and "policy_run mid pw ops p0 = (cs, p)"
  shows "0 \<le> ProbeBytesUsedToday c p \<and> ProbeBytesUsedToday c p \<le> ProbeDailyBudgetBytes (p_cfg p0)"
proof -
  have "within_budget p0"
    using assms(2) NewPolicy_fields(7) [OF assms(1)]
    by (simp add: within_budget_def health_of_def new_health_def)
  then have "within_budget p \<and> p_cfg p = p_cfg p0" using budget_run assms(2,3) by blast
  then show ?thesis
    using assms(2) by (fastforce simp: within_budget_def health_of_def ProbeBytesUsedToday_def split: option.splits)
qed

lemma probe_budget_holds_witness:
  "\<exists>p0 cs p. NewPolicy (PolicyConfigDefaults\<lparr>ProbingEnabled := True, ProbeURL := ''u'', ProbeDailyBudgetBytes := 10\<rparr>) [''a'']
      = Inr p0 \<and>
     policy_run (\<lambda>t. t div 100) (\<lambda>x. x) [PProbe ''a'' True 1 7 1 True, PProbe ''a'' True 1 7 2 True] p0 = (cs, p) \<and>
     ProbeBytesUsedToday ''a'' p = 7 \<and> ProbeBytesUsedToday ''a'' p \<le> 10"
proof -
  let ?cfg = "PolicyConfigDefaults\<lparr>ProbingEnabled := True, ProbeURL := ''u'', ProbeDailyBudgetBytes := 10\<rparr>"
  obtain p0 where p0: "NewPolicy ?cfg [''a''] = Inr p0" "ProbeDailyBudgetBytes (p_cfg p0) = 10"
    "ProbingEnabled (p_cfg p0)" "\<not> p_mu p0" "health p0 ''a'' = Some new_health"
    by (simp add: NewPolicy_def sanitizePolicyConfig_def PolicyConfigDefaults_def pos_def Let_def)
  obtain cs p where run: "policy_run (\<lambda>t. t div 100) (\<lambda>x. x)
      [PProbe ''a'' True 1 7 1 True, PProbe ''a'' True 1 7 2 True] p0 = (cs, p)" by fastforce
  have "ProbeBytesUsedToday ''a'' p = 7"
    using run p0 by (auto simp: CanProbe_def Lock_def Unlock_def rollProbeDay_def RecordProbe_def upd_health_def
        probe_write_def ProbeBytesUsedToday_def new_health_def)
  then show ?thesis using probe_budget_holds [OF p0(1) _ run, of "''a''"] p0 run by auto
qed

text \<open>The success window is exact: after any outcomes the counter of a carrier is the number of
  successes among its last 50 outcomes, so the smoothed ratio lies strictly between zero and
  one.\<close>

lemma outcome_window_exact:
  "let h = fold success_write outs new_health in
     SuccessWrites h = length outs \<and>
     SuccessOK h = int (length (filter id (drop (length outs - 50) outs))) \<and>
     0 < (of_int (SuccessOK h + 1) / of_nat (min (SuccessWrites h) 50 + 2) :: rat) \<and>
     (of_int (SuccessOK h + 1) / of_nat (min (SuccessWrites h) 50 + 2) :: rat) < 1"
proof -
  have "window_ok (past @ outs) (fold success_write outs h)" if "window_ok past h" for past h
    using that
  proof (induction outs arbitrary: past h)
    case (Cons x xs)
    then show ?case using Cons.IH [OF window_write [OF Cons.prems]] by simp
  qed simp
  from this [OF window_new] have w: "window_ok outs (fold success_write outs new_health)" by simp
  have "0 \<le> SuccessOK (fold success_write outs new_health)"
    "SuccessOK (fold success_write outs new_health) \<le> int (min (SuccessWrites (fold success_write outs new_health)) 50)"
    using window_bounds [OF w] by auto
  then show ?thesis using w by (auto simp: window_ok_def Let_def field_simps)
qed

text \<open>The weighted round-robin does not rotate: from fresh counters, with the measurements
  unchanged, every new stream of an adaptive policy goes to the same carrier, however many
  carriers share the top and whatever their scores are (the winner keeps its counter and
  the others are reduced by it, instead of the winner by the total).\<close>

lemma round_robin_never_rotates:
  assumes "pc_Mode (p_cfg p) = PolicyAdaptive" and "distinct (p_ids p)" and "\<forall>c. wrr p c = 0"
  shows "\<exists>c. \<forall>k. fst (policy_run mid pw (replicate k (PPick now)) p) = replicate k c"
proof -
  let ?W = "map (\<lambda>c. wrr_weight (LastScore (health_of p c))) (top_of now p)"
  have same: "fst (policy_run mid pw (replicate k (PPick now)) p) = replicate k c"
    if "PickForNewStream now p = (c, p)" for c k
    using that by (induction k) (simp_all add: split_def Let_def)
  show ?thesis
  proof (cases "eligibleActiveLocked now p = []")
    case True
    then have "PickForNewStream now p = ('''', p)" using assms(1) by (simp add: PickForNewStream_def)
    then show ?thesis using same by blast
  next
    case False
    show ?thesis
    proof (cases "sum_list ?W = 0")
      case True
      then have "PickForNewStream now p = (primaryOf p (top_of now p), p)"
        using Pick_adaptive [OF assms(1) False] by (simp add: smoothWRR_def)
      then show ?thesis using same by blast
    next
      case nz: False
      have "wrr_stuck (top_of now p) (max_index 0 ?W (- 1) 0) p"
        using assms(3) by (auto simp: wrr_stuck_def intro: exI [of _ 0])
      then show ?thesis using picks_stuck [OF assms(1) False assms(2) nz] by blast
    qed
  qed
qed

lemma round_robin_never_rotates_witness:
  "\<exists>c. \<forall>k. fst (policy_run (\<lambda>t. t) (\<lambda>x. x) (replicate k (PPick 5)) (demo_policy PolicyAdaptive)) = replicate k c"
  by (rule round_robin_never_rotates) (simp_all add: demo_policy_def)

text \<open>The probe scheduler deadlocks: on a policy with probing enabled and at least one carrier,
  the scheduler's first due check calls the budget check while it holds the lock both take;
  it never returns, the lock stays taken, and from then on no stream can be assigned a
  carrier.\<close>

lemma probe_scheduler_deadlocks:
  assumes "NewPolicy cfg ids = Inr p" and "ProbingEnabled cfg" and "ids \<noteq> []"
  shows "\<exists>b. policySchedProbe midnight now (p_ids p) p = Inl b \<and> p_mu b \<and>
    PickForNewStream_lock t b = Inl b \<and> DueProbe midnight c t full b = Inl b \<and> CanProbe midnight c n t b = Inl b"
proof -
  obtain i rest where ids: "ids = i # rest" using assms(3) by (cases ids) auto
  have f: "ProbingEnabled (p_cfg p)" "p_ids p = i # rest" "\<not> p_mu p" "health p i = Some new_health"
    using NewPolicy_fields [OF assms(1)] assms(2) ids by (simp_all add: sanitizePolicyConfig_def Let_def)
  then show ?thesis
    by (simp add: locked_bind_def DueProbe_def CanProbe_def Lock_def PickForNewStream_lock_def)
qed

lemma probe_scheduler_deadlocks_witness:
  "\<exists>b. policySchedProbe (\<lambda>t. t) 5 (p_ids demo_start) demo_start = Inl b \<and> PickForNewStream_lock 6 b = Inl b"
proof -
  have new: "NewPolicy demo_probing [''a'', ''b''] = Inr demo_start"
    by (simp add: demo_start_def NewPolicy_def sanitizePolicyConfig_def demo_probing_def PolicyConfigDefaults_def
        pos_def Let_def)
  show ?thesis using probe_scheduler_deadlocks [OF new, of "\<lambda>t. t" 5 6 "''a''" True 1] by (auto simp: demo_probing_def)
qed

end
