(* ===== verification/Node.thy ===== *)
theory Node
  imports Carrier Registry Credit Budget Telemetry Intel Destination
begin

text \<open>
  The node of \<^verbatim>\<open>src/pkg/node/node.go\<close>: its configuration, its state, the installation of
  carriers, the selection of a carrier for a new stream, and the close path of a session.

  The objects the code points to are kept in two append-only lists, the carrier handles
  \<open>hnd\<close> and the sessions \<open>ses\<close>, and referred to by index; a handle's index is also the identity of
  its carrier in the keys of the credit emitter. A handle contains the carrier of theory \<open>Carrier\<close>, so
  stream registration, termination and control writes are the operations proved there;
  \<open>h_out\<close> is what \<open>WriteFrame\<close> accepted for the data plane. Ready channels are numbered.
  Goroutines that the node starts are recorded, consumers in \<open>consumers\<close> and socket relays in
  \<open>relays\<close>; \<open>closed_conns\<close> logs the target connections it closes before a session owns them. The clock, the order in which Go iterates over the session map, and the answer of a
  write to the network are arguments. Queue statistics are kept per carrier, and logging is left out.
\<close>

section \<open>Configuration\<close>

datatype Role = RoleIran | RoleGermany

text \<open>The dial function: supplied by the caller, or the default one with its two switches.\<close>

datatype dial_fn = CustomDial nat | DefaultTargetDial bool bool

abbreviation Millisecond :: int where "Millisecond \<equiv> 1000000"
abbreviation defaultSessionBufferTotal :: int where "defaultSessionBufferTotal \<equiv> 33554432"
abbreviation defaultBootstrapWait :: int where "defaultBootstrapWait \<equiv> 30 * Second"

record Config =
  cfg_Role :: Role
  Grace :: int
  BufferBytes :: int
  SessionBufferTotalBytes :: int
  RelayBufSize :: int
  KeepAliveInterval :: int
  LivenessRounds :: int
  BootstrapWait :: int
  cfg_StreamLimits :: StreamLimits
  CreditsEnabled :: bool
  TargetOnlyIPv4 :: bool
  TargetAddrPolicy :: string
  TargetDial :: "dial_fn option"
  DownCarrierIDs :: "CarrierID list"
  PolicyCfg :: PolicyConfig
  TCPKeepAliveMs :: int

datatype config_error =
  BadLimits mux_error | UnknownAddrPolicy string | BadKeepAlive int | BadPolicy policy_error

definition validTargetAddrPolicy :: "string \<Rightarrow> bool" where
  "validTargetAddrPolicy p \<longleftrightarrow> p \<in> {'''', ''default'', ''prefer-ipv4'', ''ipv4-only''}"

definition config_Sanitize :: "Config \<Rightarrow> config_error + Config" where
  "config_Sanitize c0 =
     (let c = c0\<lparr>Grace := pos (5 * Second) (Grace c0),
                 BufferBytes := pos 262144 (BufferBytes c0),
                 SessionBufferTotalBytes := pos defaultSessionBufferTotal (SessionBufferTotalBytes c0),
                 RelayBufSize := pos 32768 (RelayBufSize c0),
                 KeepAliveInterval := pos (15 * Second) (KeepAliveInterval c0),
                 BootstrapWait := pos defaultBootstrapWait (BootstrapWait c0)\<rparr>
      in (case SanitizeLimits (cfg_StreamLimits c) of
            Inl err \<Rightarrow> Inl (BadLimits err)
          | Inr sl \<Rightarrow>
              if TargetAddrPolicy c \<noteq> '''' \<and> \<not> validTargetAddrPolicy (TargetAddrPolicy c)
              then Inl (UnknownAddrPolicy (TargetAddrPolicy c))
              else (let onlyIPv4 = (TargetOnlyIPv4 c \<or> TargetAddrPolicy c = ''ipv4-only'');
                        preferIPv4 = (TargetAddrPolicy c = ''prefer-ipv4'');
                        d = (case TargetDial c of None \<Rightarrow> DefaultTargetDial onlyIPv4 preferIPv4 | Some f \<Rightarrow> f)
                    in if TCPKeepAliveMs c < 0 then Inl (BadKeepAlive (TCPKeepAliveMs c))
                       else Inr (c\<lparr>cfg_StreamLimits := sl, TargetDial := Some d\<rparr>))))"

text \<open>The keep-alive period in seconds; \<open>None\<close> leaves the socket as it is.\<close>

definition applyTCPKeepAlive :: "Config \<Rightarrow> int option" where
  "applyTCPKeepAlive c = (let s = TCPKeepAliveMs c div 1000 in if s \<le> 0 then None else Some s)"

section \<open>State\<close>

record carrierHandle =
  h_carrier :: CarrierConn
  h_gen :: u64
  h_id :: CarrierID
  h_dir :: Direction
  h_done :: bool
  h_lost :: bool
  h_out :: "(u32 \<times> byte \<times> bytes) list"

record nodeSession =
  so_ses :: Session
  so_id :: bytes
  so_stats :: SessionStats

record Node =
  n_cfg :: Config
  n_store :: SessionStore
  n_metrics :: Metrics
  n_buf :: sessionBufferBudget
  ctx_done :: bool
  upReg :: carrierRegistry
  downReg :: carrierRegistry
  lostMap :: "CarrierID \<Rightarrow> bool"
  genSeq :: u64
  streamSeq :: u32
  upReady :: nat
  downReady :: nat
  upReadyClosed :: bool
  downReadyClosed :: bool
  chanSeq :: nat
  n_gate :: "creditGateManager option"
  n_emitter :: "creditEmitter option"
  n_policy :: "Policy option"
  hnd :: "carrierHandle list"
  ses :: "nodeSession list"
  consumers :: "(nat \<times> Direction \<times> nat) list"
  relays :: "(nat \<times> Direction) list"
  closed_conns :: "nat list"

definition newDownRegistry :: "CarrierID list \<Rightarrow> carrierRegistry" where
  "newDownRegistry ids =
     (if length ids > 1 then newMultiCarrierRegistry DirDown ids
      else newCarrierRegistry
             \<lparr>d_ID = (case ids of [i] \<Rightarrow> i | _ \<Rightarrow> DefaultDownCarrierID), d_Dir = DirDown, d_Family = ''reality''\<rparr>)"

definition NewNode :: "Config \<Rightarrow> config_error + Node" where
  "NewNode cfg0 =
     (case config_Sanitize cfg0 of
        Inl e \<Rightarrow> Inl e
      | Inr cfg \<Rightarrow>
          (let reg = newDownRegistry (DownCarrierIDs cfg);
               n = \<lparr>n_cfg = cfg, n_store = NewSessionStore, n_metrics = NewMetrics,
                    n_buf = newSessionBufferBudget (SessionBufferTotalBytes cfg), ctx_done = False,
                    upReg = newCarrierRegistry \<lparr>d_ID = DefaultUpCarrierID, d_Dir = DirUp, d_Family = ''cdn-ws''\<rparr>,
                    downReg = reg, lostMap = (\<lambda>_. False), genSeq = 0, streamSeq = 0,
                    upReady = 0, downReady = 1, upReadyClosed = False, downReadyClosed = False, chanSeq = 2,
                    n_gate = (if CreditsEnabled cfg then Some newCreditGateManager else None),
                    n_emitter = (if CreditsEnabled cfg
                                 then Some (newCreditEmitter (word_of_int (MaxBytesPerStream (cfg_StreamLimits cfg))))
                                 else None),
                    n_policy = None, hnd = [], ses = [], consumers = [], relays = [], closed_conns = []\<rparr>
           in if SingleEntry reg then Inr n
              else (case NewPolicy (PolicyCfg cfg) (KnownIDs reg) of
                      Inl e \<Rightarrow> Inl (BadPolicy e)
                    | Inr p \<Rightarrow> Inr (n\<lparr>n_metrics := SetMultiCarrier (KnownIDs reg) NewMetrics, n_policy := Some p\<rparr>))))"

definition multiDown :: "Node \<Rightarrow> bool" where
  "multiDown n \<longleftrightarrow> \<not> SingleEntry (downReg n)"

definition reg_of :: "Direction \<Rightarrow> Node \<Rightarrow> carrierRegistry" where
  "reg_of dir n = (if dir = DirUp then upReg n else downReg n)"

definition set_reg :: "Direction \<Rightarrow> carrierRegistry \<Rightarrow> Node \<Rightarrow> Node" where
  "set_reg dir r n = (if dir = DirUp then n\<lparr>upReg := r\<rparr> else n\<lparr>downReg := r\<rparr>)"

definition metric :: "(Metrics \<Rightarrow> Metrics) \<Rightarrow> Node \<Rightarrow> Node" where
  "metric f n = n\<lparr>n_metrics := f (n_metrics n)\<rparr>"

definition sess :: "Node \<Rightarrow> nat \<Rightarrow> Session" where
  "sess n r = so_ses (ses n ! r)"

definition upd_sess :: "nat \<Rightarrow> (Session \<Rightarrow> Session) \<Rightarrow> Node \<Rightarrow> Node" where
  "upd_sess r f n = n\<lparr>ses := (ses n)[r := (ses n ! r)\<lparr>so_ses := f (sess n r)\<rparr>]\<rparr>"

definition upd_stats_of :: "nat \<Rightarrow> (SessionStats \<Rightarrow> SessionStats) \<Rightarrow> Node \<Rightarrow> Node" where
  "upd_stats_of r f n = n\<lparr>ses := (ses n)[r := (ses n ! r)\<lparr>so_stats := f (so_stats (ses n ! r))\<rparr>]\<rparr>"

definition upd_handle :: "nat \<Rightarrow> (carrierHandle \<Rightarrow> carrierHandle) \<Rightarrow> Node \<Rightarrow> Node" where
  "upd_handle h f n = n\<lparr>hnd := (hnd n)[h := f (hnd n ! h)]\<rparr>"

definition carrier_of :: "Node \<Rightarrow> nat \<Rightarrow> CarrierConn" where
  "carrier_of n h = h_carrier (hnd n ! h)"

definition upd_carrier :: "nat \<Rightarrow> (CarrierConn \<Rightarrow> CarrierConn) \<Rightarrow> Node \<Rightarrow> Node" where
  "upd_carrier h f n = upd_handle h (\<lambda>x. x\<lparr>h_carrier := f (h_carrier x)\<rparr>) n"

text \<open>The attachment of a direction and an update of it.\<close>

definition att_of :: "Node \<Rightarrow> nat \<Rightarrow> Direction \<Rightarrow> Attachment option" where
  "att_of n r dir = Att dir (sess n r)"

definition upd_att :: "nat \<Rightarrow> Direction \<Rightarrow> (Attachment \<Rightarrow> Attachment) \<Rightarrow> Node \<Rightarrow> Node" where
  "upd_att r dir f n =
     upd_sess r (\<lambda>s. if dir = DirUp then s\<lparr>UpAtt := map_option f (UpAtt s)\<rparr>
                     else s\<lparr>DownAtt := map_option f (DownAtt s)\<rparr>) n"

definition upd_gate :: "(creditGateManager \<Rightarrow> creditGateManager) \<Rightarrow> Node \<Rightarrow> Node" where
  "upd_gate f n = n\<lparr>n_gate := map_option f (n_gate n)\<rparr>"

definition upd_emitter :: "(creditEmitter \<Rightarrow> creditEmitter) \<Rightarrow> Node \<Rightarrow> Node" where
  "upd_emitter f n = n\<lparr>n_emitter := map_option f (n_emitter n)\<rparr>"

definition upd_policy :: "(Policy \<Rightarrow> Policy) \<Rightarrow> Node \<Rightarrow> Node" where
  "upd_policy f n = n\<lparr>n_policy := map_option f (n_policy n)\<rparr>"

section \<open>Carriers\<close>

definition carrier_Ready :: "CarrierConn \<Rightarrow> bool" where
  "carrier_Ready c \<longleftrightarrow> \<not> readDone c \<and> \<not> closing c"

definition ready_of :: "Node \<Rightarrow> nat \<Rightarrow> bool" where
  "ready_of n h \<longleftrightarrow> carrier_Ready (carrier_of n h)"

text \<open>The call of \<open>Close\<close> on a carrier, up to the point where it waits for its goroutines.\<close>

definition carrier_Close :: "CarrierConn \<Rightarrow> CarrierConn" where
  "carrier_Close c = (if close_st c = Open then close_mailboxes (close_conn c) else c)"

text \<open>\<open>WriteFrame\<close>: \<open>werr\<close> is what the write plane answers on an open carrier.\<close>

definition carrier_WriteFrame ::
    "nat \<Rightarrow> u32 \<Rightarrow> byte \<Rightarrow> bytes \<Rightarrow> mux_error option \<Rightarrow> Node \<Rightarrow> mux_error option \<times> Node" where
  "carrier_WriteFrame h sid t p werr n =
     (if closing (carrier_of n h) then (Some ErrCarrierClosed, n)
      else (case werr of
              Some e \<Rightarrow> (Some e, n)
            | None \<Rightarrow> (None, upd_handle h (\<lambda>x. x\<lparr>h_out := h_out x @ [(sid, t, p)]\<rparr>) n)))"

definition control_frame :: "nat \<Rightarrow> u32 \<Rightarrow> byte \<Rightarrow> bytes \<Rightarrow> Node \<Rightarrow> Node" where
  "control_frame h sid t p n = upd_carrier h (\<lambda>c. snd (WriteControlFrame sid t p c)) n"

definition register :: "nat \<Rightarrow> u32 \<Rightarrow> Node \<Rightarrow> nat option \<times> Node" where
  "register h sid n = (fst (Register sid (carrier_of n h)), upd_carrier h (\<lambda>c. snd (Register sid c)) n)"

definition deregister :: "nat \<Rightarrow> u32 \<Rightarrow> Node \<Rightarrow> Node" where
  "deregister h sid n = upd_carrier h (Deregister sid) n"

definition current :: "Direction \<Rightarrow> Node \<Rightarrow> nat option" where
  "current dir n = Primary (ready_of n) (reg_of dir n)"

definition currentIfReadyBoth :: "Node \<Rightarrow> nat option \<times> nat option" where
  "currentIfReadyBoth n = (current DirUp n, current DirDown n)"

fun handle_with_gen :: "carrierHandle list \<Rightarrow> u64 \<Rightarrow> nat option list \<Rightarrow> nat option" where
  "handle_with_gen tbl g [] = None"
| "handle_with_gen tbl g (None # hs) = handle_with_gen tbl g hs"
| "handle_with_gen tbl g (Some h # hs) = (if h_gen (tbl ! h) = g then Some h else handle_with_gen tbl g hs)"

definition handleForGen :: "u64 \<Rightarrow> Node \<Rightarrow> nat option" where
  "handleForGen g n =
     (if g = 0 then None else handle_with_gen (hnd n) g (Handles (upReg n) @ Handles (downReg n)))"

definition dropIfCurrent :: "Direction \<Rightarrow> nat \<Rightarrow> Node \<Rightarrow> Node" where
  "dropIfCurrent dir h n = set_reg dir (ClearIf (h_id (hnd n ! h)) h (reg_of dir n)) n"

definition nextStreamID :: "Node \<Rightarrow> u32 \<times> Node" where
  "nextStreamID n =
     (let s1 = streamSeq n + 1; s = (if s1 \<noteq> 0 then s1 else s1 + 1) in (s, n\<lparr>streamSeq := s\<rparr>))"

definition readySig :: "Direction \<Rightarrow> Node \<Rightarrow> nat" where
  "readySig dir n = (if dir = DirUp then upReady n else downReady n)"

text \<open>A ready channel is closed once; it is replaced when the direction has no carrier left.\<close>

definition close_ready :: "Direction \<Rightarrow> Node \<Rightarrow> Node" where
  "close_ready dir n = (if dir = DirUp then n\<lparr>upReadyClosed := True\<rparr> else n\<lparr>downReadyClosed := True\<rparr>)"

definition renew_ready :: "Direction \<Rightarrow> Node \<Rightarrow> Node" where
  "renew_ready dir n =
     (if dir = DirUp then n\<lparr>upReady := chanSeq n, upReadyClosed := False, chanSeq := chanSeq n + 1\<rparr>
      else n\<lparr>downReady := chanSeq n, downReadyClosed := False, chanSeq := chanSeq n + 1\<rparr>)"

section \<open>Frame lemmas\<close>

text \<open>What each update leaves alone, and what it writes.\<close>

lemma metric_frame [simp]:
  "n_cfg (metric f n) = n_cfg n" "n_store (metric f n) = n_store n" "n_buf (metric f n) = n_buf n"
  "ctx_done (metric f n) = ctx_done n" "upReg (metric f n) = upReg n" "downReg (metric f n) = downReg n"
  "lostMap (metric f n) = lostMap n" "genSeq (metric f n) = genSeq n" "streamSeq (metric f n) = streamSeq n"
  "upReady (metric f n) = upReady n" "downReady (metric f n) = downReady n"
  "upReadyClosed (metric f n) = upReadyClosed n" "downReadyClosed (metric f n) = downReadyClosed n"
  "chanSeq (metric f n) = chanSeq n" "n_gate (metric f n) = n_gate n" "n_emitter (metric f n) = n_emitter n"
  "n_policy (metric f n) = n_policy n" "hnd (metric f n) = hnd n" "ses (metric f n) = ses n"
  "consumers (metric f n) = consumers n" "relays (metric f n) = relays n" "closed_conns (metric f n) = closed_conns n"
  by (simp_all add: metric_def)

lemma upd_sess_frame [simp]:
  "n_cfg (upd_sess r f n) = n_cfg n" "n_store (upd_sess r f n) = n_store n" "n_metrics (upd_sess r f n) = n_metrics n"
  "n_buf (upd_sess r f n) = n_buf n" "ctx_done (upd_sess r f n) = ctx_done n" "upReg (upd_sess r f n) = upReg n"
  "downReg (upd_sess r f n) = downReg n" "lostMap (upd_sess r f n) = lostMap n" "genSeq (upd_sess r f n) = genSeq n"
  "streamSeq (upd_sess r f n) = streamSeq n" "upReady (upd_sess r f n) = upReady n"
  "downReady (upd_sess r f n) = downReady n" "upReadyClosed (upd_sess r f n) = upReadyClosed n"
  "downReadyClosed (upd_sess r f n) = downReadyClosed n" "chanSeq (upd_sess r f n) = chanSeq n"
  "n_gate (upd_sess r f n) = n_gate n" "n_emitter (upd_sess r f n) = n_emitter n"
  "n_policy (upd_sess r f n) = n_policy n" "hnd (upd_sess r f n) = hnd n" "consumers (upd_sess r f n) = consumers n"
  "relays (upd_sess r f n) = relays n" "closed_conns (upd_sess r f n) = closed_conns n"
  by (simp_all add: upd_sess_def)

lemma upd_stats_frame [simp]:
  "n_cfg (upd_stats_of r f n) = n_cfg n" "n_store (upd_stats_of r f n) = n_store n"
  "n_metrics (upd_stats_of r f n) = n_metrics n" "n_buf (upd_stats_of r f n) = n_buf n"
  "ctx_done (upd_stats_of r f n) = ctx_done n" "upReg (upd_stats_of r f n) = upReg n"
  "downReg (upd_stats_of r f n) = downReg n" "lostMap (upd_stats_of r f n) = lostMap n"
  "genSeq (upd_stats_of r f n) = genSeq n" "streamSeq (upd_stats_of r f n) = streamSeq n"
  "upReady (upd_stats_of r f n) = upReady n" "downReady (upd_stats_of r f n) = downReady n"
  "upReadyClosed (upd_stats_of r f n) = upReadyClosed n" "downReadyClosed (upd_stats_of r f n) = downReadyClosed n"
  "chanSeq (upd_stats_of r f n) = chanSeq n" "n_gate (upd_stats_of r f n) = n_gate n"
  "n_emitter (upd_stats_of r f n) = n_emitter n" "n_policy (upd_stats_of r f n) = n_policy n"
  "hnd (upd_stats_of r f n) = hnd n" "consumers (upd_stats_of r f n) = consumers n"
  "relays (upd_stats_of r f n) = relays n" "closed_conns (upd_stats_of r f n) = closed_conns n"
  by (simp_all add: upd_stats_of_def)

lemma upd_att_frame [simp]:
  "n_cfg (upd_att r dir f n) = n_cfg n" "n_store (upd_att r dir f n) = n_store n"
  "n_metrics (upd_att r dir f n) = n_metrics n" "n_buf (upd_att r dir f n) = n_buf n"
  "ctx_done (upd_att r dir f n) = ctx_done n" "upReg (upd_att r dir f n) = upReg n"
  "downReg (upd_att r dir f n) = downReg n" "lostMap (upd_att r dir f n) = lostMap n"
  "genSeq (upd_att r dir f n) = genSeq n" "streamSeq (upd_att r dir f n) = streamSeq n"
  "upReady (upd_att r dir f n) = upReady n" "downReady (upd_att r dir f n) = downReady n"
  "upReadyClosed (upd_att r dir f n) = upReadyClosed n" "downReadyClosed (upd_att r dir f n) = downReadyClosed n"
  "chanSeq (upd_att r dir f n) = chanSeq n" "n_gate (upd_att r dir f n) = n_gate n"
  "n_emitter (upd_att r dir f n) = n_emitter n" "n_policy (upd_att r dir f n) = n_policy n"
  "hnd (upd_att r dir f n) = hnd n" "consumers (upd_att r dir f n) = consumers n"
  "relays (upd_att r dir f n) = relays n" "closed_conns (upd_att r dir f n) = closed_conns n"
  by (simp_all add: upd_att_def)

lemma upd_handle_frame [simp]:
  "n_cfg (upd_handle h f n) = n_cfg n" "n_store (upd_handle h f n) = n_store n"
  "n_metrics (upd_handle h f n) = n_metrics n" "n_buf (upd_handle h f n) = n_buf n"
  "ctx_done (upd_handle h f n) = ctx_done n" "upReg (upd_handle h f n) = upReg n"
  "downReg (upd_handle h f n) = downReg n" "lostMap (upd_handle h f n) = lostMap n"
  "genSeq (upd_handle h f n) = genSeq n" "streamSeq (upd_handle h f n) = streamSeq n"
  "upReady (upd_handle h f n) = upReady n" "downReady (upd_handle h f n) = downReady n"
  "upReadyClosed (upd_handle h f n) = upReadyClosed n" "downReadyClosed (upd_handle h f n) = downReadyClosed n"
  "chanSeq (upd_handle h f n) = chanSeq n" "n_gate (upd_handle h f n) = n_gate n"
  "n_emitter (upd_handle h f n) = n_emitter n" "n_policy (upd_handle h f n) = n_policy n"
  "ses (upd_handle h f n) = ses n" "consumers (upd_handle h f n) = consumers n" "relays (upd_handle h f n) = relays n"
  "closed_conns (upd_handle h f n) = closed_conns n"
  by (simp_all add: upd_handle_def)

lemma upd_carrier_frame [simp]:
  "n_cfg (upd_carrier h g n) = n_cfg n" "n_store (upd_carrier h g n) = n_store n"
  "n_metrics (upd_carrier h g n) = n_metrics n" "n_buf (upd_carrier h g n) = n_buf n"
  "ctx_done (upd_carrier h g n) = ctx_done n" "upReg (upd_carrier h g n) = upReg n"
  "downReg (upd_carrier h g n) = downReg n" "lostMap (upd_carrier h g n) = lostMap n"
  "genSeq (upd_carrier h g n) = genSeq n" "streamSeq (upd_carrier h g n) = streamSeq n"
  "upReady (upd_carrier h g n) = upReady n" "downReady (upd_carrier h g n) = downReady n"
  "upReadyClosed (upd_carrier h g n) = upReadyClosed n" "downReadyClosed (upd_carrier h g n) = downReadyClosed n"
  "chanSeq (upd_carrier h g n) = chanSeq n" "n_gate (upd_carrier h g n) = n_gate n"
  "n_emitter (upd_carrier h g n) = n_emitter n" "n_policy (upd_carrier h g n) = n_policy n"
  "ses (upd_carrier h g n) = ses n" "consumers (upd_carrier h g n) = consumers n"
  "relays (upd_carrier h g n) = relays n" "closed_conns (upd_carrier h g n) = closed_conns n"
  by (simp_all add: upd_carrier_def)

lemma control_frame_frame [simp]:
  "n_cfg (control_frame h i t p n) = n_cfg n" "n_store (control_frame h i t p n) = n_store n"
  "n_metrics (control_frame h i t p n) = n_metrics n" "n_buf (control_frame h i t p n) = n_buf n"
  "ctx_done (control_frame h i t p n) = ctx_done n" "upReg (control_frame h i t p n) = upReg n"
  "downReg (control_frame h i t p n) = downReg n" "lostMap (control_frame h i t p n) = lostMap n"
  "genSeq (control_frame h i t p n) = genSeq n" "streamSeq (control_frame h i t p n) = streamSeq n"
  "upReady (control_frame h i t p n) = upReady n" "downReady (control_frame h i t p n) = downReady n"
  "upReadyClosed (control_frame h i t p n) = upReadyClosed n"
  "downReadyClosed (control_frame h i t p n) = downReadyClosed n" "chanSeq (control_frame h i t p n) = chanSeq n"
  "n_gate (control_frame h i t p n) = n_gate n" "n_emitter (control_frame h i t p n) = n_emitter n"
  "n_policy (control_frame h i t p n) = n_policy n" "ses (control_frame h i t p n) = ses n"
  "consumers (control_frame h i t p n) = consumers n" "relays (control_frame h i t p n) = relays n"
  "closed_conns (control_frame h i t p n) = closed_conns n"
  by (simp_all add: control_frame_def)

lemma deregister_frame [simp]:
  "n_cfg (deregister h i n) = n_cfg n" "n_store (deregister h i n) = n_store n"
  "n_metrics (deregister h i n) = n_metrics n" "n_buf (deregister h i n) = n_buf n"
  "ctx_done (deregister h i n) = ctx_done n" "upReg (deregister h i n) = upReg n"
  "downReg (deregister h i n) = downReg n" "lostMap (deregister h i n) = lostMap n"
  "genSeq (deregister h i n) = genSeq n" "streamSeq (deregister h i n) = streamSeq n"
  "upReady (deregister h i n) = upReady n" "downReady (deregister h i n) = downReady n"
  "upReadyClosed (deregister h i n) = upReadyClosed n" "downReadyClosed (deregister h i n) = downReadyClosed n"
  "chanSeq (deregister h i n) = chanSeq n" "n_gate (deregister h i n) = n_gate n"
  "n_emitter (deregister h i n) = n_emitter n" "n_policy (deregister h i n) = n_policy n"
  "ses (deregister h i n) = ses n" "consumers (deregister h i n) = consumers n" "relays (deregister h i n) = relays n"
  "closed_conns (deregister h i n) = closed_conns n"
  by (simp_all add: deregister_def)

lemma register_frame [simp]:
  "n_cfg (snd (register h i n)) = n_cfg n" "n_store (snd (register h i n)) = n_store n"
  "n_metrics (snd (register h i n)) = n_metrics n" "n_buf (snd (register h i n)) = n_buf n"
  "ctx_done (snd (register h i n)) = ctx_done n" "upReg (snd (register h i n)) = upReg n"
  "downReg (snd (register h i n)) = downReg n" "lostMap (snd (register h i n)) = lostMap n"
  "genSeq (snd (register h i n)) = genSeq n" "streamSeq (snd (register h i n)) = streamSeq n"
  "upReady (snd (register h i n)) = upReady n" "downReady (snd (register h i n)) = downReady n"
  "upReadyClosed (snd (register h i n)) = upReadyClosed n"
  "downReadyClosed (snd (register h i n)) = downReadyClosed n" "chanSeq (snd (register h i n)) = chanSeq n"
  "n_gate (snd (register h i n)) = n_gate n" "n_emitter (snd (register h i n)) = n_emitter n"
  "n_policy (snd (register h i n)) = n_policy n" "ses (snd (register h i n)) = ses n"
  "consumers (snd (register h i n)) = consumers n" "relays (snd (register h i n)) = relays n"
  "closed_conns (snd (register h i n)) = closed_conns n"
  by (simp_all add: register_def)

lemma WriteFrame_frame [simp]:
  "n_cfg (snd (carrier_WriteFrame h i t p e n)) = n_cfg n"
  "n_store (snd (carrier_WriteFrame h i t p e n)) = n_store n"
  "n_metrics (snd (carrier_WriteFrame h i t p e n)) = n_metrics n"
  "n_buf (snd (carrier_WriteFrame h i t p e n)) = n_buf n"
  "ctx_done (snd (carrier_WriteFrame h i t p e n)) = ctx_done n"
  "upReg (snd (carrier_WriteFrame h i t p e n)) = upReg n"
  "downReg (snd (carrier_WriteFrame h i t p e n)) = downReg n"
  "lostMap (snd (carrier_WriteFrame h i t p e n)) = lostMap n"
  "genSeq (snd (carrier_WriteFrame h i t p e n)) = genSeq n"
  "streamSeq (snd (carrier_WriteFrame h i t p e n)) = streamSeq n"
  "upReady (snd (carrier_WriteFrame h i t p e n)) = upReady n"
  "downReady (snd (carrier_WriteFrame h i t p e n)) = downReady n"
  "upReadyClosed (snd (carrier_WriteFrame h i t p e n)) = upReadyClosed n"
  "downReadyClosed (snd (carrier_WriteFrame h i t p e n)) = downReadyClosed n"
  "chanSeq (snd (carrier_WriteFrame h i t p e n)) = chanSeq n"
  "n_gate (snd (carrier_WriteFrame h i t p e n)) = n_gate n"
  "n_emitter (snd (carrier_WriteFrame h i t p e n)) = n_emitter n"
  "n_policy (snd (carrier_WriteFrame h i t p e n)) = n_policy n" "ses (snd (carrier_WriteFrame h i t p e n)) = ses n"
  "consumers (snd (carrier_WriteFrame h i t p e n)) = consumers n"
  "relays (snd (carrier_WriteFrame h i t p e n)) = relays n"
  "closed_conns (snd (carrier_WriteFrame h i t p e n)) = closed_conns n"
  by (simp_all add: carrier_WriteFrame_def split: option.splits)

lemma upd_gate_frame [simp]:
  "n_cfg (upd_gate f n) = n_cfg n" "n_store (upd_gate f n) = n_store n" "n_metrics (upd_gate f n) = n_metrics n"
  "n_buf (upd_gate f n) = n_buf n" "ctx_done (upd_gate f n) = ctx_done n" "upReg (upd_gate f n) = upReg n"
  "downReg (upd_gate f n) = downReg n" "lostMap (upd_gate f n) = lostMap n" "genSeq (upd_gate f n) = genSeq n"
  "streamSeq (upd_gate f n) = streamSeq n" "upReady (upd_gate f n) = upReady n"
  "downReady (upd_gate f n) = downReady n" "upReadyClosed (upd_gate f n) = upReadyClosed n"
  "downReadyClosed (upd_gate f n) = downReadyClosed n" "chanSeq (upd_gate f n) = chanSeq n"
  "n_emitter (upd_gate f n) = n_emitter n" "n_policy (upd_gate f n) = n_policy n" "hnd (upd_gate f n) = hnd n"
  "ses (upd_gate f n) = ses n" "consumers (upd_gate f n) = consumers n" "relays (upd_gate f n) = relays n"
  "closed_conns (upd_gate f n) = closed_conns n"
  by (simp_all add: upd_gate_def)

lemma upd_emitter_frame [simp]:
  "n_cfg (upd_emitter f n) = n_cfg n" "n_store (upd_emitter f n) = n_store n"
  "n_metrics (upd_emitter f n) = n_metrics n" "n_buf (upd_emitter f n) = n_buf n"
  "ctx_done (upd_emitter f n) = ctx_done n" "upReg (upd_emitter f n) = upReg n"
  "downReg (upd_emitter f n) = downReg n" "lostMap (upd_emitter f n) = lostMap n"
  "genSeq (upd_emitter f n) = genSeq n" "streamSeq (upd_emitter f n) = streamSeq n"
  "upReady (upd_emitter f n) = upReady n" "downReady (upd_emitter f n) = downReady n"
  "upReadyClosed (upd_emitter f n) = upReadyClosed n" "downReadyClosed (upd_emitter f n) = downReadyClosed n"
  "chanSeq (upd_emitter f n) = chanSeq n" "n_gate (upd_emitter f n) = n_gate n"
  "n_policy (upd_emitter f n) = n_policy n" "hnd (upd_emitter f n) = hnd n" "ses (upd_emitter f n) = ses n"
  "consumers (upd_emitter f n) = consumers n" "relays (upd_emitter f n) = relays n"
  "closed_conns (upd_emitter f n) = closed_conns n"
  by (simp_all add: upd_emitter_def)

lemma upd_policy_frame [simp]:
  "n_cfg (upd_policy f n) = n_cfg n" "n_store (upd_policy f n) = n_store n" "n_metrics (upd_policy f n) = n_metrics n"
  "n_buf (upd_policy f n) = n_buf n" "ctx_done (upd_policy f n) = ctx_done n" "upReg (upd_policy f n) = upReg n"
  "downReg (upd_policy f n) = downReg n" "lostMap (upd_policy f n) = lostMap n" "genSeq (upd_policy f n) = genSeq n"
  "streamSeq (upd_policy f n) = streamSeq n" "upReady (upd_policy f n) = upReady n"
  "downReady (upd_policy f n) = downReady n" "upReadyClosed (upd_policy f n) = upReadyClosed n"
  "downReadyClosed (upd_policy f n) = downReadyClosed n" "chanSeq (upd_policy f n) = chanSeq n"
  "n_gate (upd_policy f n) = n_gate n" "n_emitter (upd_policy f n) = n_emitter n" "hnd (upd_policy f n) = hnd n"
  "ses (upd_policy f n) = ses n" "consumers (upd_policy f n) = consumers n" "relays (upd_policy f n) = relays n"
  "closed_conns (upd_policy f n) = closed_conns n"
  by (simp_all add: upd_policy_def)

lemma set_reg_frame [simp]:
  "n_cfg (set_reg dir rg n) = n_cfg n" "n_store (set_reg dir rg n) = n_store n"
  "n_metrics (set_reg dir rg n) = n_metrics n" "n_buf (set_reg dir rg n) = n_buf n"
  "ctx_done (set_reg dir rg n) = ctx_done n" "lostMap (set_reg dir rg n) = lostMap n"
  "genSeq (set_reg dir rg n) = genSeq n" "streamSeq (set_reg dir rg n) = streamSeq n"
  "upReady (set_reg dir rg n) = upReady n" "downReady (set_reg dir rg n) = downReady n"
  "upReadyClosed (set_reg dir rg n) = upReadyClosed n" "downReadyClosed (set_reg dir rg n) = downReadyClosed n"
  "chanSeq (set_reg dir rg n) = chanSeq n" "n_gate (set_reg dir rg n) = n_gate n"
  "n_emitter (set_reg dir rg n) = n_emitter n" "n_policy (set_reg dir rg n) = n_policy n"
  "hnd (set_reg dir rg n) = hnd n" "ses (set_reg dir rg n) = ses n" "consumers (set_reg dir rg n) = consumers n"
  "relays (set_reg dir rg n) = relays n" "closed_conns (set_reg dir rg n) = closed_conns n"
  by (simp_all add: set_reg_def)

lemma close_ready_frame [simp]:
  "n_cfg (close_ready dir n) = n_cfg n" "n_store (close_ready dir n) = n_store n"
  "n_metrics (close_ready dir n) = n_metrics n" "n_buf (close_ready dir n) = n_buf n"
  "ctx_done (close_ready dir n) = ctx_done n" "upReg (close_ready dir n) = upReg n"
  "downReg (close_ready dir n) = downReg n" "lostMap (close_ready dir n) = lostMap n"
  "genSeq (close_ready dir n) = genSeq n" "streamSeq (close_ready dir n) = streamSeq n"
  "upReady (close_ready dir n) = upReady n" "downReady (close_ready dir n) = downReady n"
  "chanSeq (close_ready dir n) = chanSeq n" "n_gate (close_ready dir n) = n_gate n"
  "n_emitter (close_ready dir n) = n_emitter n" "n_policy (close_ready dir n) = n_policy n"
  "hnd (close_ready dir n) = hnd n" "ses (close_ready dir n) = ses n" "consumers (close_ready dir n) = consumers n"
  "relays (close_ready dir n) = relays n" "closed_conns (close_ready dir n) = closed_conns n"
  by (simp_all add: close_ready_def)

lemma renew_ready_frame [simp]:
  "n_cfg (renew_ready dir n) = n_cfg n" "n_store (renew_ready dir n) = n_store n"
  "n_metrics (renew_ready dir n) = n_metrics n" "n_buf (renew_ready dir n) = n_buf n"
  "ctx_done (renew_ready dir n) = ctx_done n" "upReg (renew_ready dir n) = upReg n"
  "downReg (renew_ready dir n) = downReg n" "lostMap (renew_ready dir n) = lostMap n"
  "genSeq (renew_ready dir n) = genSeq n" "streamSeq (renew_ready dir n) = streamSeq n"
  "n_gate (renew_ready dir n) = n_gate n" "n_emitter (renew_ready dir n) = n_emitter n"
  "n_policy (renew_ready dir n) = n_policy n" "hnd (renew_ready dir n) = hnd n" "ses (renew_ready dir n) = ses n"
  "consumers (renew_ready dir n) = consumers n" "relays (renew_ready dir n) = relays n"
  "closed_conns (renew_ready dir n) = closed_conns n"
  by (simp_all add: renew_ready_def)

lemma nth_list_update_if: "xs[i := y] ! j = (if i = j \<and> i < length xs then y else xs ! j)"
  by (cases "i < length xs") (simp_all add: list_update_beyond)

lemma sess_keep [simp]:
  "sess (metric f n) = sess n" "att_of (metric f n) = att_of n"
  "sess (upd_handle h k n) = sess n" "att_of (upd_handle h k n) = att_of n"
  "sess (upd_carrier h c n) = sess n" "att_of (upd_carrier h c n) = att_of n"
  "sess (control_frame h i t p n) = sess n" "att_of (control_frame h i t p n) = att_of n"
  "sess (deregister h i n) = sess n" "att_of (deregister h i n) = att_of n"
  "sess (snd (register h i n)) = sess n" "att_of (snd (register h i n)) = att_of n"
  "sess (snd (carrier_WriteFrame h i t p e n)) = sess n" "att_of (snd (carrier_WriteFrame h i t p e n)) = att_of n"
  "sess (upd_gate g1 n) = sess n" "att_of (upd_gate g1 n) = att_of n"
  "sess (upd_emitter g2 n) = sess n" "att_of (upd_emitter g2 n) = att_of n"
  "sess (upd_policy g3 n) = sess n" "att_of (upd_policy g3 n) = att_of n"
  "sess (set_reg dir rg n) = sess n" "att_of (set_reg dir rg n) = att_of n"
  "sess (close_ready dir n) = sess n" "att_of (close_ready dir n) = att_of n"
  "sess (renew_ready dir n) = sess n" "att_of (renew_ready dir n) = att_of n"
  by (simp_all add: fun_eq_iff sess_def att_of_def)

lemma carrier_keep [simp]:
  "carrier_of (metric f n) = carrier_of n" "ready_of (metric f n) = ready_of n"
  "carrier_of (upd_sess r s n) = carrier_of n" "ready_of (upd_sess r s n) = ready_of n"
  "carrier_of (upd_stats_of r st n) = carrier_of n" "ready_of (upd_stats_of r st n) = ready_of n"
  "carrier_of (upd_att r dir a n) = carrier_of n" "ready_of (upd_att r dir a n) = ready_of n"
  "carrier_of (upd_gate g1 n) = carrier_of n" "ready_of (upd_gate g1 n) = ready_of n"
  "carrier_of (upd_emitter g2 n) = carrier_of n" "ready_of (upd_emitter g2 n) = ready_of n"
  "carrier_of (upd_policy g3 n) = carrier_of n" "ready_of (upd_policy g3 n) = ready_of n"
  "carrier_of (set_reg dir rg n) = carrier_of n" "ready_of (set_reg dir rg n) = ready_of n"
  "carrier_of (close_ready dir n) = carrier_of n" "ready_of (close_ready dir n) = ready_of n"
  "carrier_of (renew_ready dir n) = carrier_of n" "ready_of (renew_ready dir n) = ready_of n"
  by (simp_all add: fun_eq_iff carrier_of_def ready_of_def)

lemma sess_fields [simp]:
  "sess (n\<lparr>n_cfg := v_n_cfg\<rparr>) = sess n" "att_of (n\<lparr>n_cfg := v_n_cfg\<rparr>) = att_of n"
  "sess (n\<lparr>n_store := v_n_store\<rparr>) = sess n" "att_of (n\<lparr>n_store := v_n_store\<rparr>) = att_of n"
  "sess (n\<lparr>n_metrics := v_n_metrics\<rparr>) = sess n" "att_of (n\<lparr>n_metrics := v_n_metrics\<rparr>) = att_of n"
  "sess (n\<lparr>n_buf := v_n_buf\<rparr>) = sess n" "att_of (n\<lparr>n_buf := v_n_buf\<rparr>) = att_of n"
  "sess (n\<lparr>ctx_done := v_ctx_done\<rparr>) = sess n" "att_of (n\<lparr>ctx_done := v_ctx_done\<rparr>) = att_of n"
  "sess (n\<lparr>upReg := v_upReg\<rparr>) = sess n" "att_of (n\<lparr>upReg := v_upReg\<rparr>) = att_of n"
  "sess (n\<lparr>downReg := v_downReg\<rparr>) = sess n" "att_of (n\<lparr>downReg := v_downReg\<rparr>) = att_of n"
  "sess (n\<lparr>lostMap := v_lostMap\<rparr>) = sess n" "att_of (n\<lparr>lostMap := v_lostMap\<rparr>) = att_of n"
  "sess (n\<lparr>genSeq := v_genSeq\<rparr>) = sess n" "att_of (n\<lparr>genSeq := v_genSeq\<rparr>) = att_of n"
  "sess (n\<lparr>streamSeq := v_streamSeq\<rparr>) = sess n" "att_of (n\<lparr>streamSeq := v_streamSeq\<rparr>) = att_of n"
  "sess (n\<lparr>upReady := v_upReady\<rparr>) = sess n" "att_of (n\<lparr>upReady := v_upReady\<rparr>) = att_of n"
  "sess (n\<lparr>downReady := v_downReady\<rparr>) = sess n" "att_of (n\<lparr>downReady := v_downReady\<rparr>) = att_of n"
  "sess (n\<lparr>upReadyClosed := v_upReadyClosed\<rparr>) = sess n" "att_of (n\<lparr>upReadyClosed := v_upReadyClosed\<rparr>) = att_of n"
  "sess (n\<lparr>downReadyClosed := v_downReadyClosed\<rparr>) = sess n" "att_of (n\<lparr>downReadyClosed := v_downReadyClosed\<rparr>) = att_of n"
  "sess (n\<lparr>chanSeq := v_chanSeq\<rparr>) = sess n" "att_of (n\<lparr>chanSeq := v_chanSeq\<rparr>) = att_of n"
  "sess (n\<lparr>n_gate := v_n_gate\<rparr>) = sess n" "att_of (n\<lparr>n_gate := v_n_gate\<rparr>) = att_of n"
  "sess (n\<lparr>n_emitter := v_n_emitter\<rparr>) = sess n" "att_of (n\<lparr>n_emitter := v_n_emitter\<rparr>) = att_of n"
  "sess (n\<lparr>n_policy := v_n_policy\<rparr>) = sess n" "att_of (n\<lparr>n_policy := v_n_policy\<rparr>) = att_of n"
  "sess (n\<lparr>hnd := v_hnd\<rparr>) = sess n" "att_of (n\<lparr>hnd := v_hnd\<rparr>) = att_of n"
  "sess (n\<lparr>consumers := v_consumers\<rparr>) = sess n" "att_of (n\<lparr>consumers := v_consumers\<rparr>) = att_of n"
  "sess (n\<lparr>relays := v_relays\<rparr>) = sess n" "att_of (n\<lparr>relays := v_relays\<rparr>) = att_of n"
  "sess (n\<lparr>closed_conns := v_closed_conns\<rparr>) = sess n" "att_of (n\<lparr>closed_conns := v_closed_conns\<rparr>) = att_of n"
  by (simp_all add: fun_eq_iff sess_def att_of_def)

lemma carrier_fields [simp]:

  "carrier_of (n\<lparr>n_cfg := v_n_cfg\<rparr>) = carrier_of n" "ready_of (n\<lparr>n_cfg := v_n_cfg\<rparr>) = ready_of n"
  "carrier_of (n\<lparr>n_store := v_n_store\<rparr>) = carrier_of n" "ready_of (n\<lparr>n_store := v_n_store\<rparr>) = ready_of n"
  "carrier_of (n\<lparr>n_metrics := v_n_metrics\<rparr>) = carrier_of n" "ready_of (n\<lparr>n_metrics := v_n_metrics\<rparr>) = ready_of n"
  "carrier_of (n\<lparr>n_buf := v_n_buf\<rparr>) = carrier_of n" "ready_of (n\<lparr>n_buf := v_n_buf\<rparr>) = ready_of n"
  "carrier_of (n\<lparr>ctx_done := v_ctx_done\<rparr>) = carrier_of n" "ready_of (n\<lparr>ctx_done := v_ctx_done\<rparr>) = ready_of n"
  "carrier_of (n\<lparr>upReg := v_upReg\<rparr>) = carrier_of n" "ready_of (n\<lparr>upReg := v_upReg\<rparr>) = ready_of n"
  "carrier_of (n\<lparr>downReg := v_downReg\<rparr>) = carrier_of n" "ready_of (n\<lparr>downReg := v_downReg\<rparr>) = ready_of n"
  "carrier_of (n\<lparr>lostMap := v_lostMap\<rparr>) = carrier_of n" "ready_of (n\<lparr>lostMap := v_lostMap\<rparr>) = ready_of n"
  "carrier_of (n\<lparr>genSeq := v_genSeq\<rparr>) = carrier_of n" "ready_of (n\<lparr>genSeq := v_genSeq\<rparr>) = ready_of n"
  "carrier_of (n\<lparr>streamSeq := v_streamSeq\<rparr>) = carrier_of n" "ready_of (n\<lparr>streamSeq := v_streamSeq\<rparr>) = ready_of n"
  "carrier_of (n\<lparr>upReady := v_upReady\<rparr>) = carrier_of n" "ready_of (n\<lparr>upReady := v_upReady\<rparr>) = ready_of n"
  "carrier_of (n\<lparr>downReady := v_downReady\<rparr>) = carrier_of n" "ready_of (n\<lparr>downReady := v_downReady\<rparr>) = ready_of n"
  "carrier_of (n\<lparr>upReadyClosed := v_upReadyClosed\<rparr>) = carrier_of n" "ready_of (n\<lparr>upReadyClosed := v_upReadyClosed\<rparr>) = ready_of n"
  "carrier_of (n\<lparr>downReadyClosed := v_downReadyClosed\<rparr>) = carrier_of n" "ready_of (n\<lparr>downReadyClosed := v_downReadyClosed\<rparr>) = ready_of n"
  "carrier_of (n\<lparr>chanSeq := v_chanSeq\<rparr>) = carrier_of n" "ready_of (n\<lparr>chanSeq := v_chanSeq\<rparr>) = ready_of n"
  "carrier_of (n\<lparr>n_gate := v_n_gate\<rparr>) = carrier_of n" "ready_of (n\<lparr>n_gate := v_n_gate\<rparr>) = ready_of n"
  "carrier_of (n\<lparr>n_emitter := v_n_emitter\<rparr>) = carrier_of n" "ready_of (n\<lparr>n_emitter := v_n_emitter\<rparr>) = ready_of n"
  "carrier_of (n\<lparr>n_policy := v_n_policy\<rparr>) = carrier_of n" "ready_of (n\<lparr>n_policy := v_n_policy\<rparr>) = ready_of n"
  "carrier_of (n\<lparr>ses := v_ses\<rparr>) = carrier_of n" "ready_of (n\<lparr>ses := v_ses\<rparr>) = ready_of n"
  "carrier_of (n\<lparr>consumers := v_consumers\<rparr>) = carrier_of n" "ready_of (n\<lparr>consumers := v_consumers\<rparr>) = ready_of n"
  "carrier_of (n\<lparr>relays := v_relays\<rparr>) = carrier_of n" "ready_of (n\<lparr>relays := v_relays\<rparr>) = ready_of n"
  "carrier_of (n\<lparr>closed_conns := v_closed_conns\<rparr>) = carrier_of n" "ready_of (n\<lparr>closed_conns := v_closed_conns\<rparr>) = ready_of n"
  by (simp_all add: fun_eq_iff carrier_of_def ready_of_def)

lemma length_tables [simp]:
  "length (ses (upd_sess r f n)) = length (ses n)" "length (ses (upd_att r dir g n)) = length (ses n)"
  "length (ses (upd_stats_of r s n)) = length (ses n)" "length (hnd (upd_handle h k n)) = length (hnd n)"
  "length (hnd (upd_carrier h c n)) = length (hnd n)" "length (hnd (control_frame h i t p n)) = length (hnd n)"
  "length (hnd (deregister h i n)) = length (hnd n)" "length (hnd (snd (register h i n))) = length (hnd n)"
  "length (hnd (snd (carrier_WriteFrame h i t p e n))) = length (hnd n)"
  by (simp_all add: upd_sess_def upd_att_def upd_stats_of_def upd_handle_def upd_carrier_def control_frame_def
      deregister_def register_def carrier_WriteFrame_def split: option.splits)

lemma sess_upd_sess: "sess (upd_sess r f n) q = (if q = r \<and> r < length (ses n) then f (sess n r) else sess n q)"
  by (auto simp: sess_def upd_sess_def nth_list_update_if)

lemma so_id_upd [simp]:
  "so_id (ses (upd_sess r f n) ! q) = so_id (ses n ! q)" "so_stats (ses (upd_sess r f n) ! q) = so_stats (ses n ! q)"
  "so_id (ses (upd_att r dir g n) ! q) = so_id (ses n ! q)" "so_stats (ses (upd_att r dir g n) ! q) = so_stats (ses n ! q)"
  "so_id (ses (upd_stats_of r s n) ! q) = so_id (ses n ! q)"
  by (simp_all add: upd_sess_def upd_att_def upd_stats_of_def nth_list_update_if)

lemma sess_upd_stats [simp]: "sess (upd_stats_of r f n) = sess n" "att_of (upd_stats_of r f n) = att_of n"
  by (auto simp: sess_def att_of_def upd_stats_of_def nth_list_update_if fun_eq_iff)

lemma att_upd_att:
  "att_of (upd_att r dir f n) q d =
     (if q = r \<and> d = dir \<and> r < length (ses n) then map_option f (att_of n r dir) else att_of n q d)"
  by (cases dir; cases d) (auto simp: att_of_def upd_att_def sess_upd_sess Att_def)

text \<open>An attachment update leaves the rest of the session alone.\<close>

lemma sess_upd_att [simp]:
  "ses_state (sess (upd_att r dir f n) q) = ses_state (sess n q)"
  "DirClosed d (sess (upd_att r dir f n) q) = DirClosed d (sess n q)"
  "StreamIDUp (sess (upd_att r dir f n) q) = StreamIDUp (sess n q)"
  "StreamIDDown (sess (upd_att r dir f n) q) = StreamIDDown (sess n q)"
  "once_done (sess (upd_att r dir f n) q) = once_done (sess n q)"
  "onClose (sess (upd_att r dir f n) q) = onClose (sess n q)"
  "reason (sess (upd_att r dir f n) q) = reason (sess n q)"
  "bootstrapC (sess (upd_att r dir f n) q) = bootstrapC (sess n q)"
  by (simp_all add: upd_att_def sess_upd_sess DirClosed_def)

lemma hnd_upd [simp]:
  "h_gen (hnd (upd_carrier h c n) ! x) = h_gen (hnd n ! x)" "h_id (hnd (upd_carrier h c n) ! x) = h_id (hnd n ! x)"
  "h_dir (hnd (upd_carrier h c n) ! x) = h_dir (hnd n ! x)"
  "h_gen (hnd (control_frame h i t p n) ! x) = h_gen (hnd n ! x)" "h_id (hnd (control_frame h i t p n) ! x) = h_id (hnd n ! x)"
  "h_dir (hnd (control_frame h i t p n) ! x) = h_dir (hnd n ! x)"
  "h_gen (hnd (deregister h i n) ! x) = h_gen (hnd n ! x)" "h_id (hnd (deregister h i n) ! x) = h_id (hnd n ! x)"
  "h_dir (hnd (deregister h i n) ! x) = h_dir (hnd n ! x)"
  "h_gen (hnd (snd (register h i n)) ! x) = h_gen (hnd n ! x)" "h_id (hnd (snd (register h i n)) ! x) = h_id (hnd n ! x)"
  "h_dir (hnd (snd (register h i n)) ! x) = h_dir (hnd n ! x)"
  "h_gen (hnd (snd (carrier_WriteFrame h i t p e n)) ! x) = h_gen (hnd n ! x)"
  "h_id (hnd (snd (carrier_WriteFrame h i t p e n)) ! x) = h_id (hnd n ! x)"
  "h_dir (hnd (snd (carrier_WriteFrame h i t p e n)) ! x) = h_dir (hnd n ! x)"
  by (auto simp: upd_carrier_def upd_handle_def control_frame_def deregister_def register_def carrier_WriteFrame_def
      nth_list_update_if split: option.splits)

lemma carrier_upd:
  "carrier_of (upd_carrier h f n) x = (if x = h \<and> h < length (hnd n) then f (carrier_of n h) else carrier_of n x)"
  by (auto simp: carrier_of_def upd_carrier_def upd_handle_def nth_list_update_if)

lemma reg_of_cong: "upReg m = upReg n \<Longrightarrow> downReg m = downReg n \<Longrightarrow> reg_of dir m = reg_of dir n"
  by (simp add: reg_of_def)

end
