(* ===== verification/Lifecycle.thy ===== *)
theory Lifecycle
  imports Node
begin

text \<open>
  How carriers enter the node and how sessions leave it (\<^verbatim>\<open>src/pkg/node/node.go\<close>): the installation
  of a carrier, the choice of a down carrier for a new stream, and the close path of a session with the
  node's close hook.

  The hook runs inside the session's teardown, after both attachments are closed and before the state is
  \<open>StateClosed\<close>; \<open>teardown_session\<close> applies it to the torn down session. \<open>installFor\<close> waits in its
  middle for the previous carrier's loss sweep; its two halves are \<open>installFor_begin\<close> and
  \<open>installFor_settle\<close>.
\<close>

section \<open>Policy hooks\<close>

definition noteCarrierDelivery :: "(rat \<Rightarrow> rat) \<Rightarrow> CarrierID \<Rightarrow> int \<Rightarrow> int \<Rightarrow> Node \<Rightarrow> Node" where
  "noteCarrierDelivery pow_half cid n now nd =
     (if n > 0 then upd_policy (RecordPassiveBytes pow_half cid n now) nd else nd)"

definition noteStreamOutcome :: "CarrierID \<Rightarrow> bool \<Rightarrow> int \<Rightarrow> Node \<Rightarrow> Node" where
  "noteStreamOutcome cid ok ttfb n = upd_policy (RecordStreamOutcome cid ok ttfb) n"

definition noteCarrierLoss :: "CarrierID \<Rightarrow> int \<Rightarrow> Node \<Rightarrow> Node" where
  "noteCarrierLoss cid now n = upd_policy (RecordReset cid now) n"

definition noteCarrierFlap :: "CarrierID \<Rightarrow> int \<Rightarrow> Node \<Rightarrow> Node" where
  "noteCarrierFlap cid now n = upd_policy (RecordFlap cid now) n"

definition noteRebind :: "CarrierID \<Rightarrow> Node \<Rightarrow> Node" where
  "noteRebind cid n = upd_policy (RecordRebind cid) n"

text \<open>One tick of the policy goroutine, before the probe scheduler.\<close>

definition policy_tick :: "int \<Rightarrow> Node \<Rightarrow> Node" where
  "policy_tick now n = upd_policy (Evaluate now) n"

definition pickDownForNewStream :: "int \<Rightarrow> Node \<Rightarrow> nat option \<times> Node" where
  "pickDownForNewStream now n =
     (case n_policy n of
        None \<Rightarrow> (Primary (ready_of n) (downReg n), n)
      | Some p \<Rightarrow>
          (let (cid, p') = PickForNewStream now p; n1 = n\<lparr>n_policy := Some p'\<rparr>
           in if cid = '''' then (Primary (ready_of n) (downReg n), n1)
              else (case Handle cid (downReg n) of
                      Some h \<Rightarrow> if ready_of n h then (Some h, n1) else (Primary (ready_of n) (downReg n), n1)
                    | None \<Rightarrow> (Primary (ready_of n) (downReg n), n1))))"

section \<open>Closing sessions\<close>

definition streamIDOf :: "Session \<Rightarrow> Direction \<Rightarrow> u32" where
  "streamIDOf s dir = (if dir = DirUp then StreamIDUp s else StreamIDDown s)"

definition dirName :: "Direction \<Rightarrow> string" where
  "dirName dir = (if dir = DirUp then ''up'' else ''down'')"

definition carrierTimeoutReason :: "Direction \<Rightarrow> string" where
  "carrierTimeoutReason dir =
     (if dir = DirUp then ''upload carrier timeout'' else ''download carrier timeout'')"

fun deregister_all :: "nat option list \<Rightarrow> u32 \<Rightarrow> Node \<Rightarrow> Node" where
  "deregister_all [] sid n = n"
| "deregister_all (None # hs) sid n = deregister_all hs sid n"
| "deregister_all (Some h # hs) sid n = deregister_all hs sid (deregister h sid n)"

fun forget_credit :: "nat option list \<Rightarrow> u32 \<Rightarrow> creditEmitter \<Rightarrow> creditEmitter" where
  "forget_credit [] sid e = e"
| "forget_credit (None # hs) sid e = forget_credit hs sid e"
| "forget_credit (Some h # hs) sid e = forget_credit hs sid (emitter_removeStream (h, sid) e)"

definition downCarrierGenForSession :: "nat \<Rightarrow> Node \<Rightarrow> u64" where
  "downCarrierGenForSession r n = (case DownAtt (sess n r) of None \<Rightarrow> 0 | Some a \<Rightarrow> att_gen a)"

definition clean_close :: "CloseReason \<Rightarrow> SessionStats \<Rightarrow> Session \<Rightarrow> bool" where
  "clean_close rsn st s \<longleftrightarrow> (rsn = ReasonClientEOF \<or> rsn = ReasonTargetEOF) \<and> CleanHalfClose st \<and>
     \<not> Terminated st \<and> DirClosed DirUp s \<and> DirClosed DirDown s"

text \<open>The registrations, credit state and store entries of a closed session.\<close>

definition release_streams :: "nat \<Rightarrow> Node \<Rightarrow> Node" where
  "release_streams r n =
     (let s = sess n r; u = StreamIDUp s; d = StreamIDDown s;
          n1 = (if u \<noteq> 0 then deregister_all (Handles (upReg n)) u n else n);
          n2 = (if d \<noteq> 0 then deregister_all (Handles (downReg n)) d n1 else n1);
          n3 = (if d \<noteq> 0 then upd_gate (gate_removeStream d) n2 else n2);
          n4 = (if d \<noteq> 0 then upd_emitter (forget_credit (Handles (downReg n)) d) n3 else n3)
      in n4\<lparr>n_store := store_Remove (sess n) (so_id (ses n ! r)) (n_store n)\<rparr>)"

text \<open>The counters and the policy sample.\<close>

definition report_close :: "nat \<Rightarrow> Node \<Rightarrow> Node" where
  "report_close r n =
     (let s = sess n r; st = so_stats (ses n ! r); rsn = closeReasonClass st (reason s);
          n1 = (if DataUndeliverable st then upd_sess r SetDataUndeliverableReason n
                else if Terminated st then upd_sess r SetOverflowReason n else n);
          n2 = metric (metric_SessionClosed rsn) n1;
          clean = clean_close rsn st s;
          n3 = metric (if clean then SessionCleanComplete
                       else if FirstByte st then SessionMidTransfer else SessionClosedBeforeFirstByte) n2;
          g = downCarrierGenForSession r n;
          n4 = (if g \<noteq> 0
                then (case handleForGen g n of
                        Some h \<Rightarrow> noteStreamOutcome (h_id (hnd n ! h)) clean (TTFB st) n3
                      | None \<Rightarrow> n3)
                else n3)
      in metric SessionEnded n4)"

definition onSessionClosed :: "nat \<Rightarrow> Node \<Rightarrow> Node" where
  "onSessionClosed r n = report_close r (release_streams r n)"

text \<open>\<open>teardown\<close> with its hooks; the node registers one hook, number 0.\<close>

definition teardown_session :: "nat \<Rightarrow> Node \<Rightarrow> Node" where
  "teardown_session r n =
     (if once_done (sess n r) then n
      else (let hooks = onClose (sess n r); n1 = upd_sess r teardown n
            in if 0 \<in> set hooks then onSessionClosed r n1 else n1))"

definition close_session :: "nat \<Rightarrow> string \<Rightarrow> Node \<Rightarrow> Node" where
  "close_session r rsn n =
     (let (go, s1) = Close_begin rsn (sess n r); n1 = upd_sess r (\<lambda>_. s1) n
      in if go then teardown_session r n1 else n)"

definition mark_dir_closed :: "nat \<Rightarrow> Direction \<Rightarrow> string \<Rightarrow> Node \<Rightarrow> Node" where
  "mark_dir_closed r dir rsn n =
     (let (complete, s1) = MarkDirClosed_begin dir rsn (sess n r); n1 = upd_sess r (\<lambda>_. s1) n
      in if complete then teardown_session r n1 else n1)"

definition onGraceTimeout :: "nat \<Rightarrow> Direction \<Rightarrow> Node \<Rightarrow> Node" where
  "onGraceTimeout r dir n =
     (if DirClosed dir (sess n r) then n
      else close_session r (carrierTimeoutReason dir) (metric SessionLostAfterFailure n))"

text \<open>The drain timer after the client's end of data.\<close>

definition finalizeDrain :: "nat \<Rightarrow> Node \<Rightarrow> Node" where
  "finalizeDrain r n =
     (if ses_state (sess n r) = StateClosed \<or> DirClosed DirDown (sess n r) then n
      else close_session r ''target did not finish after client EOF'' n)"

section \<open>Installing carriers\<close>

datatype node_error =
  NodeUnknownCarrier Direction CarrierID | NodeCtxDone | NodeNotReady | NodeRegistration | NodeActivation
  | NodeDestination | NodeHeaderWrite mux_error | NodeAdopt

text \<open>The carrier with the node's limits and callbacks. Sanitized limits are accepted by
  \<open>SetStreamLimits\<close>, whose error the code ignores.\<close>

definition node_carrier :: "Config \<Rightarrow> CarrierConn" where
  "node_carrier cfg =
     (let c1 = (case SetStreamLimits (cfg_StreamLimits cfg) newCarrierConn of Inl _ \<Rightarrow> newCarrierConn | Inr c \<Rightarrow> c);
          c2 = SetQueueStats (Some zero_stats) c1;
          c3 = (if LivenessRounds cfg > 0 then SetLivenessRounds (LivenessRounds cfg) c2 else c2)
      in c3\<lparr>onStreamTerminated := True, onStreamDataUndeliverable := True, onStreamReset := True,
            onStreamBootstrapAck := True\<rparr>)"

definition new_handle :: "u64 \<Rightarrow> CarrierID \<Rightarrow> Direction \<Rightarrow> Config \<Rightarrow> carrierHandle" where
  "new_handle g cid dir cfg = \<lparr>h_carrier = node_carrier cfg, h_gen = g, h_id = cid, h_dir = dir, h_done = False,
     h_lost = False, h_out = []\<rparr>"

definition count_reconnect :: "CarrierID \<Rightarrow> Node \<Rightarrow> Node" where
  "count_reconnect cid n = metric (CarrierReconnectOn cid) (metric CarrierReconnect n)"

text \<open>The locked section: the new handle, the one it replaces, and whether the id was lost.\<close>

definition install_locked ::
    "CarrierID \<Rightarrow> Direction \<Rightarrow> Node \<Rightarrow> node_error + (nat \<times> nat option \<times> bool \<times> Node)" where
  "install_locked cid dir n =
     (if \<not> IsKnown cid (reg_of dir n) then Inl (NodeUnknownCarrier dir cid)
      else (let h = length (hnd n); g = genSeq n + 1;
                (old, r) = (case registry_Add cid (Some h) (reg_of dir n) of
                              (Inr old, r) \<Rightarrow> (old, r) | (Inl _, r) \<Rightarrow> (None, r));
                wasLost = lostMap n cid;
                n1 = set_reg dir r (n\<lparr>genSeq := g, hnd := hnd n @ [new_handle g cid dir (n_cfg n)]\<rparr>);
                n2 = n1\<lparr>lostMap := (lostMap n)(cid := False)\<rparr>
            in Inr (h, old, wasLost, close_ready dir n2)))"

definition installFor_begin ::
    "CarrierID \<Rightarrow> Direction \<Rightarrow> int \<Rightarrow> Node \<Rightarrow> node_error + (nat \<times> nat option \<times> bool \<times> Node)" where
  "installFor_begin cid dir now n =
     (case install_locked cid dir n of
        Inl e \<Rightarrow> Inl e
      | Inr (h, old, wasLost, n1) \<Rightarrow>
          (let n2 = (if wasLost
                     then (if dir = DirDown then noteCarrierFlap cid now (count_reconnect cid n1)
                           else count_reconnect cid n1)
                     else n1);
               n3 = (case old of None \<Rightarrow> n2 | Some x \<Rightarrow> upd_carrier x carrier_Close n2)
           in Inr (h, old, wasLost, n3)))"

text \<open>After the wait: \<open>settled\<close> when the previous carrier's loss sweep ended in time. Then the
  role's callbacks are set.\<close>

definition installFor_settle :: "Direction \<Rightarrow> nat \<Rightarrow> nat option \<Rightarrow> bool \<Rightarrow> bool \<Rightarrow> Node \<Rightarrow> Node" where
  "installFor_settle dir h old wasLost settled n =
     (let cid = h_id (hnd n ! h);
          n1 = (if old \<noteq> None \<and> settled
                then (if \<not> wasLost then count_reconnect cid n else n)\<lparr>lostMap := (lostMap n)(cid := False)\<rparr>
                else n);
          germany = (cfg_Role (n_cfg n) = RoleGermany);
          n2 = (if germany then upd_carrier h (\<lambda>c. c\<lparr>onNewStream := True\<rparr>) n1 else n1)
      in if n_gate n \<noteq> None \<and> germany \<and> dir = DirDown
         then upd_carrier h (\<lambda>c. c\<lparr>onStreamCredit := True\<rparr>) n2 else n2)"

text \<open>The node's credit callback of a down carrier.\<close>

definition onStreamCredit_hook :: "nat \<Rightarrow> u32 \<Rightarrow> CreditPayload \<Rightarrow> Node \<Rightarrow> Node" where
  "onStreamCredit_hook h sid p n =
     (case n_gate n of
        None \<Rightarrow> n
      | Some g \<Rightarrow>
          (let cap = nat (MaxBytesPerStream (limits (carrier_of n h)));
               gen = h_gen (hnd n ! h);
               (l, g1) = gate_ledger gen sid g;
               (ok, l1) = onCredit p gen cap l;
               g2 = upd_ledger sid (\<lambda>_. l1) g1
           in n\<lparr>n_gate := Some (if ok then cancelTimer sid g2 else g2)\<rparr>))"

text \<open>The stream callbacks.\<close>

definition onStreamTerminated_hook :: "u32 \<Rightarrow> Node \<Rightarrow> Node" where
  "onStreamTerminated_hook sid n =
     (case GetByStream sid (n_store n) of None \<Rightarrow> n | Some r \<Rightarrow> upd_stats_of r MarkTerminated n)"

definition onStreamDataUndeliverable_hook :: "u32 \<Rightarrow> Node \<Rightarrow> Node" where
  "onStreamDataUndeliverable_hook sid n =
     (case GetByStream sid (n_store n) of None \<Rightarrow> n | Some r \<Rightarrow> upd_stats_of r MarkDataUndeliverable n)"

definition onStreamBootstrapAck_hook :: "u32 \<Rightarrow> byte \<Rightarrow> Node \<Rightarrow> Node" where
  "onStreamBootstrapAck_hook sid status n =
     (let n1 = metric BootstrapAckReceived n
      in (case GetByStream sid (n_store n1) of
            None \<Rightarrow> n1 | Some r \<Rightarrow> upd_sess r (\<lambda>s. snd (ResolveBootstrap status s)) n1))"

section \<open>Frame lemmas of the close path\<close>

lemma deregister_all_frame [simp]:
  "n_cfg (deregister_all hs i n) = n_cfg n" "n_store (deregister_all hs i n) = n_store n"
  "n_metrics (deregister_all hs i n) = n_metrics n" "n_buf (deregister_all hs i n) = n_buf n"
  "ctx_done (deregister_all hs i n) = ctx_done n" "upReg (deregister_all hs i n) = upReg n"
  "downReg (deregister_all hs i n) = downReg n" "lostMap (deregister_all hs i n) = lostMap n"
  "genSeq (deregister_all hs i n) = genSeq n" "streamSeq (deregister_all hs i n) = streamSeq n"
  "upReady (deregister_all hs i n) = upReady n" "downReady (deregister_all hs i n) = downReady n"
  "upReadyClosed (deregister_all hs i n) = upReadyClosed n"
  "downReadyClosed (deregister_all hs i n) = downReadyClosed n" "chanSeq (deregister_all hs i n) = chanSeq n"
  "n_gate (deregister_all hs i n) = n_gate n" "n_emitter (deregister_all hs i n) = n_emitter n"
  "n_policy (deregister_all hs i n) = n_policy n" "ses (deregister_all hs i n) = ses n"
  "consumers (deregister_all hs i n) = consumers n" "relays (deregister_all hs i n) = relays n"
  "closed_conns (deregister_all hs i n) = closed_conns n"
  by (induction hs i n rule: deregister_all.induct) simp_all

lemma release_streams_frame [simp]:
  "n_cfg (release_streams r n) = n_cfg n" "n_metrics (release_streams r n) = n_metrics n"
  "n_buf (release_streams r n) = n_buf n" "ctx_done (release_streams r n) = ctx_done n"
  "upReg (release_streams r n) = upReg n" "downReg (release_streams r n) = downReg n"
  "lostMap (release_streams r n) = lostMap n" "genSeq (release_streams r n) = genSeq n"
  "streamSeq (release_streams r n) = streamSeq n" "upReady (release_streams r n) = upReady n"
  "downReady (release_streams r n) = downReady n" "upReadyClosed (release_streams r n) = upReadyClosed n"
  "downReadyClosed (release_streams r n) = downReadyClosed n" "chanSeq (release_streams r n) = chanSeq n"
  "n_policy (release_streams r n) = n_policy n" "ses (release_streams r n) = ses n"
  "consumers (release_streams r n) = consumers n" "relays (release_streams r n) = relays n"
  "closed_conns (release_streams r n) = closed_conns n"
  by (simp_all add: release_streams_def Let_def)

lemma report_close_frame [simp]:
  "n_cfg (report_close r n) = n_cfg n" "n_store (report_close r n) = n_store n" "n_buf (report_close r n) = n_buf n"
  "ctx_done (report_close r n) = ctx_done n" "upReg (report_close r n) = upReg n"
  "downReg (report_close r n) = downReg n" "lostMap (report_close r n) = lostMap n"
  "genSeq (report_close r n) = genSeq n" "streamSeq (report_close r n) = streamSeq n"
  "upReady (report_close r n) = upReady n" "downReady (report_close r n) = downReady n"
  "upReadyClosed (report_close r n) = upReadyClosed n" "downReadyClosed (report_close r n) = downReadyClosed n"
  "chanSeq (report_close r n) = chanSeq n" "n_gate (report_close r n) = n_gate n"
  "n_emitter (report_close r n) = n_emitter n" "hnd (report_close r n) = hnd n"
  "consumers (report_close r n) = consumers n" "relays (report_close r n) = relays n"
  "closed_conns (report_close r n) = closed_conns n"
  by (simp_all add: report_close_def noteStreamOutcome_def Let_def split: option.splits)

lemma onSessionClosed_frame [simp]:
  "n_cfg (onSessionClosed r n) = n_cfg n" "n_buf (onSessionClosed r n) = n_buf n"
  "ctx_done (onSessionClosed r n) = ctx_done n" "upReg (onSessionClosed r n) = upReg n"
  "downReg (onSessionClosed r n) = downReg n" "lostMap (onSessionClosed r n) = lostMap n"
  "genSeq (onSessionClosed r n) = genSeq n" "streamSeq (onSessionClosed r n) = streamSeq n"
  "upReady (onSessionClosed r n) = upReady n" "downReady (onSessionClosed r n) = downReady n"
  "upReadyClosed (onSessionClosed r n) = upReadyClosed n" "downReadyClosed (onSessionClosed r n) = downReadyClosed n"
  "chanSeq (onSessionClosed r n) = chanSeq n" "consumers (onSessionClosed r n) = consumers n"
  "relays (onSessionClosed r n) = relays n" "closed_conns (onSessionClosed r n) = closed_conns n"
  by (simp_all add: onSessionClosed_def)

lemma teardown_session_frame [simp]:
  "n_cfg (teardown_session r n) = n_cfg n" "n_buf (teardown_session r n) = n_buf n"
  "ctx_done (teardown_session r n) = ctx_done n" "upReg (teardown_session r n) = upReg n"
  "downReg (teardown_session r n) = downReg n" "lostMap (teardown_session r n) = lostMap n"
  "genSeq (teardown_session r n) = genSeq n" "streamSeq (teardown_session r n) = streamSeq n"
  "upReady (teardown_session r n) = upReady n" "downReady (teardown_session r n) = downReady n"
  "upReadyClosed (teardown_session r n) = upReadyClosed n"
  "downReadyClosed (teardown_session r n) = downReadyClosed n" "chanSeq (teardown_session r n) = chanSeq n"
  "consumers (teardown_session r n) = consumers n" "relays (teardown_session r n) = relays n"
  "closed_conns (teardown_session r n) = closed_conns n"
  by (simp_all add: teardown_session_def Let_def)

lemma close_session_frame [simp]:
  "n_cfg (close_session r rsn n) = n_cfg n" "n_buf (close_session r rsn n) = n_buf n"
  "ctx_done (close_session r rsn n) = ctx_done n" "upReg (close_session r rsn n) = upReg n"
  "downReg (close_session r rsn n) = downReg n" "lostMap (close_session r rsn n) = lostMap n"
  "genSeq (close_session r rsn n) = genSeq n" "streamSeq (close_session r rsn n) = streamSeq n"
  "upReady (close_session r rsn n) = upReady n" "downReady (close_session r rsn n) = downReady n"
  "upReadyClosed (close_session r rsn n) = upReadyClosed n"
  "downReadyClosed (close_session r rsn n) = downReadyClosed n" "chanSeq (close_session r rsn n) = chanSeq n"
  "consumers (close_session r rsn n) = consumers n" "relays (close_session r rsn n) = relays n"
  "closed_conns (close_session r rsn n) = closed_conns n"
  by (simp_all add: close_session_def Let_def split: prod.splits)

lemma mark_dir_closed_frame [simp]:
  "n_cfg (mark_dir_closed r dir rsn n) = n_cfg n" "n_buf (mark_dir_closed r dir rsn n) = n_buf n"
  "ctx_done (mark_dir_closed r dir rsn n) = ctx_done n" "upReg (mark_dir_closed r dir rsn n) = upReg n"
  "downReg (mark_dir_closed r dir rsn n) = downReg n" "lostMap (mark_dir_closed r dir rsn n) = lostMap n"
  "genSeq (mark_dir_closed r dir rsn n) = genSeq n" "streamSeq (mark_dir_closed r dir rsn n) = streamSeq n"
  "upReady (mark_dir_closed r dir rsn n) = upReady n" "downReady (mark_dir_closed r dir rsn n) = downReady n"
  "upReadyClosed (mark_dir_closed r dir rsn n) = upReadyClosed n"
  "downReadyClosed (mark_dir_closed r dir rsn n) = downReadyClosed n"
  "chanSeq (mark_dir_closed r dir rsn n) = chanSeq n" "consumers (mark_dir_closed r dir rsn n) = consumers n"
  "relays (mark_dir_closed r dir rsn n) = relays n" "closed_conns (mark_dir_closed r dir rsn n) = closed_conns n"
  by (simp_all add: mark_dir_closed_def Let_def split: prod.splits)

section \<open>The close path\<close>

lemma Deregister_idem [simp]: "Deregister i (Deregister i c) = Deregister i c"
  by (simp add: Deregister_def)

lemma deregister_all_hnd [simp]:
  "length (hnd (deregister_all hs i n)) = length (hnd n)" "h_gen (hnd (deregister_all hs i n) ! x) = h_gen (hnd n ! x)"
  "h_id (hnd (deregister_all hs i n) ! x) = h_id (hnd n ! x)" "h_dir (hnd (deregister_all hs i n) ! x) = h_dir (hnd n ! x)"
  by (induction hs i n rule: deregister_all.induct) simp_all

lemma carrier_deregister_all:
  "carrier_of (deregister_all hs i n) x =
     (if Some x \<in> set hs \<and> x < length (hnd n) then Deregister i (carrier_of n x) else carrier_of n x)"
  by (induction hs i n rule: deregister_all.induct) (auto simp: deregister_def carrier_upd)

lemma release_streams_hnd [simp]:
  "length (hnd (release_streams r n)) = length (hnd n)" "h_gen (hnd (release_streams r n) ! x) = h_gen (hnd n ! x)"
  "h_id (hnd (release_streams r n) ! x) = h_id (hnd n ! x)" "h_dir (hnd (release_streams r n) ! x) = h_dir (hnd n ! x)"
  by (simp_all add: release_streams_def Let_def)

lemma sess_release [simp]: "sess (release_streams r n) = sess n" "att_of (release_streams r n) = att_of n"
  by (simp_all add: fun_eq_iff sess_def att_of_def)

text \<open>The session a report leaves behind differs at most in its reason.\<close>

lemma report_close_ses [simp]:
  "length (ses (report_close r n)) = length (ses n)" "so_id (ses (report_close r n) ! q) = so_id (ses n ! q)"
  "so_stats (ses (report_close r n) ! q) = so_stats (ses n ! q)"
  "ses_state (sess (report_close r n) q) = ses_state (sess n q)" "once_done (sess (report_close r n) q) = once_done (sess n q)"
  "onClose (sess (report_close r n) q) = onClose (sess n q)" "DirClosed d (sess (report_close r n) q) = DirClosed d (sess n q)"
  "StreamIDUp (sess (report_close r n) q) = StreamIDUp (sess n q)" "StreamIDDown (sess (report_close r n) q) = StreamIDDown (sess n q)"
  "att_of (report_close r n) q d = att_of n q d"
  by (auto simp: report_close_def noteStreamOutcome_def Let_def sess_upd_sess att_of_def Att_def SetOverflowReason_def
      SetDataUndeliverableReason_def DirClosed_def split: option.splits)

lemma report_close_others: "q \<noteq> r \<Longrightarrow> sess (report_close r n) q = sess n q"
  by (auto simp: report_close_def noteStreamOutcome_def Let_def sess_upd_sess split: option.splits)

text \<open>A closed session has both attachments closed, so the report finds no generation.\<close>

definition atts_ok :: "Node \<Rightarrow> bool" where
  "atts_ok n \<longleftrightarrow> (\<forall>r < length (ses n). \<forall>d a. att_of n r d = Some a \<longrightarrow> att_inv a)"

lemma teardown_atts:
  assumes "\<not> once_done s"
  shows "Att d (teardown s) = map_option att_Close (Att d s)"
  using assms
  by (auto simp: teardown_def Let_def ResolveBootstrap_def close_conn_opt_def close_att_def Att_def split: option.splits)

lemma att_Close_gen: "att_inv a \<Longrightarrow> att_gen (att_Close a) = 0"
  by (auto simp: att_inv_def att_Close_def fresh_ready_def stopTimer_def split: option.splits)

lemma report_close_policy: "downCarrierGenForSession r n = 0 \<Longrightarrow> n_policy (report_close r n) = n_policy n"
  by (simp add: report_close_def Let_def)

lemma closed_generation:
  assumes "r < length (ses n)" and "\<not> once_done (sess n r)" and "\<forall>a. att_of n r DirDown = Some a \<longrightarrow> att_inv a"
  shows "downCarrierGenForSession r (release_streams r (upd_sess r teardown n)) = 0"
proof -
  have "DownAtt (teardown (sess n r)) = map_option att_Close (DownAtt (sess n r))"
    using teardown_atts [OF assms(2), of DirDown] by (simp add: Att_def)
  then show ?thesis
    using assms att_Close_gen
    by (auto simp: downCarrierGenForSession_def sess_upd_sess att_of_def Att_def split: option.splits)
qed

lemma teardown_session_policy:
  assumes "r < length (ses n)" and "\<forall>a. att_of n r DirDown = Some a \<longrightarrow> att_inv a"
  shows "n_policy (teardown_session r n) = n_policy n"
  using assms report_close_policy [OF closed_generation [OF assms(1) _ assms(2)]]
  by (simp add: teardown_session_def Let_def onSessionClosed_def)

lemma att_Close_inv: "att_inv a \<Longrightarrow> att_inv (att_Close a)"
  by (auto simp: att_inv_def att_Close_def fresh_ready_def stopTimer_def split: option.splits)

lemma Close_begin_att [simp]: "Att d (snd (Close_begin rsn s)) = Att d s"
  by (simp add: Close_begin_def Let_def Att_def)

lemma MarkDirClosed_begin_att:
  "Att d (snd (MarkDirClosed_begin dir rsn s)) = Att d s \<or> Att d (snd (MarkDirClosed_begin dir rsn s)) = map_option att_Close (Att d s)"
  by (auto simp: MarkDirClosed_begin_def close_att_def Let_def Att_def)

lemma close_session_policy:
  assumes "r < length (ses n)" and "atts_ok n"
  shows "n_policy (close_session r rsn n) = n_policy n" "n_policy (mark_dir_closed r dir rsn n) = n_policy n"
proof -
  have "\<forall>a. att_of n r DirDown = Some a \<longrightarrow> att_inv a" using assms by (auto simp: atts_ok_def)
  then have
    "\<forall>a. att_of (upd_sess r (\<lambda>_. snd (Close_begin rsn (sess n r))) n) r DirDown = Some a \<longrightarrow> att_inv a"
    "\<forall>a. att_of (upd_sess r (\<lambda>_. snd (MarkDirClosed_begin dir rsn (sess n r))) n) r DirDown = Some a \<longrightarrow> att_inv a"
    using assms(1) MarkDirClosed_begin_att [of DirDown dir rsn "sess n r"] att_Close_inv
    by (auto simp: att_of_def sess_upd_sess)
  then show "n_policy (close_session r rsn n) = n_policy n" "n_policy (mark_dir_closed r dir rsn n) = n_policy n"
    using assms(1) by (simp_all add: close_session_def mark_dir_closed_def Let_def teardown_session_policy split: prod.splits)
qed

lemma gauge_report:
  "cnt (n_metrics (report_close r n)) activeSessions = cnt (n_metrics n) activeSessions - 1"
  by (simp add: report_close_def noteStreamOutcome_def Let_def metric_def metric_defs bump_def split: option.splits)

lemma teardown_closes_state: "\<not> once_done s \<Longrightarrow> ses_state (teardown s) = StateClosed \<and> once_done (teardown s)"
  by (simp add: teardown_def Let_def ResolveBootstrap_def close_conn_opt_def close_att_def split: option.splits)

lemma teardown_ids [simp]:
  "StreamIDUp (teardown s) = StreamIDUp s" "StreamIDDown (teardown s) = StreamIDDown s"
  "onClose (teardown s) = onClose s" "DirClosed d (teardown s) = DirClosed d s" "reason (teardown s) = reason s"
  by (simp_all add: teardown_def Let_def ResolveBootstrap_def close_conn_opt_def close_att_def DirClosed_def split: option.splits)

lemma forget_credit_recs:
  "recs (forget_credit hs i e) k = (if snd k = i \<and> Some (fst k) \<in> set hs then None else recs e k)"
  by (induction hs i e rule: forget_credit.induct) (auto simp: emitter_removeStream_def)

text \<open>What \<open>release_streams\<close> removes.\<close>

lemma release_carrier:
  "carrier_of (release_streams r n) x =
     (let c = carrier_of n x; u = StreamIDUp (sess n r); d = StreamIDDown (sess n r);
          c1 = (if u \<noteq> 0 \<and> Some x \<in> set (Handles (upReg n)) \<and> x < length (hnd n) then Deregister u c else c)
      in if d \<noteq> 0 \<and> Some x \<in> set (Handles (downReg n)) \<and> x < length (hnd n) then Deregister d c1 else c1)"
proof -
  have "carrier_of (release_streams r n) x =
      carrier_of (let u = StreamIDUp (sess n r); d = StreamIDDown (sess n r);
        n1 = (if u \<noteq> 0 then deregister_all (Handles (upReg n)) u n else n)
        in if d \<noteq> 0 then deregister_all (Handles (downReg n)) d n1 else n1) x"
    by (simp add: release_streams_def Let_def carrier_of_def)
  then show ?thesis by (simp add: carrier_deregister_all Let_def)
qed

lemma release_store: "n_store (release_streams r n) = store_Remove (sess n) (so_id (ses n ! r)) (n_store n)"
  by (simp add: release_streams_def Let_def)

lemma release_gate:
  "n_gate (release_streams r n) =
     (if StreamIDDown (sess n r) \<noteq> 0 then map_option (gate_removeStream (StreamIDDown (sess n r))) (n_gate n) else n_gate n)"
  by (simp add: release_streams_def Let_def upd_gate_def)

lemma release_emitter:
  "n_emitter (release_streams r n) =
     (if StreamIDDown (sess n r) \<noteq> 0
      then map_option (forget_credit (Handles (downReg n)) (StreamIDDown (sess n r))) (n_emitter n) else n_emitter n)"
  by (simp add: release_streams_def Let_def upd_emitter_def)

text \<open>The call of \<open>Close\<close> on a session that has not begun to close, as its parts.\<close>

lemma close_session_live:
  assumes "r < length (ses n)" and "ses_state (sess n r) = StatePending \<or> ses_state (sess n r) = StateActive"
    and "\<not> once_done (sess n r)" and "0 \<in> set (onClose (sess n r))"
  shows "\<exists>s. close_session r rsn n = report_close r (release_streams r (upd_sess r (\<lambda>_. teardown s) n)) \<and>
     \<not> once_done s \<and> s = snd (Close_begin rsn (sess n r)) \<and> StreamIDUp s = StreamIDUp (sess n r) \<and>
     StreamIDDown s = StreamIDDown (sess n r)"
proof -
  obtain s where eq: "Close_begin rsn (sess n r) = (True, s)"
    using assms(2) by (auto simp: Close_begin_def Let_def)
  then have b: "once_done s = once_done (sess n r)" "onClose s = onClose (sess n r)"
    "StreamIDUp s = StreamIDUp (sess n r)" "StreamIDDown s = StreamIDDown (sess n r)"
    by (auto simp: Close_begin_def Let_def split: if_splits)
  have "upd_sess r teardown (upd_sess r (\<lambda>_. s) n) = upd_sess r (\<lambda>_. teardown s) n"
    using assms(1) by (simp add: upd_sess_def sess_def)
  then have "close_session r rsn n = report_close r (release_streams r (upd_sess r (\<lambda>_. teardown s) n))"
    using b assms by (simp add: close_session_def eq teardown_session_def onSessionClosed_def Let_def sess_upd_sess)
  then show ?thesis using b assms(3) eq by (intro exI [of _ s]) simp
qed

definition unregistered :: "Node \<Rightarrow> Direction \<Rightarrow> u32 \<Rightarrow> bool" where
  "unregistered n dir i \<longleftrightarrow>
     list_all (\<lambda>x. case x of None \<Rightarrow> True | Some h \<Rightarrow> h < length (hnd n) \<longrightarrow> streams (carrier_of n h) i = None)
       (Handles (reg_of dir n))"

definition credit_free :: "Node \<Rightarrow> u32 \<Rightarrow> bool" where
  "credit_free n i \<longleftrightarrow>
     (case n_gate n of None \<Rightarrow> True | Some g \<Rightarrow> ledgers g i = None \<and> timers g i = None) \<and>
     (case n_emitter n of None \<Rightarrow> True
      | Some e \<Rightarrow> list_all (\<lambda>x. case x of None \<Rightarrow> True | Some h \<Rightarrow> recs e (h, i) = None) (Handles (downReg n)))"

lemma close_session_releases:
  assumes "r < length (ses n)" and "ses_state (sess n r) = StatePending \<or> ses_state (sess n r) = StateActive"
    and "\<not> once_done (sess n r)" and "0 \<in> set (onClose (sess n r))"
    and "st_sessions (n_store n) (so_id (ses n ! r)) = Some r"
    and "StreamIDUp (sess n r) \<noteq> 0" and "StreamIDDown (sess n r) \<noteq> 0"
  shows "let n' = close_session r rsn n in
     ses_state (sess n' r) = StateClosed \<and> (\<forall>d a. att_of n' r d = Some a \<longrightarrow> att_state a = AttClosed) \<and>
     unregistered n' DirUp (StreamIDUp (sess n r)) \<and> unregistered n' DirDown (StreamIDDown (sess n r)) \<and>
     credit_free n' (StreamIDDown (sess n r)) \<and>
     st_sessions (n_store n') (so_id (ses n ! r)) = None \<and>
     st_streams (n_store n') (StreamIDUp (sess n r)) = None \<and> st_streams (n_store n') (StreamIDDown (sess n r)) = None \<and>
     cnt (n_metrics n') activeSessions = cnt (n_metrics n) activeSessions - 1 \<and>
     (\<forall>q. q \<noteq> r \<longrightarrow> sess n' q = sess n q)"
proof -
  define n' where "n' = close_session r rsn n"
  obtain s where eq: "n' = report_close r (release_streams r (upd_sess r (\<lambda>_. teardown s) n))"
    and s: "\<not> once_done s" "StreamIDUp s = StreamIDUp (sess n r)" "StreamIDDown s = StreamIDDown (sess n r)"
    using close_session_live [OF assms(1-4), of rsn] n'_def by blast
  let ?m = "upd_sess r (\<lambda>_. teardown s) n"
  have sr: "sess ?m r = teardown s" using assms(1) by (simp add: sess_upd_sess)
  have cr: "carrier_of n' = carrier_of (release_streams r ?m)" by (simp add: eq carrier_of_def fun_eq_iff)
  have regs: "upReg n' = upReg n" "downReg n' = downReg n" by (simp_all add: eq)
  have hl: "length (hnd n') = length (hnd n)" by (simp add: eq)
  have "ses_state (sess n' r) = StateClosed" using teardown_closes_state [OF s(1)] sr by (simp add: eq)
  moreover have "\<forall>d a. att_of n' r d = Some a \<longrightarrow> att_state a = AttClosed"
    using teardown_atts [OF s(1)] sr by (auto simp: eq att_of_def [of ?m])
  moreover have "unregistered n' DirUp (StreamIDUp (sess n r))" "unregistered n' DirDown (StreamIDDown (sess n r))"
    using assms(6,7) s by (auto simp: unregistered_def regs hl cr list_all_iff release_carrier sr Let_def Deregister_def reg_of_def
        split: option.splits)
  moreover have "credit_free n' (StreamIDDown (sess n r))"
    using assms(7) s by (auto simp: credit_free_def eq release_gate release_emitter sr gate_removeStream_def
        forget_credit_recs list_all_iff split: option.splits)
  moreover have "n_store n' = store_Remove (sess ?m) (so_id (ses n ! r)) (n_store n)"
    by (simp add: eq release_store)
  then have "st_sessions (n_store n') (so_id (ses n ! r)) = None \<and>
     st_streams (n_store n') (StreamIDUp (sess n r)) = None \<and> st_streams (n_store n') (StreamIDDown (sess n r)) = None"
    using assms(5-7) sr s by (simp add: store_Remove_def removeStreamsLocked_def Let_def)
  moreover have "cnt (n_metrics n') activeSessions = cnt (n_metrics n) activeSessions - 1"
    by (simp add: eq gauge_report)
  moreover have "\<forall>q. q \<noteq> r \<longrightarrow> sess n' q = sess n q" by (simp add: eq report_close_others sess_upd_sess)
  ultimately show ?thesis unfolding Let_def n'_def [symmetric] by blast
qed


text \<open>A node with one active session, for the examples.\<close>

definition demo_cfg :: "Role \<Rightarrow> CarrierID list \<Rightarrow> Config" where
  "demo_cfg role ids = \<lparr>cfg_Role = role, Grace = 0, BufferBytes = 0, SessionBufferTotalBytes = 0, RelayBufSize = 0,
     KeepAliveInterval = 0, LivenessRounds = 0, BootstrapWait = 0,
     cfg_StreamLimits = \<lparr>MaxFramesPerStream = 0, MaxBytesPerStream = 0, MaxBytesTotal = 0, OverflowWait = 0, ConsumerStall = 0\<rparr>,
     CreditsEnabled = True, TargetOnlyIPv4 = False, TargetAddrPolicy = '''', TargetDial = None, DownCarrierIDs = ids,
     PolicyCfg = PolicyConfigDefaults, TCPKeepAliveMs = 0\<rparr>"

definition demo_node :: "Role \<Rightarrow> CarrierID list \<Rightarrow> Node" where
  "demo_node role ids = projr (NewNode (demo_cfg role ids))"

definition demo_live :: Node where
  "demo_live = (demo_node RoleIran [])\<lparr>ses := [\<lparr>so_ses = (OnClose 0 (node_session None None 5))\<lparr>ses_state := StateActive\<rparr>,
     so_id = replicate 16 7, so_stats = new_stats 1\<rparr>],
     n_store := \<lparr>st_sessions = [replicate 16 7 \<mapsto> 0], st_streams = [5 \<mapsto> 0]\<rparr>\<rparr>"


end
