(* ===== verification/Recovery.thy ===== *)
theory Recovery
  imports Lifecycle
begin

text \<open>
  Carrier loss and recovery (\<^verbatim>\<open>src/pkg/node/node.go\<close>): the loss sweep, the rebind sweep of the Iran
  node, the answer of the Germany node, resets, and the node's shutdown.

  A sweep iterates over a snapshot of the store; the order of the snapshot is the argument \<open>rs\<close>. The
  rebind of one session is \<open>rebind_claim\<close> (up to the write of the rebind frame) and \<open>rebind_attach\<close>;
  other goroutines may run between them. \<open>werr r\<close> is the answer of the network to the write for session
  \<open>r\<close>. \<open>handleRebind\<close> is given what its channel receive returned: \<open>None\<close> for a closed channel, \<open>Some
  None\<close> for nil.
\<close>

section \<open>Loss\<close>

definition in_store :: "Node \<Rightarrow> nat \<Rightarrow> bool" where
  "in_store n r \<longleftrightarrow> st_sessions (n_store n) (so_id (ses n ! r)) = Some r"

definition Snapshot :: "Node \<Rightarrow> nat list" where
  "Snapshot n = filter (in_store n) [0..<length (ses n)]"

text \<open>The locked section and the counters.\<close>

definition carrier_lost_locked :: "Direction \<Rightarrow> nat \<Rightarrow> Node \<Rightarrow> Node" where
  "carrier_lost_locked dir h n =
     (let cid = h_id (hnd n ! h);
          n1 = dropIfCurrent dir h (n\<lparr>lostMap := (lostMap n)(cid := True)\<rparr>)
      in if \<not> registry_Ready (ready_of n1) (reg_of dir n1) then renew_ready dir n1 else n1)"

definition carrier_lost_count :: "Direction \<Rightarrow> nat \<Rightarrow> int \<Rightarrow> Node \<Rightarrow> Node" where
  "carrier_lost_count dir h now n =
     (let cid = h_id (hnd n ! h); n1 = metric (CarrierLossEventOn cid) (metric CarrierLossEvent n)
      in if dir = DirDown then noteCarrierLoss cid now n1 else n1)"

fun detach_sweep :: "Direction \<Rightarrow> u64 \<Rightarrow> nat list \<Rightarrow> Node \<Rightarrow> Node" where
  "detach_sweep dir g [] n = n"
| "detach_sweep dir g (r # rs) n = detach_sweep dir g rs (upd_att r dir (\<lambda>a. snd (Detach g a)) n)"

section \<open>Rebind sweep\<close>

definition encodeRebind :: "bytes \<Rightarrow> nat \<Rightarrow> Node \<Rightarrow> bytes" where
  "encodeRebind sid h n =
     (if multiDown n then EncodeRebindV2 sid (h_id (hnd n ! h)) (h_gen (hnd n ! h))
      else EncodeRebind sid (h_gen (hnd n ! h)))"

definition hasChannelConsumer :: "Direction \<Rightarrow> Node \<Rightarrow> bool" where
  "hasChannelConsumer dir n \<longleftrightarrow> cfg_Role (n_cfg n) = RoleIran \<or> dir = DirUp"

definition startChannelConsumer :: "nat \<Rightarrow> Direction \<Rightarrow> nat \<Rightarrow> Node \<Rightarrow> Node" where
  "startChannelConsumer r dir h n =
     upd_att r dir (SetEpochDone (Some (length (consumers n)))) (n\<lparr>consumers := consumers n @ [(r, dir, h)]\<rparr>)"

definition failRebind :: "nat \<Rightarrow> Direction \<Rightarrow> Node \<Rightarrow> Node" where
  "failRebind r dir n = metric (RebindRefusal ''other'') (upd_att r dir (\<lambda>a. snd (FailRebind a)) n)"

text \<open>Whether the sweep takes the session's direction up, with the detach of a direction that is still
  attached to another carrier.\<close>

definition rebind_prepare :: "Direction \<Rightarrow> nat \<Rightarrow> nat \<Rightarrow> Node \<Rightarrow> bool \<times> Node" where
  "rebind_prepare dir h r n =
     (if ses_state (sess n r) \<noteq> StateActive then (False, n)
      else (case att_of n r dir of
              None \<Rightarrow> (False, n)
            | Some a \<Rightarrow>
                if DirClosed dir (sess n r) then (False, n)
                else if att_state a = AttAttached
                then (if att_gen a = h_gen (hnd n ! h) then (False, n)
                      else (True, upd_att r dir (\<lambda>a. snd (Detach (att_gen a) a)) n))
                else (att_state a = AttUnavailable, n)))"

text \<open>The claim: \<open>BeginRebind\<close>, the stream registration and the rebind frame.\<close>

definition rebind_claim :: "Direction \<Rightarrow> nat \<Rightarrow> mux_error option \<Rightarrow> nat \<Rightarrow> Node \<Rightarrow> bool \<times> Node" where
  "rebind_claim dir h werr r n0 =
     (let n = snd (rebind_prepare dir h r n0)
      in if \<not> fst (rebind_prepare dir h r n0) then (False, n)
         else (case att_of n r dir of
                 None \<Rightarrow> (False, n)
               | Some a \<Rightarrow>
                   if \<not> fst (BeginRebind a) then (False, n)
                   else (let n1 = upd_att r dir (\<lambda>a. snd (BeginRebind a)) n;
                             sid = streamIDOf (sess n1 r) dir;
                             n2 = snd (register h sid n1);
                             wr = carrier_WriteFrame h sid FrameRebind (encodeRebind (so_id (ses n2 ! r)) h n2) werr n2
                         in if fst (register h sid n1) = None then (False, failRebind r dir n2)
                            else if fst wr \<noteq> None then (False, failRebind r dir (deregister h sid (snd wr)))
                            else (True, snd wr))))"

text \<open>The credit plane of a re-attached down stream.\<close>

definition rebind_credit :: "nat \<Rightarrow> u32 \<Rightarrow> u64 \<Rightarrow> int \<Rightarrow> Node \<Rightarrow> Node" where
  "rebind_credit h sid peer now n =
     (let n1 = upd_gate (gate_resetStream (h_gen (hnd n ! h)) sid) n
      in upd_emitter (\<lambda>e. recordPeerGen now (h, sid) peer (emitter_resetStream (h, sid) e)) n1)"

definition rebind_attach :: "Direction \<Rightarrow> nat \<Rightarrow> int \<Rightarrow> nat \<Rightarrow> Node \<Rightarrow> bool \<times> Node" where
  "rebind_attach dir h now r n =
     (case att_of n r dir of
        None \<Rightarrow> (False, n)
      | Some a \<Rightarrow>
          (let g = h_gen (hnd n ! h); sid = streamIDOf (sess n r) dir
           in if \<not> fst (Attach g a)
              then (False, metric (RebindRefusal ''other'') (upd_att r dir (\<lambda>a. snd (FailRebind a)) (deregister h sid n)))
              else (let n1 = upd_att r dir (\<lambda>a. SetLastRebindGen g (snd (Attach g a))) n;
                        n2 = (if dir = DirDown then rebind_credit h sid g now n1 else n1);
                        n3 = (if hasChannelConsumer dir n2 then startChannelConsumer r dir h n2 else n2);
                        n4 = metric SessionRecovered (metric metric_Rebind n3)
                    in (True, if dir = DirDown then noteRebind (h_id (hnd n ! h)) n4 else n4))))"

definition rebind_one :: "Direction \<Rightarrow> nat \<Rightarrow> mux_error option \<Rightarrow> int \<Rightarrow> nat \<Rightarrow> Node \<Rightarrow> bool \<times> Node" where
  "rebind_one dir h werr now r n =
     (let cl = rebind_claim dir h werr r n
      in if fst cl then rebind_attach dir h now r (snd cl) else (False, snd cl))"

fun rebind_sweep ::
    "Direction \<Rightarrow> nat \<Rightarrow> (nat \<Rightarrow> mux_error option) \<Rightarrow> int \<Rightarrow> nat list \<Rightarrow> Node \<Rightarrow> nat \<times> Node" where
  "rebind_sweep dir h werr now [] n = (0, n)"
| "rebind_sweep dir h werr now (r # rs) n =
     (if ctx_done n then (0, n)
      else (let one = rebind_one dir h (werr r) now r n; rest = rebind_sweep dir h werr now rs (snd one)
            in (if fst one then fst rest + 1 else fst rest, snd rest)))"

definition rebindDirection ::
    "Direction \<Rightarrow> nat \<Rightarrow> (nat \<Rightarrow> mux_error option) \<Rightarrow> int \<Rightarrow> nat list \<Rightarrow> Node \<Rightarrow> bool \<times> Node" where
  "rebindDirection dir h werr now rs n = (fst (rebind_sweep dir h werr now rs n) > 0, snd (rebind_sweep dir h werr now rs n))"

definition onCarrierReady ::
    "Direction \<Rightarrow> nat \<Rightarrow> (nat \<Rightarrow> mux_error option) \<Rightarrow> int \<Rightarrow> nat list \<Rightarrow> Node \<Rightarrow> Node" where
  "onCarrierReady dir h werr now rs n =
     (if cfg_Role (n_cfg n) \<noteq> RoleIran then n else snd (rebindDirection dir h werr now rs n))"

text \<open>Fail-over: the surviving carriers in order, until one recovers a session.\<close>

fun fail_over ::
    "Direction \<Rightarrow> (nat \<Rightarrow> mux_error option) \<Rightarrow> int \<Rightarrow> nat list \<Rightarrow> nat list \<Rightarrow> Node \<Rightarrow> Node" where
  "fail_over dir werr now rs [] n = n"
| "fail_over dir werr now rs (h # hs) n =
     (let rb = rebindDirection dir h werr now rs n
      in if fst rb then snd rb else fail_over dir werr now rs hs (snd rb))"

definition onCarrierLost ::
    "Direction \<Rightarrow> nat \<Rightarrow> (nat \<Rightarrow> mux_error option) \<Rightarrow> int \<Rightarrow> nat list \<Rightarrow> Node \<Rightarrow> Node" where
  "onCarrierLost dir h werr now rs n =
     (let n1 = detach_sweep dir (h_gen (hnd n ! h)) rs (carrier_lost_count dir h now (carrier_lost_locked dir h n))
      in if cfg_Role (n_cfg n) = RoleIran
         then fail_over dir werr now rs (ReadyExcept (ready_of n1) (h_id (hnd n ! h)) (reg_of dir n1)) n1
         else n1)"

text \<open>The tail of the carrier's goroutine, once \<open>Dispatch\<close> has returned.\<close>

definition carrier_goroutine_end ::
    "Direction \<Rightarrow> nat \<Rightarrow> (nat \<Rightarrow> mux_error option) \<Rightarrow> int \<Rightarrow> nat list \<Rightarrow> Node \<Rightarrow> Node" where
  "carrier_goroutine_end dir h werr now rs n =
     (let n1 = onCarrierLost dir h werr now rs (upd_handle h (\<lambda>x. x\<lparr>h_done := True\<rparr>) n);
          n2 = upd_carrier h carrier_Close (upd_handle h (\<lambda>x. x\<lparr>h_lost := True\<rparr>) n1)
      in dropIfCurrent dir h n2)"

section \<open>Resets\<close>

definition resetReasonName :: "byte \<Rightarrow> string" where
  "resetReasonName rsn =
     (if rsn = ResetReasonUnknownStream then ''unknown_stream''
      else if rsn = ResetReasonSessionClosed then ''session_closed''
      else if rsn = ResetReasonRebindRefused then ''rebind_refused''
      else if rsn = ResetReasonTargetDialFailed then ''target_dial_failed'' else ''unknown'')"

definition handleStreamReset :: "Direction \<Rightarrow> u32 \<Rightarrow> byte \<Rightarrow> u64 \<Rightarrow> Node \<Rightarrow> Node" where
  "handleStreamReset dir sid rsn gen n0 =
     (let n = metric ResetReceived n0
      in (case GetByStream sid (n_store n) of
            None \<Rightarrow> n
          | Some r \<Rightarrow>
              if ses_state (sess n r) \<noteq> StateActive then n
              else if gen > 0 \<and> (case att_of n r dir of None \<Rightarrow> False | Some a \<Rightarrow> lastRebindGen a > gen)
              then metric (RebindRefusal ''stale_generation'') n
              else close_session r (''peer reset ('' @ resetReasonName rsn @ '')'') n))"

section \<open>Answering a rebind\<close>

datatype rebind_drop =
    DropMalformed | DropCarrierMismatch | DropNoSession | DropHalfClosed | DropNoAttachment | DropStale
  | DropAlready | DropNotAwaiting | DropAttachFailed

text \<open>The label of the counter and the reason of the reset frame; 0 is no reset.\<close>

primrec drop_label :: "rebind_drop \<Rightarrow> string" where
  "drop_label DropMalformed = ''other''"
| "drop_label DropCarrierMismatch = ''other''"
| "drop_label DropNoSession = ''unknown_peer''"
| "drop_label DropHalfClosed = ''other''"
| "drop_label DropNoAttachment = ''other''"
| "drop_label DropStale = ''stale_generation''"
| "drop_label DropAlready = ''other''"
| "drop_label DropNotAwaiting = ''other''"
| "drop_label DropAttachFailed = ''stale_generation''"

primrec drop_reset :: "rebind_drop \<Rightarrow> byte" where
  "drop_reset DropMalformed = 0"
| "drop_reset DropCarrierMismatch = 0"
| "drop_reset DropNoSession = ResetReasonUnknownStream"
| "drop_reset DropHalfClosed = ResetReasonSessionClosed"
| "drop_reset DropNoAttachment = ResetReasonSessionClosed"
| "drop_reset DropStale = ResetReasonRebindRefused"
| "drop_reset DropAlready = 0"
| "drop_reset DropNotAwaiting = 0"
| "drop_reset DropAttachFailed = ResetReasonRebindRefused"

definition drop_rebind :: "nat \<Rightarrow> u32 \<Rightarrow> u64 \<Rightarrow> rebind_drop \<Rightarrow> Node \<Rightarrow> Node" where
  "drop_rebind h sid gen why n =
     (let n1 = metric (RebindRefusal (drop_label why)) n;
          n2 = (if drop_reset why \<noteq> 0
                then control_frame h sid FrameReset (EncodeResetPayload (drop_reset why) gen) n1 else n1)
      in deregister h sid n2)"

text \<open>The checks up to the point where the direction waits for a carrier: the session and the node
  with the direction detached, or the reason to drop.\<close>

definition rebind_check ::
    "Direction \<Rightarrow> nat \<Rightarrow> u32 \<Rightarrow> Rebind \<Rightarrow> Node \<Rightarrow> (u64 \<times> rebind_drop) + (nat \<times> Node)" where
  "rebind_check dir h sid rb n =
     (if rbVersion rb = RebindVersionV2 \<and> rbCarrierID rb \<noteq> h_id (hnd n ! h) then Inl (0, DropCarrierMismatch)
      else (let gen = rbGen rb
            in (case GetByStream sid (n_store n) of
                  None \<Rightarrow> Inl (gen, DropNoSession)
                | Some r \<Rightarrow>
                    if ses_state (sess n r) \<noteq> StateActive then Inl (gen, DropNoSession)
                    else if DirClosed dir (sess n r) then Inl (gen, DropHalfClosed)
                    else (case att_of n r dir of
                            None \<Rightarrow> Inl (gen, DropNoAttachment)
                          | Some a \<Rightarrow>
                              if gen \<le> lastRebindGen a then Inl (gen, DropStale)
                              else if att_state a = AttAttached
                              then (if att_gen a = gen then Inl (gen, DropAlready)
                                    else Inr (r, upd_att r dir (\<lambda>a. snd (Detach (att_gen a) a)) n))
                              else if att_state a = AttUnavailable \<or> att_state a = AttRebinding then Inr (r, n)
                              else Inl (gen, DropNotAwaiting)))))"

definition rebind_accept :: "Direction \<Rightarrow> nat \<Rightarrow> u32 \<Rightarrow> u64 \<Rightarrow> int \<Rightarrow> nat \<Rightarrow> Node \<Rightarrow> Node" where
  "rebind_accept dir h sid gen now r n =
     (let n1 = upd_att r dir (SetLastRebindGen gen) n;
          n2 = upd_emitter (recordPeerGen now (h, sid) gen) n1;
          n3 = (if dir = DirDown then rebind_credit h sid gen now n2 else n2)
      in (case att_of n3 r dir of
            None \<Rightarrow> n3
          | Some a \<Rightarrow>
              if \<not> fst (Attach (h_gen (hnd n ! h)) a) then drop_rebind h sid gen DropAttachFailed n3
              else (let n4 = upd_att r dir (\<lambda>a. snd (Attach (h_gen (hnd n ! h)) a)) n3;
                        n5 = (if hasChannelConsumer dir n4 then startChannelConsumer r dir h n4 else n4)
                    in metric SessionRecovered (metric metric_Rebind n5))))"

definition handleRebind :: "Direction \<Rightarrow> nat \<Rightarrow> u32 \<Rightarrow> bytes option option \<Rightarrow> int \<Rightarrow> Node \<Rightarrow> Node" where
  "handleRebind dir h sid recv now n =
     (case recv of
        Some (Some p) \<Rightarrow>
          (case ParseRebindAny p of
             None \<Rightarrow> drop_rebind h sid 0 DropMalformed n
           | Some rb \<Rightarrow>
               (case rebind_check dir h sid rb n of
                  Inl (gen, why) \<Rightarrow> drop_rebind h sid gen why n
                | Inr (r, n1) \<Rightarrow> rebind_accept dir h sid (rbGen rb) now r n1))
      | _ \<Rightarrow> n)"

section \<open>Shutdown\<close>

fun close_all_sessions :: "nat list \<Rightarrow> Node \<Rightarrow> Node" where
  "close_all_sessions [] n = n"
| "close_all_sessions (r # rs) n = close_all_sessions rs (close_session r ''store: close all'' n)"

fun close_carriers :: "nat list \<Rightarrow> Node \<Rightarrow> Node" where
  "close_carriers [] n = n"
| "close_carriers (h # hs) n = close_carriers hs (upd_carrier h carrier_Close n)"

definition node_Close :: "nat list \<Rightarrow> Node \<Rightarrow> Node" where
  "node_Close rs n =
     (let n1 = close_all_sessions rs (n\<lparr>ctx_done := True\<rparr>);
          (us, u) = registry_CloseAll (upReg n1); (ds, d) = registry_CloseAll (downReg n1);
          n2 = (close_carriers (us @ ds) n1)\<lparr>upReg := u, downReg := d\<rparr>;
          (reclaimed, b) = budget_Close (n_buf n2);
          n3 = n2\<lparr>n_buf := b\<rparr>
      in if reclaimed > 0 then metric (AddSessionBufferReclaimed reclaimed) n3 else n3)"

section \<open>Frame lemmas of recovery\<close>

lemma detach_sweep_frame [simp]:
  "n_cfg (detach_sweep dir g rs n) = n_cfg n" "n_store (detach_sweep dir g rs n) = n_store n"
  "n_metrics (detach_sweep dir g rs n) = n_metrics n" "n_buf (detach_sweep dir g rs n) = n_buf n"
  "ctx_done (detach_sweep dir g rs n) = ctx_done n" "upReg (detach_sweep dir g rs n) = upReg n"
  "downReg (detach_sweep dir g rs n) = downReg n" "lostMap (detach_sweep dir g rs n) = lostMap n"
  "genSeq (detach_sweep dir g rs n) = genSeq n" "streamSeq (detach_sweep dir g rs n) = streamSeq n"
  "upReady (detach_sweep dir g rs n) = upReady n" "downReady (detach_sweep dir g rs n) = downReady n"
  "upReadyClosed (detach_sweep dir g rs n) = upReadyClosed n"
  "downReadyClosed (detach_sweep dir g rs n) = downReadyClosed n" "chanSeq (detach_sweep dir g rs n) = chanSeq n"
  "n_gate (detach_sweep dir g rs n) = n_gate n" "n_emitter (detach_sweep dir g rs n) = n_emitter n"
  "n_policy (detach_sweep dir g rs n) = n_policy n" "hnd (detach_sweep dir g rs n) = hnd n"
  "consumers (detach_sweep dir g rs n) = consumers n" "relays (detach_sweep dir g rs n) = relays n"
  "closed_conns (detach_sweep dir g rs n) = closed_conns n"
  by (induction dir g rs n rule: detach_sweep.induct) simp_all

lemma failRebind_frame [simp]:
  "n_cfg (failRebind r dir n) = n_cfg n" "n_store (failRebind r dir n) = n_store n"
  "n_buf (failRebind r dir n) = n_buf n" "ctx_done (failRebind r dir n) = ctx_done n"
  "upReg (failRebind r dir n) = upReg n" "downReg (failRebind r dir n) = downReg n"
  "lostMap (failRebind r dir n) = lostMap n" "genSeq (failRebind r dir n) = genSeq n"
  "streamSeq (failRebind r dir n) = streamSeq n" "upReady (failRebind r dir n) = upReady n"
  "downReady (failRebind r dir n) = downReady n" "upReadyClosed (failRebind r dir n) = upReadyClosed n"
  "downReadyClosed (failRebind r dir n) = downReadyClosed n" "chanSeq (failRebind r dir n) = chanSeq n"
  "n_gate (failRebind r dir n) = n_gate n" "n_emitter (failRebind r dir n) = n_emitter n"
  "n_policy (failRebind r dir n) = n_policy n" "hnd (failRebind r dir n) = hnd n"
  "consumers (failRebind r dir n) = consumers n" "relays (failRebind r dir n) = relays n"
  "closed_conns (failRebind r dir n) = closed_conns n"
  by (simp_all add: failRebind_def)

lemma startChannelConsumer_frame [simp]:
  "n_cfg (startChannelConsumer r dir h n) = n_cfg n" "n_store (startChannelConsumer r dir h n) = n_store n"
  "n_metrics (startChannelConsumer r dir h n) = n_metrics n" "n_buf (startChannelConsumer r dir h n) = n_buf n"
  "ctx_done (startChannelConsumer r dir h n) = ctx_done n" "upReg (startChannelConsumer r dir h n) = upReg n"
  "downReg (startChannelConsumer r dir h n) = downReg n" "lostMap (startChannelConsumer r dir h n) = lostMap n"
  "genSeq (startChannelConsumer r dir h n) = genSeq n" "streamSeq (startChannelConsumer r dir h n) = streamSeq n"
  "upReady (startChannelConsumer r dir h n) = upReady n" "downReady (startChannelConsumer r dir h n) = downReady n"
  "upReadyClosed (startChannelConsumer r dir h n) = upReadyClosed n"
  "downReadyClosed (startChannelConsumer r dir h n) = downReadyClosed n"
  "chanSeq (startChannelConsumer r dir h n) = chanSeq n" "n_gate (startChannelConsumer r dir h n) = n_gate n"
  "n_emitter (startChannelConsumer r dir h n) = n_emitter n" "n_policy (startChannelConsumer r dir h n) = n_policy n"
  "hnd (startChannelConsumer r dir h n) = hnd n" "relays (startChannelConsumer r dir h n) = relays n"
  "closed_conns (startChannelConsumer r dir h n) = closed_conns n"
  by (simp_all add: startChannelConsumer_def)

lemma rebind_prepare_frame [simp]:
  "n_cfg (snd (rebind_prepare dir h r n)) = n_cfg n" "n_store (snd (rebind_prepare dir h r n)) = n_store n"
  "n_metrics (snd (rebind_prepare dir h r n)) = n_metrics n" "n_buf (snd (rebind_prepare dir h r n)) = n_buf n"
  "ctx_done (snd (rebind_prepare dir h r n)) = ctx_done n" "upReg (snd (rebind_prepare dir h r n)) = upReg n"
  "downReg (snd (rebind_prepare dir h r n)) = downReg n" "lostMap (snd (rebind_prepare dir h r n)) = lostMap n"
  "genSeq (snd (rebind_prepare dir h r n)) = genSeq n" "streamSeq (snd (rebind_prepare dir h r n)) = streamSeq n"
  "upReady (snd (rebind_prepare dir h r n)) = upReady n" "downReady (snd (rebind_prepare dir h r n)) = downReady n"
  "upReadyClosed (snd (rebind_prepare dir h r n)) = upReadyClosed n"
  "downReadyClosed (snd (rebind_prepare dir h r n)) = downReadyClosed n"
  "chanSeq (snd (rebind_prepare dir h r n)) = chanSeq n" "n_gate (snd (rebind_prepare dir h r n)) = n_gate n"
  "n_emitter (snd (rebind_prepare dir h r n)) = n_emitter n" "n_policy (snd (rebind_prepare dir h r n)) = n_policy n"
  "hnd (snd (rebind_prepare dir h r n)) = hnd n" "consumers (snd (rebind_prepare dir h r n)) = consumers n"
  "relays (snd (rebind_prepare dir h r n)) = relays n"
  "closed_conns (snd (rebind_prepare dir h r n)) = closed_conns n"
  by (simp_all add: rebind_prepare_def split: option.splits)

lemma rebind_claim_frame [simp]:
  "n_cfg (snd (rebind_claim dir h werr r n)) = n_cfg n" "n_store (snd (rebind_claim dir h werr r n)) = n_store n"
  "n_buf (snd (rebind_claim dir h werr r n)) = n_buf n" "ctx_done (snd (rebind_claim dir h werr r n)) = ctx_done n"
  "upReg (snd (rebind_claim dir h werr r n)) = upReg n" "downReg (snd (rebind_claim dir h werr r n)) = downReg n"
  "lostMap (snd (rebind_claim dir h werr r n)) = lostMap n" "genSeq (snd (rebind_claim dir h werr r n)) = genSeq n"
  "streamSeq (snd (rebind_claim dir h werr r n)) = streamSeq n"
  "upReady (snd (rebind_claim dir h werr r n)) = upReady n"
  "downReady (snd (rebind_claim dir h werr r n)) = downReady n"
  "upReadyClosed (snd (rebind_claim dir h werr r n)) = upReadyClosed n"
  "downReadyClosed (snd (rebind_claim dir h werr r n)) = downReadyClosed n"
  "chanSeq (snd (rebind_claim dir h werr r n)) = chanSeq n" "n_gate (snd (rebind_claim dir h werr r n)) = n_gate n"
  "n_emitter (snd (rebind_claim dir h werr r n)) = n_emitter n"
  "n_policy (snd (rebind_claim dir h werr r n)) = n_policy n"
  "consumers (snd (rebind_claim dir h werr r n)) = consumers n"
  "relays (snd (rebind_claim dir h werr r n)) = relays n"
  "closed_conns (snd (rebind_claim dir h werr r n)) = closed_conns n"
  by (simp_all add: rebind_claim_def Let_def split: option.splits)

lemma rebind_credit_frame [simp]:
  "n_cfg (rebind_credit h i peer now n) = n_cfg n" "n_store (rebind_credit h i peer now n) = n_store n"
  "n_metrics (rebind_credit h i peer now n) = n_metrics n" "n_buf (rebind_credit h i peer now n) = n_buf n"
  "ctx_done (rebind_credit h i peer now n) = ctx_done n" "upReg (rebind_credit h i peer now n) = upReg n"
  "downReg (rebind_credit h i peer now n) = downReg n" "lostMap (rebind_credit h i peer now n) = lostMap n"
  "genSeq (rebind_credit h i peer now n) = genSeq n" "streamSeq (rebind_credit h i peer now n) = streamSeq n"
  "upReady (rebind_credit h i peer now n) = upReady n" "downReady (rebind_credit h i peer now n) = downReady n"
  "upReadyClosed (rebind_credit h i peer now n) = upReadyClosed n"
  "downReadyClosed (rebind_credit h i peer now n) = downReadyClosed n"
  "chanSeq (rebind_credit h i peer now n) = chanSeq n" "n_policy (rebind_credit h i peer now n) = n_policy n"
  "hnd (rebind_credit h i peer now n) = hnd n" "ses (rebind_credit h i peer now n) = ses n"
  "consumers (rebind_credit h i peer now n) = consumers n" "relays (rebind_credit h i peer now n) = relays n"
  "closed_conns (rebind_credit h i peer now n) = closed_conns n"
  by (simp_all add: rebind_credit_def Let_def)

lemma rebind_attach_frame [simp]:
  "n_cfg (snd (rebind_attach dir h now r n)) = n_cfg n" "n_store (snd (rebind_attach dir h now r n)) = n_store n"
  "n_buf (snd (rebind_attach dir h now r n)) = n_buf n" "ctx_done (snd (rebind_attach dir h now r n)) = ctx_done n"
  "upReg (snd (rebind_attach dir h now r n)) = upReg n" "downReg (snd (rebind_attach dir h now r n)) = downReg n"
  "lostMap (snd (rebind_attach dir h now r n)) = lostMap n" "genSeq (snd (rebind_attach dir h now r n)) = genSeq n"
  "streamSeq (snd (rebind_attach dir h now r n)) = streamSeq n"
  "upReady (snd (rebind_attach dir h now r n)) = upReady n"
  "downReady (snd (rebind_attach dir h now r n)) = downReady n"
  "upReadyClosed (snd (rebind_attach dir h now r n)) = upReadyClosed n"
  "downReadyClosed (snd (rebind_attach dir h now r n)) = downReadyClosed n"
  "chanSeq (snd (rebind_attach dir h now r n)) = chanSeq n" "relays (snd (rebind_attach dir h now r n)) = relays n"
  "closed_conns (snd (rebind_attach dir h now r n)) = closed_conns n"
  by (simp_all add: rebind_attach_def noteRebind_def Let_def split: option.splits)

lemma rebind_one_frame [simp]:
  "n_cfg (snd (rebind_one dir h werr now r n)) = n_cfg n" "n_store (snd (rebind_one dir h werr now r n)) = n_store n"
  "n_buf (snd (rebind_one dir h werr now r n)) = n_buf n"
  "ctx_done (snd (rebind_one dir h werr now r n)) = ctx_done n"
  "upReg (snd (rebind_one dir h werr now r n)) = upReg n" "downReg (snd (rebind_one dir h werr now r n)) = downReg n"
  "lostMap (snd (rebind_one dir h werr now r n)) = lostMap n"
  "genSeq (snd (rebind_one dir h werr now r n)) = genSeq n"
  "streamSeq (snd (rebind_one dir h werr now r n)) = streamSeq n"
  "upReady (snd (rebind_one dir h werr now r n)) = upReady n"
  "downReady (snd (rebind_one dir h werr now r n)) = downReady n"
  "upReadyClosed (snd (rebind_one dir h werr now r n)) = upReadyClosed n"
  "downReadyClosed (snd (rebind_one dir h werr now r n)) = downReadyClosed n"
  "chanSeq (snd (rebind_one dir h werr now r n)) = chanSeq n"
  "relays (snd (rebind_one dir h werr now r n)) = relays n"
  "closed_conns (snd (rebind_one dir h werr now r n)) = closed_conns n"
  by (simp_all add: rebind_one_def Let_def)

lemma rebind_sweep_frame [simp]:
  "n_cfg (snd (rebind_sweep dir h werr now rs n)) = n_cfg n"
  "n_store (snd (rebind_sweep dir h werr now rs n)) = n_store n"
  "n_buf (snd (rebind_sweep dir h werr now rs n)) = n_buf n"
  "ctx_done (snd (rebind_sweep dir h werr now rs n)) = ctx_done n"
  "upReg (snd (rebind_sweep dir h werr now rs n)) = upReg n"
  "downReg (snd (rebind_sweep dir h werr now rs n)) = downReg n"
  "lostMap (snd (rebind_sweep dir h werr now rs n)) = lostMap n"
  "genSeq (snd (rebind_sweep dir h werr now rs n)) = genSeq n"
  "streamSeq (snd (rebind_sweep dir h werr now rs n)) = streamSeq n"
  "upReady (snd (rebind_sweep dir h werr now rs n)) = upReady n"
  "downReady (snd (rebind_sweep dir h werr now rs n)) = downReady n"
  "upReadyClosed (snd (rebind_sweep dir h werr now rs n)) = upReadyClosed n"
  "downReadyClosed (snd (rebind_sweep dir h werr now rs n)) = downReadyClosed n"
  "chanSeq (snd (rebind_sweep dir h werr now rs n)) = chanSeq n"
  "relays (snd (rebind_sweep dir h werr now rs n)) = relays n"
  "closed_conns (snd (rebind_sweep dir h werr now rs n)) = closed_conns n"
  by (induction dir h werr now rs n rule: rebind_sweep.induct) (simp_all add: Let_def)

lemma fail_over_frame [simp]:
  "n_cfg (fail_over dir werr now rs hs n) = n_cfg n" "n_store (fail_over dir werr now rs hs n) = n_store n"
  "n_buf (fail_over dir werr now rs hs n) = n_buf n" "ctx_done (fail_over dir werr now rs hs n) = ctx_done n"
  "upReg (fail_over dir werr now rs hs n) = upReg n" "downReg (fail_over dir werr now rs hs n) = downReg n"
  "lostMap (fail_over dir werr now rs hs n) = lostMap n" "genSeq (fail_over dir werr now rs hs n) = genSeq n"
  "streamSeq (fail_over dir werr now rs hs n) = streamSeq n" "upReady (fail_over dir werr now rs hs n) = upReady n"
  "downReady (fail_over dir werr now rs hs n) = downReady n"
  "upReadyClosed (fail_over dir werr now rs hs n) = upReadyClosed n"
  "downReadyClosed (fail_over dir werr now rs hs n) = downReadyClosed n"
  "chanSeq (fail_over dir werr now rs hs n) = chanSeq n" "relays (fail_over dir werr now rs hs n) = relays n"
  "closed_conns (fail_over dir werr now rs hs n) = closed_conns n"
  by (induction dir werr now rs hs n rule: fail_over.induct) (simp_all add: Let_def rebindDirection_def)

lemma drop_rebind_frame [simp]:
  "n_cfg (drop_rebind h i g why n) = n_cfg n" "n_store (drop_rebind h i g why n) = n_store n"
  "n_buf (drop_rebind h i g why n) = n_buf n" "ctx_done (drop_rebind h i g why n) = ctx_done n"
  "upReg (drop_rebind h i g why n) = upReg n" "downReg (drop_rebind h i g why n) = downReg n"
  "lostMap (drop_rebind h i g why n) = lostMap n" "genSeq (drop_rebind h i g why n) = genSeq n"
  "streamSeq (drop_rebind h i g why n) = streamSeq n" "upReady (drop_rebind h i g why n) = upReady n"
  "downReady (drop_rebind h i g why n) = downReady n" "upReadyClosed (drop_rebind h i g why n) = upReadyClosed n"
  "downReadyClosed (drop_rebind h i g why n) = downReadyClosed n" "chanSeq (drop_rebind h i g why n) = chanSeq n"
  "n_gate (drop_rebind h i g why n) = n_gate n" "n_emitter (drop_rebind h i g why n) = n_emitter n"
  "n_policy (drop_rebind h i g why n) = n_policy n" "ses (drop_rebind h i g why n) = ses n"
  "consumers (drop_rebind h i g why n) = consumers n" "relays (drop_rebind h i g why n) = relays n"
  "closed_conns (drop_rebind h i g why n) = closed_conns n"
  by (simp_all add: drop_rebind_def Let_def)

lemma rebind_accept_frame [simp]:
  "n_cfg (rebind_accept dir h i g now r n) = n_cfg n" "n_store (rebind_accept dir h i g now r n) = n_store n"
  "n_buf (rebind_accept dir h i g now r n) = n_buf n" "ctx_done (rebind_accept dir h i g now r n) = ctx_done n"
  "upReg (rebind_accept dir h i g now r n) = upReg n" "downReg (rebind_accept dir h i g now r n) = downReg n"
  "lostMap (rebind_accept dir h i g now r n) = lostMap n" "genSeq (rebind_accept dir h i g now r n) = genSeq n"
  "streamSeq (rebind_accept dir h i g now r n) = streamSeq n" "upReady (rebind_accept dir h i g now r n) = upReady n"
  "downReady (rebind_accept dir h i g now r n) = downReady n"
  "upReadyClosed (rebind_accept dir h i g now r n) = upReadyClosed n"
  "downReadyClosed (rebind_accept dir h i g now r n) = downReadyClosed n"
  "chanSeq (rebind_accept dir h i g now r n) = chanSeq n" "n_policy (rebind_accept dir h i g now r n) = n_policy n"
  "relays (rebind_accept dir h i g now r n) = relays n"
  "closed_conns (rebind_accept dir h i g now r n) = closed_conns n"
  by (simp_all add: rebind_accept_def Let_def split: option.splits)

section \<open>Loss is isolated\<close>

lemma Detach_idem: "snd (Detach g (snd (Detach g a))) = snd (Detach g a)"
  by (auto simp: Detach_def startTimerLocked_def fresh_ready_def)

lemma detach_sweep_len [simp]: "length (ses (detach_sweep dir g rs n)) = length (ses n)"
  by (induction dir g rs n rule: detach_sweep.induct) simp_all

lemma detach_sweep_att:
  "att_of (detach_sweep dir g rs n) q d =
     (if d = dir \<and> q \<in> set rs \<and> q < length (ses n) then map_option (\<lambda>a. snd (Detach g a)) (att_of n q d) else att_of n q d)"
proof (induction dir g rs n rule: detach_sweep.induct)
  case (2 dir g r rs n)
  then show ?case by (cases "att_of n q d") (auto simp: att_upd_att Detach_idem)
qed simp

lemma detach_sweep_sess [simp]:
  "ses_state (sess (detach_sweep dir g rs n) q) = ses_state (sess n q)"
  "DirClosed d (sess (detach_sweep dir g rs n) q) = DirClosed d (sess n q)"
  by (induction dir g rs n rule: detach_sweep.induct) simp_all

lemma lost_locked_frame [simp]:
  "ses (carrier_lost_count d1 h now n) = ses n" "ses (carrier_lost_locked dir h n) = ses n"
  "hnd (carrier_lost_count d1 h now n) = hnd n" "hnd (carrier_lost_locked dir h n) = hnd n"
  "n_cfg (carrier_lost_count d1 h now n) = n_cfg n" "n_cfg (carrier_lost_locked dir h n) = n_cfg n"
  "n_store (carrier_lost_count d1 h now n) = n_store n" "n_store (carrier_lost_locked dir h n) = n_store n"
  "upReg (carrier_lost_count d1 h now n) = upReg n" "downReg (carrier_lost_count d1 h now n) = downReg n"
  by (simp_all add: carrier_lost_count_def carrier_lost_locked_def noteCarrierLoss_def dropIfCurrent_def Let_def)

lemma lost_sess [simp]:
  "att_of (carrier_lost_count d1 h now n) = att_of n" "att_of (carrier_lost_locked dir h n) = att_of n"
  "sess (carrier_lost_count d1 h now n) = sess n" "sess (carrier_lost_locked dir h n) = sess n"
  by (simp_all add: fun_eq_iff att_of_def sess_def)

lemma Detach_other: "\<not> (att_state a = AttAttached \<and> att_gen a = g) \<Longrightarrow> snd (Detach g a) = a"
  by (auto simp: Detach_def)

lemma Detach_bound:
  "att_state a = AttAttached \<Longrightarrow> att_gen a = g \<Longrightarrow>
     att_state (snd (Detach g a)) = AttUnavailable \<and> timer (snd (Detach g a)) \<noteq> None"
  by (simp add: Detach_def startTimerLocked_def fresh_ready_def)

lemma lost_registry:
  "reg_of dir (carrier_lost_locked dir h n) = ClearIf (h_id (hnd n ! h)) h (reg_of dir n)"
  "dir' \<noteq> dir \<Longrightarrow> reg_of dir' (carrier_lost_locked dir h n) = reg_of dir' n"
  by (cases dir; cases dir'; auto simp: carrier_lost_locked_def dropIfCurrent_def Let_def reg_of_def set_reg_def renew_ready_def)+


text \<open>A node with one active session bound to generation \<open>g\<close> in the down direction, and two carriers.\<close>

definition demo_att :: "u64 \<Rightarrow> Attachment" where
  "demo_att g = snd (Attach g NewAttachment)"

definition demo_bound :: "Role \<Rightarrow> u64 \<Rightarrow> Node" where
  "demo_bound role g = (demo_node role [''a'', ''b''])
     \<lparr>hnd := [new_handle 1 ''a'' DirDown (demo_cfg role [''a'', ''b'']), new_handle 2 ''b'' DirDown (demo_cfg role [''a'', ''b''])],
      genSeq := 2,
      downReg := (newDownRegistry [''a'', ''b''])\<lparr>handles := [''a'' \<mapsto> 0, ''b'' \<mapsto> 1]\<rparr>,
      ses := [\<lparr>so_ses = (OnClose 0 (node_session None (Some 3) 5))\<lparr>ses_state := StateActive, UpAtt := Some (demo_att 9), DownAtt := Some (demo_att g)\<rparr>,
               so_id = replicate 16 7, so_stats = new_stats 1\<rparr>],
      n_store := \<lparr>st_sessions = [replicate 16 7 \<mapsto> 0], st_streams = [5 \<mapsto> 0]\<rparr>\<rparr>"

lemma demo_node_role [simp]: "cfg_Role (n_cfg (demo_node role [''a'', ''b''])) = role"
  by (cases role) code_simp+

lemma demo_bound_simps [simp]:
  "cfg_Role (n_cfg (demo_bound role g)) = role" "length (ses (demo_bound role g)) = 1" "length (hnd (demo_bound role g)) = 2"
  "h_gen (hnd (demo_bound role g) ! 0) = 1" "h_gen (hnd (demo_bound role g) ! Suc 0) = 2"
  "h_id (hnd (demo_bound role g) ! 0) = ''a''" "h_id (hnd (demo_bound role g) ! Suc 0) = ''b''"
  "in_store (demo_bound role g) 0" "ses_state (sess (demo_bound role g) 0) = StateActive"
  "\<not> DirClosed d (sess (demo_bound role g) 0)" "StreamIDDown (sess (demo_bound role g) 0) = 5"
  "att_of (demo_bound role g) 0 DirDown = Some (demo_att g)" "st_streams (n_store (demo_bound role g)) = [5 \<mapsto> 0]"
  "Snapshot (demo_bound role g) = [0]"
  by (simp_all add: demo_bound_def new_handle_def in_store_def Snapshot_def sess_def att_of_def Att_def node_session_def NewSession_def
      OnClose_def DirClosed_def)

lemma demo_att_simps [simp]:
  "att_state (demo_att g) = AttAttached" "att_gen (demo_att g) = g" "lastRebindGen (demo_att g) = 0"
  by (simp_all add: demo_att_def Attach_def NewAttachment_def stopTimer_def Let_def)


section \<open>Rebinding\<close>

lemma Register_open:
  "\<not> closing c \<Longrightarrow> i \<noteq> 0 \<Longrightarrow> fst (Register i c) \<noteq> None \<and> closing (snd (Register i c)) = closing c \<and>
     streams (snd (Register i c)) i \<noteq> None \<and> ctrlOut (snd (Register i c)) = ctrlOut c"
  by (auto simp: Register_def createStreamLocked_def closing_def split: option.splits)

lemma register_open:
  assumes "h < length (hnd n)" and "\<not> closing (carrier_of n h)" and "i \<noteq> 0"
  shows "fst (register h i n) \<noteq> None" "\<not> closing (carrier_of (snd (register h i n)) h)"
    "streams (carrier_of (snd (register h i n)) h) i \<noteq> None" "h_out (hnd (snd (register h i n)) ! h) = h_out (hnd n ! h)"
proof -
  note o = Register_open [OF assms(2,3)]
  show "fst (register h i n) \<noteq> None" "\<not> closing (carrier_of (snd (register h i n)) h)"
    "streams (carrier_of (snd (register h i n)) h) i \<noteq> None"
    using o assms by (simp_all add: register_def carrier_upd)
  show "h_out (hnd (snd (register h i n)) ! h) = h_out (hnd n ! h)"
    using assms(1) by (simp add: register_def upd_carrier_def upd_handle_def)
qed

lemma write_open:
  assumes "h < length (hnd n)" and "\<not> closing (carrier_of n h)"
  shows "fst (carrier_WriteFrame h i t p None n) = None"
    "h_out (hnd (snd (carrier_WriteFrame h i t p None n)) ! h) = h_out (hnd n ! h) @ [(i, t, p)]"
    "carrier_of (snd (carrier_WriteFrame h i t p None n)) = carrier_of n"
  using assms by (auto simp: carrier_WriteFrame_def upd_handle_def carrier_of_def nth_list_update_if fun_eq_iff)

text \<open>A direction the rebind sweep may take: active, open, and not already on the carrier.\<close>

definition rebindable :: "Node \<Rightarrow> Direction \<Rightarrow> u64 \<Rightarrow> nat \<Rightarrow> bool" where
  "rebindable n dir g r \<longleftrightarrow> r < length (ses n) \<and> ses_state (sess n r) = StateActive \<and> \<not> DirClosed dir (sess n r) \<and>
     (case att_of n r dir of
        None \<Rightarrow> False
      | Some a \<Rightarrow> att_state a = AttUnavailable \<or> (att_state a = AttAttached \<and> att_gen a \<noteq> g))"

lemma rebind_prepare_ok:
  assumes "rebindable n dir (h_gen (hnd n ! h)) r"
  shows "fst (rebind_prepare dir h r n)"
    "\<exists>a. att_of (snd (rebind_prepare dir h r n)) r dir = Some a \<and> att_state a = AttUnavailable"
    "length (ses (snd (rebind_prepare dir h r n))) = length (ses n)"
    "so_id (ses (snd (rebind_prepare dir h r n)) ! q) = so_id (ses n ! q)"
    "streamIDOf (sess (snd (rebind_prepare dir h r n)) q) dir = streamIDOf (sess n q) dir"
    "carrier_of (snd (rebind_prepare dir h r n)) = carrier_of n"
  using assms
  by (auto simp: rebindable_def rebind_prepare_def att_upd_att streamIDOf_def Detach_def startTimerLocked_def fresh_ready_def
      split: option.splits)

lemma encodeRebind_cong:
  "downReg m = downReg n \<Longrightarrow> h_gen (hnd m ! h) = h_gen (hnd n ! h) \<Longrightarrow> h_id (hnd m ! h) = h_id (hnd n ! h) \<Longrightarrow>
     encodeRebind i h m = encodeRebind i h n"
  by (simp add: encodeRebind_def multiDown_def)

lemma rebind_claim_ok:
  assumes "rebindable n dir (h_gen (hnd n ! h)) r" and "h < length (hnd n)" and "\<not> closing (carrier_of n h)"
    and "streamIDOf (sess n r) dir \<noteq> 0"
  defines "m \<equiv> snd (rebind_claim dir h None r n)"
  shows "fst (rebind_claim dir h None r n)" "\<exists>a. att_of m r dir = Some a \<and> att_state a = AttRebinding"
    "length (ses m) = length (ses n)" "length (hnd m) = length (hnd n)"
    "h_out (hnd m ! h) = h_out (hnd n ! h) @ [(streamIDOf (sess n r) dir, FrameRebind, encodeRebind (so_id (ses n ! r)) h n)]"
    "streams (carrier_of m h) (streamIDOf (sess n r) dir) \<noteq> None" "h_gen (hnd m ! x) = h_gen (hnd n ! x)"
    "streamIDOf (sess m r) dir = streamIDOf (sess n r) dir" "\<not> closing (carrier_of m h)"
proof -
  let ?n1 = "snd (rebind_prepare dir h r n)"
  note p = rebind_prepare_ok [OF assms(1)]
  obtain a where a: "att_of ?n1 r dir = Some a" "att_state a = AttUnavailable" using p(2) by blast
  define n2 where "n2 = upd_att r dir (\<lambda>a. snd (BeginRebind a)) ?n1"
  define i where "i = streamIDOf (sess n r) dir"
  define n3 where "n3 = snd (register h i n2)"
  have r: "r < length (ses ?n1)" using assms(1) p(3) by (simp add: rebindable_def)
  have i2: "streamIDOf (sess n2 r) dir = i"
    using p(5) [of r] by (cases dir) (simp_all add: n2_def i_def streamIDOf_def)
  have h2: "h < length (hnd n2)" "\<not> closing (carrier_of n2 h)" "i \<noteq> 0"
    using assms(2-4) p(6) by (simp_all add: n2_def i_def)
  note reg = register_open [OF h2]
  have h3: "h < length (hnd n3)" "\<not> closing (carrier_of n3 h)" using h2 reg by (simp_all add: n3_def)
  define payload where "payload = encodeRebind (so_id (ses n ! r)) h n"
  have enc: "encodeRebind (so_id (ses n ! r)) h n3 = payload"
    unfolding payload_def by (rule encodeRebind_cong) (simp_all add: n3_def n2_def)
  have b: "fst (BeginRebind a)" using a by (simp add: BeginRebind_def)
  have ids: "so_id (ses n3 ! r) = so_id (ses n ! r)" using p(4) [of r] by (simp add: n3_def n2_def)
  have cl: "rebind_claim dir h None r n = (True, snd (carrier_WriteFrame h i FrameRebind payload None n3))"
    using p(1) reg(1) write_open(1) [OF h3, of i FrameRebind payload]
    unfolding rebind_claim_def Let_def a(1) option.case n2_def [symmetric] i2 n3_def [symmetric] ids enc
    by (simp add: b)
  note wr = write_open [OF h3, of i FrameRebind payload]
  show "fst (rebind_claim dir h None r n)" by (simp add: cl)
  have "att_of m r dir = att_of n2 r dir" by (simp add: m_def cl n3_def)
  then show "\<exists>a. att_of m r dir = Some a \<and> att_state a = AttRebinding"
    using a r by (simp add: n2_def att_upd_att BeginRebind_def)
  show "length (ses m) = length (ses n)" "length (hnd m) = length (hnd n)" using p(3) by (simp_all add: m_def cl n3_def n2_def)
  show "h_out (hnd m ! h) = h_out (hnd n ! h) @ [(streamIDOf (sess n r) dir, FrameRebind, encodeRebind (so_id (ses n ! r)) h n)]"
    using wr(2) reg(4) by (simp add: m_def cl n3_def n2_def i_def payload_def)
  show "streams (carrier_of m h) (streamIDOf (sess n r) dir) \<noteq> None"
    using wr(3) reg(3) by (simp add: m_def cl n3_def i_def)
  show "h_gen (hnd m ! x) = h_gen (hnd n ! x)" by (simp add: m_def cl n3_def n2_def)
  show "streamIDOf (sess m r) dir = streamIDOf (sess n r) dir" using i2 by (simp add: m_def cl n3_def i_def)
  show "\<not> closing (carrier_of m h)" using wr(3) reg(2) by (simp add: m_def cl n3_def)
qed

text \<open>A direction bound to a generation by a rebind that named generation \<open>p\<close>.\<close>

definition bound_to :: "Node \<Rightarrow> nat \<Rightarrow> Direction \<Rightarrow> u64 \<Rightarrow> u64 \<Rightarrow> bool" where
  "bound_to n r dir g p \<longleftrightarrow>
     (\<exists>a. att_of n r dir = Some a \<and> att_state a = AttAttached \<and> att_gen a = g \<and> lastRebindGen a = p)"

lemma Attach_waiting:
  "att_state a = AttUnavailable \<or> att_state a = AttRebinding \<Longrightarrow>
     fst (Attach g a) \<and> att_state (snd (Attach g a)) = AttAttached \<and> att_gen (snd (Attach g a)) = g \<and>
     lastRebindGen (snd (Attach g a)) = lastRebindGen a"
  by (auto simp: Attach_def stopTimer_def Let_def split: option.splits)

lemma SetEpochDone_sel [simp]:
  "att_state (SetEpochDone d a) = att_state a" "att_gen (SetEpochDone d a) = att_gen a"
  "lastRebindGen (SetEpochDone d a) = lastRebindGen a"
  by (simp_all add: SetEpochDone_def)

lemma consumer_bound: "bound_to (startChannelConsumer q d h n) r dir g p = bound_to n r dir g p"
  by (cases "att_of n r dir") (auto simp: bound_to_def startChannelConsumer_def att_upd_att)

lemma bound_to_keep:
  "bound_to (metric f n) r dir g p = bound_to n r dir g p" "bound_to (upd_policy f2 n) r dir g p = bound_to n r dir g p"
  "bound_to (rebind_credit h i pg now n) r dir g p = bound_to n r dir g p"
  by (simp_all add: bound_to_def att_of_def sess_def)

lemma credit_att [simp]: "att_of (rebind_credit h i pg now n) = att_of n"
  by (simp add: att_of_def sess_def fun_eq_iff)

lemma rebind_attach_ok:
  assumes "r < length (ses n)" and "att_of n r dir = Some a" and "att_state a = AttUnavailable \<or> att_state a = AttRebinding"
  shows "fst (rebind_attach dir h now r n)" "hnd (snd (rebind_attach dir h now r n)) = hnd n"
    "bound_to (snd (rebind_attach dir h now r n)) r dir (h_gen (hnd n ! h)) (h_gen (hnd n ! h))"
proof -
  note at = Attach_waiting [OF assms(3), of "h_gen (hnd n ! h)"]
  let ?n1 = "upd_att r dir (\<lambda>a. SetLastRebindGen (h_gen (hnd n ! h)) (snd (Attach (h_gen (hnd n ! h)) a))) n"
  have b: "bound_to ?n1 r dir (h_gen (hnd n ! h)) (h_gen (hnd n ! h))"
    using assms(1,2) at by (simp add: bound_to_def att_upd_att SetLastRebindGen_def)
  show "fst (rebind_attach dir h now r n)" "hnd (snd (rebind_attach dir h now r n)) = hnd n"
    "bound_to (snd (rebind_attach dir h now r n)) r dir (h_gen (hnd n ! h)) (h_gen (hnd n ! h))"
    using assms(2) at b
    by (auto simp: rebind_attach_def Let_def noteRebind_def bound_to_keep consumer_bound)
qed

lemma rebind_one_ok:
  fixes now :: int
  assumes "rebindable n dir (h_gen (hnd n ! h)) r" and "h < length (hnd n)" and "\<not> closing (carrier_of n h)"
    and "streamIDOf (sess n r) dir \<noteq> 0"
  defines "m \<equiv> snd (rebind_one dir h None now r n)"
  shows "fst (rebind_one dir h None now r n)" "bound_to m r dir (h_gen (hnd n ! h)) (h_gen (hnd n ! h))"
    "h_out (hnd m ! h) = h_out (hnd n ! h) @ [(streamIDOf (sess n r) dir, FrameRebind, encodeRebind (so_id (ses n ! r)) h n)]"
    "streams (carrier_of m h) (streamIDOf (sess n r) dir) \<noteq> None" "\<not> closing (carrier_of m h)"
    "h_gen (hnd m ! x) = h_gen (hnd n ! x)"
proof -
  let ?c = "snd (rebind_claim dir h None r n)"
  note cl = rebind_claim_ok [OF assms(1-4)]
  obtain a where a: "att_of ?c r dir = Some a" "att_state a = AttRebinding" using cl(2) by blast
  have r: "r < length (ses ?c)" using cl(3) assms(1) by (simp add: rebindable_def)
  have "att_state a = AttUnavailable \<or> att_state a = AttRebinding" using a(2) by simp
  note at = rebind_attach_ok [OF r a(1) this, of h now]
  have m: "m = snd (rebind_attach dir h now r ?c)" "fst (rebind_one dir h None now r n) = fst (rebind_attach dir h now r ?c)"
    using cl(1) by (simp_all add: m_def rebind_one_def Let_def)
  show "fst (rebind_one dir h None now r n)" "bound_to m r dir (h_gen (hnd n ! h)) (h_gen (hnd n ! h))"
    using at m cl(7) [of h] by simp_all
  show "h_out (hnd m ! h) = h_out (hnd n ! h) @ [(streamIDOf (sess n r) dir, FrameRebind, encodeRebind (so_id (ses n ! r)) h n)]"
    using at(2) m(1) cl(5) by simp
  show "streams (carrier_of m h) (streamIDOf (sess n r) dir) \<noteq> None"
    using at(2) m(1) cl(6) by (simp add: carrier_of_def)
  show "\<not> closing (carrier_of m h)" "h_gen (hnd m ! x) = h_gen (hnd n ! x)"
    using at(2) m(1) cl(9) cl(7) [of x] by (simp_all add: carrier_of_def)
qed

lemma Detach_self:
  "att_state a = AttAttached \<Longrightarrow> att_state (snd (Detach (att_gen a) a)) = AttUnavailable \<and>
     lastRebindGen (snd (Detach (att_gen a) a)) = lastRebindGen a"
  by (simp add: Detach_def startTimerLocked_def fresh_ready_def)

lemma rebind_accept_ok:
  assumes "r < length (ses n)" and "att_of n r dir = Some a" and "att_state a = AttUnavailable \<or> att_state a = AttRebinding"
  shows "bound_to (rebind_accept dir h i gen now r n) r dir (h_gen (hnd n ! h)) gen"
proof -
  let ?n3 = "(let n2 = upd_emitter (recordPeerGen now (h, i) gen) (upd_att r dir (SetLastRebindGen gen) n)
              in if dir = DirDown then rebind_credit h i gen now n2 else n2)"
  have a3: "att_of ?n3 r dir = Some (SetLastRebindGen gen a)" "length (ses ?n3) = length (ses n)"
    using assms(1,2) by (auto simp: Let_def att_upd_att)
  have w: "att_state (SetLastRebindGen gen a) = AttUnavailable \<or> att_state (SetLastRebindGen gen a) = AttRebinding"
    using assms(3) by (simp add: SetLastRebindGen_def)
  note at = Attach_waiting [OF w, of "h_gen (hnd n ! h)"]
  have "bound_to (upd_att r dir (\<lambda>a. snd (Attach (h_gen (hnd n ! h)) a)) ?n3) r dir (h_gen (hnd n ! h)) gen"
    using at a3 assms(1) by (simp add: bound_to_def att_upd_att SetLastRebindGen_def)
  then show ?thesis using at a3(1)
    by (auto simp: rebind_accept_def Let_def bound_to_keep consumer_bound)
qed

lemma rebind_check_ok:
  assumes "GetByStream i (n_store n) = Some r" and "rebindable n dir (rbGen rb) r"
    and "rbVersion rb = RebindVersionV2 \<Longrightarrow> rbCarrierID rb = h_id (hnd n ! h)"
    and "att_of n r dir = Some a" and "lastRebindGen a < rbGen rb"
  shows "\<exists>m b. rebind_check dir h i rb n = Inr (r, m) \<and> att_of m r dir = Some b \<and> att_state b = AttUnavailable \<and>
     length (ses m) = length (ses n) \<and> hnd m = hnd n"
proof (cases "att_state a = AttAttached")
  case True
  let ?m = "upd_att r dir (\<lambda>a. snd (Detach (att_gen a) a)) n"
  have "rebind_check dir h i rb n = Inr (r, ?m)"
    using assms True by (auto simp: rebind_check_def rebindable_def Let_def)
  moreover have "att_of ?m r dir = Some (snd (Detach (att_gen a) a))"
    using assms(2,4) by (simp add: att_upd_att rebindable_def)
  ultimately show ?thesis using Detach_self [OF True] by simp
next
  case False
  then show ?thesis using assms by (auto simp: rebind_check_def rebindable_def Let_def)
qed

lemma handleRebind_ok:
  assumes "ParseRebindAny p = Some rb" and "GetByStream i (n_store n) = Some r" and "rebindable n dir (rbGen rb) r"
    and "rbVersion rb = RebindVersionV2 \<Longrightarrow> rbCarrierID rb = h_id (hnd n ! h)"
    and "att_of n r dir = Some a" and "lastRebindGen a < rbGen rb"
  shows "bound_to (handleRebind dir h i (Some (Some p)) now n) r dir (h_gen (hnd n ! h)) (rbGen rb)"
proof -
  obtain m b where m: "rebind_check dir h i rb n = Inr (r, m)" "att_of m r dir = Some b" "att_state b = AttUnavailable"
    "length (ses m) = length (ses n)" "hnd m = hnd n"
    using rebind_check_ok [OF assms(2-6)] by blast
  then show ?thesis
    using assms(1,3) rebind_accept_ok [of r m dir b h i "rbGen rb" now]
    by (simp add: handleRebind_def rebindable_def)
qed

lemma encodeRebind_parses:
  assumes "length sid = SessionIDLen" and "length (h_id (hnd n ! h)) \<le> RebindMaxCarrierIDLen"
  shows "\<exists>rb. ParseRebindAny (encodeRebind sid h n) = Some rb \<and> rbGen rb = h_gen (hnd n ! h) \<and>
     (rbVersion rb = RebindVersionV2 \<longrightarrow> rbCarrierID rb = h_id (hnd n ! h))"
proof -
  define rb where "rb = \<lparr>rbVersion = if multiDown n then RebindVersionV2 else RebindVersion, rbSessionID = sid,
     rbCarrierID = if multiDown n then h_id (hnd n ! h) else '''', rbGen = h_gen (hnd n ! h)\<rparr>"
  have "rebind_wf rb" using assms by (simp add: rb_def rebind_wf_def)
  then have "ParseRebindAny (enc_rebind rb) = Some rb" using rebind_codec.dec_enc [of rb] by simp
  moreover have "enc_rebind rb = encodeRebind sid h n" by (simp add: rb_def enc_rebind_def encodeRebind_def)
  ultimately show ?thesis by (intro exI [of _ rb]) (simp add: rb_def)
qed


lemma node_carrier_open [simp]: "\<not> closing (node_carrier cfg)"
  by (auto simp: node_carrier_def SetStreamLimits_def SetQueueStats_def SetLivenessRounds_def newCarrierConn_def closing_def Let_def
      split: sum.splits)

lemma demo_bound_carriers [simp]:
  "\<not> closing (carrier_of (demo_bound role g) 0)" "\<not> closing (carrier_of (demo_bound role g) (Suc 0))"
  "so_id (ses (demo_bound role g) ! 0) = replicate 16 7" "streamIDOf (sess (demo_bound role g) 0) DirDown = 5"
  "GetByStream 5 (n_store (demo_bound role g)) = Some 0" "rebindable (demo_bound role g) DirDown x 0 = (g \<noteq> x)"
  by (simp_all add: streamIDOf_def GetByStream_def rebindable_def)
    (simp_all add: demo_bound_def new_handle_def carrier_of_def)


lemma drop_rebind_effect:
  assumes "h < length (hnd n)"
  shows "ses (drop_rebind h i gen why n) = ses n" "streams (carrier_of (drop_rebind h i gen why n) h) i = None"
    "\<not> closing (carrier_of n h) \<Longrightarrow> ctrlOut (carrier_of (drop_rebind h i gen why n) h) =
       ctrlOut (carrier_of n h) @
       (if drop_reset why = 0 then [] else [encodeControlFrame i FrameReset (EncodeResetPayload (drop_reset why) gen)])"
  using assms
  by (auto simp: drop_rebind_def Let_def deregister_def control_frame_def carrier_upd Deregister_def WriteControlFrame_def writeControl_def)

text \<open>C13. A rebind that names a generation the Germany node has already seen for the direction changes no
  session; it is answered by a reset that carries the refused generation, and the stream it opened is
  deregistered. The Iran node ignores that reset exactly when it has rebound to a later generation
  meanwhile.\<close>

theorem stale_rebind_refused:
  assumes "ParseRebindAny p = Some rb" and "rbVersion rb = RebindVersionV2 \<Longrightarrow> rbCarrierID rb = h_id (hnd n ! h)"
    and "GetByStream i (n_store n) = Some r" and "ses_state (sess n r) = StateActive" and "\<not> DirClosed dir (sess n r)"
    and "att_of n r dir = Some a" and "rbGen rb \<le> lastRebindGen a"
    and "h < length (hnd n)" and "\<not> closing (carrier_of n h)"
    and "GetByStream i (n_store nI) = Some q" and "ses_state (sess nI q) = StateActive" and "att_of nI q dir = Some b"
    and "0 < rbGen rb" and "rbGen rb < lastRebindGen b"
  shows "let m = handleRebind dir h i (Some (Some p)) t n
         in ses m = ses n \<and> streams (carrier_of m h) i = None \<and>
            ctrlOut (carrier_of m h) =
              ctrlOut (carrier_of n h) @ [encodeControlFrame i FrameReset (EncodeResetPayload ResetReasonRebindRefused (rbGen rb))] \<and>
            ParseResetPayload (EncodeResetPayload ResetReasonRebindRefused (rbGen rb)) = Inr (ResetReasonRebindRefused, rbGen rb) \<and>
            ses (handleStreamReset dir i ResetReasonRebindRefused (rbGen rb) nI) = ses nI"
proof -
  have "handleRebind dir h i (Some (Some p)) t n = drop_rebind h i (rbGen rb) DropStale n"
    using assms(1-7) by (auto simp: handleRebind_def rebind_check_def Let_def)
  moreover have "ses (handleStreamReset dir i ResetReasonRebindRefused (rbGen rb) nI) = ses nI"
    using assms(10-14) by (simp add: handleStreamReset_def Let_def)
  moreover have "ParseResetPayload (EncodeResetPayload ResetReasonRebindRefused (rbGen rb)) = Inr (ResetReasonRebindRefused, rbGen rb)"
    by (simp add: ParseResetPayload_def EncodeResetPayload_def codec_simps)
  ultimately show ?thesis using drop_rebind_effect [OF assms(8), of i "rbGen rb" DropStale] assms(9) by (simp add: Let_def)
qed

lemma rebind_check_already:
  assumes "GetByStream i (n_store n) = Some r" and "ses_state (sess n r) = StateActive" and "\<not> DirClosed dir (sess n r)"
    and "att_of n r dir = Some a" and "lastRebindGen a < rbGen rb" and "att_state a = AttAttached" and "att_gen a = rbGen rb"
    and "rbVersion rb = RebindVersionV2 \<Longrightarrow> rbCarrierID rb = h_id (hnd n ! h)"
  shows "rebind_check dir h i rb n = Inl (rbGen rb, DropAlready)"
  using assms by (auto simp: rebind_check_def Let_def)

text \<open>The Germany node compares its own number of the attached carrier with the generation the peer
  sent. When a session is attached to a carrier whose local number happens to equal the peer's generation of
  another carrier, a valid rebind onto that carrier is dropped without a reset: the Iran
  end is bound to the new carrier, the Germany end still sends on the old one.\<close>

lemma rebind_number_collision:
  assumes "rebindable nI dir (h_gen (hnd nI ! hI)) rI" and "hI < length (hnd nI)" and "\<not> closing (carrier_of nI hI)"
    and "streamIDOf (sess nI rI) dir \<noteq> 0" and "length (so_id (ses nI ! rI)) = SessionIDLen"
    and "length (h_id (hnd nI ! hI)) \<le> RebindMaxCarrierIDLen"
    and "h_id (hnd nG ! hG) = h_id (hnd nI ! hI)" and "hG < length (hnd nG)" and "\<not> closing (carrier_of nG hG)"
    and "GetByStream (streamIDOf (sess nI rI) dir) (n_store nG) = Some rG"
    and "ses_state (sess nG rG) = StateActive" and "\<not> DirClosed dir (sess nG rG)"
    and "att_of nG rG dir = Some a" and "lastRebindGen a < h_gen (hnd nI ! hI)"
    and "att_state a = AttAttached" and "att_gen a = h_gen (hnd nI ! hI)" and "att_gen a \<noteq> h_gen (hnd nG ! hG)"
  shows "let mI = snd (rebind_one dir hI None t rI nI); g = h_gen (hnd nI ! hI); i = streamIDOf (sess nI rI) dir;
             mG = handleRebind dir hG i (Some (Some (encodeRebind (so_id (ses nI ! rI)) hI nI))) t' nG
         in bound_to mI rI dir g g \<and> \<not> (\<exists>p. bound_to mG rG dir (h_gen (hnd nG ! hG)) p) \<and> att_of mG rG dir = Some a \<and>
            streams (carrier_of mG hG) i = None \<and> ctrlOut (carrier_of mG hG) = ctrlOut (carrier_of nG hG)"
proof -
  obtain rb where rb: "ParseRebindAny (encodeRebind (so_id (ses nI ! rI)) hI nI) = Some rb" "rbGen rb = h_gen (hnd nI ! hI)"
    "rbVersion rb = RebindVersionV2 \<longrightarrow> rbCarrierID rb = h_id (hnd nI ! hI)"
    using encodeRebind_parses [OF assms(5,6)] by blast
  let ?i = "streamIDOf (sess nI rI) dir"
  let ?m = "drop_rebind hG ?i (rbGen rb) DropAlready nG"
  have eq: "handleRebind dir hG ?i (Some (Some (encodeRebind (so_id (ses nI ! rI)) hI nI))) t' nG = ?m"
  proof -
    have "rebind_check dir hG ?i rb nG = Inl (rbGen rb, DropAlready)"
      by (rule rebind_check_already [OF assms(10-13)]) (use rb assms(7,14-16) in simp_all)
    then show ?thesis using rb(1) by (simp add: handleRebind_def)
  qed
  have "att_of ?m = att_of nG" using drop_rebind_effect(1) [OF assms(8)] by (simp add: att_of_def sess_def fun_eq_iff)
  then show ?thesis
    using rebind_one_ok(2) [OF assms(1-4), of t] drop_rebind_effect [OF assms(8), of ?i "rbGen rb" DropAlready] assms(9,13,17)
    unfolding Let_def eq by (simp add: bound_to_def)
qed

definition demo_crossed :: Node where
  "demo_crossed = (demo_bound RoleGermany 2)
     \<lparr>hnd := [new_handle 1 ''b'' DirDown (demo_cfg RoleGermany []), new_handle 2 ''a'' DirDown (demo_cfg RoleGermany [])]\<rparr>"

lemma rebind_number_collision_witness:
  "bound_to (snd (rebind_one DirDown 1 None 0 0 (demo_bound RoleIran 1))) 0 DirDown 2 2 \<and>
   att_of (handleRebind DirDown 0 5 (Some (Some (encodeRebind (replicate 16 7) 1 (demo_bound RoleIran 1)))) 0 demo_crossed) 0 DirDown
     = Some (demo_att 2)"
proof -
  have d: "n_store demo_crossed = n_store (demo_bound RoleGermany 2)" "sess demo_crossed = sess (demo_bound RoleGermany 2)"
    "att_of demo_crossed = att_of (demo_bound RoleGermany 2)" "length (hnd demo_crossed) = 2" "h_id (hnd demo_crossed ! 0) = ''b''"
    "h_gen (hnd demo_crossed ! 0) = 1" "\<not> closing (carrier_of demo_crossed 0)"
    by (simp_all add: demo_crossed_def new_handle_def carrier_of_def)
  show ?thesis
    using rebind_number_collision [of "demo_bound RoleIran 1" DirDown 1 0 demo_crossed 0 0 "demo_att 2" 0 0] d
    by (simp add: Let_def)
qed

lemma sess_upd_att_other [simp]: "q \<noteq> r \<Longrightarrow> sess (upd_att r dir f n) q = sess n q"
  by (cases dir) (simp_all add: upd_att_def upd_sess_def sess_def nth_list_update_if)

lemma rebind_prepare_other [simp]:
  "q \<noteq> r \<Longrightarrow> sess (snd (rebind_prepare dir h r n)) q = sess n q"
  "length (ses (snd (rebind_prepare dir h r n))) = length (ses n)"
  "hnd (snd (rebind_prepare dir h r n)) = hnd n"
  by (auto simp: rebind_prepare_def split: option.splits)

lemma failRebind_other [simp]:
  "q \<noteq> r \<Longrightarrow> sess (failRebind r dir n) q = sess n q" "length (ses (failRebind r dir n)) = length (ses n)"
  "hnd (failRebind r dir n) = hnd n"
  by (simp_all add: failRebind_def)

lemma rebind_claim_other [simp]:
  "q \<noteq> r \<Longrightarrow> sess (snd (rebind_claim dir h werr r n)) q = sess n q"
  "length (ses (snd (rebind_claim dir h werr r n))) = length (ses n)"
  "length (hnd (snd (rebind_claim dir h werr r n))) = length (hnd n)"
  by (simp_all add: rebind_claim_def Let_def split: option.splits)

lemma sess_consumers: "sess (n\<lparr>consumers := cs\<rparr>) = sess n"
  by (simp add: sess_def fun_eq_iff)

lemma startChannelConsumer_other [simp]:
  "q \<noteq> r \<Longrightarrow> sess (startChannelConsumer r dir h n) q = sess n q"
  "length (ses (startChannelConsumer r dir h n)) = length (ses n)"
  "hnd (startChannelConsumer r dir h n) = hnd n"
  by (simp_all add: startChannelConsumer_def sess_consumers)

lemma credit_sess [simp]: "sess (rebind_credit h i pg now n) = sess n"
  by (simp add: sess_def fun_eq_iff)

lemma rebind_attach_other [simp]:
  "q \<noteq> r \<Longrightarrow> sess (snd (rebind_attach dir h now r n)) q = sess n q"
  "length (ses (snd (rebind_attach dir h now r n))) = length (ses n)"
  "length (hnd (snd (rebind_attach dir h now r n))) = length (hnd n)"
  by (simp_all add: rebind_attach_def noteRebind_def Let_def split: option.splits)

lemma rebind_one_other:
  "q \<noteq> r \<Longrightarrow> sess (snd (rebind_one dir h werr now r n)) q = sess n q"
  "length (ses (snd (rebind_one dir h werr now r n))) = length (ses n)"
  "length (hnd (snd (rebind_one dir h werr now r n))) = length (hnd n)"
  by (simp_all add: rebind_one_def Let_def)

lemma sess_cong:
  assumes "sess m q = sess n q" and "length (ses m) = length (ses n)"
  shows "rebindable m dir g q = rebindable n dir g q" "bound_to m q dir g p = bound_to n q dir g p"
    "streamIDOf (sess m q) dir = streamIDOf (sess n q) dir"
  using assms by (simp_all add: rebindable_def bound_to_def att_of_def)

lemma rebind_sweep_other:
  "q \<notin> set rs \<Longrightarrow> sess (snd (rebind_sweep dir h werr now rs n)) q = sess n q"
  "length (ses (snd (rebind_sweep dir h werr now rs n))) = length (ses n)"
  by (induction rs arbitrary: n) (simp_all add: Let_def rebind_one_other)

lemma rebind_sweep_binds:
  assumes "distinct rs" and "h < length (hnd n)" and "\<not> closing (carrier_of n h)" and "\<not> ctx_done n"
    and "\<forall>r\<in>set rs. rebindable n dir (h_gen (hnd n ! h)) r \<and> streamIDOf (sess n r) dir \<noteq> 0"
  shows "\<forall>r\<in>set rs. bound_to (snd (rebind_sweep dir h (\<lambda>r. None) now rs n)) r dir (h_gen (hnd n ! h)) (h_gen (hnd n ! h))"
  using assms
proof (induction rs arbitrary: n)
  case (Cons r rs)
  define m where "m = snd (rebind_one dir h None now r n)"
  have "rebindable n dir (h_gen (hnd n ! h)) r" "streamIDOf (sess n r) dir \<noteq> 0" using Cons.prems(5) by simp_all
  note one = rebind_one_ok [OF this(1) Cons.prems(2,3) this(2), of now, folded m_def]
  have other: "sess m q = sess n q" if "q \<noteq> r" for q using that by (simp add: m_def rebind_one_other)
  have len: "length (ses m) = length (ses n)" "length (hnd m) = length (hnd n)" by (simp_all add: m_def rebind_one_other)
  have elig: "\<forall>q\<in>set rs. rebindable m dir (h_gen (hnd m ! h)) q \<and> streamIDOf (sess m q) dir \<noteq> 0"
  proof
    fix q assume "q \<in> set rs"
    then have "q \<noteq> r" using Cons.prems(1) by auto
    then show "rebindable m dir (h_gen (hnd m ! h)) q \<and> streamIDOf (sess m q) dir \<noteq> 0"
      using \<open>q \<in> set rs\<close> Cons.prems(5) one(6) [of h] sess_cong [OF other len(1)] by simp
  qed
  have "ctx_done m = ctx_done n" by (simp add: m_def)
  then have pre: "distinct rs" "h < length (hnd m)" "\<not> closing (carrier_of m h)" "\<not> ctx_done m"
    using Cons.prems len one by simp_all
  note IH = Cons.IH [OF pre elig]
  let ?f = "snd (rebind_sweep dir h (\<lambda>r. None) now rs m)"
  have "sess ?f r = sess m r" "length (ses ?f) = length (ses m)" using Cons.prems(1) rebind_sweep_other by simp_all
  from sess_cong(2) [OF this, of dir] have b: "bound_to ?f r dir (h_gen (hnd n ! h)) (h_gen (hnd n ! h))"
    using one(2) by simp
  show ?case using IH b Cons.prems(4) one(6) [of h] by (simp add: Let_def m_def [symmetric])
qed simp

text \<open>Installing a carrier moves every eligible stream onto it. On the Iran node, when the writes
  succeed, the sweep after an install binds each session it visits to the new carrier, whether
  the session was waiting for a carrier or attached to another one that is still working: a standby that
  becomes ready takes over every stream of the direction. A session outside the sweep keeps its
  attachments.\<close>

lemma install_takes_over:
  assumes "cfg_Role (n_cfg n) = RoleIran" and "distinct rs" and "h < length (hnd n)" and "\<not> closing (carrier_of n h)"
    and "\<not> ctx_done n" and "\<forall>r\<in>set rs. rebindable n dir (h_gen (hnd n ! h)) r \<and> streamIDOf (sess n r) dir \<noteq> 0"
  shows "let m = onCarrierReady dir h (\<lambda>r. None) now rs n
         in (\<forall>r\<in>set rs. bound_to m r dir (h_gen (hnd n ! h)) (h_gen (hnd n ! h))) \<and> (\<forall>r. r \<notin> set rs \<longrightarrow> sess m r = sess n r)"
  using assms(1) rebind_sweep_binds [OF assms(2-6)] rebind_sweep_other(1)
  by (simp add: onCarrierReady_def rebindDirection_def Let_def)

lemma demo_bound_open: "\<not> ctx_done (demo_bound role g)"
  by (cases role) code_simp+

lemma install_takes_over_witness:
  "att_of (demo_bound RoleIran 1) 0 DirDown = Some (demo_att 1) \<and> \<not> closing (carrier_of (demo_bound RoleIran 1) 0) \<and>
   bound_to (onCarrierReady DirDown 1 (\<lambda>r. None) 0 [0] (demo_bound RoleIran 1)) 0 DirDown 2 2"
  using install_takes_over [of "demo_bound RoleIran 1" "[0]" 1 DirDown 0]
  by (simp add: Let_def demo_bound_open)

theorem stale_rebind_refused_witness:
  "ses (handleRebind DirDown 0 5 (Some (Some (encodeRebind (replicate 16 7) 0 (demo_bound RoleIran 2)))) 0
      (upd_att 0 DirDown (SetLastRebindGen 1) (demo_bound RoleGermany 1)))
     = ses (upd_att 0 DirDown (SetLastRebindGen 1) (demo_bound RoleGermany 1))"
proof -
  let ?n = "upd_att 0 DirDown (SetLastRebindGen 1) (demo_bound RoleGermany 1)"
  let ?i = "upd_att 0 DirDown (SetLastRebindGen 2) (demo_bound RoleIran 2)"
  obtain rb where rb: "ParseRebindAny (encodeRebind (replicate 16 7) 0 (demo_bound RoleIran 2)) = Some rb" "rbGen rb = 1"
    "rbVersion rb = RebindVersionV2 \<longrightarrow> rbCarrierID rb = ''a''"
    using encodeRebind_parses [of "replicate 16 7" "demo_bound RoleIran 2" 0] by auto
  have s: "att_of ?n 0 DirDown = Some (SetLastRebindGen 1 (demo_att 1))" "att_of ?i 0 DirDown = Some (SetLastRebindGen 2 (demo_att 2))"
    "lastRebindGen (SetLastRebindGen x y) = x" for x y
    by (simp_all add: att_upd_att SetLastRebindGen_def)
  show ?thesis
    using stale_rebind_refused [of "encodeRebind (replicate 16 7) 0 (demo_bound RoleIran 2)" rb ?n 0 5 0 DirDown _ ?i 0 _ 0] rb s
    by (simp add: Let_def)
qed

end
