(* ===== verification/Bootstrap.thy ===== *)
theory Bootstrap
  imports Recovery
begin

text \<open>
  The start of a session on both nodes (\<^verbatim>\<open>src/pkg/node/node.go\<close>): the Iran node registers the stream on
  one carrier per direction and sends the destination header; the Germany node dials the target,
  registers the down stream and answers with the bootstrap status.

  The handles a start uses are found by \<open>waitCarriers_poll\<close> and \<open>pickDownForNewStream\<close>; they are arguments
  of \<open>startSessionCore\<close>, since a carrier may be lost after it was found. Dialling is not
  modelled here: \<open>bootstrapUpStream\<close> is given its result. Session ids are random and are arguments.
\<close>

section \<open>Waiting for carriers\<close>

text \<open>One iteration of the wait: the handles, or the channels it then waits on.\<close>

definition waitCarriers_poll :: "Node \<Rightarrow> nat list + (nat \<times> nat)" where
  "waitCarriers_poll n =
     (case currentIfReadyBoth n of
        (Some u, Some d) \<Rightarrow> Inr (u, d)
      | (u, d) \<Rightarrow> Inl ((if u = None then [readySig DirUp n] else []) @ (if d = None then [readySig DirDown n] else [])))"

definition waitCarrierReady_poll :: "Direction \<Rightarrow> Node \<Rightarrow> nat + nat" where
  "waitCarrierReady_poll dir n = (case current dir n of Some h \<Rightarrow> Inr h | None \<Rightarrow> Inl (readySig dir n))"

section \<open>The Iran node\<close>

text \<open>A session object, published in the store.\<close>

definition publish_session :: "Session \<Rightarrow> bytes \<Rightarrow> int \<Rightarrow> Node \<Rightarrow> nat \<times> Node" where
  "publish_session s sid now n =
     (let r = length (ses n);
          n1 = n\<lparr>ses := ses n @ [\<lparr>so_ses = s, so_id = sid, so_stats = new_stats now\<rparr>]\<rparr>;
          n2 = n1\<lparr>n_store := AddStream (sess n1) r (store_Add (sess n1) sid r (n_store n1))\<rparr>
      in (r, metric SessionStarted n2))"

definition attach_both :: "nat \<Rightarrow> nat \<Rightarrow> nat \<Rightarrow> Node \<Rightarrow> Node" where
  "attach_both r upH downH n =
     upd_att r DirDown (\<lambda>a. snd (Attach (h_gen (hnd n ! downH)) a))
       (upd_att r DirUp (\<lambda>a. snd (Attach (h_gen (hnd n ! upH)) a)) n)"

text \<open>The last part: attach, stamp the credit record, start the relays.\<close>

definition start_relays :: "nat \<Rightarrow> u32 \<Rightarrow> nat \<Rightarrow> nat \<Rightarrow> int \<Rightarrow> Node \<Rightarrow> Node" where
  "start_relays r i upH downH now n =
     (let n1 = attach_both r upH downH n;
          n2 = upd_emitter (recordPeerGen now (downH, i) (h_gen (hnd n ! downH))) n1;
          n3 = n2\<lparr>relays := relays n2 @ [(r, DirUp)]\<rparr>
      in startChannelConsumer r DirUp upH (startChannelConsumer r DirDown downH n3))"

definition startSessionCore ::
    "nat \<Rightarrow> nat \<Rightarrow> bytes \<Rightarrow> Destination \<Rightarrow> nat \<Rightarrow> bool \<Rightarrow> mux_error option \<Rightarrow> int \<Rightarrow> Node \<Rightarrow> (node_error + nat) \<times> Node" where
  "startSessionCore upH downH sid dest conn adopt werr now n0 =
     (let (i, n1) = nextStreamID n0;
          s = snd (SetBootstrapChannel (OnClose 0 (node_session None None i)));
          (r, n2) = publish_session s sid now n1;
          (uc, n3) = register upH i n2;
          (dc, n4) = register downH i n3
      in if uc = None \<or> dc = None
         then (Inl NodeRegistration, close_session r ''carrier stream registration failed'' n4)
         else if \<not> fst (Activate (sess n4 r))
         then (Inl NodeActivation, close_session r ''activation failed'' n4)
         else (let n5 = upd_sess r (\<lambda>s. snd (Activate s)) n4; hdr = WriteDestinationBuffer dest
               in if hdr = [] then (Inl NodeDestination, close_session r ''destination encoding failed'' n5)
                  else (let (e, n6) = carrier_WriteFrame upH i FrameHeader hdr werr n5
                        in (case e of
                              Some err \<Rightarrow> (Inl (NodeHeaderWrite err), close_session r ''up-carrier header write failed'' n6)
                            | None \<Rightarrow>
                                if adopt \<and> \<not> fst (AdoptConn conn (sess n6 r)) then (Inl NodeAdopt, n6)
                                else (let n7 = (if adopt then upd_sess r (\<lambda>s. snd (AdoptConn conn s)) n6 else n6)
                                      in (Inr r, start_relays r i upH downH now n7))))))"

text \<open>The status \<open>StartSessionAndWait\<close> reports: \<open>None\<close> while it waits for the verdict; \<open>ctxDone\<close> ends
  the wait.\<close>

definition StartSessionAndWait_status :: "node_error + nat \<Rightarrow> bool \<Rightarrow> Node \<Rightarrow> byte option" where
  "StartSessionAndWait_status res ctxDone n =
     (case res of
        Inl _ \<Rightarrow> Some 1
      | Inr r \<Rightarrow>
          (case WaitBootstrap (sess n r) of
             Some ((st, True), _) \<Rightarrow> Some st
           | Some ((st, False), _) \<Rightarrow> Some BootstrapEndedWithoutResult
           | None \<Rightarrow> if ctxDone then Some BootstrapEndedWithoutResult else None))"

section \<open>The Germany node\<close>

text \<open>What the code asks of the error of a dial: the chains of \<^verbatim>\<open>errors.Is\<close> and \<^verbatim>\<open>errors.As\<close>, and its text.\<close>

record dial_err =
  de_Blocked :: bool
  de_DialTimeout :: bool
  de_BreakerOpen :: bool
  de_WarpUnreachable :: bool
  de_DeadlineExceeded :: bool
  de_NetTimeout :: bool
  de_DNSError :: bool
  de_ECONNREFUSED :: bool
  de_ENETUNREACH :: bool
  de_EHOSTUNREACH :: bool
  de_ETIMEDOUT :: bool
  de_msg :: string

definition bootstrapAckStatus :: "dial_err \<Rightarrow> byte" where
  "bootstrapAckStatus e =
     (if de_Blocked e then 2
      else if de_DialTimeout e then 6
      else if de_BreakerOpen e then 1
      else if de_WarpUnreachable e then 1
      else if de_DeadlineExceeded e then 6
      else if de_NetTimeout e then 6
      else if de_DNSError e then 4
      else if de_ECONNREFUSED e then 5
      else if de_ENETUNREACH e then 3
      else if de_EHOSTUNREACH e then 4
      else if de_ETIMEDOUT e then 6
      else if Contains (de_msg e) ''no reachable A record'' \<or> Contains (de_msg e) ''no IPv4 or IPv6 address'' \<or>
              Contains (de_msg e) ''resolve '' \<or> Contains (de_msg e) ''no such host'' then 4
      else 1)"

definition send_ack :: "nat \<Rightarrow> u32 \<Rightarrow> byte \<Rightarrow> Node \<Rightarrow> Node" where
  "send_ack h i status n = control_frame h i FrameBootstrapAck (EncodeBootstrapAckPayload status) n"

text \<open>\<open>sent\<close>: the termination's hand-off to the stream's consumer goes through.\<close>

definition drop_bootstrap :: "nat \<Rightarrow> u32 \<Rightarrow> bool \<Rightarrow> byte \<Rightarrow> Node \<Rightarrow> Node" where
  "drop_bootstrap h i sent status n =
     metric metric_Error (upd_carrier h (Terminate i sent) (send_ack h i status n))"

definition count_dial_failure :: "dial_err \<Rightarrow> Node \<Rightarrow> Node" where
  "count_dial_failure e n =
     metric TargetDialFailure
       (if de_BreakerOpen e then metric TargetDialFailureBreakerOpen n
        else if de_DialTimeout e then metric TargetDialFailureTimeout n else n)"

definition close_target :: "nat \<Rightarrow> Node \<Rightarrow> Node" where
  "close_target conn n = n\<lparr>closed_conns := closed_conns n @ [conn]\<rparr>"

text \<open>The first credit of the down stream; \<open>anchored\<close>: the goroutine that writes it runs before the
  carrier closes.\<close>

definition anchor_credit :: "nat \<Rightarrow> u32 \<Rightarrow> bool \<Rightarrow> int \<Rightarrow> Node \<Rightarrow> Node" where
  "anchor_credit downH i anchored now n =
     (case n_emitter n of
        None \<Rightarrow> n
      | Some e \<Rightarrow>
          (let (p, e1) = emitAnchor now (downH, i) e; n' = n\<lparr>n_emitter := Some e1\<rparr>
           in if anchored then control_frame downH i FrameCredit (EncodeCreditPayload p) n' else n'))"

text \<open>The session once the target is connected and a down carrier was found.\<close>

definition bootstrap_session ::
    "nat \<Rightarrow> u32 \<Rightarrow> nat \<Rightarrow> bytes \<Rightarrow> nat \<Rightarrow> bool \<Rightarrow> bool \<Rightarrow> int \<Rightarrow> Node \<Rightarrow> Node" where
  "bootstrap_session h i targetConn sid downH sent anchored now n =
     (let s = OnClose 0 (node_session None (Some targetConn) i);
          (dc, n1) = register downH i n
      in if dc = None then drop_bootstrap h i sent 1 (close_target targetConn n1)
         else (let (r, n2) = publish_session s sid now n1
               in if \<not> fst (Activate (sess n2 r)) then close_session r ''activation failed'' (send_ack h i 1 n2)
                  else (let n3 = attach_both r h downH (upd_sess r (\<lambda>s. snd (Activate s)) n2);
                            n4 = upd_emitter (recordPeerGen now (downH, i) (h_gen (hnd n ! downH))) n3;
                            n5 = anchor_credit downH i anchored now n4;
                            n6 = startChannelConsumer r DirUp h n5;
                            n7 = n6\<lparr>relays := relays n6 @ [(r, DirDown)]\<rparr>
                        in send_ack h i 0 n7)))"

definition bootstrapUpStream ::
    "nat \<Rightarrow> u32 \<Rightarrow> bytes option option \<Rightarrow> (Destination \<Rightarrow> dial_err + nat) \<Rightarrow> nat option \<Rightarrow> bytes \<Rightarrow> bool \<Rightarrow> bool \<Rightarrow>
     int \<Rightarrow> Node \<Rightarrow> Node" where
  "bootstrapUpStream h i recv dial downH sid sent anchored now n =
     (case recv of
        Some (Some p) \<Rightarrow>
          (case ParseDestinationFromBuf p of
             None \<Rightarrow> drop_bootstrap h i sent 1 n
           | Some dest \<Rightarrow>
               (case dial dest of
                  Inl e \<Rightarrow> drop_bootstrap h i sent (bootstrapAckStatus e) (count_dial_failure e n)
                | Inr conn \<Rightarrow>
                    (let n1 = metric TargetDialSuccess n
                     in (case downH of
                           None \<Rightarrow> drop_bootstrap h i sent 1 (close_target conn n1)
                         | Some d \<Rightarrow>
                             (let (picked, n2) = pickDownForNewStream now n1
                              in bootstrap_session h i conn sid (case picked of Some x \<Rightarrow> x | None \<Rightarrow> d)
                                   sent anchored now n2)))))
      | _ \<Rightarrow> n)"

text \<open>The dispatch of a stream the peer opened, by its first frame.\<close>

datatype new_stream_action = StartBootstrap | StartRebind Direction | TerminateStream

definition onUpNewStream :: "byte \<Rightarrow> new_stream_action" where
  "onUpNewStream firstType =
     (if firstType = FrameHeader then StartBootstrap
      else if firstType = FrameRebind then StartRebind DirUp else TerminateStream)"

definition onDownNewStream :: "byte \<Rightarrow> new_stream_action" where
  "onDownNewStream firstType = (if firstType = FrameRebind then StartRebind DirDown else TerminateStream)"

definition drop_new_stream :: "Direction \<Rightarrow> nat \<Rightarrow> u32 \<Rightarrow> bool \<Rightarrow> Node \<Rightarrow> Node" where
  "drop_new_stream dir h i sent n =
     upd_carrier h (Terminate i sent)
       (metric (if dir = DirUp then UpNewStreamRefiredAfterDeregister else DownNewStreamRefiredAfterDeregister) n)"

section \<open>One answer per bootstrap\<close>

text \<open>A stream the peer opened: registered on the carrier, not yet stopped.\<close>

definition open_stream :: "nat \<Rightarrow> u32 \<Rightarrow> Node \<Rightarrow> bool" where
  "open_stream h i n \<longleftrightarrow> h < length (hnd n) \<and> \<not> closing (carrier_of n h) \<and>
     (case streams (carrier_of n h) i of
        None \<Rightarrow> False
      | Some k \<Rightarrow> k < length (allStreams (carrier_of n h)) \<and> \<not> stopped (allStreams (carrier_of n h) ! k) \<and>
                  rid (allStreams (carrier_of n h) ! k) = i)"

abbreviation ack_frame :: "u32 \<Rightarrow> byte \<Rightarrow> bytes" where
  "ack_frame i status \<equiv> encodeControlFrame i FrameBootstrapAck (EncodeBootstrapAckPayload status)"

abbreviation close_frame :: "u32 \<Rightarrow> bytes" where
  "close_frame i \<equiv> encodeControlFrame i FrameClose []"

lemma ctrlOut_stream [simp]:
  "ctrlOut (upd_stream k f c) = ctrlOut c" "ctrlOut (emit b ev c) = ctrlOut c" "ctrlOut (snd (on_queue k op c)) = ctrlOut c"
  "close_st (upd_stream k f c) = close_st c" "close_st (emit b ev c) = close_st c" "close_st (snd (on_queue k op c)) = close_st c"
  by (simp_all add: upd_stream_def emit_def on_queue_def Let_def case_prod_unfold)

lemma Terminate_open:
  assumes "\<not> closing c" and "streams c i = Some k" and "\<not> stopped (allStreams c ! k)" and "rid (allStreams c ! k) = i"
  shows "ctrlOut (Terminate i sent c) = ctrlOut c @ [close_frame i]"
  using assms by (simp add: Terminate_def terminateStream_def WriteControlFrame_def writeControl_def closing_def Let_def)

lemma open_stream_cong:
  "length (hnd m) = length (hnd n) \<Longrightarrow> carrier_of m h = carrier_of n h \<Longrightarrow> open_stream h i m = open_stream h i n"
  by (simp add: open_stream_def split: option.split)

lemma send_ack_out:
  assumes "h < length (hnd n)" and "\<not> closing (carrier_of n h)"
  shows "ctrlOut (carrier_of (send_ack h i st n) h) = ctrlOut (carrier_of n h) @ [ack_frame i st]"
  using assms by (simp add: send_ack_def control_frame_def carrier_upd WriteControlFrame_def writeControl_def)

lemma drop_bootstrap_out:
  assumes "open_stream h i n"
  shows "ctrlOut (carrier_of (drop_bootstrap h i sent st n) h) = ctrlOut (carrier_of n h) @ [ack_frame i st, close_frame i]"
    "ses (drop_bootstrap h i sent st n) = ses n" "n_store (drop_bootstrap h i sent st n) = n_store n"
    "closed_conns (drop_bootstrap h i sent st n) = closed_conns n"
  using assms
  by (auto simp: drop_bootstrap_def open_stream_def send_ack_def control_frame_def carrier_upd WriteControlFrame_def writeControl_def
      Terminate_open closing_def split: option.splits)

lemma close_target_frame [simp]:
  "ses (close_target x n) = ses n" "n_store (close_target x n) = n_store n" "hnd (close_target x n) = hnd n"
  "carrier_of (close_target x n) = carrier_of n" "closed_conns (close_target x n) = closed_conns n @ [x]"
  by (simp_all add: close_target_def carrier_of_def fun_eq_iff)

lemma count_dial_failure_frame [simp]:
  "ses (count_dial_failure e n) = ses n" "n_store (count_dial_failure e n) = n_store n" "hnd (count_dial_failure e n) = hnd n"
  "carrier_of (count_dial_failure e n) = carrier_of n" "closed_conns (count_dial_failure e n) = closed_conns n"
  by (simp_all add: count_dial_failure_def)

lemma pickDown_frame:
  "ses (snd (pickDownForNewStream now n)) = ses n" "n_store (snd (pickDownForNewStream now n)) = n_store n"
  "hnd (snd (pickDownForNewStream now n)) = hnd n" "carrier_of (snd (pickDownForNewStream now n)) = carrier_of n"
  "closed_conns (snd (pickDownForNewStream now n)) = closed_conns n"
  by (auto simp: pickDownForNewStream_def carrier_of_def case_prod_unfold Let_def fun_eq_iff split: option.splits)

lemma bootstrapAckStatus_nonzero: "bootstrapAckStatus e \<noteq> 0"
  by (simp add: bootstrapAckStatus_def)

lemma register_other: "h \<noteq> d \<Longrightarrow> carrier_of (snd (register d i n)) h = carrier_of n h"
  by (simp add: register_def carrier_upd)

lemma fresh_session [simp]:
  "ses_state (OnClose 0 (node_session c t i)) = StatePending" "is_closing (OnClose 0 (node_session c t i)) = False"
  "StreamIDUp (OnClose 0 (node_session c t i)) = i" "StreamIDDown (OnClose 0 (node_session c t i)) = i"
  "UpAtt (OnClose 0 (node_session c t i)) = Some NewAttachment" "DownAtt (OnClose 0 (node_session c t i)) = Some NewAttachment"
  "once_done (OnClose 0 (node_session c t i)) = False" "onClose (OnClose 0 (node_session c t i)) = [0]"
  by (simp_all add: OnClose_def node_session_def NewSession_def is_closing_def)

lemma publish_session_simps:
  fixes n s sid now
  defines "m \<equiv> snd (publish_session s sid now n)"
  assumes "\<not> is_closing s" "StreamIDUp s = i" "StreamIDDown s = i" "i \<noteq> 0"
  shows "fst (publish_session s sid now n) = length (ses n)" "sess m (length (ses n)) = s"
    "q < length (ses n) \<Longrightarrow> sess m q = sess n q" "so_id (ses m ! length (ses n)) = sid"
    "length (ses m) = Suc (length (ses n))" "st_sessions (n_store m) sid = Some (length (ses n))"
    "st_streams (n_store m) = (st_streams (n_store n))(i \<mapsto> length (ses n))"
    "hnd m = hnd n" "carrier_of m = carrier_of n" "n_emitter m = n_emitter n"
    "cnt (n_metrics m) activeSessions = cnt (n_metrics n) activeSessions + 1"
  using assms(2-)
  by (simp_all add: m_def publish_session_def Let_def sess_def nth_append AddStream_def store_Add_def metric_def SessionStarted_def
      carrier_of_def fun_eq_iff bump_def)

lemma attach_both_bound:
  assumes "r < length (ses n)" and "att_of n r DirUp = Some NewAttachment" and "att_of n r DirDown = Some NewAttachment"
  shows "bound_to (attach_both r u d n) r DirUp (h_gen (hnd n ! u)) 0" "bound_to (attach_both r u d n) r DirDown (h_gen (hnd n ! d)) 0"
  using assms by (simp_all add: attach_both_def bound_to_def att_upd_att)
    (simp_all add: Attach_def NewAttachment_def stopTimer_def Let_def)

text \<open>What an established session is: published, active, and bound to one carrier per direction.\<close>

definition established :: "nat \<Rightarrow> u32 \<Rightarrow> nat \<Rightarrow> nat \<Rightarrow> Node \<Rightarrow> bool" where
  "established r i u d n \<longleftrightarrow> r < length (ses n) \<and> GetByStream i (n_store n) = Some r \<and> ses_state (sess n r) = StateActive \<and>
     bound_to n r DirUp (h_gen (hnd n ! u)) 0 \<and> bound_to n r DirDown (h_gen (hnd n ! d)) 0"

lemma carrier_of_emitter [simp]: "carrier_of (n\<lparr>n_emitter := e\<rparr>) = carrier_of n"
  by (simp add: carrier_of_def fun_eq_iff)

lemma anchor_credit_frame [simp]:
  "ses (anchor_credit d i an now n) = ses n" "n_store (anchor_credit d i an now n) = n_store n"
  "length (hnd (anchor_credit d i an now n)) = length (hnd n)" "h_gen (hnd (anchor_credit d i an now n) ! x) = h_gen (hnd n ! x)"
  "h \<noteq> d \<Longrightarrow> carrier_of (anchor_credit d i an now n) h = carrier_of n h"
  "sess (anchor_credit d i an now n) = sess n"
  by (auto simp: anchor_credit_def control_frame_def carrier_upd case_prod_unfold Let_def sess_def fun_eq_iff split: option.splits)

lemma attach_both_frame [simp]:
  "n_store (attach_both r u d n) = n_store n" "hnd (attach_both r u d n) = hnd n" "length (ses (attach_both r u d n)) = length (ses n)"
  "carrier_of (attach_both r u d n) = carrier_of n" "ses_state (sess (attach_both r u d n) q) = ses_state (sess n q)"
  by (simp_all add: attach_both_def)

lemma established_keep:
  assumes "established r i u d n" and "n_store m = n_store n" and "sess m r = sess n r" and "length (ses m) = length (ses n)"
    and "\<And>x. h_gen (hnd m ! x) = h_gen (hnd n ! x)"
  shows "established r i u d m"
  using assms sess_cong(2) [OF assms(3,4)] by (simp add: established_def)

lemma bootstrap_session_ok:
  fixes now :: int and anchored sent :: bool and sid :: bytes and conn :: nat
  assumes "h < length (hnd n)" and "\<not> closing (carrier_of n h)" and "d < length (hnd n)" and "\<not> closing (carrier_of n d)"
    and "d \<noteq> h" and "i \<noteq> 0"
  defines "m \<equiv> bootstrap_session h i conn sid d sent anchored now n"
  shows "established (length (ses n)) i h d m" "ctrlOut (carrier_of m h) = ctrlOut (carrier_of n h) @ [ack_frame i 0]"
proof -
  define s where "s = OnClose 0 (node_session None (Some conn) i)"
  define n1 where "n1 = snd (register d i n)"
  note reg = register_open [OF assms(3,4,6)]
  define r where "r = length (ses n)"
  define n2 where "n2 = snd (publish_session s sid now n1)"
  have s: "\<not> is_closing s" "StreamIDUp s = i" "StreamIDDown s = i" by (simp_all add: s_def)
  have r1: "length (ses n1) = r" by (simp add: n1_def r_def)
  note pub = publish_session_simps [OF s assms(6), where n = n1 and sid = sid and now = now, folded n2_def, unfolded r1]
  have act: "fst (Activate (sess n2 r))" using pub(2) by (simp add: Activate_def s_def)
  define n3 where "n3 = upd_sess r (\<lambda>s. snd (Activate s)) n2"
  define n4 where "n4 = attach_both r h d n3"
  define n5 where "n5 = anchor_credit d i anchored now (upd_emitter (recordPeerGen now (d, i) (h_gen (hnd n ! d))) n4)"
  define n6 where "n6 = startChannelConsumer r DirUp h n5"
  define n7 where "n7 = n6\<lparr>relays := relays n6 @ [(r, DirDown)]\<rparr>"
  have m: "m = send_ack h i 0 n7"
    using reg(1) act pub(1) by (auto simp: m_def bootstrap_session_def Let_def case_prod_unfold n7_def n6_def n5_def n4_def n3_def
        n2_def n1_def s_def)
  have len: "r < length (ses n3)" and st3: "ses_state (sess n3 r) = StateActive"
    "att_of n3 r DirUp = Some NewAttachment" "att_of n3 r DirDown = Some NewAttachment"
    using pub(2,5) by (simp_all add: n3_def sess_upd_sess Activate_def att_of_def Att_def s_def)
  have st: "n_store n4 = n_store n2" "hnd n4 = hnd n1" using pub(8) by (simp_all add: n4_def n3_def)
  have "bound_to n4 r DirUp (h_gen (hnd n4 ! h)) 0 \<and> bound_to n4 r DirDown (h_gen (hnd n4 ! d)) 0"
    using attach_both_bound [OF len st3(2,3), of h d] by (simp add: n4_def)
  then have "established r i h d n4"
    using pub(7) len st3(1) st(1) by (simp add: established_def GetByStream_def n4_def)
  then have "established r i h d n5"
    by (rule established_keep) (simp_all add: n5_def)
  then have "established r i h d n6"
    by (auto simp: established_def n6_def startChannelConsumer_def consumer_bound [unfolded startChannelConsumer_def] sess_consumers)
  then have "established r i h d n7"
    by (rule established_keep) (simp_all add: n7_def sess_def)
  then show "established (length (ses n)) i h d m"
    unfolding m r_def by (rule established_keep) (simp_all add: send_ack_def control_frame_def)
  have "carrier_of n7 = carrier_of n5" by (simp add: n7_def n6_def carrier_of_def fun_eq_iff)
  moreover have "carrier_of n5 h = carrier_of n h"
    using pub(9) assms(5) by (simp add: n5_def n4_def n3_def) (simp add: n1_def register_other)
  moreover have "length (hnd n7) = length (hnd n)"
    using pub(8) by (simp add: n7_def n6_def n5_def n4_def n3_def) (simp add: n1_def)
  ultimately have c: "length (hnd n7) = length (hnd n)" "carrier_of n7 h = carrier_of n h" by simp_all
  then show "ctrlOut (carrier_of m h) = ctrlOut (carrier_of n h) @ [ack_frame i 0]"
    unfolding m using send_ack_out [of h n7 i 0] assms(1,2) by simp
qed

lemma bootstrap_session_refused:
  fixes now :: int and anchored sent :: bool and sid :: bytes and conn :: nat
  assumes "open_stream h i n" and "closing (carrier_of n d)"
  defines "m \<equiv> bootstrap_session h i conn sid d sent anchored now n"
  shows "ctrlOut (carrier_of m h) = ctrlOut (carrier_of n h) @ [ack_frame i 1, close_frame i]" "ses m = ses n"
    "n_store m = n_store n" "closed_conns m = closed_conns n @ [conn]"
proof -
  have r: "fst (register d i n) = None" "snd (register d i n) = n"
    using assms(2) by (simp_all add: register_def Register_def upd_carrier_def upd_handle_def carrier_of_def)
  then have m: "m = drop_bootstrap h i sent 1 (close_target conn n)"
    by (simp add: m_def bootstrap_session_def Let_def case_prod_unfold)
  have o: "open_stream h i (close_target conn n)" using assms(1) open_stream_cong [of "close_target conn n" n h i] by simp
  show "ctrlOut (carrier_of m h) = ctrlOut (carrier_of n h) @ [ack_frame i 1, close_frame i]" "ses m = ses n"
    "n_store m = n_store n" "closed_conns m = closed_conns n @ [conn]"
    using drop_bootstrap_out [OF o, of sent 1] by (simp_all add: m)
qed

text \<open>The carrier the bootstrap puts the down stream on.\<close>

definition bootstrap_down :: "int \<Rightarrow> nat \<Rightarrow> Node \<Rightarrow> nat" where
  "bootstrap_down now d n = (case fst (pickDownForNewStream now n) of Some x \<Rightarrow> x | None \<Rightarrow> d)"

lemma pickDown_metric: "fst (pickDownForNewStream now (metric f n)) = fst (pickDownForNewStream now n)"
  by (simp add: pickDownForNewStream_def ready_of_def carrier_of_def case_prod_unfold Let_def split: option.splits)

text \<open>C8. The Germany node answers a session start exactly once. If the target was dialled, a down carrier
  was found and the stream could be registered on it, the one frame it writes on the up carrier
  is the acknowledgement with status 0, and the session is published, active and bound to both
  carriers. In every other case it writes a non-zero status and then the close of the stream, publishes
  no session, and closes the target connection if there is one.\<close>

theorem bootstrap_answered_once:
  assumes "open_stream h i n" and "i \<noteq> 0"
    and "\<forall>d. downH = Some d \<longrightarrow> bootstrap_down now d n \<noteq> h \<and> bootstrap_down now d n < length (hnd n)"
  shows "let m = bootstrapUpStream h i (Some (Some p)) dial downH sid sent anchored now n;
             out = drop (length (ctrlOut (carrier_of n h))) (ctrlOut (carrier_of m h))
         in if \<exists>dest conn d. ParseDestinationFromBuf p = Some dest \<and> dial dest = Inr conn \<and> downH = Some d \<and>
                 \<not> closing (carrier_of n (bootstrap_down now d n))
            then out = [ack_frame i 0] \<and> (\<exists>d. downH = Some d \<and> established (length (ses n)) i h (bootstrap_down now d n) m)
            else (\<exists>st. st \<noteq> 0 \<and> out = [ack_frame i st, close_frame i]) \<and> ses m = ses n \<and> n_store m = n_store n \<and>
                 (\<forall>dest conn. ParseDestinationFromBuf p = Some dest \<and> dial dest = Inr conn \<longrightarrow> conn \<in> set (closed_conns m))"
proof (cases "ParseDestinationFromBuf p")
  case None
  then show ?thesis using drop_bootstrap_out [OF assms(1), of sent 1] by (auto simp: bootstrapUpStream_def Let_def intro: exI [of _ 1])
next
  case (Some dest)
  note p = Some
  show ?thesis
  proof (cases "dial dest")
    case (Inl e)
    have "open_stream h i (count_dial_failure e n)" using assms(1) open_stream_cong [of "count_dial_failure e n" n h i] by simp
    from drop_bootstrap_out [OF this, of sent "bootstrapAckStatus e"]
    show ?thesis using p Inl bootstrapAckStatus_nonzero [of e] by (auto simp: bootstrapUpStream_def Let_def)
  next
    case (Inr conn)
    let ?n1 = "metric TargetDialSuccess n"
    have o1: "open_stream h i (close_target conn ?n1)" using assms(1) open_stream_cong [of "close_target conn ?n1" n h i] by simp
    show ?thesis
    proof (cases downH)
      case None
      then show ?thesis using p Inr drop_bootstrap_out [OF o1, of sent 1]
        by (auto simp: bootstrapUpStream_def Let_def intro: exI [of _ 1])
    next
      case (Some d)
      define n2 where "n2 = snd (pickDownForNewStream now ?n1)"
      define b where "b = bootstrap_down now d n"
      have k: "carrier_of n2 = carrier_of n" "hnd n2 = hnd n" "ses n2 = ses n" "n_store n2 = n_store n" "closed_conns n2 = closed_conns n"
        by (simp_all add: n2_def pickDown_frame)
      have m: "bootstrapUpStream h i (Some (Some p)) dial downH sid sent anchored now n = bootstrap_session h i conn sid b sent anchored now n2"
        using p Inr Some by (simp add: bootstrapUpStream_def Let_def case_prod_unfold n2_def b_def bootstrap_down_def pickDown_metric)
      have b: "b \<noteq> h" "b < length (hnd n2)" using assms(3) Some by (simp_all add: b_def k)
      have o2: "open_stream h i n2" using assms(1) open_stream_cong [of n2 n h i] k by simp
      show ?thesis
      proof (cases "closing (carrier_of n2 b)")
        case True
        then show ?thesis
          using bootstrap_session_refused [OF o2 True, of conn sid sent anchored now] p Inr Some
          unfolding Let_def m by (auto simp: k b_def [symmetric] intro: exI [of _ 1])
      next
        case False
        have "h < length (hnd n2)" "\<not> closing (carrier_of n2 h)" using o2 by (simp_all add: open_stream_def)
        from bootstrap_session_ok [OF this b(2) False b(1) assms(2), of conn sid sent anchored now] False
        show ?thesis using p Inr Some unfolding Let_def m by (auto simp: k b_def [symmetric])
      qed
    qed
  qed
qed

section \<open>Starting a session\<close>

text \<open>A session that can still be closed, and what closing it leaves.\<close>

definition closable :: "nat \<Rightarrow> u32 \<Rightarrow> bytes \<Rightarrow> Node \<Rightarrow> bool" where
  "closable r i sid n \<longleftrightarrow> r < length (ses n) \<and> (ses_state (sess n r) = StatePending \<or> ses_state (sess n r) = StateActive) \<and>
     \<not> once_done (sess n r) \<and> 0 \<in> set (onClose (sess n r)) \<and> so_id (ses n ! r) = sid \<and>
     st_sessions (n_store n) sid = Some r \<and> StreamIDUp (sess n r) = i \<and> StreamIDDown (sess n r) = i"

definition session_released :: "nat \<Rightarrow> u32 \<Rightarrow> bytes \<Rightarrow> Node \<Rightarrow> bool" where
  "session_released r i sid n \<longleftrightarrow> ses_state (sess n r) = StateClosed \<and> unregistered n DirUp i \<and> unregistered n DirDown i \<and> credit_free n i \<and>
     st_sessions (n_store n) sid = None \<and> st_streams (n_store n) i = None"

lemma close_releases:
  assumes "closable r i sid n" and "i \<noteq> 0"
  shows "session_released r i sid (close_session r rsn n)"
    "cnt (n_metrics (close_session r rsn n)) activeSessions = cnt (n_metrics n) activeSessions - 1"
    "q \<noteq> r \<Longrightarrow> sess (close_session r rsn n) q = sess n q"
proof -
  have c: "r < length (ses n)" "ses_state (sess n r) = StatePending \<or> ses_state (sess n r) = StateActive"
    "\<not> once_done (sess n r)" "0 \<in> set (onClose (sess n r))" "st_sessions (n_store n) (so_id (ses n ! r)) = Some r"
    "StreamIDUp (sess n r) \<noteq> 0" "StreamIDDown (sess n r) \<noteq> 0" "so_id (ses n ! r) = sid"
    "StreamIDUp (sess n r) = i" "StreamIDDown (sess n r) = i"
    using assms by (simp_all add: closable_def)
  note rel = close_session_releases [OF c(1-7), of rsn, unfolded c(8-10) Let_def]
  show "session_released r i sid (close_session r rsn n)" using rel by (simp add: session_released_def)
  show "cnt (n_metrics (close_session r rsn n)) activeSessions = cnt (n_metrics n) activeSessions - 1" using rel by blast
  show "q \<noteq> r \<Longrightarrow> sess (close_session r rsn n) q = sess n q" using rel by blast
qed

lemma closable_cong:
  assumes "closable r i sid n" and "ses m = ses n" and "n_store m = n_store n"
  shows "closable r i sid m"
  using assms by (simp add: closable_def sess_def)

lemma closable_publish:
  fixes n s sid now
  defines "m \<equiv> snd (publish_session s sid now n)"
  assumes "ses_state s = StatePending" "\<not> once_done s" "onClose s = [0]" "StreamIDUp s = i" "StreamIDDown s = i" "i \<noteq> 0"
  shows "closable (length (ses n)) i sid m"
proof -
  have "\<not> is_closing s" using assms(2) by (simp add: is_closing_def)
  from publish_session_simps [OF this assms(5-7), where n = n and sid = sid and now = now]
  show ?thesis using assms by (simp add: closable_def)
qed

lemma closable_sess:
  assumes "closable r i sid n" and "r < length (ses n) \<Longrightarrow> sess m r = f (sess n r)" and "length (ses m) = length (ses n)"
    and "n_store m = n_store n" and "so_id (ses m ! r) = so_id (ses n ! r)"
    and "\<And>s. once_done (f s) = once_done s \<and> onClose (f s) = onClose s \<and> StreamIDUp (f s) = StreamIDUp s \<and> StreamIDDown (f s) = StreamIDDown s"
    and "ses_state (f (sess n r)) = StateActive"
  shows "closable r i sid m"
  using assms by (simp add: closable_def)

lemma nextStreamID_nonzero: "fst (nextStreamID n) \<noteq> 0"
  by (simp add: nextStreamID_def Let_def)

lemma fresh_bootstrap [simp]:
  "ses_state (snd (SetBootstrapChannel (OnClose 0 (node_session c t i)))) = StatePending"
  "once_done (snd (SetBootstrapChannel (OnClose 0 (node_session c t i)))) = False"
  "onClose (snd (SetBootstrapChannel (OnClose 0 (node_session c t i)))) = [0]"
  "StreamIDUp (snd (SetBootstrapChannel (OnClose 0 (node_session c t i)))) = i"
  "StreamIDDown (snd (SetBootstrapChannel (OnClose 0 (node_session c t i)))) = i"
  "UpAtt (snd (SetBootstrapChannel (OnClose 0 (node_session c t i)))) = Some NewAttachment"
  "DownAtt (snd (SetBootstrapChannel (OnClose 0 (node_session c t i)))) = Some NewAttachment"
  "bootstrapC (snd (SetBootstrapChannel (OnClose 0 (node_session c t i)))) = Some []"
  by (simp_all add: SetBootstrapChannel_def OnClose_def node_session_def NewSession_def)

lemma h_out_upd_carrier [simp]: "h_out (hnd (upd_carrier h f n) ! x) = h_out (hnd n ! x)"
  by (cases "h < length (hnd n)") (simp_all add: upd_carrier_def upd_handle_def nth_list_update_if)

lemma write_sent:
  "fst (carrier_WriteFrame h i t p werr n) = None \<Longrightarrow> h < length (hnd n) \<Longrightarrow>
     h_out (hnd (snd (carrier_WriteFrame h i t p werr n)) ! h) = h_out (hnd n ! h) @ [(i, t, p)]"
  by (auto simp: carrier_WriteFrame_def upd_handle_def split: if_splits option.splits)

lemma start_relays_frame [simp]:
  "hnd (start_relays r i u d now n) = hnd n" "q \<noteq> r \<Longrightarrow> sess (start_relays r i u d now n) q = sess n q"
  by (simp_all add: start_relays_def Let_def attach_both_def)

lemma start_relays_established:
  assumes "r < length (ses n)" and "ses_state (sess n r) = StateActive" and "GetByStream i (n_store n) = Some r"
    and "att_of n r DirUp = Some NewAttachment" and "att_of n r DirDown = Some NewAttachment"
  shows "established r i u d (start_relays r i u d now n)"
proof -
  let ?n1 = "attach_both r u d n"
  define n2 where "n2 = upd_emitter (recordPeerGen now (d, i) (h_gen (hnd n ! d))) ?n1"
  have e1: "established r i u d ?n1"
    using assms attach_both_bound [OF assms(1,4,5)] by (simp add: established_def)
  have e2: "established r i u d n2" using e1 by (rule established_keep) (simp_all add: n2_def)
  then have e3: "established r i u d (n2\<lparr>relays := relays n2 @ [(r, DirUp)]\<rparr>)"
    by (rule established_keep) (simp_all add: sess_def)
  have keep: "established r i u d m \<Longrightarrow> established r i u d (startChannelConsumer r d' h' m)" for m d' h'
    by (auto simp: established_def consumer_bound) (auto simp: startChannelConsumer_def sess_consumers)
  show ?thesis using keep [OF keep [OF e3]] by (simp add: start_relays_def Let_def n2_def)
qed



definition demo_open :: Node where
  "demo_open = snd (register 0 5 ((demo_node RoleGermany [])
     \<lparr>hnd := [new_handle 1 DefaultUpCarrierID DirUp (demo_cfg RoleGermany []),
              new_handle 2 DefaultDownCarrierID DirDown (demo_cfg RoleGermany [])], genSeq := 2\<rparr>))"

lemma demo_open_simps:
  "open_stream 0 5 demo_open" "length (hnd demo_open) = 2" "fst (pickDownForNewStream 0 demo_open) = None" "length (ses demo_open) = 0"
  "\<not> closing (carrier_of demo_open 1)"
  by code_simp+

theorem bootstrap_answered_once_witness:
  "established 0 5 0 1 (bootstrapUpStream 0 5 (Some (Some (WriteDestinationBuffer \<lparr>AddrType = AddrTypeIPv4, Addr = ''1.2.3.4'', Port = 80\<rparr>)))
     (\<lambda>d. Inr 3) (Some 1) (replicate 16 1) False False 0 demo_open)"
proof -
  let ?p = "WriteDestinationBuffer \<lparr>AddrType = AddrTypeIPv4, Addr = ''1.2.3.4'', Port = 80\<rparr>"
  have "ParseDestinationFromBuf ?p \<noteq> None" by code_simp
  moreover have "bootstrap_down 0 1 demo_open = 1" by (simp add: bootstrap_down_def demo_open_simps)
  ultimately show ?thesis
    using bootstrap_answered_once [of 0 5 demo_open "Some 1" 0 ?p "\<lambda>d. Inr 3" "replicate 16 1" False False] demo_open_simps
    by (simp add: Let_def)
qed

section \<open>Credits across the two nodes\<close>

definition matching_credit :: "u64 \<Rightarrow> ledger_op \<Rightarrow> bool" where
  "matching_credit g x = (case x of LCredit p _ \<Rightarrow> Gen p = g | LReset _ \<Rightarrow> True | _ \<Rightarrow> False)"

lemma unmatched_do:
  assumes "ledger_do cap x (l, adm, sent) = Some (l', adm', sent')" and "\<not> matching_credit (cr_gen l) x"
  shows "cr_gen l' = cr_gen l" "lastSeen l' = lastSeen l"
  using assms
  by (cases x; auto simp: matching_credit_def onCredit_def recordSent_def latchSafelyCapped_def split: if_splits)+

lemma unmatched_run:
  assumes "ledger_run cap xs (l, adm, sent) = Some (l', adm', sent')" and "\<forall>x\<in>set xs. \<not> matching_credit (cr_gen l) x"
  shows "lastSeen l' = lastSeen l"
  using assms
proof (induction xs arbitrary: l adm sent)
  case (Cons x xs)
  then obtain l1 a1 s1 where "ledger_do cap x (l, adm, sent) = Some (l1, a1, s1)" "ledger_run cap xs (l1, a1, s1) = Some (l', adm', sent')"
    by (auto split: option.splits)
  then show ?case using unmatched_do [of cap x l adm sent l1 a1 s1] Cons.IH [of l1 a1 s1] Cons.prems(2) by simp
qed simp

lemma consume_frame_gen:
  assumes "recs e k = Some rc"
  shows "\<exists>rc'. recs (snd (consume_frame k f e)) k = Some rc' \<and> peerGen rc' = peerGen rc"
    "\<And>p. fst (consume_frame k f e) = Some p \<Longrightarrow> Gen p = peerGen rc"
  using assms
  by (cases f; auto simp: consume_frame_def recordConsumed_def emit_credit_def recordLocked_def buildPayload_def Let_def split: if_splits)+

lemma consume_all_gen:
  "recs e k = Some rc \<Longrightarrow> p \<in> set (fst (consume_all k fs e)) \<Longrightarrow> Gen p = peerGen rc"
proof (induction fs arbitrary: e rc)
  case (Cons f fs)
  obtain rc' where r: "recs (snd (consume_frame k f e)) k = Some rc'" "peerGen rc' = peerGen rc"
    using consume_frame_gen(1) [OF Cons.prems(1)] by blast
  show ?case
    using Cons.prems(2) consume_frame_gen(2) [OF Cons.prems(1), of f] Cons.IH [OF r(1)] r(2)
    by (auto simp: case_prod_unfold Let_def split: option.splits)
qed simp

lemma start_relays_peerGen:
  assumes "n_emitter n = Some e"
  shows "\<exists>e'. n_emitter (start_relays r i u d now n) = Some e' \<and>
     (\<exists>rc. recs e' (d, i) = Some rc \<and> peerGen rc = h_gen (hnd n ! d))"
  using assms by (simp add: start_relays_def Let_def attach_both_def upd_emitter_def recordPeerGen_def startChannelConsumer_def)

text \<open>Credits only work if both nodes give a down carrier the same number. The Iran node stamps
  the credits of a started session with its own generation of the carrier, and the Germany node's ledger takes
  credits of its own generation only; the generations are counted per node over the carriers of
  both directions. If they differ, no credit is ever accepted: whatever the node receives and however often the
  fallback timer fires, the stream carries at most one window of \<open>cap\<close> bytes in total, all of which
  stay outstanding.\<close>

lemma mismatched_generations_starve:
  assumes "n_emitter nI = Some e" and "gG \<noteq> h_gen (hnd nI ! downH)"
    and "ledger_run cap xs (new_ledger gG, 0, 0) = Some (l, adm, sent)"
    and "\<forall>x\<in>set xs. case x of
           LCredit p _ \<Rightarrow> p \<in> set (fst (consume_all (downH, i) fs (the (n_emitter (start_relays r i upH downH now nI)))))
         | LReset _ \<Rightarrow> False | _ \<Rightarrow> True"
  shows "sent \<le> cap \<and> outstanding l = sent"
proof -
  obtain e' rc where e: "n_emitter (start_relays r i upH downH now nI) = Some e'" "recs e' (downH, i) = Some rc"
    "peerGen rc = h_gen (hnd nI ! downH)"
    using start_relays_peerGen [OF assms(1), of r i upH downH now] by blast
  have "\<not> matching_credit gG x" if x: "x \<in> set xs" for x
    using assms(2) bspec [OF assms(4) x] e consume_all_gen [OF e(2), of _ fs]
    by (cases x) (auto simp: matching_credit_def)
  then have "lastSeen l = 0" using unmatched_run [OF assms(3)] by (simp add: new_ledger_def)
  moreover have "ledger_inv cap (l, adm, sent)" using ledger_run_inv [OF new_ledger_inv assms(3)] .
  ultimately show ?thesis by simp
qed

definition demo_credits :: "CreditPayload list" where
  "demo_credits = fst (consume_all (1, 5) [(0, 0, 70000)]
     (the (n_emitter (start_relays 0 5 0 1 0 ((demo_bound RoleIran 1)\<lparr>n_emitter := Some (newCreditEmitter 100000)\<rparr>)))))"

lemma mismatched_generations_starve_witness:
  "length demo_credits = 1 \<and>
   (case ledger_run 1000 [LGate 100, LSent 100, LCredit (hd demo_credits) 1] (new_ledger 1, 0, 0) of
      None \<Rightarrow> False | Some (l, adm, sent) \<Rightarrow> sent \<le> 1000 \<and> outstanding l = sent)"
proof -
  let ?n = "(demo_bound RoleIran 1)\<lparr>n_emitter := Some (newCreditEmitter 100000)\<rparr>"
  obtain p where p: "demo_credits = [p]" "Gen p = 2"
    by (simp add: demo_credits_def start_relays_def attach_both_def upd_emitter_def recordPeerGen_def startChannelConsumer_def
        consume_frame_def recordConsumed_def recordLocked_def emit_credit_def buildPayload_def newCreditEmitter_def
        Let_def)
  have c: "length demo_credits = 1" by (simp only: p(1) list.size)
  obtain l adm sent where r: "ledger_run 1000 [LGate 100, LSent 100, LCredit (hd demo_credits) 1] (new_ledger 1, 0, 0) = Some (l, adm, sent)"
    unfolding p(1) list.sel using p(2) by (simp add: canSendLocked_def gate_limit_def new_ledger_def recordSent_def onCredit_def StaleCreditGeneration_def Let_def)
  have "hd demo_credits \<in> set demo_credits" by (simp only: p(1) list.sel list.set insertI1)
  then show ?thesis
    using c r mismatched_generations_starve [OF _ _ r, of ?n "newCreditEmitter 100000" 1 5 "[(0, 0, 70000)]" 0 0 0]
    by (simp add: demo_credits_def)
qed

end
