(* ===== verification/NodeRun.thy ===== *)
theory NodeRun
  imports Bootstrap
begin

text \<open>
  The node as a transition system: one step per entry point of \<^verbatim>\<open>src/pkg/node/node.go\<close> that a
  goroutine, a carrier callback or a timer runs, in any order. A run keeps every attachment well
  formed, the store inside the session table, and the generations of the carriers distinct; it also shows what
  the policy ever gets to see.

  The policy goroutine's tick is \<open>Evaluate\<close> and the probe scheduler; a tick on which the scheduler blocks
  ends the run. \<open>NCarrier\<close> is any change the carrier's own goroutines make to it.
\<close>

section \<open>The policy tick and readiness\<close>

definition policy_round :: "(int \<Rightarrow> int) \<Rightarrow> int \<Rightarrow> Node \<Rightarrow> Node option" where
  "policy_round midnight now n =
     (case n_policy (policy_tick now n) of
        None \<Rightarrow> Some n
      | Some p \<Rightarrow> (case policySchedProbe midnight now (p_ids p) p of
                     Inl _ \<Rightarrow> None | Inr (_, p1) \<Rightarrow> Some (n\<lparr>n_policy := Some p1\<rparr>)))"

definition UpReady :: "Node \<Rightarrow> bool" where
  "UpReady n = registry_Ready (ready_of n) (upReg n)"

definition DownReady :: "Node \<Rightarrow> bool" where
  "DownReady n = registry_Ready (ready_of n) (downReg n)"

definition DownCarrierReady :: "CarrierID \<Rightarrow> Node \<Rightarrow> bool" where
  "DownCarrierReady cid n \<longleftrightarrow> IsKnown cid (downReg n) \<and> Handle cid (downReg n) \<noteq> None"

definition SecondaryDownCarrierID :: "Node \<Rightarrow> CarrierID" where
  "SecondaryDownCarrierID n =
     (case KnownIDs (downReg n) of _ # c # _ \<Rightarrow> c | _ \<Rightarrow> SecondDownCarrierID)"

section \<open>An idle policy\<close>

text \<open>No carrier is active and none has a pass towards admission.\<close>

definition idle_health :: "CarrierHealth \<Rightarrow> bool" where
  "idle_health h \<longleftrightarrow> ch_State h \<noteq> stateActive \<and> CandidatePasses h = 0 \<and> HalfOpenPasses h = 0"

definition policy_idle :: "Policy \<Rightarrow> bool" where
  "policy_idle p \<longleftrightarrow> 0 < AdmitPassesCand (p_cfg p) \<and> 0 < AdmitPassesHalf (p_cfg p) \<and> (\<forall>cid. idle_health (health_of p cid))"

lemma idle_new [simp]: "idle_health new_health"
  by (simp add: idle_health_def new_health_def)

lemma sanitize_admit: "0 < AdmitPassesCand (sanitizePolicyConfig c)" "0 < AdmitPassesHalf (sanitizePolicyConfig c)"
  unfolding sanitizePolicyConfig_def Let_def PolicyConfig.select_convs pos_def
  by (simp_all add: PolicyConfigDefaults_def)

lemma NewPolicy_idle: "NewPolicy cfg ids = Inr p \<Longrightarrow> policy_idle p"
  using sanitize_admit [of cfg] by (auto simp: NewPolicy_def policy_idle_def health_of_def Let_def split: if_splits)

lemma upd_health_idle: "policy_idle p \<Longrightarrow> (\<And>h. idle_health h \<Longrightarrow> idle_health (f h)) \<Longrightarrow> policy_idle (upd_health cid f p)"
  by (auto simp: policy_idle_def upd_health_def health_of_def split: option.splits)

lemma record_idle:
  assumes "policy_idle p"
  shows "policy_idle (RecordPassiveBytes pow cid k now p)" "policy_idle (RecordReset cid now p)"
    "policy_idle (RecordFlap cid now p)" "policy_idle (RecordRebind cid p)"
  using upd_health_idle [OF assms]
  by (simp_all add: RecordPassiveBytes_def RecordReset_def RecordFlap_def RecordRebind_def passive_sample_def idle_health_def assms)

lemma excludeLocked_idle: "idle_health h \<Longrightarrow> idle_health (excludeLocked cfg now rsn h)"
  by (simp add: excludeLocked_def idle_health_def Let_def)

lemma advanceLifecycle_idle:
  assumes "idle_health h" and "0 < AdmitPassesCand cfg" and "0 < AdmitPassesHalf cfg"
  shows "idle_health (advanceLifecycle cfg scp now h)"
proof -
  note x = excludeLocked_idle [OF assms(1)]
  show ?thesis
  proof (cases "ch_State h")
    case stateCandidate
    then show ?thesis using assms x by (simp add: advanceLifecycle_def) (simp add: idle_health_def)
  next
    case stateExcluded
    then show ?thesis using assms(1) by (simp add: advanceLifecycle_def idle_health_def split: option.split)
  next
    case stateHalfOpen
    then show ?thesis using assms x by (simp add: advanceLifecycle_def) (simp add: idle_health_def)
  qed (use assms(1) in \<open>simp add: idle_health_def\<close>)
qed

lemma evaluate_one_idle:
  "idle_health h \<Longrightarrow> 0 < AdmitPassesCand cfg \<Longrightarrow> 0 < AdmitPassesHalf cfg \<Longrightarrow> idle_health (evaluate_one cfg now h)"
  unfolding evaluate_one_def Let_def by (rule advanceLifecycle_idle) (simp_all add: idle_health_def)

lemma evaluate_all_idle: "policy_idle p \<Longrightarrow> policy_idle (evaluate_all now ids p)"
proof (induction ids arbitrary: p)
  case (Cons cid ids)
  have "policy_idle (p\<lparr>health := (health p)(cid \<mapsto> evaluate_one (p_cfg p) now (health_of p cid))\<rparr>)"
    using Cons.prems evaluate_one_idle by (auto simp: policy_idle_def health_of_def)
  then show ?case using Cons.IH by simp
qed simp

lemma idle_eligible: "policy_idle p \<Longrightarrow> eligibleActiveLocked now p = [] \<and> activeLocked p = []"
  by (auto simp: policy_idle_def idle_health_def eligibleActiveLocked_def activeLocked_def filter_empty_conv)

lemma policy_idle_cong: "p_cfg q = p_cfg p \<Longrightarrow> health q = health p \<Longrightarrow> policy_idle q = policy_idle p"
  by (simp add: policy_idle_def health_of_def)

lemma Evaluate_idle: "policy_idle p \<Longrightarrow> policy_idle (Evaluate now p)"
proof -
  assume a: "policy_idle p"
  define q where "q = (evaluate_all now (p_ids p) p)\<lparr>lastEval := Some now\<rparr>"
  have q: "policy_idle q" using evaluate_all_idle [OF a] by (simp add: q_def policy_idle_def health_of_def)
  then show ?thesis using idle_eligible [OF q, of now]
    by (simp add: Evaluate_def q_def [symmetric] Let_def hysteresis_def) (simp add: policy_idle_def health_of_def)
qed

lemma Pick_idle: "policy_idle p \<Longrightarrow> PickForNewStream now p = ('''', p)"
  using idle_eligible [of p now] by (simp add: PickForNewStream_def Let_def)

lemma roll_idle [simp]: "idle_health (rollProbeDay midnight now h) = idle_health h"
  by (simp add: rollProbeDay_def idle_health_def split: option.split)

lemma CanProbe_idle: "CanProbe midnight cid k now p = Inr (b, q) \<Longrightarrow> policy_idle p \<Longrightarrow> policy_idle q \<and> p_ids q = p_ids p"
  by (auto simp: CanProbe_def Lock_def Unlock_def policy_idle_def health_of_def Let_def split: if_splits option.splits)

lemma DueProbe_idle: "DueProbe midnight cid now full p = Inr (b, q) \<Longrightarrow> policy_idle p \<Longrightarrow> policy_idle q \<and> p_ids q = p_ids p"
  by (auto simp: DueProbe_def Lock_def CanProbe_def Unlock_def policy_idle_def health_of_def split: if_splits option.splits sum.splits)

lemma bind_idle:
  assumes "locked_bind m f = Inr (x, q)" and "\<And>y p1. m = Inr (y, p1) \<Longrightarrow> f y p1 = Inr (x, q) \<Longrightarrow> policy_idle q"
  shows "policy_idle q"
  using assms by (auto simp: locked_bind_def split: sum.splits)

lemma sched_idle: "policySchedProbe midnight now ids p = Inr ((), q) \<Longrightarrow> policy_idle p \<Longrightarrow> policy_idle q"
proof (induction ids arbitrary: p)
  case (Cons cid ids)
  show ?case using Cons.prems(1)
    apply simp
    apply (erule bind_idle, drule DueProbe_idle [OF _ Cons.prems(2)], erule conjE)
    apply (erule bind_idle, drule DueProbe_idle, assumption, erule conjE)
    apply (erule bind_idle, drule CanProbe_idle, assumption, erule conjE)
    apply (erule bind_idle, drule CanProbe_idle, assumption, erule conjE)
    by (erule Cons.IH)
qed simp

section \<open>The invariant of the node\<close>

definition gens_ok :: "Node \<Rightarrow> bool" where
  "gens_ok n \<longleftrightarrow> genSeq n = word_of_nat (length (hnd n)) \<and>
     map h_gen (hnd n) = map (\<lambda>k. word_of_nat (Suc k)) [0..<length (hnd n)]"

definition store_ok :: "Node \<Rightarrow> bool" where
  "store_ok n \<longleftrightarrow> (\<forall>i r. st_streams (n_store n) i = Some r \<longrightarrow> r < length (ses n)) \<and>
     (\<forall>i r. st_sessions (n_store n) i = Some r \<longrightarrow> r < length (ses n))"

definition node_ok :: "Node \<Rightarrow> bool" where
  "node_ok n \<longleftrightarrow> atts_ok n \<and> gens_ok n \<and> store_ok n \<and> (case n_policy n of None \<Rightarrow> True | Some p \<Rightarrow> policy_idle p)"

named_theorems ok_intros

lemma node_ok_frame:
  assumes "\<And>d q. q < length (ses n) \<Longrightarrow> att_of m q d = att_of n q d" and "length (ses m) = length (ses n)"
    and "n_store m = n_store n" and "n_policy m = n_policy n" and "genSeq m = genSeq n" and "map h_gen (hnd m) = map h_gen (hnd n)"
  shows "node_ok m = node_ok n"
proof -
  have "length (hnd m) = length (hnd n)" using assms(6) by (metis length_map)
  then show ?thesis using assms by (simp add: node_ok_def atts_ok_def gens_ok_def store_ok_def)
qed

lemma h_gen_done:
  "h_gen (hnd (upd_handle h (\<lambda>x. x\<lparr>h_done := dn\<rparr>) n) ! k) = h_gen (hnd n ! k)"
  "h_gen (hnd (upd_handle h (\<lambda>x. x\<lparr>h_lost := ls\<rparr>) n) ! k) = h_gen (hnd n ! k)"
  by (simp_all add: upd_handle_def nth_list_update_if)

lemma h_gens [simp]:
  "map h_gen (hnd (upd_carrier h f n)) = map h_gen (hnd n)"
  "map h_gen (hnd (deregister h i n)) = map h_gen (hnd n)" "map h_gen (hnd (snd (register h i n))) = map h_gen (hnd n)"
  "map h_gen (hnd (control_frame h i t p n)) = map h_gen (hnd n)"
  "map h_gen (hnd (snd (carrier_WriteFrame h i t p e n))) = map h_gen (hnd n)"
  "map h_gen (hnd (upd_handle h (\<lambda>x. x\<lparr>h_done := dn\<rparr>) n)) = map h_gen (hnd n)"
  "map h_gen (hnd (upd_handle h (\<lambda>x. x\<lparr>h_lost := ls\<rparr>) n)) = map h_gen (hnd n)"
  by (rule nth_equalityI; simp add: h_gen_done)+

lemma node_ok_keep [simp]:
  "node_ok (metric f n) = node_ok n" "node_ok (upd_gate g n) = node_ok n" "node_ok (upd_emitter e n) = node_ok n"
  "node_ok (upd_carrier h k n) = node_ok n" "node_ok (deregister h i n) = node_ok n" "node_ok (snd (register h i n)) = node_ok n"
  "node_ok (control_frame h i t p n) = node_ok n" "node_ok (snd (carrier_WriteFrame h i t p er n)) = node_ok n"
  "node_ok (set_reg dir rg n) = node_ok n" "node_ok (close_ready dir n) = node_ok n" "node_ok (renew_ready dir n) = node_ok n"
  "node_ok (upd_stats_of r st n) = node_ok n" "node_ok (upd_handle h (\<lambda>x. x\<lparr>h_done := dn\<rparr>) n) = node_ok n"
  "node_ok (upd_handle h (\<lambda>x. x\<lparr>h_lost := ls\<rparr>) n) = node_ok n"
  by (rule node_ok_frame; simp)+

lemma node_ok_fields [simp]:
  "node_ok (n\<lparr>consumers := cs\<rparr>) = node_ok n" "node_ok (n\<lparr>relays := rl\<rparr>) = node_ok n" "node_ok (n\<lparr>closed_conns := cc\<rparr>) = node_ok n"
  "node_ok (n\<lparr>ctx_done := b\<rparr>) = node_ok n" "node_ok (n\<lparr>lostMap := lm\<rparr>) = node_ok n" "node_ok (n\<lparr>n_emitter := em\<rparr>) = node_ok n"
  "node_ok (n\<lparr>streamSeq := q\<rparr>) = node_ok n" "node_ok (n\<lparr>upReg := ur\<rparr>) = node_ok n" "node_ok (n\<lparr>downReg := dr\<rparr>) = node_ok n"
  "node_ok (n\<lparr>n_buf := bf\<rparr>) = node_ok n" "node_ok (n\<lparr>n_gate := gt\<rparr>) = node_ok n"
  by (rule node_ok_frame; simp add: att_of_def sess_def)+

lemma upd_att_ok [ok_intros]:
  assumes "node_ok n" and "\<And>a. att_inv a \<Longrightarrow> att_inv (f a)"
  shows "node_ok (upd_att r dir f n)"
  using assms by (auto simp: node_ok_def atts_ok_def gens_ok_def store_ok_def att_upd_att split: if_splits option.splits)

lemma upd_sess_ok [ok_intros]:
  assumes "node_ok n" and "\<And>d. Att d (f (sess n r)) = Att d (sess n r) \<or> Att d (f (sess n r)) = map_option att_Close (Att d (sess n r))"
  shows "node_ok (upd_sess r f n)"
proof -
  have "att_inv a" if a: "att_of (upd_sess r f n) q d = Some a" and q: "q < length (ses n)" for q d a
  proof -
    have old: "att_inv b" if "att_of n q d = Some b" for b using assms(1) q that by (auto simp: node_ok_def atts_ok_def)
    show ?thesis using a q assms(2) [of d] old att_Close_inv
      by (cases "Att d (sess n q)") (auto simp: att_of_def sess_upd_sess split: if_splits)
  qed
  then show ?thesis using assms(1) by (simp add: node_ok_def atts_ok_def gens_ok_def store_ok_def)
qed

lemma upd_policy_ok [ok_intros]:
  assumes "node_ok n" and "\<And>p. policy_idle p \<Longrightarrow> policy_idle (f p)"
  shows "node_ok (upd_policy f n)"
  using assms by (auto simp: node_ok_def atts_ok_def gens_ok_def store_ok_def upd_policy_def att_of_def sess_def split: option.splits)

lemma deregister_all_ok [simp]: "node_ok (deregister_all hs i n) = node_ok n"
  by (induction hs i n rule: deregister_all.induct) simp_all

lemma store_Remove_sub:
  "st_streams (store_Remove tbl i ss) j = Some r \<Longrightarrow> st_streams ss j = Some r"
  "st_sessions (store_Remove tbl i ss) k = Some r \<Longrightarrow> st_sessions ss k = Some r"
  by (auto simp: store_Remove_def removeStreamsLocked_def Let_def split: option.splits if_splits)

lemma deregister_all_gens [simp]: "map h_gen (hnd (deregister_all hs i n)) = map h_gen (hnd n)"
  by (induction hs i n rule: deregister_all.induct) simp_all

lemma release_gens [simp]: "map h_gen (hnd (release_streams r n)) = map h_gen (hnd n)"
  by (simp add: release_streams_def Let_def)

lemma release_streams_ok: "node_ok n \<Longrightarrow> node_ok (release_streams r n)"
proof -
  assume a: "node_ok n"
  have "length (hnd (release_streams r n)) = length (hnd n)" using release_gens [of r n] by (metis length_map)
  moreover have "store_ok (release_streams r n)"
    using a by (auto simp: node_ok_def store_ok_def release_streams_def Let_def dest: store_Remove_sub)
  ultimately show ?thesis using a by (simp add: node_ok_def atts_ok_def gens_ok_def)
qed

lemma report_close_ok: "node_ok n \<Longrightarrow> downCarrierGenForSession r n = 0 \<Longrightarrow> node_ok (report_close r n)"
  by (rule node_ok_frame [THEN iffD2, rotated -1]) (simp_all add: report_close_policy)

lemma teardown_session_ok:
  assumes "node_ok n" and "r < length (ses n)"
  shows "node_ok (teardown_session r n)"
proof (cases "once_done (sess n r)")
  case False
  have "\<forall>a. att_of n r DirDown = Some a \<longrightarrow> att_inv a" using assms by (auto simp: node_ok_def atts_ok_def)
  note g = closed_generation [OF assms(2) False this]
  have "node_ok (upd_sess r teardown n)" using assms(1) teardown_atts [OF False] by (intro upd_sess_ok) simp_all
  then show ?thesis
    using False report_close_ok [OF release_streams_ok g] by (simp add: teardown_session_def onSessionClosed_def Let_def)
qed (use assms in \<open>simp add: teardown_session_def\<close>)

lemma close_session_ok [ok_intros]:
  assumes "node_ok n" and "r < length (ses n)"
  shows "node_ok (close_session r rsn n)"
proof -
  have "node_ok (upd_sess r (\<lambda>_. snd (Close_begin rsn (sess n r))) n)" using assms(1) by (intro upd_sess_ok) simp_all
  then show ?thesis using assms teardown_session_ok by (simp add: close_session_def Let_def case_prod_unfold)
qed

lemma mark_dir_closed_ok [ok_intros]:
  assumes "node_ok n" and "r < length (ses n)"
  shows "node_ok (mark_dir_closed r dir rsn n)"
proof -
  have "node_ok (upd_sess r (\<lambda>_. snd (MarkDirClosed_begin dir rsn (sess n r))) n)"
    using assms(1) MarkDirClosed_begin_att by (intro upd_sess_ok) simp_all
  then show ?thesis using assms teardown_session_ok by (simp add: mark_dir_closed_def Let_def case_prod_unfold)
qed

lemma store_lookup: "node_ok n \<Longrightarrow> GetByStream i (n_store n) = Some r \<Longrightarrow> r < length (ses n)"
  by (simp add: node_ok_def store_ok_def GetByStream_def)


lemma att_op_inv:
  assumes "att_inv a"
  shows "att_inv (snd (Attach g a))" "att_inv (snd (Detach g a))" "att_inv (snd (BeginRebind a))" "att_inv (snd (FailRebind a))"
    "att_inv (SetLastRebindGen g a)" "att_inv (SetEpochDone e a)" "att_inv (att_Close a)"
  using assms att_Close_inv [OF assms]
  by (auto simp: att_defs att_inv_def split: if_splits option.splits)

lemma note_ok [ok_intros]:
  "node_ok n \<Longrightarrow> node_ok (noteCarrierLoss cid now n)" "node_ok n \<Longrightarrow> node_ok (noteCarrierFlap cid now n)"
  "node_ok n \<Longrightarrow> node_ok (noteRebind cid n)" "node_ok n \<Longrightarrow> node_ok (noteCarrierDelivery pow cid k now n)"
  by (auto simp: noteCarrierLoss_def noteCarrierFlap_def noteRebind_def noteCarrierDelivery_def intro!: upd_policy_ok record_idle)

lemma detach_sweep_ok [ok_intros]: "node_ok n \<Longrightarrow> node_ok (detach_sweep dir g rs n)"
  by (induction dir g rs n rule: detach_sweep.induct) (auto intro!: upd_att_ok att_op_inv)

lemma consumer_ok [ok_intros]: "node_ok n \<Longrightarrow> node_ok (startChannelConsumer r dir h n)"
  by (auto simp: startChannelConsumer_def intro!: upd_att_ok att_op_inv)

lemma failRebind_ok [ok_intros]: "node_ok n \<Longrightarrow> node_ok (failRebind r dir n)"
  by (auto simp: failRebind_def intro!: upd_att_ok att_op_inv)

lemma rebind_prepare_inv: "node_ok n \<Longrightarrow> node_ok (snd (rebind_prepare dir h r n))"
  by (auto simp: rebind_prepare_def intro!: upd_att_ok att_op_inv split: option.splits)

lemma rebind_credit_ok [simp]: "node_ok (rebind_credit h i pg now n) = node_ok n"
  by (simp add: rebind_credit_def Let_def)

lemma rebind_claim_inv: "node_ok n \<Longrightarrow> node_ok (snd (rebind_claim dir h werr r n))"
  unfolding rebind_claim_def Let_def
  by (auto intro!: failRebind_ok upd_att_ok att_op_inv rebind_prepare_inv split: option.splits)

lemma rebind_attach_inv: "node_ok n \<Longrightarrow> node_ok (snd (rebind_attach dir h now r n))"
  unfolding rebind_attach_def Let_def
  by (auto intro!: ok_intros att_op_inv split: option.splits)

lemma rebind_one_inv: "node_ok n \<Longrightarrow> node_ok (snd (rebind_one dir h werr now r n))"
  by (simp add: rebind_one_def Let_def rebind_claim_inv rebind_attach_inv)

lemma rebind_sweep_inv: "node_ok n \<Longrightarrow> node_ok (snd (rebind_sweep dir h werr now rs n))"
  by (induction rs arbitrary: n) (simp_all add: Let_def rebind_one_inv)

lemma fail_over_inv: "node_ok n \<Longrightarrow> node_ok (fail_over dir werr now rs hs n)"
  by (induction hs arbitrary: n) (simp_all add: Let_def rebindDirection_def rebind_sweep_inv)

lemma onCarrierReady_ok: "node_ok n \<Longrightarrow> node_ok (onCarrierReady dir h werr now rs n)"
  by (simp add: onCarrierReady_def rebindDirection_def rebind_sweep_inv)

lemma dropIfCurrent_ok [simp]: "node_ok (dropIfCurrent dir h n) = node_ok n"
  by (simp add: dropIfCurrent_def)

lemma onCarrierLost_ok: "node_ok n \<Longrightarrow> node_ok (onCarrierLost dir h werr now rs n)"
  by (simp add: onCarrierLost_def carrier_lost_locked_def carrier_lost_count_def Let_def fail_over_inv ok_intros)

lemma goroutine_end_ok: "node_ok n \<Longrightarrow> node_ok (carrier_goroutine_end dir h werr now rs n)"
  by (simp add: carrier_goroutine_end_def Let_def onCarrierLost_ok)


lemma install_locked_ok:
  assumes "install_locked cid dir n = Inr (h, old, lost, m)" and "node_ok n"
  shows "node_ok m"
proof -
  let ?k = "n\<lparr>genSeq := genSeq n + 1, hnd := hnd n @ [new_handle (genSeq n + 1) cid dir (n_cfg n)]\<rparr>"
  have "node_ok ?k" using assms(2)
    by (simp add: node_ok_def atts_ok_def store_ok_def gens_ok_def att_of_def sess_def new_handle_def)
  then show ?thesis using assms(1) by (auto simp: install_locked_def Let_def split: if_splits prod.splits sum.splits)
qed

lemma count_reconnect_ok [simp]: "node_ok (count_reconnect cid n) = node_ok n"
  by (simp add: count_reconnect_def)

lemma installFor_begin_ok:
  assumes "installFor_begin cid dir now n = Inr (h, old, lost, m)" and "node_ok n"
  shows "node_ok m"
  using assms(1) install_locked_ok [OF _ assms(2)]
  by (auto simp: installFor_begin_def Let_def intro!: ok_intros split: sum.splits prod.splits option.splits if_splits)

lemma installFor_settle_ok: "node_ok n \<Longrightarrow> node_ok (installFor_settle dir h old lost settled n)"
  by (simp add: installFor_settle_def Let_def)

lemma drop_rebind_ok [simp]: "node_ok (drop_rebind h i g why n) = node_ok n"
  by (simp add: drop_rebind_def Let_def)

lemma rebind_check_inv: "node_ok n \<Longrightarrow> rebind_check dir h i rb n = Inr (r, m) \<Longrightarrow> node_ok m"
  by (auto simp: rebind_check_def Let_def intro!: upd_att_ok att_op_inv split: if_splits option.splits)

lemma rebind_accept_inv: "node_ok n \<Longrightarrow> node_ok (rebind_accept dir h i g now r n)"
  unfolding rebind_accept_def Let_def
  by (auto intro!: ok_intros att_op_inv split: option.splits)

lemma handleRebind_inv: "node_ok n \<Longrightarrow> node_ok (handleRebind dir h i recv now n)"
  by (auto simp: handleRebind_def rebind_accept_inv dest: rebind_check_inv split: option.splits sum.splits)

lemma handleStreamReset_ok: "node_ok n \<Longrightarrow> node_ok (handleStreamReset dir i rsn g n)"
  by (auto simp: handleStreamReset_def Let_def intro!: close_session_ok dest: store_lookup split: option.splits)

lemma timer_ok:
  "node_ok n \<Longrightarrow> r < length (ses n) \<Longrightarrow> node_ok (onGraceTimeout r dir n)"
  "node_ok n \<Longrightarrow> r < length (ses n) \<Longrightarrow> node_ok (finalizeDrain r n)"
  by (auto simp: onGraceTimeout_def finalizeDrain_def intro!: close_session_ok)

lemma ResolveBootstrap_att [simp]: "Att d (snd (ResolveBootstrap st s)) = Att d s"
  by (auto simp: ResolveBootstrap_def Att_def split: option.splits)

lemma hook_ok:
  "node_ok n \<Longrightarrow> node_ok (onStreamCredit_hook h i p n)" "node_ok n \<Longrightarrow> node_ok (onStreamTerminated_hook i n)"
  "node_ok n \<Longrightarrow> node_ok (onStreamDataUndeliverable_hook i n)" "node_ok n \<Longrightarrow> node_ok (onStreamBootstrapAck_hook i st n)"
  by (auto simp: onStreamCredit_hook_def onStreamTerminated_hook_def onStreamDataUndeliverable_hook_def onStreamBootstrapAck_hook_def
      Let_def case_prod_unfold intro!: upd_sess_ok split: option.splits)

lemma teardown_session_len [simp]: "length (ses (teardown_session r n)) = length (ses n)"
  by (simp add: teardown_session_def onSessionClosed_def Let_def)

lemma close_session_len [simp]: "length (ses (close_session r rsn n)) = length (ses n)"
  by (simp add: close_session_def Let_def case_prod_unfold)

lemma close_all_ok: "node_ok n \<Longrightarrow> \<forall>r\<in>set rs. r < length (ses n) \<Longrightarrow> node_ok (close_all_sessions rs n)"
  by (induction rs arbitrary: n) (simp_all add: close_session_ok)

lemma close_carriers_ok [simp]: "node_ok (close_carriers hs n) = node_ok n"
  by (induction hs arbitrary: n) simp_all

lemma node_Close_ok: "node_ok n \<Longrightarrow> \<forall>r\<in>set rs. r < length (ses n) \<Longrightarrow> node_ok (node_Close rs n)"
  by (simp add: node_Close_def Let_def case_prod_unfold close_all_ok)

lemma publish_ok:
  assumes "node_ok n" and "Att DirUp s = Some NewAttachment" and "Att DirDown s = Some NewAttachment"
  shows "node_ok (snd (publish_session s sid now n))"
proof -
  let ?m = "n\<lparr>ses := ses n @ [\<lparr>so_ses = s, so_id = sid, so_stats = new_stats now\<rparr>]\<rparr>"
  have "Att d s = Some NewAttachment" for d using assms(2,3) by (cases d) simp_all
  then have "atts_ok ?m"
    using assms(1) NewAttachment_inv by (auto simp: node_ok_def atts_ok_def att_of_def sess_def nth_append)
  then show ?thesis
    using assms(1)
    by (auto simp: node_ok_def gens_ok_def store_ok_def publish_session_def Let_def AddStream_def store_Add_def less_Suc_eq atts_ok_def
        att_of_def sess_def split: if_splits)
qed

lemma attach_both_ok: "node_ok n \<Longrightarrow> node_ok (attach_both r u d n)"
  by (auto simp: attach_both_def intro!: upd_att_ok att_op_inv)

lemma start_relays_ok: "node_ok n \<Longrightarrow> node_ok (start_relays r i u d now n)"
  by (auto simp: start_relays_def Let_def intro!: consumer_ok attach_both_ok)

lemma session_step_att [simp]:
  "Att d (snd (Activate s)) = Att d s" "Att d (snd (AdoptConn c s)) = Att d s"
  "Att d (snd (SetBootstrapChannel s)) = Att d s"
  by (auto simp: Activate_def AdoptConn_def SetBootstrapChannel_def Att_def)


lemma fresh_att [simp]:
  "Att DirUp (OnClose 0 (node_session c t i)) = Some NewAttachment" "Att DirDown (OnClose 0 (node_session c t i)) = Some NewAttachment"
  by (simp_all add: Att_def)

lemma publish_index [simp]: "fst (publish_session s sid now n) = length (ses n)"
  by (simp add: publish_session_def Let_def)

lemma publish_len [simp]: "length (ses (snd (publish_session s sid now n))) = Suc (length (ses n))"
  by (simp add: publish_session_def Let_def)

lemma start_ok:
  assumes "node_ok n"
  shows "node_ok (snd (startSessionCore upH downH sid dest conn adopt werr now n))"
proof -
  define s where "s = snd (SetBootstrapChannel (OnClose 0 (node_session None None (fst (nextStreamID n)))))"
  define n2 where "n2 = snd (publish_session s sid now (snd (nextStreamID n)))"
  have "node_ok (snd (nextStreamID n))" using assms by (simp add: nextStreamID_def Let_def)
  then have "node_ok n2" unfolding n2_def by (rule publish_ok) (simp_all add: s_def)
  moreover have "length (ses (snd (nextStreamID n))) < length (ses n2)" by (simp add: n2_def)
  ultimately show ?thesis
    unfolding startSessionCore_def Let_def case_prod_unfold s_def [symmetric] n2_def [symmetric] publish_index
    by (auto intro!: close_session_ok upd_sess_ok start_relays_ok split: option.splits)
qed

lemma send_ack_ok [simp]: "node_ok (send_ack h i st n) = node_ok n" "ses (send_ack h i st n) = ses n"
  by (simp_all add: send_ack_def)

lemma drop_bootstrap_ok [simp]: "node_ok (drop_bootstrap h i sent st n) = node_ok n"
  by (simp add: drop_bootstrap_def)

lemma close_target_ok [simp]: "node_ok (close_target c n) = node_ok n"
  by (simp add: close_target_def)

lemma count_dial_ok [simp]: "node_ok (count_dial_failure e n) = node_ok n"
  by (simp add: count_dial_failure_def)

lemma anchor_ok [simp]: "node_ok (anchor_credit d i an now n) = node_ok n"
  by (simp add: anchor_credit_def Let_def case_prod_unfold split: option.split)

lemma bootstrap_session_inv:
  assumes "node_ok n"
  shows "node_ok (bootstrap_session h i conn sid d sent anchored now n)"
proof -
  define s where "s = OnClose 0 (node_session None (Some conn) i)"
  define n2 where "n2 = snd (publish_session s sid now (snd (register d i n)))"
  have "node_ok (snd (register d i n))" using assms by simp
  then have "node_ok n2" unfolding n2_def by (rule publish_ok) (simp_all add: s_def)
  moreover have "length (ses (snd (register d i n))) < length (ses n2)" unfolding n2_def publish_len by simp
  ultimately show ?thesis
    using assms unfolding bootstrap_session_def Let_def case_prod_unfold s_def [symmetric] n2_def [symmetric] publish_index
    by (auto intro!: close_session_ok upd_sess_ok consumer_ok attach_both_ok)
qed

lemma pickDown_ok: "node_ok n \<Longrightarrow> snd (pickDownForNewStream now n) = n \<and> fst (pickDownForNewStream now n) = Primary (ready_of n) (downReg n)"
  by (auto simp: pickDownForNewStream_def node_ok_def Pick_idle Let_def split: option.splits)

lemma bootstrap_ok: "node_ok n \<Longrightarrow> node_ok (bootstrapUpStream h i recv dial downH sid sent anchored now n)"
  using pickDown_ok [of "metric TargetDialSuccess n" now]
  by (auto simp: bootstrapUpStream_def Let_def case_prod_unfold bootstrap_session_inv split: option.splits sum.splits)

lemma policy_round_ok: "node_ok n \<Longrightarrow> policy_round midnight now n = Some m \<Longrightarrow> node_ok m"
  using Evaluate_idle sched_idle
  by (auto simp: policy_round_def policy_tick_def upd_policy_def node_ok_def atts_ok_def gens_ok_def store_ok_def att_of_def sess_def
      split: option.splits sum.splits)

lemma NewNode_ok: "NewNode cfg = Inr n \<Longrightarrow> node_ok n"
  using NewPolicy_idle
  by (auto simp: NewNode_def Let_def node_ok_def atts_ok_def gens_ok_def store_ok_def NewSessionStore_def split: sum.splits if_splits)

section \<open>Runs\<close>

datatype node_op =
    NInstall CarrierID Direction int
  | NSettle Direction nat "nat option" bool bool
  | NReady Direction nat "nat \<Rightarrow> mux_error option" int "nat list"
  | NGoroutineEnd Direction nat "nat \<Rightarrow> mux_error option" int "nat list"
  | NRebind Direction nat u32 "bytes option option" int
  | NReset Direction u32 byte u64
  | NStart nat nat bytes Destination nat bool "mux_error option" int
  | NBootstrap nat u32 "bytes option option" "Destination \<Rightarrow> dial_err + nat" "nat option" bytes bool bool int
  | NClose nat string
  | NMarkDir nat Direction string
  | NGrace nat Direction
  | NDrain nat
  | NPick int
  | NTick "int \<Rightarrow> int" int
  | NDelivered "rat \<Rightarrow> rat" CarrierID int int
  | NCredit nat u32 CreditPayload
  | NAck u32 byte
  | NTerminated u32
  | NUndeliverable u32
  | NCarrier nat "CarrierConn \<Rightarrow> CarrierConn"
  | NShutdown

fun node_do :: "node_op \<Rightarrow> Node \<Rightarrow> Node option" where
  "node_do (NInstall cid dir now) n =
     (case installFor_begin cid dir now n of Inl _ \<Rightarrow> Some n | Inr (_, _, _, m) \<Rightarrow> Some m)"
| "node_do (NSettle dir h old lost settled) n = Some (installFor_settle dir h old lost settled n)"
| "node_do (NReady dir h werr now rs) n = Some (onCarrierReady dir h werr now rs n)"
| "node_do (NGoroutineEnd dir h werr now rs) n = Some (carrier_goroutine_end dir h werr now rs n)"
| "node_do (NRebind dir h i recv now) n = Some (handleRebind dir h i recv now n)"
| "node_do (NReset dir i rsn g) n = Some (handleStreamReset dir i rsn g n)"
| "node_do (NStart u d sid dest conn adopt werr now) n = Some (snd (startSessionCore u d sid dest conn adopt werr now n))"
| "node_do (NBootstrap h i recv dial d sid sent an now) n = Some (bootstrapUpStream h i recv dial d sid sent an now n)"
| "node_do (NClose r rsn) n = (if r < length (ses n) then Some (close_session r rsn n) else None)"
| "node_do (NMarkDir r dir rsn) n = (if r < length (ses n) then Some (mark_dir_closed r dir rsn n) else None)"
| "node_do (NGrace r dir) n = (if r < length (ses n) then Some (onGraceTimeout r dir n) else None)"
| "node_do (NDrain r) n = (if r < length (ses n) then Some (finalizeDrain r n) else None)"
| "node_do (NPick now) n = Some (snd (pickDownForNewStream now n))"
| "node_do (NTick midnight now) n = policy_round midnight now n"
| "node_do (NDelivered pow cid k now) n = Some (noteCarrierDelivery pow cid k now n)"
| "node_do (NCredit h i p) n = Some (onStreamCredit_hook h i p n)"
| "node_do (NAck i st) n = Some (onStreamBootstrapAck_hook i st n)"
| "node_do (NTerminated i) n = Some (onStreamTerminated_hook i n)"
| "node_do (NUndeliverable i) n = Some (onStreamDataUndeliverable_hook i n)"
| "node_do (NCarrier h f) n = Some (upd_carrier h f n)"
| "node_do NShutdown n = Some (node_Close (Snapshot n) n)"

fun node_run :: "node_op list \<Rightarrow> Node \<Rightarrow> Node option" where
  "node_run [] n = Some n"
| "node_run (x # xs) n = (case node_do x n of None \<Rightarrow> None | Some m \<Rightarrow> node_run xs m)"

interpretation node_sys: run_system node_do node_run
  by unfold_locales simp_all

lemma node_do_ok: "node_ok n \<Longrightarrow> node_do x n = Some m \<Longrightarrow> node_ok m"
  by (cases x)
    (auto simp: installFor_settle_ok onCarrierReady_ok goroutine_end_ok handleRebind_inv handleStreamReset_ok start_ok bootstrap_ok
      close_session_ok mark_dir_closed_ok timer_ok pickDown_ok note_ok hook_ok node_Close_ok Snapshot_def
      dest: installFor_begin_ok policy_round_ok split: sum.splits prod.splits if_splits)

lemma node_run_ok: "node_run xs n = Some m \<Longrightarrow> node_ok n \<Longrightarrow> node_ok m"
  by (erule node_sys.exec_inv) (auto dest: node_do_ok)


section \<open>What every run keeps\<close>

text \<open>C14. The node's data stays well formed. In every state a run reaches from a new node, each
  attachment of each session is consistent: its ready channel is closed exactly while it is attached, it has
  no generation unless attached, no grace timer while attached or closed, and an armed timer can still fire;
  and both indices of the store only name sessions that exist.\<close>

theorem node_state_well_formed:
  assumes "NewNode cfg = Inr n0" and "node_run xs n0 = Some n"
  shows "(\<forall>r < length (ses n). \<forall>d a. att_of n r d = Some a \<longrightarrow>
            (readyClosed a \<longleftrightarrow> att_state a = AttAttached) \<and> (att_state a \<noteq> AttAttached \<longrightarrow> att_gen a = 0) \<and>
            (att_state a = AttAttached \<or> att_state a = AttClosed \<longrightarrow> timer a = None) \<and>
            (\<forall>t. timer a = Some t \<longrightarrow> t \<in> set (armed a) \<or> 0 < inflight a)) \<and>
         (\<forall>i r. GetByStream i (n_store n) = Some r \<longrightarrow> r < length (ses n)) \<and>
         (\<forall>sid r. store_Get sid (n_store n) = Some r \<longrightarrow> r < length (ses n))"
  using node_run_ok [OF assms(2) NewNode_ok [OF assms(1)]]
  by (auto simp: node_ok_def atts_ok_def att_inv_def store_ok_def GetByStream_def store_Get_def)

text \<open>C15. The generation of a carrier identifies it: carriers installed later have larger generations,
  over both directions and over reinstallations under one id, and no generation is 0 (which stands for no
  carrier), as long as fewer than \<open>2 ^ 64\<close> carriers have been installed.\<close>

theorem carrier_generations_increase:
  assumes "NewNode cfg = Inr n0" and "node_run xs n0 = Some n" and "length (hnd n) < 2 ^ 64"
    and "j < k" and "k < length (hnd n)"
  shows "0 < h_gen (hnd n ! j) \<and> h_gen (hnd n ! j) < h_gen (hnd n ! k)"
proof -
  have g: "map h_gen (hnd n) = map (\<lambda>k. word_of_nat (Suc k)) [0..<length (hnd n)]"
    using node_run_ok [OF assms(2) NewNode_ok [OF assms(1)]] by (simp add: node_ok_def gens_ok_def)
  have "h_gen (hnd n ! x) = word_of_nat (Suc x)" if "x < length (hnd n)" for x
    using arg_cong [OF g, of "\<lambda>l. l ! x"] that by simp
  then show ?thesis using assms(3-5) by (simp add: word_less_nat_alt unat_of_nat take_bit_eq_mod del: of_nat_Suc)
qed

text \<open>C16. The adaptive policy is never consulted with effect. Closing a session clears both attachments before
  the close hook looks up the carrier, so no stream outcome is ever recorded, and no probe is ever reported; hence
  in every run no carrier is admitted, and a new stream always goes to the ready carrier that comes first in the
  static order, whatever the configured mode and whatever was measured.\<close>

theorem policy_never_selects:
  assumes "NewNode cfg = Inr n0" and "node_run xs n0 = Some n"
  shows "pickDownForNewStream now n = (Primary (ready_of n) (downReg n), n) \<and>
     (\<forall>p cid. n_policy n = Some p \<longrightarrow> ch_State (health_of p cid) \<noteq> stateActive)"
  using node_run_ok [OF assms(2) NewNode_ok [OF assms(1)]] pickDown_ok [of n now]
  by (auto simp: node_ok_def policy_idle_def idle_health_def prod_eq_iff)

lemma start_relays_len [simp]: "length (ses (start_relays r i u d now n)) = length (ses n)"
  by (simp add: start_relays_def Let_def attach_both_def)

lemma close_session_hnd [simp]: "length (hnd (close_session r rsn n)) = length (hnd n)"
  by (simp add: close_session_def teardown_session_def onSessionClosed_def Let_def case_prod_unfold)

lemma start_len:
  "length (ses (snd (startSessionCore u d sid dest conn adopt werr now n))) = Suc (length (ses n))"
  "length (hnd (snd (startSessionCore u d sid dest conn adopt werr now n))) = length (hnd n)"
  by (simp_all add: startSessionCore_def Let_def case_prod_unfold split: option.split)
    (simp_all add: nextStreamID_def publish_session_def Let_def)

lemma node_run_append: "node_run (xs @ ys) n = (case node_run xs n of None \<Rightarrow> None | Some m \<Rightarrow> node_run ys m)"
  by (induction xs arbitrary: n) (auto split: option.splits)

definition demo_run :: "node_op list" where
  "demo_run = [NInstall DefaultUpCarrierID DirUp 0, NInstall ''a'' DirDown 1, NStart 0 1 (replicate 16 7) \<lparr>AddrType = AddrTypeIPv4, Addr = ''1.2.3.4'', Port = 80\<rparr> 3 True None 4]"

lemma demo_run_new: "NewNode (demo_cfg RoleIran [''a'', ''b'']) = Inr (demo_node RoleIran [''a'', ''b''])"
proof -
  have "isl (NewNode (demo_cfg RoleIran [''a'', ''b''])) = False" by code_simp
  then show ?thesis by (cases "NewNode (demo_cfg RoleIran [''a'', ''b''])") (simp_all add: demo_node_def)
qed

lemma demo_run_ends: "\<exists>n. node_run demo_run (demo_node RoleIran [''a'', ''b'']) = Some n \<and> length (hnd n) = 2 \<and> length (ses n) = 1"
proof -
  obtain m where m: "node_run (take 2 demo_run) (demo_node RoleIran [''a'', ''b'']) = Some m"
    "length (hnd m) = 2" "ses m = []"
  proof -
    have "map_option (\<lambda>n. (length (hnd n), length (ses n))) (node_run (take 2 demo_run) (demo_node RoleIran [''a'', ''b''])) = Some (2, 0)"
      by code_simp
    then show ?thesis by (cases "node_run (take 2 demo_run) (demo_node RoleIran [''a'', ''b''])") (auto intro: that)
  qed
  then have "node_run demo_run (demo_node RoleIran [''a'', ''b'']) = node_run (drop 2 demo_run) m"
    using node_run_append [of "take 2 demo_run" "drop 2 demo_run"] by (simp only: append_take_drop_id) simp
  then show ?thesis using m(2,3) by (simp add: demo_run_def start_len)
qed

theorem node_state_well_formed_witness:
  "\<exists>n. node_run demo_run (demo_node RoleIran [''a'', ''b'']) = Some n \<and> length (ses n) = 1 \<and>
     (\<forall>i r. GetByStream i (n_store n) = Some r \<longrightarrow> r < 1)"
proof -
  obtain n where n: "node_run demo_run (demo_node RoleIran [''a'', ''b'']) = Some n" "length (ses n) = 1" using demo_run_ends by blast
  then show ?thesis using node_state_well_formed [OF demo_run_new n(1)] by auto
qed

theorem carrier_generations_increase_witness:
  "\<exists>n. node_run demo_run (demo_node RoleIran [''a'', ''b'']) = Some n \<and> h_gen (hnd n ! 0) < h_gen (hnd n ! 1)"
proof -
  obtain n where n: "node_run demo_run (demo_node RoleIran [''a'', ''b'']) = Some n" "length (hnd n) = 2" using demo_run_ends by blast
  then show ?thesis using carrier_generations_increase [OF demo_run_new n(1), of 0 1] by simp
qed

theorem policy_never_selects_witness:
  "\<exists>n. node_run demo_run (demo_node RoleIran [''a'', ''b'']) = Some n \<and>
     pickDownForNewStream 9 n = (Primary (ready_of n) (downReg n), n)"
proof -
  obtain n where n: "node_run demo_run (demo_node RoleIran [''a'', ''b'']) = Some n" using demo_run_ends by blast
  then show ?thesis using policy_never_selects [OF demo_run_new n] by auto
qed

end
