(* ===== verification/Relay.thy ===== *)
theory Relay
  imports NodeRun
begin

text \<open>
  The relays (\<^verbatim>\<open>src/pkg/node/relays.go\<close>): shape A reads a socket and writes to the attached carrier, one
  goroutine per session and direction; shape B reads the stream channel of one carrier and writes to the
  socket, one goroutine per attachment epoch.

  A relay runs in steps between the points where it can block; between two steps the node may change in any
  way. The answers of the network and the sockets are arguments: \<open>werr k\<close> is the answer to the write
  when \<open>k\<close> bytes are pending, \<open>pow\<close> the exponential of the policy's averages. A step also returns what it did
  to sockets.
\<close>

datatype sock_event = SockWrite nat bytes | SockCloseWrite nat

section \<open>Reasons and policies\<close>

definition sockReadErr :: "Direction \<Rightarrow> string" where
  "sockReadErr dir = (if dir = DirUp then ''client socket read error'' else ''target socket read error'')"

definition sockWriteErr :: "Direction \<Rightarrow> string" where
  "sockWriteErr dir = (if dir = DirUp then ''target socket write error'' else ''client socket write error'')"

definition dirEOFReason :: "Direction \<Rightarrow> string" where
  "dirEOFReason dir = (if dir = DirUp then ''client EOF'' else ''target EOF'')"

datatype upReadPolicy = upReadSuppressed | upReadHalfClose

text \<open>\<open>closedErr\<close>: the error is \<^verbatim>\<open>os.ErrClosed\<close> or \<^verbatim>\<open>net.ErrClosed\<close>.\<close>

definition upReadErrorPolicy :: "Session \<Rightarrow> bool \<Rightarrow> upReadPolicy" where
  "upReadErrorPolicy s closedErr =
     (if ses_state s = StateClosing \<or> ses_state s = StateClosed then upReadSuppressed
      else if closedErr then upReadSuppressed else upReadHalfClose)"

section \<open>Writing to the attached carrier\<close>

text \<open>The generation a direction is attached to and its carrier, if the carrier can be written to.\<close>

definition pinned :: "nat \<Rightarrow> Direction \<Rightarrow> Node \<Rightarrow> (u64 \<times> nat) option" where
  "pinned r dir n =
     (case att_of n r dir of
        None \<Rightarrow> None
      | Some a \<Rightarrow>
          if att_state a \<noteq> AttAttached then None
          else (case handleForGen (att_gen a) n of
                  None \<Rightarrow> None
                | Some h \<Rightarrow> if ready_of n h then Some (att_gen a, h) else None))"

definition gated :: "Direction \<Rightarrow> Node \<Rightarrow> bool" where
  "gated dir n \<longleftrightarrow> n_gate n \<noteq> None \<and> dir = DirDown \<and> cfg_Role (n_cfg n) = RoleGermany"

text \<open>What follows the successful write of a chunk: counters, the policy's sample, the credit ledger and the
  refund of the budget.\<close>

definition charge_ledger :: "nat \<Rightarrow> u32 \<Rightarrow> nat \<Rightarrow> Node \<Rightarrow> Node" where
  "charge_ledger h i k n =
     metric (AddCreditSentBytes (int k))
       (upd_gate (\<lambda>g. upd_ledger i (recordSent k) (snd (gate_ledger (h_gen (hnd n ! h)) i g))) n)"

definition refund_chunk :: "bufKey \<Rightarrow> nat \<Rightarrow> Node \<Rightarrow> Node" where
  "refund_chunk bk k n =
     (let r = refund bk (int k) (n_buf n); n1 = n\<lparr>n_buf := snd r\<rparr>
      in if fst r > 0 then metric (AddSessionBufferReclaimed (fst r)) n1 else n1)"

definition sent_chunk :: "nat \<Rightarrow> nat \<Rightarrow> Direction \<Rightarrow> (rat \<Rightarrow> rat) \<Rightarrow> int \<Rightarrow> nat \<Rightarrow> Node \<Rightarrow> Node" where
  "sent_chunk h r dir pow now k n =
     (let n1 = noteCarrierDelivery pow (h_id (hnd n ! h)) (int k) now (metric (AddRelayBytesWritten (int k)) n);
          n2 = (if gated dir n then charge_ledger h (streamIDOf (sess n r) dir) k n1 else n1)
      in refund_chunk (r, dir = DirUp) k n2)"

text \<open>The loop of \<open>flushPending\<close>: whether everything was written, the chunks the carrier accepted, what is
  still pending.\<close>

function flush_loop ::
    "nat \<Rightarrow> u64 \<Rightarrow> nat \<Rightarrow> Direction \<Rightarrow> (nat \<Rightarrow> mux_error option) \<Rightarrow> (rat \<Rightarrow> rat) \<Rightarrow> int \<Rightarrow> bytes \<Rightarrow> Node \<Rightarrow>
     bool \<times> bytes list \<times> bytes \<times> Node" where
  "flush_loop h g r dir werr pow now pend n =
     (if pend = [] then (True, [], [], n)
      else (let chunk = take MaxPayload pend;
                w = carrier_WriteFrame h (streamIDOf (sess n r) dir) FrameData chunk (werr (length pend)) n
            in if fst w \<noteq> None
               then (False, [], pend, upd_att r dir (\<lambda>a. snd (Detach g a)) (metric RelayWriteFailure (snd w)))
               else (let (ok, cs, rest, m) =
                           flush_loop h g r dir werr pow now (drop MaxPayload pend)
                             (sent_chunk h r dir pow now (length chunk) (snd w))
                     in (ok, chunk # cs, rest, m))))"
  by pat_completeness auto

termination
  by (relation "measure (\<lambda>(h, g, r, dir, werr, pow, now, pend, n). length pend)") auto

declare flush_loop.simps [simp del]

definition flushPending ::
    "nat \<Rightarrow> Direction \<Rightarrow> (nat \<Rightarrow> mux_error option) \<Rightarrow> (rat \<Rightarrow> rat) \<Rightarrow> int \<Rightarrow> bytes \<Rightarrow> Node \<Rightarrow>
     bool \<times> bytes list \<times> bytes \<times> Node" where
  "flushPending r dir werr pow now pend n =
     (case pinned r dir n of
        None \<Rightarrow> (False, [], pend, n)
      | Some (g, h) \<Rightarrow> flush_loop h g r dir werr pow now pend n)"

definition sendCloseFrame :: "nat \<Rightarrow> Direction \<Rightarrow> mux_error option \<Rightarrow> Node \<Rightarrow> bool \<times> Node" where
  "sendCloseFrame r dir werr n =
     (case pinned r dir n of
        None \<Rightarrow> (False, n)
      | Some (g, h) \<Rightarrow>
          (let w = carrier_WriteFrame h (streamIDOf (sess n r) dir) FrameClose [] werr n
           in if fst w \<noteq> None then (False, upd_att r dir (\<lambda>a. snd (Detach g a)) (snd w)) else (True, snd w)))"

text \<open>Whether \<open>waitAttach\<close> returns in this state.\<close>

definition waitAttach_returns :: "nat \<Rightarrow> Direction \<Rightarrow> Node \<Rightarrow> bool" where
  "waitAttach_returns r dir n \<longleftrightarrow> cancelled (sess n r) \<or>
     (case att_of n r dir of None \<Rightarrow> False | Some a \<Rightarrow> att_state a = AttAttached \<or> att_state a = AttClosed)"

text \<open>The half-close; the drain timer it arms after the client's end of data runs \<open>finalizeDrain\<close>.\<close>

definition peerEOF :: "nat \<Rightarrow> Direction \<Rightarrow> Node \<Rightarrow> sock_event list \<times> Node" where
  "peerEOF r dir n =
     (if DirClosed dir (sess n r) then ([], n)
      else (let role = cfg_Role (n_cfg n);
                ev = (if dir = DirUp \<and> role = RoleGermany
                      then (case TargetConn (sess n r) of Some c \<Rightarrow> [SockCloseWrite c] | None \<Rightarrow> [])
                      else if dir = DirDown \<and> role = RoleIran
                      then (case ClientConn (sess n r) of Some c \<Rightarrow> [SockCloseWrite c] | None \<Rightarrow> [])
                      else [])
            in (ev, mark_dir_closed r dir (dirEOFReason dir) n)))"

section \<open>Shape A: socket to carrier\<close>

datatype read_err = ErrEOF | ErrSocket bool

datatype relay_pc = RLoop | RWait | RPark | RRead | RCharge nat bytes "read_err option" | RExit

text \<open>\<open>ra_read\<close> and \<open>ra_sent\<close> record what was taken from the socket and the chunks carriers accepted.\<close>

record relayA =
  ra_pc :: relay_pc
  ra_pend :: bytes
  ra_eof :: bool
  ra_fin :: bool
  ra_read :: bytes
  ra_sent :: "bytes list"

record relay_in =
  in_werr :: "nat \<Rightarrow> mux_error option"
  in_cerr :: "mux_error option"
  in_pow :: "rat \<Rightarrow> rat"
  in_now :: int
  in_bytes :: bytes
  in_rerr :: "read_err option"

definition ClientConnAdopted :: "Session \<Rightarrow> bool" where
  "ClientConnAdopted s = clientConnClosed s"

definition relayA_begin :: "nat \<Rightarrow> Direction \<Rightarrow> Node \<Rightarrow> relayA \<times> Node" where
  "relayA_begin r dir n =
     (\<lparr>ra_pc = RLoop, ra_pend = [], ra_eof = False, ra_fin = False, ra_read = [], ra_sent = []\<rparr>,
      n\<lparr>n_buf := begin_relay (r, dir = DirUp) (n_buf n)\<rparr>)"

definition relay_exit :: "nat \<Rightarrow> Direction \<Rightarrow> relayA \<Rightarrow> Node \<Rightarrow> relayA \<times> Node" where
  "relay_exit r dir a n =
     (let e = end_relay (r, dir = DirUp) (n_buf n); n1 = n\<lparr>n_buf := snd e\<rparr>
      in (a\<lparr>ra_pc := RExit\<rparr>, if fst e > 0 then metric (AddSessionBufferReclaimed (fst e)) n1 else n1))"

definition relay_take :: "bytes \<Rightarrow> relayA \<Rightarrow> Node \<Rightarrow> relayA \<times> Node" where
  "relay_take bs a n =
     (a\<lparr>ra_pend := ra_pend a @ bs, ra_read := ra_read a @ bs\<rparr>,
      metric (RelayPendingHigh (int (length (ra_pend a @ bs)))) n)"

definition count_read_error :: "Node \<Rightarrow> Node" where
  "count_read_error n = metric RelaySocketReadError (metric metric_Error n)"

text \<open>The outcome of a read: the end of data or an error.\<close>

definition relay_read_end :: "nat \<Rightarrow> Direction \<Rightarrow> read_err option \<Rightarrow> relayA \<Rightarrow> Node \<Rightarrow> relayA \<times> Node" where
  "relay_read_end r dir rerr a n =
     (case rerr of
        None \<Rightarrow> (a\<lparr>ra_pc := RLoop\<rparr>, n)
      | Some ErrEOF \<Rightarrow>
          if dir = DirUp \<and> \<not> ClientConnAdopted (sess n r)
          then relay_exit r dir (a\<lparr>ra_eof := True\<rparr>) (close_session r ''client disconnected before bootstrap'' (metric metric_Error n))
          else (a\<lparr>ra_eof := True, ra_pc := RLoop\<rparr>, n)
      | Some (ErrSocket closedErr) \<Rightarrow>
          if dir = DirUp
          then (case upReadErrorPolicy (sess n r) closedErr of
                  upReadSuppressed \<Rightarrow> relay_exit r dir a n
                | upReadHalfClose \<Rightarrow>
                    if \<not> ClientConnAdopted (sess n r)
                    then relay_exit r dir a (close_session r ''client disconnected before bootstrap'' (count_read_error n))
                    else (a\<lparr>ra_eof := True, ra_pc := RLoop\<rparr>, count_read_error n))
          else relay_exit r dir a (close_session r (sockReadErr dir) (count_read_error n)))"

definition relay_budget_closed :: "nat \<Rightarrow> Direction \<Rightarrow> relayA \<Rightarrow> Node \<Rightarrow> relayA \<times> Node" where
  "relay_budget_closed r dir a n =
     relay_exit r dir a (close_session r ''session-buffer budget: node shutting down'' n)"

definition relay_took :: "nat \<Rightarrow> Direction \<Rightarrow> bytes \<Rightarrow> read_err option \<Rightarrow> relayA \<Rightarrow> Node \<Rightarrow> relayA \<times> Node" where
  "relay_took r dir bs rerr a n =
     (let t = relay_take bs a n in relay_read_end r dir rerr (fst t) (snd t))"

definition count_read :: "nat \<Rightarrow> Direction \<Rightarrow> nat \<Rightarrow> int \<Rightarrow> Node \<Rightarrow> Node" where
  "count_read r dir k now n =
     (let n1 = metric (AddRelayBytesRead (int k)) n;
          n2 = (if fst (MarkFirstByte (so_stats (ses n ! r)))
                then metric SessionFirstByteSeen
                       (upd_stats_of r (\<lambda>st. MarkFirstByteNanos now (snd (MarkFirstByte st))) n1)
                else n1)
      in metric (if dir = DirUp then AddUp (int k) else AddDown (int k)) n2)"

definition relay_read :: "nat \<Rightarrow> Direction \<Rightarrow> bytes \<Rightarrow> read_err option \<Rightarrow> int \<Rightarrow> relayA \<Rightarrow> Node \<Rightarrow> relayA \<times> Node" where
  "relay_read r dir bs rerr now a n =
     (if bs = [] then relay_read_end r dir rerr a n
      else (let n1 = count_read r dir (length bs) now n;
                ch = chargeWait_begin (r, dir = DirUp) (int (length bs)) (cancelled (sess n1 r)) (n_buf n1);
                n2 = n1\<lparr>n_buf := snd ch\<rparr>
            in (case fst ch of
                  ChargeAdmitted \<Rightarrow> relay_took r dir bs rerr a n2
                | ChargeRefused \<Rightarrow> relay_budget_closed r dir a n2
                | ChargeParked i \<Rightarrow> (a\<lparr>ra_pc := RCharge i bs rerr\<rparr>, n2))))"

text \<open>The parked charge: granted, released by the budget's close, or given up when the session ends.\<close>

definition relay_charged :: "nat \<Rightarrow> Direction \<Rightarrow> nat \<Rightarrow> bytes \<Rightarrow> read_err option \<Rightarrow> relayA \<Rightarrow> Node \<Rightarrow> (relayA \<times> Node) option" where
  "relay_charged r dir i bs rerr a n =
     (if i \<in> set (admitted (n_buf n)) then Some (relay_took r dir bs rerr a n)
      else if i \<in> set (released (n_buf n)) then Some (relay_budget_closed r dir a n)
      else if cancelled (sess n r)
      then Some (relay_budget_closed r dir a (n\<lparr>n_buf := snd (chargeWait_cancel i (n_buf n))\<rparr>))
      else None)"

text \<open>The credit gate: whether the relay parks, and the node with the ledger it looked up or parked on.\<close>

definition relay_gate :: "nat \<Rightarrow> Direction \<Rightarrow> Node \<Rightarrow> bool \<times> Node" where
  "relay_gate r dir n =
     (if \<not> gated dir n then (False, n)
      else (case (current dir n, n_gate n) of
              (Some h, Some g) \<Rightarrow>
                (let i = streamIDOf (sess n r) dir; cap = nat (MaxBytesPerStream (limits (carrier_of n h)));
                     l = gate_ledger (h_gen (hnd n ! h)) i g
                 in if canSendLocked MaxPayload cap (fst l) then (False, n\<lparr>n_gate := Some (snd l)\<rparr>)
                    else (True, metric CreditGatePark
                                 (n\<lparr>n_gate := Some (upd_ledger i (\<lambda>x. snd (creditPark_begin MaxPayload cap x)) (snd l))\<rparr>)))
            | _ \<Rightarrow> (False, n)))"

definition relay_flush :: "nat \<Rightarrow> Direction \<Rightarrow> relay_in \<Rightarrow> relayA \<Rightarrow> Node \<Rightarrow> bool \<times> relayA \<times> Node" where
  "relay_flush r dir x a n =
     (let (ok, cs, rest, m) = flushPending r dir (in_werr x) (in_pow x) (in_now x) (ra_pend a) n
      in (ok, a\<lparr>ra_pend := rest, ra_sent := ra_sent a @ cs\<rparr>, m))"

definition relay_eof :: "nat \<Rightarrow> Direction \<Rightarrow> relay_in \<Rightarrow> relayA \<Rightarrow> Node \<Rightarrow> relayA \<times> Node \<times> sock_event list" where
  "relay_eof r dir x a n =
     (if ra_pend a = []
      then (let c = sendCloseFrame r dir (in_cerr x) n
            in if fst c
               then (let p = peerEOF r dir (snd c); e = relay_exit r dir (a\<lparr>ra_fin := True\<rparr>) (snd p)
                     in (fst e, snd e, fst p))
               else (a\<lparr>ra_pc := RWait\<rparr>, snd c, []))
      else (let (ok, b, m) = relay_flush r dir x a n in (b\<lparr>ra_pc := (if ok then RLoop else RWait)\<rparr>, m, [])))"

definition relay_loop :: "nat \<Rightarrow> Direction \<Rightarrow> relay_in \<Rightarrow> relayA \<Rightarrow> Node \<Rightarrow> relayA \<times> Node \<times> sock_event list" where
  "relay_loop r dir x a n =
     (if cancelled (sess n r) then (let e = relay_exit r dir a n in (fst e, snd e, []))
      else if ra_eof a then relay_eof r dir x a n
      else (let (ok, b, m) = (if ra_pend a = [] then (True, a, n) else relay_flush r dir x a n)
            in if \<not> ok then (b\<lparr>ra_pc := RWait\<rparr>, m, [])
               else (let g = relay_gate r dir m
                     in if fst g then (b\<lparr>ra_pc := RPark\<rparr>, snd g, [])
                        else if int (length (ra_pend b)) \<ge> BufferBytes (n_cfg m)
                        then (b\<lparr>ra_pc := RWait\<rparr>, metric RelayBufferFull (snd g), [])
                        else (b\<lparr>ra_pc := RRead\<rparr>, snd g, []))))"

text \<open>One step of \<open>relayShapeA\<close>; \<open>None\<close> while it is blocked. A socket read returns at most the size of the
  buffer; the credit park always ends, at the latest with its timeout.\<close>

definition relayShapeA :: "nat \<Rightarrow> Direction \<Rightarrow> relay_in \<Rightarrow> relayA \<Rightarrow> Node \<Rightarrow> (relayA \<times> Node \<times> sock_event list) option" where
  "relayShapeA r dir x a n =
     (case ra_pc a of
        RLoop \<Rightarrow> Some (relay_loop r dir x a n)
      | RWait \<Rightarrow> if waitAttach_returns r dir n then Some (a\<lparr>ra_pc := RLoop\<rparr>, n, []) else None
      | RPark \<Rightarrow> Some (a\<lparr>ra_pc := RLoop\<rparr>, n, [])
      | RRead \<Rightarrow> if length (in_bytes x) \<le> nat (RelayBufSize (n_cfg n))
                 then (let q = relay_read r dir (in_bytes x) (in_rerr x) (in_now x) a n in Some (fst q, snd q, []))
                 else None
      | RCharge i bs rerr \<Rightarrow> map_option (\<lambda>q. (fst q, snd q, [])) (relay_charged r dir i bs rerr a n)
      | RExit \<Rightarrow> None)"

section \<open>Shape B: carrier to socket\<close>

text \<open>Whether carrier \<open>h\<close> is the attached epoch of the direction.\<close>

definition attached_to :: "nat \<Rightarrow> Direction \<Rightarrow> nat \<Rightarrow> Node \<Rightarrow> bool" where
  "attached_to r dir h n \<longleftrightarrow>
     (case att_of n r dir of None \<Rightarrow> False | Some a \<Rightarrow> att_state a = AttAttached \<and> att_gen a = h_gen (hnd n ! h))"

definition lost_epoch :: "nat \<Rightarrow> Direction \<Rightarrow> nat \<Rightarrow> Node \<Rightarrow> Node" where
  "lost_epoch r dir h n =
     (if attached_to r dir h n then upd_att r dir (\<lambda>a. snd (Detach (h_gen (hnd n ! h)) a)) n else n)"

definition relay_sock :: "nat \<Rightarrow> Direction \<Rightarrow> Node \<Rightarrow> nat option" where
  "relay_sock r dir n = (if dir = DirUp then TargetConn (sess n r) else ClientConn (sess n r))"

text \<open>The down relay of the Iran node waits for the client connection; \<open>None\<close> while it waits, \<open>Some False\<close> when
  there is none to write to.\<close>

definition relayB_ready :: "nat \<Rightarrow> Direction \<Rightarrow> Node \<Rightarrow> bool option" where
  "relayB_ready r dir n =
     (if dir = DirDown \<and> cfg_Role (n_cfg n) = RoleIran
      then (if clientConnClosed (sess n r) \<or> done_closed (sess n r) \<or> cancelled (sess n r) then Some (ClientConn (sess n r) \<noteq> None) else None)
      else Some True)"

definition credit_consumed :: "nat \<Rightarrow> u32 \<Rightarrow> nat \<Rightarrow> int \<Rightarrow> int \<Rightarrow> bool \<Rightarrow> Node \<Rightarrow> Node" where
  "credit_consumed h i k t1 t2 room n =
     (case n_emitter n of
        None \<Rightarrow> n
      | Some e \<Rightarrow>
          (let c = recordConsumed t1 (h, i) k e; n1 = n\<lparr>n_emitter := Some (snd c)\<rparr>
           in if \<not> fst c then n1
              else (let em = emit_credit t2 (h, i) False (snd c);
                        n2 = metric (AddCreditConsumedBytes (int k)) (n1\<lparr>n_emitter := Some (snd em)\<rparr>)
                    in (case fst em of
                          Some p \<Rightarrow> if room \<and> \<not> closing (carrier_of n2 h) then metric CreditEmitted (control_frame h i FrameCredit (EncodeCreditPayload p) n2)
                                    else metric CreditDropped n2
                        | None \<Rightarrow> metric CreditDropped n2))))"

definition credit_final :: "nat \<Rightarrow> u32 \<Rightarrow> int \<Rightarrow> bool \<Rightarrow> Node \<Rightarrow> Node" where
  "credit_final h i t room n =
     (case n_emitter n of
        None \<Rightarrow> n
      | Some e \<Rightarrow>
          (let f = finalize t (h, i) e; n1 = n\<lparr>n_emitter := Some (snd f)\<rparr>
           in (case fst f of
                 Some p \<Rightarrow> if room then control_frame h i FrameCredit (EncodeCreditPayload p) n1 else n1
               | None \<Rightarrow> n1)))"

record relayB_in =
  ib_frame :: "bytes option option"
  ib_written :: nat
  ib_werr :: bool
  ib_t1 :: int
  ib_t2 :: int
  ib_room :: bool

text \<open>One frame of \<open>startStreamRelay\<close>: whether the goroutine ends, what it wrote, the node. A receive gives
  \<open>None\<close> for a closed channel, \<open>Some None\<close> for the end of the stream. A failed write may have
  taken a part of the frame.\<close>

definition relayB_data :: "nat \<Rightarrow> Direction \<Rightarrow> nat \<Rightarrow> nat \<Rightarrow> bytes \<Rightarrow> relayB_in \<Rightarrow> Node \<Rightarrow> bool \<times> sock_event list \<times> Node" where
  "relayB_data r dir h sock f x n =
     (let n1 = metric (if dir = DirUp then AddUp (int (length f)) else AddDown (int (length f))) n
      in if \<not> ib_werr x \<and> ib_written x = length f
         then (False, [SockWrite sock f],
               if dir = DirDown then credit_consumed h (streamIDOf (sess n r) dir) (length f) (ib_t1 x) (ib_t2 x) (ib_room x) n1 else n1)
         else (True, [SockWrite sock (take (ib_written x) f)],
               close_session r (sockWriteErr dir) (metric RelaySocketWriteError (metric metric_Error n1))))"

definition relayB_end :: "nat \<Rightarrow> Direction \<Rightarrow> nat \<Rightarrow> relayB_in \<Rightarrow> Node \<Rightarrow> bool \<times> sock_event list \<times> Node" where
  "relayB_end r dir h x n =
     (let n1 = upd_stats_of r MarkCleanHalfClose n;
          n2 = (if dir = DirDown then credit_final h (streamIDOf (sess n r) dir) (ib_t1 x) (ib_room x) n1 else n1);
          p = peerEOF r dir n2
      in (True, fst p, snd p))"

definition startStreamRelay :: "nat \<Rightarrow> Direction \<Rightarrow> nat \<Rightarrow> nat \<Rightarrow> relayB_in \<Rightarrow> Node \<Rightarrow> bool \<times> sock_event list \<times> Node" where
  "startStreamRelay r dir h sock x n =
     (case ib_frame x of
        None \<Rightarrow> (True, [], lost_epoch r dir h n)
      | Some fr \<Rightarrow>
          if \<not> attached_to r dir h n then (True, [], n)
          else (case fr of
                  None \<Rightarrow> relayB_end r dir h x n
                | Some f \<Rightarrow> relayB_data r dir h sock f x n))"

text \<open>The watcher of the Iran node's up stream.\<close>

definition startUpWatcher :: "nat \<Rightarrow> nat \<Rightarrow> bytes option option \<Rightarrow> Node \<Rightarrow> bool \<times> Node" where
  "startUpWatcher r h recv n =
     (case recv of
        None \<Rightarrow> (True, lost_epoch r DirUp h n)
      | Some (Some f) \<Rightarrow> (False, n)
      | Some None \<Rightarrow>
          if \<not> attached_to r DirUp h n then (True, n)
          else (True, close_session r ''up stream closed by peer'' n))"

section \<open>Flushing\<close>

lemma sent_chunk_frame [simp]:
  "ses (sent_chunk h r dir pow now k n) = ses n" "hnd (sent_chunk h r dir pow now k n) = hnd n"
  "n_cfg (sent_chunk h r dir pow now k n) = n_cfg n" "sess (sent_chunk h r dir pow now k n) = sess n"
  by (simp_all add: sent_chunk_def refund_chunk_def charge_ledger_def noteCarrierDelivery_def Let_def sess_def fun_eq_iff)

lemma sent_chunk_carrier [simp]: "carrier_of (sent_chunk h r dir pow now k n) = carrier_of n"
  by (simp add: carrier_of_def fun_eq_iff)

definition data_frame :: "u32 \<Rightarrow> bytes \<Rightarrow> u32 \<times> byte \<times> bytes" where
  "data_frame i c = (i, FrameData, c)"

lemma streamIDOf_upd_att [simp]: "streamIDOf (sess (upd_att q d f n) r) dir = streamIDOf (sess n r) dir"
  by (cases dir) (simp_all add: streamIDOf_def)

lemma WriteFrame_cases:
  "carrier_WriteFrame h i t p e n = (None, upd_handle h (\<lambda>x. x\<lparr>h_out := h_out x @ [(i, t, p)]\<rparr>) n) \<or>
   (\<exists>err. carrier_WriteFrame h i t p e n = (Some err, n))"
  by (simp add: carrier_WriteFrame_def split: option.split)

lemma h_out_sent:
  "h < length (hnd n) \<Longrightarrow>
     h_out (hnd (upd_handle h (\<lambda>x. x\<lparr>h_out := h_out x @ fs\<rparr>) n) ! x) = h_out (hnd n ! x) @ (if x = h then fs else [])"
  by (simp add: upd_handle_def nth_list_update_if)

definition flush_ok :: "nat \<Rightarrow> u32 \<Rightarrow> bytes \<Rightarrow> Node \<Rightarrow> bool \<Rightarrow> bytes list \<Rightarrow> bytes \<Rightarrow> Node \<Rightarrow> bool" where
  "flush_ok h i pend n ok cs rest m \<longleftrightarrow> concat cs @ rest = pend \<and> (ok \<longleftrightarrow> rest = []) \<and>
     (\<forall>c\<in>set cs. c \<noteq> [] \<and> length c \<le> MaxPayload) \<and> n_cfg m = n_cfg n \<and> length (hnd m) = length (hnd n) \<and>
     (h < length (hnd n) \<longrightarrow> (\<forall>x. h_out (hnd m ! x) = h_out (hnd n ! x) @ (if x = h then map (data_frame i) cs else [])))"

lemma flush_loop_spec:
  assumes "flush_loop h g r dir werr pow now pend n = (ok, cs, rest, m)"
  shows "flush_ok h (streamIDOf (sess n r) dir) pend n ok cs rest m"
  using assms
proof (induction "length pend" arbitrary: pend n ok cs rest m rule: less_induct)
  case less
  let ?i = "streamIDOf (sess n r) dir"
  define chunk where "chunk = take MaxPayload pend"
  show ?case
  proof (cases "pend = []")
    case True
    then show ?thesis using less.prems flush_loop.simps [of h g r dir werr pow now pend n] by (simp add: flush_ok_def)
  next
    case False
    consider (failed) err where "carrier_WriteFrame h ?i FrameData chunk (werr (length pend)) n = (Some err, n)"
      | (sent) "carrier_WriteFrame h ?i FrameData chunk (werr (length pend)) n =
          (None, upd_handle h (\<lambda>x. x\<lparr>h_out := h_out x @ [(?i, FrameData, chunk)]\<rparr>) n)"
      using WriteFrame_cases [of h ?i FrameData chunk "werr (length pend)" n] by blast
    then show ?thesis
    proof cases
      case (failed err)
      have "(ok, cs, rest, m) = (False, [], pend, upd_att r dir (\<lambda>a. snd (Detach g a)) (metric RelayWriteFailure n))"
        unfolding less.prems [symmetric] flush_loop.simps [of h g r dir werr pow now pend n]
        using False by (simp add: Let_def chunk_def [symmetric] failed)
      then show ?thesis using False by (simp add: flush_ok_def)
    next
      case sent
      let ?n1 = "upd_handle h (\<lambda>x. x\<lparr>h_out := h_out x @ [(?i, FrameData, chunk)]\<rparr>) n"
      define n2 where "n2 = sent_chunk h r dir pow now (length chunk) ?n1"
      obtain ok' cs' rest' m' where rec: "flush_loop h g r dir werr pow now (drop MaxPayload pend) n2 = (ok', cs', rest', m')"
        by (metis prod_cases4)
      have eq: "ok = ok'" "cs = chunk # cs'" "rest = rest'" "m = m'"
        using less.prems unfolding flush_loop.simps [of h g r dir werr pow now pend n]
        using False by (simp_all add: Let_def chunk_def [symmetric] sent n2_def [symmetric] rec)
      have IH: "flush_ok h (streamIDOf (sess n2 r) dir) (drop MaxPayload pend) n2 ok' cs' rest' m'"
        by (rule less.hyps [OF _ rec]) (use False in simp)
      have "chunk \<noteq> []" "length chunk \<le> MaxPayload" "chunk @ drop MaxPayload pend = pend"
        using False by (simp_all add: chunk_def)
      then show ?thesis
        using IH by (auto simp: flush_ok_def eq n2_def h_out_sent data_frame_def)
    qed
  qed
qed

section \<open>Runs of an upload relay\<close>

text \<open>The relay's steps, with arbitrary changes of the node in between; only its configuration stays.\<close>

datatype relay_op = RStep relay_in | RNode Node

type_synonym relay_st = "relayA \<times> Node \<times> sock_event list"

fun relay_do :: "nat \<Rightarrow> Direction \<Rightarrow> relay_op \<Rightarrow> relay_st \<Rightarrow> relay_st option" where
  "relay_do r dir (RStep x) (a, n, ev) = map_option (\<lambda>(b, m, ev'). (b, m, ev @ ev')) (relayShapeA r dir x a n)"
| "relay_do r dir (RNode m) (a, n, ev) = (if n_cfg m = n_cfg n then Some (a, m, ev) else None)"

fun relay_run :: "nat \<Rightarrow> Direction \<Rightarrow> relay_op list \<Rightarrow> relay_st \<Rightarrow> relay_st option" where
  "relay_run r dir [] s = Some s"
| "relay_run r dir (x # xs) s = (case relay_do r dir x s of None \<Rightarrow> None | Some s1 \<Rightarrow> relay_run r dir xs s1)"

interpretation relay_sys: run_system "relay_do r dir" "relay_run r dir" for r dir
  by unfold_locales simp_all

definition relay_room :: "Node \<Rightarrow> relayA \<Rightarrow> bool" where
  "relay_room n a \<longleftrightarrow> int (length (ra_pend a)) < BufferBytes (n_cfg n) + RelayBufSize (n_cfg n) \<and>
     (ra_pc a = RRead \<longrightarrow> int (length (ra_pend a)) < BufferBytes (n_cfg n)) \<and>
     (\<forall>i bs e. ra_pc a = RCharge i bs e \<longrightarrow>
        int (length (ra_pend a)) < BufferBytes (n_cfg n) \<and> int (length bs) \<le> RelayBufSize (n_cfg n))"

definition relay_data :: "relayA \<Rightarrow> bool" where
  "relay_data a \<longleftrightarrow> concat (ra_sent a) @ ra_pend a = ra_read a \<and> (\<forall>c\<in>set (ra_sent a). c \<noteq> [] \<and> length c \<le> MaxPayload) \<and>
     (ra_fin a \<longrightarrow> ra_eof a \<and> ra_pend a = [] \<and> ra_pc a = RExit)"

fun relay_inv :: "relay_st \<Rightarrow> bool" where
  "relay_inv (a, n, ev) \<longleftrightarrow> 0 < BufferBytes (n_cfg n) \<and> 0 < RelayBufSize (n_cfg n) \<and> relay_data a \<and> relay_room n a"

lemma exit_fields [simp]:
  "fst (relay_exit r dir a n) = a\<lparr>ra_pc := RExit\<rparr>" "n_cfg (snd (relay_exit r dir a n)) = n_cfg n"
  by (simp_all add: relay_exit_def Let_def)

lemma closed_cfg [simp]: "n_cfg (snd (relay_budget_closed r dir a n)) = n_cfg n" "fst (relay_budget_closed r dir a n) = a\<lparr>ra_pc := RExit\<rparr>"
  by (simp_all add: relay_budget_closed_def)

lemma read_end_fields:
  "n_cfg (snd (relay_read_end r dir e a n)) = n_cfg n" "ra_pend (fst (relay_read_end r dir e a n)) = ra_pend a"
  "ra_sent (fst (relay_read_end r dir e a n)) = ra_sent a" "ra_read (fst (relay_read_end r dir e a n)) = ra_read a"
  "ra_fin (fst (relay_read_end r dir e a n)) = ra_fin a"
  "ra_pc (fst (relay_read_end r dir e a n)) = RLoop \<or> ra_pc (fst (relay_read_end r dir e a n)) = RExit"
  by (auto simp: relay_read_end_def count_read_error_def split: option.splits read_err.splits upReadPolicy.splits)

lemma took_inv:
  assumes "relay_inv (a, n, ev)" and "\<not> ra_fin a" and "int (length (ra_pend a)) < BufferBytes (n_cfg n)"
    and "int (length bs) \<le> RelayBufSize (n_cfg n)"
  shows "relay_inv (fst (relay_took r dir bs e a n), snd (relay_took r dir bs e a n), ev')"
  using assms read_end_fields [of r dir e "fst (relay_take bs a n)" "snd (relay_take bs a n)"]
  by (auto simp: relay_took_def Let_def relay_take_def relay_data_def relay_room_def)

lemma exit_inv: "relay_inv (a, n, ev) \<Longrightarrow> \<not> ra_fin a \<Longrightarrow> n_cfg m = n_cfg n \<Longrightarrow> relay_inv (a\<lparr>ra_pc := RExit\<rparr>, m, ev')"
  by (simp add: relay_data_def relay_room_def)

lemma read_inv:
  assumes "relay_inv (a, n, ev)" and "ra_pc a = RRead" and "int (length bs) \<le> RelayBufSize (n_cfg n)"
  shows "relay_inv (fst (relay_read r dir bs e now a n), snd (relay_read r dir bs e now a n), ev')"
proof -
  have f: "\<not> ra_fin a" "int (length (ra_pend a)) < BufferBytes (n_cfg n)" using assms by (auto simp: relay_data_def relay_room_def)
  define n1 where "n1 = count_read r dir (length bs) now n"
  define n2 where "n2 = n1\<lparr>n_buf := snd (chargeWait_begin (r, dir = DirUp) (int (length bs)) (cancelled (sess n1 r)) (n_buf n1))\<rparr>"
  have c: "n_cfg n2 = n_cfg n" by (simp add: n2_def n1_def count_read_def Let_def)
  have i2: "relay_inv (a, n2, ev)" using assms(1) c by (simp add: relay_room_def)
  have t: "relay_inv (fst (relay_took r dir bs e a n2), snd (relay_took r dir bs e a n2), ev')"
    by (rule took_inv [OF i2 f(1)]) (use f(2) assms(3) c in simp_all)
  have p: "relay_inv (a\<lparr>ra_pc := RCharge i bs e\<rparr>, n2, ev')" for i
    using i2 f assms(3) c by (auto simp: relay_data_def relay_room_def)
  show ?thesis
  proof (cases "bs = []")
    case True
    then show ?thesis using assms(1) f read_end_fields [of r dir e a n] by (auto simp: relay_read_def relay_data_def relay_room_def)
  next
    case False
    then show ?thesis using t p exit_inv [OF i2 f(1)]
      by (auto simp: relay_read_def Let_def n1_def [symmetric] n2_def [symmetric] split: charge_result.split)
  qed
qed


lemma sendClose_cfg [simp]: "n_cfg (snd (sendCloseFrame r dir e n)) = n_cfg n"
  by (auto simp: sendCloseFrame_def Let_def split: option.split)

lemma peerEOF_cfg [simp]: "n_cfg (snd (peerEOF r dir n)) = n_cfg n"
  by (simp add: peerEOF_def Let_def)

lemma gate_cfg [simp]: "n_cfg (snd (relay_gate r dir n)) = n_cfg n"
  by (auto simp: relay_gate_def Let_def split: option.split)

lemma relay_flush_spec:
  assumes "relay_flush r dir x a n = (ok, b, m)"
  shows "\<exists>cs rest. b = a\<lparr>ra_pend := rest, ra_sent := ra_sent a @ cs\<rparr> \<and> concat cs @ rest = ra_pend a \<and>
     (\<forall>c\<in>set cs. c \<noteq> [] \<and> length c \<le> MaxPayload) \<and> n_cfg m = n_cfg n \<and> (ok \<longrightarrow> rest = [])"
proof (cases "pinned r dir n")
  case None
  then have "b = a" "m = n" "\<not> ok" using assms by (simp_all add: relay_flush_def flushPending_def)
  then show ?thesis by (intro exI [of _ "[]"] exI [of _ "ra_pend a"]) simp
next
  case (Some gh)
  obtain g h where gh: "gh = (g, h)" by (cases gh)
  obtain k cs rest m' where f: "flush_loop h g r dir (in_werr x) (in_pow x) (in_now x) (ra_pend a) n = (k, cs, rest, m')"
    by (metis prod_cases4)
  then show ?thesis
    using assms flush_loop_spec [OF f] by (auto simp: relay_flush_def flushPending_def Some gh flush_ok_def)
qed

lemma relay_flush_inv:
  assumes "relay_flush r dir x a n = (ok, b, m)" and "relay_inv (a, n, ev)" and "\<not> ra_fin a" and "ra_pc a = RLoop"
  shows "relay_inv (b, m, ev')" "\<not> ra_fin b" "ra_pc b = RLoop" "ra_eof b = ra_eof a" "ok \<Longrightarrow> ra_pend b = []"
    "length (ra_pend b) \<le> length (ra_pend a)" "n_cfg m = n_cfg n"
proof -
  obtain cs rest where b: "b = a\<lparr>ra_pend := rest, ra_sent := ra_sent a @ cs\<rparr>" "concat cs @ rest = ra_pend a"
    "\<forall>c\<in>set cs. c \<noteq> [] \<and> length c \<le> MaxPayload" "n_cfg m = n_cfg n" "ok \<longrightarrow> rest = []"
    using relay_flush_spec [OF assms(1)] by blast
  have l: "length rest \<le> length (ra_pend a)" using arg_cong [OF b(2), of length] by simp
  show "relay_inv (b, m, ev')" "\<not> ra_fin b" "ra_pc b = RLoop" "ra_eof b = ra_eof a" "ok \<Longrightarrow> ra_pend b = []"
    "length (ra_pend b) \<le> length (ra_pend a)" "n_cfg m = n_cfg n"
    using assms(2-4) b l by (auto simp: relay_data_def relay_room_def)
qed

lemma relay_pc_inv:
  assumes "relay_inv (a, n, ev)" and "\<not> ra_fin a" and "n_cfg m = n_cfg n" and "pc \<in> {RLoop, RWait, RPark, RExit}"
  shows "relay_inv (a\<lparr>ra_pc := pc\<rparr>, m, ev')"
  using assms by (auto simp: relay_data_def relay_room_def)

lemma relay_eof_inv:
  assumes "relay_inv (a, n, ev)" and "\<not> ra_fin a" and "ra_pc a = RLoop" and "ra_eof a"
  shows "relay_inv (relay_eof r dir x a n)"
proof (cases "ra_pend a = []")
  case True
  define c where "c = sendCloseFrame r dir (in_cerr x) n"
  have "n_cfg (snd c) = n_cfg n" by (simp add: c_def)
  then have w: "relay_inv (a\<lparr>ra_pc := RWait\<rparr>, snd c, [])" by (intro relay_pc_inv [OF assms(1,2)]) simp_all
  have "relay_inv (a\<lparr>ra_fin := True, ra_pc := RExit\<rparr>, k, l)" if "n_cfg k = n_cfg n" for k l
    using assms True that by (auto simp: relay_data_def relay_room_def)
  then show ?thesis using True w \<open>n_cfg (snd c) = n_cfg n\<close> by (simp add: relay_eof_def Let_def c_def [symmetric] del: relay_inv.simps)
next
  case False
  obtain ok b m where f: "relay_flush r dir x a n = (ok, b, m)" by (metis prod_cases3)
  note i = relay_flush_inv [OF f assms(1-3)]
  show ?thesis using False f relay_pc_inv [OF i(1,2), of m] by (simp add: relay_eof_def Let_def del: relay_inv.simps)
qed

lemma relay_loop_inv:
  assumes "relay_inv (a, n, ev)" and "\<not> ra_fin a" and "ra_pc a = RLoop"
  shows "relay_inv (relay_loop r dir x a n)"
proof (cases "cancelled (sess n r) \<or> ra_eof a")
  case True
  then show ?thesis
    using relay_eof_inv [OF assms] relay_pc_inv [OF assms(1,2)] by (auto simp: relay_loop_def Let_def simp del: relay_inv.simps)
next
  case False
  obtain ok b m where f: "(if ra_pend a = [] then (True, a, n) else relay_flush r dir x a n) = (ok, b, m)" by (metis prod_cases3)
  have i: "relay_inv (b, m, [])" "\<not> ra_fin b" "n_cfg m = n_cfg n"
    using f assms relay_flush_inv(1) [OF _ assms, of r dir x ok b m "[]"] relay_flush_inv(2,7) [OF _ assms, of r dir x ok b m]
    by (auto split: if_splits simp del: relay_inv.simps) (simp_all only: relay_inv.simps)
  have rd: "relay_inv (b\<lparr>ra_pc := RRead\<rparr>, k, [])" if "int (length (ra_pend b)) < BufferBytes (n_cfg m)" "n_cfg k = n_cfg m" for k
    using i that by (auto simp: relay_data_def relay_room_def)
  have p: "relay_inv (b\<lparr>ra_pc := pc\<rparr>, k, [])" if "n_cfg k = n_cfg m" "pc \<in> {RWait, RPark}" for pc k
    by (rule relay_pc_inv [OF i(1,2)]) (use that in auto)
  have eq: "relay_loop r dir x a n =
     (if \<not> ok then (b\<lparr>ra_pc := RWait\<rparr>, m, [])
      else if fst (relay_gate r dir m) then (b\<lparr>ra_pc := RPark\<rparr>, snd (relay_gate r dir m), [])
      else if int (length (ra_pend b)) \<ge> BufferBytes (n_cfg m)
      then (b\<lparr>ra_pc := RWait\<rparr>, metric RelayBufferFull (snd (relay_gate r dir m)), [])
      else (b\<lparr>ra_pc := RRead\<rparr>, snd (relay_gate r dir m), []))"
    using False by (simp add: relay_loop_def f Let_def)
  have "relay_inv (b\<lparr>ra_pc := RWait\<rparr>, m, [])" "relay_inv (b\<lparr>ra_pc := RPark\<rparr>, snd (relay_gate r dir m), [])"
    "relay_inv (b\<lparr>ra_pc := RWait\<rparr>, metric RelayBufferFull (snd (relay_gate r dir m)), [])"
    by (rule p; simp)+
  then show ?thesis using rd [of "snd (relay_gate r dir m)"] by (simp add: eq del: relay_inv.simps)
qed

lemma relayShapeA_inv:
  assumes "relay_inv (a, n, ev)" and "relayShapeA r dir x a n = Some (b, m, ev')"
  shows "relay_inv (b, m, ev' @ ev'')"
proof -
  have e: "relay_inv (b, m, l) = relay_inv (b, m, l')" for l l' by simp
  have f: "ra_pc a \<noteq> RExit \<Longrightarrow> \<not> ra_fin a" using assms(1) by (auto simp: relay_data_def)
  have "relay_inv (b, m, ev')"
  proof (cases "ra_pc a")
    case RLoop
    then show ?thesis using assms(2) relay_loop_inv [OF assms(1) f RLoop, of r dir x] by (simp add: relayShapeA_def)
  next
    case RWait
    then show ?thesis using assms relay_pc_inv [OF assms(1) f, of n RLoop] by (simp add: relayShapeA_def split: if_splits)
  next
    case RPark
    then show ?thesis using assms relay_pc_inv [OF assms(1) f, of n RLoop] by (simp add: relayShapeA_def)
  next
    case RRead
    have "0 < RelayBufSize (n_cfg n)" using assms(1) by simp
    then show ?thesis
      using assms(2) RRead read_inv [OF assms(1) RRead, of "in_bytes x" r dir "in_rerr x" "in_now x" ev']
      by (auto simp: relayShapeA_def Let_def nat_le_iff [symmetric] le_nat_iff split: if_splits simp del: relay_inv.simps)
  next
    case (RCharge i bs er)
    have c: "int (length (ra_pend a)) < BufferBytes (n_cfg n)" "int (length bs) \<le> RelayBufSize (n_cfg n)"
      using assms(1) RCharge by (auto simp: relay_room_def)
    have x: "relay_inv (fst (relay_budget_closed r dir a k), snd (relay_budget_closed r dir a k), l)" if "n_cfg k = n_cfg n" for k l
      using relay_pc_inv [OF assms(1) f, of _ RExit] RCharge that by (simp del: relay_inv.simps)
    show ?thesis
      using assms(2) RCharge took_inv [OF assms(1) f c, of r dir er ev'] x [of n] x [of "n\<lparr>n_buf := snd (chargeWait_cancel i (n_buf n))\<rparr>"]
      by (auto simp: relayShapeA_def relay_charged_def split: if_splits simp del: relay_inv.simps closed_cfg)
  next
    case RExit
    then show ?thesis using assms(2) by (simp add: relayShapeA_def)
  qed
  then show ?thesis using e by blast
qed



lemma flush_one:
  assumes "pinned r dir n = Some (g, h)" and "\<not> closing (carrier_of n h)" and "f \<noteq> []" and "length f \<le> MaxPayload"
  shows "\<exists>m. flushPending r dir (\<lambda>k. None) pow now f n = (True, [f], [], m)"
  using assms by (simp add: flushPending_def flush_loop.simps [of _ _ _ _ _ _ _ f] flush_loop.simps [of _ _ _ _ _ _ _ "[]"] carrier_WriteFrame_def)

lemma rebind_gens [simp]:
  "h_gen (hnd (drop_rebind h i g why n) ! x) = h_gen (hnd n ! x)"
  "h_gen (hnd (rebind_accept dir h i g now r n) ! x) = h_gen (hnd n ! x)"
  by (auto simp: drop_rebind_def rebind_accept_def Let_def split: option.split)

lemma handleRebind_gens: "h_gen (hnd (handleRebind dir h i recv now n) ! x) = h_gen (hnd n ! x)"
  by (auto simp: handleRebind_def rebind_check_def Let_def split: option.split sum.split)

lemma consumer_state [simp]: "ses_state (sess (startChannelConsumer r dir h n) q) = ses_state (sess n q)"
  by (simp add: startChannelConsumer_def sess_consumers)

lemma accept_state [simp]: "ses_state (sess (rebind_accept dir h i g now r n) q) = ses_state (sess n q)"
  by (auto simp: rebind_accept_def drop_rebind_def Let_def split: option.split)

lemma handleRebind_state: "ses_state (sess (handleRebind dir h i recv now n) q) = ses_state (sess n q)"
  by (auto simp: handleRebind_def rebind_check_def drop_rebind_def Let_def split: option.split sum.split)

lemma bound_attached:
  "bound_to m r dir (h_gen (hnd m ! h)) p \<Longrightarrow> attached_to r dir x m = (h_gen (hnd m ! x) = h_gen (hnd m ! h))"
  by (auto simp: bound_to_def attached_to_def)


text \<open>C17. A rebind loses what is in flight, here on the way up. The sender's relay drops bytes from its buffer as soon as the carrier
  accepts them. If the stream is then moved to another carrier, the receiver's relay of the old carrier
  discards the next frame it gets from it, although that carrier may be working, and ends; the relay of the new
  carrier writes what arrives there. The session stays active, so the socket gets the later bytes without
  the earlier ones.\<close>

theorem rebind_loses_in_flight_data:
  assumes "pinned rS DirUp nS = Some (g, hS)" and "\<not> closing (carrier_of nS hS)" and "f \<noteq> []" and "length f \<le> MaxPayload"
    and "ParseRebindAny p = Some rb" and "GetByStream i (n_store nR) = Some rR" and "rebindable nR DirUp (rbGen rb) rR"
    and "rbVersion rb = RebindVersionV2 \<Longrightarrow> rbCarrierID rb = h_id (hnd nR ! new)"
    and "att_of nR rR DirUp = Some a" and "lastRebindGen a < rbGen rb" and "h_gen (hnd nR ! old) \<noteq> h_gen (hnd nR ! new)"
  shows "let m = handleRebind DirUp new i (Some (Some p)) t nR
         in (\<exists>k. flushPending rS DirUp (\<lambda>_. None) pow now f nS = (True, [f], [], k)) \<and>
            startStreamRelay rR DirUp old sock (x\<lparr>ib_frame := Some (Some f)\<rparr>) m = (True, [], m) \<and>
            fst (snd (startStreamRelay rR DirUp new sock (y\<lparr>ib_frame := Some (Some f2), ib_written := length f2, ib_werr := False\<rparr>) m))
              = [SockWrite sock f2] \<and>
            ses_state (sess m rR) = StateActive"
proof -
  define m where "m = handleRebind DirUp new i (Some (Some p)) t nR"
  have "bound_to m rR DirUp (h_gen (hnd nR ! new)) (rbGen rb)"
    unfolding m_def by (rule handleRebind_ok [OF assms(5-10)])
  then have at: "attached_to rR DirUp z m = (h_gen (hnd nR ! z) = h_gen (hnd nR ! new))" for z
    using bound_attached [of m rR DirUp new "rbGen rb" z] by (simp add: m_def handleRebind_gens)
  have "ses_state (sess m rR) = StateActive" using assms(7) by (simp add: m_def handleRebind_state rebindable_def)
  then show ?thesis
    using flush_one [OF assms(1-4), of pow now] at assms(11)
    unfolding Let_def m_def [symmetric] by (simp add: startStreamRelay_def relayB_data_def Let_def)
qed

lemma cancelled_upd_att [simp]: "cancelled (sess (upd_att q d f n) r) = cancelled (sess n r)"
  by (cases d) (simp_all add: upd_att_def upd_sess_def sess_def nth_list_update_if)

text \<open>A session attached after its carrier was lost is stranded. When the loss sweep runs between the registration of
  the stream and the attach, nothing has noticed: the direction is attached to a generation that no installed
  carrier has, no grace timer is armed, and the upload relay with bytes to send turns in its loop
  without blocking and without effect until something else closes or rebinds the session.\<close>

lemma attach_after_loss_strands:
  assumes "r < length (ses n)" and "att_of n r DirUp = Some NewAttachment" and "att_of n r DirDown = Some NewAttachment"
    and "h = (if dir = DirUp then u else d)" and "handleForGen (h_gen (hnd n ! h)) n = None" and "\<not> cancelled (sess n r)"
    and "ra_pend b \<noteq> []" and "\<not> ra_eof b"
  shows "let m = attach_both r u d n
         in (\<exists>a. att_of m r dir = Some a \<and> att_state a = AttAttached \<and> timer a = None) \<and>
            relayShapeA r dir x (b\<lparr>ra_pc := RLoop\<rparr>) m = Some (b\<lparr>ra_pc := RWait\<rparr>, m, []) \<and>
            relayShapeA r dir y (b\<lparr>ra_pc := RWait\<rparr>) m = Some (b\<lparr>ra_pc := RLoop\<rparr>, m, [])"
proof -
  define m where "m = attach_both r u d n"
  have "\<exists>a. att_of m r dir = Some a \<and> att_state a = AttAttached \<and> timer a = None \<and> att_gen a = h_gen (hnd n ! h)"
    using assms(1-4) by (cases dir) (simp_all add: m_def attach_both_def att_upd_att, simp_all add: Attach_def NewAttachment_def stopTimer_def)
  then obtain a where a: "att_of m r dir = Some a" "att_state a = AttAttached" "timer a = None" "att_gen a = h_gen (hnd n ! h)" by blast
  have "handleForGen (h_gen (hnd n ! h)) m = None" using assms(5) by (auto simp: m_def handleForGen_def attach_both_def)
  then have p: "pinned r dir m = None" by (simp add: pinned_def a)
  have c: "\<not> cancelled (sess m r)" using assms(6) by (simp add: m_def attach_both_def)
  have w: "waitAttach_returns r dir m" by (simp add: waitAttach_returns_def a)
  have "relay_flush r dir x (b\<lparr>ra_pc := RLoop\<rparr>) m = (False, b\<lparr>ra_pc := RLoop\<rparr>, m)"
    by (simp add: relay_flush_def flushPending_def p)
  then show ?thesis
    using a c w assms(7,8) unfolding Let_def m_def [symmetric] by (simp add: relayShapeA_def relay_loop_def)
qed

definition demo_in :: relay_in where
  "demo_in = \<lparr>in_werr = (\<lambda>_. None), in_cerr = None, in_pow = (\<lambda>x. x), in_now = 0, in_bytes = [1, 2], in_rerr = None\<rparr>"

definition demo_steps :: "relay_op list" where
  "demo_steps = [RStep demo_in, RStep demo_in]"

definition demo_relay_node :: Node where
  "demo_relay_node = (demo_bound RoleIran 1)\<lparr>n_buf := newSessionBufferBudget 0\<rparr>"

lemma demo_relay:
  "map_option (\<lambda>s. (ra_pend (fst s), ra_read (fst s)))
     (relay_run 0 DirUp demo_steps (fst (relayA_begin 0 DirUp demo_relay_node), snd (relayA_begin 0 DirUp demo_relay_node), []))
     = Some ([1, 2], [1, 2])"
  by code_simp


definition demo_up :: "Role \<Rightarrow> Node" where
  "demo_up role = (demo_bound role 1)
     \<lparr>hnd := [new_handle 1 DefaultUpCarrierID DirUp (demo_cfg role []), new_handle 2 DefaultUpCarrierID DirUp (demo_cfg role [])],
      upReg := (upReg (demo_bound role 1))\<lparr>handles := [DefaultUpCarrierID \<mapsto> 0]\<rparr>,
      ses := [(ses (demo_bound role 1) ! 0)\<lparr>so_ses := (so_ses (ses (demo_bound role 1) ! 0))\<lparr>UpAtt := Some (demo_att 1)\<rparr>\<rparr>]\<rparr>"

lemma demo_up_simps:
  "pinned 0 DirUp (demo_up RoleIran) = Some (1, 0)" "\<not> closing (carrier_of (demo_up RoleIran) 0)"
  "GetByStream 5 (n_store (demo_up RoleGermany)) = Some 0" "rebindable (demo_up RoleGermany) DirUp 2 0"
  "h_id (hnd (demo_up RoleGermany) ! 1) = DefaultUpCarrierID" "h_gen (hnd (demo_up RoleGermany) ! 0) = 1" "h_gen (hnd (demo_up RoleGermany) ! 1) = 2"
  "map_option lastRebindGen (att_of (demo_up RoleGermany) 0 DirUp) = Some 0"
  by code_simp+

definition demo_rebind :: bytes where
  "demo_rebind = encodeRebind (replicate 16 7) 1 (demo_up RoleIran)"

lemma demo_up_iran: "h_gen (hnd (demo_up RoleIran) ! 1) = 2" "h_id (hnd (demo_up RoleIran) ! 1) = DefaultUpCarrierID"
  "length DefaultUpCarrierID \<le> RebindMaxCarrierIDLen"
  by code_simp+

theorem rebind_loses_in_flight_data_witness:
  "startStreamRelay 0 DirUp 0 3 \<lparr>ib_frame = Some (Some [9]), ib_written = 0, ib_werr = False, ib_t1 = 0, ib_t2 = 0, ib_room = True\<rparr>
     (handleRebind DirUp 1 5 (Some (Some demo_rebind)) 0 (demo_up RoleGermany))
   = (True, [], handleRebind DirUp 1 5 (Some (Some demo_rebind)) 0 (demo_up RoleGermany))"
proof -
  obtain rb where rb: "ParseRebindAny demo_rebind = Some rb" "rbGen rb = 2" "rbVersion rb = RebindVersionV2 \<longrightarrow> rbCarrierID rb = DefaultUpCarrierID"
    using encodeRebind_parses [of "replicate 16 7" "demo_up RoleIran" 1] demo_up_iran unfolding demo_rebind_def by auto
  obtain a where a: "att_of (demo_up RoleGermany) 0 DirUp = Some a" "lastRebindGen a = 0" using demo_up_simps(8) by auto
  let ?x = "\<lparr>ib_frame = Some (Some [9]), ib_written = 0, ib_werr = False, ib_t1 = 0, ib_t2 = 0, ib_room = True\<rparr>"
  show ?thesis
    using rebind_loses_in_flight_data [OF demo_up_simps(1,2) _ _ rb(1) demo_up_simps(3), of "[9]" 1 a 0 0 "\<lambda>x. x" 0 3 ?x "[8]" ?x]
      rb a demo_up_simps(4-7)
    by (simp add: Let_def)
qed

lemma attach_after_loss_strands_witness:
  "\<exists>a. att_of (attach_both 0 0 1 ((demo_up RoleIran)\<lparr>ses := [(ses (demo_bound RoleIran 1) ! 0)\<lparr>so_ses := node_session None None 5\<rparr>],
       upReg := newCarrierRegistry \<lparr>d_ID = DefaultUpCarrierID, d_Dir = DirUp, d_Family = []\<rparr>, downReg := newDownRegistry []\<rparr>)) 0 DirUp = Some a \<and>
     att_state a = AttAttached \<and> timer a = None"
proof -
  let ?n = "(demo_up RoleIran)\<lparr>ses := [(ses (demo_bound RoleIran 1) ! 0)\<lparr>so_ses := node_session None None 5\<rparr>],
       upReg := newCarrierRegistry \<lparr>d_ID = DefaultUpCarrierID, d_Dir = DirUp, d_Family = []\<rparr>, downReg := newDownRegistry []\<rparr>"
  have h: "handleForGen (h_gen (hnd ?n ! 0)) ?n = None" by code_simp
  show ?thesis
    using attach_after_loss_strands [OF _ _ _ _ h, of 0 DirUp 0 1 "\<lparr>ra_pc = RLoop, ra_pend = [1], ra_eof = False, ra_fin = False, ra_read = [1], ra_sent = []\<rparr>" demo_in demo_in]
    by (simp add: Let_def att_of_def sess_def Att_def node_session_def NewSession_def)
qed

end
