(* ===== verification/Governor.thy ===== *)
theory Governor
  imports Backoff "HOL-Library.AList" "HOL-Library.Multiset"
begin

text \<open>
  The target dial governor (\<^verbatim>\<open>src/pkg/node/target_dial_governor.go\<close>): the per-target circuit
  breaker, the jittered retry backoff, the bounded dial, and the LRU map that tracks the
  failing targets. Times and durations are nanoseconds; \<open>None\<close> is the zero \<^verbatim>\<open>time.Time\<close>. The map
  is an association list, the \<open>*dialBackoff\<close> of an entry an index into \<open>g_bos\<close>, because
  \<open>Wait\<close> keeps using the schedule after it has released the lock of the governor.

  Any number of \<open>Dial\<close> calls run at the same time. A call is a program counter, and the sections
  between its locks are the steps of \<open>gov_do\<close>: what the raw dialer answers, which case of a
  select is taken, what the clock reads and what the jitter draws is part of the label.
\<close>

section \<open>The retry schedule of one target\<close>

record dialBackoff =
  db_base :: int
  db_max :: int
  db_count :: nat

definition newDialBackoff :: "int \<Rightarrow> int \<Rightarrow> dialBackoff" where
  "newDialBackoff base0 max0 =
     (let base = (if base0 \<le> 0 then Millisecond else base0);
          mx = (if max0 < base then base else max0)
      in \<lparr>db_base = base, db_max = mx, db_count = 0\<rparr>)"

definition nominal :: "dialBackoff \<Rightarrow> int" where
  "nominal b =
     (let ex = (if db_count b > 30 then 30 else db_count b);
          d = wrap64 (db_base b * 2 ^ ex)
      in if d \<le> 0 \<or> d > db_max b then db_max b else d)"

text \<open>\<open>rnd\<close> is the value of \<open>Int63n (d/2 + 1)\<close>.\<close>

definition nextDelay :: "int \<Rightarrow> dialBackoff \<Rightarrow> int \<times> dialBackoff" where
  "nextDelay rnd b =
     (let d = nominal b;
          j = (if d div 2 > 0 then d div 2 + rnd else d div 2)
      in (j, b\<lparr>db_count := db_count b + 1\<rparr>))"

definition db_reset :: "dialBackoff \<Rightarrow> dialBackoff" where
  "db_reset b = b\<lparr>db_count := 0\<rparr>"

section \<open>Configuration and construction\<close>

record GovernorConfig =
  gc_BoundedTimeout :: int
  gc_BreakerEnabled :: bool
  gc_FailureWindow :: int
  gc_FailureThreshold :: int
  gc_Cooldown :: int
  gc_BackoffEnabled :: bool
  gc_BackoffBase :: int
  gc_BackoffMax :: int
  gc_MaxTargets :: int

record governorEntry =
  e_open :: bool
  openedAt :: int
  failures :: nat
  windowStart :: "int option"
  halfProbed :: bool
  e_bo :: "nat option"
  pendingRet :: bool

definition new_entry :: governorEntry where
  "new_entry = \<lparr>e_open = False, openedAt = 0, failures = 0, windowStart = None, halfProbed = False,
     e_bo = None, pendingRet = False\<rparr>"

record TargetDialGovernor =
  g_bound :: int
  breakerEnabled :: bool
  g_window :: int
  threshold :: int
  cooldown :: int
  backoffEnabled :: bool
  boffBase :: int
  boffMax :: int
  maxTargets :: int
  g_entries :: "(string \<times> governorEntry) list"
  g_order :: "string list"
  g_bos :: "dialBackoff list"

abbreviation Second :: int where "Second \<equiv> 1000000000"

definition NewTargetDialGovernor :: "GovernorConfig \<Rightarrow> TargetDialGovernor" where
  "NewTargetDialGovernor cfg =
     (let base = (if gc_BackoffBase cfg \<le> 0 then 500 * Millisecond else gc_BackoffBase cfg)
      in \<lparr>g_bound = gc_BoundedTimeout cfg,
          breakerEnabled = gc_BreakerEnabled cfg,
          g_window = (if gc_FailureWindow cfg \<le> 0 then 60 * Second else gc_FailureWindow cfg),
          threshold = (if gc_FailureThreshold cfg \<le> 0 then 5 else gc_FailureThreshold cfg),
          cooldown = (if gc_Cooldown cfg \<le> 0 then 30 * Second else gc_Cooldown cfg),
          backoffEnabled = gc_BackoffEnabled cfg,
          boffBase = base,
          boffMax = (if gc_BackoffMax cfg \<le> 0 \<or> gc_BackoffMax cfg < base then 30 * Second else gc_BackoffMax cfg),
          maxTargets = (if gc_MaxTargets cfg \<le> 0 then 1024 else gc_MaxTargets cfg),
          g_entries = [], g_order = [], g_bos = []\<rparr>)"

definition BuildTargetDialGovernor :: "GovernorConfig \<Rightarrow> TargetDialGovernor option" where
  "BuildTargetDialGovernor gc =
     (if \<not> gc_BreakerEnabled gc \<and> \<not> gc_BackoffEnabled gc \<and> gc_BoundedTimeout gc \<le> 0 then None
      else Some (NewTargetDialGovernor gc))"

section \<open>The locked operations\<close>

definition entry :: "TargetDialGovernor \<Rightarrow> string \<Rightarrow> governorEntry option" where
  "entry g target = map_of (g_entries g) target"

definition put_entry :: "string \<Rightarrow> governorEntry \<Rightarrow> TargetDialGovernor \<Rightarrow> TargetDialGovernor" where
  "put_entry target e g = g\<lparr>g_entries := AList.update target e (g_entries g)\<rparr>"

text \<open>The entry of \<open>target\<close> and the map in which it is the most recent one.\<close>

definition touchMRU :: "string \<Rightarrow> TargetDialGovernor \<Rightarrow> governorEntry \<times> TargetDialGovernor" where
  "touchMRU target g =
     (case entry g target of
        None \<Rightarrow>
          (let g1 = (if int (length (g_entries g)) \<ge> maxTargets g \<and> g_order g \<noteq> []
                     then g\<lparr>g_entries := AList.delete (hd (g_order g)) (g_entries g), g_order := tl (g_order g)\<rparr>
                     else g)
           in (new_entry, (put_entry target new_entry g1)\<lparr>g_order := g_order g1 @ [target]\<rparr>))
      | Some e \<Rightarrow>
          (e, if target \<in> set (g_order g) then g\<lparr>g_order := remove1 target (g_order g) @ [target]\<rparr> else g))"

definition Allow :: "int \<Rightarrow> string \<Rightarrow> TargetDialGovernor \<Rightarrow> (bool \<times> bool) \<times> TargetDialGovernor" where
  "Allow now target g =
     (if \<not> breakerEnabled g then ((True, False), g)
      else (case entry g target of
              None \<Rightarrow> ((True, False), g)
            | Some _ \<Rightarrow>
                (let (e, g1) = touchMRU target g
                 in if \<not> e_open e then ((True, False), g1)
                    else if now - openedAt e < cooldown g then ((False, False), g1)
                    else if halfProbed e then ((False, False), g1)
                    else ((True, True), put_entry target (e\<lparr>halfProbed := True\<rparr>) g1))))"

definition RecordSuccess :: "string \<Rightarrow> TargetDialGovernor \<Rightarrow> TargetDialGovernor" where
  "RecordSuccess target g =
     (case entry g target of
        None \<Rightarrow> g
      | Some e \<Rightarrow>
          (let g1 = put_entry target (e\<lparr>e_open := False, halfProbed := False, failures := 0,
                      windowStart := None, pendingRet := False\<rparr>) g
           in case e_bo e of
                Some b \<Rightarrow> if backoffEnabled g then g1\<lparr>g_bos := (g_bos g)[b := db_reset (g_bos g ! b)]\<rparr> else g1
              | None \<Rightarrow> g1))"

definition count_failure :: "int \<Rightarrow> TargetDialGovernor \<Rightarrow> governorEntry \<Rightarrow> governorEntry" where
  "count_failure now g e =
     (if e_open e then e\<lparr>openedAt := now, halfProbed := False\<rparr>
      else (let ws = (case windowStart e of None \<Rightarrow> now | Some t \<Rightarrow> t);
                e1 = (if now - ws \<ge> g_window g then e\<lparr>failures := 0, windowStart := Some now\<rparr>
                      else e\<lparr>windowStart := Some ws\<rparr>);
                e2 = e1\<lparr>failures := failures e1 + 1\<rparr>
            in if breakerEnabled g \<and> int (failures e2) \<ge> threshold g
               then e2\<lparr>e_open := True, halfProbed := False, openedAt := now\<rparr>
               else e2))"

definition arm_retry :: "TargetDialGovernor \<Rightarrow> governorEntry \<Rightarrow> governorEntry \<times> dialBackoff list" where
  "arm_retry g e =
     (if \<not> backoffEnabled g then (e, g_bos g)
      else case e_bo e of
             Some _ \<Rightarrow> (e\<lparr>pendingRet := True\<rparr>, g_bos g)
           | None \<Rightarrow> (e\<lparr>e_bo := Some (length (g_bos g)), pendingRet := True\<rparr>,
                     g_bos g @ [newDialBackoff (boffBase g) (boffMax g)]))"

definition RecordFailure :: "int \<Rightarrow> string \<Rightarrow> TargetDialGovernor \<Rightarrow> TargetDialGovernor" where
  "RecordFailure now target g =
     (let (e, g1) = touchMRU target g;
          (e1, bos) = arm_retry g1 (count_failure now g1 e)
      in (put_entry target e1 g1)\<lparr>g_bos := bos\<rparr>)"

text \<open>The locked section of \<open>Wait\<close>: the schedule to wait for, if a retry is armed.\<close>

definition Wait_take :: "string \<Rightarrow> TargetDialGovernor \<Rightarrow> nat option \<times> TargetDialGovernor" where
  "Wait_take target g =
     (if \<not> backoffEnabled g then (None, g)
      else case entry g target of
             None \<Rightarrow> (None, g)
           | Some e \<Rightarrow> if pendingRet e \<and> e_bo e \<noteq> None then (e_bo e, put_entry target (e\<lparr>pendingRet := False\<rparr>) g)
                       else (None, g))"

definition BackoffAttempts :: "TargetDialGovernor \<Rightarrow> string \<Rightarrow> nat" where
  "BackoffAttempts g target =
     (case entry g target of
        None \<Rightarrow> 0
      | Some e \<Rightarrow> (case e_bo e of None \<Rightarrow> 0 | Some b \<Rightarrow> db_count (g_bos g ! b)))"

definition OpenCount :: "TargetDialGovernor \<Rightarrow> nat" where
  "OpenCount g = length (filter (\<lambda>(_, e). e_open e) (g_entries g))"

definition gov_Len :: "TargetDialGovernor \<Rightarrow> nat" where
  "gov_Len g = length (g_entries g)"

section \<open>Concurrent dials\<close>

datatype dial_failure = ErrTargetBreakerOpen | ErrTargetDialTimeout | ErrCtx | ErrNilDialer | RawError

datatype dial_pc =
    DRaw
  | DAllowed
  | DDelay nat
  | DSleeping int
  | DDialing
  | DReturned "dial_failure + nat"
  | DAbandoned dial_failure

record dial_call =
  d_target :: string
  d_probe :: bool
  d_pc :: dial_pc

text \<open>\<open>orphans\<close> are the connections a raw dialer opened after its caller had gone.\<close>

record gov_sys =
  governor :: TargetDialGovernor
  gcalls :: "dial_call list"
  orphans :: "nat list"

datatype gov_label =
    GStart string int
  | GNil string
  | GWait nat
  | GDelay nat int
  | GSlept nat
  | GCancel nat int
  | GTimeout nat int
  | GRaw nat "nat option" int

definition set_pc :: "nat \<Rightarrow> dial_pc \<Rightarrow> gov_sys \<Rightarrow> gov_sys" where
  "set_pc c p s = s\<lparr>gcalls := (gcalls s)[c := (gcalls s ! c)\<lparr>d_pc := p\<rparr>]\<rparr>"

definition with_gov :: "TargetDialGovernor \<Rightarrow> gov_sys \<Rightarrow> gov_sys" where
  "with_gov g s = s\<lparr>governor := g\<rparr>"

definition Dial_start :: "string \<Rightarrow> int \<Rightarrow> gov_sys \<Rightarrow> gov_sys" where
  "Dial_start target now s =
     (let g = governor s;
          add = (\<lambda>probe p s. s\<lparr>gcalls := gcalls s @ [\<lparr>d_target = target, d_probe = probe, d_pc = p\<rparr>]\<rparr>)
      in if g_bound g \<le> 0 \<and> \<not> breakerEnabled g \<and> \<not> backoffEnabled g then add False DRaw s
         else (let ((allowed, probe), g1) = Allow now target g
               in if allowed then add probe DAllowed (with_gov g1 s)
                  else add False (DReturned (Inl ErrTargetBreakerOpen)) (with_gov g1 s)))"

text \<open>The end of \<open>Dial\<close> after \<open>dialBounded\<close>: the outcome is recorded, then returned.\<close>

definition record_outcome :: "nat \<Rightarrow> dial_failure + nat \<Rightarrow> int \<Rightarrow> gov_sys \<Rightarrow> gov_sys" where
  "record_outcome c r now s =
     (let target = d_target (gcalls s ! c)
      in case r of
           Inl err \<Rightarrow> set_pc c (DReturned r) (with_gov (RecordFailure now target (governor s)) s)
         | Inr conn \<Rightarrow> set_pc c (DReturned r) (with_gov (RecordSuccess target (governor s)) s))"

text \<open>The case of the select in \<open>dialBounded\<close> that gives up while the raw dial goes on.\<close>

definition abandon :: "nat \<Rightarrow> dial_failure \<Rightarrow> int \<Rightarrow> gov_sys \<Rightarrow> gov_sys" where
  "abandon c err now s = set_pc c (DAbandoned err) (record_outcome c (Inl err) now s)"

definition raw_result :: "nat option \<Rightarrow> dial_failure + nat" where
  "raw_result r = (case r of None \<Rightarrow> Inl RawError | Some conn \<Rightarrow> Inr conn)"

definition gov_do :: "gov_label \<Rightarrow> gov_sys \<Rightarrow> gov_sys option" where
  "gov_do l s =
     (let g = governor s; pc = (\<lambda>c. d_pc (gcalls s ! c)); ok = (\<lambda>c. c < length (gcalls s))
      in case l of
           GStart target now \<Rightarrow> Some (Dial_start target now s)
         | GNil target \<Rightarrow>
             Some (s\<lparr>gcalls := gcalls s @ [\<lparr>d_target = target, d_probe = False, d_pc = DReturned (Inl ErrNilDialer)\<rparr>]\<rparr>)
         | GWait c \<Rightarrow>
             if ok c \<and> pc c = DAllowed
             then (let (bo, g1) = Wait_take (d_target (gcalls s ! c)) g
                   in Some (set_pc c (case bo of None \<Rightarrow> DDialing | Some b \<Rightarrow> DDelay b) (with_gov g1 s)))
             else None
         | GDelay c rnd \<Rightarrow>
             if ok c then (case pc c of
                 DDelay b \<Rightarrow> if 0 \<le> rnd \<and> rnd \<le> nominal (g_bos g ! b) div 2
                             then (let (d, b1) = nextDelay rnd (g_bos g ! b)
                                   in Some (set_pc c (DSleeping d) (with_gov (g\<lparr>g_bos := (g_bos g)[b := b1]\<rparr>) s)))
                             else None
               | _ \<Rightarrow> None) else None
         | GSlept c \<Rightarrow>
             if ok c then (case pc c of DSleeping d \<Rightarrow> Some (set_pc c DDialing s) | _ \<Rightarrow> None) else None
         | GCancel c now \<Rightarrow>
             if ok c then (case pc c of
                 DSleeping d \<Rightarrow> Some (set_pc c (DReturned (Inl ErrCtx)) s)
               | DDialing \<Rightarrow> if g_bound g > 0 then Some (abandon c ErrCtx now s) else None
               | _ \<Rightarrow> None) else None
         | GTimeout c now \<Rightarrow>
             if ok c \<and> pc c = DDialing \<and> g_bound g > 0 then Some (abandon c ErrTargetDialTimeout now s) else None
         | GRaw c r now \<Rightarrow>
             if ok c then (case pc c of
                 DRaw \<Rightarrow> Some (set_pc c (DReturned (raw_result r)) s)
               | DDialing \<Rightarrow> Some (record_outcome c (raw_result r) now s)
               | DAbandoned err \<Rightarrow>
                   Some ((set_pc c (DReturned (Inl err)) s)
                     \<lparr>orphans := orphans s @ (case r of None \<Rightarrow> [] | Some conn \<Rightarrow> [conn])\<rparr>)
               | _ \<Rightarrow> None) else None)"

primrec gov_run :: "gov_label list \<Rightarrow> gov_sys \<Rightarrow> gov_sys option" where
  "gov_run [] s = Some s"
| "gov_run (l # ls) s = (case gov_do l s of None \<Rightarrow> None | Some s1 \<Rightarrow> gov_run ls s1)"

definition gov_init :: "GovernorConfig \<Rightarrow> gov_sys" where
  "gov_init cfg = \<lparr>governor = NewTargetDialGovernor cfg, gcalls = [], orphans = []\<rparr>"

interpretation gov_sys: run_system gov_do gov_run
  by unfold_locales simp_all

section \<open>Lemmas: the invariant\<close>

definition entry_ok :: "TargetDialGovernor \<Rightarrow> governorEntry \<Rightarrow> bool" where
  "entry_ok g e \<longleftrightarrow>
     (halfProbed e \<longrightarrow> e_open e) \<and> (e_open e \<longrightarrow> breakerEnabled g) \<and>
     (breakerEnabled g \<and> \<not> e_open e \<longrightarrow> int (failures e) < threshold g) \<and>
     (case e_bo e of None \<Rightarrow> \<not> pendingRet e | Some b \<Rightarrow> b < length (g_bos g))"

definition schedule_ok :: "TargetDialGovernor \<Rightarrow> dialBackoff \<Rightarrow> bool" where
  "schedule_ok g b \<longleftrightarrow> 0 < db_base b \<and> db_base b \<le> db_max b \<and> db_max b = max (boffBase g) (boffMax g)"

definition lru_ok :: "TargetDialGovernor \<Rightarrow> bool" where
  "lru_ok g \<longleftrightarrow>
     distinct (map fst (g_entries g)) \<and> distinct (g_order g) \<and> set (g_order g) = fst ` set (g_entries g) \<and>
     int (length (g_entries g)) \<le> maxTargets g"

definition params_ok :: "TargetDialGovernor \<Rightarrow> bool" where
  "params_ok g \<longleftrightarrow> 0 < maxTargets g \<and> 0 < threshold g \<and> 0 < cooldown g \<and> 0 < g_window g \<and> 0 < boffBase g"

definition gov_ok :: "TargetDialGovernor \<Rightarrow> bool" where
  "gov_ok g \<longleftrightarrow> params_ok g \<and> lru_ok g \<and> (\<forall>(t, e) \<in> set (g_entries g). entry_ok g e) \<and>
     (\<forall>b \<in> set (g_bos g). schedule_ok g b)"

text \<open>What no operation changes.\<close>

definition same_params :: "TargetDialGovernor \<Rightarrow> TargetDialGovernor \<Rightarrow> bool" where
  "same_params g h \<longleftrightarrow>
     g_bound h = g_bound g \<and> breakerEnabled h = breakerEnabled g \<and> g_window h = g_window g \<and>
     threshold h = threshold g \<and> cooldown h = cooldown g \<and> backoffEnabled h = backoffEnabled g \<and>
     boffBase h = boffBase g \<and> boffMax h = boffMax g \<and> maxTargets h = maxTargets g"

lemma same_params_refl [simp]: "same_params g g"
  by (simp add: same_params_def)

lemma same_params_trans: "same_params a b \<Longrightarrow> same_params b c \<Longrightarrow> same_params a c"
  by (simp add: same_params_def)

lemma entry_put [simp]: "entry (put_entry t e g) u = (if u = t then Some e else entry g u)"
  by (simp add: entry_def put_entry_def update_conv')

lemma entry_gov [simp]:
  "entry (g\<lparr>g_order := os\<rparr>) u = entry g u" "entry (g\<lparr>g_bos := bs\<rparr>) u = entry g u"
  by (simp_all add: entry_def)

lemma put_entry_fields [simp]:
  "g_bos (put_entry t e g) = g_bos g" "g_order (put_entry t e g) = g_order g"
  "same_params h (put_entry t e g) = same_params h g" "params_ok (put_entry t e g) = params_ok g"
  by (simp_all add: put_entry_def same_params_def params_ok_def)

lemma entry_ok_cong:
  assumes "same_params g h" "length (g_bos g) \<le> length (g_bos h)" "entry_ok g e"
  shows "entry_ok h e"
  using assms by (auto simp: entry_ok_def same_params_def split: option.splits)

lemma schedule_ok_cong: "same_params g h \<Longrightarrow> schedule_ok h b = schedule_ok g b"
  by (simp add: schedule_ok_def same_params_def)

lemma params_ok_cong: "same_params g h \<Longrightarrow> params_ok h = params_ok g"
  by (simp add: params_ok_def same_params_def)

lemma distinct_entries: "lru_ok g \<Longrightarrow> entry g t = Some e \<longleftrightarrow> (t, e) \<in> set (g_entries g)"
  by (simp add: lru_ok_def entry_def)

lemma entry_None: "entry g t = None \<longleftrightarrow> t \<notin> fst ` set (g_entries g)"
  by (simp add: entry_def map_of_eq_None_iff)

lemma gov_ok_entry: "gov_ok g \<Longrightarrow> entry g t = Some e \<Longrightarrow> entry_ok g e"
  unfolding gov_ok_def using distinct_entries by blast

text \<open>A way to establish the invariant after an operation, entry by entry.\<close>

lemma gov_okI:
  assumes "params_ok g" and "lru_ok g" and "\<And>t e. entry g t = Some e \<Longrightarrow> entry_ok g e"
    and "\<And>b. b \<in> set (g_bos g) \<Longrightarrow> schedule_ok g b"
  shows "gov_ok g"
  using assms distinct_entries [OF assms(2)] by (auto simp: gov_ok_def)

lemma length_update: "length (AList.update k v al) = (if k \<in> fst ` set al then length al else length al + 1)"
  using arg_cong [OF update_keys [of k v al], of length] by (auto split: if_splits)

lemma lru_put: "lru_ok g \<Longrightarrow> entry g t \<noteq> None \<Longrightarrow> lru_ok (put_entry t e g)"
  by (auto simp: lru_ok_def put_entry_def update_keys dom_update entry_None length_update)

lemma lru_bos [simp]: "lru_ok (g\<lparr>g_bos := bs\<rparr>) = lru_ok g" "params_ok (g\<lparr>g_bos := bs\<rparr>) = params_ok g"
  "same_params h (g\<lparr>g_bos := bs\<rparr>) = same_params h g"
  by (simp_all add: lru_ok_def params_ok_def same_params_def)

lemma gov_ok_put:
  assumes "gov_ok g" and "entry g t \<noteq> None" and "entry_ok g e"
  shows "gov_ok (put_entry t e g)"
proof (rule gov_okI)
  show "lru_ok (put_entry t e g)" using assms(1,2) by (auto simp: gov_ok_def lru_put)
  have sp: "same_params g (put_entry t e g)" by simp
  show "entry_ok (put_entry t e g) x" if "entry (put_entry t e g) u = Some x" for u x
    using that assms(3) gov_ok_entry [OF assms(1), of u x] entry_ok_cong [OF sp, of x]
    by (auto split: if_splits)
  show "schedule_ok (put_entry t e g) b" if "b \<in> set (g_bos (put_entry t e g))" for b
    using that assms(1) schedule_ok_cong [OF sp] by (simp add: gov_ok_def)
qed (use assms(1) in \<open>simp add: gov_ok_def\<close>)

lemma new_entry_ok: "params_ok g \<Longrightarrow> entry_ok g new_entry"
  by (simp add: entry_ok_def new_entry_def params_ok_def)

text \<open>Touching a target makes it the most recent one; only an unknown target in a full map evicts.\<close>

lemma touchMRU_keeps:
  assumes "touchMRU t g = (e, h)"
  shows "same_params g h" and "g_bos h = g_bos g" and "entry h t = Some e"
    and "e = (case entry g t of None \<Rightarrow> new_entry | Some x \<Rightarrow> x)"
    and "entry g t \<noteq> None \<Longrightarrow> entry h u = entry g u"
    and "int (length (g_entries g)) < maxTargets g \<Longrightarrow> u \<noteq> t \<Longrightarrow> entry h u = entry g u"
    and "u \<noteq> t \<Longrightarrow> entry h u = entry g u \<or> entry h u = None"
  using assms
  by (auto simp: touchMRU_def same_params_def Let_def entry_def put_entry_def update_conv' delete_conv'
      split: option.splits if_splits)

lemma keys_delete: "fst ` set (AList.delete k al) = fst ` set al - {k}"
  using arg_cong [OF delete_keys [of k al], of set] by simp

lemma lru_evict:
  assumes "lru_ok g" and "g_order g \<noteq> []"
  shows "lru_ok (g\<lparr>g_entries := AList.delete (hd (g_order g)) (g_entries g), g_order := tl (g_order g)\<rparr>)"
    and "length (AList.delete (hd (g_order g)) (g_entries g)) < length (g_entries g)"
proof -
  obtain o1 os where o: "g_order g = o1 # os" using assms(2) by (cases "g_order g") auto
  have k: "o1 \<in> fst ` set (g_entries g)" "o1 \<notin> set os" "distinct os"
    using assms(1) o by (auto simp: lru_ok_def)
  have "set os = fst ` set (g_entries g) - {o1}" using assms(1) o k(2) by (auto simp: lru_ok_def)
  moreover show l: "length (AList.delete (hd (g_order g)) (g_entries g)) < length (g_entries g)"
    using k(1) o by (auto simp: AList.delete_eq intro: length_filter_less)
  ultimately show "lru_ok (g\<lparr>g_entries := AList.delete (hd (g_order g)) (g_entries g), g_order := tl (g_order g)\<rparr>)"
    using assms(1) o k(3) by (simp add: lru_ok_def keys_delete distinct_delete)
qed

lemma lru_add:
  assumes "lru_ok g" and "t \<notin> fst ` set (g_entries g)" and "int (length (g_entries g)) < maxTargets g"
  shows "lru_ok ((put_entry t e g)\<lparr>g_order := g_order g @ [t]\<rparr>)"
proof -
  have "t \<notin> set (g_order g)" using assms(1,2) by (simp add: lru_ok_def)
  then show ?thesis
    using assms by (simp add: lru_ok_def put_entry_def length_update dom_update distinct_update)
qed

lemma touchMRU_lru:
  assumes "params_ok g" and "lru_ok g" and "touchMRU t g = (e, h)"
  shows "lru_ok h"
proof (cases "entry g t")
  case (Some x)
  have st: "set (remove1 t (g_order g) @ [t]) = set (g_order g)" if "t \<in> set (g_order g)"
    using that assms(2) by (auto simp: lru_ok_def)
  have "h = g \<or> t \<in> set (g_order g) \<and> h = g\<lparr>g_order := remove1 t (g_order g) @ [t]\<rparr>"
    using assms(3) Some by (auto simp: touchMRU_def split: if_splits)
  then show ?thesis
  proof
    assume "t \<in> set (g_order g) \<and> h = g\<lparr>g_order := remove1 t (g_order g) @ [t]\<rparr>"
    moreover have "distinct (remove1 t (g_order g) @ [t])" using assms(2) by (simp add: lru_ok_def)
    ultimately show ?thesis using assms(2) st by (simp add: lru_ok_def del: set_append distinct_append)
  qed (use assms(2) in simp)
next
  case None
  define g1 where "g1 = (if int (length (g_entries g)) \<ge> maxTargets g \<and> g_order g \<noteq> []
    then g\<lparr>g_entries := AList.delete (hd (g_order g)) (g_entries g), g_order := tl (g_order g)\<rparr> else g)"
  have h: "h = (put_entry t new_entry g1)\<lparr>g_order := g_order g1 @ [t]\<rparr>"
    using assms(3) None by (simp add: touchMRU_def g1_def [symmetric] Let_def)
  have g1: "lru_ok g1 \<and> int (length (g_entries g1)) < maxTargets g1"
    using lru_evict [OF assms(2)] assms(1,2) by (auto simp: g1_def params_ok_def lru_ok_def)
  have "t \<notin> fst ` set (g_entries g1)" using None by (simp add: g1_def entry_None keys_delete)
  then show ?thesis unfolding h using g1 by (intro lru_add) auto
qed

lemma touchMRU_ok:
  assumes "gov_ok g" and "touchMRU t g = (e, h)"
  shows "gov_ok h" and "entry_ok h e"
proof -
  note k = touchMRU_keeps [OF assms(2)]
  have p: "params_ok g" "lru_ok g" using assms(1) by (auto simp: gov_ok_def)
  have e: "entry_ok h e"
    using gov_ok_entry [OF assms(1), of t] new_entry_ok [OF p(1)] k(4) entry_ok_cong [OF k(1)] k(2)
    by (auto split: option.splits)
  show "gov_ok h"
  proof (rule gov_okI)
    show "params_ok h" using p(1) params_ok_cong [OF k(1)] by simp
    show "lru_ok h" by (rule touchMRU_lru [OF p assms(2)])
    show "entry_ok h x" if "entry h u = Some x" for u x
      using that e k(3) k(7) [of u] gov_ok_entry [OF assms(1), of u x] entry_ok_cong [OF k(1), of x] k(2)
      by (cases "u = t") auto
    show "schedule_ok h b" if "b \<in> set (g_bos h)" for b
      using that assms(1) k(2) schedule_ok_cong [OF k(1)] by (simp add: gov_ok_def)
  qed
  show "entry_ok h e" by (rule e)
qed

lemma count_failure_ok:
  assumes "params_ok g" and "entry_ok g e"
  shows "entry_ok g (count_failure now g e)" and "e_bo (count_failure now g e) = e_bo e"
    and "pendingRet (count_failure now g e) = pendingRet e"
  using assms by (auto simp: count_failure_def entry_ok_def params_ok_def Let_def split: option.splits)

lemma newDialBackoff_ok: "params_ok g \<Longrightarrow> schedule_ok g (newDialBackoff (boffBase g) (boffMax g))"
  by (simp add: schedule_ok_def newDialBackoff_def params_ok_def Let_def)

lemma gov_ok_bos:
  assumes "gov_ok g" and "length (g_bos g) \<le> length bs" and "\<And>b. b \<in> set bs \<Longrightarrow> schedule_ok g b"
  shows "gov_ok (g\<lparr>g_bos := bs\<rparr>)"
proof (rule gov_okI)
  have sp: "same_params g (g\<lparr>g_bos := bs\<rparr>)" by simp
  show "entry_ok (g\<lparr>g_bos := bs\<rparr>) x" if "entry (g\<lparr>g_bos := bs\<rparr>) u = Some x" for u x
    using entry_ok_cong [OF sp] gov_ok_entry [OF assms(1), of u x] that assms(2) by simp
  show "schedule_ok (g\<lparr>g_bos := bs\<rparr>) b" if "b \<in> set (g_bos (g\<lparr>g_bos := bs\<rparr>))" for b
    using that assms(3) schedule_ok_cong [OF sp] by simp
qed (use assms(1) in \<open>simp_all add: gov_ok_def\<close>)

lemma gov_ok_upd_bo:
  assumes "gov_ok g" and "schedule_ok g b"
  shows "gov_ok (g\<lparr>g_bos := (g_bos g)[i := b]\<rparr>)"
proof (rule gov_ok_bos [OF assms(1)])
  show "schedule_ok g x" if "x \<in> set ((g_bos g)[i := b])" for x
    using that assms set_update_subset_insert [of "g_bos g" i b] by (auto simp: gov_ok_def)
qed simp

lemma RecordFailure_ok:
  assumes "gov_ok g"
  shows "gov_ok (RecordFailure now t g)" and "same_params g (RecordFailure now t g)"
    and "length (g_bos g) \<le> length (g_bos (RecordFailure now t g))"
proof -
  obtain e h where th: "touchMRU t g = (e, h)" by (cases "touchMRU t g") auto
  note k = touchMRU_keeps [OF th] and ok = touchMRU_ok [OF assms th]
  define e1 where "e1 = count_failure now h e"
  have p: "params_ok h" using ok(1) by (simp add: gov_ok_def)
  have e1: "entry_ok h e1" "e_bo e1 = e_bo e" using count_failure_ok [OF p ok(2)] by (simp_all add: e1_def)
  obtain e2 bs where ar: "arm_retry h e1 = (e2, bs)" by (cases "arm_retry h e1") auto
  have bs: "length (g_bos h) \<le> length bs" "\<And>b. b \<in> set bs \<Longrightarrow> schedule_ok h b"
    using ar ok(1) newDialBackoff_ok [OF p] by (auto simp: arm_retry_def gov_ok_def split: option.splits if_splits)
  have e2: "entry_ok (h\<lparr>g_bos := bs\<rparr>) e2"
    using ar e1 by (auto simp: arm_retry_def entry_ok_def split: option.splits if_splits)
  have r: "RecordFailure now t g = put_entry t e2 (h\<lparr>g_bos := bs\<rparr>)"
    using th ar by (simp add: RecordFailure_def e1_def put_entry_def)
  show "gov_ok (RecordFailure now t g)" unfolding r
    by (rule gov_ok_put) (use gov_ok_bos [OF ok(1) bs] k(3) e2 in simp_all)
  show "same_params g (RecordFailure now t g)" using k(1) by (simp add: r)
  show "length (g_bos g) \<le> length (g_bos (RecordFailure now t g))" using bs(1) k(2) by (simp add: r)
qed

lemma db_reset_ok: "schedule_ok g b \<Longrightarrow> schedule_ok g (db_reset b)"
  by (simp add: schedule_ok_def db_reset_def)

lemma nextDelay_ok: "schedule_ok g b \<Longrightarrow> schedule_ok g (snd (nextDelay rnd b))"
  by (simp add: schedule_ok_def nextDelay_def Let_def)

lemma RecordSuccess_ok:
  assumes "gov_ok g"
  shows "gov_ok (RecordSuccess t g)" and "same_params g (RecordSuccess t g)"
    and "length (g_bos (RecordSuccess t g)) = length (g_bos g)"
proof -
  show "same_params g (RecordSuccess t g)" "length (g_bos (RecordSuccess t g)) = length (g_bos g)"
    by (simp_all add: RecordSuccess_def Let_def split: option.splits)
  show "gov_ok (RecordSuccess t g)"
  proof (cases "entry g t")
    case (Some e)
    let ?e = "e\<lparr>e_open := False, halfProbed := False, failures := 0, windowStart := None, pendingRet := False\<rparr>"
    have eo: "entry_ok g e" by (rule gov_ok_entry [OF assms Some])
    then have g1: "gov_ok (put_entry t ?e g)"
      using assms Some by (intro gov_ok_put) (auto simp: entry_ok_def gov_ok_def params_ok_def split: option.splits)
    have "schedule_ok (put_entry t ?e g) (db_reset (g_bos g ! b))" if "e_bo e = Some b" for b
      using eo that assms schedule_ok_cong [of g "put_entry t ?e g"] by (auto simp: entry_ok_def gov_ok_def intro: db_reset_ok)
    then show ?thesis
      using gov_ok_upd_bo [OF g1] g1 Some by (simp add: RecordSuccess_def Let_def split: option.splits)
  qed (use assms in \<open>simp add: RecordSuccess_def\<close>)
qed

lemma Allow_ok:
  assumes "gov_ok g"
  shows "gov_ok (snd (Allow now t g))" and "same_params g (snd (Allow now t g))" and "g_bos (snd (Allow now t g)) = g_bos g"
proof -
  obtain e h where th: "touchMRU t g = (e, h)" by (cases "touchMRU t g") auto
  note k = touchMRU_keeps [OF th] and ok = touchMRU_ok [OF assms th]
  have "gov_ok (put_entry t (e\<lparr>halfProbed := True\<rparr>) h)" if "e_open e"
    using ok that k(3) by (intro gov_ok_put) (auto simp: entry_ok_def split: option.splits)
  then show "gov_ok (snd (Allow now t g))" "same_params g (snd (Allow now t g))" "g_bos (snd (Allow now t g)) = g_bos g"
    using assms ok(1) k(1,2) th by (simp_all add: Allow_def split: option.splits)
qed

lemma Wait_take_ok:
  assumes "gov_ok g"
  shows "gov_ok (snd (Wait_take t g))" and "same_params g (snd (Wait_take t g))" and "g_bos (snd (Wait_take t g)) = g_bos g"
    and "fst (Wait_take t g) = Some b \<Longrightarrow> b < length (g_bos g)"
proof -
  have "gov_ok (put_entry t (e\<lparr>pendingRet := False\<rparr>) g)" if "entry g t = Some e" for e
    using assms that gov_ok_entry [OF assms that]
    by (intro gov_ok_put) (auto simp: entry_ok_def split: option.splits)
  then show "gov_ok (snd (Wait_take t g))" using assms by (simp add: Wait_take_def split: option.splits)
  show "same_params g (snd (Wait_take t g))" "g_bos (snd (Wait_take t g)) = g_bos g"
    by (simp_all add: Wait_take_def split: option.splits)
  show "b < length (g_bos g)" if "fst (Wait_take t g) = Some b"
    using that gov_ok_entry [OF assms, of t] by (auto simp: Wait_take_def entry_ok_def split: option.splits if_splits)
qed

section \<open>Lemmas: runs\<close>

definition call_ok :: "TargetDialGovernor \<Rightarrow> dial_call \<Rightarrow> bool" where
  "call_ok g c =
     (case d_pc c of
        DDelay b \<Rightarrow> b < length (g_bos g)
      | DSleeping d \<Rightarrow> 0 \<le> d \<and> d \<le> max (boffBase g) (boffMax g)
      | DAbandoned err \<Rightarrow> 0 < g_bound g
      | _ \<Rightarrow> True)"

definition gsys_ok :: "gov_sys \<Rightarrow> bool" where
  "gsys_ok s \<longleftrightarrow> gov_ok (governor s) \<and> (\<forall>c \<in> set (gcalls s). call_ok (governor s) c) \<and>
     (g_bound (governor s) \<le> 0 \<longrightarrow> orphans s = [])"

lemma nominal_bounds: "schedule_ok g b \<Longrightarrow> 0 < nominal b \<and> nominal b \<le> max (boffBase g) (boffMax g)"
  by (auto simp: nominal_def schedule_ok_def Let_def)

lemma nextDelay_bounds:
  assumes "schedule_ok g b" and "0 \<le> rnd" and "rnd \<le> nominal b div 2"
  shows "nominal b div 2 \<le> fst (nextDelay rnd b)" and "fst (nextDelay rnd b) \<le> nominal b"
    and "0 \<le> fst (nextDelay rnd b)" and "fst (nextDelay rnd b) \<le> max (boffBase g) (boffMax g)"
proof -
  have n: "0 < nominal b" "nominal b \<le> max (boffBase g) (boffMax g)" using nominal_bounds [OF assms(1)] by auto
  have "nominal b div 2 \<le> fst (nextDelay rnd b) \<and> fst (nextDelay rnd b) \<le> nominal b"
    unfolding nextDelay_def Let_def fst_conv using assms(2,3) n(1) by presburger
  then show "nominal b div 2 \<le> fst (nextDelay rnd b)" "fst (nextDelay rnd b) \<le> nominal b"
    "0 \<le> fst (nextDelay rnd b)" "fst (nextDelay rnd b) \<le> max (boffBase g) (boffMax g)"
    using n by linarith+
qed

lemma call_ok_cong:
  assumes "same_params g h" and "length (g_bos g) \<le> length (g_bos h)" and "call_ok g c"
  shows "call_ok h c"
  using assms by (auto simp: call_ok_def same_params_def split: dial_pc.splits)

text \<open>One step of a call keeps the invariant when the governor moves to a good one and the
  new program counter is good there.\<close>

lemma gsys_ok_step:
  assumes "gsys_ok s" and "gov_ok h" and "same_params (governor s) h"
    and "length (g_bos (governor s)) \<le> length (g_bos h)" and "\<And>c. d_pc c = p \<Longrightarrow> call_ok h c"
  shows "gsys_ok (set_pc c p (with_gov h s))"
proof -
  let ?s = "set_pc c p (with_gov h s)"
  have "call_ok h x" if "x \<in> set (gcalls ?s)" for x
  proof -
    have "x \<in> insert ((gcalls s ! c)\<lparr>d_pc := p\<rparr>) (set (gcalls s))"
      using that set_update_subset_insert [of "gcalls s" c] by (auto simp: set_pc_def with_gov_def)
    then show ?thesis
      using assms(1,5) call_ok_cong [OF assms(3,4)] by (auto simp: gsys_ok_def)
  qed
  moreover have "g_bound h = g_bound (governor s)" using assms(3) by (simp add: same_params_def)
  ultimately show ?thesis using assms(1,2) by (simp add: gsys_ok_def set_pc_def with_gov_def)
qed

lemma gsys_ok_pc:
  assumes "gsys_ok s" and "\<And>c. d_pc c = p \<Longrightarrow> call_ok (governor s) c"
  shows "gsys_ok (set_pc c p s)"
  using gsys_ok_step [OF assms(1), of "governor s" p c] assms by (simp add: gsys_ok_def with_gov_def)

lemma record_outcome_ok:
  assumes "gsys_ok s"
  shows "gsys_ok (record_outcome c r now s)"
proof -
  have g: "gov_ok (governor s)" using assms by (simp add: gsys_ok_def)
  have p: "call_ok h x" if "d_pc x = DReturned r" for h x using that by (simp add: call_ok_def)
  show ?thesis
  proof (cases r)
    case (Inl err)
    then show ?thesis
      using gsys_ok_step [OF assms RecordFailure_ok [OF g] p] by (simp add: record_outcome_def Let_def)
  next
    case (Inr conn)
    then show ?thesis
      using gsys_ok_step [OF assms RecordSuccess_ok(1,2) [OF g] _ p] RecordSuccess_ok(3) [OF g]
      by (simp add: record_outcome_def Let_def)
  qed
qed

lemma record_outcome_bound: "gsys_ok s \<Longrightarrow> g_bound (governor (record_outcome c r now s)) = g_bound (governor s)"
  using RecordFailure_ok(2) [of "governor s" now "d_target (gcalls s ! c)"]
    RecordSuccess_ok(2) [of "governor s" "d_target (gcalls s ! c)"]
  by (auto simp: record_outcome_def Let_def set_pc_def with_gov_def same_params_def gsys_ok_def split: sum.splits)

lemma new_call_ok [simp]:
  "call_ok h \<lparr>d_target = t, d_probe = p, d_pc = DRaw\<rparr>" "call_ok h \<lparr>d_target = t, d_probe = p, d_pc = DAllowed\<rparr>"
  "call_ok h \<lparr>d_target = t, d_probe = p, d_pc = DReturned r\<rparr>"
  by (simp_all add: call_ok_def)

lemma Dial_start_ok:
  assumes "gsys_ok s"
  shows "gsys_ok (Dial_start t now s)"
proof -
  have g: "gov_ok (governor s)" using assms by (simp add: gsys_ok_def)
  obtain a p h where al: "Allow now t (governor s) = ((a, p), h)" by (metis surj_pair)
  note ok = Allow_ok [OF g, of now t, unfolded al snd_conv]
  have "call_ok h x" if "x \<in> set (gcalls s)" for x
    using assms that call_ok_cong [OF ok(2)] ok(3) by (simp add: gsys_ok_def)
  moreover have "g_bound h = g_bound (governor s)" using ok(2) by (simp add: same_params_def)
  ultimately show ?thesis
    using assms ok(1) by (auto simp: Dial_start_def al gsys_ok_def with_gov_def Let_def)
qed

lemma abandon_ok:
  assumes "gsys_ok s" and "0 < g_bound (governor s)"
  shows "gsys_ok (abandon c err now s)"
  unfolding abandon_def using record_outcome_ok [OF assms(1)]
  by (rule gsys_ok_pc) (use record_outcome_bound [OF assms(1)] assms(2) in \<open>simp add: call_ok_def\<close>)

lemma gov_do_ok:
  assumes "gsys_ok s" and "gov_do l s = Some s'"
  shows "gsys_ok s'"
proof -
  have g: "gov_ok (governor s)" using assms(1) by (simp add: gsys_ok_def)
  have at: "call_ok (governor s) (gcalls s ! c)" if "c < length (gcalls s)" for c
    using assms(1) that by (simp add: gsys_ok_def)
  show ?thesis
  proof (cases l)
    case (GStart t now)
    have "gsys_ok (Dial_start t now s)"
      by (rule Dial_start_ok [OF assms(1)])
    then show ?thesis using assms(2) GStart by (simp add: gov_do_def)
  next
    case (GNil t)
    then show ?thesis using assms by (auto simp: gov_do_def gsys_ok_def)
  next
    case (GWait c)
    let ?w = "Wait_take (d_target (gcalls s ! c)) (governor s)"
    note w = Wait_take_ok [OF g, of "d_target (gcalls s ! c)"]
    have "s' = set_pc c (case fst ?w of None \<Rightarrow> DDialing | Some b \<Rightarrow> DDelay b) (with_gov (snd ?w) s)"
      using assms(2) GWait by (auto simp: gov_do_def Let_def split: if_splits prod.splits)
    moreover have "call_ok (snd ?w) x" if "d_pc x = (case fst ?w of None \<Rightarrow> DDialing | Some b \<Rightarrow> DDelay b)" for x
      using that w(3,4) by (auto simp: call_ok_def split: option.splits)
    ultimately show ?thesis using gsys_ok_step [OF assms(1) w(1,2)] w(3) by simp
  next
    case (GDelay c rnd)
    then obtain b where b: "c < length (gcalls s)" "d_pc (gcalls s ! c) = DDelay b" "0 \<le> rnd"
      "rnd \<le> nominal (g_bos (governor s) ! b) div 2"
      and s': "s' = set_pc c (DSleeping (fst (nextDelay rnd (g_bos (governor s) ! b))))
         (with_gov ((governor s)\<lparr>g_bos := (g_bos (governor s))[b := snd (nextDelay rnd (g_bos (governor s) ! b))]\<rparr>) s)"
      using assms(2) by (auto simp: gov_do_def Let_def split: if_splits dial_pc.splits prod.splits)
    have "b < length (g_bos (governor s))" using at [OF b(1)] b(2) by (simp add: call_ok_def)
    then have so: "schedule_ok (governor s) (g_bos (governor s) ! b)" using g by (simp add: gov_ok_def)
    show ?thesis unfolding s'
      by (rule gsys_ok_step [OF assms(1) gov_ok_upd_bo [OF g nextDelay_ok [OF so]]])
        (use nextDelay_bounds(3,4) [OF so b(3,4)] in \<open>simp_all add: call_ok_def\<close>)
  next
    case (GSlept c)
    then show ?thesis
      using assms by (auto simp: gov_do_def call_ok_def split: if_splits dial_pc.splits intro!: gsys_ok_pc)
  next
    case (GCancel c now)
    then have "s' = set_pc c (DReturned (Inl ErrCtx)) s \<or> 0 < g_bound (governor s) \<and> s' = abandon c ErrCtx now s"
      using assms(2) by (auto simp: gov_do_def split: if_splits dial_pc.splits)
    then show ?thesis using abandon_ok [OF assms(1)] gsys_ok_pc [OF assms(1)] by (auto simp: call_ok_def)
  next
    case (GTimeout c now)
    then show ?thesis using assms abandon_ok [OF assms(1)] by (auto simp: gov_do_def split: if_splits)
  next
    case (GRaw c r now)
    have ret: "gsys_ok (set_pc c (DReturned q) s)" for q using assms(1) by (rule gsys_ok_pc) (simp add: call_ok_def)
    have "gsys_ok ((set_pc c (DReturned q) s)\<lparr>orphans := os\<rparr>)" if "d_pc (gcalls s ! c) = DAbandoned err" "c < length (gcalls s)"
      for q os err using ret [of q] at [OF that(2)] that(1) by (simp add: gsys_ok_def call_ok_def set_pc_def)
    then show ?thesis
      using assms(2) GRaw record_outcome_ok [OF assms(1)] ret
      by (auto simp: gov_do_def split: if_splits dial_pc.splits)
  qed
qed

lemma gov_init_ok: "gsys_ok (gov_init cfg)"
  by (simp add: gsys_ok_def gov_init_def gov_ok_def lru_ok_def params_ok_def NewTargetDialGovernor_def Let_def)

lemma gov_run_ok: "gov_run ls (gov_init cfg) = Some s \<Longrightarrow> gsys_ok s"
  by (rule gov_sys.exec_inv [where I = gsys_ok]) (use gov_init_ok gov_do_ok in blast)+

section \<open>Lemmas: an open breaker\<close>

definition open_since :: "string \<Rightarrow> int \<Rightarrow> TargetDialGovernor \<Rightarrow> bool" where
  "open_since t t0 g \<longleftrightarrow> (\<exists>e. entry g t = Some e \<and> e_open e \<and> t0 \<le> openedAt e)"

definition tracked :: "TargetDialGovernor \<Rightarrow> string set" where
  "tracked g = fst ` set (g_entries g)"

text \<open>The targets of the calls a list of labels starts, in the order of the call numbers.\<close>

definition started :: "gov_label list \<Rightarrow> string list" where
  "started ls = concat (map (\<lambda>l. case l of GStart t _ \<Rightarrow> [t] | GNil t \<Rightarrow> [t] | _ \<Rightarrow> []) ls)"

definition label_clock :: "gov_label \<Rightarrow> int option" where
  "label_clock l = (case l of GStart _ now \<Rightarrow> Some now | GCancel _ now \<Rightarrow> Some now | GTimeout _ now \<Rightarrow> Some now
     | GRaw _ _ now \<Rightarrow> Some now | _ \<Rightarrow> None)"

lemma tracked_iff: "t \<in> tracked g \<longleftrightarrow> entry g t \<noteq> None"
  unfolding tracked_def using entry_None by metis

lemma tracked_put [simp]: "tracked (put_entry t e g) = insert t (tracked g)"
  by (auto simp: tracked_iff split: if_splits)

lemma tracked_gov [simp]: "tracked (g\<lparr>g_order := os\<rparr>) = tracked g" "tracked (g\<lparr>g_bos := bs\<rparr>) = tracked g"
  by (auto simp: tracked_iff)

lemma touchMRU_tracked: "touchMRU t g = (e, h) \<Longrightarrow> tracked h \<subseteq> insert t (tracked g)"
  using touchMRU_keeps(7) by (fastforce simp: tracked_iff)

lemma RecordFailure_tracked: "tracked (RecordFailure now t g) \<subseteq> insert t (tracked g)"
  using touchMRU_tracked [of t g] by (auto simp: RecordFailure_def split: prod.splits)

lemma RecordSuccess_tracked: "tracked (RecordSuccess t g) = tracked g"
  by (auto simp: RecordSuccess_def Let_def tracked_iff split: option.splits)

lemma Allow_tracked: "tracked (snd (Allow now t g)) = tracked g"
proof (cases "entry g t")
  case (Some x)
  obtain e h where th: "touchMRU t g = (e, h)" by (cases "touchMRU t g") auto
  have "entry h u = entry g u" for u using touchMRU_keeps(5) [OF th] Some by simp
  then show ?thesis using th Some by (auto simp: Allow_def tracked_iff)
qed (simp add: Allow_def)

lemma Wait_take_tracked: "tracked (snd (Wait_take t g)) = tracked g"
  by (auto simp: Wait_take_def tracked_iff split: option.splits)

lemma entry_gone_room:
  assumes "gov_ok g" and "insert t (tracked g) \<subseteq> A" and "finite A" and "int (card A) \<le> maxTargets g"
    and "entry g t = None"
  shows "int (length (g_entries g)) < maxTargets g"
proof -
  have "length (g_entries g) = card (tracked g)"
    using assms(1) distinct_card [of "map fst (g_entries g)"] by (simp add: tracked_def gov_ok_def lru_ok_def)
  moreover have "card (insert t (tracked g)) = card (tracked g) + 1"
    using assms(5) entry_None [of g t] by (simp add: tracked_def)
  moreover have "card (insert t (tracked g)) \<le> card A" using assms(2,3) by (rule card_mono [rotated])
  ultimately show ?thesis using assms(4) by linarith
qed

text \<open>With room for every target the entry of a target is only changed by its own operations.\<close>

lemma RecordFailure_entry:
  assumes "touchMRU t g = (e, h)"
  shows "\<exists>e'. entry (RecordFailure now t g) t = Some e' \<and> e_open e' = e_open (count_failure now g e) \<and>
    openedAt e' = openedAt (count_failure now g e) \<and> failures e' = failures (count_failure now g e) \<and>
    windowStart e' = windowStart (count_failure now g e) \<and> halfProbed e' = halfProbed (count_failure now g e)"
    and "u \<noteq> t \<Longrightarrow> entry (RecordFailure now t g) u = entry h u"
proof -
  have "count_failure now h e = count_failure now g e"
    using touchMRU_keeps(1) [OF assms] by (simp add: count_failure_def same_params_def)
  then show "\<exists>e'. entry (RecordFailure now t g) t = Some e' \<and> e_open e' = e_open (count_failure now g e) \<and>
    openedAt e' = openedAt (count_failure now g e) \<and> failures e' = failures (count_failure now g e) \<and>
    windowStart e' = windowStart (count_failure now g e) \<and> halfProbed e' = halfProbed (count_failure now g e)"
    "u \<noteq> t \<Longrightarrow> entry (RecordFailure now t g) u = entry h u"
    using assms by (auto simp: RecordFailure_def arm_retry_def split: prod.splits option.splits)
qed

lemma RecordFailure_open:
  assumes "gov_ok g" and "insert u (tracked g) \<subseteq> A" and "finite A" and "int (card A) \<le> maxTargets g"
    and "open_since t t0 g" and "t0 \<le> now"
  shows "open_since t t0 (RecordFailure now u g)"
proof -
  obtain e h where th: "touchMRU u g = (e, h)" by (cases "touchMRU u g") auto
  obtain x where x: "entry g t = Some x" "e_open x" "t0 \<le> openedAt x" using assms(5) by (auto simp: open_since_def)
  show ?thesis
  proof (cases "t = u")
    case True
    then have "e = x" using touchMRU_keeps(4) [OF th] x(1) by simp
    then show ?thesis
      using RecordFailure_entry(1) [OF th, of now] True x assms(6) by (auto simp: open_since_def count_failure_def)
  next
    case False
    have "entry h t = entry g t"
      using touchMRU_keeps(5,6) [OF th] entry_gone_room [OF assms(1-4)] False by (cases "entry g u") auto
    then show ?thesis using RecordFailure_entry(2) [OF th False] x by (auto simp: open_since_def)
  qed
qed

lemma Allow_open:
  assumes "open_since t t0 g"
  shows "open_since t t0 (snd (Allow now u g))"
proof (cases "entry g u")
  case (Some y)
  obtain e h where th: "touchMRU u g = (e, h)" by (cases "touchMRU u g") auto
  have "entry h w = entry g w" for w using touchMRU_keeps(5) [OF th] Some by simp
  moreover have "e = y" using touchMRU_keeps(4) [OF th] Some by simp
  ultimately show ?thesis using assms th Some by (auto simp: Allow_def open_since_def)
qed (use assms in \<open>simp add: Allow_def\<close>)

lemma RecordSuccess_open: "open_since t t0 g \<Longrightarrow> u \<noteq> t \<Longrightarrow> open_since t t0 (RecordSuccess u g)"
  by (auto simp: RecordSuccess_def Let_def open_since_def split: option.splits)

lemma Wait_take_open: "open_since t t0 g \<Longrightarrow> open_since t t0 (snd (Wait_take u g))"
  by (auto simp: Wait_take_def open_since_def split: option.splits)

lemma Allow_refuses:
  assumes "open_since t t0 g" and "breakerEnabled g" and "now < t0 + cooldown g"
  shows "fst (Allow now t g) = (False, False)"
proof -
  obtain x where x: "entry g t = Some x" "e_open x" "t0 \<le> openedAt x" using assms(1) by (auto simp: open_since_def)
  obtain e h where th: "touchMRU t g = (e, h)" by (cases "touchMRU t g") auto
  have "e = x" using touchMRU_keeps(4) [OF th] x(1) by simp
  then show ?thesis using x th assms(2,3) by (simp add: Allow_def)
qed

section \<open>Lemmas: targets of a run\<close>

definition known :: "gov_sys \<Rightarrow> string set" where
  "known s = tracked (governor s) \<union> d_target ` set (gcalls s)"

lemma set_pc_simps [simp]:
  "governor (set_pc c p s) = governor s" "orphans (set_pc c p s) = orphans s"
  "length (gcalls (set_pc c p s)) = length (gcalls s)"
  "governor (with_gov g s) = g" "gcalls (with_gov g s) = gcalls s" "orphans (with_gov g s) = orphans s"
  by (simp_all add: set_pc_def with_gov_def)

lemma targets_set_pc [simp]: "map d_target (gcalls (set_pc c p s)) = map d_target (gcalls s)"
proof (rule nth_equalityI)
  fix i assume "i < length (map d_target (gcalls (set_pc c p s)))"
  then show "map d_target (gcalls (set_pc c p s)) ! i = map d_target (gcalls s) ! i"
    by (cases "i = c") (simp_all add: set_pc_def)
qed simp

lemma targets_image [simp]: "d_target ` set (gcalls (set_pc c p s)) = d_target ` set (gcalls s)"
  using targets_set_pc by (metis set_map)

lemma record_outcome_targets [simp]:
  "map d_target (gcalls (record_outcome c r now s)) = map d_target (gcalls s)"
  by (simp add: record_outcome_def Let_def split: sum.splits)

lemma record_outcome_governor:
  "governor (record_outcome c r now s) =
     (case r of Inl _ \<Rightarrow> RecordFailure now (d_target (gcalls s ! c)) (governor s)
      | Inr _ \<Rightarrow> RecordSuccess (d_target (gcalls s ! c)) (governor s))"
  by (simp add: record_outcome_def Let_def split: sum.splits)

text \<open>What a step does to the governor: nothing, or one operation on behalf of the target of one call.\<close>

definition gov_op :: "gov_label \<Rightarrow> gov_sys \<Rightarrow> TargetDialGovernor \<Rightarrow> bool" where
  "gov_op l s h \<longleftrightarrow>
     (let g = governor s; tg = (\<lambda>c. d_target (gcalls s ! c)); ok = (\<lambda>c. c < length (gcalls s))
      in h = g \<or>
         (\<exists>t now. l = GStart t now \<and> h = snd (Allow now t g)) \<or>
         (\<exists>c. l = GWait c \<and> ok c \<and> h = snd (Wait_take (tg c) g)) \<or>
         (\<exists>c rnd bs. l = GDelay c rnd \<and> h = g\<lparr>g_bos := bs\<rparr>) \<or>
         (\<exists>c conn now. l = GRaw c (Some conn) now \<and> ok c \<and> h = RecordSuccess (tg c) g) \<or>
         (\<exists>c now. (l = GRaw c None now \<or> l = GTimeout c now \<or> l = GCancel c now) \<and> ok c \<and>
            h = RecordFailure now (tg c) g))"

lemma gov_do_op:
  assumes "gov_do l s = Some s'"
  shows "gov_op l s (governor s')"
  using assms
  by (cases l) (auto simp: gov_do_def gov_op_def Let_def Dial_start_def abandon_def record_outcome_governor raw_result_def
      split: if_splits prod.splits dial_pc.splits option.splits)

text \<open>The targets of the calls: only a start adds one, at the end.\<close>

lemma gov_do_targets:
  assumes "gov_do l s = Some s'"
  shows "map d_target (gcalls s') =
    map d_target (gcalls s) @ started [l]"
  using assms
  by (cases l) (auto simp: gov_do_def Let_def Dial_start_def abandon_def started_def
      split: if_splits prod.splits dial_pc.splits option.splits)

lemma gov_op_params:
  assumes "gov_op l s h" and "gov_ok (governor s)"
  shows "same_params (governor s) h"
  using assms(1) RecordFailure_ok(2) [OF assms(2)] RecordSuccess_ok(2) [OF assms(2)] Allow_ok(2) [OF assms(2)]
    Wait_take_ok(2) [OF assms(2)]
  by (auto simp: gov_op_def Let_def)

lemma gov_op_tracked:
  assumes "gov_op l s h"
  shows "tracked h \<subseteq> known s"
proof -
  have "d_target (gcalls s ! c) \<in> known s" if "c < length (gcalls s)" for c
    using that by (auto simp: known_def)
  moreover have "tracked (governor s) \<subseteq> known s" by (simp add: known_def)
  ultimately show ?thesis
    using assms RecordFailure_tracked by (auto simp: gov_op_def Let_def RecordSuccess_tracked Allow_tracked Wait_take_tracked
      split: if_splits) blast+
qed

lemma started_simps [simp]: "started [] = []" "started (l # ls) = started [l] @ started ls"
  by (simp_all add: started_def)

declare started_simps(2) [simp del]

lemma gov_run_targets:
  "gov_run ls s = Some s' \<Longrightarrow> map d_target (gcalls s') = map d_target (gcalls s) @ started ls"
proof (induction ls arbitrary: s)
  case (Cons l ls)
  then show ?case
    using gov_do_targets [of l s] by (auto simp: started_simps(2) [of l ls] split: option.splits)
qed simp

lemma gov_run_params:
  assumes "gov_run ls s = Some s'" and "gsys_ok s"
  shows "same_params (governor s) (governor s') \<and> gsys_ok s'"
proof (rule gov_sys.exec_inv [where I = "\<lambda>x. same_params (governor s) (governor x) \<and> gsys_ok x", OF assms(1)])
  fix l x x' assume "same_params (governor s) (governor x) \<and> gsys_ok x" and "gov_do l x = Some x'"
  then show "same_params (governor s) (governor x') \<and> gsys_ok x'"
    using gov_do_ok [of x l x'] gov_op_params [OF gov_do_op [of l x x']] same_params_trans [of "governor s" "governor x" "governor x'"]
    by (simp add: gsys_ok_def)
qed (simp add: assms(2))

lemma gov_run_known:
  assumes "gov_run ls s = Some s'"
  shows "known s' \<subseteq> known s \<union> set (started ls)"
  using assms
proof (induction ls arbitrary: s)
  case (Cons l ls)
  then obtain x where x: "gov_do l s = Some x" "gov_run ls x = Some s'" by (auto split: option.splits)
  have "d_target ` set (gcalls x) = d_target ` set (gcalls s) \<union> set (started [l])"
    using arg_cong [OF gov_do_targets [OF x(1)], of set] by simp
  then have "known x \<subseteq> known s \<union> set (started [l])"
    using gov_op_tracked [OF gov_do_op [OF x(1)]] by (auto simp: known_def)
  then show ?case using Cons.IH [OF x(2)] by (auto simp: started_simps(2) [of l ls])
qed simp

lemma gov_op_open:
  assumes "gov_op l s h" and "gov_ok (governor s)" and "known s \<subseteq> A" and "finite A"
    and "int (card A) \<le> maxTargets (governor s)" and "open_since t t0 (governor s)"
    and "\<And>now. label_clock l = Some now \<Longrightarrow> t0 \<le> now"
    and "\<And>c conn now. l = GRaw c (Some conn) now \<Longrightarrow> c < length (gcalls s) \<Longrightarrow> d_target (gcalls s ! c) \<noteq> t"
  shows "open_since t t0 h"
proof -
  have "open_since t t0 (RecordFailure now (d_target (gcalls s ! c)) (governor s))"
    if "c < length (gcalls s)" "label_clock l = Some now" for c now
  proof (rule RecordFailure_open [OF assms(2) _ assms(4,5,6) assms(7) [OF that(2)]])
    show "insert (d_target (gcalls s ! c)) (tracked (governor s)) \<subseteq> A"
      using assms(3) that(1) by (auto simp: known_def)
  qed
  moreover have "open_since t t0 ((governor s)\<lparr>g_bos := bs\<rparr>)" for bs using assms(6) by (simp add: open_since_def)
  ultimately show ?thesis
    using assms(1,6,8) Allow_open [OF assms(6)] Wait_take_open [OF assms(6)] RecordSuccess_open [OF assms(6)]
    by (auto simp: gov_op_def Let_def label_clock_def split: if_splits)
qed

lemma gov_run_open:
  assumes "gov_run ls s = Some s'" and "gsys_ok s" and "known s \<union> set (started ls) \<subseteq> A" and "finite A"
    and "int (card A) \<le> maxTargets (governor s)" and "open_since t t0 (governor s)"
    and "\<And>l now. l \<in> set ls \<Longrightarrow> label_clock l = Some now \<Longrightarrow> t0 \<le> now"
    and "\<And>c conn now. GRaw c (Some conn) now \<in> set ls \<Longrightarrow> (map d_target (gcalls s) @ started ls) ! c \<noteq> t"
  shows "open_since t t0 (governor s')"
  using assms
proof (induction ls arbitrary: s)
  case (Cons l ls)
  then obtain x where x: "gov_do l s = Some x" "gov_run ls x = Some s'" by (auto split: option.splits)
  have g: "gov_ok (governor s)" using Cons.prems(2) by (simp add: gsys_ok_def)
  have x1: "gov_run [l] s = Some x" using x(1) by simp
  have tg: "map d_target (gcalls x) @ started ls = map d_target (gcalls s) @ started (l # ls)"
    using gov_do_targets [OF x(1)] by (simp add: started_simps(2) [of l ls])
  have no: "d_target (gcalls s ! c) \<noteq> t" if "l = GRaw c (Some conn) now" "c < length (gcalls s)" for c conn now
    using Cons.prems(8) [of c conn now] that by (simp add: nth_append)
  show ?case
  proof (rule Cons.IH [OF x(2)])
    show "gsys_ok x" by (rule gov_do_ok [OF Cons.prems(2) x(1)])
    show "known x \<union> set (started ls) \<subseteq> A"
      using gov_run_known [OF x1] Cons.prems(3) by (auto simp: started_simps(2) [of l ls])
    show "int (card A) \<le> maxTargets (governor x)"
      using Cons.prems(5) gov_op_params [OF gov_do_op [OF x(1)] g] by (simp add: same_params_def)
    show "open_since t t0 (governor x)"
      by (rule gov_op_open [OF gov_do_op [OF x(1)] g _ Cons.prems(4,5,6)])
        (use Cons.prems(3,7) no in auto)
    show "(map d_target (gcalls x) @ started ls) ! c \<noteq> t" if "GRaw c (Some conn) now \<in> set ls" for c conn now
      using Cons.prems(8) [of c conn now] that tg by simp
  qed (use Cons.prems(4,7) in auto)
qed simp

lemma gov_init_known [simp]: "known (gov_init cfg) = {}" "gcalls (gov_init cfg) = []"
  "governor (gov_init cfg) = NewTargetDialGovernor cfg"
  by (simp_all add: known_def tracked_def gov_init_def NewTargetDialGovernor_def Let_def)

section \<open>Properties: the breaker\<close>

text \<open>C32. Governor state: in every state the concurrent dials can reach, the map of tracked targets is
  within its capacity and agrees with the recency list; a breaker is open only if the feature is on,
  a probe is marked only on an open breaker, a closed one has counted fewer failures
  than the threshold; no backoff delay is negative or longer than the larger of the two configured
  bounds; and a connection is orphaned only under a positive dial bound.\<close>

theorem governor_state_bounded:
  assumes "gov_run ls (gov_init cfg) = Some s" and "g = governor s" and "g0 = NewTargetDialGovernor cfg"
  shows "same_params g0 g \<and> distinct (map fst (g_entries g)) \<and> mset (g_order g) = mset (map fst (g_entries g)) \<and>
    int (gov_Len g) \<le> maxTargets g0 \<and> OpenCount g \<le> gov_Len g \<and>
    (\<forall>t e. entry g t = Some e \<longrightarrow>
       (e_open e \<longrightarrow> breakerEnabled g0) \<and> (halfProbed e \<longrightarrow> e_open e) \<and>
       (breakerEnabled g0 \<and> \<not> e_open e \<longrightarrow> int (failures e) < threshold g0)) \<and>
    (\<forall>c \<in> set (gcalls s). \<forall>d. d_pc c = DSleeping d \<longrightarrow> 0 \<le> d \<and> d \<le> max (boffBase g0) (boffMax g0)) \<and>
    (g_bound g0 \<le> 0 \<longrightarrow> orphans s = [])"
proof -
  have sp: "same_params g0 g" and ok: "gsys_ok s"
    using gov_run_params [OF assms(1) gov_init_ok] assms(2,3) by simp_all
  have g: "gov_ok g" using ok assms(2) by (simp add: gsys_ok_def)
  have l: "lru_ok g" using g by (simp add: gov_ok_def)
  have "mset (g_order g) = mset (map fst (g_entries g))"
    using l by (intro set_eq_iff_mset_eq_distinct [THEN iffD1]) (auto simp: lru_ok_def)
  moreover have "OpenCount g \<le> gov_Len g" by (simp add: OpenCount_def gov_Len_def)
  moreover have "\<forall>c \<in> set (gcalls s). \<forall>d. d_pc c = DSleeping d \<longrightarrow> 0 \<le> d \<and> d \<le> max (boffBase g0) (boffMax g0)"
    using ok sp assms(2) by (auto simp: gsys_ok_def call_ok_def same_params_def)
  ultimately show ?thesis
    using sp ok l assms(2) gov_ok_entry [OF g]
    by (simp add: same_params_def lru_ok_def gov_Len_def gsys_ok_def entry_ok_def)
qed

definition demo_gov :: GovernorConfig where
  "demo_gov = \<lparr>gc_BoundedTimeout = 0, gc_BreakerEnabled = True, gc_FailureWindow = 0, gc_FailureThreshold = 1,
     gc_Cooldown = 20, gc_BackoffEnabled = False, gc_BackoffBase = 0, gc_BackoffMax = 0, gc_MaxTargets = 2\<rparr>"

text \<open>A run in which the first of two dials of a target fails.\<close>

definition demo_gov_run :: "gov_label list" where
  "demo_gov_run = [GStart ''t'' 0, GStart ''t'' 0, GWait 0, GWait 1, GRaw 0 None 5]"

lemmas gov_eval = demo_gov_run_def demo_gov_def gov_init_def NewTargetDialGovernor_def Let_def gov_do_def Dial_start_def
  Allow_def entry_def with_gov_def set_pc_def Wait_take_def record_outcome_def raw_result_def RecordFailure_def
  touchMRU_def put_entry_def count_failure_def arm_retry_def new_entry_def

lemma demo_gov_state:
  "gov_run demo_gov_run (gov_init demo_gov) = Some s \<Longrightarrow>
     entry (governor s) ''t'' = Some (new_entry\<lparr>e_open := True, openedAt := 5, failures := 1, windowStart := Some 5\<rparr>) \<and>
     gcalls s = [\<lparr>d_target = ''t'', d_probe = False, d_pc = DReturned (Inl RawError)\<rparr>,
       \<lparr>d_target = ''t'', d_probe = False, d_pc = DDialing\<rparr>]"
  by (auto simp: gov_eval)

lemma demo_gov_enabled: "\<exists>s. gov_run demo_gov_run (gov_init demo_gov) = Some s"
  by (simp add: gov_eval)

theorem governor_state_bounded_witness:
  "\<exists>s. gov_run demo_gov_run (gov_init demo_gov) = Some s \<and> int (gov_Len (governor s)) \<le> 2"
proof -
  obtain s where s: "gov_run demo_gov_run (gov_init demo_gov) = Some s" using demo_gov_enabled by blast
  have "maxTargets (NewTargetDialGovernor demo_gov) = 2"
    by (simp add: demo_gov_def NewTargetDialGovernor_def Let_def)
  then show ?thesis using governor_state_bounded [OF s refl refl] s by simp
qed



text \<open>A probe does not stay alone: when a dial that had been admitted before the breaker opened fails while
  the half-open probe is still under way, the mark of the probe is cleared, and one cooldown later a second
  probe is admitted beside the first.\<close>

lemma straggler_readmits_probe:
  assumes "gov_run ls (gov_init cfg) = Some s" and "entry (governor s) t = Some e" and "e_open e" and "halfProbed e"
    and "c < length (gcalls s)" and "d_target (gcalls s ! c) = t" and "d_pc (gcalls s ! c) = DDialing"
    and "p < length (gcalls s)" and "p \<noteq> c" and "d_probe (gcalls s ! p)" and "d_pc (gcalls s ! p) = DDialing"
    and "cooldown (governor s) \<le> later - now"
  shows "\<exists>s'. gov_run [GRaw c None now, GStart t later, GWait (length (gcalls s))] s = Some s' \<and>
    gcalls s' ! p = gcalls s ! p \<and> d_probe (gcalls s' ! length (gcalls s)) \<and>
    (\<not> backoffEnabled (governor s) \<longrightarrow> d_pc (gcalls s' ! length (gcalls s)) = DDialing)"
proof -
  have ok: "gsys_ok s" by (rule gov_run_ok [OF assms(1)])
  have be: "breakerEnabled (governor s)"
    using gov_ok_entry [OF _ assms(2)] ok assms(3) by (simp add: gsys_ok_def entry_ok_def)
  obtain x h where th: "touchMRU t (governor s) = (x, h)" by (cases "touchMRU t (governor s)") auto
  have x: "x = e" using touchMRU_keeps(4) [OF th] assms(2) by simp
  let ?g = "RecordFailure now t (governor s)" and ?s1 = "record_outcome c (Inl RawError) now s"
  have sp: "same_params (governor s) ?g" by (rule RecordFailure_ok) (use ok in \<open>simp add: gsys_ok_def\<close>)
  obtain e1 where e1: "entry ?g t = Some e1" "e_open e1" "openedAt e1 = now" "\<not> halfProbed e1"
    using RecordFailure_entry(1) [OF th, of now] x assms(3) by (auto simp: count_failure_def)
  obtain y h1 where th1: "touchMRU t ?g = (y, h1)" by (cases "touchMRU t ?g") auto
  have y: "y = e1" using touchMRU_keeps(4) [OF th1] e1(1) by simp
  have al: "fst (Allow later t ?g) = (True, True)"
    using e1 y th1 be sp assms(12) by (simp add: Allow_def same_params_def)
  have bo: "backoffEnabled (snd (Allow later t ?g)) = backoffEnabled (governor s)"
    using Allow_ok(2) [of ?g later t] RecordFailure_ok(1) [of "governor s" now t] sp ok
    by (simp add: gsys_ok_def same_params_def)
  have s1: "gov_do (GRaw c None now) s = Some ?s1" "governor ?s1 = ?g" "length (gcalls ?s1) = length (gcalls s)"
    "gcalls ?s1 ! p = gcalls s ! p"
    using assms(5-9) by (simp_all add: gov_do_def raw_result_def record_outcome_def Let_def set_pc_def with_gov_def)
  have "gcalls (Dial_start t later ?s1) = gcalls ?s1 @ [\<lparr>d_target = t, d_probe = True, d_pc = DAllowed\<rparr>]"
    "governor (Dial_start t later ?s1) = snd (Allow later t ?g)"
    using al be sp s1(2) by (auto simp: Dial_start_def Let_def same_params_def with_gov_def split: prod.splits)
  then show ?thesis
    using s1 assms(8) bo
    by (auto simp: gov_do_def [of "GStart _ _"] gov_do_def [of "GWait _"] Let_def Wait_take_def set_pc_def with_gov_def
        nth_append nth_list_update split: prod.splits)
qed

lemma demo_probe_state:
  "\<exists>s. gov_run (demo_gov_run @ [GStart ''t'' 25, GWait 2]) (gov_init demo_gov) = Some s \<and>
     entry (governor s) ''t'' = Some (new_entry\<lparr>e_open := True, openedAt := 5, failures := 1,
        windowStart := Some 5, halfProbed := True\<rparr>) \<and>
     gcalls s = [\<lparr>d_target = ''t'', d_probe = False, d_pc = DReturned (Inl RawError)\<rparr>,
       \<lparr>d_target = ''t'', d_probe = False, d_pc = DDialing\<rparr>, \<lparr>d_target = ''t'', d_probe = True, d_pc = DDialing\<rparr>]"
  by (simp add: gov_eval)

lemma straggler_readmits_probe_witness:
  "\<exists>s s'. gov_run (demo_gov_run @ [GStart ''t'' 25, GWait 2]) (gov_init demo_gov) = Some s \<and>
     gov_run [GRaw 1 None 30, GStart ''t'' 50, GWait 3] s = Some s' \<and>
     d_probe (gcalls s' ! 2) \<and> d_pc (gcalls s' ! 2) = DDialing \<and>
     d_probe (gcalls s' ! 3) \<and> d_pc (gcalls s' ! 3) = DDialing"
proof -
  obtain s where s: "gov_run (demo_gov_run @ [GStart ''t'' 25, GWait 2]) (gov_init demo_gov) = Some s"
    and e: "entry (governor s) ''t'' = Some (new_entry\<lparr>e_open := True, openedAt := 5, failures := 1,
        windowStart := Some 5, halfProbed := True\<rparr>)"
    and cs: "gcalls s = [\<lparr>d_target = ''t'', d_probe = False, d_pc = DReturned (Inl RawError)\<rparr>,
       \<lparr>d_target = ''t'', d_probe = False, d_pc = DDialing\<rparr>, \<lparr>d_target = ''t'', d_probe = True, d_pc = DDialing\<rparr>]"
    using demo_probe_state by blast
  have ps: "cooldown (governor s) = 20" "\<not> backoffEnabled (governor s)"
    using gov_run_params [OF s gov_init_ok] by (simp_all add: same_params_def demo_gov_def NewTargetDialGovernor_def Let_def)
  have "\<exists>s'. gov_run [GRaw 1 None 30, GStart ''t'' 50, GWait (length (gcalls s))] s = Some s' \<and>
    gcalls s' ! 2 = gcalls s ! 2 \<and> d_probe (gcalls s' ! length (gcalls s)) \<and>
    (\<not> backoffEnabled (governor s) \<longrightarrow> d_pc (gcalls s' ! length (gcalls s)) = DDialing)"
    by (rule straggler_readmits_probe [OF s e]) (simp_all add: cs ps)
  moreover have "length (gcalls s) = 3" "gcalls s ! 2 = \<lparr>d_target = ''t'', d_probe = True, d_pc = DDialing\<rparr>"
    by (simp_all add: cs)
  ultimately show ?thesis using s ps(2) by (metis dial_call.select_convs(2,3))
qed

section \<open>Properties: counting failures, and connections\<close>

definition failures_at :: "string \<Rightarrow> int list \<Rightarrow> TargetDialGovernor \<Rightarrow> TargetDialGovernor" where
  "failures_at t ts g = fold (\<lambda>now. RecordFailure now t) ts g"

lemma failures_at_simps [simp]:
  "failures_at t [] g = g" "failures_at t (x # ts) g = failures_at t ts (RecordFailure x t g)"
  by (simp_all add: failures_at_def)

lemma failures_at_append: "failures_at t (ts @ us) g = failures_at t us (failures_at t ts g)"
  by (simp add: failures_at_def)

text \<open>The counting part of the entry of a target.\<close>

definition counting :: "TargetDialGovernor \<Rightarrow> string \<Rightarrow> nat \<Rightarrow> int \<Rightarrow> bool" where
  "counting g t n w \<longleftrightarrow> (\<exists>e. entry g t = Some e \<and> \<not> e_open e \<and> failures e = n \<and> windowStart e = Some w)"

definition is_open :: "TargetDialGovernor \<Rightarrow> string \<Rightarrow> bool" where
  "is_open g t \<longleftrightarrow> (\<exists>e. entry g t = Some e \<and> e_open e)"

lemma failure_counts:
  assumes "counting g t n w" and "w \<le> now" and "now < w + g_window g"
  shows "if breakerEnabled g \<and> int n + 1 \<ge> threshold g then is_open (RecordFailure now t g) t
    else counting (RecordFailure now t g) t (n + 1) w"
proof -
  obtain e where e: "entry g t = Some e" "\<not> e_open e" "failures e = n" "windowStart e = Some w"
    using assms(1) by (auto simp: counting_def)
  obtain x h where th: "touchMRU t g = (x, h)" by (cases "touchMRU t g") auto
  have "x = e" using touchMRU_keeps(4) [OF th] e(1) by simp
  then show ?thesis
    using RecordFailure_entry(1) [OF th, of now] e assms(2,3)
    by (auto simp: counting_def is_open_def count_failure_def Let_def)
qed

lemma failure_restarts:
  assumes "counting g t n w \<and> w + g_window g \<le> now \<or> entry g t = None" and "0 < g_window g"
  shows "if breakerEnabled g \<and> 1 \<ge> threshold g then is_open (RecordFailure now t g) t
    else counting (RecordFailure now t g) t 1 now"
proof -
  obtain x h where th: "touchMRU t g = (x, h)" by (cases "touchMRU t g") auto
  have "\<not> e_open x \<and> (windowStart x = Some w \<and> w + g_window g \<le> now \<or> x = new_entry)"
    using touchMRU_keeps(4) [OF th] assms(1) by (auto simp: counting_def new_entry_def)
  then show ?thesis
    using RecordFailure_entry(1) [OF th, of now] assms(2)
    by (auto simp: counting_def is_open_def count_failure_def Let_def new_entry_def)
qed

lemma is_open_failure:
  assumes "is_open g t"
  shows "is_open (RecordFailure now t g) t"
proof -
  obtain x h where th: "touchMRU t g = (x, h)" by (cases "touchMRU t g") auto
  have "e_open x" using touchMRU_keeps(4) [OF th] assms by (auto simp: is_open_def)
  then show ?thesis using RecordFailure_entry(1) [OF th, of now] by (auto simp: is_open_def count_failure_def)
qed

lemma failures_params:
  assumes "gov_ok g"
  shows "gov_ok (failures_at t ts g) \<and> same_params g (failures_at t ts g)"
  using assms
proof (induction ts arbitrary: g)
  case (Cons x ts)
  then show ?case
    using RecordFailure_ok(1,2) [OF Cons.prems, of x t] same_params_trans by force
qed simp

lemma is_open_failures: "is_open g t \<Longrightarrow> is_open (failures_at t ts g) t"
  by (induction ts arbitrary: g) (simp_all add: is_open_failure)

lemma failures_in_window:
  assumes "gov_ok g" and "breakerEnabled g" and "counting g t n w" and "\<And>x. x \<in> set ts \<Longrightarrow> w \<le> x \<and> x < w + g_window g"
    and "int n < threshold g"
  shows "if int (n + length ts) \<ge> threshold g then is_open (failures_at t ts g) t
    else counting (failures_at t ts g) t (n + length ts) w"
  using assms
proof (induction ts arbitrary: g n)
  case Nil
  then show ?case by simp
next
  case (Cons x ts)
  note ok = RecordFailure_ok(1,2) [OF Cons.prems(1), of x t]
  have eq: "threshold (RecordFailure x t g) = threshold g" "breakerEnabled (RecordFailure x t g)"
    "g_window (RecordFailure x t g) = g_window g" using ok(2) Cons.prems(2) by (simp_all add: same_params_def)
  have st: "if int n + 1 \<ge> threshold g then is_open (RecordFailure x t g) t
    else counting (RecordFailure x t g) t (n + 1) w"
    using failure_counts [OF Cons.prems(3), of x] Cons.prems(2,4) by simp
  show ?case
  proof (cases "int n + 1 \<ge> threshold g")
    case True
    then show ?thesis using st is_open_failures [of "RecordFailure x t g" t ts] by simp
  next
    case False
    then show ?thesis
      using st Cons.IH [OF ok(1) eq(2), of "n + 1"] eq Cons.prems(4) by (auto split: if_splits)
  qed
qed

lemma failures_window:
  assumes "gov_ok g" and "breakerEnabled g" and "counting g t n w \<and> w + g_window g \<le> t0 \<or> entry g t = None"
    and "\<And>x. x \<in> set ts \<Longrightarrow> t0 \<le> x \<and> x < t0 + g_window g"
  shows "if 1 + int (length ts) \<ge> threshold g then is_open (failures_at t (t0 # ts) g) t
    else counting (failures_at t (t0 # ts) g) t (1 + length ts) t0"
proof -
  note ok = RecordFailure_ok(1,2) [OF assms(1), of t0 t]
  have eq: "threshold (RecordFailure t0 t g) = threshold g" "breakerEnabled (RecordFailure t0 t g)"
    "g_window (RecordFailure t0 t g) = g_window g" using ok(2) assms(2) by (simp_all add: same_params_def)
  have "0 < g_window g" using assms(1) by (simp add: gov_ok_def params_ok_def)
  note st = failure_restarts [OF assms(3) this]
  show ?thesis
  proof (cases "1 \<ge> threshold g")
    case True
    then show ?thesis using st assms(2) is_open_failures [of "RecordFailure t0 t g" t ts] by simp
  next
    case False
    then show ?thesis
      using st failures_in_window [OF ok(1) eq(2), of t 1 t0 ts] eq assms(4) by (auto split: if_splits)
  qed
qed

text \<open>When the breaker opens: failures of a target, starting with an untracked one, open its breaker exactly when
  the threshold is reached within one window that starts with the first of them. The window
  does not roll: once it is over the count starts again from one with a new window, so two
  groups of failures, each below the threshold, leave the breaker closed although they may
  lie arbitrarily close together.\<close>

lemma breaker_counts_tumbling_windows:
  assumes "gov_run ls (gov_init cfg) = Some s" and "g = governor s" and "breakerEnabled g" and "entry g t = None"
    and "\<And>x. x \<in> set ts \<Longrightarrow> t0 \<le> x \<and> x < t0 + g_window g"
    and "t1 \<ge> t0 + g_window g" and "\<And>x. x \<in> set us \<Longrightarrow> t1 \<le> x \<and> x < t1 + g_window g"
  shows "(is_open (failures_at t (t0 # ts) g) t \<longleftrightarrow> int (length (t0 # ts)) \<ge> threshold g) \<and>
    (int (length (t0 # ts)) < threshold g \<longrightarrow>
       (is_open (failures_at t ((t0 # ts) @ (t1 # us)) g) t \<longleftrightarrow> int (length (t1 # us)) \<ge> threshold g))"
proof -
  have g: "gov_ok g" using gov_run_ok [OF assms(1)] assms(2) by (simp add: gsys_ok_def)
  define h where "h = failures_at t (t0 # ts) g"
  have h: "gov_ok h" "same_params g h" using failures_params [OF g, of t "t0 # ts"] unfolding h_def by blast+
  have eq: "threshold h = threshold g" "breakerEnabled h" "g_window h = g_window g"
    using h(2) assms(3) by (simp_all add: same_params_def)
  have one: "if 1 + int (length ts) \<ge> threshold g then is_open h t else counting h t (1 + length ts) t0"
    unfolding h_def by (rule failures_window [OF g assms(3) disjI2 [OF assms(4)] assms(5)])
  have split: "failures_at t ((t0 # ts) @ (t1 # us)) g = failures_at t (t1 # us) h"
    by (simp add: failures_at_append h_def)
  have two: "is_open (failures_at t (t1 # us) h) t \<longleftrightarrow> int (length (t1 # us)) \<ge> threshold g"
    if "int (length (t0 # ts)) < threshold g"
  proof -
    have "counting h t (1 + length ts) t0" using one that by simp
    then show ?thesis
      using failures_window [OF h(1) eq(2), of t "1 + length ts" t0 t1 us] assms(6,7) eq
      by (auto simp: counting_def is_open_def split: if_splits)
  qed
  show ?thesis using one two unfolding split h_def [symmetric]
    by (auto simp: counting_def is_open_def split: if_splits)
qed

text \<open>The connections the raw dialer has opened, and those the calls returned.\<close>

definition raw_conns :: "gov_label list \<Rightarrow> nat list" where
  "raw_conns ls = concat (map (\<lambda>l. case l of GRaw _ (Some conn) _ \<Rightarrow> [conn] | _ \<Rightarrow> []) ls)"

definition returned_conns :: "gov_sys \<Rightarrow> nat list" where
  "returned_conns s = concat (map (\<lambda>c. case d_pc c of DReturned (Inr conn) \<Rightarrow> [conn] | _ \<Rightarrow> []) (gcalls s))"

definition conn_of :: "dial_pc \<Rightarrow> nat list" where
  "conn_of p = (case p of DReturned (Inr conn) \<Rightarrow> [conn] | _ \<Rightarrow> [])"

lemma returned_conns_eq: "returned_conns s = concat (map (\<lambda>c. conn_of (d_pc c)) (gcalls s))"
  by (simp add: returned_conns_def conn_of_def)

lemma conn_of_simps [simp]:
  "conn_of DRaw = []" "conn_of DAllowed = []" "conn_of (DDelay b) = []" "conn_of (DSleeping d) = []"
  "conn_of DDialing = []" "conn_of (DAbandoned err) = []" "conn_of (DReturned (Inl err)) = []"
  "conn_of (DReturned (Inr conn)) = [conn]"
  "conn_of (DReturned (raw_result r)) = (case r of None \<Rightarrow> [] | Some conn \<Rightarrow> [conn])"
  by (simp_all add: conn_of_def raw_result_def split: option.splits)

lemma returned_set_pc:
  assumes "c < length (gcalls s)" and "conn_of (d_pc (gcalls s ! c)) = []"
  shows "mset (returned_conns (set_pc c p s)) = mset (returned_conns s) + mset (conn_of p)"
proof -
  let ?cs = "\<lambda>xs. mset (concat (map (\<lambda>c. conn_of (d_pc c)) xs))"
  have "?cs (gcalls s) = ?cs (take c (gcalls s)) + ?cs (drop (Suc c) (gcalls s))"
    using arg_cong [OF id_take_nth_drop [OF assms(1)], of ?cs] assms(2) by simp
  then show ?thesis
    using assms(1) by (simp add: returned_conns_eq set_pc_def upd_conv_take_nth_drop)
qed

lemma returned_with_gov [simp]: "returned_conns (with_gov g s) = returned_conns s"
  by (simp add: returned_conns_def)

lemma set_pc_nth [simp]: "c < length (gcalls s) \<Longrightarrow> d_pc (gcalls (set_pc c p s) ! c) = p"
  by (simp add: set_pc_def)

lemma returned_outcome:
  assumes "c < length (gcalls s)" and "conn_of (d_pc (gcalls s ! c)) = []"
  shows "mset (returned_conns (record_outcome c r now s)) = mset (returned_conns s) + mset (conn_of (DReturned r))"
    and "length (gcalls (record_outcome c r now s)) = length (gcalls s)"
    and "d_pc (gcalls (record_outcome c r now s) ! c) = DReturned r"
    and "orphans (record_outcome c r now s) = orphans s"
  using assms returned_set_pc [of c "with_gov _ s"]
  by (simp_all add: record_outcome_def Let_def split: sum.splits)

lemma returned_abandon:
  assumes "c < length (gcalls s)" and "d_pc (gcalls s ! c) = DDialing"
  shows "mset (returned_conns (abandon c err now s)) = mset (returned_conns s)" and "orphans (abandon c err now s) = orphans s"
  using returned_outcome [of c s "Inl err" now] assms returned_set_pc [of c "record_outcome c (Inl err) now s" "DAbandoned err"]
  by (simp_all add: abandon_def)

lemma gov_do_conns:
  assumes "gov_do l s = Some s'"
  shows "mset (returned_conns s') + mset (orphans s') = mset (returned_conns s) + mset (orphans s) + mset (raw_conns [l])"
proof (cases l)
  case (GStart t now)
  then show ?thesis using assms
    by (auto simp: gov_do_def Dial_start_def Let_def with_gov_def returned_conns_eq raw_conns_def split: prod.splits)
next
  case (GNil t)
  then show ?thesis using assms by (auto simp: gov_do_def returned_conns_eq raw_conns_def)
next
  case (GWait c)
  then show ?thesis using assms returned_set_pc [of c "with_gov _ s"]
    by (auto simp: gov_do_def Let_def raw_conns_def split: if_splits prod.splits option.splits)
next
  case (GDelay c rnd)
  then show ?thesis using assms returned_set_pc [of c "with_gov _ s"]
    by (auto simp: gov_do_def Let_def raw_conns_def split: if_splits prod.splits dial_pc.splits)
next
  case (GSlept c)
  then show ?thesis using assms returned_set_pc [of c s]
    by (auto simp: gov_do_def Let_def raw_conns_def split: if_splits dial_pc.splits)
next
  case (GCancel c now)
  then show ?thesis using assms returned_set_pc [of c s] returned_abandon [of c s]
    by (auto simp: gov_do_def Let_def raw_conns_def split: if_splits dial_pc.splits)
next
  case (GTimeout c now)
  then show ?thesis using assms returned_abandon [of c s]
    by (auto simp: gov_do_def Let_def raw_conns_def split: if_splits)
next
  case (GRaw c r now)
  have "returned_conns ((set_pc c p s)\<lparr>orphans := os\<rparr>) = returned_conns (set_pc c p s)" for p os
    by (simp add: returned_conns_def)
  then show ?thesis using assms GRaw returned_set_pc [of c s] returned_outcome [of c s "raw_result r" now]
    by (auto simp: gov_do_def Let_def raw_conns_def split: if_splits dial_pc.splits option.splits)
qed

lemma gov_run_conns:
  "gov_run ls s = Some s' \<Longrightarrow>
    mset (returned_conns s') + mset (orphans s') = mset (returned_conns s) + mset (orphans s) + mset (raw_conns ls)"
proof (induction ls arbitrary: s)
  case Nil
  then show ?case by (simp add: raw_conns_def)
next
  case (Cons l ls)
  then obtain x where x: "gov_do l s = Some x" "gov_run ls x = Some s'" by (auto split: option.splits)
  have "raw_conns (l # ls) = raw_conns [l] @ raw_conns ls" by (simp add: raw_conns_def)
  then show ?case using Cons.IH [OF x(2)] gov_do_conns [OF x(1)] by simp
qed

text \<open>Connections are neither lost nor handed out twice, but an abandoned dial leaks: over any run the connections
  the raw dialer opened are exactly those returned by one call each and the orphans; and a dial
  that succeeds after its call has timed out or was cancelled always makes its connection an
  orphan, which no caller receives.\<close>

lemma dialed_connections_accounted:
  assumes "gov_run ls (gov_init cfg) = Some s"
  shows "mset (raw_conns ls) = mset (returned_conns s) + mset (orphans s) \<and>
    (\<forall>c err conn now s'. c < length (gcalls s) \<and> d_pc (gcalls s ! c) = DAbandoned err \<and>
       gov_do (GRaw c (Some conn) now) s = Some s' \<longrightarrow>
       orphans s' = orphans s @ [conn] \<and> mset (returned_conns s') = mset (returned_conns s))"
proof (intro conjI allI impI)
  show "mset (raw_conns ls) = mset (returned_conns s) + mset (orphans s)"
    using gov_run_conns [OF assms] by (simp add: gov_init_def returned_conns_def)
  fix c err conn now s'
  assume a: "c < length (gcalls s) \<and> d_pc (gcalls s ! c) = DAbandoned err \<and> gov_do (GRaw c (Some conn) now) s = Some s'"
  then show o: "orphans s' = orphans s @ [conn]" by (auto simp: gov_do_def)
  show "mset (returned_conns s') = mset (returned_conns s)"
    using gov_do_conns [of "GRaw c (Some conn) now" s s'] a o by (simp add: raw_conns_def)
qed

lemma dialed_connections_accounted_witness:
  "\<exists>s s'. gov_run [GStart ''t'' 0, GWait 0, GTimeout 0 9] (gov_init (demo_gov\<lparr>gc_BoundedTimeout := 9\<rparr>)) = Some s \<and>
     gov_do (GRaw 0 (Some 7) 12) s = Some s' \<and> orphans s' = [7]"
proof -
  let ?run = "gov_run [GStart ''t'' 0, GWait 0, GTimeout 0 9] (gov_init (demo_gov\<lparr>gc_BoundedTimeout := 9\<rparr>))"
  obtain s where s: "?run = Some s" "length (gcalls s) = 1" "d_pc (gcalls s ! 0) = DAbandoned ErrTargetDialTimeout"
    "orphans s = []"
    by (simp add: gov_eval abandon_def)
  then obtain s' where "gov_do (GRaw 0 (Some 7) 12) s = Some s'" by (simp add: gov_do_def)
  then show ?thesis using dialed_connections_accounted [OF s(1)] s by auto
qed

lemma breaker_counts_tumbling_windows_witness:
  "\<not> is_open (failures_at ''t'' ([0, 9] @ [10, 10])
      (NewTargetDialGovernor (demo_gov\<lparr>gc_FailureThreshold := 3, gc_FailureWindow := 10\<rparr>))) ''t''"
proof -
  let ?cfg = "demo_gov\<lparr>gc_FailureThreshold := 3, gc_FailureWindow := 10\<rparr>"
  let ?g = "NewTargetDialGovernor ?cfg"
  have p: "g_window ?g = 10" "threshold ?g = 3" "breakerEnabled ?g" "entry ?g ''t'' = None"
    by (simp_all add: demo_gov_def NewTargetDialGovernor_def Let_def entry_def)
  have run: "gov_run [] (gov_init ?cfg) = Some (gov_init ?cfg)" by simp
  have g: "?g = governor (gov_init ?cfg)" by simp
  have "int (length [0, 9::int]) < threshold ?g \<longrightarrow>
     (is_open (failures_at ''t'' ([0, 9] @ [10, 10]) ?g) ''t'' \<longleftrightarrow> int (length [10, 10::int]) \<ge> threshold ?g)"
    by (rule breaker_counts_tumbling_windows [OF run g p(3,4), THEN conjunct2]) (auto simp: p)
  then show ?thesis by (simp only: p) simp
qed

end
