(* ===== verification/Egress.thy ===== *)
theory Egress
  imports Destination Backoff
begin

text \<open>
  The default target dialer (\<^verbatim>\<open>src/pkg/node/target_ipv4.go\<close>): the plain dual-stack dial, the hard
  IPv4 filter and the IPv4-first preference. The resolver (\<^verbatim>\<open>LookupHost\<close>) and the sockets
  (\<^verbatim>\<open>net.DialTimeout\<close>) are arguments, \<open>netenv\<close>: each is given its timeout and the time it
  starts at and answers with a result and the time it is done; the clock moves only in these calls. Times and
  durations are nanoseconds. Each dialer returns its result, the time, and the log of the
  addresses it contacted with their outcomes.
\<close>

record contact =
  c_network :: string
  c_addr :: string
  c_timeout :: int

record netenv =
  LookupHost :: "string \<Rightarrow> int \<Rightarrow> int \<Rightarrow> string list option \<times> int"
  DialTimeout :: "contact \<Rightarrow> int \<Rightarrow> nat option \<times> int"

abbreviation targetDialTimeout :: int where "targetDialTimeout \<equiv> 10000 * Millisecond"

definition DefaultTargetDialTimeoutMs :: int where
  "DefaultTargetDialTimeoutMs = targetDialTimeout div Millisecond"

datatype net_error = NetError | NoTimeRemaining

datatype egress_error =
    BadAddress
  | DialError net_error
  | ResolveError string
  | NoARecord string
  | ARecordsFailed string nat net_error
  | NoReachableA string
  | NoUsableAddress string
  | PreferFailedV4 string nat nat net_error
  | PreferFailedV6 string nat net_error
  | NoReachableAddress string

type_synonym log = "(contact \<times> nat option) list"
type_synonym 'a attempt = "(egress_error + 'a) \<times> int \<times> log"

definition JoinHostPort :: "string \<Rightarrow> string \<Rightarrow> string" where
  "JoinHostPort host port =
     (if CHR '':'' \<in> set host then ''['' @ host @ '']:'' @ port else host @ '':'' @ port)"

definition net_dial :: "netenv \<Rightarrow> string \<Rightarrow> string \<Rightarrow> int \<Rightarrow> int \<Rightarrow> (net_error + nat) \<times> int \<times> log" where
  "net_dial env network addr timeout now =
     (let c = \<lparr>c_network = network, c_addr = addr, c_timeout = timeout\<rparr>;
          (r, t) = DialTimeout env c now
      in (case r of None \<Rightarrow> Inl NetError | Some conn \<Rightarrow> Inr conn, t, [(c, r)]))"

definition plain_dial :: "(net_error + nat) \<times> int \<times> log \<Rightarrow> nat attempt" where
  "plain_dial r = (case r of (Inl e, t, cs) \<Rightarrow> (Inl (DialError e), t, cs) | (Inr conn, t, cs) \<Rightarrow> (Inr conn, t, cs))"

definition dialPlain :: "netenv \<Rightarrow> string \<Rightarrow> int \<Rightarrow> nat attempt" where
  "dialPlain env addr now = plain_dial (net_dial env ''tcp'' addr targetDialTimeout now)"

definition dialPlainWithTimeout :: "netenv \<Rightarrow> string \<Rightarrow> int \<Rightarrow> int \<Rightarrow> nat attempt" where
  "dialPlainWithTimeout env addr budget now =
     plain_dial (net_dial env ''tcp'' addr (if budget \<le> 0 then targetDialTimeout else budget) now)"

section \<open>Resolution\<close>

definition defaultIPv4Lookup :: "string list \<Rightarrow> string list" where
  "defaultIPv4Lookup addrs =
     concat (map (\<lambda>a. case ParseIP a of None \<Rightarrow> [] | Some ip \<Rightarrow> if To4 ip \<noteq> None then [ip_String ip] else []) addrs)"

primrec defaultDualStackLookup :: "string list \<Rightarrow> string list \<times> string list" where
  "defaultDualStackLookup [] = ([], [])"
| "defaultDualStackLookup (a # addrs) =
     (let (v4, v6) = defaultDualStackLookup addrs
      in case ParseIP a of
           None \<Rightarrow> (v4, v6)
         | Some ip \<Rightarrow> if To4 ip \<noteq> None then (ip_String ip # v4, v6) else (v4, ip_String ip # v6))"

section \<open>The candidate loops\<close>

definition dialWithBudget :: "netenv \<Rightarrow> int \<Rightarrow> string \<Rightarrow> int \<Rightarrow> (net_error + nat) \<times> int \<times> log" where
  "dialWithBudget env deadline addr now =
     (if deadline - now \<le> 0 then (Inl NoTimeRemaining, now, [])
      else net_dial env ''tcp'' addr (deadline - now) now)"

text \<open>The loop of the hard filter; the last error is carried along.\<close>

fun a_records :: "netenv \<Rightarrow> string \<Rightarrow> int \<Rightarrow> string list \<Rightarrow> net_error option \<Rightarrow> int \<Rightarrow>
    (net_error option + nat) \<times> int \<times> log" where
  "a_records env port deadline [] lastErr now = (Inl lastErr, now, [])"
| "a_records env port deadline (ip # ips) lastErr now =
     (if deadline - now \<le> 0 then (Inl lastErr, now, [])
      else (case net_dial env ''tcp4'' (JoinHostPort ip port) (deadline - now) now of
              (Inr conn, t, cs) \<Rightarrow> (Inr conn, t, cs)
            | (Inl e, t, cs) \<Rightarrow>
                (let (r, t1, cs1) = a_records env port deadline ips (Some e) t in (r, t1, cs @ cs1))))"

text \<open>One phase of the preference.\<close>

fun phase :: "netenv \<Rightarrow> string \<Rightarrow> int \<Rightarrow> string list \<Rightarrow> net_error option \<Rightarrow> int \<Rightarrow>
    (net_error option + nat) \<times> int \<times> log" where
  "phase env port deadline [] lastErr now = (Inl lastErr, now, [])"
| "phase env port deadline (ip # ips) lastErr now =
     (case dialWithBudget env deadline (JoinHostPort ip port) now of
        (Inr conn, t, cs) \<Rightarrow> (Inr conn, t, cs)
      | (Inl e, t, cs) \<Rightarrow>
          if t > deadline then (Inl (Some e), t, cs)
          else (let (r, t1, cs1) = phase env port deadline ips (Some e) t in (r, t1, cs @ cs1)))"

section \<open>The dialers\<close>

definition dial_only_ipv4 :: "netenv \<Rightarrow> int \<Rightarrow> string \<Rightarrow> int \<Rightarrow> nat attempt" where
  "dial_only_ipv4 env budget addr now =
     (case net_SplitHostPort addr of
        None \<Rightarrow> (Inl BadAddress, now, [])
      | Some (host, port) \<Rightarrow>
          if ParseIP host \<noteq> None then dialPlainWithTimeout env addr budget now
          else (case LookupHost env host budget now of
                  (None, t) \<Rightarrow> (Inl (ResolveError host), t, [])
                | (Some addrs, t) \<Rightarrow>
                    (let ips = defaultIPv4Lookup addrs
                     in if ips = [] then (Inl (NoARecord host), t, [])
                        else (case a_records env port (t + budget) ips None t of
                                (Inr conn, t1, cs) \<Rightarrow> (Inr conn, t1, cs)
                              | (Inl (Some e), t1, cs) \<Rightarrow> (Inl (ARecordsFailed host (length ips) e), t1, cs)
                              | (Inl None, t1, cs) \<Rightarrow> (Inl (NoReachableA host), t1, cs)))))"

definition dial_prefer_ipv4 :: "netenv \<Rightarrow> int \<Rightarrow> string \<Rightarrow> int \<Rightarrow> nat attempt" where
  "dial_prefer_ipv4 env budget addr now =
     (case net_SplitHostPort addr of
        None \<Rightarrow> (Inl BadAddress, now, [])
      | Some (host, port) \<Rightarrow>
          if ParseIP host \<noteq> None then dialPlainWithTimeout env addr budget now
          else (case LookupHost env host budget now of
                  (None, t) \<Rightarrow> (Inl (ResolveError host), t, [])
                | (Some addrs, t) \<Rightarrow>
                    (let (v4s, v6s) = defaultDualStackLookup addrs; deadline = now + budget
                     in if v4s = [] \<and> v6s = [] then (Inl (NoUsableAddress host), t, [])
                        else (case phase env port deadline v4s None t of
                                (Inr conn, t1, cs) \<Rightarrow> (Inr conn, t1, cs)
                              | (Inl lastV4Err, t1, cs) \<Rightarrow>
                                  (case phase env port deadline v6s None t1 of
                                     (Inr conn, t2, cs2) \<Rightarrow> (Inr conn, t2, cs @ cs2)
                                   | (Inl lastV6Err, t2, cs2) \<Rightarrow>
                                       (Inl (case (lastV4Err, lastV6Err) of
                                               (Some e, _) \<Rightarrow> PreferFailedV4 host (length v4s) (length v6s) e
                                             | (None, Some e) \<Rightarrow> PreferFailedV6 host (length v6s) e
                                             | (None, None) \<Rightarrow> NoReachableAddress host), t2, cs @ cs2))))))"

definition newDefaultTargetDialWithTimeout :: "bool \<Rightarrow> bool \<Rightarrow> int \<Rightarrow> netenv \<Rightarrow> string \<Rightarrow> int \<Rightarrow> nat attempt" where
  "newDefaultTargetDialWithTimeout onlyIPv4 preferIPv4 budget0 =
     (let budget = (if budget0 \<le> 0 then targetDialTimeout else budget0)
      in if onlyIPv4 then (\<lambda>env addr now. dial_only_ipv4 env budget addr now)
         else if \<not> preferIPv4
              then (if budget = targetDialTimeout then dialPlain
                    else (\<lambda>env addr now. dialPlainWithTimeout env addr budget now))
         else (\<lambda>env addr now. dial_prefer_ipv4 env budget addr now))"

definition newDefaultTargetDial :: "bool \<Rightarrow> bool \<Rightarrow> netenv \<Rightarrow> string \<Rightarrow> int \<Rightarrow> nat attempt" where
  "newDefaultTargetDial onlyIPv4 preferIPv4 =
     newDefaultTargetDialWithTimeout onlyIPv4 preferIPv4 targetDialTimeout"

section \<open>Lemmas\<close>

text \<open>What the standard library documents: calls take time, and no longer than their timeout.\<close>

definition forward :: "netenv \<Rightarrow> bool" where
  "forward env \<longleftrightarrow> (\<forall>c t. t \<le> snd (DialTimeout env c t)) \<and> (\<forall>h b t. t \<le> snd (LookupHost env h b t))"

definition timely :: "netenv \<Rightarrow> bool" where
  "timely env \<longleftrightarrow>
     (\<forall>c t. 0 \<le> c_timeout c \<longrightarrow> snd (DialTimeout env c t) \<le> t + c_timeout c) \<and>
     (\<forall>h b t. 0 \<le> b \<longrightarrow> snd (LookupHost env h b t) \<le> t + b)"

text \<open>A log is sound for a result when only its last contact may have succeeded, and did so exactly when
  the result is that connection.\<close>

definition log_ok :: "'e + nat \<Rightarrow> log \<Rightarrow> bool" where
  "log_ok r cs \<longleftrightarrow>
     (case r of
        Inl _ \<Rightarrow> \<forall>x \<in> set cs. snd x = None
      | Inr conn \<Rightarrow> \<exists>xs c. cs = xs @ [(c, Some conn)] \<and> (\<forall>x \<in> set xs. snd x = None))"

definition addrs_of :: "log \<Rightarrow> string list" where
  "addrs_of cs = map (\<lambda>x. c_addr (fst x)) cs"

lemma addrs_of_simps [simp]: "addrs_of [] = []" "addrs_of (x # xs) = c_addr (fst x) # addrs_of xs"
  "addrs_of (xs @ ys) = addrs_of xs @ addrs_of ys" "addrs_of xs = [] \<longleftrightarrow> xs = []"
  by (simp_all add: addrs_of_def)

lemma net_dial_props:
  assumes "net_dial env network addr timeout now = (r, t, cs)"
  shows "log_ok r cs" and "addrs_of cs = [addr]" and "\<forall>x \<in> set cs. c_network (fst x) = network"
    and "forward env \<Longrightarrow> now \<le> t" and "timely env \<Longrightarrow> 0 \<le> timeout \<Longrightarrow> t \<le> now + timeout"
  using assms by (auto simp: net_dial_def log_ok_def forward_def timely_def Let_def split: prod.splits option.splits)
    (metis contact.select_convs(3) snd_conv)+

lemma log_ok_fail_append: "log_ok (Inl e :: 'e + nat) cs \<Longrightarrow> log_ok r ds \<Longrightarrow> log_ok r (cs @ ds)"
  by (auto simp: log_ok_def split: sum.splits)

lemma log_ok_Inl: "log_ok (Inl e :: 'e + nat) cs \<longleftrightarrow> (\<forall>x \<in> set cs. snd x = None)"
  by (simp add: log_ok_def)

lemma log_ok_Inr:
  "log_ok (Inr conn :: 'e + nat) cs \<longleftrightarrow> (\<exists>xs c. cs = xs @ [(c, Some conn)] \<and> (\<forall>x \<in> set xs. snd x = None))"
  by (simp add: log_ok_def)

text \<open>Results that differ in the error only.\<close>

definition same_outcome :: "'e + nat \<Rightarrow> 'f + nat \<Rightarrow> bool" where
  "same_outcome r q \<longleftrightarrow> (case r of Inl _ \<Rightarrow> isl q | Inr conn \<Rightarrow> q = Inr conn)"

lemma same_outcome_simps [simp]:
  "same_outcome (Inl a :: 'e + nat) (Inl b :: 'f + nat)" "same_outcome (Inr n :: 'e + nat) (Inr m :: 'f + nat) \<longleftrightarrow> n = m"
  "\<not> same_outcome (Inl a :: 'e + nat) (Inr m :: 'f + nat)" "\<not> same_outcome (Inr n :: 'e + nat) (Inl b :: 'f + nat)"
  by (auto simp: same_outcome_def)

lemma log_ok_same: "same_outcome r q \<Longrightarrow> log_ok q cs \<Longrightarrow> log_ok r cs"
  by (cases r; cases q) (simp_all add: log_ok_Inl log_ok_Inr)

text \<open>A phase contacts its candidates in order; it stops at the first that answers, and otherwise only
  when all were contacted or the deadline is over.\<close>

lemma phase_props:
  assumes "phase env port deadline ips e now = (r, t, cs)" and "forward env"
  shows "\<exists>k \<le> length ips. addrs_of cs = map (\<lambda>ip. JoinHostPort ip port) (take k ips) \<and>
      ((\<exists>x. r = Inl x) \<longrightarrow> k = length ips \<or> deadline \<le> t) \<and> log_ok r cs \<and> now \<le> t \<and> (deadline \<le> now \<longrightarrow> cs = [])"
  using assms
proof (induction ips arbitrary: e now r t cs)
  case Nil
  then show ?case by (auto simp: log_ok_def)
next
  case (Cons ip ips)
  obtain r1 t1 cs1 where d: "dialWithBudget env deadline (JoinHostPort ip port) now = (r1, t1, cs1)"
    by (cases "dialWithBudget env deadline (JoinHostPort ip port) now") auto
  have dl: "deadline \<le> now \<longrightarrow> r1 = Inl NoTimeRemaining \<and> t1 = now \<and> cs1 = []"
    using d by (auto simp: dialWithBudget_def split: if_splits)
  have nd: "log_ok r1 cs1 \<and> addrs_of cs1 = [JoinHostPort ip port] \<and> now \<le> t1" if "\<not> deadline \<le> now"
    using d that net_dial_props [of env "''tcp''"] Cons.prems(2) by (auto simp: dialWithBudget_def split: if_splits)
  show ?case
  proof (cases r1)
    case (Inr conn)
    then have "\<not> deadline \<le> now" using dl by auto
    then show ?thesis using Cons.prems(1) d Inr nd by (intro exI [of _ 1]) (auto simp: log_ok_Inr)
  next
    case (Inl e1)
    show ?thesis
    proof (cases "t1 > deadline")
      case True
      then have eq: "r = Inl (Some e1)" "t = t1" "cs = cs1" using Cons.prems(1) d Inl by auto
      then show ?thesis using dl nd Inl True
        by (cases "deadline \<le> now") (auto simp: log_ok_Inl intro: exI [of _ 0] exI [of _ 1])
    next
      case False
      obtain r2 t2 cs2 where p: "phase env port deadline ips (Some e1) t1 = (r2, t2, cs2)"
        by (cases "phase env port deadline ips (Some e1) t1") auto
      have eq: "r = r2" "t = t2" "cs = cs1 @ cs2" using Cons.prems(1) d Inl False p by auto
      obtain k where k: "k \<le> length ips" "addrs_of cs2 = map (\<lambda>ip. JoinHostPort ip port) (take k ips)"
        "(\<exists>x. r2 = Inl x) \<longrightarrow> k = length ips \<or> deadline \<le> t2" "log_ok r2 cs2" "t1 \<le> t2" "deadline \<le> t1 \<longrightarrow> cs2 = []"
        using Cons.IH [OF p Cons.prems(2)] by blast
      show ?thesis
      proof (cases "deadline \<le> now")
        case True
        then show ?thesis using dl k eq by (intro exI [of _ 0]) auto
      next
        case False
        then show ?thesis using nd k eq Inl log_ok_fail_append [of e1 cs1 r2 cs2]
          by (intro exI [of _ "Suc k"]) auto
      qed
    qed
  qed
qed

lemma a_records_props:
  assumes "a_records env port deadline ips e now = (r, t, cs)" and "forward env"
  shows "\<exists>k \<le> length ips. addrs_of cs = map (\<lambda>ip. JoinHostPort ip port) (take k ips) \<and>
      ((\<exists>x. r = Inl x) \<longrightarrow> k = length ips \<or> deadline \<le> t) \<and> log_ok r cs \<and> now \<le> t \<and>
      (\<forall>x \<in> set cs. c_network (fst x) = ''tcp4'')"
  using assms
proof (induction ips arbitrary: e now r t cs)
  case Nil
  then show ?case by (auto simp: log_ok_def)
next
  case (Cons ip ips)
  show ?case
  proof (cases "deadline - now \<le> 0")
    case True
    then show ?thesis using Cons.prems(1) by (intro exI [of _ 0]) (auto simp: log_ok_def)
  next
    case False
    obtain r1 t1 cs1 where d: "net_dial env ''tcp4'' (JoinHostPort ip port) (deadline - now) now = (r1, t1, cs1)"
      by (cases "net_dial env ''tcp4'' (JoinHostPort ip port) (deadline - now) now") auto
    note nd = net_dial_props [OF d] 
    show ?thesis
    proof (cases r1)
      case (Inr conn)
      then show ?thesis using Cons.prems d nd False by (intro exI [of _ 1]) (auto simp: log_ok_Inr)
    next
      case (Inl e1)
      obtain r2 t2 cs2 where p: "a_records env port deadline ips (Some e1) t1 = (r2, t2, cs2)"
        by (cases "a_records env port deadline ips (Some e1) t1") auto
      have eq: "r = r2" "t = t2" "cs = cs1 @ cs2" using Cons.prems(1) d Inl False p by auto
      obtain k where k: "k \<le> length ips" "addrs_of cs2 = map (\<lambda>ip. JoinHostPort ip port) (take k ips)"
        "(\<exists>x. r2 = Inl x) \<longrightarrow> k = length ips \<or> deadline \<le> t2" "log_ok r2 cs2" "t1 \<le> t2"
        "\<forall>x \<in> set cs2. c_network (fst x) = ''tcp4''"
        using Cons.IH [OF p Cons.prems(2)] by blast
      show ?thesis
        using k nd(2,3) nd(4) [OF Cons.prems(2)] nd(1) eq Inl log_ok_fail_append [of e1 cs1 r2 cs2]
        by (intro exI [of _ "Suc k"]) auto
    qed
  qed
qed

text \<open>Time.\<close>

lemma phase_time:
  assumes "timely env"
  shows "fst (snd (phase env port deadline ips e now)) \<le> max now deadline"
proof (induction ips arbitrary: e now)
  case (Cons ip ips)
  obtain r1 t1 cs1 where d: "dialWithBudget env deadline (JoinHostPort ip port) now = (r1, t1, cs1)"
    by (cases "dialWithBudget env deadline (JoinHostPort ip port) now") auto
  have "t1 \<le> max now deadline"
    using d net_dial_props(5) [of env "''tcp''" "JoinHostPort ip port" "deadline - now" now r1 t1 cs1] assms
    by (auto simp: dialWithBudget_def split: if_splits)
  moreover have "fst (snd (phase env port deadline ips (Some e') t1)) \<le> max t1 deadline" for e' by (rule Cons.IH)
  ultimately have "fst (snd (phase env port deadline ips (Some e') t1)) \<le> max now deadline" "t1 \<le> max now deadline" for e'
    by (smt (verit))+
  then show ?case using d by (auto simp: case_prod_beta max_def split: sum.splits if_splits)
qed simp

lemma a_records_time:
  assumes "timely env"
  shows "fst (snd (a_records env port deadline ips e now)) \<le> max now deadline"
proof (induction ips arbitrary: e now)
  case (Cons ip ips)
  show ?case
  proof (cases "deadline - now \<le> 0")
    case False
    obtain r1 t1 cs1 where d: "net_dial env ''tcp4'' (JoinHostPort ip port) (deadline - now) now = (r1, t1, cs1)"
      by (cases "net_dial env ''tcp4'' (JoinHostPort ip port) (deadline - now) now") auto
    have "t1 \<le> max now deadline" using net_dial_props(5) [OF d assms] False by simp
    moreover have "fst (snd (a_records env port deadline ips (Some e') t1)) \<le> max t1 deadline" for e' by (rule Cons.IH)
    ultimately have "fst (snd (a_records env port deadline ips (Some e') t1)) \<le> max now deadline" "t1 \<le> max now deadline" for e'
      by (smt (verit))+
    then show ?thesis using d False by (simp add: case_prod_beta split: sum.splits)
  qed simp
qed simp

lemma net_dial_time: "timely env \<Longrightarrow> 0 \<le> b \<Longrightarrow> fst (snd (net_dial env nw addr b now)) \<le> now + b"
  using net_dial_props(5) by (metis prod.collapse)

lemma plain_dial_time [simp]: "fst (snd (plain_dial x)) = fst (snd x)"
  by (simp add: plain_dial_def split: prod.splits sum.splits)

lemma dial_plain_time: "timely env \<Longrightarrow> 0 < b \<Longrightarrow> fst (snd (dialPlainWithTimeout env addr b now)) \<le> now + b"
  by (simp add: dialPlainWithTimeout_def net_dial_time)

lemma dialPlain_time: "timely env \<Longrightarrow> fst (snd (dialPlain env addr now)) \<le> now + targetDialTimeout"
  by (simp add: dialPlain_def net_dial_time)

lemma lookup_time: "timely env \<Longrightarrow> 0 < b \<Longrightarrow> LookupHost env h b now = (a, t) \<Longrightarrow> t \<le> now + b"
  by (metis timely_def less_imp_le snd_conv)

lemma dial_only_time:
  assumes "timely env" and "0 < b"
  shows "fst (snd (dial_only_ipv4 env b addr now)) \<le> now + 2 * b"
proof -
  have lk: "snd (LookupHost env h b now) \<le> now + b" for h using lookup_time [OF assms] by (metis prod.collapse)
  have l2: "snd (LookupHost env h b now) \<le> now + 2 * b" for h using lk [of h] assms(2) by simp
  have ar: "fst (snd (a_records env port (t + b) ips e t)) \<le> now + 2 * b" if "t \<le> now + b" for port ips e t
    using a_records_time [OF assms(1), of port "t + b" ips e t] that assms(2) by simp
  have "fst (snd (dialPlainWithTimeout env addr b now)) \<le> now + 2 * b"
    using dial_plain_time [OF assms, of addr now] assms(2) by simp
  then show ?thesis using assms(2) l2 ar [OF lk]
    by (simp add: dial_only_ipv4_def case_prod_beta Let_def split: option.splits sum.splits)
qed

lemma dial_prefer_time:
  assumes "timely env" and "0 < b"
  shows "fst (snd (dial_prefer_ipv4 env b addr now)) \<le> now + b"
proof -
  have lk: "snd (LookupHost env h b now) \<le> now + b" for h using lookup_time [OF assms] by (metis prod.collapse)
  have ph: "fst (snd (phase env port (now + b) ips e t)) \<le> now + b" if "t \<le> now + b" for port ips e t
    using phase_time [OF assms(1), of port "now + b" ips e t] that by simp
  show ?thesis using assms(2) dial_plain_time [OF assms] lk ph
    by (simp add: dial_prefer_ipv4_def case_prod_beta Let_def split: option.splits sum.splits)
qed

lemma lookup_ipv4:
  assumes "h \<in> set (defaultIPv4Lookup addrs)"
  shows "\<exists>ip. ParseIP h = Some ip \<and> To4 ip \<noteq> None"
proof -
  obtain ip where ip: "To4 ip \<noteq> None" "h = ip_String ip"
    using assms by (auto simp: defaultIPv4Lookup_def split: option.splits if_splits)
  then have l: "length ip = 4 \<or> length ip = 16" by (auto simp: To4_def split: if_splits)
  then show ?thesis
  proof
    assume "length ip = 4"
    then show ?thesis using ParseIP_String(1) To4_mapped ip(2) by auto
  next
    assume "length ip = 16"
    then show ?thesis using ParseIP_String(2) ip by auto
  qed
qed

lemma only_ipv4_loop:
  assumes "forward env" and "net_SplitHostPort addr = Some (host, port)"
    and "dial_only_ipv4 env budget addr now = (r, t, cs)" and "ParseIP host = None"
  shows "cs = [] \<and> (\<exists>e. r = Inl e) \<or> (\<exists>addrs t0 r1. same_outcome r r1 \<and>
      a_records env port (t0 + budget) (defaultIPv4Lookup addrs) None t0 = (r1, t, cs))"
proof -
  obtain ans t0 where lk: "LookupHost env host budget now = (ans, t0)" by (cases "LookupHost env host budget now") auto
  show ?thesis
  proof (cases "\<exists>addrs. ans = Some addrs \<and> defaultIPv4Lookup addrs \<noteq> []")
    case True
    then obtain addrs where ad: "ans = Some addrs" "defaultIPv4Lookup addrs \<noteq> []" by blast
    obtain r1 t1 cs1 where l: "a_records env port (t0 + budget) (defaultIPv4Lookup addrs) None t0 = (r1, t1, cs1)"
      by (cases "a_records env port (t0 + budget) (defaultIPv4Lookup addrs) None t0") auto
    have "t = t1 \<and> cs = cs1 \<and> same_outcome r r1"
      using assms(2-4) lk ad l by (cases r1) (auto simp: dial_only_ipv4_def split: option.splits)
    then show ?thesis using l by blast
  next
    case False
    then show ?thesis using assms(2-4) lk by (auto simp: dial_only_ipv4_def split: option.splits)
  qed
qed

section \<open>Properties\<close>

text \<open>C34. IPv4 first, IPv6 as a fallback: for a domain, the preferring dialer contacts an initial part of
  the IPv4 candidates and then an initial part of the IPv6 candidates, in the resolver's order; an IPv6
  address is contacted only after every IPv4 candidate has been contacted and has failed; the
  connection returned is that of the last contact, all earlier ones having failed; and a
  failure means that every candidate of both families was contacted or that the shared
  deadline is over. In particular a domain with IPv6 addresses only is dialed over IPv6.\<close>

theorem prefer_ipv4_order:
  assumes "forward env" and "net_SplitHostPort addr = Some (host, port)" and "ParseIP host = None"
    and "LookupHost env host budget now = (Some addrs, t0)" and "defaultDualStackLookup addrs = (v4s, v6s)"
    and "dial_prefer_ipv4 env budget addr now = (r, t, cs)" and "v4s \<noteq> [] \<or> v6s \<noteq> []"
  shows "\<exists>i j. i \<le> length v4s \<and> j \<le> length v6s \<and>
      addrs_of cs = map (\<lambda>ip. JoinHostPort ip port) (take i v4s @ take j v6s) \<and>
      (0 < j \<longrightarrow> i = length v4s) \<and> log_ok r cs \<and>
      ((\<exists>x. r = Inl x) \<longrightarrow> i = length v4s \<and> j = length v6s \<or> now + budget \<le> t)"
proof -
  obtain r1 t1 cs1 where p1: "phase env port (now + budget) v4s None t0 = (r1, t1, cs1)"
    by (cases "phase env port (now + budget) v4s None t0") auto
  obtain i where i: "i \<le> length v4s" "addrs_of cs1 = map (\<lambda>ip. JoinHostPort ip port) (take i v4s)"
    "(\<exists>x. r1 = Inl x) \<longrightarrow> i = length v4s \<or> now + budget \<le> t1" "log_ok r1 cs1"
    using phase_props [OF p1 assms(1)] by blast
  show ?thesis
  proof (cases r1)
    case (Inr conn)
    then have "r = Inr conn" "cs = cs1" using assms p1 by (auto simp: dial_prefer_ipv4_def)
    then show ?thesis using i Inr by (intro exI [of _ i] exI [of _ 0]) (auto simp: log_ok_Inr)
  next
    case (Inl e1)
    obtain r2 t2 cs2 where p2: "phase env port (now + budget) v6s None t1 = (r2, t2, cs2)"
      by (cases "phase env port (now + budget) v6s None t1") auto
    obtain j where j: "j \<le> length v6s" "addrs_of cs2 = map (\<lambda>ip. JoinHostPort ip port) (take j v6s)"
      "(\<exists>x. r2 = Inl x) \<longrightarrow> j = length v6s \<or> now + budget \<le> t2" "log_ok r2 cs2" "t1 \<le> t2"
      "now + budget \<le> t1 \<longrightarrow> cs2 = []"
      using phase_props [OF p2 assms(1)] by blast
    have eq: "t = t2 \<and> cs = cs1 @ cs2 \<and> same_outcome r r2"
      using assms(2-7) p1 p2 Inl by (cases r2) (auto simp: dial_prefer_ipv4_def)
    have "log_ok r2 (cs1 @ cs2)" by (rule log_ok_fail_append) (use i(4) j(4) Inl in simp_all)
    then have "log_ok r cs" using eq log_ok_same by blast
    moreover have "0 < j \<longrightarrow> i = length v4s"
      using i(3) j(1,2,6) Inl by (cases "cs2 = []") auto
    moreover have "(\<exists>x. r = Inl x) \<longrightarrow> i = length v4s \<and> j = length v6s \<or> now + budget \<le> t"
      using i(3) j(3,5) eq Inl by (cases r2) auto
    moreover have "addrs_of cs = map (\<lambda>ip. JoinHostPort ip port) (take i v4s @ take j v6s)" using i(2) j(2) eq by simp
    ultimately show ?thesis using i(1) j(1) by blast
  qed
qed

text \<open>The IPv6 fallback is out of reach behind a silent IPv4 address: when the first IPv4 candidate of a
  domain does not answer at all, its dial uses up the shared deadline, no other address of
  either family is contacted and the dial fails, also when the IPv6 address would have
  answered.\<close>

lemma silent_ipv4_starves_ipv6:
  assumes "net_SplitHostPort addr = Some (host, port)" and "ParseIP host = None"
    and "LookupHost env host budget now = (Some addrs, t0)" and "t0 < now + budget"
    and "defaultDualStackLookup addrs = (v4 # v4s, v6s)"
    and c: "c = \<lparr>c_network = ''tcp'', c_addr = JoinHostPort v4 port, c_timeout = now + budget - t0\<rparr>"
    and silent: "DialTimeout env c t0 = (None, t0 + c_timeout c)"
  shows "\<exists>err. dial_prefer_ipv4 env budget addr now = (Inl err, now + budget, [(c, None)])"
proof -
  have over: "phase env port d ips e d = (Inl (if ips = [] then e else Some NoTimeRemaining), d, [])" for ips e d
    by (induction ips arbitrary: e) (simp_all add: dialWithBudget_def)
  have "dialWithBudget env (now + budget) (JoinHostPort v4 port) t0 = (Inl NetError, now + budget, [(c, None)])"
    using silent assms(4) by (simp add: dialWithBudget_def net_dial_def c)
  then have "\<exists>e. phase env port (now + budget) (v4 # v4s) None t0 = (Inl e, now + budget, [(c, None)])"
    by (simp add: over)
  then show ?thesis
    using assms(1-3,5) over by (auto simp: dial_prefer_ipv4_def)
qed

text \<open>The hard filter never leaves IPv4: for a domain, every contact of the IPv4-only dialer is a TCP-over-IPv4
  dial of an IPv4 address the resolver gave, in order, and only the last may succeed; without an IPv4 address
  it refuses without contacting anything. A literal address is dialed exactly as given.\<close>

lemma only_ipv4_contacts_ipv4:
  assumes "forward env" and "net_SplitHostPort addr = Some (host, port)"
    and "dial_only_ipv4 env budget addr now = (r, t, cs)" and "0 < budget"
  shows "(ParseIP host \<noteq> None \<longrightarrow> (r, t, cs) = plain_dial (net_dial env ''tcp'' addr budget now)) \<and>
    (ParseIP host = None \<longrightarrow>
       log_ok r cs \<and>
       (\<forall>x \<in> set cs. c_network (fst x) = ''tcp4'' \<and>
          (\<exists>h ip. c_addr (fst x) = JoinHostPort h port \<and> ParseIP h = Some ip \<and> To4 ip \<noteq> None)) \<and>
       (\<forall>addrs t0. LookupHost env host budget now = (Some addrs, t0) \<and> defaultIPv4Lookup addrs = [] \<longrightarrow>
          r = Inl (NoARecord host) \<and> cs = []))"
proof (intro conjI impI)
  assume "ParseIP host \<noteq> None"
  then show "(r, t, cs) = plain_dial (net_dial env ''tcp'' addr budget now)"
    using assms(2-4) by (simp add: dial_only_ipv4_def dialPlainWithTimeout_def)
next
  assume dom: "ParseIP host = None"
  show "\<forall>addrs t0. LookupHost env host budget now = (Some addrs, t0) \<and> defaultIPv4Lookup addrs = [] \<longrightarrow>
          r = Inl (NoARecord host) \<and> cs = []"
    using assms(2,3) dom by (auto simp: dial_only_ipv4_def)
  have "cs = [] \<and> (\<exists>e. r = Inl e) \<or> (\<exists>addrs t0 r1. same_outcome r r1 \<and>
      a_records env port (t0 + budget) (defaultIPv4Lookup addrs) None t0 = (r1, t, cs))"
    using only_ipv4_loop [OF assms(1-3) dom] .
  then consider "cs = []" "\<exists>e. r = Inl e" | addrs t0 r1 where "same_outcome r r1"
    "a_records env port (t0 + budget) (defaultIPv4Lookup addrs) None t0 = (r1, t, cs)" by blast
  then have "log_ok r cs \<and> (\<forall>x \<in> set cs. c_network (fst x) = ''tcp4'' \<and>
          (\<exists>h ip. c_addr (fst x) = JoinHostPort h port \<and> ParseIP h = Some ip \<and> To4 ip \<noteq> None))"
  proof cases
    case 2
    obtain k where k: "addrs_of cs = map (\<lambda>ip. JoinHostPort ip port) (take k (defaultIPv4Lookup addrs))" "log_ok r1 cs"
      "\<forall>x \<in> set cs. c_network (fst x) = ''tcp4''"
      using a_records_props [OF 2(2) assms(1)] by blast
    have "\<exists>h ip. c_addr (fst x) = JoinHostPort h port \<and> ParseIP h = Some ip \<and> To4 ip \<noteq> None" if "x \<in> set cs" for x
    proof -
      have "c_addr (fst x) \<in> set (addrs_of cs)" using that by (auto simp: addrs_of_def)
      then obtain h where "h \<in> set (defaultIPv4Lookup addrs)" "c_addr (fst x) = JoinHostPort h port"
        unfolding k(1) by (auto dest: in_set_takeD)
      then show ?thesis using lookup_ipv4 by blast
    qed
    moreover have "log_ok r cs" using log_ok_same [OF 2(1) k(2)] .
    ultimately show ?thesis using k(3) by blast
  qed (auto simp: log_ok_def)
  then show "log_ok r cs" "\<forall>x \<in> set cs. c_network (fst x) = ''tcp4'' \<and>
          (\<exists>h ip. c_addr (fst x) = JoinHostPort h port \<and> ParseIP h = Some ip \<and> To4 ip \<noteq> None)" by blast+
qed

text \<open>A small network: the resolver answers with \<open>addrs\<close> after at most \<open>slow\<close>; the address
  \<open>192.0.2.1\<close> is silent, every other one answers at once.\<close>

definition demo_net :: "string list \<Rightarrow> int \<Rightarrow> netenv" where
  "demo_net addrs slow =
     \<lparr>LookupHost = (\<lambda>host b t. (Some addrs, t + max 0 (min b slow))),
      DialTimeout = (\<lambda>c t. if c_addr c = ''192.0.2.1:80'' then (None, t + max 0 (c_timeout c)) else (Some 7, t))\<rparr>"

lemma demo_net_ok: "timely (demo_net addrs slow)" "forward (demo_net addrs slow)"
  by (auto simp: timely_def forward_def demo_net_def)

definition demo_v4 :: bytes where
  "demo_v4 = [192, 0, 2, 1]"

definition demo_v6 :: bytes where
  "demo_v6 = [0x20, 1, 0x0d, 0xb8, 0, 0, 0, 0, 0, 0, 0, 0, 0, 0, 0, 1]"

lemma mapped_String: "length b = 4 \<Longrightarrow> ip_String (v4InV6Prefix @ b) = ip_String b"
  by (simp add: ip_String_def To4_mapped To4_def [of b])

lemma demo_ips:
  "ip_String demo_v4 = ''192.0.2.1''" "ip_String demo_v6 = ''2001:db8::1''" "To4 demo_v6 = None"
  "ip_String (v4InV6Prefix @ demo_v4) = ''192.0.2.1''" "To4 (v4InV6Prefix @ demo_v4) = Some demo_v4"
proof -
  show v4: "ip_String demo_v4 = ''192.0.2.1''"
    by (simp add: demo_v4_def ip_String_def To4_def dec_string_def dig_def char_of_def bit_Suc_0_iff)
  show "ip_String demo_v6 = ''2001:db8::1''" by (simp add: demo_v6_def dest_bytes_string)
  show "To4 demo_v6 = None" by (simp add: demo_v6_def To4_def v4InV6Prefix_def)
  have l: "length demo_v4 = 4" by (simp add: demo_v4_def)
  show "ip_String (v4InV6Prefix @ demo_v4) = ''192.0.2.1''" using mapped_String [OF l] v4 by simp
  show "To4 (v4InV6Prefix @ demo_v4) = Some demo_v4" by (rule To4_mapped [OF l])
qed

lemma demo_parse:
  "ParseIP ''192.0.2.1'' = Some (v4InV6Prefix @ demo_v4)" "ParseIP ''2001:db8::1'' = Some demo_v6"
  using ParseIP_String(1) [of demo_v4] ParseIP_String(2) [of demo_v6] unfolding demo_ips
  by (simp_all add: demo_v4_def demo_v6_def)

lemma demo_strings:
  "net_SplitHostPort ''h:80'' = Some (''h'', ''80'')" "ParseIP ''h'' = None"
  "defaultIPv4Lookup [''192.0.2.1''] = [''192.0.2.1'']"
  "defaultDualStackLookup [''192.0.2.1'', ''2001:db8::1''] = ([''192.0.2.1''], [''2001:db8::1''])"
  "defaultDualStackLookup [''2001:db8::1''] = ([], [''2001:db8::1''])"
  "JoinHostPort ''192.0.2.1'' ''80'' = ''192.0.2.1:80''" "JoinHostPort ''2001:db8::1'' ''80'' = ''[2001:db8::1]:80''"
  by (simp_all add: net_SplitHostPort_def last_index_def go_slice_def ParseIP_def [of "''h''"] parse_addr_def
      defaultIPv4Lookup_def JoinHostPort_def demo_parse demo_ips)

theorem prefer_ipv4_order_witness:
  "\<exists>r t cs. dial_prefer_ipv4 (demo_net [''2001:db8::1''] 0) 100 ''h:80'' 0 = (r, t, cs) \<and>
     r = Inr 7 \<and> addrs_of cs = [''[2001:db8::1]:80'']"
proof -
  let ?d = "dial_prefer_ipv4 (demo_net [''2001:db8::1''] 0) 100 ''h:80'' 0"
  have d: "?d = (Inr 7, 0, [(\<lparr>c_network = ''tcp'', c_addr = ''[2001:db8::1]:80'', c_timeout = 100\<rparr>, Some 7)])"
    by (simp add: dial_prefer_ipv4_def demo_strings demo_parse demo_ips demo_net_def dialWithBudget_def net_dial_def)
  have "LookupHost (demo_net [''2001:db8::1''] 0) ''h'' 100 0 = (Some [''2001:db8::1''], 0)" by (simp add: demo_net_def)
  from prefer_ipv4_order [OF demo_net_ok(2) demo_strings(1,2) this demo_strings(5) d]
  show ?thesis using d by simp
qed

lemma silent_ipv4_starves_ipv6_witness:
  "\<exists>err cs. dial_prefer_ipv4 (demo_net [''192.0.2.1'', ''2001:db8::1''] 0) 100 ''h:80'' 0 = (Inl err, 100, cs)"
proof -
  let ?env = "demo_net [''192.0.2.1'', ''2001:db8::1''] 0"
  have lk: "LookupHost ?env ''h'' 100 0 = (Some [''192.0.2.1'', ''2001:db8::1''], 0)" by (simp add: demo_net_def)
  have "\<exists>err. dial_prefer_ipv4 ?env 100 ''h:80'' 0 = (Inl err, 0 + 100,
      [(\<lparr>c_network = ''tcp'', c_addr = JoinHostPort ''192.0.2.1'' ''80'', c_timeout = 0 + 100 - 0\<rparr>, None)])"
    by (rule silent_ipv4_starves_ipv6 [OF demo_strings(1,2) lk _ demo_strings(4) refl])
      (simp_all add: demo_net_def demo_strings(6))
  then show ?thesis by auto
qed

lemma only_ipv4_contacts_ipv4_witness:
  "\<exists>r t cs. dial_only_ipv4 (demo_net [''2001:db8::1''] 0) 100 ''h:80'' 0 = (r, t, cs) \<and> r = Inl (NoARecord ''h'') \<and> cs = []"
proof -
  let ?env = "demo_net [''2001:db8::1''] 0"
  obtain r t cs where d: "dial_only_ipv4 ?env 100 ''h:80'' 0 = (r, t, cs)"
    by (cases "dial_only_ipv4 ?env 100 ''h:80'' 0") auto
  have "LookupHost ?env ''h'' 100 0 = (Some [''2001:db8::1''], 0)" by (simp add: demo_net_def)
  moreover have "defaultIPv4Lookup [''2001:db8::1''] = []" by (simp add: defaultIPv4Lookup_def demo_parse demo_ips)
  ultimately show ?thesis
    using only_ipv4_contacts_ipv4 [OF demo_net_ok(2) demo_strings(1) d] d demo_strings(2) by simp
qed

text \<open>No dial is unbounded, and the hard filter may take twice its budget: if the resolver and the sockets keep their
  timeouts, the default dialer returns within the configured budget (ten seconds when it is not
  positive), except under the IPv4-only policy, where the deadline of the dials starts only after
  the resolution: twice the budget, and that is reached.\<close>

lemma target_dial_time_bound:
  assumes "B = (if budget \<le> 0 then targetDialTimeout else budget)"
  shows "(\<forall>env only pref addr now. timely env \<longrightarrow>
      fst (snd (newDefaultTargetDialWithTimeout only pref budget env addr now)) \<le> now + (if only then 2 * B else B)) \<and>
    (\<exists>env addr. timely env \<and> forward env \<and>
      fst (snd (newDefaultTargetDialWithTimeout True False budget env addr now)) = now + 2 * B)"
proof (intro conjI allI impI)
  have B: "0 < B" by (simp add: assms)
  show "\<exists>env addr. timely env \<and> forward env \<and>
      fst (snd (newDefaultTargetDialWithTimeout True False budget env addr now)) = now + 2 * B"
  proof (intro exI conjI)
    show "fst (snd (newDefaultTargetDialWithTimeout True False budget (demo_net [''192.0.2.1''] B) ''h:80'' now)) = now + 2 * B"
      unfolding newDefaultTargetDialWithTimeout_def assms [symmetric] Let_def
      using B by (simp add: dial_only_ipv4_def demo_strings) (simp add: demo_net_def net_dial_def demo_strings)
  qed (rule demo_net_ok)+
  fix env only pref addr now assume "timely env"
  note t = dial_only_time [OF this B] dial_prefer_time [OF this B] dial_plain_time [OF this B] dialPlain_time [OF this]
  show "fst (snd (newDefaultTargetDialWithTimeout only pref budget env addr now)) \<le> now + (if only then 2 * B else B)"
    unfolding newDefaultTargetDialWithTimeout_def assms [symmetric] Let_def using t by simp
qed

lemma target_dial_time_bound_witness:
  "fst (snd (newDefaultTargetDialWithTimeout False True 100 (demo_net [''192.0.2.1''] 30) ''h:80'' 5)) \<le> 105"
proof -
  have "timely (demo_net [''192.0.2.1''] 30) \<longrightarrow>
      fst (snd (newDefaultTargetDialWithTimeout False True 100 (demo_net [''192.0.2.1''] 30) ''h:80'' 5)) \<le>
        5 + (if False then 2 * 100 else 100)"
    by (rule target_dial_time_bound [of 100 100 0, THEN conjunct1, THEN spec, THEN spec, THEN spec, THEN spec, THEN spec]) simp
  then show ?thesis using demo_net_ok(1) by simp
qed

end
