(* ===== verification/GoText.thy ===== *)
theory GoText
  imports NetIP
begin

text \<open>
  Text helpers of Go's standard library that the configuration, the pairing blobs and the SOCKS
  server share: \<^verbatim>\<open>strings.TrimSpace\<close> and \<^verbatim>\<open>strings.ContainsAny\<close>,
  \<^verbatim>\<open>strconv.ParseBool\<close> and 64-bit \<^verbatim>\<open>strconv.Atoi\<close>, and \<^verbatim>\<open>encoding/base64\<close> without
  and with padding.
\<close>

section \<open>Strings\<close>

definition ascii :: "nat list \<Rightarrow> string" where
  "ascii = map char_of"

text \<open>The encodings of the white-space characters of Unicode.\<close>

definition spaces :: "string list" where
  "spaces =
     map ascii ([[9], [10], [11], [12], [13], [32], [0xC2, 0x85], [0xC2, 0xA0], [0xE1, 0x9A, 0x80]] @
       map (\<lambda>k. [0xE2, 0x80, 0x80 + k]) [0..<11] @
       [[0xE2, 0x80, 0xA8], [0xE2, 0x80, 0xA9], [0xE2, 0x80, 0xAF], [0xE2, 0x81, 0x9F], [0xE3, 0x80, 0x80]])"

function strip :: "string list \<Rightarrow> string \<Rightarrow> string" where
  "strip ws s =
     (case find (\<lambda>w. w \<noteq> [] \<and> HasPrefix s w) ws of
        None \<Rightarrow> s
      | Some w \<Rightarrow> strip ws (drop (length w) s))"
  by auto
termination
proof (relation "measure (\<lambda>(ws, s). length s)")
  fix ws s w assume "find (\<lambda>w. w \<noteq> [] \<and> HasPrefix s w) ws = Some w"
  then have "w \<noteq> [] \<and> HasPrefix s w" by (auto simp: find_Some_iff)
  then have "w \<noteq> []" "s \<noteq> []" by (auto simp: HasPrefix_def)
  then show "((ws, drop (length w) s), ws, s) \<in> measure (\<lambda>(ws, s). length s)" by simp
qed simp

declare strip.simps [simp del]

definition TrimSpace :: "string \<Rightarrow> string" where
  "TrimSpace s = rev (strip (map rev spaces) (rev (strip spaces s)))"

definition ContainsAny :: "string \<Rightarrow> string \<Rightarrow> bool" where
  "ContainsAny s cs \<longleftrightarrow> list_ex (\<lambda>c. c \<in> set cs) s"

definition ParseBool :: "string \<Rightarrow> bool option" where
  "ParseBool s =
     (if s \<in> set [''1'', ''t'', ''T'', ''TRUE'', ''true'', ''True''] then Some True
      else if s \<in> set [''0'', ''f'', ''F'', ''FALSE'', ''false'', ''False''] then Some False
      else None)"

definition Atoi64 :: "string \<Rightarrow> int option" where
  "Atoi64 s = (case Atoi s of None \<Rightarrow> None | Some n \<Rightarrow> if - (2 ^ 63) \<le> n \<and> n < 2 ^ 63 then Some n else None)"

section \<open>Base64\<close>

text \<open>An alphabet is its 64 characters.\<close>

definition alnum64 :: string where
  "alnum64 = ''ABCDEFGHIJKLMNOPQRSTUVWXYZabcdefghijklmnopqrstuvwxyz0123456789''"

definition url64 :: string where "url64 = alnum64 @ ''-_''"
definition std64 :: string where "std64 = alnum64 @ ''+/''"

definition sextet :: "string \<Rightarrow> char \<Rightarrow> nat option" where
  "sextet al c = (if c \<in> set al then Some (length (takeWhile (\<lambda>x. x \<noteq> c) al)) else None)"

text \<open>\<open>RawURLEncoding.EncodeToString\<close>.\<close>

fun encode64 :: "string \<Rightarrow> bytes \<Rightarrow> string" where
  "encode64 al [] = []"
| "encode64 al [a] = (let v = unat a * 16 in [al ! (v div 64), al ! (v mod 64)])"
| "encode64 al [a, b] =
     (let v = (unat a * 256 + unat b) * 4 in [al ! (v div 4096), al ! (v div 64 mod 64), al ! (v mod 64)])"
| "encode64 al (a # b # c # bs) =
     (let v = unat a * 65536 + unat b * 256 + unat c
      in al ! (v div 262144) # al ! (v div 4096 mod 64) # al ! (v div 64 mod 64) # al ! (v mod 64) # encode64 al bs)"

text \<open>Decoding without padding: line breaks are skipped, the unused low bits of the last character are ignored.\<close>

fun sextets :: "string \<Rightarrow> string \<Rightarrow> nat list option" where
  "sextets al [] = Some []"
| "sextets al (c # s) =
     (if c = CHR 0x0A \<or> c = CHR 0x0D then sextets al s
      else (case (sextet al c, sextets al s) of (Some v, Some vs) \<Rightarrow> Some (v # vs) | _ \<Rightarrow> None))"

definition byte_of :: "nat \<Rightarrow> byte" where
  "byte_of n = word_of_nat (n mod 256)"

fun raw_bytes :: "nat list \<Rightarrow> bytes option" where
  "raw_bytes [] = Some []"
| "raw_bytes [p] = None"
| "raw_bytes [p, q] = (let v = p * 64 + q in Some [byte_of (v div 16)])"
| "raw_bytes [p, q, r] = (let v = p * 4096 + q * 64 + r in Some [byte_of (v div 1024), byte_of (v div 4)])"
| "raw_bytes (p # q # r # s # vs) =
     (let v = p * 262144 + q * 4096 + r * 64 + s
      in map_option (\<lambda>bs. byte_of (v div 65536) # byte_of (v div 256) # byte_of v # bs) (raw_bytes vs))"

definition RawURL_Decode :: "string \<Rightarrow> bytes option" where
  "RawURL_Decode s = Option.bind (sextets url64 s) raw_bytes"

definition RawURL_Encode :: "bytes \<Rightarrow> string" where
  "RawURL_Encode = encode64 url64"

text \<open>\<open>StdEncoding.DecodeString\<close>: groups of four, the last one filled with the padding character.\<close>

fun std_bytes :: "string \<Rightarrow> bytes option" where
  "std_bytes [] = Some []"
| "std_bytes (c1 # c2 # c3 # c4 # s) =
     (case (sextet std64 c1, sextet std64 c2) of
        (Some p, Some q) \<Rightarrow>
          if c3 = CHR ''='' then (if c4 = CHR ''='' \<and> s = [] then raw_bytes [p, q] else None)
          else (case sextet std64 c3 of
                  None \<Rightarrow> None
                | Some r \<Rightarrow>
                    if c4 = CHR ''='' then (if s = [] then raw_bytes [p, q, r] else None)
                    else (case sextet std64 c4 of
                            None \<Rightarrow> None
                          | Some x \<Rightarrow>
                              (case (raw_bytes [p, q, r, x], std_bytes s) of
                                 (Some h, Some t) \<Rightarrow> Some (h @ t) | _ \<Rightarrow> None)))
      | _ \<Rightarrow> None)"
| "std_bytes _ = None"

definition Std_Decode :: "string \<Rightarrow> bytes option" where
  "Std_Decode s = std_bytes (filter (\<lambda>c. c \<noteq> CHR 0x0A \<and> c \<noteq> CHR 0x0D) s)"

section \<open>Lemmas\<close>

lemma alphabet_facts: "length url64 = 64" "distinct url64" "CHR 0x0A \<notin> set url64" "CHR 0x0D \<notin> set url64"
  "CHR ''.'' \<notin> set url64"
  by code_simp+

lemma sextet_nth: "distinct al \<Longrightarrow> i < length al \<Longrightarrow> sextet al (al ! i) = Some i"
proof -
  assume d: "distinct al" and i: "i < length al"
  have "takeWhile (\<lambda>x. x \<noteq> al ! i) al = take i al"
  proof (rule takeWhile_eq_take_P_nth)
    show "al ! j \<noteq> al ! i" if "j < i" "j < length al" for j using d i that by (simp add: nth_eq_iff_index_eq)
  qed (use i in auto)
  then show ?thesis using i by (simp add: sextet_def)
qed

lemma url64_char:
  assumes "i < 64"
  shows "sextet url64 (url64 ! i) = Some i" and "url64 ! i \<noteq> CHR 0x0A" "url64 ! i \<noteq> CHR 0x0D" "url64 ! i \<noteq> CHR ''.''"
proof -
  have m: "url64 ! i \<in> set url64" using assms alphabet_facts(1) by (intro nth_mem) simp
  show "sextet url64 (url64 ! i) = Some i" using assms alphabet_facts(1,2) by (simp add: sextet_nth)
  show "url64 ! i \<noteq> CHR 0x0A" "url64 ! i \<noteq> CHR 0x0D" "url64 ! i \<noteq> CHR ''.''" using m alphabet_facts(3-5) by metis+
qed

lemma unat_byte: "unat (b :: byte) < 256"
  using unsigned_less [of b, where ?'a = nat] by simp

lemma byte_of_unat: "n mod 256 = unat (b :: byte) \<Longrightarrow> byte_of n = b"
  by (simp add: byte_of_def)

text \<open>The sextets of the encoding of some bytes.\<close>

fun sextets_of :: "bytes \<Rightarrow> nat list" where
  "sextets_of [] = []"
| "sextets_of [a] = (let v = unat a * 16 in [v div 64, v mod 64])"
| "sextets_of [a, b] = (let v = (unat a * 256 + unat b) * 4 in [v div 4096, v div 64 mod 64, v mod 64])"
| "sextets_of (a # b # c # bs) =
     (let v = unat a * 65536 + unat b * 256 + unat c
      in v div 262144 # v div 4096 mod 64 # v div 64 mod 64 # v mod 64 # sextets_of bs)"

lemma digits256:
  fixes a b c :: nat
  assumes "a \<le> 255" "b \<le> 255" "c \<le> 255"
  shows "a * 16 div 64 < 64" "(a * 256 + b) * 4 div 4096 < 64" "(a * 65536 + b * 256 + c) div 262144 < 64"
    and "(a * 65536 + b * 256 + c) div 65536 mod 256 = a" "(a * 65536 + b * 256 + c) div 256 mod 256 = b"
    "(a * 65536 + b * 256 + c) mod 256 = c"
proof -
  show "a * 16 div 64 < 64" "(a * 256 + b) * 4 div 4096 < 64" "(a * 65536 + b * 256 + c) div 262144 < 64"
    using assms by (simp_all add: div_less_iff_less_mult)
  let ?v = "a * 65536 + b * 256 + c"
  have v: "?v = c + 256 * (b + 256 * a)" by simp
  have d: "?v div 256 = b + 256 * a" unfolding v using div_mult_self2 [of 256 c "b + 256 * a"] assms(3) by simp
  have "?v div 65536 = ?v div 256 div 256" by (simp only: div_mult2_eq [symmetric]) simp
  also have "\<dots> = a" unfolding d using div_mult_self2 [of 256 b a] assms(2) by simp
  finally show "?v div 65536 mod 256 = a" using assms(1) by simp
  show "?v div 256 mod 256 = b" unfolding d using assms(2) by simp
  show "?v mod 256 = c" unfolding v mod_mult_self2 using assms(3) by simp
qed

lemma unat_255: "unat (b :: byte) \<le> 255"
  using unat_byte [of b] by linarith

lemmas div_bounds = digits256(1-3) [OF unat_255 unat_255 unat_255]
lemmas byte_digits = digits256(4-6) [OF unat_255 unat_255 unat_255]

lemma sextet_split:
  fixes v :: nat
  shows "v div 4096 * 4096 + v div 64 mod 64 * 64 + v mod 64 = v"
    "v div 262144 * 262144 + v div 4096 mod 64 * 4096 + v div 64 mod 64 * 64 + v mod 64 = v"
proof -
  have 1: "v div 64 * 64 + v mod 64 = v" by simp
  have 2: "v div 4096 * 64 + v div 64 mod 64 = v div 64"
    using div_mult_mod_eq [of "v div 64" 64] by (simp add: div_mult2_eq [symmetric])
  have 3: "v div 262144 * 64 + v div 4096 mod 64 = v div 4096"
    using div_mult_mod_eq [of "v div 4096" 64] by (simp add: div_mult2_eq [symmetric])
  show "v div 4096 * 4096 + v div 64 mod 64 * 64 + v mod 64 = v"
    "v div 262144 * 262144 + v div 4096 mod 64 * 4096 + v div 64 mod 64 * 64 + v mod 64 = v"
    using 1 2 3 by linarith+
qed

lemma sextets_encode: "sextets url64 (encode64 url64 bs) = Some (sextets_of bs)"
proof (induction "url64" bs rule: encode64.induct)
  case (2 a)
  then show ?case using div_bounds(1) [of a] by (simp add: Let_def url64_char)
next
  case (3 a b)
  then show ?case using div_bounds(2) [of a b] by (simp add: Let_def url64_char)
next
  case (4 a b c bs)
  then show ?case using div_bounds(3) [of a b c] by (simp add: Let_def url64_char)
qed simp

lemma raw_sextets: "raw_bytes (sextets_of bs) = Some bs"
proof (induction bs rule: sextets_of.induct)
  case (2 a)
  let ?v = "unat a * 16"
  have "?v div 64 * 64 + ?v mod 64 = ?v" by presburger
  then have "(?v div 64 * 64 + ?v mod 64) div 16 mod 256 = unat a" using unat_byte [of a] by simp
  then show ?case unfolding sextets_of.simps Let_def raw_bytes.simps by (simp only: byte_of_unat)
next
  case (3 a b)
  let ?v = "(unat a * 256 + unat b) * 4"
  have v: "?v div 4096 * 4096 + ?v div 64 mod 64 * 64 + ?v mod 64 = ?v" by (rule sextet_split)
  have "?v div 1024 mod 256 = unat a" "?v div 4 mod 256 = unat b" using unat_byte [of a] unat_byte [of b] by simp_all
  then show ?case unfolding sextets_of.simps Let_def raw_bytes.simps v by (simp only: byte_of_unat)
next
  case (4 a b c bs)
  define v where "v = unat a * 65536 + unat b * 256 + unat c"
  have v: "v div 262144 * 262144 + v div 4096 mod 64 * 4096 + v div 64 mod 64 * 64 + v mod 64 = v" by (rule sextet_split)
  have "v div 65536 mod 256 = unat a" "v div 256 mod 256 = unat b" "v mod 256 = unat c"
    unfolding v_def by (rule byte_digits)+
  then show ?case using 4 unfolding sextets_of.simps Let_def raw_bytes.simps v_def [symmetric] v
    by (simp only: byte_of_unat option.map)
qed simp

lemma RawURL_roundtrip: "RawURL_Decode (RawURL_Encode bs) = Some bs"
  by (simp add: RawURL_Decode_def RawURL_Encode_def sextets_encode raw_sextets)

text \<open>The encoding has no line break and no dot.\<close>

lemma encode_chars:
  "c \<in> set (RawURL_Encode bs) \<Longrightarrow> c \<in> set url64"
proof -
  have n: "url64 ! i \<in> set url64" if "i < 64" for i using that alphabet_facts(1) by (intro nth_mem) simp
  have "set (encode64 url64 bs) \<subseteq> set url64"
  proof (induction "url64" bs rule: encode64.induct)
    case (2 a)
    then show ?case using div_bounds(1) [of a] by (simp add: Let_def n)
  next
    case (3 a b)
    then show ?case using div_bounds(2) [of a b] by (simp add: Let_def n)
  next
    case (4 a b c bs)
    then show ?case using div_bounds(3) [of a b c] by (simp add: Let_def n)
  qed simp
  then show "c \<in> set (RawURL_Encode bs) \<Longrightarrow> c \<in> set url64" by (auto simp: RawURL_Encode_def)
qed

text \<open>Decoding without padding looks only at the text without its line breaks.\<close>

lemma sextets_filter: "sextets al s = sextets al (filter (\<lambda>c. c \<noteq> CHR 0x0A \<and> c \<noteq> CHR 0x0D) s)"
  by (induction s) simp_all

end
