(* ===== verification/Pairing.thy ===== *)
theory Pairing
  imports GoText Secret
begin

text \<open>
  The pairing blobs the two operators exchange (\<^verbatim>\<open>src/internal/pairing/pairing.go\<close>): the field
  validators, the generators, the wire form with its checksum, parsing, and the redaction of log
  lines. SHA-256 and \<^verbatim>\<open>encoding/json\<close> are arguments (\<open>jsonlib\<close>): marshalling of the two
  structs, the lenient decode of version and role, and the strict decode of each struct. The
  random bytes are arguments of the generators. Error texts name fields only; here a problem
  is the name of the field.
\<close>

datatype pair_error = ErrMalformed | ErrChecksum | ErrVersion | ErrWrongRole | ErrFields "string list" | ErrEmpty

section \<open>Field validation\<close>

definition in_range :: "char \<Rightarrow> char \<Rightarrow> char \<Rightarrow> bool" where
  "in_range a b c \<longleftrightarrow> (of_char a :: nat) \<le> of_char c \<and> (of_char c :: nat) \<le> of_char b"

definition is_digit :: "char \<Rightarrow> bool" where "is_digit = in_range CHR ''0'' CHR ''9''"
definition is_lower :: "char \<Rightarrow> bool" where "is_lower = in_range CHR ''a'' CHR ''z''"
definition is_upper :: "char \<Rightarrow> bool" where "is_upper = in_range CHR ''A'' CHR ''Z''"
definition lower_hex :: "char \<Rightarrow> bool" where "lower_hex c \<longleftrightarrow> is_digit c \<or> in_range CHR ''a'' CHR ''f'' c"
definition any_hex :: "char \<Rightarrow> bool" where "any_hex c \<longleftrightarrow> lower_hex c \<or> in_range CHR ''A'' CHR ''F'' c"

text \<open>The regular expression of a version-4 UUID, position by position.\<close>

definition uuid_char :: "nat \<Rightarrow> char \<Rightarrow> bool" where
  "uuid_char i c \<longleftrightarrow>
     (if i \<in> {8, 13, 18, 23} then c = CHR ''-''
      else if i = 14 then c = CHR ''4''
      else if i = 19 then c \<in> {CHR ''8'', CHR ''9'', CHR ''a'', CHR ''b''}
      else lower_hex c)"

definition ValidUUID :: "string \<Rightarrow> bool" where
  "ValidUUID u \<longleftrightarrow> length u = 36 \<and> list_all (\<lambda>i. uuid_char i (u ! i)) [0..<36]"

definition ValidShortID :: "string \<Rightarrow> bool" where
  "ValidShortID s \<longleftrightarrow> length s = 16 \<and> list_all lower_hex s"

definition label_ok :: "(char \<Rightarrow> bool) \<Rightarrow> string \<Rightarrow> bool" where
  "label_ok P l \<longleftrightarrow> l \<noteq> [] \<and> length l \<le> 63 \<and> hd l \<noteq> CHR ''-'' \<and> last l \<noteq> CHR ''-'' \<and>
     list_all (\<lambda>c. P c \<or> c = CHR ''-'') l"

definition hostname_ok :: "(char \<Rightarrow> bool) \<Rightarrow> string \<Rightarrow> bool" where
  "hostname_ok P h \<longleftrightarrow> \<not> ContainsAny h [CHR '' '', CHR 0x09, CHR 0x0A, CHR '':'', CHR ''/'', CHR ''_''] \<and>
     length (Split CHR ''.'' h) \<ge> 2 \<and> list_all (label_ok P) (Split CHR ''.'' h)"

definition validHost :: "string \<Rightarrow> bool" where
  "validHost h \<longleftrightarrow>
     (if h = [] \<or> length h > 253 then False
      else if ParseIP h \<noteq> None then True
      else hostname_ok (\<lambda>c. is_lower c \<or> is_upper c \<or> is_digit c) h)"

definition validPort :: "int \<Rightarrow> bool" where
  "validPort p \<longleftrightarrow> 1 \<le> p \<and> p \<le> 65535"

definition validUploadDomain :: "string \<Rightarrow> bool" where
  "validUploadDomain d = validHost d"

definition validSNI :: "string \<Rightarrow> bool" where
  "validSNI s \<longleftrightarrow>
     (if s = [] \<or> length s > 253 then False
      else if ParseIP s \<noteq> None then False
      else hostname_ok (\<lambda>c. is_lower c \<or> is_digit c) s)"

definition decodeRealityPublicKey :: "string \<Rightarrow> bytes option" where
  "decodeRealityPublicKey s =
     (if s = [] \<or> ContainsAny s [CHR '' '', CHR 0x09, CHR 0x0A, CHR 0x0D] then None
      else (case RawURL_Decode s of
              Some b \<Rightarrow> if length b = 32 then Some b
                        else (case Std_Decode s of Some b \<Rightarrow> if length b = 32 then Some b else None | None \<Rightarrow> None)
            | None \<Rightarrow> (case Std_Decode s of Some b \<Rightarrow> if length b = 32 then Some b else None | None \<Rightarrow> None)))"

definition validRealityPublicKey :: "string \<Rightarrow> bool" where
  "validRealityPublicKey s \<longleftrightarrow> decodeRealityPublicKey s \<noteq> None"

definition validateTunnelSecret :: "string \<Rightarrow> secret_error option" where
  "validateTunnelSecret s = ValidateSecretMaterial s False"

definition fieldErr :: "string list \<Rightarrow> pair_error option" where
  "fieldErr problems = (if problems = [] then None else Some (ErrFields problems))"

section \<open>Generators\<close>

definition hex_digit :: "nat \<Rightarrow> char" where
  "hex_digit n = ''0123456789abcdef'' ! n"

definition hex_Encode :: "bytes \<Rightarrow> string" where
  "hex_Encode b = concat (map (\<lambda>x. [hex_digit (unat x div 16), hex_digit (unat x mod 16)]) b)"

definition GenerateTunnelSecret :: "bytes \<Rightarrow> secret_error + string" where
  "GenerateTunnelSecret buf =
     (let s = hex_Encode buf in case validateTunnelSecret s of Some e \<Rightarrow> Inl e | None \<Rightarrow> Inr s)"

definition GenerateShortID :: "bytes \<Rightarrow> string" where
  "GenerateShortID buf = hex_Encode buf"

definition GenerateUUID :: "bytes \<Rightarrow> string" where
  "GenerateUUID b0 =
     (let b1 = b0[6 := (b0 ! 6 AND 0x0f) OR 0x40]; b = b1[8 := (b1 ! 8 AND 0x3f) OR 0x80]
      in hex_Encode (go_slice b 0 4) @ ''-'' @ hex_Encode (go_slice b 4 6) @ ''-'' @ hex_Encode (go_slice b 6 8) @ ''-'' @
         hex_Encode (go_slice b 8 10) @ ''-'' @ hex_Encode (go_slice b 10 16))"

section \<open>Blobs\<close>

record BlobA =
  a_V :: int
  a_Role :: string
  a_Secret :: string
  a_UploadDomain :: string

record PublicParams =
  RealityPublicKey :: string
  ShortID :: string
  UUID :: string
  SNI :: string

record DownTarget =
  dt_Host :: string
  dt_Port :: int

record BlobB =
  b_V :: int
  b_Role :: string
  b_Public :: PublicParams
  b_Germany :: DownTarget

abbreviation BlobFormat :: string where "BlobFormat \<equiv> ''splat-v1''"
abbreviation BlobVersion :: int where "BlobVersion \<equiv> 1"
abbreviation roleA :: string where "roleA \<equiv> ''a''"
abbreviation roleB :: string where "roleB \<equiv> ''b''"

definition blobA_problems :: "string \<Rightarrow> string \<Rightarrow> string list" where
  "blobA_problems secret uploadDomain =
     (if validateTunnelSecret secret \<noteq> None then [''secret''] else []) @
     (if \<not> validUploadDomain uploadDomain then [''uploadDomain''] else [])"

definition NewBlobA :: "string \<Rightarrow> string \<Rightarrow> pair_error + BlobA" where
  "NewBlobA secret uploadDomain =
     (case fieldErr (blobA_problems secret uploadDomain) of
        Some e \<Rightarrow> Inl e
      | None \<Rightarrow> Inr \<lparr>a_V = BlobVersion, a_Role = roleA, a_Secret = secret, a_UploadDomain = uploadDomain\<rparr>)"

text \<open>The empty secret is reported as missing, under the same field name.\<close>

definition validateA :: "BlobA \<Rightarrow> pair_error option" where
  "validateA a = fieldErr (blobA_problems (a_Secret a) (a_UploadDomain a))"

definition validateB :: "BlobB \<Rightarrow> pair_error option" where
  "validateB b =
     fieldErr
       ((if \<not> validRealityPublicKey (RealityPublicKey (b_Public b)) then [''public.realityPublicKey''] else []) @
        (if \<not> ValidShortID (ShortID (b_Public b)) then [''public.shortId''] else []) @
        (if \<not> ValidUUID (UUID (b_Public b)) then [''public.uuid''] else []) @
        (if \<not> validSNI (SNI (b_Public b)) then [''public.sni''] else []) @
        (if \<not> validHost (dt_Host (b_Germany b)) then [''germany.host''] else []) @
        (if \<not> validPort (dt_Port (b_Germany b)) then [''germany.port''] else []))"

definition normalize_key :: "PublicParams \<Rightarrow> PublicParams" where
  "normalize_key p =
     (case decodeRealityPublicKey (RealityPublicKey p) of
        None \<Rightarrow> p
      | Some key \<Rightarrow> p\<lparr>RealityPublicKey := RawURL_Encode key\<rparr>)"

definition NewBlobB :: "PublicParams \<Rightarrow> DownTarget \<Rightarrow> pair_error + BlobB" where
  "NewBlobB p g =
     (let b = \<lparr>b_V = BlobVersion, b_Role = roleB, b_Public = normalize_key p, b_Germany = g\<rparr>
      in case validateB b of Some e \<Rightarrow> Inl e | None \<Rightarrow> Inr b)"

section \<open>The wire form\<close>

record jsonlib =
  marshalA :: "BlobA \<Rightarrow> bytes"
  marshalB :: "BlobB \<Rightarrow> bytes"
  decodeEnvelope :: "bytes \<Rightarrow> (int \<times> string) option"
  strictDecodeA :: "bytes \<Rightarrow> BlobA option"
  strictDecodeB :: "bytes \<Rightarrow> BlobB option"

definition encodeBlob :: "(bytes \<Rightarrow> bytes) \<Rightarrow> bytes \<Rightarrow> string" where
  "encodeBlob sha256 payload =
     BlobFormat @ ''.'' @ RawURL_Encode payload @ ''.'' @ RawURL_Encode (sha256 payload)"

definition EncodeA :: "(bytes \<Rightarrow> bytes) \<Rightarrow> jsonlib \<Rightarrow> BlobA \<Rightarrow> pair_error + string" where
  "EncodeA sha256 js a = (case validateA a of Some e \<Rightarrow> Inl e | None \<Rightarrow> Inr (encodeBlob sha256 (marshalA js a)))"

definition EncodeB :: "(bytes \<Rightarrow> bytes) \<Rightarrow> jsonlib \<Rightarrow> BlobB \<Rightarrow> pair_error + string" where
  "EncodeB sha256 js b = (case validateB b of Some e \<Rightarrow> Inl e | None \<Rightarrow> Inr (encodeBlob sha256 (marshalB js b)))"

text \<open>The generic part of \<open>parse\<close>: shape, checksum, version and role, up to the payload.\<close>

definition open_blob :: "(bytes \<Rightarrow> bytes) \<Rightarrow> jsonlib \<Rightarrow> string \<Rightarrow> string \<Rightarrow> pair_error + bytes" where
  "open_blob sha256 js s wantRole =
     (if s = [] then Inl ErrEmpty
      else if TrimSpace s \<noteq> s then Inl ErrMalformed
      else (case Split CHR ''.'' s of
              [p0, p1, p2] \<Rightarrow>
                if p0 \<noteq> BlobFormat then Inl ErrMalformed
                else (case (RawURL_Decode p1, RawURL_Decode p2) of
                        (Some payload, Some got) \<Rightarrow>
                          if length got \<noteq> 32 then Inl ErrMalformed
                          else if got \<noteq> sha256 payload then Inl ErrChecksum
                          else (case decodeEnvelope js payload of
                                  None \<Rightarrow> Inl ErrMalformed
                                | Some (v, role) \<Rightarrow>
                                    if v \<noteq> BlobVersion then Inl ErrVersion
                                    else if role \<noteq> wantRole then Inl ErrWrongRole
                                    else Inr payload)
                      | _ \<Rightarrow> Inl ErrMalformed)
            | _ \<Rightarrow> Inl ErrMalformed))"

definition ParseBlobA :: "(bytes \<Rightarrow> bytes) \<Rightarrow> jsonlib \<Rightarrow> string \<Rightarrow> pair_error + BlobA" where
  "ParseBlobA sha256 js s =
     (case open_blob sha256 js s roleA of
        Inl e \<Rightarrow> Inl e
      | Inr payload \<Rightarrow>
          (case strictDecodeA js payload of
             None \<Rightarrow> Inl ErrMalformed
           | Some a \<Rightarrow> (case validateA a of Some e \<Rightarrow> Inl e | None \<Rightarrow> Inr a)))"

definition ParseBlobB :: "(bytes \<Rightarrow> bytes) \<Rightarrow> jsonlib \<Rightarrow> string \<Rightarrow> pair_error + BlobB" where
  "ParseBlobB sha256 js s =
     (case open_blob sha256 js s roleB of
        Inl e \<Rightarrow> Inl e
      | Inr payload \<Rightarrow>
          (case strictDecodeB js payload of
             None \<Rightarrow> Inl ErrMalformed
           | Some b0 \<Rightarrow>
               (let b = b0\<lparr>b_Public := normalize_key (b_Public b0)\<rparr>
                in case validateB b of Some e \<Rightarrow> Inl e | None \<Rightarrow> Inr b)))"

section \<open>Redaction\<close>

function Redact :: "string \<Rightarrow> string" where
  "Redact s =
     (case s of
        [] \<Rightarrow> []
      | c # r \<Rightarrow>
          (let run = takeWhile any_hex s
           in if length run \<ge> 32 then ''<redacted>'' @ Redact (drop (length run) s)
              else if run \<noteq> [] then run @ Redact (drop (length run) s)
              else c # Redact r))"
  by auto
termination
  by (relation "measure length") (auto simp: Let_def)

declare Redact.simps [simp del]

section \<open>Lemmas\<close>

lemma Split_no_sep: "sep \<notin> set s \<Longrightarrow> Split sep s = [s]"
  by (induction s) auto

lemma Split_append: "sep \<notin> set p \<Longrightarrow> Split sep (p @ sep # s) = p # Split sep s"
  by (induction p) auto

lemma Split_cons: "Split sep s = p # ps \<Longrightarrow> (ps = [] \<longrightarrow> s = p) \<and> (ps \<noteq> [] \<longrightarrow> (\<exists>r. s = p @ sep # r \<and> Split sep r = ps)) \<and> sep \<notin> set p"
proof (induction s arbitrary: p ps)
  case (Cons c s)
  obtain w ws where sp: "Split sep s = w # ws" using Split_nonempty by (cases "Split sep s") auto
  then show ?case using Cons.prems Cons.IH [OF sp] by (auto split: if_splits)
qed simp

lemma Split3: "Split sep s = [p, q, r] \<longleftrightarrow> s = p @ sep # q @ sep # r \<and> sep \<notin> set p \<and> sep \<notin> set q \<and> sep \<notin> set r"
proof
  assume "Split sep s = [p, q, r]"
  then show "s = p @ sep # q @ sep # r \<and> sep \<notin> set p \<and> sep \<notin> set q \<and> sep \<notin> set r"
    using Split_cons [of sep s p "[q, r]"] Split_cons [of sep _ q "[r]"] Split_cons [of sep _ r "[]"] by auto
qed (auto simp: Split_append Split_no_sep)

text \<open>Trimming keeps a text whose two ends are no part of a white-space character.\<close>

definition space_bytes :: string where
  "space_bytes = concat spaces"

lemma strip_id: "(\<And>w. w \<in> set ws \<Longrightarrow> w \<noteq> [] \<Longrightarrow> \<not> HasPrefix s w) \<Longrightarrow> strip ws s = s"
  by (subst strip.simps) (auto simp: find_None_iff split: option.splits dest!: find_Some_iff [THEN iffD1] nth_mem)

lemma strip_first: "s \<noteq> [] \<Longrightarrow> hd s \<notin> set (concat ws) \<Longrightarrow> strip ws s = s"
proof (rule strip_id)
  fix w assume "s \<noteq> []" "hd s \<notin> set (concat ws)" "w \<in> set ws" "w \<noteq> []"
  then have "hd w \<noteq> hd s" by (metis UN_I hd_in_set set_concat)
  then show "\<not> HasPrefix s w" using \<open>w \<noteq> []\<close> by (metis HasPrefix_def hd_append2 append_take_drop_id)
qed

lemma TrimSpace_id:
  assumes "s \<noteq> []" and "hd s \<notin> set space_bytes" and "last s \<notin> set space_bytes"
  shows "TrimSpace s = s"
proof -
  have "strip spaces s = s" using strip_first [of s spaces] assms(1,2) by (simp add: space_bytes_def)
  moreover have "set (concat (map rev spaces)) = set space_bytes" by (simp add: space_bytes_def)
  then have "strip (map rev spaces) (rev s) = rev s"
    using strip_first [of "rev s" "map rev spaces"] assms(1,3) by (simp add: hd_rev)
  ultimately show ?thesis by (simp add: TrimSpace_def)
qed

lemma space_bytes_list: "set space_bytes \<inter> set (''s'' @ url64) = {}"
  by code_simp

lemma encode_length: "length (encode64 al bs) = (length bs * 4 + 2) div 3"
  by (induction al bs rule: encode64.induct) (simp_all add: Let_def)

section \<open>Lemmas: the wire form\<close>

definition wire :: "string \<Rightarrow> string \<Rightarrow> string" where
  "wire p1 p2 = BlobFormat @ CHR ''.'' # p1 @ CHR ''.'' # p2"

text \<open>What \<open>open_blob\<close> does with a text of the right shape.\<close>

definition check_payload :: "(bytes \<Rightarrow> bytes) \<Rightarrow> jsonlib \<Rightarrow> string \<Rightarrow> bytes option \<Rightarrow> bytes option \<Rightarrow> pair_error + bytes" where
  "check_payload sha256 js wantRole d1 d2 =
     (case (d1, d2) of
        (Some payload, Some got) \<Rightarrow>
          if length got \<noteq> 32 then Inl ErrMalformed
          else if got \<noteq> sha256 payload then Inl ErrChecksum
          else (case decodeEnvelope js payload of
                  None \<Rightarrow> Inl ErrMalformed
                | Some (v, role) \<Rightarrow>
                    if v \<noteq> BlobVersion then Inl ErrVersion
                    else if role \<noteq> wantRole then Inl ErrWrongRole
                    else Inr payload)
      | _ \<Rightarrow> Inl ErrMalformed)"

lemma open_wire:
  assumes "TrimSpace (wire p1 p2) = wire p1 p2" and "CHR ''.'' \<notin> set p1" and "CHR ''.'' \<notin> set p2"
  shows "open_blob sha256 js (wire p1 p2) role = check_payload sha256 js role (RawURL_Decode p1) (RawURL_Decode p2)"
proof -
  have "Split CHR ''.'' (wire p1 p2) = [BlobFormat, p1, p2]"
    unfolding Split3 wire_def using assms(2,3) by simp
  moreover have "wire p1 p2 \<noteq> []" by (simp add: wire_def)
  ultimately show ?thesis using assms(1) by (simp add: open_blob_def check_payload_def)
qed

lemma open_blob_ok:
  assumes "open_blob sha256 js s role = Inr payload"
  shows "\<exists>p1 p2. s = wire p1 p2 \<and> CHR ''.'' \<notin> set p1 \<and> CHR ''.'' \<notin> set p2 \<and> TrimSpace s = s \<and>
    RawURL_Decode p1 = Some payload \<and> RawURL_Decode p2 = Some (sha256 payload) \<and> length (sha256 payload) = 32 \<and>
    decodeEnvelope js payload = Some (BlobVersion, role)"
proof -
  obtain p0 p1 p2 where sp: "Split CHR ''.'' s = [p0, p1, p2]" and t: "TrimSpace s = s" and p0: "p0 = BlobFormat"
    using assms by (auto simp: open_blob_def split: if_splits list.splits)
  have s: "s = wire p1 p2" "CHR ''.'' \<notin> set p1" "CHR ''.'' \<notin> set p2"
    using sp p0 unfolding Split3 by (auto simp: wire_def)
  then show ?thesis
    using assms open_wire [of p1 p2 sha256 js role] t
    by (auto simp: check_payload_def split: option.splits if_splits prod.splits)
qed

lemma open_wire_ok:
  assumes "open_blob sha256 js (wire p1 p2) role = Inr payload" and "CHR ''.'' \<notin> set p1" and "CHR ''.'' \<notin> set p2"
  shows "RawURL_Decode p1 = Some payload" and "RawURL_Decode p2 = Some (sha256 payload)"
    and "length (sha256 payload) = 32" and "decodeEnvelope js payload = Some (BlobVersion, role)"
    and "TrimSpace (wire p1 p2) = wire p1 p2"
proof -
  obtain q1 q2 where q: "wire p1 p2 = wire q1 q2" "CHR ''.'' \<notin> set q1" "CHR ''.'' \<notin> set q2"
    "TrimSpace (wire p1 p2) = wire p1 p2" "RawURL_Decode q1 = Some payload" "RawURL_Decode q2 = Some (sha256 payload)"
    "length (sha256 payload) = 32" "decodeEnvelope js payload = Some (BlobVersion, role)"
    using open_blob_ok [OF assms(1)] by blast
  have sp: "Split CHR ''.'' (wire r1 r2) = [BlobFormat, r1, r2]" if "CHR ''.'' \<notin> set r1" "CHR ''.'' \<notin> set r2" for r1 r2
    unfolding Split3 wire_def using that by simp
  have "[BlobFormat, p1, p2] = [BlobFormat, q1, q2]"
    using arg_cong [OF q(1), of "Split CHR ''.''"] unfolding sp [OF assms(2,3)] sp [OF q(2,3)] .
  then have "p1 = q1" "p2 = q2" by simp_all
  then show "RawURL_Decode p1 = Some payload" "RawURL_Decode p2 = Some (sha256 payload)"
    "length (sha256 payload) = 32" "decodeEnvelope js payload = Some (BlobVersion, role)"
    "TrimSpace (wire p1 p2) = wire p1 p2" using q by simp_all
qed

lemma encodeBlob_wire: "encodeBlob sha256 payload = wire (RawURL_Encode payload) (RawURL_Encode (sha256 payload))"
  by (simp add: encodeBlob_def wire_def)

lemma wire_trim:
  assumes "p2 \<noteq> []" and "last p2 \<in> set url64"
  shows "TrimSpace (wire p1 p2) = wire p1 p2"
proof (rule TrimSpace_id)
  show "hd (wire p1 p2) \<notin> set space_bytes" using space_bytes_list by (auto simp: wire_def)
  have "last (wire p1 p2) = last p2" using assms(1) by (simp add: wire_def)
  then show "last (wire p1 p2) \<notin> set space_bytes" using assms(2) space_bytes_list by auto
qed (simp add: wire_def)

lemma open_encoded:
  assumes "\<And>x. length (sha256 x) = 32"
  shows "open_blob sha256 js (encodeBlob sha256 payload) role = check_payload sha256 js role (Some payload) (Some (sha256 payload))"
proof -
  let ?p2 = "RawURL_Encode (sha256 payload)"
  have ne: "?p2 \<noteq> []" using encode_length [of url64 "sha256 payload"] assms by (auto simp: RawURL_Encode_def)
  have "last ?p2 \<in> set url64" by (rule encode_chars [OF last_in_set [OF ne]])
  moreover have "CHR ''.'' \<notin> set (RawURL_Encode x)" for x using encode_chars alphabet_facts(5) by blast
  ultimately show ?thesis
    unfolding encodeBlob_wire using open_wire wire_trim [OF ne] by (simp add: RawURL_roundtrip)
qed

lemma key_roundtrip: "length key = 32 \<Longrightarrow> decodeRealityPublicKey (RawURL_Encode key) = Some key"
proof -
  assume l: "length key = 32"
  have "RawURL_Encode key \<noteq> []" using encode_length [of url64 key] l by (auto simp: RawURL_Encode_def)
  moreover have "\<not> ContainsAny (RawURL_Encode key) [CHR '' '', CHR 0x09, CHR 0x0A, CHR 0x0D]"
  proof -
    have "set url64 \<inter> {CHR '' '', CHR 0x09, CHR 0x0A, CHR 0x0D} = {}" by code_simp
    then show ?thesis using encode_chars [of _ key] by (fastforce simp: ContainsAny_def list_ex_iff)
  qed
  ultimately show ?thesis using l by (simp add: decodeRealityPublicKey_def RawURL_roundtrip)
qed

lemma decoded_key_length: "decodeRealityPublicKey s = Some key \<Longrightarrow> length key = 32"
  by (auto simp: decodeRealityPublicKey_def split: if_splits option.splits)

lemma normalize_key_idem: "normalize_key (normalize_key p) = normalize_key p"
proof (cases "decodeRealityPublicKey (RealityPublicKey p)")
  case (Some key)
  then show ?thesis using key_roundtrip [OF decoded_key_length [OF Some]] by (simp add: normalize_key_def)
qed (simp add: normalize_key_def)

lemma raw_bytes_length: "raw_bytes vs = Some bs \<Longrightarrow> length bs \<le> length vs"
  by (induction vs arbitrary: bs rule: raw_bytes.induct) (auto simp: Let_def intro: le_SucI)

lemma sextets_length: "sextets al s = Some vs \<Longrightarrow> length vs \<le> length s"
  by (induction s arbitrary: vs) (auto split: if_splits option.splits intro: le_SucI)

lemma decoded_length: "RawURL_Decode s = Some bs \<Longrightarrow> length bs \<le> length s"
  by (auto simp: RawURL_Decode_def bind_eq_Some_conv dest!: raw_bytes_length sextets_length)

text \<open>Trimming looks at no more than the last three characters at the end.\<close>

lemma spaces_length: "list_all (\<lambda>w. length w \<le> 3) spaces"
  by code_simp

lemma strip_id_iff: "strip ws s = s \<longleftrightarrow> (\<forall>w \<in> set ws. w \<noteq> [] \<longrightarrow> \<not> HasPrefix s w)"
proof
  assume id: "strip ws s = s"
  show "\<forall>w \<in> set ws. w \<noteq> [] \<longrightarrow> \<not> HasPrefix s w"
  proof (cases "find (\<lambda>w. w \<noteq> [] \<and> HasPrefix s w) ws")
    case None
    then show ?thesis by (auto simp: find_None_iff)
  next
    case (Some w)
    then have w: "w \<noteq> []" "HasPrefix s w" by (auto simp: find_Some_iff)
    then have "length (drop (length w) s) < length s" by (cases s) (auto simp: HasPrefix_def)
    moreover have "length (strip ws y) \<le> length y" for y
    proof (induction ws y rule: strip.induct)
      case (1 ws s)
      then show ?case by (subst strip.simps) (auto split: option.splits intro: le_trans)
    qed
    ultimately have "length (strip ws (drop (length w) s)) < length s" by (meson le_less_trans)
    then show ?thesis using id Some by (subst (asm) strip.simps) simp
  qed
qed (use strip_id in blast)

lemma wire_trim_end:
  assumes "3 < length c" and "TrimSpace (wire p c) = wire p c"
  shows "TrimSpace (wire q c) = wire q c"
proof -
  have front: "strip spaces (wire r c) = wire r c" for r
    using strip_first [of "wire r c" spaces] space_bytes_list by (auto simp: wire_def space_bytes_def)
  have "HasPrefix (rev (wire r c)) w = HasPrefix (rev c) w" if "w \<in> set (map rev spaces)" for r w
  proof -
    have "length w \<le> 3" using that spaces_length by (auto simp: list_all_iff)
    then show ?thesis using assms(1) by (simp add: HasPrefix_def wire_def)
  qed
  then have "strip (map rev spaces) (rev (wire q c)) = rev (wire q c) \<longleftrightarrow>
      strip (map rev spaces) (rev (wire p c)) = rev (wire p c)"
    unfolding strip_id_iff by blast
  moreover have "strip (map rev spaces) (rev (wire p c)) = rev (wire p c)"
    using assms(2) front [of p] by (simp add: TrimSpace_def) (metis rev_rev_ident)
  ultimately show ?thesis using front by (simp add: TrimSpace_def)
qed

section \<open>Properties\<close>

lemma encoded_blobs:
  assumes sha: "\<And>x. length (sha256 x) = 32"
    and jsonA: "decodeEnvelope js (marshalA js a) = Some (a_V a, a_Role a)" "strictDecodeA js (marshalA js a) = Some a"
    and jsonB: "decodeEnvelope js (marshalB js b) = Some (b_V b, b_Role b)" "strictDecodeB js (marshalB js b) = Some b"
    and a: "NewBlobA secret domain = Inr a" and b: "NewBlobB p g = Inr b"
  shows "(\<exists>s. EncodeA sha256 js a = Inr s \<and> ParseBlobA sha256 js s = Inr a \<and> ParseBlobB sha256 js s = Inl ErrWrongRole) \<and>
    (\<exists>s. EncodeB sha256 js b = Inr s \<and> ParseBlobB sha256 js s = Inr b \<and> ParseBlobA sha256 js s = Inl ErrWrongRole)"
proof -
  have va: "validateA a = None" "a_V a = BlobVersion" "a_Role a = roleA"
    using a by (auto simp: NewBlobA_def validateA_def split: option.splits)
  have vb: "validateB b = None" "b_V b = BlobVersion" "b_Role b = roleB" "b_Public b = normalize_key p"
    using b by (auto simp: NewBlobB_def Let_def split: option.splits)
  have nb: "b\<lparr>b_Public := normalize_key (b_Public b)\<rparr> = b" using vb(4) normalize_key_idem [of p] by simp
  have oa: "open_blob sha256 js (encodeBlob sha256 (marshalA js a)) role =
      (if role = roleA then Inr (marshalA js a) else Inl ErrWrongRole)" for role
    using open_encoded [of sha256, OF sha] jsonA va sha by (simp add: check_payload_def)
  have ob: "open_blob sha256 js (encodeBlob sha256 (marshalB js b)) role =
      (if role = roleB then Inr (marshalB js b) else Inl ErrWrongRole)" for role
    using open_encoded [of sha256, OF sha] jsonB vb sha by (simp add: check_payload_def)
  show ?thesis
    using va vb nb oa ob jsonA jsonB by (simp add: EncodeA_def EncodeB_def ParseBlobA_def ParseBlobB_def)
qed

text \<open>Pairing round trip: what one operator encodes the other parses back. A blob built from valid fields encodes,
  the text parses in its own role to exactly that blob, and in the other role it is refused as a
  role mismatch. The Germany blob comes back with its Reality key in the canonical form it was built with.\<close>

lemma blob_roundtrip:
  assumes sha: "\<And>x. length (sha256 x) = 32"
    and jsonA: "decodeEnvelope js (marshalA js a) = Some (a_V a, a_Role a)" "strictDecodeA js (marshalA js a) = Some a"
    and jsonB: "decodeEnvelope js (marshalB js b) = Some (b_V b, b_Role b)" "strictDecodeB js (marshalB js b) = Some b"
    and a: "NewBlobA secret domain = Inr a" and b: "NewBlobB p g = Inr b"
  shows "(\<exists>s. EncodeA sha256 js a = Inr s \<and> ParseBlobA sha256 js s = Inr a \<and> ParseBlobB sha256 js s = Inl ErrWrongRole) \<and>
    (\<exists>s. EncodeB sha256 js b = Inr s \<and> ParseBlobB sha256 js s = Inr b \<and> ParseBlobA sha256 js s = Inl ErrWrongRole)"
  by (rule encoded_blobs [OF assms])

text \<open>A parsed blob is valid, and its checksum binds it: an accepted Iran blob has the version and role of this
  build and fields that pass every validator; and two accepted texts with the same checksum part
  give the same blob, unless two different payloads have the same SHA-256.\<close>

lemma blob_checksum_binds:
  assumes "ParseBlobA sha256 js s = Inr a" and "ParseBlobA sha256 js t = Inr a'"
    and "s = wire p1 c" and "t = wire q1 c" and "CHR ''.'' \<notin> set (p1 @ q1 @ c)"
  shows "validateTunnelSecret (a_Secret a) = None \<and> validUploadDomain (a_UploadDomain a) \<and>
    (a = a' \<or> (\<exists>x y. x \<noteq> y \<and> sha256 x = sha256 y))"
proof -
  obtain x where x: "open_blob sha256 js s roleA = Inr x" "strictDecodeA js x = Some a" "validateA a = None"
    using assms(1) by (auto simp: ParseBlobA_def split: sum.splits option.splits)
  obtain y where y: "open_blob sha256 js t roleA = Inr y" "strictDecodeA js y = Some a'"
    using assms(2) by (auto simp: ParseBlobA_def split: sum.splits option.splits)
  have cx: "RawURL_Decode c = Some (sha256 x)"
    using open_wire_ok(2) [OF x(1) [unfolded assms(3)]] assms(5) by simp
  have cy: "RawURL_Decode c = Some (sha256 y)"
    using open_wire_ok(2) [OF y(1) [unfolded assms(4)]] assms(5) by simp
  have "a = a' \<or> x \<noteq> y" using x(2) y(2) by auto
  moreover have "sha256 x = sha256 y" using cx cy by simp
  ultimately show ?thesis using x(3) by (auto simp: validateA_def fieldErr_def blobA_problems_def split: if_splits)
qed

text \<open>The wire form is not canonical: a line break may be put anywhere inside the payload part of an accepted
  blob, and the text still parses to the same blob, although the format is described as a single line.\<close>

lemma blob_accepts_line_breaks:
  assumes "ParseBlobA sha256 js (wire (u @ v) c) = Inr a" and "CHR ''.'' \<notin> set (u @ v @ c)"
  shows "ParseBlobA sha256 js (wire (u @ CHR 0x0A # v) c) = Inr a"
proof -
  obtain x where x: "open_blob sha256 js (wire (u @ v) c) roleA = Inr x" "strictDecodeA js x = Some a" "validateA a = None"
    using assms(1) by (auto simp: ParseBlobA_def split: sum.splits option.splits)
  note w = open_wire_ok [OF x(1)]
  have d: "RawURL_Decode (u @ CHR 0x0A # v) = RawURL_Decode (u @ v)"
    unfolding RawURL_Decode_def using sextets_filter [of url64 "u @ CHR 0x0A # v"] sextets_filter [of url64 "u @ v"] by simp
  have l: "3 < length c" using decoded_length [of c] w(2,3) assms(2) by simp
  have "TrimSpace (wire (u @ CHR 0x0A # v) c) = wire (u @ CHR 0x0A # v) c"
    using wire_trim_end [OF l] w(5) assms(2) by simp
  then have "open_blob sha256 js (wire (u @ CHR 0x0A # v) c) roleA = open_blob sha256 js (wire (u @ v) c) roleA"
    using open_wire [of "u @ CHR 0x0A # v" c sha256 js roleA] open_wire [of "u @ v" c sha256 js roleA] w(5) assms(2) d by simp
  then show ?thesis using x by (simp add: ParseBlobA_def)
qed

section \<open>Generated material and redaction\<close>

lemma hex_digits: "list_all (\<lambda>n. lower_hex (hex_digit n)) [0..<16]"
  by code_simp

lemma hex_digit_ok: "n < 16 \<Longrightarrow> lower_hex (hex_digit n)"
  using hex_digits by (simp add: list_all_iff)

lemma hex_Encode_ok: "list_all lower_hex (hex_Encode b)" "length (hex_Encode b) = 2 * length b"
proof (induction b)
  case (Cons x b)
  have "unat x div 16 < 16" using unat_255 [of x] by (simp add: div_less_iff_less_mult)
  then show "list_all lower_hex (hex_Encode (x # b))" "length (hex_Encode (x # b)) = 2 * length (x # b)"
    using Cons by (simp_all add: hex_Encode_def hex_digit_ok)
qed (simp_all add: hex_Encode_def)

lemma lower_hex_code: "lower_hex c \<longleftrightarrow> (let n = (of_char c :: nat) in 48 \<le> n \<and> n \<le> 57 \<or> 97 \<le> n \<and> n \<le> 102)"
  by (simp add: lower_hex_def is_digit_def in_range_def Let_def)

lemma lower_hex_ToLower: "list_all lower_hex s \<Longrightarrow> ToLower s = s"
  by (induction s) (auto simp: ToLower_def lower_char_def Let_def lower_hex_code)

lemma weak_lengths: "list_all (\<lambda>w. length w < 64) knownWeakSecrets"
  "list_all (\<lambda>w. \<not> list_all lower_hex w) knownWeakPrefixes"
  by code_simp+

lemma generated_secret_valid:
  assumes "length buf = 32"
  shows "GenerateTunnelSecret buf = Inr (hex_Encode buf)"
proof -
  let ?s = "hex_Encode buf"
  have s: "list_all lower_hex ?s" "length ?s = 64" using hex_Encode_ok [of buf] assms by simp_all
  have "\<not> list_ex (\<lambda>w. ?s = w) knownWeakSecrets"
    using weak_lengths(1) s(2) by (auto simp: list_ex_iff list_all_iff)
  moreover have "\<not> HasPrefix ?s p" if "p \<in> set knownWeakPrefixes" for p
  proof
    assume "HasPrefix ?s p"
    then have "list_all lower_hex p" using s(1) by (metis HasPrefix_def list_all_append append_take_drop_id)
    then show False using weak_lengths(2) that by (auto simp: list_all_iff)
  qed
  then have "\<not> list_ex (\<lambda>p. HasPrefix ?s p) knownWeakPrefixes" by (auto simp: list_ex_iff)
  moreover have "?s \<noteq> []" using s(2) by auto
  ultimately show ?thesis
    using s lower_hex_ToLower [OF s(1)]
    by (simp add: GenerateTunnelSecret_def validateTunnelSecret_def ValidateSecretMaterial_def Let_def)
qed

lemma nibble_high:
  fixes x :: byte
  shows "unat ((x AND 0x0f) OR 0x40) div 16 = 4" "unat ((x AND 0x3f) OR 0x80) div 16 \<in> {8, 9, 10, 11}"
proof -
  have "\<forall>x :: byte. unat ((x AND 0x0f) OR 0x40) div 16 = 4 \<and> unat ((x AND 0x3f) OR 0x80) div 16 \<in> {8, 9, 10, 11}"
    by code_simp
  then show "unat ((x AND 0x0f) OR 0x40) div 16 = 4" "unat ((x AND 0x3f) OR 0x80) div 16 \<in> {8, 9, 10, 11}" by blast+
qed

lemma hex_high: "lower_hex (hex_digit (unat (x :: byte) div 16))" "lower_hex (hex_digit (unat x mod 16))"
  using unat_255 [of x] by (simp_all add: hex_digit_ok div_less_iff_less_mult)

lemma hex_variant: "hex_digit 4 = CHR ''4''" "n \<in> {8, 9, 10, 11} \<Longrightarrow> hex_digit n \<in> {CHR ''8'', CHR ''9'', CHR ''a'', CHR ''b''}"
  by (auto simp: hex_digit_def)

lemma generated_uuid_valid:
  assumes "length b = 16"
  shows "ValidUUID (GenerateUUID b)"
proof -
  obtain x0 x1 x2 x3 x4 x5 x6 x7 x8 x9 x10 x11 x12 x13 x14 x15 where
    b: "b = [x0, x1, x2, x3, x4, x5, x6, x7, x8, x9, x10, x11, x12, x13, x14, x15]"
    using assms by (auto simp: length_Suc_conv eval_nat_numeral)
  have v: "hex_digit (unat ((x8 AND 0x3f) OR 0x80) div 16) \<in> {CHR ''8'', CHR ''9'', CHR ''a'', CHR ''b''}"
    by (rule hex_variant(2) [OF nibble_high(2)])
  have f: "hex_digit (unat ((x6 AND 0x0f) OR 0x40) div 16) = CHR ''4''" by (simp only: nibble_high(1) hex_variant(1))
  have u: "[0..<36] = [0, 1, 2, 3, 4, 5, 6, 7, 8, 9, 10, 11, 12, 13, 14, 15, 16, 17, 18, 19, 20, 21, 22, 23, 24, 25, 26, 27, 28,
      29, 30, 31, 32, 33, 34, 35]" by (simp add: upt_rec)
  define y6 where "y6 = (x6 AND 0x0f) OR 0x40"
  define y8 where "y8 = (x8 AND 0x3f) OR 0x80"
  have g: "GenerateUUID b = hex_Encode [x0, x1, x2, x3] @ ''-'' @ hex_Encode [x4, x5] @ ''-'' @ hex_Encode [y6, x7] @ ''-'' @
      hex_Encode [y8, x9] @ ''-'' @ hex_Encode [x10, x11, x12, x13, x14, x15]"
    by (simp add: GenerateUUID_def b go_slice_def y6_def y8_def eval_nat_numeral)
  show ?thesis
    using v f unfolding ValidUUID_def g u hex_Encode_def y6_def [symmetric] y8_def [symmetric]
    by (simp add: uuid_char_def hex_high)
qed

text \<open>Generated material always passes the rules it is checked against: a tunnel secret made of 32 random bytes is 64
  lowercase hexadecimal characters and is never refused by the secret policy; a short id made of 8 bytes and a
  UUID made of 16 bytes, whatever they are, satisfy the validators of the blob they go into.\<close>

lemma generated_material_valid:
  assumes "length buf = 32" and "length sid = 8" and "length b = 16"
  shows "(\<exists>s. GenerateTunnelSecret buf = Inr s \<and> length s = 64 \<and> list_all lower_hex s) \<and>
    ValidShortID (GenerateShortID sid) \<and> ValidUUID (GenerateUUID b)"
  using generated_secret_valid [OF assms(1)] generated_uuid_valid [OF assms(3)] hex_Encode_ok [of buf] hex_Encode_ok [of sid]
    assms by (simp add: ValidShortID_def GenerateShortID_def)

lemma generated_material_valid_witness:
  "\<exists>s. GenerateTunnelSecret (replicate 32 0xAB) = Inr s \<and> length s = 64"
  using generated_material_valid [of "replicate 32 0xAB" "replicate 8 0" "replicate 16 0"] by auto

text \<open>No run of \<open>k\<close> hexadecimal characters.\<close>

definition short_runs :: "string \<Rightarrow> bool" where
  "short_runs s \<longleftrightarrow> (\<forall>u w v. s = u @ w @ v \<and> list_all any_hex w \<longrightarrow> length w < 32)"

lemma short_runs_break:
  assumes "short_runs x" and "short_runs y" and "y = [] \<or> \<not> any_hex (hd y)"
  shows "short_runs (x @ y)"
  unfolding short_runs_def
proof (intro allI impI)
  fix u w v assume a: "x @ y = u @ w @ v \<and> list_all any_hex w"
  show "length w < 32"
  proof (cases "length (u @ w) \<le> length x")
    case True
    then obtain z where "x = u @ w @ z"
      using a by (metis append.assoc append_eq_append_conv_if append_take_drop_id)
    then show ?thesis using assms(1) a unfolding short_runs_def by blast
  next
    case long: False
    show ?thesis
    proof (cases "length x \<le> length u")
      case True
      then obtain z where "u = x @ z" using a by (metis append_eq_append_conv_if append_take_drop_id)
      then have "y = z @ w @ v" using a by simp
      then show ?thesis using assms(2) a unfolding short_runs_def by blast
    next
      case False
      then obtain z where x: "x = u @ z" "z \<noteq> []" using a by (metis append_eq_append_conv2 append_Nil2 le_refl length_append le_add1 nat_le_linear append_eq_append_conv_if append_take_drop_id drop_eq_Nil)
      then have zy: "z @ y = w @ v" using a by simp
      then have "length z < length w" using long x by simp
      then obtain t where t: "w = z @ t" "t \<noteq> []" using zy by (metis append_eq_append_conv_if append_take_drop_id less_imp_le_nat drop_eq_Nil not_le)
      then have "y = t @ v" using zy by simp
      then have "any_hex (hd y)" "y \<noteq> []" using t a by (auto simp: hd_append2 list_all_iff)
      then show ?thesis using assms(3) by simp
    qed
  qed
qed

lemma short_runs_rev: "short_runs (rev s) = short_runs s"
proof -
  have "short_runs (rev s)" if "short_runs s" for s
    unfolding short_runs_def
  proof (intro allI impI)
    fix u w v assume a: "rev s = u @ w @ v \<and> list_all any_hex w"
    then have "s = rev v @ rev w @ rev u" by (metis append.assoc rev_append rev_rev_ident)
    then have "length (rev w) < 32" using that a unfolding short_runs_def by (metis list_all_rev)
    then show "length w < 32" by simp
  qed
  then show ?thesis by (metis rev_rev_ident)
qed

lemma short_runs_break_left:
  assumes "short_runs x" and "short_runs y" and "x = [] \<or> \<not> any_hex (last x)"
  shows "short_runs (x @ y)"
  using short_runs_break [of "rev y" "rev x"] assms by (simp add: short_runs_rev hd_rev flip: rev_append)

lemma short_runs_short: "length s < 32 \<Longrightarrow> short_runs s"
  by (auto simp: short_runs_def)

lemma Redact_plain: "s \<noteq> [] \<Longrightarrow> \<not> any_hex (hd s) \<Longrightarrow> Redact s = hd s # Redact (tl s)"
  by (cases s) (simp_all add: Redact.simps [of "_ # _"])

lemma Redact_run:
  assumes "s \<noteq> []" and "any_hex (hd s)"
  shows "Redact s = (if length (takeWhile any_hex s) \<ge> 32 then ''<redacted>'' else takeWhile any_hex s) @ Redact (dropWhile any_hex s)"
  using assms by (cases s) (simp_all add: Redact.simps [of "_ # _"] Let_def dropWhile_eq_drop)

lemma Redact_head: "s = [] \<or> \<not> any_hex (hd s) \<Longrightarrow> Redact s = [] \<or> \<not> any_hex (hd (Redact s))"
  using Redact_plain [of s] by (cases s) (simp_all add: Redact.simps [of "[]"])

lemma dropWhile_head: "dropWhile P s = [] \<or> \<not> P (hd (dropWhile P s))"
  by (metis hd_dropWhile)

lemma Redact_short_runs: "short_runs (Redact s)"
proof (induction s rule: length_induct)
  case (1 s)
  show ?case
  proof (cases "s = []")
    case True
    then show ?thesis by (simp add: Redact.simps [of "[]"] short_runs_short)
  next
    case ne: False
    show ?thesis
    proof (cases "any_hex (hd s)")
      case True
      then have "length (dropWhile any_hex s) < length s" using ne by (cases s) (simp_all add: length_dropWhile_le le_imp_less_Suc)
      then have "short_runs (Redact (dropWhile any_hex s))" using 1 by blast
      moreover have "short_runs (if length (takeWhile any_hex s) \<ge> 32 then ''<redacted>'' else takeWhile any_hex s)"
        by (simp add: short_runs_short)
      ultimately show ?thesis
        unfolding Redact_run [OF ne True] using Redact_head [OF dropWhile_head] by (intro short_runs_break)
    next
      case False
      have "short_runs (Redact (tl s))" using 1 ne by simp
      then have "short_runs ([hd s] @ Redact (tl s))" using False by (intro short_runs_break_left) (simp_all add: short_runs_short)
      then show ?thesis using Redact_plain [OF ne False] by simp
    qed
  qed
qed

lemma Redact_keeps: "short_runs s \<Longrightarrow> Redact s = s"
proof (induction s rule: length_induct)
  case (1 s)
  have sub: "short_runs y" if "s = x @ y" for x y
    using 1(2) that unfolding short_runs_def by (metis append.assoc)
  show ?case
  proof (cases "s = []")
    case True
    then show ?thesis by (simp add: Redact.simps [of "[]"])
  next
    case ne: False
    show ?thesis
    proof (cases "any_hex (hd s)")
      case True
      let ?r = "takeWhile any_hex s" and ?t = "dropWhile any_hex s"
      have "list_all any_hex ?r" by (auto simp: list_all_iff dest: set_takeWhileD)
      then have "length ?r < 32" using 1(2) unfolding short_runs_def by (metis append_Nil takeWhile_dropWhile_id)
      moreover have "length ?t < length s" using ne True by (cases s) (simp_all add: length_dropWhile_le le_imp_less_Suc)
      then have "Redact ?t = ?t" using 1(1) sub [of ?r ?t] by simp
      ultimately show ?thesis unfolding Redact_run [OF ne True] by simp
    next
      case False
      have "Redact (tl s) = tl s" using 1(1) sub [of "[hd s]" "tl s"] ne by simp
      then show ?thesis using Redact_plain [OF ne False] ne by simp
    qed
  qed
qed

text \<open>Redaction is complete and conservative: no text that went through it contains 32 hexadecimal characters in a row,
  so neither a tunnel secret nor a digest survives; a text without such a run is left
  unchanged, and redacting twice is redacting once.\<close>

lemma redact_masks_secrets:
  "short_runs (Redact s) \<and> (short_runs s \<longrightarrow> Redact s = s) \<and> Redact (Redact s) = Redact s"
  using Redact_short_runs Redact_keeps by blast

lemma redact_masks_secrets_witness:
  "short_runs ''port 8443'' \<and> Redact ''port 8443'' = ''port 8443''"
proof -
  have "short_runs ''port 8443''" by (simp add: short_runs_short)
  then show ?thesis using redact_masks_secrets [of "''port 8443''"] by simp
qed

section \<open>Witnesses of the blob properties\<close>

definition demo_a :: BlobA where
  "demo_a = \<lparr>a_V = 1, a_Role = ''a'', a_Secret = ''0123456789abcdef0123456789abcdef'', a_UploadDomain = ''cdn.example.org''\<rparr>"

definition demo_b :: BlobB where
  "demo_b = \<lparr>b_V = 1, b_Role = ''b'', b_Public = \<lparr>RealityPublicKey = RawURL_Encode (replicate 32 0), ShortID = ''0123456789abcdef'',
     UUID = ''00000000-0000-4000-8000-000000000000'', SNI = ''www.example.org''\<rparr>,
     b_Germany = \<lparr>dt_Host = ''www.example.org'', dt_Port = 443\<rparr>\<rparr>"

text \<open>A JSON library and a digest that suffice for these two blobs.\<close>

definition demo_js :: jsonlib where
  "demo_js = \<lparr>marshalA = (\<lambda>_. [1]), marshalB = (\<lambda>_. [2]),
     decodeEnvelope = (\<lambda>x. if x = [1] then Some (1, ''a'') else if x = [2] then Some (1, ''b'') else None),
     strictDecodeA = (\<lambda>x. if x = [1] then Some demo_a else None),
     strictDecodeB = (\<lambda>x. if x = [2] then Some demo_b else None)\<rparr>"

definition demo_sha :: "bytes \<Rightarrow> bytes" where
  "demo_sha x = take 32 (x @ replicate 32 0)"

lemma demo_sha_length: "length (demo_sha x) = 32"
  by (simp add: demo_sha_def)

lemma demo_fields:
  "validateTunnelSecret ''0123456789abcdef0123456789abcdef'' = None" "validUploadDomain ''cdn.example.org''"
  "ValidShortID ''0123456789abcdef''" "ValidUUID ''00000000-0000-4000-8000-000000000000''"
  "validSNI ''www.example.org''" "validHost ''www.example.org''" "validPort 443"
  by code_simp+

lemma demo_new: "NewBlobA (a_Secret demo_a) (a_UploadDomain demo_a) = Inr demo_a"
  "NewBlobB (b_Public demo_b) (b_Germany demo_b) = Inr demo_b"
proof -
  show "NewBlobA (a_Secret demo_a) (a_UploadDomain demo_a) = Inr demo_a"
    by (simp add: NewBlobA_def blobA_problems_def fieldErr_def demo_a_def demo_fields)
  have k: "decodeRealityPublicKey (RawURL_Encode (replicate 32 0)) = Some (replicate 32 0)" by (simp add: key_roundtrip)
  have n: "normalize_key (b_Public demo_b) = b_Public demo_b" by (simp add: normalize_key_def demo_b_def k)
  show "NewBlobB (b_Public demo_b) (b_Germany demo_b) = Inr demo_b"
    unfolding NewBlobB_def n
    by (simp add: validateB_def fieldErr_def demo_b_def demo_fields validRealityPublicKey_def k)
qed

lemma demo_json:
  "decodeEnvelope demo_js (marshalA demo_js demo_a) = Some (a_V demo_a, a_Role demo_a)"
  "strictDecodeA demo_js (marshalA demo_js demo_a) = Some demo_a"
  "decodeEnvelope demo_js (marshalB demo_js demo_b) = Some (b_V demo_b, b_Role demo_b)"
  "strictDecodeB demo_js (marshalB demo_js demo_b) = Some demo_b"
  by (simp_all add: demo_js_def demo_a_def demo_b_def)

lemma blob_roundtrip_witness:
  "\<exists>s. EncodeA demo_sha demo_js demo_a = Inr s \<and> ParseBlobA demo_sha demo_js s = Inr demo_a"
  using blob_roundtrip [of demo_sha, OF demo_sha_length demo_json demo_new] by blast

lemma demo_parsed: "ParseBlobA demo_sha demo_js (wire (RawURL_Encode [1]) (RawURL_Encode (demo_sha [1]))) = Inr demo_a"
proof -
  have va: "validateA demo_a = None"
    by (simp add: validateA_def blobA_problems_def fieldErr_def demo_a_def demo_fields)
  have "open_blob demo_sha demo_js (encodeBlob demo_sha [1]) roleA = Inr [1]"
    using open_encoded [of demo_sha, OF demo_sha_length] by (simp add: check_payload_def demo_sha_length demo_js_def)
  then show ?thesis unfolding encodeBlob_wire using va by (simp add: ParseBlobA_def demo_js_def)
qed

lemma demo_no_dot: "CHR ''.'' \<notin> set (RawURL_Encode x)"
  using encode_chars alphabet_facts(5) by blast

lemma blob_checksum_binds_witness:
  "ParseBlobA demo_sha demo_js (wire (RawURL_Encode [1]) (RawURL_Encode (demo_sha [1]))) = Inr demo_a \<and>
     validUploadDomain (a_UploadDomain demo_a)"
  using blob_checksum_binds [OF demo_parsed demo_parsed refl refl] demo_no_dot demo_parsed by simp

lemma blob_accepts_line_breaks_witness:
  "ParseBlobA demo_sha demo_js (wire ([] @ CHR 0x0A # RawURL_Encode [1]) (RawURL_Encode (demo_sha [1]))) = Inr demo_a"
  by (rule blob_accepts_line_breaks) (use demo_parsed demo_no_dot in simp_all)

end
