(* ===== verification/Config.thy ===== *)
theory Config
  imports Pairing Routing
begin

text \<open>
  Loading and validating the configuration of a splitter (\<^verbatim>\<open>src/internal/config/config.go\<close>). The
  environment is a function from names to values. A problem is the variable it is about and
  its kind, in the order the code appends them. Arguments (\<open>libs\<close>): the URL parsers of
  \<^verbatim>\<open>net/url\<close>, with the parts the code looks at, and the rules file, read and decoded, whose
  validation is \<open>Sanitize\<close> of \<open>Routing\<close>.
\<close>

record LoadedConfig =
  SocksListen :: string
  WsListen :: string
  DownCarrierAddr :: string
  UpWsUrl :: string
  DownListen :: string
  SocksUser :: string
  SocksPass :: string
  SocksAllowedSources :: string
  cf_Secret :: string
  AllowWeakSecret :: bool
  MetricsPort :: int
  RelayBufSize :: int
  QueueBytesPerStream :: int
  QueueFramesPerStream :: int
  QueueBytesTotal :: int
  OverflowWaitMs :: int
  CarrierGraceMs :: int
  ReconnectBaseMs :: int
  ReconnectMaxMs :: int
  ReconnectWindowMs :: int
  ReconnectClampMs :: int
  TCPKeepAliveMs :: int
  BootstrapWaitMs :: int
  SessionBufBytes :: int
  SessionBufTotal :: int
  LivenessRounds :: int
  CreditsEnabled :: bool
  cf_TargetOnlyIPv4 :: bool
  cf_TargetAddrPolicy :: string
  MultiCarrierEnabled :: bool
  DownListen2 :: string
  DownCarrierAddr2 :: string
  DownSNI2 :: string
  cf_PolicyMode :: string
  cf_PolicyTopK :: int
  ProbingEnabled :: bool
  ProbeURL :: string
  ProbeDailyBudget :: int
  TTFBBaselineMs :: int
  RoutingRulesFile :: string
  RoutingDefault :: string
  WarpSocksAddr :: string
  RoutingDebug :: bool
  TargetDialBoundMs :: int
  TargetBreakerEnabled :: bool
  TargetBreakerWindowMs :: int
  TargetBreakerThreshold :: int
  TargetBreakerCooldownMs :: int
  TargetBreakerMaxTargets :: int
  TargetBackoffEnabled :: bool
  TargetBackoffBaseMs :: int
  TargetBackoffMaxMs :: int

datatype problem_kind =
    BadInt int int | BadInt64 | BadBool
  | BadHostPort | HostRequired | HostWhitespace | BadPort
  | SameEndpoint string | CollidesWith string | ReservedForDashboard
  | CredentialsHalfSet | UserLength | WeakPassword | BadSources | SameDownTarget
  | UrlPlaceholder | UrlMalformed | UrlScheme | UrlHostMissing | UrlPath
  | SniRequired | SniInvalid | OutOfRange | UnknownPolicy | PolicyContradiction | TotalBelowStream
  | ProbeUrlRequired | ProbeUrlInvalid | WeakSecret | RoutingDefaultInvalid | RulesFileInvalid | UnknownRole

type_synonym problem = "string \<times> problem_kind"

record libs =
  url_Parse :: "string \<Rightarrow> (string \<times> string \<times> string) option"
  url_ParseRequestURI :: "string \<Rightarrow> (string \<times> string) option"
  rules_file :: "string \<Rightarrow> RuleSet option"

abbreviation RoleIran :: string where "RoleIran \<equiv> ''iran''"
abbreviation RoleGermany :: string where "RoleGermany \<equiv> ''germany''"
abbreviation MaxPort :: int where "MaxPort \<equiv> 65535"
abbreviation ReservedPort :: int where "ReservedPort \<equiv> 8443"
abbreviation DefaultUpWsUrl :: string where "DefaultUpWsUrl \<equiv> ''wss://cdn.example.com/upload''"
abbreviation DefaultSecret :: string where "DefaultSecret \<equiv> ''CHANGE-ME-SECRET-USE-A-LONG-RANDOM-STRING''"
abbreviation KiB :: int where "KiB \<equiv> 1024"
abbreviation MiB :: int where "MiB \<equiv> 1048576"

section \<open>Reading the environment\<close>

type_synonym environ = "string \<Rightarrow> string option"

definition envString :: "environ \<Rightarrow> string \<Rightarrow> string \<Rightarrow> string" where
  "envString env name dflt = (case env name of Some v \<Rightarrow> if v \<noteq> [] then v else dflt | None \<Rightarrow> dflt)"

definition envInt :: "environ \<Rightarrow> string \<Rightarrow> int \<Rightarrow> int \<Rightarrow> int \<Rightarrow> int \<times> problem list" where
  "envInt env name dflt mn mx =
     (case env name of
        None \<Rightarrow> (dflt, [])
      | Some v \<Rightarrow>
          if v = [] then (dflt, [])
          else (case Atoi64 v of
                  None \<Rightarrow> (dflt, [(name, BadInt mn mx)])
                | Some n \<Rightarrow> if n < mn \<or> n > mx then (dflt, [(name, BadInt mn mx)]) else (n, [])))"

definition envBool :: "environ \<Rightarrow> string \<Rightarrow> bool \<Rightarrow> bool \<times> problem list" where
  "envBool env name dflt =
     (case env name of
        None \<Rightarrow> (dflt, [])
      | Some v \<Rightarrow>
          if v = [] then (dflt, [])
          else (case ParseBool v of None \<Rightarrow> (dflt, [(name, BadBool)]) | Some b \<Rightarrow> (b, [])))"

definition envInt64 :: "environ \<Rightarrow> string \<Rightarrow> int \<Rightarrow> int \<times> problem list" where
  "envInt64 env name dflt =
     (case env name of
        None \<Rightarrow> (dflt, [])
      | Some v \<Rightarrow>
          if v = [] then (dflt, [])
          else (case Atoi64 v of None \<Rightarrow> (dflt, [(name, BadInt64)]) | Some n \<Rightarrow> (n, [])))"

section \<open>Endpoint checks\<close>

definition portOf :: "string \<Rightarrow> (string \<times> int) option" where
  "portOf addr =
     (case net_SplitHostPort addr of
        None \<Rightarrow> None
      | Some (host, port) \<Rightarrow> map_option (\<lambda>p. (host, p)) (Atoi64 port))"

definition checkHostPort :: "string \<Rightarrow> string \<Rightarrow> bool \<Rightarrow> problem list" where
  "checkHostPort name addr requireHost =
     (case net_SplitHostPort addr of
        None \<Rightarrow> [(name, BadHostPort)]
      | Some (host, port) \<Rightarrow>
          if requireHost \<and> host = [] then [(name, HostRequired)]
          else if ContainsAny host [CHR '' '', CHR 0x09, CHR 0x0A] then [(name, HostWhitespace)]
          else (case Atoi64 port of
                  None \<Rightarrow> [(name, BadPort)]
                | Some p \<Rightarrow> if p < 1 \<or> p > MaxPort then [(name, BadPort)] else []))"

definition checkNotReservedCarrierPort :: "string \<Rightarrow> string \<Rightarrow> problem list" where
  "checkNotReservedCarrierPort name addr =
     (case portOf addr of
        None \<Rightarrow> []
      | Some (_, p) \<Rightarrow> if p = ReservedPort then [(name, ReservedForDashboard)] else [])"

definition bindsEverything :: "string \<Rightarrow> bool" where
  "bindsEverything host \<longleftrightarrow> host \<in> set ['''', ''0.0.0.0'', ''::'', ''[::]'']"

definition conflict :: "string \<Rightarrow> string \<Rightarrow> bool" where
  "conflict a b =
     (case (portOf a, portOf b) of
        (Some (ah, ap), Some (bh, bp)) \<Rightarrow>
          if ap \<noteq> bp then False else if ah = bh then True else bindsEverything ah \<or> bindsEverything bh
      | _ \<Rightarrow> False)"

definition checkWsUrl :: "libs \<Rightarrow> string \<Rightarrow> problem list" where
  "checkWsUrl lb raw =
     (let name = ''SPLIT_UP_WS_URL''
      in if raw = DefaultUpWsUrl then [(name, UrlPlaceholder)]
         else (case url_Parse lb raw of
                 None \<Rightarrow> [(name, UrlMalformed)]
               | Some (scheme, host, path) \<Rightarrow>
                   if scheme \<noteq> ''ws'' \<and> scheme \<noteq> ''wss'' then [(name, UrlScheme)]
                   else if host = [] then [(name, UrlHostMissing)]
                   else if path \<noteq> ''/upload'' then [(name, UrlPath)] else []))"

section \<open>The source allowlist\<close>

text \<open>\<open>None\<close> is a parse error; the empty list allows every source.\<close>

definition allowed_entry :: "string \<Rightarrow> IPNet option" where
  "allowed_entry entry =
     (if entry = [] then None
      else (case ParseIP entry of
              Some ip \<Rightarrow> Some \<lparr>net_IP = ip, net_Mask = (if To4 ip \<noteq> None then CIDRMask 32 4 else CIDRMask 128 16)\<rparr>
            | None \<Rightarrow> ParseCIDR entry))"

definition ParseAllowedSources :: "string \<Rightarrow> IPNet list option" where
  "ParseAllowedSources raw =
     (let trimmed = TrimSpace raw
      in if trimmed = [] then Some []
         else those (map (\<lambda>p. allowed_entry (TrimSpace p)) (Split CHR '','' trimmed)))"

definition AllowedSourcesMatch :: "string \<Rightarrow> string \<Rightarrow> bool" where
  "AllowedSourcesMatch raw clientIP =
     (case ParseAllowedSources raw of
        None \<Rightarrow> False
      | Some nets \<Rightarrow>
          if nets = [] then True
          else (case ParseIP clientIP of None \<Rightarrow> False | Some ip \<Rightarrow> list_ex (\<lambda>n. net_Contains n ip) nets))"

definition checkSocksAllowedSources :: "string \<Rightarrow> problem list" where
  "checkSocksAllowedSources raw =
     (if ParseAllowedSources raw = None then [(''SPLIT_SOCKS_ALLOWED_SOURCES'', BadSources)] else [])"

section \<open>Validation\<close>

definition SocksAuthEnabled :: "LoadedConfig \<Rightarrow> bool" where
  "SocksAuthEnabled c \<longleftrightarrow> SocksUser c \<noteq> [] \<and> SocksPass c \<noteq> []"

definition LoadRulesFile :: "libs \<Rightarrow> string \<Rightarrow> RuleSet option" where
  "LoadRulesFile lb path =
     (case rules_file lb path of
        None \<Rightarrow> None
      | Some rs \<Rightarrow> (case Sanitize rs of Inl _ \<Rightarrow> None | Inr rs' \<Rightarrow> Some rs'))"

definition checkRouting :: "libs \<Rightarrow> LoadedConfig \<Rightarrow> problem list" where
  "checkRouting lb c =
     (if RoutingRulesFile c = [] then []
      else (if RoutingDefault c \<notin> set ['''', ''direct'', ''warp''] then [(''SPLIT_ROUTING_DEFAULT'', RoutingDefaultInvalid)] else []) @
           (if WarpSocksAddr c \<noteq> [] then checkHostPort ''SPLIT_WARP_SOCKS_ADDR'' (WarpSocksAddr c) True else []) @
           (if LoadRulesFile lb (RoutingRulesFile c) = None then [(''SPLIT_ROUTING_RULES_FILE'', RulesFileInvalid)] else []))"

definition check_credentials :: "LoadedConfig \<Rightarrow> problem list" where
  "check_credentials c =
     (if SocksUser c \<noteq> [] \<or> SocksPass c \<noteq> []
      then (if SocksUser c = [] \<or> SocksPass c = [] then [(''SPLIT_SOCKS_USER'', CredentialsHalfSet)]
            else (if length (SocksUser c) < 1 \<or> length (SocksUser c) > 255 then [(''SPLIT_SOCKS_USER'', UserLength)] else []) @
                 (if ValidateSecretMaterial (SocksPass c) (AllowWeakSecret c) \<noteq> None
                  then [(''SPLIT_SOCKS_PASS'', WeakPassword)] else []))
      else [])"

definition validate_iran :: "LoadedConfig \<Rightarrow> problem list" where
  "validate_iran c =
     checkHostPort ''SPLIT_SOCKS_LISTEN'' (SocksListen c) True @
     checkHostPort ''SPLIT_WS_LISTEN'' (WsListen c) False @
     checkHostPort ''SPLIT_DOWN_CARRIER_ADDR'' (DownCarrierAddr c) True @
     (if conflict (SocksListen c) (WsListen c) then [(''SPLIT_SOCKS_LISTEN'', SameEndpoint ''SPLIT_WS_LISTEN'')] else []) @
     check_credentials c @
     checkSocksAllowedSources (SocksAllowedSources c) @
     (if MultiCarrierEnabled c
      then checkHostPort ''SPLIT_DOWN_CARRIER_ADDR_2'' (DownCarrierAddr2 c) True @
           (if DownCarrierAddr2 c \<noteq> [] \<and> DownCarrierAddr2 c = DownCarrierAddr c
            then [(''SPLIT_DOWN_CARRIER_ADDR_2'', SameDownTarget)] else [])
      else [])"

definition validate_germany :: "libs \<Rightarrow> LoadedConfig \<Rightarrow> problem list" where
  "validate_germany lb c =
     checkWsUrl lb (UpWsUrl c) @
     checkHostPort ''SPLIT_DOWN_LISTEN'' (DownListen c) False @
     checkNotReservedCarrierPort ''SPLIT_DOWN_LISTEN'' (DownListen c) @
     (if MultiCarrierEnabled c
      then checkHostPort ''SPLIT_DOWN_LISTEN_2'' (DownListen2 c) True @
           checkNotReservedCarrierPort ''SPLIT_DOWN_LISTEN_2'' (DownListen2 c) @
           (if DownListen2 c \<noteq> [] \<and> conflict (DownListen c) (DownListen2 c)
            then [(''SPLIT_DOWN_LISTEN'', SameEndpoint ''SPLIT_DOWN_LISTEN_2'')] else []) @
           (if DownSNI2 c = [] then [(''SPLIT_DOWN_CARRIER2_SNI'', SniRequired)]
            else if \<not> validSNI (DownSNI2 c) then [(''SPLIT_DOWN_CARRIER2_SNI'', SniInvalid)] else [])
      else []) @
     checkRouting lb c"

definition roleOwnedEndpoints :: "string \<Rightarrow> LoadedConfig \<Rightarrow> (string \<times> string) list" where
  "roleOwnedEndpoints role c =
     (if role = RoleIran then [(''SPLIT_SOCKS_LISTEN'', SocksListen c), (''SPLIT_WS_LISTEN'', WsListen c)]
      else [(''SPLIT_DOWN_LISTEN'', DownListen c)])"

text \<open>\<^verbatim>\<open>"127.0.0.1:" + strconv.Itoa(port)\<close>.\<close>

fun digits :: "nat \<Rightarrow> string" where
  "digits n = (if n < 10 then [char_of (48 + n)] else digits (n div 10) @ [char_of (48 + n mod 10)])"

declare digits.simps [simp del]

definition Itoa :: "int \<Rightarrow> string" where
  "Itoa n = (if n < 0 then CHR ''-'' # digits (nat (- n)) else digits (nat n))"

definition metricsListenAddr :: "int \<Rightarrow> string" where
  "metricsListenAddr port = ''127.0.0.1:'' @ Itoa port"

definition metrics_collisions :: "string \<Rightarrow> LoadedConfig \<Rightarrow> problem list" where
  "metrics_collisions role c =
     (if MetricsPort c > 0
      then map (\<lambda>(name, _). (''SPLIT_METRICS_PORT'', CollidesWith name))
             (filter (\<lambda>(_, ep). conflict (metricsListenAddr (MetricsPort c)) ep) (roleOwnedEndpoints role c))
      else [])"

definition range_problem :: "string \<Rightarrow> bool \<Rightarrow> problem list" where
  "range_problem name bad = (if bad then [(name, OutOfRange)] else [])"

definition validate_bounds :: "LoadedConfig \<Rightarrow> problem list" where
  "validate_bounds c =
     range_problem ''SPLIT_METRICS_PORT'' (MetricsPort c < 0 \<or> MetricsPort c > MaxPort) @
     range_problem ''SPLIT_RELAY_BUF'' (RelayBufSize c < 0 \<or> RelayBufSize c > 0 \<and> RelayBufSize c > 8 * MiB) @
     range_problem ''SPLIT_STREAM_QUEUE_BYTES'' (QueueBytesPerStream c < 0 \<or> QueueBytesPerStream c > 64 * MiB) @
     range_problem ''SPLIT_STREAM_QUEUE_FRAMES'' (QueueFramesPerStream c < 0 \<or> QueueFramesPerStream c > 16) @
     range_problem ''SPLIT_STREAM_QUEUE_TOTAL_BYTES'' (QueueBytesTotal c < 0 \<or> QueueBytesTotal c > 256 * MiB) @
     range_problem ''SPLIT_STREAM_OVERFLOW_MS'' (OverflowWaitMs c < 0 \<or> OverflowWaitMs c > 30000) @
     range_problem ''SPLIT_CARRIER_GRACE'' (CarrierGraceMs c < 500 \<or> CarrierGraceMs c > 600000) @
     range_problem ''SPLIT_BOOTSTRAP_WAIT_MS''
       (BootstrapWaitMs c \<noteq> 0 \<and> BootstrapWaitMs c < 500 \<or> BootstrapWaitMs c > 120000) @
     range_problem ''SPLIT_LIVENESS_ROUNDS'' (LivenessRounds c < 0 \<or> LivenessRounds c > 20) @
     range_problem ''SPLIT_SESSION_BUFFER_BYTES'' (SessionBufBytes c < 4 * KiB \<or> SessionBufBytes c > 16 * MiB) @
     range_problem ''SPLIT_SESSION_BUFFER_TOTAL_BYTES'' (SessionBufTotal c < 0 \<or> SessionBufTotal c > 512 * MiB)"

definition validate_policy :: "libs \<Rightarrow> LoadedConfig \<Rightarrow> problem list" where
  "validate_policy lb c =
     (if cf_TargetAddrPolicy c \<notin> set ['''', ''default'', ''prefer-ipv4'', ''ipv4-only'']
      then [(''SPLIT_TARGET_ADDR_POLICY'', UnknownPolicy)] else []) @
     (if cf_TargetOnlyIPv4 c \<and> cf_TargetAddrPolicy c = ''prefer-ipv4''
      then [(''SPLIT_TARGET_ONLY_IPV4'', PolicyContradiction)] else []) @
     (if QueueBytesPerStream c > 0 \<and> QueueBytesTotal c > 0 \<and> QueueBytesTotal c < QueueBytesPerStream c
      then [(''SPLIT_STREAM_QUEUE_TOTAL_BYTES'', TotalBelowStream)] else []) @
     (if MultiCarrierEnabled c
      then range_problem ''SPLIT_POLICY_MODE'' (cf_PolicyMode c \<noteq> ''static'' \<and> cf_PolicyMode c \<noteq> ''adaptive'') @
           range_problem ''SPLIT_POLICY_TOPK'' (cf_PolicyTopK c < 1 \<or> cf_PolicyTopK c > 8) @
           range_problem ''SPLIT_PROBE_DAILY_BUDGET'' (ProbeDailyBudget c < 0) @
           range_problem ''SPLIT_TTFB_BASELINE_MS'' (TTFBBaselineMs c < 0 \<or> TTFBBaselineMs c > 30000) @
           (if ProbingEnabled c \<and> TrimSpace (ProbeURL c) = [] then [(''SPLIT_PROBE_URL'', ProbeUrlRequired)] else []) @
           (if ProbingEnabled c \<and> ProbeURL c \<noteq> []
            then (case url_ParseRequestURI lb (ProbeURL c) of
                    None \<Rightarrow> [(''SPLIT_PROBE_URL'', ProbeUrlInvalid)]
                  | Some (scheme, host) \<Rightarrow>
                      if scheme = [] \<or> host = [] \<or> scheme \<noteq> ''http'' \<and> scheme \<noteq> ''https''
                      then [(''SPLIT_PROBE_URL'', ProbeUrlInvalid)] else [])
            else [])
      else []) @
     (if ValidateSecretMaterial (cf_Secret c) (AllowWeakSecret c) \<noteq> None then [(''SPLIT_SECRET'', WeakSecret)] else [])"

text \<open>An unknown role is refused before anything else is looked at.\<close>

definition Validate :: "libs \<Rightarrow> string \<Rightarrow> LoadedConfig \<Rightarrow> problem list" where
  "Validate lb role c =
     (if role \<noteq> RoleIran \<and> role \<noteq> RoleGermany then [(role, UnknownRole)]
      else (if role = RoleIran then validate_iran c else validate_germany lb c) @
           metrics_collisions role c @ validate_bounds c @ validate_policy lb c)"

section \<open>Loading\<close>

text \<open>The variables read with a range, in the order of \<open>Load\<close>: name, default, least and greatest value.\<close>

definition int_knobs :: "(string \<times> int \<times> int \<times> int) list" where
  "int_knobs =
     [(''SPLIT_METRICS_PORT'', 0, 0, MaxPort),
      (''SPLIT_RELAY_BUF'', 32768, 1024, 8 * MiB),
      (''SPLIT_STREAM_QUEUE_BYTES'', 0, 0, 64 * MiB),
      (''SPLIT_STREAM_QUEUE_FRAMES'', 0, 0, 16),
      (''SPLIT_STREAM_QUEUE_TOTAL_BYTES'', 0, 0, 256 * MiB),
      (''SPLIT_STREAM_OVERFLOW_MS'', 0, 0, 30000),
      (''SPLIT_CARRIER_GRACE'', 5000, 500, 600000),
      (''SPLIT_RECONNECT_BASE_MS'', 1000, 100, 60000),
      (''SPLIT_RECONNECT_MAX_MS'', 10000, 100, 300000),
      (''SPLIT_RECONNECT_WINDOW_MS'', 30000, 0, 600000),
      (''SPLIT_RECONNECT_CLAMP_MS'', 2000, 0, 300000),
      (''SPLIT_TCP_KEEPALIVE_MS'', 30000, 0, 36000000),
      (''SPLIT_BOOTSTRAP_WAIT_MS'', 0, 0, 120000),
      (''SPLIT_SESSION_BUFFER_BYTES'', 256 * KiB, 4 * KiB, 16 * MiB),
      (''SPLIT_SESSION_BUFFER_TOTAL_BYTES'', 0, 0, 512 * MiB),
      (''SPLIT_LIVENESS_ROUNDS'', 0, 0, 20),
      (''SPLIT_POLICY_TOPK'', 2, 1, 8),
      (''SPLIT_TTFB_BASELINE_MS'', 0, 0, 30000),
      (''SPLIT_TARGET_DIAL_BOUND_MS'', 0, 0, 120000),
      (''SPLIT_TARGET_BREAKER_WINDOW_MS'', 0, 0, 3600000),
      (''SPLIT_TARGET_BREAKER_THRESHOLD'', 0, 0, 100000),
      (''SPLIT_TARGET_BREAKER_COOLDOWN_MS'', 0, 0, 3600000),
      (''SPLIT_TARGET_BREAKER_MAX_TARGETS'', 0, 0, 100000),
      (''SPLIT_TARGET_DIAL_BACKOFF_BASE_MS'', 0, 0, 60000),
      (''SPLIT_TARGET_DIAL_BACKOFF_MAX_MS'', 0, 0, 300000)]"

text \<open>The value of a range variable of the table, by name.\<close>

definition knob :: "environ \<Rightarrow> string \<Rightarrow> int \<times> problem list" where
  "knob env name =
     (case map_of int_knobs name of Some (dflt, mn, mx) \<Rightarrow> envInt env name dflt mn mx | None \<Rightarrow> (0, []))"

definition load_values :: "environ \<Rightarrow> LoadedConfig" where
  "load_values env =
     \<lparr>SocksListen = envString env ''SPLIT_SOCKS_LISTEN'' ''127.0.0.1:10900'',
      WsListen = envString env ''SPLIT_WS_LISTEN'' ''127.0.0.1:9001'',
      DownCarrierAddr = envString env ''SPLIT_DOWN_CARRIER_ADDR'' ''127.0.0.1:10802'',
      UpWsUrl = envString env ''SPLIT_UP_WS_URL'' DefaultUpWsUrl,
      DownListen = envString env ''SPLIT_DOWN_LISTEN'' ''127.0.0.1:9002'',
      SocksUser = envString env ''SPLIT_SOCKS_USER'' '''',
      SocksPass = envString env ''SPLIT_SOCKS_PASS'' '''',
      SocksAllowedSources = envString env ''SPLIT_SOCKS_ALLOWED_SOURCES'' '''',
      cf_Secret = envString env ''SPLIT_SECRET'' DefaultSecret,
      AllowWeakSecret = fst (envBool env ''SPLIT_ALLOW_WEAK_SECRET'' False),
      MetricsPort = fst (knob env ''SPLIT_METRICS_PORT''),
      RelayBufSize = fst (knob env ''SPLIT_RELAY_BUF''),
      QueueBytesPerStream = fst (knob env ''SPLIT_STREAM_QUEUE_BYTES''),
      QueueFramesPerStream = fst (knob env ''SPLIT_STREAM_QUEUE_FRAMES''),
      QueueBytesTotal = fst (knob env ''SPLIT_STREAM_QUEUE_TOTAL_BYTES''),
      OverflowWaitMs = fst (knob env ''SPLIT_STREAM_OVERFLOW_MS''),
      CarrierGraceMs = fst (knob env ''SPLIT_CARRIER_GRACE''),
      ReconnectBaseMs = fst (knob env ''SPLIT_RECONNECT_BASE_MS''),
      ReconnectMaxMs = fst (knob env ''SPLIT_RECONNECT_MAX_MS''),
      ReconnectWindowMs = fst (knob env ''SPLIT_RECONNECT_WINDOW_MS''),
      ReconnectClampMs = fst (knob env ''SPLIT_RECONNECT_CLAMP_MS''),
      TCPKeepAliveMs = fst (knob env ''SPLIT_TCP_KEEPALIVE_MS''),
      BootstrapWaitMs = fst (knob env ''SPLIT_BOOTSTRAP_WAIT_MS''),
      SessionBufBytes = fst (knob env ''SPLIT_SESSION_BUFFER_BYTES''),
      SessionBufTotal = fst (knob env ''SPLIT_SESSION_BUFFER_TOTAL_BYTES''),
      LivenessRounds = fst (knob env ''SPLIT_LIVENESS_ROUNDS''),
      CreditsEnabled = fst (envBool env ''SPLIT_CREDITS_ENABLED'' False),
      cf_TargetOnlyIPv4 = fst (envBool env ''SPLIT_TARGET_ONLY_IPV4'' False),
      cf_TargetAddrPolicy = envString env ''SPLIT_TARGET_ADDR_POLICY'' ''default'',
      MultiCarrierEnabled = fst (envBool env ''SPLIT_MULTI_CARRIER_ENABLED'' False),
      DownListen2 = envString env ''SPLIT_DOWN_LISTEN_2'' '''',
      DownCarrierAddr2 = envString env ''SPLIT_DOWN_CARRIER_ADDR_2'' '''',
      DownSNI2 = envString env ''SPLIT_DOWN_CARRIER2_SNI'' '''',
      cf_PolicyMode = envString env ''SPLIT_POLICY_MODE'' ''static'',
      cf_PolicyTopK = fst (knob env ''SPLIT_POLICY_TOPK''),
      ProbingEnabled = fst (envBool env ''SPLIT_PROBING_ENABLED'' False),
      ProbeURL = envString env ''SPLIT_PROBE_URL'' '''',
      ProbeDailyBudget = fst (envInt64 env ''SPLIT_PROBE_DAILY_BUDGET'' (96 * MiB)),
      TTFBBaselineMs = fst (knob env ''SPLIT_TTFB_BASELINE_MS''),
      RoutingRulesFile = envString env ''SPLIT_ROUTING_RULES_FILE'' '''',
      RoutingDefault = envString env ''SPLIT_ROUTING_DEFAULT'' '''',
      WarpSocksAddr = envString env ''SPLIT_WARP_SOCKS_ADDR'' ''127.0.0.1:40000'',
      RoutingDebug = fst (envBool env ''SPLIT_ROUTING_DEBUG'' False),
      TargetDialBoundMs = fst (knob env ''SPLIT_TARGET_DIAL_BOUND_MS''),
      TargetBreakerEnabled = fst (envBool env ''SPLIT_TARGET_BREAKER_ENABLED'' False),
      TargetBreakerWindowMs = fst (knob env ''SPLIT_TARGET_BREAKER_WINDOW_MS''),
      TargetBreakerThreshold = fst (knob env ''SPLIT_TARGET_BREAKER_THRESHOLD''),
      TargetBreakerCooldownMs = fst (knob env ''SPLIT_TARGET_BREAKER_COOLDOWN_MS''),
      TargetBreakerMaxTargets = fst (knob env ''SPLIT_TARGET_BREAKER_MAX_TARGETS''),
      TargetBackoffEnabled = fst (envBool env ''SPLIT_TARGET_DIAL_BACKOFF_ENABLED'' False),
      TargetBackoffBaseMs = fst (knob env ''SPLIT_TARGET_DIAL_BACKOFF_BASE_MS''),
      TargetBackoffMaxMs = fst (knob env ''SPLIT_TARGET_DIAL_BACKOFF_MAX_MS'')\<rparr>"

text \<open>The problems of reading, in the order the variables are read; \<open>SPLIT_ALLOW_WEAK_SECRET\<close> is the last one.\<close>

definition load_problems :: "environ \<Rightarrow> problem list" where
  "load_problems env =
     snd (knob env ''SPLIT_METRICS_PORT'') @
     snd (knob env ''SPLIT_RELAY_BUF'') @
     snd (knob env ''SPLIT_STREAM_QUEUE_BYTES'') @
     snd (knob env ''SPLIT_STREAM_QUEUE_FRAMES'') @
     snd (knob env ''SPLIT_STREAM_QUEUE_TOTAL_BYTES'') @
     snd (knob env ''SPLIT_STREAM_OVERFLOW_MS'') @
     snd (knob env ''SPLIT_CARRIER_GRACE'') @
     snd (knob env ''SPLIT_RECONNECT_BASE_MS'') @
     snd (knob env ''SPLIT_RECONNECT_MAX_MS'') @
     snd (knob env ''SPLIT_RECONNECT_WINDOW_MS'') @
     snd (knob env ''SPLIT_RECONNECT_CLAMP_MS'') @
     snd (knob env ''SPLIT_TCP_KEEPALIVE_MS'') @
     snd (knob env ''SPLIT_BOOTSTRAP_WAIT_MS'') @
     snd (knob env ''SPLIT_SESSION_BUFFER_BYTES'') @
     snd (knob env ''SPLIT_SESSION_BUFFER_TOTAL_BYTES'') @
     snd (knob env ''SPLIT_LIVENESS_ROUNDS'') @
     snd (envBool env ''SPLIT_CREDITS_ENABLED'' False) @
     snd (envBool env ''SPLIT_TARGET_ONLY_IPV4'' False) @
     snd (envBool env ''SPLIT_MULTI_CARRIER_ENABLED'' False) @
     snd (knob env ''SPLIT_POLICY_TOPK'') @
     snd (envBool env ''SPLIT_PROBING_ENABLED'' False) @
     snd (envInt64 env ''SPLIT_PROBE_DAILY_BUDGET'' (96 * MiB)) @
     snd (knob env ''SPLIT_TTFB_BASELINE_MS'') @
     snd (envBool env ''SPLIT_ROUTING_DEBUG'' False) @
     snd (knob env ''SPLIT_TARGET_DIAL_BOUND_MS'') @
     snd (envBool env ''SPLIT_TARGET_BREAKER_ENABLED'' False) @
     snd (knob env ''SPLIT_TARGET_BREAKER_WINDOW_MS'') @
     snd (knob env ''SPLIT_TARGET_BREAKER_THRESHOLD'') @
     snd (knob env ''SPLIT_TARGET_BREAKER_COOLDOWN_MS'') @
     snd (knob env ''SPLIT_TARGET_BREAKER_MAX_TARGETS'') @
     snd (envBool env ''SPLIT_TARGET_DIAL_BACKOFF_ENABLED'' False) @
     snd (knob env ''SPLIT_TARGET_DIAL_BACKOFF_BASE_MS'') @
     snd (knob env ''SPLIT_TARGET_DIAL_BACKOFF_MAX_MS'') @
     snd (envBool env ''SPLIT_ALLOW_WEAK_SECRET'' False)"

definition Load :: "libs \<Rightarrow> environ \<Rightarrow> string \<Rightarrow> problem list + LoadedConfig" where
  "Load lb env role =
     (if role \<noteq> RoleIran \<and> role \<noteq> RoleGermany then Inl [(role, UnknownRole)]
      else (let c = load_values env; problems = load_problems env @ Validate lb role c
            in if problems = [] then Inr c else Inl problems))"

section \<open>What the loader guarantees\<close>

lemma envInt_ok:
  "envInt env name dflt mn mx = (n, ps) \<Longrightarrow>
     (ps = [] \<longrightarrow> (n = dflt \<and> (env name = None \<or> env name = Some []) \<or>
        (\<exists>v. env name = Some v \<and> v \<noteq> [] \<and> Atoi64 v = Some n \<and> mn \<le> n \<and> n \<le> mx))) \<and>
     (ps \<noteq> [] \<longrightarrow> n = dflt \<and> ps = [(name, BadInt mn mx)])"
  by (auto simp: envInt_def split: option.splits if_splits)

lemma envInt_range:
  assumes "mn \<le> dflt" "dflt \<le> mx"
  shows "mn \<le> fst (envInt env name dflt mn mx) \<and> fst (envInt env name dflt mn mx) \<le> mx"
  using assms by (auto simp: envInt_def split: option.splits)

lemma int_knobs_defaults: "list_all (\<lambda>(_, d, mn, mx). mn \<le> d \<and> d \<le> mx) int_knobs \<and> distinct (map fst int_knobs)"
  by code_simp

lemma knob_range:
  assumes "map_of int_knobs name = Some (d, mn, mx)"
  shows "mn \<le> fst (knob env name) \<and> fst (knob env name) \<le> mx"
proof -
  have "mn \<le> d \<and> d \<le> mx" using int_knobs_defaults map_of_SomeD [OF assms] by (auto simp: list_all_iff)
  then show ?thesis using assms envInt_range [of mn d mx env name] by (simp add: knob_def)
qed

lemma load_problems_knobs:
  assumes "(name, d, mn, mx) \<in> set int_knobs"
  shows "set (snd (knob env name)) \<subseteq> set (load_problems env)"
  using assms unfolding int_knobs_def load_problems_def
  by (simp only: set_simps set_append insert_iff empty_iff prod.inject) blast

lemma knob_in_table:
  assumes "(name, d, mn, mx) \<in> set int_knobs"
  shows "knob env name = envInt env name d mn mx"
  using assms int_knobs_defaults by (simp add: knob_def)

lemma Load_cases:
  "Load lb env role =
     (if role \<noteq> RoleIran \<and> role \<noteq> RoleGermany then Inl [(role, UnknownRole)]
      else if load_problems env @ Validate lb role (load_values env) = [] then Inr (load_values env)
      else Inl (load_problems env @ Validate lb role (load_values env)))"
  by (simp add: Load_def Let_def)

text \<open>The variables read as booleans.\<close>

definition bool_knobs :: "string list" where
  "bool_knobs =
     [''SPLIT_CREDITS_ENABLED'', ''SPLIT_TARGET_ONLY_IPV4'', ''SPLIT_MULTI_CARRIER_ENABLED'',
      ''SPLIT_PROBING_ENABLED'', ''SPLIT_ROUTING_DEBUG'', ''SPLIT_TARGET_BREAKER_ENABLED'',
      ''SPLIT_TARGET_DIAL_BACKOFF_ENABLED'', ''SPLIT_ALLOW_WEAK_SECRET'']"

text \<open>A variable is unset, empty, or has a value the reader accepts.\<close>

definition well_set :: "environ \<Rightarrow> string \<Rightarrow> (string \<Rightarrow> bool) \<Rightarrow> bool" where
  "well_set env name P \<longleftrightarrow> (case env name of None \<Rightarrow> True | Some v \<Rightarrow> v = [] \<or> P v)"

definition int_value :: "int \<Rightarrow> int \<Rightarrow> string \<Rightarrow> bool" where
  "int_value mn mx v \<longleftrightarrow> (case Atoi64 v of None \<Rightarrow> False | Some n \<Rightarrow> mn \<le> n \<and> n \<le> mx)"

lemma envInt_problem: "snd (envInt env name d mn mx) = (if well_set env name (int_value mn mx) then [] else [(name, BadInt mn mx)])"
  by (auto simp: envInt_def well_set_def int_value_def split: option.splits)

lemma envBool_problem: "snd (envBool env name d) = (if well_set env name (\<lambda>v. ParseBool v \<noteq> None) then [] else [(name, BadBool)])"
  by (auto simp: envBool_def well_set_def split: option.splits)

lemma envInt64_problem: "snd (envInt64 env name d) = (if well_set env name (\<lambda>v. Atoi64 v \<noteq> None) then [] else [(name, BadInt64)])"
  by (auto simp: envInt64_def well_set_def split: option.splits)

lemma set_load_problems:
  "set (load_problems env) =
     (\<Union>(name, _) \<in> set int_knobs. set (snd (knob env name))) \<union>
     (\<Union>name \<in> set bool_knobs. set (snd (envBool env name False))) \<union>
     set (snd (envInt64 env ''SPLIT_PROBE_DAILY_BUDGET'' (96 * MiB)))"
  unfolding load_problems_def int_knobs_def bool_knobs_def
  by (simp only: set_append set_simps UN_insert UN_empty prod.case Un_empty_right) blast

lemma load_problems_iff:
  "load_problems env = [] \<longleftrightarrow>
     (\<forall>(name, d, mn, mx) \<in> set int_knobs. well_set env name (int_value mn mx)) \<and>
     (\<forall>name \<in> set bool_knobs. well_set env name (\<lambda>v. ParseBool v \<noteq> None)) \<and>
     well_set env ''SPLIT_PROBE_DAILY_BUDGET'' (\<lambda>v. Atoi64 v \<noteq> None)"
proof -
  have k: "(\<forall>(name, d, mn, mx) \<in> set int_knobs. snd (knob env name) = []) \<longleftrightarrow>
      (\<forall>(name, d, mn, mx) \<in> set int_knobs. well_set env name (int_value mn mx))"
    by (rule ball_cong [OF refl]) (auto simp: knob_in_table envInt_problem split: if_splits)
  have "load_problems env = [] \<longleftrightarrow> set (load_problems env) = {}" by simp
  also have "\<dots> \<longleftrightarrow> (\<forall>(name, d, mn, mx) \<in> set int_knobs. snd (knob env name) = []) \<and>
      (\<forall>name \<in> set bool_knobs. snd (envBool env name False) = []) \<and>
      snd (envInt64 env ''SPLIT_PROBE_DAILY_BUDGET'' (96 * MiB)) = []"
    unfolding set_load_problems by auto
  finally show ?thesis unfolding k by (simp add: envBool_problem envInt64_problem)
qed

text \<open>Only reading a variable reports a range.\<close>

definition no_range :: "problem list \<Rightarrow> bool" where
  "no_range ps \<longleftrightarrow> (\<forall>name mn mx. (name, BadInt mn mx) \<notin> set ps)"

lemma no_range_simps [simp]:
  "no_range []" "no_range (ps @ qs) \<longleftrightarrow> no_range ps \<and> no_range qs"
  "no_range ((name, k) # ps) \<longleftrightarrow> (\<forall>mn mx. k \<noteq> BadInt mn mx) \<and> no_range ps"
  by (auto simp: no_range_def)

lemma no_range_checks [simp]:
  "no_range (checkHostPort name addr h)" "no_range (checkNotReservedCarrierPort name addr)" "no_range (checkWsUrl lb raw)"
  "no_range (checkSocksAllowedSources raw)" "no_range (range_problem name bad)" "no_range (metrics_collisions role c)"
  by (simp_all add: checkHostPort_def checkNotReservedCarrierPort_def checkWsUrl_def checkSocksAllowedSources_def
      range_problem_def Let_def split: option.split)
    (auto simp: no_range_def metrics_collisions_def)

lemma no_range_Validate: "no_range (Validate lb role c)"
proof -
  have "no_range (check_credentials c)" "no_range (checkRouting lb c)"
    by (simp_all add: check_credentials_def checkRouting_def)
  moreover have "no_range (validate_bounds c)" by (simp add: validate_bounds_def)
  moreover have "no_range (validate_policy lb c)" by (simp add: validate_policy_def split: option.split)
  ultimately show ?thesis by (simp add: Validate_def validate_iran_def validate_germany_def)
qed

lemma weak_secret_reported:
  assumes "role = RoleIran \<or> role = RoleGermany" and "ValidateSecretMaterial (cf_Secret c) (AllowWeakSecret c) \<noteq> None"
  shows "(''SPLIT_SECRET'', WeakSecret) \<in> set (Validate lb role c)"
  using assms by (auto simp: Validate_def validate_policy_def)


text \<open>The loader reports every problem at once: for a known role, if some numeric variable has a
  value that is not a number of its range, or the validation of the values read finds
  something, the load fails with a list that has a problem for each such
  variable, with the accepted range, and every problem of the validation; a malformed value does not hide another.\<close>

lemma load_reports_every_problem:
  assumes "role = RoleIran \<or> role = RoleGermany"
    and "B = {(name, BadInt mn mx) | name d mn mx. (name, d, mn, mx) \<in> set int_knobs \<and> \<not> well_set env name (int_value mn mx)}"
    and "B \<union> set (Validate lb role (load_values env)) \<noteq> {}"
  shows "\<exists>ps. Load lb env role = Inl ps \<and> B \<union> set (Validate lb role (load_values env)) \<subseteq> set ps \<and>
     (\<forall>name mn mx. (name, BadInt mn mx) \<in> set ps \<longrightarrow> (name, BadInt mn mx) \<in> B)"
proof -
  let ?ps = "load_problems env @ Validate lb role (load_values env)"
  have B: "B \<subseteq> set (load_problems env)"
    using assms(2) load_problems_knobs [of _ _ _ _ env] by (fastforce simp: knob_in_table envInt_problem)
  then have "?ps \<noteq> []" using assms(3) by auto
  then have "Load lb env role = Inl ?ps" using assms(1) by (auto simp: Load_cases)
  moreover have "(name, BadInt mn mx) \<in> B" if "(name, BadInt mn mx) \<in> set ?ps" for name mn mx
  proof -
    have "(name, BadInt mn mx) \<notin> set (Validate lb role (load_values env))"
      using no_range_Validate by (simp add: no_range_def)
    then have "(name, BadInt mn mx) \<in> set (load_problems env)" using that by simp
    then show ?thesis
      unfolding set_load_problems assms(2)
      by (auto simp: knob_in_table envInt_problem envBool_problem envInt64_problem split: if_splits)
  qed
  ultimately show ?thesis using B by auto
qed

definition demo_libs :: libs where
  "demo_libs = \<lparr>url_Parse = (\<lambda>u. if u = ''wss://up.example.org/upload'' then Some (''wss'', ''up.example.org'', ''/upload'') else None),
     url_ParseRequestURI = (\<lambda>_. None), rules_file = (\<lambda>_. None)\<rparr>"

definition demo_env :: environ where
  "demo_env = map_of [(''SPLIT_SECRET'', ''0123456789abcdef0123456789abcdef''), (''SPLIT_CARRIER_GRACE'', ''8000'')]"

definition demo_config :: LoadedConfig where
  "demo_config =
     \<lparr>SocksListen = ''127.0.0.1:10900'', WsListen = ''127.0.0.1:9001'', DownCarrierAddr = ''127.0.0.1:10802'',
      UpWsUrl = DefaultUpWsUrl, DownListen = ''127.0.0.1:9002'', SocksUser = [], SocksPass = [], SocksAllowedSources = [],
      cf_Secret = ''0123456789abcdef0123456789abcdef'', AllowWeakSecret = False, MetricsPort = 0, RelayBufSize = 32768,
      QueueBytesPerStream = 0, QueueFramesPerStream = 0, QueueBytesTotal = 0, OverflowWaitMs = 0, CarrierGraceMs = 8000,
      ReconnectBaseMs = 1000, ReconnectMaxMs = 10000, ReconnectWindowMs = 30000, ReconnectClampMs = 2000,
      TCPKeepAliveMs = 30000, BootstrapWaitMs = 0, SessionBufBytes = 262144, SessionBufTotal = 0, LivenessRounds = 0,
      CreditsEnabled = False, cf_TargetOnlyIPv4 = False, cf_TargetAddrPolicy = ''default'', MultiCarrierEnabled = False,
      DownListen2 = [], DownCarrierAddr2 = [], DownSNI2 = [], cf_PolicyMode = ''static'', cf_PolicyTopK = 2,
      ProbingEnabled = False, ProbeURL = [], ProbeDailyBudget = 100663296, TTFBBaselineMs = 0, RoutingRulesFile = [],
      RoutingDefault = [], WarpSocksAddr = ''127.0.0.1:40000'', RoutingDebug = False, TargetDialBoundMs = 0,
      TargetBreakerEnabled = False, TargetBreakerWindowMs = 0, TargetBreakerThreshold = 0, TargetBreakerCooldownMs = 0,
      TargetBreakerMaxTargets = 0, TargetBackoffEnabled = False, TargetBackoffBaseMs = 0, TargetBackoffMaxMs = 0\<rparr>"

lemma demo_env_values: "load_values demo_env = demo_config"
  by code_simp

lemma demo_env_problems: "load_problems demo_env = []"
  by code_simp

lemma demo_ports:
  "checkHostPort n ''127.0.0.1:10900'' True = []" "checkHostPort n ''127.0.0.1:9001'' False = []"
  "checkHostPort n ''127.0.0.1:10802'' True = []" "conflict ''127.0.0.1:10900'' ''127.0.0.1:9001'' = False"
  by code_simp+

lemma no_sources: "checkSocksAllowedSources [] = []"
  by code_simp

lemma demo_secret: "ValidateSecretMaterial ''0123456789abcdef0123456789abcdef'' False = None"
  by code_simp

lemma demo_config_parts:
  "validate_iran demo_config = []" "metrics_collisions RoleIran demo_config = []" "validate_bounds demo_config = []"
  "validate_policy demo_libs demo_config = []"
  by (simp_all add: validate_iran_def demo_config_def demo_ports demo_secret check_credentials_def no_sources
      metrics_collisions_def validate_bounds_def validate_policy_def range_problem_def)

lemma demo_config_valid: "Validate demo_libs RoleIran demo_config = []"
  by (simp add: Validate_def demo_config_parts)


text \<open>Two wrong numbers and a missing secret are reported together.\<close>

definition bad_env :: environ where
  "bad_env = map_of [(''SPLIT_CARRIER_GRACE'', ''8s''), (''SPLIT_RELAY_BUF'', ''12'')]"

lemma bad_env_read: "envString bad_env ''SPLIT_SECRET'' DefaultSecret = DefaultSecret"
    "fst (envBool bad_env ''SPLIT_ALLOW_WEAK_SECRET'' False) = False"
  by code_simp+

lemma bad_env_values: "cf_Secret (load_values bad_env) = DefaultSecret" "AllowWeakSecret (load_values bad_env) = False"
  using bad_env_read by (simp_all only: load_values_def LoadedConfig.select_convs)

lemma bad_env_knobs: "\<not> well_set bad_env ''SPLIT_CARRIER_GRACE'' (int_value 500 600000)"
    "\<not> well_set bad_env ''SPLIT_RELAY_BUF'' (int_value 1024 (8 * MiB))"
  by code_simp+

lemma bad_env_secret: "ValidateSecretMaterial DefaultSecret False = Some ErrSecretKnownWeak"
  by code_simp

lemma load_reports_every_problem_witness:
  "\<exists>ps. Load demo_libs bad_env RoleIran = Inl ps \<and> (''SPLIT_CARRIER_GRACE'', BadInt 500 600000) \<in> set ps \<and>
     (''SPLIT_RELAY_BUF'', BadInt 1024 (8 * MiB)) \<in> set ps \<and> (''SPLIT_SECRET'', WeakSecret) \<in> set ps"
proof -
  define B where "B = {(name, BadInt mn mx) | name d mn mx. (name, d, mn, mx) \<in> set int_knobs \<and> \<not> well_set bad_env name (int_value mn mx)}"
  define V where "V = set (Validate demo_libs RoleIran (load_values bad_env))"
  have "(''SPLIT_CARRIER_GRACE'', 5000, 500, 600000) \<in> set int_knobs" "(''SPLIT_RELAY_BUF'', 32768, 1024, 8 * MiB) \<in> set int_knobs"
    by (simp_all add: int_knobs_def)
  then have B: "(''SPLIT_CARRIER_GRACE'', BadInt 500 600000) \<in> B" "(''SPLIT_RELAY_BUF'', BadInt 1024 (8 * MiB)) \<in> B"
    using bad_env_knobs unfolding B_def by blast+
  have "ValidateSecretMaterial (cf_Secret (load_values bad_env)) (AllowWeakSecret (load_values bad_env)) \<noteq> None"
    unfolding bad_env_values bad_env_secret by (rule option.distinct)
  then have V: "(''SPLIT_SECRET'', WeakSecret) \<in> V"
    unfolding V_def by (rule weak_secret_reported [OF disjI1 [OF refl]])
  then have ne: "B \<union> V \<noteq> {}" by auto
  obtain ps where "Load demo_libs bad_env RoleIran = Inl ps" "B \<union> V \<subseteq> set ps"
    using load_reports_every_problem [of RoleIran B bad_env demo_libs, OF disjI1 [OF refl] B_def, folded V_def, OF ne] by auto
  then show ?thesis using B V by auto
qed

end
