(* ===== verification/Startup.thy ===== *)
theory Startup
  imports Config NodeRun Governor Egress
begin

text \<open>
  From the environment to a running splitter (\<^verbatim>\<open>src/cmd/germany-splitter/main.go\<close>,
  \<^verbatim>\<open>src/cmd/iran-splitter/main.go\<close>): the configuration is loaded, the routing engine built
  when a rules file is named, and the loaded values are mapped onto the configuration of the
  node, of its target dial governor and of the reconnect schedule. \<open>start_splitter\<close> is the part
  of \<open>main\<close> before the first listener opens; each of its errors ends the process. The keep-alive
  interval has no variable and is the constant of \<open>Defaults\<close>. Log lines are not modelled.
\<close>

section \<open>Wiring\<close>

definition activeTargetAddrPolicy :: "bool \<Rightarrow> string \<Rightarrow> string" where
  "activeTargetAddrPolicy onlyIPv4 policy =
     (if onlyIPv4 \<or> policy = ''ipv4-only'' then ''ipv4-only''
      else if policy = ''prefer-ipv4'' then ''prefer-ipv4''
      else ''default'')"

definition downCarrierIDs :: "LoadedConfig \<Rightarrow> CarrierID list" where
  "downCarrierIDs c =
     (if MultiCarrierEnabled c then [DefaultDownCarrierID, SecondDownCarrierID] else [DefaultDownCarrierID])"

definition nodePolicyConfig :: "LoadedConfig \<Rightarrow> PolicyConfig" where
  "nodePolicyConfig c =
     (let pc = PolicyConfigDefaults
          \<lparr>pc_Mode := cf_PolicyMode c, TopK := cf_PolicyTopK c, PolicyConfig.ProbingEnabled := LoadedConfig.ProbingEnabled c,
           PolicyConfig.ProbeURL := LoadedConfig.ProbeURL c, ProbeDailyBudgetBytes := ProbeDailyBudget c\<rparr>
      in if TTFBBaselineMs c > 0 then pc\<lparr>TTFBBaseline := TTFBBaselineMs c * 1000000\<rparr> else pc)"

definition streamLimits :: "LoadedConfig \<Rightarrow> StreamLimits" where
  "streamLimits c =
     \<lparr>MaxFramesPerStream = QueueFramesPerStream c, MaxBytesPerStream = QueueBytesPerStream c,
      MaxBytesTotal = QueueBytesTotal c, OverflowWait = OverflowWaitMs c * 1000000, ConsumerStall = 0\<rparr>"

definition reconnectBackoff :: "LoadedConfig \<Rightarrow> Backoff" where
  "reconnectBackoff c =
     NewBounded (ReconnectBaseMs c * 1000000) (ReconnectMaxMs c * 1000000)
       (ReconnectWindowMs c * 1000000) (ReconnectClampMs c * 1000000)"

definition governor_config :: "LoadedConfig \<Rightarrow> GovernorConfig" where
  "governor_config c =
     \<lparr>gc_BoundedTimeout = TargetDialBoundMs c * 1000000, gc_BreakerEnabled = TargetBreakerEnabled c,
      gc_FailureWindow = TargetBreakerWindowMs c * 1000000, gc_FailureThreshold = TargetBreakerThreshold c,
      gc_Cooldown = TargetBreakerCooldownMs c * 1000000, gc_BackoffEnabled = TargetBackoffEnabled c,
      gc_BackoffBase = TargetBackoffBaseMs c * 1000000, gc_BackoffMax = TargetBackoffMaxMs c * 1000000,
      gc_MaxTargets = TargetBreakerMaxTargets c\<rparr>"

text \<open>\<open>dial\<close> is the dial function of the routing engine, when there is one.\<close>

definition node_config :: "Role \<Rightarrow> LoadedConfig \<Rightarrow> dial_fn option \<Rightarrow> Node.Config" where
  "node_config role c dial =
     \<lparr>cfg_Role = role, Grace = CarrierGraceMs c * 1000000, BufferBytes = SessionBufBytes c,
      SessionBufferTotalBytes = SessionBufTotal c, Node.Config.RelayBufSize = LoadedConfig.RelayBufSize c,
      KeepAliveInterval = 30 * 1000000000, Node.Config.LivenessRounds = LoadedConfig.LivenessRounds c,
      BootstrapWait = BootstrapWaitMs c * 1000000, cfg_StreamLimits = streamLimits c,
      Node.Config.CreditsEnabled = LoadedConfig.CreditsEnabled c, TargetOnlyIPv4 = cf_TargetOnlyIPv4 c,
      TargetAddrPolicy = cf_TargetAddrPolicy c, TargetDial = dial, DownCarrierIDs = downCarrierIDs c,
      PolicyCfg = nodePolicyConfig c, Node.Config.TCPKeepAliveMs = LoadedConfig.TCPKeepAliveMs c\<rparr>"

section \<open>The routing engine\<close>

datatype startup_error =
  BadConfig "problem list" | BadRulesFile | BadRouting routing_error | BadNode config_error

text \<open>The engine with the two switches of its direct dialer.\<close>

definition buildRoutingEngine :: "libs \<Rightarrow> LoadedConfig \<Rightarrow> startup_error + (Engine \<times> bool \<times> bool)" where
  "buildRoutingEngine lb c =
     (case LoadRulesFile lb (RoutingRulesFile c) of
        None \<Rightarrow> Inl BadRulesFile
      | Some rs \<Rightarrow>
          (case (if RoutingDefault c \<noteq> [] then Sanitize (rs\<lparr>DefaultAction := RoutingDefault c\<rparr>) else Inr rs) of
             Inl e \<Rightarrow> Inl (BadRouting e)
           | Inr rs' \<Rightarrow>
               (let activePolicy = activeTargetAddrPolicy (cf_TargetOnlyIPv4 c) (cf_TargetAddrPolicy c)
                in case engine_New (Some rs') True (WarpSocksAddr c) False of
                     Inl e \<Rightarrow> Inl (BadRouting e)
                   | Inr e \<Rightarrow> Inr (e, activePolicy = ''ipv4-only'', activePolicy = ''prefer-ipv4''))))"

section \<open>Start\<close>

record splitter =
  sp_cfg :: LoadedConfig
  sp_node :: Node
  sp_engine :: "(Engine \<times> bool \<times> bool) option"
  sp_governor :: "TargetDialGovernor option"

definition start_splitter :: "libs \<Rightarrow> environ \<Rightarrow> Role \<Rightarrow> startup_error + splitter" where
  "start_splitter lb env role =
     (case Load lb env (if role = Node.RoleIran then ''iran'' else ''germany'') of
        Inl ps \<Rightarrow> Inl (BadConfig ps)
      | Inr c \<Rightarrow>
          (case (if role = Node.RoleGermany \<and> RoutingRulesFile c \<noteq> []
                 then (case buildRoutingEngine lb c of Inl e \<Rightarrow> Inl e | Inr x \<Rightarrow> Inr (Some x)) else Inr None) of
             Inl e \<Rightarrow> Inl e
           | Inr eng \<Rightarrow>
               (case NewNode (node_config role c (if eng = None then None else Some (CustomDial 0))) of
                  Inl e \<Rightarrow> Inl (BadNode e)
                | Inr n \<Rightarrow> Inr \<lparr>sp_cfg = c, sp_node = n, sp_engine = eng,
                               sp_governor = BuildTargetDialGovernor (governor_config c)\<rparr>)))"

text \<open>The addresses the process listens on: the metrics listener, when enabled, and those of the role.\<close>

definition own_listeners :: "Role \<Rightarrow> LoadedConfig \<Rightarrow> string list" where
  "own_listeners role c =
     (if MetricsPort c > 0 then [metricsListenAddr (MetricsPort c)] else []) @
     (if role = Node.RoleIran then [WsListen c, SocksListen c]
      else DownListen c # (if MultiCarrierEnabled c then [DownListen2 c] else []))"

section \<open>Lemmas\<close>

text \<open>Validating a validated rule set again changes nothing.\<close>

lemma set_domain_fix:
  "set_domain s = Inr s \<longleftrightarrow> m_Domain (r_Match s) = [] \<or> validateDomain (m_Domain (r_Match s)) = None \<and>
     (if HasPrefix (ToLower (m_Domain (r_Match s))) ''.''
      then mDom s = drop 1 (ToLower (m_Domain (r_Match s))) \<and> mDomSuffix s else mDom s = ToLower (m_Domain (r_Match s)))"
  by (cases s) (auto simp: set_domain_def Let_def split: option.split)

lemma set_domain_result:
  assumes "set_domain r = Inr r'" and "m_Domain (r_Match r) \<noteq> []"
  shows "validateDomain (m_Domain (r_Match r)) = None \<and>
     (if HasPrefix (ToLower (m_Domain (r_Match r))) ''.''
      then mDom r' = drop 1 (ToLower (m_Domain (r_Match r))) \<and> mDomSuffix r' else mDom r' = ToLower (m_Domain (r_Match r)))"
proof (cases "validateDomain (m_Domain (r_Match r))")
  case None
  then show ?thesis using assms
    by (cases "HasPrefix (ToLower (m_Domain (r_Match r))) ''.''") (auto simp: set_domain_def Let_def)
next
  case (Some e)
  then show ?thesis using assms by (simp add: set_domain_def)
qed

lemma set_domain_idem:
  assumes "set_domain r = Inr r'" and "r_Match s = r_Match r'" and "mDom s = mDom r'" and "mDomSuffix s = mDomSuffix r'"
  shows "set_domain s = Inr s"
proof -
  have m: "r_Match s = r_Match r" using assms(2) set_domain_keeps [OF assms(1)] by simp
  show ?thesis unfolding set_domain_fix m using set_domain_result [OF assms(1)] assms(3,4) by metis
qed

lemma set_cidr_idem:
  assumes "set_cidr r = Inr r'"
  shows "set_cidr r' = Inr r'"
  using assms by (auto simp: set_cidr_def split: if_splits option.splits)

lemma validateRule_idem:
  assumes "validateRule r = Inr r'"
  shows "validateRule r' = Inr r'"
proof -
  from assms obtain r1 where d: "set_domain r = Inr r1"
      and k: "set_cidr (r1\<lparr>mKW := ToLower (m_Keyword (r_Match r1))\<rparr>) = Inr r'" and p: "check_ports (r_Match r') = None"
    by (rule validateRule_Inr)
  have m: "r_Match r' = r_Match r1" "mDom r' = mDom r1" "mDomSuffix r' = mDomSuffix r1"
      "mKW r' = ToLower (m_Keyword (r_Match r1))" "r_Match r1 = r_Match r" "r_Action r' = r_Action r" "r_Fallback r' = r_Fallback r"
    using set_cidr_keeps [OF k] set_domain_keeps [OF d] by simp_all
  have kw: "r'\<lparr>mKW := ToLower (m_Keyword (r_Match r'))\<rparr> = r'" using m by (cases r') simp
  have "set_domain r' = Inr r'" using set_domain_idem [OF d, of r'] m by simp
  moreover have "r_Action r \<noteq> []" "ParseOutboundKind (r_Action r) \<noteq> None"
      "r_Fallback r = [] \<or> r_Fallback r = ''direct''" "r_Fallback r = [] \<or> r_Action r = ''warp''"
      "\<not> (m_Domain (r_Match r) = [] \<and> m_Keyword (r_Match r) = [] \<and> m_IPCIDR (r_Match r) = [])"
    using assms unfolding validateRule_def by (simp_all split: if_split_asm)
  ultimately show ?thesis
    using kw set_cidr_idem [OF k] p m(5-7) unfolding validateRule_def m(1) [symmetric] by (simp add: m(1))
qed

lemma sanitize_rules_length:
  "sanitize_rules i seen rs = Inr rs' \<Longrightarrow> length rs' = length rs"
  by (induction rs arbitrary: i seen rs') (auto split: if_splits sum.splits)

lemma sanitize_rules_idem:
  assumes "sanitize_rules i seen rs = Inr rs'"
  shows "sanitize_rules i seen rs' = Inr rs'"
  using assms
proof (induction rs arbitrary: i seen rs')
  case (Cons r rs)
  then obtain r' rs1 where "validateRule r = Inr r'" "sanitize_rules (i + 1) (r_ID r # seen) rs = Inr rs1" "rs' = r' # rs1"
    by (auto split: if_splits sum.splits)
  then show ?case using Cons validateRule_idem validateRule_keeps by (auto split: if_splits)
qed simp

lemma Sanitize_idem:
  assumes "Sanitize rs0 = Inr rs" and "a = ''direct'' \<or> a = ''warp''"
  shows "Sanitize (rs\<lparr>DefaultAction := a\<rparr>) = Inr (rs\<lparr>DefaultAction := a\<rparr>)"
proof -
  obtain rules where r: "sanitize_rules 0 [] (Rules rs0) = Inr rules" "Rules rs = rules" "rs_Version rs = 1" "length (Rules rs0) \<le> MaxRules"
    using assms(1) by (auto simp: Sanitize_def Let_def split: if_splits sum.splits)
  have "length rules \<le> MaxRules"
    using r by (metis sanitize_rules_length)
  then show ?thesis
    using r assms(2) sanitize_rules_idem [OF r(1)]
    by (cases rs) (auto simp: Sanitize_def Let_def ParseOutboundKind_def)
qed

text \<open>What the validation of the role leaves to the start.\<close>

lemma accepted:
  assumes "Load lb env r = Inr c"
  shows "Validate lb r c = []" and "c = load_values env" and "r = ''iran'' \<or> r = ''germany''"
  using assms by (auto simp: Load_cases split: if_splits)

lemma accepted_policy:
  assumes "Load lb env r = Inr c"
  shows "cf_TargetAddrPolicy c \<in> set ['''', ''default'', ''prefer-ipv4'', ''ipv4-only'']"
    and "\<not> (cf_TargetOnlyIPv4 c \<and> cf_TargetAddrPolicy c = ''prefer-ipv4'')"
    and "MultiCarrierEnabled c \<longrightarrow> LoadedConfig.ProbingEnabled c \<longrightarrow> LoadedConfig.ProbeURL c \<noteq> []"
proof -
  have v: "validate_policy lb c = []" using accepted [OF assms] by (auto simp: Validate_def)
  then show "cf_TargetAddrPolicy c \<in> set ['''', ''default'', ''prefer-ipv4'', ''ipv4-only'']"
    and "\<not> (cf_TargetOnlyIPv4 c \<and> cf_TargetAddrPolicy c = ''prefer-ipv4'')"
    unfolding validate_policy_def by (simp_all split: if_split_asm)
  have "TrimSpace [] = []" by code_simp
  then show "MultiCarrierEnabled c \<longrightarrow> LoadedConfig.ProbingEnabled c \<longrightarrow> LoadedConfig.ProbeURL c \<noteq> []"
    using v unfolding validate_policy_def by (auto split: if_split_asm)
qed

lemma load_values_env:
  "WarpSocksAddr (load_values env) = envString env ''SPLIT_WARP_SOCKS_ADDR'' ''127.0.0.1:40000''"
  "LoadedConfig.TCPKeepAliveMs (load_values env) = fst (knob env ''SPLIT_TCP_KEEPALIVE_MS'')"
  by (simp_all only: load_values_def LoadedConfig.select_convs)

lemma accepted_keepalive:
  assumes "Load lb env r = Inr c"
  shows "LoadedConfig.TCPKeepAliveMs c \<ge> 0"
proof -
  have "map_of int_knobs ''SPLIT_TCP_KEEPALIVE_MS'' = Some (30000, 0, 36000000)" by code_simp
  from knob_range [OF this] show ?thesis by (simp add: accepted(2) [OF assms] load_values_env)
qed

lemma accepted_warp:
  assumes "Load lb env r = Inr c"
  shows "WarpSocksAddr c \<noteq> []"
  by (auto simp: accepted(2) [OF assms] load_values_env envString_def split: option.split)

lemma streamLimits_sanitized:
  "SanitizeLimits (streamLimits c) =
     (let p = pos (704 * KiB) (QueueBytesPerStream c); t = pos (16 * MiB) (QueueBytesTotal c)
      in if p \<le> t
         then Inr \<lparr>MaxFramesPerStream = (if QueueFramesPerStream c \<le> 0 \<or> QueueFramesPerStream c > MaxFrames then MaxFrames
                                        else QueueFramesPerStream c),
                   MaxBytesPerStream = p, MaxBytesTotal = t, OverflowWait = pos 100000000 (OverflowWaitMs c * 1000000),
                   ConsumerStall = 30000000000\<rparr>
         else Inl (ErrLimits t p))"
  by (simp add: SanitizeLimits_def streamLimits_def DefaultStreamLimits_def pos_def Let_def)

lemma sanitizePolicy_probing:
  "PolicyConfig.ProbingEnabled (sanitizePolicyConfig p) = PolicyConfig.ProbingEnabled p"
  "PolicyConfig.ProbeURL (sanitizePolicyConfig p) = PolicyConfig.ProbeURL p"
  by (simp_all add: sanitizePolicyConfig_def Let_def)

lemma nodePolicy_probing:
  "PolicyConfig.ProbingEnabled (nodePolicyConfig c) = LoadedConfig.ProbingEnabled c"
  "PolicyConfig.ProbeURL (nodePolicyConfig c) = LoadedConfig.ProbeURL c"
  by (simp_all add: nodePolicyConfig_def Let_def)

lemma node_config_starts:
  assumes "Load lb env r = Inr c"
  shows "if pos (704 * KiB) (QueueBytesPerStream c) \<le> pos (16 * MiB) (QueueBytesTotal c)
     then \<exists>n k. config_Sanitize (node_config role c d) = Inr k \<and> NewNode (node_config role c d) = Inr n \<and> n_cfg n = k \<and>
       SanitizeLimits (streamLimits c) = Inr (cfg_StreamLimits k)
     else NewNode (node_config role c d) =
       Inl (BadLimits (ErrLimits (pos (16 * MiB) (QueueBytesTotal c)) (pos (704 * KiB) (QueueBytesPerStream c))))"
proof (cases "pos (704 * KiB) (QueueBytesPerStream c) \<le> pos (16 * MiB) (QueueBytesTotal c)")
  case False
  then show ?thesis
    by (simp add: NewNode_def config_Sanitize_def node_config_def streamLimits_sanitized Let_def)
next
  case True
  then obtain l where l: "SanitizeLimits (streamLimits c) = Inr l" by (simp add: streamLimits_sanitized Let_def)
  have pol: "cf_TargetAddrPolicy c \<noteq> '''' \<longrightarrow> validTargetAddrPolicy (cf_TargetAddrPolicy c)"
    using accepted_policy(1) [OF assms] by (auto simp: validTargetAddrPolicy_def)
  obtain k where k: "config_Sanitize (node_config role c d) = Inr k" "cfg_StreamLimits k = l"
      "DownCarrierIDs k = downCarrierIDs c" "PolicyCfg k = nodePolicyConfig c"
    using l pol accepted_keepalive [OF assms] by (auto simp: config_Sanitize_def node_config_def Let_def not_less)
  have "\<exists>n. NewNode (node_config role c d) = Inr n \<and> n_cfg n = k"
  proof (cases "MultiCarrierEnabled c")
    case False
    then have "SingleEntry (newDownRegistry (downCarrierIDs c))"
      by (simp add: downCarrierIDs_def newDownRegistry_def newCarrierRegistry_def SingleEntry_def)
    then show ?thesis by (simp add: NewNode_def k Let_def)
  next
    case True
    then have "\<not> (LoadedConfig.ProbingEnabled c \<and> LoadedConfig.ProbeURL c = '''')"
      using accepted_policy(3) [OF assms] by simp
    then obtain p where "NewPolicy (nodePolicyConfig c) (KnownIDs (newDownRegistry (downCarrierIDs c))) = Inr p"
      by (auto simp: NewPolicy_def Let_def sanitizePolicy_probing nodePolicy_probing)
    then show ?thesis by (simp add: NewNode_def k Let_def)
  qed
  then show ?thesis using True k l by auto
qed

lemma engine_builds:
  assumes "Load lb env ''germany'' = Inr c" and "RoutingRulesFile c \<noteq> []"
  shows "\<exists>e rs0 rs. buildRoutingEngine lb c =
       Inr (e, cf_TargetOnlyIPv4 c \<or> cf_TargetAddrPolicy c = ''ipv4-only'', cf_TargetAddrPolicy c = ''prefer-ipv4'') \<and>
     rules_file lb (RoutingRulesFile c) = Some rs0 \<and> Sanitize rs0 = Inr rs \<and>
     e_rs e = (if RoutingDefault c = [] then rs else rs\<lparr>DefaultAction := RoutingDefault c\<rparr>) \<and>
     e_warpAddr e = WarpSocksAddr c \<and> e_warpProto e"
proof -
  have "checkRouting lb c = []" using accepted(1) [OF assms(1)] by (simp add: Validate_def validate_germany_def)
  then have d: "RoutingDefault c \<in> set ['''', ''direct'', ''warp'']" and r: "LoadRulesFile lb (RoutingRulesFile c) \<noteq> None"
    using assms(2) unfolding checkRouting_def by (simp_all split: if_split_asm)
  obtain rs0 rs where rs: "rules_file lb (RoutingRulesFile c) = Some rs0" "Sanitize rs0 = Inr rs"
    using r by (auto simp: LoadRulesFile_def split: option.splits sum.splits)
  let ?rs = "if RoutingDefault c = [] then rs else rs\<lparr>DefaultAction := RoutingDefault c\<rparr>"
  have s: "(if RoutingDefault c \<noteq> [] then Sanitize (rs\<lparr>DefaultAction := RoutingDefault c\<rparr>) else Inr rs) = Inr ?rs"
    using d Sanitize_idem [OF rs(2)] by auto
  have l: "LoadRulesFile lb (RoutingRulesFile c) = Some rs" by (simp add: LoadRulesFile_def rs)
  have e: "engine_New (Some ?rs) True (WarpSocksAddr c) False = Inr \<lparr>e_rs = ?rs, e_warpAddr = WarpSocksAddr c, e_warpProto = True\<rparr>"
    using accepted_warp [OF assms(1)] by (simp add: engine_New_def Let_def)
  have "\<not> (cf_TargetOnlyIPv4 c \<and> cf_TargetAddrPolicy c = ''prefer-ipv4'')" by (rule accepted_policy(2) [OF assms(1)])
  then show ?thesis
    unfolding buildRoutingEngine_def l option.case s sum.case Let_def e using rs
    by (auto simp: activeTargetAddrPolicy_def)
qed

section \<open>The metrics address\<close>

lemma digit_char:
  assumes "n < 10"
  shows "digit_val (char_of (48 + n)) = Some n" and "char_of (48 + n) \<notin> set '':[]+-''"
proof -
  have "list_all (\<lambda>n. digit_val (char_of (48 + n)) = Some n \<and> char_of (48 + n) \<notin> set '':[]+-'') [0..<10]" by code_simp
  then show "digit_val (char_of (48 + n)) = Some n" "char_of (48 + n) \<notin> set '':[]+-''"
    using assms by (simp_all add: list_all_iff)
qed

lemma dec_val_append: "dec_val (s @ t) acc = (case dec_val s acc of None \<Rightarrow> None | Some n \<Rightarrow> dec_val t n)"
  by (induction s arbitrary: acc) (auto split: option.split)

lemma digits_ne [simp]: "digits n \<noteq> []"
  by (subst digits.simps) simp

lemma dec_val_digits: "dec_val (digits n) 0 = Some n"
proof (induction n rule: less_induct)
  case (less n)
  show ?case
  proof (cases "n < 10")
    case True
    then show ?thesis using digit_char [OF True] by (simp add: digits.simps [of n])
  next
    case False
    then have "digits n = digits (n div 10) @ [char_of (48 + n mod 10)]" by (simp add: digits.simps [of n])
    moreover have "dec_val (digits (n div 10)) 0 = Some (n div 10)" using False by (intro less) simp
    ultimately show ?thesis using digit_char(1) [of "n mod 10"] by (simp add: dec_val_append)
  qed
qed

lemma digits_chars: "c \<in> set (digits n) \<Longrightarrow> c \<notin> set '':[]+-''"
proof (induction n rule: less_induct)
  case (less n)
  show ?case
  proof (cases "n < 10")
    case True
    then show ?thesis using less.prems digit_char(2) [OF True] by (simp add: digits.simps [of n])
  next
    case False
    then have "digits n = digits (n div 10) @ [char_of (48 + n mod 10)]" by (simp add: digits.simps [of n])
    then consider "c \<in> set (digits (n div 10))" | "c = char_of (48 + n mod 10)" using less.prems by auto
    then show ?thesis
    proof cases
      case 1
      then show ?thesis using less.IH [of "n div 10"] False by simp
    next
      case 2
      then show ?thesis using digit_char(2) [of "n mod 10"] by simp
    qed
  qed
qed

lemma Atoi_digits: "Atoi (digits n) = Some (int n)"
proof -
  obtain c r where d: "digits n = c # r" using digits_ne by (meson list.exhaust)
  then have "c \<noteq> CHR ''+''" "c \<noteq> CHR ''-''" using digits_chars [of c n] by auto
  then have "Atoi (digits n) = map_option int (dec_val (digits n) 0)"
    unfolding Atoi_def d by (simp add: Let_def option.map_comp)
  then show ?thesis by (simp add: dec_val_digits)
qed

lemma split_plain:
  assumes "CHR '':'' \<notin> set h" "CHR '':'' \<notin> set p" "CHR ''['' \<notin> set (h @ p)" "CHR '']'' \<notin> set (h @ p)" "h \<noteq> []"
  shows "net_SplitHostPort (h @ CHR '':'' # p) = Some (h, p)"
proof -
  have "takeWhile (\<lambda>x. x \<noteq> CHR '':'') (rev p @ CHR '':'' # rev h) = rev p"
    using assms(2) by (subst takeWhile_append2) auto
  then have i: "last_index CHR '':'' (h @ CHR '':'' # p) = Some (length h)" by (simp add: last_index_def)
  have "hd h \<noteq> CHR ''[''" using assms(3,5) by (cases h) auto
  then show ?thesis using assms by (simp add: net_SplitHostPort_def i Let_def)
qed

lemma portOf_metrics:
  assumes "0 \<le> p" "p \<le> MaxPort"
  shows "portOf (metricsListenAddr p) = Some (''127.0.0.1'', p)"
proof -
  have c: "CHR '':'' \<notin> set (digits n)" "CHR ''['' \<notin> set (digits n)" "CHR '']'' \<notin> set (digits n)" for n
    using digits_chars [of _ n] by auto
  have "metricsListenAddr p = ''127.0.0.1'' @ CHR '':'' # digits (nat p)"
    using assms by (simp add: metricsListenAddr_def Itoa_def)
  then have "net_SplitHostPort (metricsListenAddr p) = Some (''127.0.0.1'', digits (nat p))"
    using split_plain [of "''127.0.0.1''" "digits (nat p)"] c [of "nat p"] by simp
  then show ?thesis using assms by (simp add: portOf_def Atoi64_def Atoi_digits)
qed

lemma checkHostPort_ok:
  assumes "checkHostPort name addr h = []"
  shows "\<exists>host p. portOf addr = Some (host, p) \<and> 1 \<le> p \<and> p \<le> MaxPort"
  using assms by (auto simp: checkHostPort_def portOf_def split: option.splits if_splits)

lemma conflict_commute: "conflict a b = conflict b a"
  by (auto simp: conflict_def split: option.split)

section \<open>Starting\<close>

lemma Validate_parts:
  assumes "Validate lb r c = []"
  shows "r = ''iran'' \<Longrightarrow> validate_iran c = []" "r = ''germany'' \<Longrightarrow> validate_germany lb c = []"
    "metrics_collisions r c = []" "validate_bounds c = []"
  using assms by (auto simp: Validate_def split: if_splits)

lemma accepted_starts:
  assumes "Load lb env (if role = Node.RoleIran then ''iran'' else ''germany'') = Inr c"
    and "p = pos (704 * KiB) (QueueBytesPerStream c)" and "t = pos (16 * MiB) (QueueBytesTotal c)"
  shows "if p \<le> t
     then \<exists>s. start_splitter lb env role = Inr s \<and> sp_cfg s = c \<and>
       SanitizeLimits (streamLimits c) = Inr (cfg_StreamLimits (n_cfg (sp_node s))) \<and>
       (sp_engine s \<noteq> None \<longleftrightarrow> role = Node.RoleGermany \<and> RoutingRulesFile c \<noteq> [])
     else start_splitter lb env role = Inl (BadNode (BadLimits (ErrLimits t p)))"
proof -
  obtain eng where eng: "(if role = Node.RoleGermany \<and> RoutingRulesFile c \<noteq> []
        then (case buildRoutingEngine lb c of Inl e \<Rightarrow> Inl e | Inr x \<Rightarrow> Inr (Some x)) else Inr None) = (Inr eng :: startup_error + _)"
      "eng \<noteq> None \<longleftrightarrow> role = Node.RoleGermany \<and> RoutingRulesFile c \<noteq> []"
  proof (cases "role = Node.RoleGermany \<and> RoutingRulesFile c \<noteq> []")
    case True
    then obtain x where "buildRoutingEngine lb c = Inr x" using engine_builds [of lb env c] assms(1) by auto
    then show ?thesis using that [of "Some x"] True by simp
  next
    case False
    then show ?thesis using that [of None] by auto
  qed
  show ?thesis
    using node_config_starts [OF assms(1), of role "if eng = None then None else Some (CustomDial 0)"] eng
    unfolding start_splitter_def assms(1) sum.case(2) [of _ _ c] eng(1) assms(2,3) [symmetric]
    by (cases "p \<le> t") auto
qed

text \<open>C30. An environment the loader accepts starts: the routing engine and the node are built and
  the node's stream limits are the sanitized ones, on either role, except when the two queue limits
  contradict each other once the library default has replaced an unset one; then
  every start fails although the configuration was accepted.\<close>

theorem accepted_config_starts:
  assumes "Load lb env (if role = Node.RoleIran then ''iran'' else ''germany'') = Inr c"
    and "p = pos (704 * KiB) (QueueBytesPerStream c)" and "t = pos (16 * MiB) (QueueBytesTotal c)"
  shows "if p \<le> t
     then \<exists>s. start_splitter lb env role = Inr s \<and> sp_cfg s = c \<and>
       SanitizeLimits (streamLimits c) = Inr (cfg_StreamLimits (n_cfg (sp_node s))) \<and>
       (sp_engine s \<noteq> None \<longleftrightarrow> role = Node.RoleGermany \<and> RoutingRulesFile c \<noteq> [])
     else start_splitter lb env role = Inl (BadNode (BadLimits (ErrLimits t p)))"
  by (rule accepted_starts [OF assms])

text \<open>Turning routing on changes where a destination leaves, never how a direct dial is made: the
  engine runs the rules of the file after validation, with the default outbound replaced only by a legal
  override, and its direct dialer has exactly the two address-family switches the node would give its own dialer without routing.\<close>

lemma routing_keeps_dial_policy:
  assumes "start_splitter lb env Node.RoleGermany = Inr s" and "sp_engine s = Some (e, only, prefer)"
  shows "(\<exists>k. config_Sanitize (node_config Node.RoleGermany (sp_cfg s) None) = Inr k \<and>
       TargetDial k = Some (DefaultTargetDial only prefer)) \<and>
     (\<exists>rs0 rs. rules_file lb (RoutingRulesFile (sp_cfg s)) = Some rs0 \<and> Sanitize rs0 = Inr rs \<and>
       Sanitize (e_rs e) = Inr (e_rs e) \<and>
       e_rs e = (if RoutingDefault (sp_cfg s) = [] then rs else rs\<lparr>DefaultAction := RoutingDefault (sp_cfg s)\<rparr>)) \<and>
     e_warpAddr e \<noteq> []"
proof -
  obtain c where c: "Load lb env ''germany'' = Inr c" "sp_cfg s = c"
    using assms(1) by (auto simp: start_splitter_def split: sum.splits)
  have rf: "RoutingRulesFile c \<noteq> []" and b: "buildRoutingEngine lb c = Inr (e, only, prefer)"
    using assms by (auto simp: start_splitter_def c split: sum.splits if_splits)
  obtain rs0 rs where rs: "rules_file lb (RoutingRulesFile c) = Some rs0" "Sanitize rs0 = Inr rs"
      "e_rs e = (if RoutingDefault c = [] then rs else rs\<lparr>DefaultAction := RoutingDefault c\<rparr>)" "e_warpAddr e = WarpSocksAddr c"
      and sw: "only = (cf_TargetOnlyIPv4 c \<or> cf_TargetAddrPolicy c = ''ipv4-only'')" "prefer = (cf_TargetAddrPolicy c = ''prefer-ipv4'')"
    using engine_builds [OF c(1) rf] b by auto
  have d: "DefaultAction rs = ''direct'' \<or> DefaultAction rs = ''warp''"
    using Sanitize_ok [OF rs(2)] by (auto simp: ParseOutboundKind_def split: if_splits)
  have "RoutingDefault c = [] \<or> RoutingDefault c = ''direct'' \<or> RoutingDefault c = ''warp''"
  proof -
    have "checkRouting lb c = []" using accepted(1) [OF c(1)] by (simp add: Validate_def validate_germany_def)
    then show ?thesis using rf unfolding checkRouting_def by (simp split: if_split_asm)
  qed
  then have "Sanitize (e_rs e) = Inr (e_rs e)"
    using Sanitize_idem [OF rs(2), of "DefaultAction rs"] Sanitize_idem [OF rs(2), of "RoutingDefault c"] d rs(3) by auto
  moreover have "\<exists>k. config_Sanitize (node_config Node.RoleGermany c None) = Inr k \<and> TargetDial k = Some (DefaultTargetDial only prefer)"
    using assms(1) node_config_starts [OF c(1), of Node.RoleGermany "Some (CustomDial 0)"] node_config_starts [OF c(1), of Node.RoleGermany None] sw
    by (auto simp: start_splitter_def c config_Sanitize_def node_config_def Let_def split: sum.splits if_splits)
  ultimately show ?thesis using rs accepted_warp [OF c(1)] c(2) by auto
qed

text \<open>The listeners of a started splitter do not fight over an address: every address it listens on has
  a port between 1 and 65535, and no two of them would bind the same endpoint, on the Iran node, and on the
  Germany node unless both the second carrier and the metrics listener are enabled.\<close>

lemma listeners_disjoint:
  assumes "start_splitter lb env role = Inr s" and "c = sp_cfg s"
    and "role = Node.RoleIran \<or> \<not> MultiCarrierEnabled c \<or> MetricsPort c = 0"
  shows "(\<forall>a \<in> set (own_listeners role c). \<exists>h p. portOf a = Some (h, p) \<and> 1 \<le> p \<and> p \<le> MaxPort) \<and>
     sorted_wrt (\<lambda>a b. \<not> conflict a b) (own_listeners role c)"
proof -
  let ?r = "if role = Node.RoleIran then ''iran'' else ''germany''"
  have l: "Load lb env ?r = Inr c"
    using assms(1,2) by (auto simp: start_splitter_def split: sum.splits)
  note v = Validate_parts [OF accepted(1) [OF l]]
  have "0 \<le> MetricsPort c \<and> MetricsPort c \<le> MaxPort"
    using v(4) unfolding validate_bounds_def by (simp add: range_problem_def split: if_split_asm)
  then have m: "MetricsPort c > 0 \<Longrightarrow> \<exists>h p. portOf (metricsListenAddr (MetricsPort c)) = Some (h, p) \<and> 1 \<le> p \<and> p \<le> MaxPort"
    by (auto simp: portOf_metrics)
  have mc: "MetricsPort c > 0 \<Longrightarrow> (n, ep) \<in> set (roleOwnedEndpoints ?r c) \<Longrightarrow> \<not> conflict (metricsListenAddr (MetricsPort c)) ep" for n ep
    using v(3) by (auto simp: metrics_collisions_def filter_empty_conv)
  show ?thesis
  proof (cases role)
    case RoleIran
    then have i: "validate_iran c = []" using v(1) by simp
    have a: "checkHostPort ''SPLIT_SOCKS_LISTEN'' (SocksListen c) True = []" "checkHostPort ''SPLIT_WS_LISTEN'' (WsListen c) False = []"
        "\<not> conflict (SocksListen c) (WsListen c)"
      using i unfolding validate_iran_def append_is_Nil_conv by (simp_all split: if_split_asm)
    then have "\<not> conflict (WsListen c) (SocksListen c)" using conflict_commute by blast
    note a = this a(1,2)
    from a show ?thesis using m mc [of "''SPLIT_SOCKS_LISTEN''"] mc [of "''SPLIT_WS_LISTEN''"]
        checkHostPort_ok [OF a(2)] checkHostPort_ok [OF a(3)] RoleIran
      by (auto simp: own_listeners_def roleOwnedEndpoints_def)
  next
    case RoleGermany
    then have i: "validate_germany lb c = []" using v(2) by simp
    have a: "checkHostPort ''SPLIT_DOWN_LISTEN'' (DownListen c) False = []"
      using i unfolding validate_germany_def append_is_Nil_conv by simp
    have b: "checkHostPort ''SPLIT_DOWN_LISTEN_2'' (DownListen2 c) True = []" "DownListen2 c = [] \<or> \<not> conflict (DownListen c) (DownListen2 c)"
      if "MultiCarrierEnabled c"
      using i that unfolding validate_germany_def by (simp_all split: if_split_asm)
    have "portOf [] = None" by code_simp
    then have n: "DownListen2 c \<noteq> []" if "MultiCarrierEnabled c" using checkHostPort_ok [OF b(1) [OF that]] by auto
    show ?thesis using m mc [of "''SPLIT_DOWN_LISTEN''"] checkHostPort_ok [OF a] checkHostPort_ok [OF b(1)] b(2) n RoleGermany assms(3)
      by (auto simp: own_listeners_def roleOwnedEndpoints_def)
  qed
qed

section \<open>Examples\<close>

text \<open>A Germany node with a rules file, both carriers and the metrics listener: its metrics port is the port
  of the second carrier listener.\<close>

definition start_libs :: libs where
  "start_libs = demo_libs\<lparr>rules_file := (\<lambda>_. Some demo_rules)\<rparr>"

definition start_env :: environ where
  "start_env = map_of
     [(''SPLIT_SECRET'', ''0123456789abcdef0123456789abcdef''), (''SPLIT_CARRIER_GRACE'', ''8000''),
      (''SPLIT_UP_WS_URL'', ''wss://up.example.org/upload''),
      (''SPLIT_ROUTING_RULES_FILE'', ''rules.json''), (''SPLIT_ROUTING_DEFAULT'', ''warp''),
      (''SPLIT_MULTI_CARRIER_ENABLED'', ''true''), (''SPLIT_DOWN_LISTEN_2'', ''127.0.0.1:9003''),
      (''SPLIT_DOWN_CARRIER2_SNI'', ''b.example.org''), (''SPLIT_METRICS_PORT'', ''9003'')]"

definition start_config :: LoadedConfig where
  "start_config = demo_config\<lparr>UpWsUrl := ''wss://up.example.org/upload'', RoutingRulesFile := ''rules.json'',
     RoutingDefault := ''warp'', MultiCarrierEnabled := True, DownListen2 := ''127.0.0.1:9003'',
     DownSNI2 := ''b.example.org'', MetricsPort := 9003\<rparr>"

lemma start_env_values: "load_values start_env = start_config"
  by code_simp

lemma start_env_problems: "load_problems start_env = []"
  by code_simp

lemma local_split: "net_SplitHostPort (''127.0.0.1:'' @ p) = Some (''127.0.0.1'', p)"
  if "CHR '':'' \<notin> set p" "CHR ''['' \<notin> set p" "CHR '']'' \<notin> set p" for p
  using split_plain [of "''127.0.0.1''" p] that by simp

lemma digit_chars:
  "char_of (48 :: nat) = CHR ''0'' \<and> char_of (50 :: nat) = CHR ''2'' \<and> char_of (51 :: nat) = CHR ''3'' \<and>
   char_of (52 :: nat) = CHR ''4'' \<and> char_of (57 :: nat) = CHR ''9''"
  by code_simp

lemma digits_eval: "digits 9002 = ''9002''" "digits 9003 = ''9003''" "digits 40000 = ''40000''"
  using digit_chars by (simp_all add: digits.simps)

lemma start_port_numbers: "Atoi64 ''9002'' = Some 9002" "Atoi64 ''9003'' = Some 9003" "Atoi64 ''40000'' = Some 40000"
  using Atoi_digits [of 9002] Atoi_digits [of 9003] Atoi_digits [of 40000] by (simp_all add: digits_eval Atoi64_def)

lemma start_checks:
  "checkHostPort n ''127.0.0.1:9002'' False = []" "checkHostPort n ''127.0.0.1:9003'' True = []"
  "conflict ''127.0.0.1:9002'' ''127.0.0.1:9003'' = False" "conflict ''127.0.0.1:9003'' ''127.0.0.1:9002'' = False"
  "checkNotReservedCarrierPort n ''127.0.0.1:9002'' = []" "checkNotReservedCarrierPort n ''127.0.0.1:9003'' = []"
  "checkHostPort n ''127.0.0.1:40000'' True = []"
  using local_split [of "''9002''"] local_split [of "''9003''"] local_split [of "''40000''"] start_port_numbers
  by (simp_all add: checkHostPort_def conflict_def checkNotReservedCarrierPort_def portOf_def ContainsAny_def)

lemma start_metrics: "metricsListenAddr 9003 = ''127.0.0.1:9003''"
  by (simp add: metricsListenAddr_def Itoa_def digits_eval)

lemma start_url: "checkWsUrl start_libs ''wss://up.example.org/upload'' = [] \<and> LoadRulesFile start_libs ''rules.json'' \<noteq> None"
  by code_simp

lemma start_sni: "validSNI ''b.example.org''"
  by code_simp

lemma start_policy: "validate_bounds start_config = [] \<and> validate_policy start_libs start_config = []"
  using demo_secret by (simp add: start_config_def demo_config_def validate_bounds_def validate_policy_def range_problem_def)

lemma start_germany_valid: "validate_germany start_libs start_config = []" "metrics_collisions ''germany'' start_config = []"
  using start_checks start_url start_sni start_metrics
  by (simp_all add: start_config_def demo_config_def validate_germany_def checkRouting_def metrics_collisions_def roleOwnedEndpoints_def)

lemma start_loads: "Load start_libs start_env ''germany'' = Inr start_config"
  using start_policy start_germany_valid
  by (simp add: Load_cases start_env_values start_env_problems Validate_def)

text \<open>A total below the default share of one stream is accepted by the loader.\<close>

definition tight_env :: environ where
  "tight_env = map_of [(''SPLIT_SECRET'', ''0123456789abcdef0123456789abcdef''), (''SPLIT_CARRIER_GRACE'', ''8000''),
     (''SPLIT_STREAM_QUEUE_TOTAL_BYTES'', ''9'')]"

lemma tight_env_values: "load_values tight_env = demo_config\<lparr>QueueBytesTotal := 9\<rparr> \<and> load_problems tight_env = []"
  by code_simp

lemma tight_loads: "Load demo_libs tight_env ''iran'' = Inr (demo_config\<lparr>QueueBytesTotal := 9\<rparr>)"
proof -
  let ?c = "demo_config\<lparr>QueueBytesTotal := 9\<rparr>"
  have "validate_iran ?c = []" "metrics_collisions ''iran'' ?c = []"
    using demo_ports no_sources by (simp_all add: demo_config_def validate_iran_def check_credentials_def metrics_collisions_def)
  moreover have "validate_bounds ?c = []" "validate_policy demo_libs ?c = []"
    using demo_secret by (simp_all add: demo_config_def validate_bounds_def validate_policy_def range_problem_def)
  ultimately show ?thesis using tight_env_values by (simp add: Load_cases Validate_def)
qed

theorem accepted_config_starts_witness:
  "(\<exists>s. start_splitter start_libs start_env Node.RoleGermany = Inr s \<and> sp_engine s \<noteq> None) \<and>
   start_splitter demo_libs tight_env Node.RoleIran = Inl (BadNode (BadLimits (ErrLimits 9 720896)))"
  using accepted_config_starts [of start_libs start_env Node.RoleGermany start_config, OF _ refl refl] start_loads
    accepted_config_starts [of demo_libs tight_env Node.RoleIran "demo_config\<lparr>QueueBytesTotal := 9\<rparr>", OF _ refl refl] tight_loads
  by (simp add: pos_def start_config_def demo_config_def) blast

lemma routing_keeps_dial_policy_witness:
  "\<exists>s e rs. start_splitter start_libs start_env Node.RoleGermany = Inr s \<and> sp_engine s = Some (e, False, False) \<and>
     Sanitize demo_rules = Inr rs \<and> e_rs e = rs\<lparr>DefaultAction := ''warp''\<rparr>"
proof -
  obtain s e o4 p4 where s: "start_splitter start_libs start_env Node.RoleGermany = Inr s" "sp_engine s = Some (e, o4, p4)" "sp_cfg s = start_config"
    using accepted_starts [of start_libs start_env Node.RoleGermany start_config, OF _ refl refl] start_loads
    by (auto simp: pos_def start_config_def demo_config_def)
  note r = routing_keeps_dial_policy [OF s(1,2), unfolded s(3)]
  have "\<not> o4 \<and> \<not> p4"
    using r by (auto simp: config_Sanitize_def node_config_def start_config_def demo_config_def Let_def split: sum.splits if_splits)
  then show ?thesis using r s by (auto simp: start_config_def start_libs_def)
qed

lemma listeners_disjoint_witness:
  "\<exists>s. start_splitter demo_libs demo_env Node.RoleIran = Inr s \<and>
     sorted_wrt (\<lambda>a b. \<not> conflict a b) (own_listeners Node.RoleIran (sp_cfg s)) \<and> own_listeners Node.RoleIran (sp_cfg s) \<noteq> []"
proof -
  have "Load demo_libs demo_env ''iran'' = Inr demo_config"
    by (simp add: Load_cases demo_env_values demo_env_problems demo_config_valid)
  then obtain s where s: "start_splitter demo_libs demo_env Node.RoleIran = Inr s"
    using accepted_starts [of demo_libs demo_env Node.RoleIran demo_config, OF _ refl refl]
    by (auto simp: pos_def demo_config_def)
  then show ?thesis using listeners_disjoint [OF s refl] by (auto simp: own_listeners_def)
qed

text \<open>On the Germany node the metrics port is not compared with the second carrier listener: this configuration
  is accepted although two of its listeners have the same address.\<close>

lemma germany_metrics_collision:
  "\<exists>s. start_splitter start_libs start_env Node.RoleGermany = Inr s \<and>
     own_listeners Node.RoleGermany (sp_cfg s) = [''127.0.0.1:9003'', ''127.0.0.1:9002'', ''127.0.0.1:9003'']"
proof -
  obtain s where "start_splitter start_libs start_env Node.RoleGermany = Inr s" "sp_cfg s = start_config"
    using accepted_starts [of start_libs start_env Node.RoleGermany start_config, OF _ refl refl] start_loads
    by (auto simp: pos_def start_config_def demo_config_def)
  then show ?thesis using start_metrics by (simp add: own_listeners_def start_config_def demo_config_def)
qed

end
