(* ===== verification/Socks.thy ===== *)
theory Socks
  imports Config Destination Session
begin

text \<open>
  The SOCKS5 front end of the Iran node (\<^verbatim>\<open>src/cmd/iran-splitter/socks.go\<close> and
  \<open>handleSOCKS5Conn\<close> of \<^verbatim>\<open>main.go\<close>). A client is the list of bytes it sends before it stops; a
  negotiation returns the byte strings written to the client, in order, and an error or the
  destination with the bytes not yet read. Whether a write that the code checks succeeds is an
  argument. The second part runs the handler next to its session: the wait for the
  verdict, the reply and the hand-over of the connection interleave with everything the
  node does to the session, and with the down relay that writes to the client.
\<close>

section \<open>Credentials and source addresses\<close>

record socksCredentials =
  sc_enabled :: bool
  sc_user :: string
  sc_pass :: string

definition newSocksCredentials :: "LoadedConfig option \<Rightarrow> socksCredentials" where
  "newSocksCredentials cfg =
     (case cfg of
        None \<Rightarrow> \<lparr>sc_enabled = False, sc_user = [], sc_pass = []\<rparr>
      | Some c \<Rightarrow> if \<not> SocksAuthEnabled c then \<lparr>sc_enabled = False, sc_user = [], sc_pass = []\<rparr>
                  else \<lparr>sc_enabled = True, sc_user = SocksUser c, sc_pass = SocksPass c\<rparr>)"

record socksAllowedSources =
  sa_enabled :: bool
  sa_nets :: "IPNet list"

definition newSocksAllowedSources :: "LoadedConfig option \<Rightarrow> socksAllowedSources" where
  "newSocksAllowedSources cfg =
     (let allow_all = \<lparr>sa_enabled = False, sa_nets = []\<rparr>
      in case cfg of
           None \<Rightarrow> allow_all
         | Some c \<Rightarrow>
             (case ParseAllowedSources (SocksAllowedSources c) of
                None \<Rightarrow> allow_all
              | Some nets \<Rightarrow> if nets = [] then allow_all else \<lparr>sa_enabled = True, sa_nets = nets\<rparr>))"

definition allows :: "socksAllowedSources \<Rightarrow> string \<Rightarrow> bool" where
  "allows g source =
     (if \<not> sa_enabled g then True
      else (let host = (case net_SplitHostPort source of Some (ip, _) \<Rightarrow> ip | None \<Rightarrow> source)
            in case ParseIP host of
                 None \<Rightarrow> False
               | Some ip \<Rightarrow> list_ex (\<lambda>n. net_Contains n ip) (sa_nets g)))"

text \<open>\<open>True\<close> is the code's nil error.\<close>

definition socksSourceGate :: "socksAllowedSources \<Rightarrow> string \<Rightarrow> bool" where
  "socksSourceGate g clientAddr = (if \<not> sa_enabled g then True else allows g clientAddr)"

section \<open>Negotiation\<close>

datatype socks_error =
    SockRead mux_error | BadSocksVersion | NoMethod | WriteFailed | BadAuthVersion | EmptyUser | AuthFailed
  | BadCommand | BadDestination dest_error

definition socksCredsMatch :: "bytes \<Rightarrow> bytes \<Rightarrow> string \<Rightarrow> string \<Rightarrow> bool" where
  "socksCredsMatch gotUser gotPass wantUser wantPass \<longleftrightarrow>
     (let userOK = (gotUser = bytes_of_string wantUser); passOK = (gotPass = bytes_of_string wantPass) in userOK \<and> passOK)"

definition socksReply :: "byte \<Rightarrow> bytes" where
  "socksReply status = [5, status, 0, 1, 0, 0, 0, 0, 0, 0]"

text \<open>\<open>w\<close> tells whether the status bytes can be written.\<close>

definition socksAuthNegotiate :: "bool \<Rightarrow> string \<Rightarrow> string \<Rightarrow> bytes \<Rightarrow> bytes list \<times> (socks_error + bytes)" where
  "socksAuthNegotiate w wantUser wantPass r =
     (case ReadFull 2 r of
        Inl e \<Rightarrow> ([], Inl (SockRead e))
      | Inr (hdr, r1) \<Rightarrow>
          if hdr ! 0 \<noteq> 1 then ([], Inl BadAuthVersion)
          else if hdr ! 1 = 0 then ([], Inl EmptyUser)
          else (case ReadFull (unat (hdr ! 1)) r1 of
                  Inl e \<Rightarrow> ([], Inl (SockRead e))
                | Inr (user, r2) \<Rightarrow>
                    (case ReadFull 1 r2 of
                       Inl e \<Rightarrow> ([], Inl (SockRead e))
                     | Inr (plenB, r3) \<Rightarrow>
                         (case ReadFull (unat (plenB ! 0)) r3 of
                            Inl e \<Rightarrow> ([], Inl (SockRead e))
                          | Inr (pass, r4) \<Rightarrow>
                              if \<not> socksCredsMatch user pass wantUser wantPass
                              then ([[1, 1]], Inl (if w then AuthFailed else WriteFailed))
                              else ([[1, 0]], if w then Inr r4 else Inl WriteFailed)))))"

text \<open>The request after the authentication.\<close>

definition read_request :: "bytes \<Rightarrow> bytes list \<times> (socks_error + Destination \<times> bytes)" where
  "read_request r =
     (case ReadFull 4 r of
        Inl e \<Rightarrow> ([], Inl (SockRead e))
      | Inr (req, r1) \<Rightarrow>
          if req ! 0 \<noteq> 5 \<or> req ! 1 \<noteq> 1 then ([socksReply 7], Inl BadCommand)
          else (case readDestFromReader (req ! 3) r1 of
                  Inl e \<Rightarrow> ([], Inl (BadDestination e))
                | Inr x \<Rightarrow> ([], Inr x)))"

definition select_method :: "socksCredentials option \<Rightarrow> bytes \<Rightarrow> byte option" where
  "select_method creds methods =
     (let enabled = (case creds of Some c \<Rightarrow> sc_enabled c | None \<Rightarrow> False)
      in if enabled \<and> 2 \<in> set methods then Some 2
         else if 0 \<in> set methods \<and> \<not> enabled then Some 0
         else None)"

text \<open>\<open>w1\<close> and \<open>w2\<close>: the writes of the selected method and of the authentication status. What follows the
  list of methods is \<open>after_greeting\<close>; a nil pair is never asked for a password.\<close>

definition after_greeting :: "bool \<Rightarrow> bool \<Rightarrow> socksCredentials option \<Rightarrow> bytes \<Rightarrow> bytes \<Rightarrow>
    bytes list \<times> (socks_error + Destination \<times> bytes)" where
  "after_greeting w1 w2 creds methods r2 =
     (case select_method creds methods of
        None \<Rightarrow> ([[5, 0xFF]], Inl NoMethod)
      | Some selected \<Rightarrow>
          if \<not> w1 then ([[5, selected]], Inl WriteFailed)
          else if selected = 2
          then (let (user, pass) = (case creds of Some c \<Rightarrow> (sc_user c, sc_pass c) | None \<Rightarrow> ([], []))
                in case socksAuthNegotiate w2 user pass r2 of
                     (ws, Inl e) \<Rightarrow> ([5, selected] # ws, Inl e)
                   | (ws, Inr r3) \<Rightarrow> (case read_request r3 of (ws', res) \<Rightarrow> ([5, selected] # ws @ ws', res)))
          else (case read_request r2 of (ws', res) \<Rightarrow> ([5, selected] # ws', res)))"

definition socksNegotiate :: "bool \<Rightarrow> bool \<Rightarrow> socksCredentials option \<Rightarrow> bytes \<Rightarrow>
    bytes list \<times> (socks_error + Destination \<times> bytes)" where
  "socksNegotiate w1 w2 creds r =
     (case ReadFull 2 r of
        Inl e \<Rightarrow> ([], Inl (SockRead e))
      | Inr (greet, r1) \<Rightarrow>
          if greet ! 0 \<noteq> 5 then ([], Inl BadSocksVersion)
          else (case ReadFull (unat (greet ! 1)) r1 of
                  Inl e \<Rightarrow> ([], Inl (SockRead e))
                | Inr (methods, r2) \<Rightarrow> after_greeting w1 w2 creds methods r2))"

section \<open>The connection handler\<close>

text \<open>What becomes of the client connection: closed by the handler, or handed to the session.\<close>

datatype conn_fate = ClosedByHandler | OwnedBySession

text \<open>\<open>start\<close> is the status \<open>StartSessionAndWait\<close> returns for a destination, and whether the session then
  takes the connection (\<open>sess != nil && sess.AdoptConn\<close>).\<close>

definition handleSOCKS5Conn :: "socksCredentials \<Rightarrow> socksAllowedSources \<Rightarrow> bool \<Rightarrow> bool \<Rightarrow> string \<Rightarrow> bytes \<Rightarrow>
    (Destination \<Rightarrow> byte \<times> bool) \<Rightarrow> bytes list \<times> Destination option \<times> conn_fate" where
  "handleSOCKS5Conn creds sources w1 w2 remote r start =
     (case socksNegotiate w1 w2 (Some creds) r of
        (ws, Inl _) \<Rightarrow> (ws, None, ClosedByHandler)
      | (ws, Inr (dest, _)) \<Rightarrow>
          if \<not> socksSourceGate sources remote then (ws, None, ClosedByHandler)
          else (let (status, adopted) = start dest;
                    code = (if status = BootstrapEndedWithoutResult then 1 else status)
                in if code \<noteq> 0 then (ws @ [socksReply code], Some dest, ClosedByHandler)
                   else (ws @ [socksReply 0], Some dest, if adopted then OwnedBySession else ClosedByHandler)))"

section \<open>What is accepted\<close>

lemma ReadFull_case:
  "(case ReadFull n r of Inl e \<Rightarrow> ([], Inl (SockRead e)) | Inr p \<Rightarrow> G p) = (ws, Inr y) \<longleftrightarrow>
     (\<exists>x r1. length x = n \<and> r = x @ r1 \<and> G (x, r1) = (ws, Inr y))"
proof (cases "n \<le> length r")
  case True
  have "x = take n r \<and> r1 = drop n r" if "length x = n" "r = x @ r1" for x r1 :: bytes using that by auto
  moreover have "length (take n r) = n \<and> r = take n r @ drop n r" using True by simp
  moreover have "ReadFull n r = Inr (take n r, drop n r)" using True by (simp add: ReadFull_def)
  ultimately show ?thesis by (metis sum.case(2))
qed (auto simp: ReadFull_def)

lemma ReadFull_sizes:
  "(case ReadFull 1 r of Inl e \<Rightarrow> ([], Inl (SockRead e)) | Inr p \<Rightarrow> G p) = (ws, Inr y) \<longleftrightarrow>
     (\<exists>a r1. r = a # r1 \<and> G ([a], r1) = (ws, Inr y))"
  "(case ReadFull 2 r of Inl e \<Rightarrow> ([], Inl (SockRead e)) | Inr p \<Rightarrow> G p) = (ws, Inr y) \<longleftrightarrow>
     (\<exists>a b r1. r = a # b # r1 \<and> G ([a, b], r1) = (ws, Inr y))"
  "(case ReadFull 4 r of Inl e \<Rightarrow> ([], Inl (SockRead e)) | Inr p \<Rightarrow> G p) = (ws, Inr y) \<longleftrightarrow>
     (\<exists>a b c d r1. r = a # b # c # d # r1 \<and> G ([a, b, c, d], r1) = (ws, Inr y))"
proof -
  have l: "length x = 1 \<longleftrightarrow> (\<exists>a. x = [a])" "length x = 2 \<longleftrightarrow> (\<exists>a b. x = [a, b])"
    "length x = 4 \<longleftrightarrow> (\<exists>a b c d. x = [a, b, c, d])" for x :: bytes
    by (auto simp: length_Suc_conv eval_nat_numeral)
  show "(case ReadFull 1 r of Inl e \<Rightarrow> ([], Inl (SockRead e)) | Inr p \<Rightarrow> G p) = (ws, Inr y) \<longleftrightarrow>
     (\<exists>a r1. r = a # r1 \<and> G ([a], r1) = (ws, Inr y))" unfolding ReadFull_case l by fastforce
  show "(case ReadFull 2 r of Inl e \<Rightarrow> ([], Inl (SockRead e)) | Inr p \<Rightarrow> G p) = (ws, Inr y) \<longleftrightarrow>
     (\<exists>a b r1. r = a # b # r1 \<and> G ([a, b], r1) = (ws, Inr y))" unfolding ReadFull_case l by fastforce
  show "(case ReadFull 4 r of Inl e \<Rightarrow> ([], Inl (SockRead e)) | Inr p \<Rightarrow> G p) = (ws, Inr y) \<longleftrightarrow>
     (\<exists>a b c d r1. r = a # b # c # d # r1 \<and> G ([a, b, c, d], r1) = (ws, Inr y))" unfolding ReadFull_case l by fastforce
qed

lemmas ReadFull_counted = ReadFull_case [where n = "unat (k :: byte)"] for k

text \<open>A byte string with its length in one byte before it.\<close>

definition counted :: "bytes \<Rightarrow> bytes" where
  "counted b = word_of_nat (length b) # b"

lemma len_byte: "length b = unat (n :: byte) \<longleftrightarrow> length b < 256 \<and> n = word_of_nat (length b)"
proof
  assume *: "length b = unat n"
  then have "unat n < 256" "word_of_nat (length b) = n" by simp_all
  then show "length b < 256 \<and> n = word_of_nat (length b)" using * by simp
qed simp

text \<open>An error branch gives no result.\<close>

lemma error_branch:
  "(if b then (vs, Inl e) else X) = (ws, Inr y) \<longleftrightarrow> \<not> b \<and> X = (ws, Inr y)"
  "(vs, if b then Inr y' else Inl e) = (ws, Inr y) \<longleftrightarrow> b \<and> vs = ws \<and> y' = y"
  "(case m of Inl e \<Rightarrow> (vs, Inl (f e)) | Inr z \<Rightarrow> (vs', Inr z)) = (ws, Inr y) \<longleftrightarrow> vs' = ws \<and> m = Inr y"
  by (auto split: sum.split)

lemma read_request_Inr:
  "read_request r = (ws, Inr x) \<longleftrightarrow> ws = [] \<and> (\<exists>rsv r1. r = 5 # 1 # rsv # r1 \<and> ReadDestination r1 = Inr x)"
proof -
  have d: "ReadDestination r1 = Inr x \<longleftrightarrow> (\<exists>a r2. r1 = a # r2 \<and> readDestFromReader a r2 = Inr x)" for r1
    by (cases r1) (auto simp: ReadDestination_def read_n_def ReadFull_def)
  have "read_request r = (ws, Inr x) \<longleftrightarrow> (\<exists>c a r1. r = 5 # 1 # c # a # r1 \<and> ws = [] \<and> readDestFromReader a r1 = Inr x)"
    unfolding read_request_def ReadFull_sizes prod.case error_branch by auto
  then show ?thesis unfolding d by blast
qed

lemma auth_Inr:
  "socksAuthNegotiate w u p r = (ws, Inr r') \<longleftrightarrow>
     w \<and> ws = [[1, 0]] \<and> u \<noteq> [] \<and> length u < 256 \<and> length p < 256 \<and>
     r = 1 # counted (bytes_of_string u) @ counted (bytes_of_string p) @ r'"
proof -
  have "socksAuthNegotiate w u p r = (ws, Inr r') \<longleftrightarrow>
     (\<exists>n user m pass. r = 1 # n # user @ m # pass @ r' \<and> n \<noteq> 0 \<and> length user = unat n \<and> length pass = unat m \<and>
         socksCredsMatch user pass u p \<and> w \<and> ws = [[1, 0]])"
    unfolding socksAuthNegotiate_def ReadFull_sizes(2) prod.case error_branch(1) ReadFull_counted ReadFull_sizes(1) error_branch(2)
    by (simp, blast)
  also have "\<dots> \<longleftrightarrow> w \<and> ws = [[1, 0]] \<and> u \<noteq> [] \<and> length u < 256 \<and> length p < 256 \<and>
     r = 1 # counted (bytes_of_string u) @ counted (bytes_of_string p) @ r'"
  proof -
    have z: "(word_of_nat (length u) :: byte) = 0 \<longleftrightarrow> length u mod 256 = 0" for u :: string
      by (simp add: word_unat_eq_iff)
    show ?thesis unfolding len_byte socksCredsMatch_def Let_def counted_def
      by (auto simp: z)
  qed
  finally show ?thesis .
qed

definition request :: "Destination \<times> bytes \<Rightarrow> bytes \<Rightarrow> bool" where
  "request x r \<longleftrightarrow> (\<exists>rsv r1. r = 5 # 1 # rsv # r1 \<and> ReadDestination r1 = Inr x)"

lemma after_greeting_select:
  "after_greeting w1 w2 (Some c) ms r =
     (if sc_enabled c \<and> 2 \<in> set ms
      then (if \<not> w1 then ([[5, 2]], Inl WriteFailed)
            else case socksAuthNegotiate w2 (sc_user c) (sc_pass c) r of
                   (ws, Inl e) \<Rightarrow> ([5, 2] # ws, Inl e)
                 | (ws, Inr r3) \<Rightarrow> (case read_request r3 of (ws', res) \<Rightarrow> ([5, 2] # ws @ ws', res)))
      else if \<not> sc_enabled c \<and> 0 \<in> set ms
      then (if \<not> w1 then ([[5, 0]], Inl WriteFailed) else case read_request r of (ws', res) \<Rightarrow> ([5, 0] # ws', res))
      else ([[5, 0xFF]], Inl NoMethod))"
  by (cases "sc_enabled c"; cases "2 \<in> set ms"; cases "0 \<in> set ms"; cases w1) (simp_all add: after_greeting_def select_method_def Let_def)

lemma after_greeting_Inr:
  "after_greeting w1 w2 (Some c) ms r = (ws, Inr x) \<longleftrightarrow> w1 \<and>
     (if sc_enabled c
      then w2 \<and> ws = [[5, 2], [1, 0]] \<and> 2 \<in> set ms \<and> sc_user c \<noteq> [] \<and> length (sc_user c) < 256 \<and> length (sc_pass c) < 256 \<and>
        (\<exists>r2. r = 1 # counted (bytes_of_string (sc_user c)) @ counted (bytes_of_string (sc_pass c)) @ r2 \<and> request x r2)
      else ws = [[5, 0]] \<and> 0 \<in> set ms \<and> request x r)"
proof -
  have a: "(case socksAuthNegotiate w2 (sc_user c) (sc_pass c) r of
        (ws, Inl e) \<Rightarrow> ([5, 2] # ws, Inl e)
      | (ws, Inr r3) \<Rightarrow> (case read_request r3 of (ws', res) \<Rightarrow> ([5, 2] # ws @ ws', res))) = (ws, Inr x) \<longleftrightarrow>
      (\<exists>ws1 r3. socksAuthNegotiate w2 (sc_user c) (sc_pass c) r = (ws1, Inr r3) \<and>
         (\<exists>ws2. read_request r3 = (ws2, Inr x) \<and> ws = [5, 2] # ws1 @ ws2))"
    by (auto split: prod.split sum.split)
  have q: "(case read_request r of (ws', res) \<Rightarrow> ([5, 0] # ws', res)) = (ws, Inr x) \<longleftrightarrow>
      (\<exists>ws2. read_request r = (ws2, Inr x) \<and> ws = [5, 0] # ws2)"
    by (auto split: prod.split)
  show ?thesis
    unfolding after_greeting_select
    by (cases "sc_enabled c"; cases "2 \<in> set ms"; cases "0 \<in> set ms")
      (simp_all only: error_branch(1) if_True if_False simp_thms a q auth_Inr read_request_Inr request_def, auto)
qed

lemma negotiate_case:
  "socksNegotiate w1 w2 creds r = (ws, Inr x) \<longleftrightarrow>
     (\<exists>ms r1. length ms < 256 \<and> r = 5 # counted ms @ r1 \<and> after_greeting w1 w2 creds ms r1 = (ws, Inr x))"
proof -
  have "socksNegotiate w1 w2 creds r = (ws, Inr x) \<longleftrightarrow>
      (\<exists>n ms r1. r = 5 # n # ms @ r1 \<and> length ms = unat n \<and> after_greeting w1 w2 creds ms r1 = (ws, Inr x))"
    unfolding socksNegotiate_def ReadFull_sizes(2) prod.case error_branch(1) ReadFull_counted by auto
  then show ?thesis unfolding len_byte counted_def by auto
qed

text \<open>C27. The negotiation hands over a destination for exactly the well-formed requests, and authentication cannot be
  bypassed: with a configured pair the client must have offered user/password and sent the configured user name
  and password, each with its length, before a CONNECT request with a readable destination; without one it must have offered
  the method without authentication. In the accepted case the client was told the method and, if any, the authentication success, and nothing else.\<close>

theorem socks_accepts_iff:
  "socksNegotiate w1 w2 (Some c) r = (ws, Inr x) \<longleftrightarrow>
     w1 \<and> (\<exists>ms r1. length ms < 256 \<and> r = 5 # counted ms @ r1 \<and>
       (if sc_enabled c
        then w2 \<and> ws = [[5, 2], [1, 0]] \<and> 2 \<in> set ms \<and> sc_user c \<noteq> [] \<and> length (sc_user c) < 256 \<and> length (sc_pass c) < 256 \<and>
          (\<exists>r2. r1 = 1 # counted (bytes_of_string (sc_user c)) @ counted (bytes_of_string (sc_pass c)) @ r2 \<and> request x r2)
        else ws = [[5, 0]] \<and> 0 \<in> set ms \<and> request x r1))"
  unfolding negotiate_case after_greeting_Inr by blast

section \<open>What is written\<close>

lemma ReadFull_split: "ReadFull n r = Inr (x, r1) \<longleftrightarrow> length x = n \<and> r = x @ r1"
  by (auto simp: ReadFull_def)

lemma negotiate_writes:
  assumes "socksNegotiate w1 w2 creds r = (ws, res)"
  shows "ws = [] \<or> (\<exists>ms r1. length ms < 256 \<and> r = 5 # counted ms @ r1 \<and> after_greeting w1 w2 creds ms r1 = (ws, res))"
proof (cases "ReadFull 2 r")
  case (Inl e)
  then show ?thesis using assms by (simp add: socksNegotiate_def)
next
  case (Inr p)
  obtain a b r1 where p: "p = ([a, b], r1)" "r = a # b # r1"
    using Inr by (cases p) (auto simp: ReadFull_split length_Suc_conv eval_nat_numeral)
  show ?thesis
  proof (cases "a = 5")
    case True
    then show ?thesis
    proof (cases "ReadFull (unat b) r1")
      case (Inr q)
      then obtain ms r2 where q: "q = (ms, r2)" "length ms = unat b" "r1 = ms @ r2" by (cases q) (auto simp: ReadFull_split)
      then show ?thesis using assms p True Inr \<open>ReadFull 2 r = Inr p\<close> len_byte [of ms b]
        by (auto simp: socksNegotiate_def counted_def)
    qed (use assms p \<open>ReadFull 2 r = Inr p\<close> in \<open>simp add: socksNegotiate_def\<close>)
  qed (use assms p \<open>ReadFull 2 r = Inr p\<close> in \<open>simp add: socksNegotiate_def\<close>)
qed

lemma request_writes: "read_request r = (ws, res) \<Longrightarrow> ws = [] \<or> ws = [socksReply 7]"
  by (auto simp: read_request_def split: sum.splits prod.splits if_splits)

lemma auth_writes:
  assumes "socksAuthNegotiate w u p r = (ws, res)"
  shows "ws = [] \<and> (\<exists>e. res = Inl e) \<or> ws = [[1, 1]] \<and> (\<exists>e. res = Inl e) \<or>
     ws = [[1, 0]] \<and> (\<exists>r'. r = 1 # counted (bytes_of_string u) @ counted (bytes_of_string p) @ r')"
proof (cases "fst (socksAuthNegotiate True u p r) = [[1, 0]]")
  case True
  then have "\<exists>r'. socksAuthNegotiate True u p r = ([[1, 0]], Inr r')"
    by (auto simp: socksAuthNegotiate_def split: sum.splits if_splits)
  then have "\<exists>r'. r = 1 # counted (bytes_of_string u) @ counted (bytes_of_string p) @ r'" unfolding auth_Inr by blast
  then show ?thesis using True assms by (auto simp: socksAuthNegotiate_def split: sum.splits if_splits)
next
  case False
  then show ?thesis using assms by (auto simp: socksAuthNegotiate_def split: sum.splits if_splits)
qed

lemma socks_replies:
  assumes "socksNegotiate w1 w2 (Some c) r = (ws, res)"
  shows "ws \<in> {[], [[5, 0xFF]]} \<or>
     (if sc_enabled c
      then ws \<in> {[[5, 2]], [[5, 2], [1, 1]]} \<or>
        ws \<in> {[[5, 2], [1, 0]], [[5, 2], [1, 0], socksReply 7]} \<and>
        (\<exists>ms r'. length ms < 256 \<and> r = 5 # counted ms @ 1 # counted (bytes_of_string (sc_user c)) @
           counted (bytes_of_string (sc_pass c)) @ r')
      else ws \<in> {[[5, 0]], [[5, 0], socksReply 7]})"
proof (cases "ws = []")
  case False
  then obtain ms r1 where m: "length ms < 256" "r = 5 # counted ms @ r1" "after_greeting w1 w2 (Some c) ms r1 = (ws, res)"
    using negotiate_writes [OF assms] by auto
  consider (none) "ws = [[5, 0xFF]]" | (auth) "sc_enabled c" "ws = [[5, 2]]"
    | (two) "sc_enabled c" "w1" "2 \<in> set ms" | (zero) "\<not> sc_enabled c" "w1" "0 \<in> set ms" | (plain) "\<not> sc_enabled c" "ws = [[5, 0]]"
    using m(3) unfolding after_greeting_select by (auto split: if_splits)
  then show ?thesis
  proof cases
    case two
    obtain vs v where a: "socksAuthNegotiate w2 (sc_user c) (sc_pass c) r1 = (vs, v)" by (cases "socksAuthNegotiate w2 (sc_user c) (sc_pass c) r1")
    show ?thesis
      using m(3) two a auth_writes [OF a] m(1,2) unfolding after_greeting_select
      by (auto split: sum.splits prod.splits dest!: request_writes)
  next
    case zero
    then show ?thesis using m(3) unfolding after_greeting_select by (auto split: prod.splits dest!: request_writes)
  qed simp_all
qed simp

text \<open>Whatever a client sends, the negotiation writes one of a few transcripts and never a success reply to a
  request: nothing, the rejection of the methods, the selected method alone or with the refusal of the
  command; with authentication also its failure or, only when the client sent the configured pair, its
  success, the latter possibly before the refusal of the command.\<close>

lemma socks_transcripts:
  assumes "socksNegotiate w1 w2 (Some c) r = (ws, res)"
  shows "ws \<in> {[], [[5, 0xFF]]} \<or>
     (if sc_enabled c
      then ws \<in> {[[5, 2]], [[5, 2], [1, 1]]} \<or>
        ws \<in> {[[5, 2], [1, 0]], [[5, 2], [1, 0], socksReply 7]} \<and>
        (\<exists>ms r'. length ms < 256 \<and> r = 5 # counted ms @ 1 # counted (bytes_of_string (sc_user c)) @
           counted (bytes_of_string (sc_pass c)) @ r')
      else ws \<in> {[[5, 0]], [[5, 0], socksReply 7]})"
  by (rule socks_replies [OF assms])

section \<open>Source addresses\<close>

text \<open>The source gate of a started server is the allow-list check of the configuration: with a list that parses, a client
  at an address with a port passes exactly when the list contains its host, and every client passes when the list is empty.\<close>

lemma source_gate_exact:
  assumes "ParseAllowedSources (SocksAllowedSources c) \<noteq> None" and "net_SplitHostPort remote = Some (host, port)"
  shows "socksSourceGate (newSocksAllowedSources (Some c)) remote = AllowedSourcesMatch (SocksAllowedSources c) host"
  using assms by (auto simp: socksSourceGate_def newSocksAllowedSources_def AllowedSourcesMatch_def allows_def split: option.split)

text \<open>On a list that does not parse the gate is off, where the check of the configuration refuses every client.\<close>

lemma source_gate_open_on_error:
  assumes "ParseAllowedSources (SocksAllowedSources c) = None"
  shows "socksSourceGate (newSocksAllowedSources (Some c)) remote \<and> \<not> AllowedSourcesMatch (SocksAllowedSources c) host"
  using assms by (simp add: socksSourceGate_def newSocksAllowedSources_def AllowedSourcesMatch_def)

section \<open>The handler\<close>

text \<open>A configured password of more than 255 bytes, which the loader accepts, locks everybody out: no byte sequence
  passes the negotiation.\<close>

lemma long_password_locks_out:
  assumes "SocksUser c \<noteq> []" and "length (SocksPass c) > 255"
  shows "\<nexists>w1 w2 r ws x. socksNegotiate w1 w2 (Some (newSocksCredentials (Some c))) r = (ws, Inr x)"
proof -
  have "SocksPass c \<noteq> []" using assms(2) by auto
  then have "sc_enabled (newSocksCredentials (Some c))" "sc_pass (newSocksCredentials (Some c)) = SocksPass c"
    using assms(1) by (simp_all add: newSocksCredentials_def SocksAuthEnabled_def)
  then show ?thesis using assms(2) by (simp add: negotiate_case after_greeting_Inr)
qed

text \<open>C29. A client reaches a destination only through every check: a session is started only after a negotiation that
  succeeded and for a source the gate lets pass, the client is told success at most once, as the last thing the
  handler writes and only on a zero verdict of the peer, never a status 255, and the connection is left to the session only in that case.\<close>

theorem handler_checks_everything:
  assumes "handleSOCKS5Conn creds sources w1 w2 remote r start = (ws, dest, fate)"
  shows "case dest of
       None \<Rightarrow> fate = ClosedByHandler \<and> socksReply 0 \<notin> set ws
     | Some d \<Rightarrow> (\<exists>vs rest. socksNegotiate w1 w2 (Some creds) r = (vs, Inr (d, rest)) \<and> socksSourceGate sources remote \<and>
         socksReply 0 \<notin> set vs \<and>
         ws = vs @ [socksReply (if fst (start d) = 0xFF then 1 else fst (start d))] \<and>
         (fate = OwnedBySession \<longleftrightarrow> start d = (0, True)))"
proof -
  obtain vs res where n: "socksNegotiate w1 w2 (Some creds) r = (vs, res)" by (cases "socksNegotiate w1 w2 (Some creds) r")
  have s: "socksReply 0 \<notin> set vs" using socks_replies [OF n] by (auto simp: socksReply_def split: if_splits)
  show ?thesis
    using assms n s by (cases "start (fst (projr res))") (auto simp: handleSOCKS5Conn_def split: sum.splits if_splits prod.splits)
qed

section \<open>The handler and its session\<close>

text \<open>
  The handler after \<open>startSessionCore\<close>, next to its session. \<open>KSes\<close> is any operation of the node on the session except
  the two that are the handler's own; \<open>KShutdown\<close> the end of the wait when the node's context is cancelled. Every down relay
  waits at the gate of the session, then writes to the connection it finds there. The wire is what reached the client
  connection; \<open>WClose\<close> is the close by the handler, the one by the session is in \<open>conn_closes\<close>.
\<close>

datatype wire_event = WReply byte | WPayload bytes | WClose
datatype handler_pc = HWaiting | HReplying byte | HAdopting | HClosing | HGone
datatype relay_state = RGate | RCopy | RGone

record socks_sys =
  k_ses :: Session
  k_pc :: handler_pc
  k_relays :: "relay_state list"
  k_wire :: "wire_event list"

datatype socks_label =
    KSes ses_op | KVerdict | KShutdown | KReply | KAdopt | KClose | KRelay | KGate nat | KWrite nat bytes

definition verdict_code :: "byte \<Rightarrow> bool \<Rightarrow> byte" where
  "verdict_code st ok = (let status = (if ok then st else BootstrapEndedWithoutResult)
     in if status = BootstrapEndedWithoutResult then 1 else status)"

definition conn_open :: "nat \<Rightarrow> socks_sys \<Rightarrow> bool" where
  "conn_open c s \<longleftrightarrow> WClose \<notin> set (k_wire s) \<and> c \<notin> set (conn_closes (k_ses s))"

fun socks_do :: "nat \<Rightarrow> socks_label \<Rightarrow> socks_sys \<Rightarrow> socks_sys option" where
  "socks_do c (KSes p) s =
     (if p = SesWait \<or> (\<exists>x. p = SesAdopt x) then None else map_option (\<lambda>t. s\<lparr>k_ses := t\<rparr>) (ses_do p (k_ses s)))"
| "socks_do c KVerdict s =
     (if k_pc s \<noteq> HWaiting then None
      else case WaitBootstrap (k_ses s) of
             None \<Rightarrow> None
           | Some ((st, ok), t) \<Rightarrow> Some (s\<lparr>k_ses := t, k_pc := HReplying (verdict_code st ok)\<rparr>))"
| "socks_do c KShutdown s =
     (if k_pc s \<noteq> HWaiting then None else Some (s\<lparr>k_pc := HReplying (verdict_code 0 False)\<rparr>))"
| "socks_do c KReply s =
     (case k_pc s of
        HReplying code \<Rightarrow> Some (s\<lparr>k_wire := k_wire s @ [WReply code], k_pc := (if code \<noteq> 0 then HClosing else HAdopting)\<rparr>)
      | _ \<Rightarrow> None)"
| "socks_do c KAdopt s =
     (if k_pc s \<noteq> HAdopting then None
      else (let (ok, t) = AdoptConn c (k_ses s) in Some (s\<lparr>k_ses := t, k_pc := (if ok then HGone else HClosing)\<rparr>)))"
| "socks_do c KClose s =
     (if k_pc s \<noteq> HClosing then None else Some (s\<lparr>k_wire := k_wire s @ [WClose], k_pc := HGone\<rparr>))"
| "socks_do c KRelay s = Some (s\<lparr>k_relays := k_relays s @ [RGate]\<rparr>)"
| "socks_do c (KGate i) s =
     (if i < length (k_relays s) \<and> k_relays s ! i = RGate \<and>
         (clientConnClosed (k_ses s) \<or> done_closed (k_ses s) \<or> cancelled (k_ses s))
      then Some (s\<lparr>k_relays := (k_relays s)[i := (if ClientConn (k_ses s) = None then RGone else RCopy)]\<rparr>)
      else None)"
| "socks_do c (KWrite i b) s =
     (if i < length (k_relays s) \<and> k_relays s ! i = RCopy
      then Some (if conn_open c s then s\<lparr>k_wire := k_wire s @ [WPayload b]\<rparr> else s\<lparr>k_relays := (k_relays s)[i := RGone]\<rparr>)
      else None)"

fun socks_run :: "nat \<Rightarrow> socks_label list \<Rightarrow> socks_sys \<Rightarrow> socks_sys option" where
  "socks_run c [] s = Some s"
| "socks_run c (l # ls) s = (case socks_do c l s of None \<Rightarrow> None | Some s1 \<Rightarrow> socks_run c ls s1)"

interpretation socks_sys: run_system "socks_do c" "socks_run c" for c
  by unfold_locales simp_all

definition socks_start :: "u32 \<Rightarrow> socks_sys" where
  "socks_start sid = \<lparr>k_ses = snd (SetBootstrapChannel (node_session None None sid)), k_pc = HWaiting, k_relays = [], k_wire = []\<rparr>"

text \<open>The session part of the invariant: it owns at most the client connection and closes what it owns once.\<close>

definition owns_client :: "nat \<Rightarrow> Session \<Rightarrow> bool" where
  "owns_client c s \<longleftrightarrow> ses_inv s \<and> TargetConn s = None \<and> ClientConn s \<in> {None, Some c}"

definition socks_inv :: "nat \<Rightarrow> socks_sys \<Rightarrow> bool" where
  "socks_inv c s \<longleftrightarrow> owns_client c (k_ses s) \<and>
     (RCopy \<in> set (k_relays s) \<longrightarrow> ClientConn (k_ses s) = Some c) \<and>
     (case k_pc s of
        HWaiting \<Rightarrow> ClientConn (k_ses s) = None \<and> k_wire s = []
      | HReplying _ \<Rightarrow> ClientConn (k_ses s) = None \<and> k_wire s = []
      | HAdopting \<Rightarrow> ClientConn (k_ses s) = None \<and> k_wire s = [WReply 0]
      | HClosing \<Rightarrow> ClientConn (k_ses s) = None \<and> (\<exists>code. k_wire s = [WReply code])
      | HGone \<Rightarrow> (ClientConn (k_ses s) = None \<and> (\<exists>code. k_wire s = [WReply code, WClose])) \<or>
          (ClientConn (k_ses s) = Some c \<and> (\<exists>ps. k_wire s = WReply 0 # map WPayload ps)))"

lemma teardown_conns: "ClientConn (teardown s) = ClientConn s \<and> TargetConn (teardown s) = TargetConn s"
proof -
  have r: "ClientConn (snd (ResolveBootstrap b t)) = ClientConn t \<and> TargetConn (snd (ResolveBootstrap b t)) = TargetConn t" for b t
    by (simp add: ResolveBootstrap_def split: option.split)
  have k: "ClientConn (close_conn_opt x t) = ClientConn t \<and> TargetConn (close_conn_opt x t) = TargetConn t" for x t
    by (simp add: close_conn_opt_def split: option.split)
  have a: "ClientConn (close_att d t) = ClientConn t \<and> TargetConn (close_att d t) = TargetConn t" for d t
    by (simp add: close_att_def)
  show ?thesis by (simp add: teardown_def Let_def r k a)
qed

lemma ses_do_conns:
  assumes "ses_do p s = Some t" and "\<nexists>x. p = SesAdopt x"
  shows "ClientConn t = ClientConn s \<and> TargetConn t = TargetConn s"
proof (cases p)
  case (SesMark d rsn)
  then show ?thesis using assms(1) by (auto simp: MarkDirClosed_begin_def close_att_def Let_def)
next
  case SesTeardown
  then show ?thesis using assms(1) teardown_conns [of s] by (auto split: if_splits)
next
  case (SesAttOp d q)
  then show ?thesis using assms(1) by (auto simp: att_upd_def split: option.splits)
qed (use assms in \<open>auto simp: Activate_def SetBootstrapChannel_def ResolveBootstrap_def WaitBootstrap_def OnClose_def Let_def
      Close_begin_def SetOverflowReason_def split: option.splits list.splits\<close>)

lemma owns_client_step:
  assumes "owns_client c s" and "ses_do p s = Some t" and "\<nexists>x. p = SesAdopt x"
  shows "owns_client c t \<and> ClientConn t = ClientConn s"
  using assms ses_do_conns [OF assms(2,3)] ses_inv_step [OF _ assms(2)] by (auto simp: owns_client_def)

lemma socks_inv_step:
  assumes "socks_inv c s" and "socks_do c l s = Some t"
  shows "socks_inv c t"
proof (cases l)
  case (KSes p)
  then obtain u where "ses_do p (k_ses s) = Some u" "t = s\<lparr>k_ses := u\<rparr>" "\<nexists>x. p = SesAdopt x"
    using assms(2) by (auto split: if_splits)
  then show ?thesis using assms(1) owns_client_step [of c "k_ses s" p u] by (auto simp: socks_inv_def split: handler_pc.splits)
next
  case KVerdict
  then obtain st ok u where u: "WaitBootstrap (k_ses s) = Some ((st, ok), u)" "t = s\<lparr>k_ses := u, k_pc := HReplying (verdict_code st ok)\<rparr>"
      "k_pc s = HWaiting"
    using assms(2) by (auto split: if_splits option.splits)
  then have "owns_client c u \<and> ClientConn u = ClientConn (k_ses s)"
    using owns_client_step [of c "k_ses s" SesWait u] assms(1) by (simp add: socks_inv_def)
  then show ?thesis using assms(1) u by (auto simp: socks_inv_def)
next
  case KAdopt
  then have p: "k_pc s = HAdopting" and t: "t = s\<lparr>k_ses := snd (AdoptConn c (k_ses s)), k_pc := (if fst (AdoptConn c (k_ses s)) then HGone else HClosing)\<rparr>"
    using assms(2) by (auto split: if_splits prod.splits)
  have "ses_inv (snd (AdoptConn c (k_ses s)))"
    by (rule ses_inv_step [of "k_ses s" "SesAdopt c"]) (use assms(1) in \<open>simp_all add: socks_inv_def owns_client_def\<close>)
  then show ?thesis using assms(1) p t by (auto simp: socks_inv_def owns_client_def AdoptConn_def split: if_splits intro: exI [of _ "[]"])
next
  case (KGate i)
  then show ?thesis using assms
    by (auto simp: socks_inv_def owns_client_def split: if_splits handler_pc.splits dest!: set_update_subset_insert [THEN subsetD])
next
  case (KWrite i b)
  then have "RCopy \<in> set (k_relays s)" using assms(2) by (auto split: if_splits simp: in_set_conv_nth)
  then have k: "ClientConn (k_ses s) = Some c" using assms(1) by (simp add: socks_inv_def)
  then obtain ps where ps: "k_pc s = HGone" "k_wire s = WReply 0 # map WPayload ps"
    using assms(1) by (auto simp: socks_inv_def split: handler_pc.splits)
  show ?thesis
  proof (cases "conn_open c s")
    case True
    then have "t = s\<lparr>k_wire := WReply 0 # map WPayload (ps @ [b])\<rparr>" using assms(2) KWrite ps by (auto split: if_splits)
    then show ?thesis using assms(1) k ps(1) unfolding socks_inv_def by (simp del: map_append) blast
  next
    case False
    then have "t = s\<lparr>k_relays := (k_relays s)[i := RGone]\<rparr>" using assms(2) KWrite by (auto split: if_splits)
    then show ?thesis using assms(1) k ps(1) by (auto simp: socks_inv_def)
  qed
qed (use assms in \<open>auto simp: socks_inv_def split: if_splits handler_pc.splits\<close>)

lemma wait_channel_kept:
  assumes "ses_do p s = Some t" and "bootstrapC s = Some []" and "p \<noteq> SesTeardown" "\<forall>st. p \<noteq> SesResolve st" "p \<noteq> SesWait"
  shows "bootstrapC t = Some []"
proof (cases p)
  case (SesMark d rsn)
  then show ?thesis using assms by (auto simp: MarkDirClosed_begin_def close_att_def Let_def)
next
  case (SesAttOp d q)
  then show ?thesis using assms by (auto simp: att_upd_def split: option.splits)
qed (use assms in \<open>auto simp: Activate_def SetBootstrapChannel_def OnClose_def Let_def AdoptConn_def
      Close_begin_def SetOverflowReason_def\<close>)

lemma socks_inv_start: "socks_inv c (socks_start sid)"
proof -
  have "ses_inv (snd (SetBootstrapChannel (node_session None None sid)))"
    by (rule ses_inv_step [of "node_session None None sid" SesSetBootstrap]) (simp_all add: ses_inv_node_session)
  then show ?thesis
    by (simp add: socks_inv_def owns_client_def socks_start_def SetBootstrapChannel_def node_session_def NewSession_def)
qed

lemma socks_inv_run: "socks_run c ls (socks_start sid) = Some s \<Longrightarrow> socks_inv c s"
  by (rule socks_sys.exec_inv [of c ls "socks_start sid"]) (use socks_inv_start socks_inv_step in blast)+

text \<open>C28. However the handler, the relays and the rest of the node interleave, the client sees exactly one SOCKS reply and sees
  it first: what reached the connection is empty, or one reply followed, only after a zero status, by payload, and it is closed once
  at most, by the handler if it kept it and by the session if it adopted it. When the handler is gone and the session closed, the connection is closed.\<close>

theorem socks_reply_before_payload:
  assumes "socks_run c ls (socks_start sid) = Some s"
  shows "(k_wire s = [] \<or> (\<exists>code. k_wire s = [WReply code] \<or> k_wire s = [WReply code, WClose]) \<or> (\<exists>ps. k_wire s = WReply 0 # map WPayload ps)) \<and>
     count_list (k_wire s) WClose + count_list (conn_closes (k_ses s)) c \<le> 1 \<and>
     (k_pc s = HGone \<and> ses_state (k_ses s) = StateClosed \<longrightarrow> \<not> conn_open c s)"
proof -
  have i: "socks_inv c s" by (rule socks_inv_run [OF assms])
  then have w: "k_wire s = [] \<or> (\<exists>code. k_wire s = [WReply code] \<or> k_wire s = [WReply code, WClose]) \<or> (\<exists>ps. k_wire s = WReply 0 # map WPayload ps)"
    by (auto simp: socks_inv_def split: handler_pc.splits)
  have cl: "conn_closes (k_ses s) = (if ses_state (k_ses s) = StateClosed \<and> ClientConn (k_ses s) = Some c then [c] else [])"
    using i by (auto simp: socks_inv_def owns_client_def ses_inv_def conns_def split: option.splits)
  have "WClose \<in> set (k_wire s) \<Longrightarrow> ClientConn (k_ses s) = None \<and> count_list (k_wire s) WClose = 1"
    using i by (auto simp: socks_inv_def split: handler_pc.splits)
  moreover have "k_pc s = HGone \<Longrightarrow> WClose \<in> set (k_wire s) \<or> ClientConn (k_ses s) = Some c"
    using i by (auto simp: socks_inv_def)
  ultimately show ?thesis using w cl by (cases "WClose \<in> set (k_wire s)") (auto simp: conn_open_def count_list_0_iff)
qed

text \<open>Nothing bounds the wait for the verdict: as long as the peer does not answer, the session is not torn down and the node
  is not shut down, the handler stays in its wait and the client gets no reply, whatever else happens to the session.\<close>

lemma bootstrap_wait_unbounded:
  assumes "socks_run c ls (socks_start sid) = Some s"
    and "\<forall>l \<in> set ls. l \<noteq> KShutdown \<and> l \<noteq> KSes SesTeardown \<and> (\<forall>st. l \<noteq> KSes (SesResolve st))"
  shows "k_pc s = HWaiting \<and> k_wire s = [] \<and> socks_do c KVerdict s = None"
proof -
  let ?I = "\<lambda>s. k_pc s = HWaiting \<and> k_wire s = [] \<and> bootstrapC (k_ses s) = Some [] \<and> RCopy \<notin> set (k_relays s) \<and> ClientConn (k_ses s) = None"
  have "?I s"
  proof (rule socks_sys.exec_inv [of c ls "socks_start sid" s ?I, OF assms(1)])
    show "?I (socks_start sid)" by (simp add: socks_start_def SetBootstrapChannel_def node_session_def NewSession_def)
  next
    fix l s t assume l: "l \<in> set ls" and i: "?I s" and d: "socks_do c l s = Some t"
    show "?I t"
    proof (cases l)
      case (KSes p)
      then obtain u where u: "ses_do p (k_ses s) = Some u" "t = s\<lparr>k_ses := u\<rparr>" "\<nexists>x. p = SesAdopt x" "p \<noteq> SesWait"
        using d by (auto split: if_splits)
      moreover have "p \<noteq> SesTeardown" "\<forall>st. p \<noteq> SesResolve st" using assms(2) l KSes by auto
      ultimately have "bootstrapC u = Some []" using i wait_channel_kept by blast
      then show ?thesis using u i ses_do_conns [OF u(1,3)] by simp
    next
      case KVerdict
      then show ?thesis using i d by (simp add: WaitBootstrap_def)
    next
      case KShutdown
      then show ?thesis using l assms(2) by auto
    next
      case (KGate k)
      then show ?thesis using i d by (auto split: if_splits dest!: set_update_subset_insert [THEN subsetD])
    next
      case (KWrite k b)
      then show ?thesis using i d by (auto split: if_splits simp: in_set_conv_nth)
    qed (use i d in \<open>auto split: if_splits\<close>)
  qed
  then show ?thesis by (simp add: WaitBootstrap_def)
qed
definition demo_creds :: socksCredentials where
  "demo_creds = \<lparr>sc_enabled = True, sc_user = ''u'', sc_pass = ''p''\<rparr>"

definition demo_client :: bytes where
  "demo_client = [5, 1, 2, 1, 1, 117, 1, 112, 5, 1, 0, 1, 10, 0, 0, 1, 1, 187]"

lemma demo_negotiation:
  "socksNegotiate True True (Some demo_creds) demo_client =
     ([[5, 2], [1, 0]], Inr (\<lparr>AddrType = 1, Addr = ''10.0.0.1'', Port = 443\<rparr>, []))"
  by code_simp

lemma socks_transcripts_witness:
  "\<exists>ms r'. length ms < 256 \<and> demo_client = 5 # counted ms @ 1 # counted (bytes_of_string ''u'') @ counted (bytes_of_string ''p'') @ r'"
  using socks_transcripts [OF demo_negotiation] by (simp add: demo_creds_def)

definition demo_sources :: LoadedConfig where
  "demo_sources = demo_config\<lparr>SocksAllowedSources := ''10.0.0.0/8''\<rparr>"

lemma demo_sources_parse: "ParseAllowedSources ''10.0.0.0/8'' \<noteq> None"
  by code_simp

lemma demo_sources_hosts:
  "net_SplitHostPort ''10.1.2.3:50'' = Some (''10.1.2.3'', ''50'') \<and> net_SplitHostPort ''11.1.2.3:50'' = Some (''11.1.2.3'', ''50'')"
  by code_simp

lemma demo_sources_inside: "AllowedSourcesMatch ''10.0.0.0/8'' ''10.1.2.3''"
  by code_simp

lemma demo_sources_outside: "\<not> AllowedSourcesMatch ''10.0.0.0/8'' ''11.1.2.3''"
  by code_simp

lemma source_gate_exact_witness:
  "socksSourceGate (newSocksAllowedSources (Some demo_sources)) ''10.1.2.3:50'' \<and>
   \<not> socksSourceGate (newSocksAllowedSources (Some demo_sources)) ''11.1.2.3:50''"
  using source_gate_exact [of demo_sources "''10.1.2.3:50''" "''10.1.2.3''" "''50''"]
    source_gate_exact [of demo_sources "''11.1.2.3:50''" "''11.1.2.3''" "''50''"] demo_sources_parse demo_sources_hosts demo_sources_inside demo_sources_outside
  by (simp add: demo_sources_def)

theorem handler_checks_everything_witness:
  "handleSOCKS5Conn demo_creds (newSocksAllowedSources None) True True ''10.1.2.3:50'' demo_client (\<lambda>_. (0, True)) =
     ([[5, 2], [1, 0], socksReply 0], Some \<lparr>AddrType = 1, Addr = ''10.0.0.1'', Port = 443\<rparr>, OwnedBySession)"
proof -
  obtain ws dest fate where h: "handleSOCKS5Conn demo_creds (newSocksAllowedSources None) True True ''10.1.2.3:50'' demo_client (\<lambda>_. (0, True)) =
      (ws, dest, fate)" by (cases "handleSOCKS5Conn demo_creds (newSocksAllowedSources None) True True ''10.1.2.3:50'' demo_client (\<lambda>_. (0, True))") auto
  have "dest = Some \<lparr>AddrType = 1, Addr = ''10.0.0.1'', Port = 443\<rparr>"
    using h by (auto simp: handleSOCKS5Conn_def demo_negotiation socksSourceGate_def newSocksAllowedSources_def)
  then show ?thesis using handler_checks_everything [OF h] h by (auto simp: demo_negotiation)
qed

lemma long_password_locks_out_witness:
  "\<nexists>w1 w2 r ws x. socksNegotiate w1 w2 (Some (newSocksCredentials (Some (demo_config\<lparr>SocksUser := ''u'',
     SocksPass := replicate 256 (CHR ''a'')\<rparr>)))) r = (ws, Inr x)"
  by (rule long_password_locks_out) simp_all

definition demo_run :: "socks_label list" where
  "demo_run = [KSes SesActivate, KRelay, KSes (SesResolve 0), KVerdict, KReply, KAdopt, KGate 0, KWrite 0 [1, 2]]"

lemma demo_run_result:
  "map_option k_wire (socks_run 7 demo_run (socks_start 9)) = Some [WReply 0, WPayload [1, 2]]"
  by (simp add: demo_run_def socks_start_def node_session_def NewSession_def SetBootstrapChannel_def Activate_def ResolveBootstrap_def
      WaitBootstrap_def verdict_code_def AdoptConn_def conn_open_def)

theorem socks_reply_before_payload_witness:
  "\<exists>s. socks_run 7 demo_run (socks_start 9) = Some s \<and> k_wire s = [WReply 0, WPayload [1, 2]] \<and>
     count_list (k_wire s) WClose + count_list (conn_closes (k_ses s)) 7 \<le> 1"
proof -
  obtain s where s: "socks_run 7 demo_run (socks_start 9) = Some s" "k_wire s = [WReply 0, WPayload [1, 2]]"
    using demo_run_result by auto
  then show ?thesis using socks_reply_before_payload [OF s(1)] by blast
qed

lemma bootstrap_wait_unbounded_witness:
  "\<exists>s. socks_run 7 [KSes SesActivate, KRelay] (socks_start 9) = Some s \<and> k_pc s = HWaiting \<and> socks_do 7 KVerdict s = None"
proof -
  obtain s where "socks_run 7 [KSes SesActivate, KRelay] (socks_start 9) = Some s"
    by (simp add: socks_start_def node_session_def NewSession_def SetBootstrapChannel_def Activate_def)
  then show ?thesis using bootstrap_wait_unbounded [of 7 "[KSes SesActivate, KRelay]" 9] by auto
qed

end
