(* ===== verification/DeployPlan.thy ===== *)
theory DeployPlan
  imports Config "HOL-Library.List_Lexorder"
begin

text \<open>
  Desired state and plans of the deployment controller (\<^verbatim>\<open>src/internal/deploy/model.go\<close>,
  \<^verbatim>\<open>planner.go\<close>, \<^verbatim>\<open>journal.go\<close>, and \<open>BuildJournal\<close> of \<^verbatim>\<open>linux_adapter.go\<close>), over a model of the
  lexical path functions of \<^verbatim>\<open>path/filepath\<close> on Unix. The planner and the journal are pure; the result of
  \<open>os.Lstat\<close> on a path is an argument. Times are nanoseconds, the zero time is \<open>None\<close>.
\<close>

section \<open>Paths\<close>

definition IsAbs :: "string \<Rightarrow> bool" where
  "IsAbs p \<longleftrightarrow> HasPrefix p ''/''"

text \<open>The elements that \<open>filepath.Clean\<close> keeps, newest first in the accumulator.\<close>

fun clean_parts :: "bool \<Rightarrow> string list \<Rightarrow> string list \<Rightarrow> string list" where
  "clean_parts rooted out [] = rev out"
| "clean_parts rooted out (p # ps) =
     (if p = [] \<or> p = ''.'' then clean_parts rooted out ps
      else if p = ''..''
      then (if out \<noteq> [] \<and> hd out \<noteq> ''..'' then clean_parts rooted (tl out) ps
            else if rooted then clean_parts rooted out ps
            else clean_parts rooted (p # out) ps)
      else clean_parts rooted (p # out) ps)"

fun join_path :: "string list \<Rightarrow> string" where
  "join_path [] = []"
| "join_path [p] = p"
| "join_path (p # q # ps) = p @ ''/'' @ join_path (q # ps)"

definition parts :: "string \<Rightarrow> string list" where
  "parts p = clean_parts (IsAbs p) [] (Split CHR ''/'' p)"

definition Clean :: "string \<Rightarrow> string" where
  "Clean p = (if IsAbs p then ''/'' @ join_path (parts p) else if parts p = [] then ''.'' else join_path (parts p))"

text \<open>\<open>filepath.Rel\<close>: the elements left after the common ones; a differing \<open>..\<close> of the base cannot be undone. A target
  that is the current directory keeps its single dot.\<close>

fun rel_parts :: "string list \<Rightarrow> string list \<Rightarrow> string list option" where
  "rel_parts [] ts = Some ts"
| "rel_parts (b # bs) [] = Some (replicate (Suc (length bs)) ''..'')"
| "rel_parts (b # bs) (t # ts) =
     (if b = t then rel_parts bs ts
      else if b = ''..'' then None
      else Some (replicate (Suc (length bs)) ''..'' @ t # ts))"

definition Rel :: "string \<Rightarrow> string \<Rightarrow> string option" where
  "Rel base targ =
     (if Clean targ = Clean base then Some ''.''
      else if IsAbs base \<noteq> IsAbs targ then None
      else map_option join_path (rel_parts (parts base) (if IsAbs targ \<or> parts targ \<noteq> [] then parts targ else [''.''])))"

definition within :: "string \<Rightarrow> string \<Rightarrow> bool" where
  "within root path =
     (case Rel (Clean root) (Clean path) of
        None \<Rightarrow> False
      | Some rel \<Rightarrow> rel \<noteq> ''.'' \<and> rel \<noteq> ''..'' \<and> (length rel < 3 \<or> take 3 rel \<noteq> ''../''))"

text \<open>\<open>filepath.Base\<close> and \<open>filepath.Ext\<close>.\<close>

definition Base :: "string \<Rightarrow> string" where
  "Base p = (if p = [] then ''.''
     else (let q = rev (dropWhile (\<lambda>c. c = CHR ''/'') (rev p))
           in if q = [] then ''/'' else rev (takeWhile (\<lambda>c. c \<noteq> CHR ''/'') (rev q))))"

definition Ext :: "string \<Rightarrow> string" where
  "Ext p = (let b = rev (takeWhile (\<lambda>c. c \<noteq> CHR ''/'') (rev p))
     in if CHR ''.'' \<in> set b then CHR ''.'' # rev (takeWhile (\<lambda>c. c \<noteq> CHR ''.'') (rev b)) else [])"

section \<open>Recorded state\<close>

record ComponentState =
  c_Version :: string
  c_Path :: string
  c_SHA256 :: string
  c_RealityFingerprint :: string

record OriginState =
  o_Mode :: string
  o_Version :: string
  o_Domain :: string
  o_UpstreamAddr :: string
  o_OriginPort :: int
  o_ACMEChallenge :: string
  o_ACMEEmail :: string
  o_CDNSecurity :: string
  o_CDNOriginTrust :: string
  o_CaddyfileHash :: string

record Components =
  Splitter :: ComponentState
  Xray :: ComponentState
  Origin :: OriginState

record Paths =
  p_StateRoot :: string
  p_Env :: string
  p_Config :: string
  p_UnitDir :: string
  p_WantsDir :: string
  p_LogDir :: string
  p_DataDir :: string
  p_BinaryPrefix :: string
  p_UnitsBackupDir :: string
  p_UnitFiles :: "string list"
  p_BinaryPointer :: string

record PairingState =
  ps_PeerRole :: string
  ps_State :: string
  ps_Fingerprints :: "string list"
  ps_PairingStale :: bool

record ServiceState =
  sv_Unit :: string
  sv_Component :: string
  sv_Hash :: string

record FirewallState =
  f_Backend :: string
  f_Ownership :: string
  f_RulesHash :: string

record Revision =
  r_ID :: string
  r_Timestamp :: int
  r_Label :: string
  r_Snapshot :: string

record ExtraUnitState =
  x_Unit :: string
  x_Component :: string
  x_Hash :: string
  x_ConfigPath :: string
  x_EnvFile :: string
  x_BasePath :: string

record Manifest =
  m_Schema :: int
  m_Role :: string
  m_Generation :: string
  m_CreatedAt :: "int option"
  m_UpdatedAt :: "int option"
  m_ManifestHash :: string
  m_Components :: Components
  m_Paths :: Paths
  m_Pairing :: PairingState
  m_Services :: "ServiceState list"
  m_Firewall :: FirewallState
  m_ConfigFingerprint :: string
  m_Revisions :: "Revision list"
  m_Extra :: "ExtraUnitState list"

record DesiredState =
  d_Role :: string
  d_Components :: Components
  d_Paths :: Paths
  d_Pairing :: PairingState
  d_Services :: "ServiceState list"
  d_Firewall :: FirewallState
  d_ConfigFingerprint :: string

record Change =
  ch_Field :: string
  ch_Before :: string
  ch_After :: string
  ch_Destructive :: bool

record Plan =
  Changes :: "Change list"
  Unchanged :: bool

definition SchemaVersion :: int where "SchemaVersion = 2"

definition legacySchema :: "int \<Rightarrow> bool" where
  "legacySchema v \<longleftrightarrow> v = 1"

abbreviation known_role :: "string \<Rightarrow> bool" where
  "known_role r \<equiv> r = ''iran'' \<or> r = ''germany''"

section \<open>The planner\<close>

definition compare :: "string \<Rightarrow> string \<Rightarrow> string \<Rightarrow> bool \<Rightarrow> Change list" where
  "compare field before after destructive =
     (if before \<noteq> after then [\<lparr>ch_Field = field, ch_Before = before, ch_After = after, ch_Destructive = destructive\<rparr>] else [])"

definition compareIdentity :: "string \<Rightarrow> string \<Rightarrow> string \<Rightarrow> bool \<Rightarrow> Change list" where
  "compareIdentity field before after destructive = (if after = [] then [] else compare field before after destructive)"

definition count_change :: "string \<Rightarrow> 'a list \<Rightarrow> 'a list \<Rightarrow> Change" where
  "count_change field before after =
     \<lparr>ch_Field = field, ch_Before = Itoa (int (length before)), ch_After = Itoa (int (length after)), ch_Destructive = True\<rparr>"

definition servicesEqual :: "ServiceState list \<Rightarrow> ServiceState list \<Rightarrow> bool" where
  "servicesEqual current desired \<longleftrightarrow>
     length current = length desired \<and>
     list_all2 (\<lambda>c d. sv_Unit c = sv_Unit d \<and> sv_Component c = sv_Component d \<and>
        (sv_Hash d \<noteq> [] \<longrightarrow> sv_Hash c = sv_Hash d)) current desired"

definition component_changes :: "Components \<Rightarrow> Components \<Rightarrow> Change list" where
  "component_changes c d =
     compare ''components.splitter.version'' (c_Version (Splitter c)) (c_Version (Splitter d)) False @
     compare ''components.splitter.path'' (c_Path (Splitter c)) (c_Path (Splitter d)) True @
     compare ''components.xray.version'' (c_Version (Xray c)) (c_Version (Xray d)) False @
     compare ''components.xray.path'' (c_Path (Xray c)) (c_Path (Xray d)) True @
     compareIdentity ''components.splitter.sha256'' (c_SHA256 (Splitter c)) (c_SHA256 (Splitter d)) True @
     compareIdentity ''components.xray.sha256'' (c_SHA256 (Xray c)) (c_SHA256 (Xray d)) True @
     compareIdentity ''components.xray.realityFingerprint'' (c_RealityFingerprint (Xray c)) (c_RealityFingerprint (Xray d)) True"

definition origin_changes :: "OriginState \<Rightarrow> OriginState \<Rightarrow> Change list" where
  "origin_changes c d =
     compare ''components.origin.mode'' (o_Mode c) (o_Mode d) True @
     compare ''components.origin.version'' (o_Version c) (o_Version d) False @
     compare ''components.origin.domain'' (o_Domain c) (o_Domain d) True @
     compareIdentity ''components.origin.upstreamAddr'' (o_UpstreamAddr c) (o_UpstreamAddr d) True @
     compareIdentity ''components.origin.originPort'' (Itoa (o_OriginPort c)) (Itoa (o_OriginPort d)) True @
     compareIdentity ''components.origin.acmeChallenge'' (o_ACMEChallenge c) (o_ACMEChallenge d) True @
     compareIdentity ''components.origin.acmeEmail'' (o_ACMEEmail c) (o_ACMEEmail d) True @
     compareIdentity ''components.origin.cdnSecurity'' (o_CDNSecurity c) (o_CDNSecurity d) True @
     compareIdentity ''components.origin.cdnOriginTrust'' (o_CDNOriginTrust c) (o_CDNOriginTrust d) True @
     compareIdentity ''components.origin.caddyfileHash'' (o_CaddyfileHash c) (o_CaddyfileHash d) True"

definition path_changes :: "Paths \<Rightarrow> Paths \<Rightarrow> Change list" where
  "path_changes c d =
     compare ''paths.env'' (p_Env c) (p_Env d) True @
     compare ''paths.config'' (p_Config c) (p_Config d) True @
     compareIdentity ''paths.unitDir'' (p_UnitDir c) (p_UnitDir d) True @
     compareIdentity ''paths.wantsDir'' (p_WantsDir c) (p_WantsDir d) True @
     compareIdentity ''paths.logDir'' (p_LogDir c) (p_LogDir d) True @
     compareIdentity ''paths.dataDir'' (p_DataDir c) (p_DataDir d) True @
     compareIdentity ''paths.binaryPrefix'' (p_BinaryPrefix c) (p_BinaryPrefix d) True @
     compareIdentity ''paths.unitsBackupDir'' (p_UnitsBackupDir c) (p_UnitsBackupDir d) True @
     compareIdentity ''paths.binaryPointer'' (p_BinaryPointer c) (p_BinaryPointer d) True @
     (if p_UnitFiles d \<noteq> [] \<and> p_UnitFiles c \<noteq> p_UnitFiles d
      then [count_change ''paths.unitFiles'' (p_UnitFiles c) (p_UnitFiles d)] else [])"

definition firewall_changes :: "FirewallState \<Rightarrow> FirewallState \<Rightarrow> Change list" where
  "firewall_changes c d =
     compare ''firewall.backend'' (f_Backend c) (f_Backend d) True @
     compare ''firewall.ownership'' (f_Ownership c) (f_Ownership d) True @
     compare ''firewall.rulesHash'' (f_RulesHash c) (f_RulesHash d) True"

definition pairing_changes :: "PairingState \<Rightarrow> PairingState \<Rightarrow> Change list" where
  "pairing_changes c d =
     compare ''pairing.state'' (ps_State c) (ps_State d) True @
     (if ps_Fingerprints d \<noteq> [] \<and> ps_Fingerprints c \<noteq> ps_Fingerprints d
      then [count_change ''pairing.fingerprints'' (ps_Fingerprints c) (ps_Fingerprints d)] else [])"

definition plan_changes :: "Manifest \<Rightarrow> DesiredState \<Rightarrow> Change list" where
  "plan_changes c d =
     component_changes (m_Components c) (d_Components d) @
     origin_changes (Origin (m_Components c)) (Origin (d_Components d)) @
     path_changes (m_Paths c) (d_Paths d) @
     compareIdentity ''config.fingerprint'' (m_ConfigFingerprint c) (d_ConfigFingerprint d) False @
     firewall_changes (m_Firewall c) (d_Firewall d) @
     pairing_changes (m_Pairing c) (d_Pairing d) @
     (if \<not> servicesEqual (m_Services c) (d_Services d)
      then [count_change ''services'' (m_Services c) (d_Services d)] else [])"

text \<open>\<open>None\<close> is the error on a role that is unknown or changes in place.\<close>

definition PlanDesired :: "Manifest option \<Rightarrow> DesiredState \<Rightarrow> Plan option" where
  "PlanDesired current desired =
     (if \<not> known_role (d_Role desired) then None
      else case current of
             None \<Rightarrow> Some \<lparr>Changes = [\<lparr>ch_Field = ''install'', ch_Before = [], ch_After = d_Role desired, ch_Destructive = False\<rparr>],
                           Unchanged = False\<rparr>
           | Some c \<Rightarrow>
               if m_Role c \<noteq> d_Role desired then None
               else Some \<lparr>Changes = plan_changes c desired, Unchanged = (plan_changes c desired = [])\<rparr>)"

section \<open>The journal\<close>

record ArtifactJournal =
  j_Generation :: string
  j_Role :: string
  j_EnvChanged :: bool
  j_Files :: "string list"
  j_PreFiles :: "string list"
  j_Units :: "string list"
  j_PreUnits :: "string list"
  j_Firewall :: bool
  j_XrayDir :: string
  j_OriginDir :: string

definition managedBinaryPrefix :: string where
  "managedBinaryPrefix = ''/opt/split-tunnel''"

definition binaryPrefixContained :: "string \<Rightarrow> bool" where
  "binaryPrefixContained dir \<longleftrightarrow> (IsAbs dir \<or> HasPrefix dir ''/'') \<and> within managedBinaryPrefix dir"

definition validate_journal :: "string \<Rightarrow> ArtifactJournal \<Rightarrow> bool" where
  "validate_journal root j \<longleftrightarrow>
     known_role (j_Role j) \<and>
     list_all (\<lambda>p. IsAbs p \<and> within root p) (j_Files j @ j_PreFiles j) \<and>
     list_all (\<lambda>u. u \<noteq> [] \<and> Base u = u \<and> Ext u = ''.service'') (j_Units j @ j_PreUnits j) \<and>
     list_all (\<lambda>d. d = [] \<or> binaryPrefixContained d) [j_XrayDir j, j_OriginDir j]"

text \<open>\<^verbatim>\<open>^v\d+\.\d+\.\d+$\<close>, shared by the two managed binaries.\<close>

definition is_digits :: "string \<Rightarrow> bool" where
  "is_digits s \<longleftrightarrow> s \<noteq> [] \<and> list_all (\<lambda>c. digit_val c \<noteq> None) s"

definition ValidVersion :: "string \<Rightarrow> bool" where
  "ValidVersion v = (case v of [] \<Rightarrow> False
     | c # r \<Rightarrow> c = CHR ''v'' \<and> (case Split CHR ''.'' r of [a, b, d] \<Rightarrow> is_digits a \<and> is_digits b \<and> is_digits d | _ \<Rightarrow> False))"

definition xray_VersionDir :: "string \<Rightarrow> string option" where
  "xray_VersionDir version = (if ValidVersion version then Some (managedBinaryPrefix @ ''/xray/'' @ version) else None)"

definition origin_VersionDir :: "string \<Rightarrow> string option" where
  "origin_VersionDir version = (if ValidVersion version then Some (managedBinaryPrefix @ ''/caddy/'' @ version) else None)"

datatype lstat = Present | Absent | StatError

text \<open>Byte-wise order of \<open>sort.Strings\<close>.\<close>

definition sort_strings :: "string list \<Rightarrow> string list" where
  "sort_strings = sort_key (map (of_char :: char \<Rightarrow> nat))"

definition BuildJournal :: "(string \<Rightarrow> lstat) \<Rightarrow> string \<Rightarrow> Manifest \<Rightarrow> DesiredState \<Rightarrow> ArtifactJournal option" where
  "BuildJournal st root previous d =
     (let env = p_Env (d_Paths d);
          files = sort_strings (filter (\<lambda>f. f \<noteq> []) [env, p_Config (d_Paths d)]);
          env_changed = (env \<noteq> [] \<and>
            (st env = Absent \<or>
             m_Generation previous \<noteq> [] \<and> m_ConfigFingerprint previous \<noteq> [] \<and>
             d_ConfigFingerprint d \<noteq> m_ConfigFingerprint previous));
          j = \<lparr>j_Generation = [], j_Role = d_Role d, j_EnvChanged = env_changed,
               j_Files = filter (\<lambda>f. st f = Absent) files, j_PreFiles = filter (\<lambda>f. st f = Present) files,
               j_Units = sort_strings (map sv_Unit (d_Services d)), j_PreUnits = sort_strings (map sv_Unit (m_Services previous)),
               j_Firewall = (f_Backend (d_Firewall d) \<noteq> [] \<and> f_Backend (d_Firewall d) \<noteq> ''none''),
               j_XrayDir = (if d_Role d = ''germany'' \<and> c_Version (Xray (d_Components d)) \<noteq> []
                  then (case xray_VersionDir (c_Version (Xray (d_Components d))) of Some x \<Rightarrow> x | None \<Rightarrow> []) else []),
               j_OriginDir = (if d_Role d = ''iran'' \<and> o_Version (Origin (d_Components d)) \<noteq> []
                  then (case origin_VersionDir (o_Version (Origin (d_Components d))) of Some x \<Rightarrow> x | None \<Rightarrow> []) else [])\<rparr>
      in if \<not> known_role (d_Role d) \<or> StatError \<in> st ` set files then None
         else if validate_journal root j then Some j else None)"

section \<open>Containment\<close>

text \<open>The elements of a cleaned absolute path.\<close>

definition plain :: "string \<Rightarrow> bool" where
  "plain p \<longleftrightarrow> p \<noteq> [] \<and> p \<noteq> ''.'' \<and> p \<noteq> ''..'' \<and> CHR ''/'' \<notin> set p"

lemma Split_piece: "p \<in> set (Split c s) \<Longrightarrow> c \<notin> set p"
  by (induction c s arbitrary: p rule: Split.induct) (auto split: if_splits list.splits)

lemma clean_parts_plain:
  assumes "\<forall>p \<in> set ps. CHR ''/'' \<notin> set p" and "list_all plain out"
  shows "list_all plain (clean_parts True out ps)"
  using assms
proof (induction ps arbitrary: out)
  case (Cons p ps)
  have "list_all plain (tl out)" using Cons.prems(2) by (cases out) simp_all
  moreover have "p \<noteq> [] \<Longrightarrow> p \<noteq> ''.'' \<Longrightarrow> p \<noteq> ''..'' \<Longrightarrow> list_all plain (p # out)"
    using Cons.prems by (simp add: plain_def [of p])
  ultimately show ?case using Cons by simp
qed (simp add: list_all_iff)

lemma parts_plain: "IsAbs p \<Longrightarrow> list_all plain (parts p)"
  unfolding parts_def by (simp add: clean_parts_plain Split_piece)

lemma clean_parts_id: "list_all plain ps \<Longrightarrow> clean_parts True out ps = rev out @ ps"
  by (induction ps arbitrary: out) (auto simp: plain_def)

lemma Split_word: "c \<notin> set w \<Longrightarrow> Split c w = [w]"
  by (induction w) auto

lemma Split_join: "ps \<noteq> [] \<Longrightarrow> list_all plain ps \<Longrightarrow> Split CHR ''/'' (join_path ps) = ps"
proof (induction ps rule: join_path.induct)
  case (3 p q ps)
  have "Split c (w @ c # s) = w # Split c s" if "c \<notin> set w" for c :: char and w s
    using that by (induction w) (auto)
  then show ?case using 3 by (simp add: plain_def)
qed (auto simp: plain_def Split_word)

lemma Clean_abs:
  assumes a: "IsAbs p"
  shows "IsAbs (Clean p)" "parts (Clean p) = parts p" "Clean p = CHR ''/'' # join_path (parts p)"
proof -
  have c: "Clean p = CHR ''/'' # join_path (parts p)" using a by (simp add: Clean_def)
  then have i: "IsAbs (Clean p)" by (simp add: IsAbs_def HasPrefix_def)
  have "clean_parts True [] (Split CHR ''/'' (join_path (parts p))) = parts p"
    using parts_plain [OF a] by (cases "parts p = []") (simp_all add: Split_join clean_parts_id)
  then have "parts (Clean p) = parts p" using i c by (simp add: parts_def)
  then show "IsAbs (Clean p)" "parts (Clean p) = parts p" "Clean p = CHR ''/'' # join_path (parts p)" using i c by blast+
qed

lemma rel_parts_below: "rel_parts bs (bs @ ts) = Some ts"
  by (induction bs) auto

lemma rel_parts_out:
  "list_all plain bs \<Longrightarrow> \<nexists>r. ts = bs @ r \<Longrightarrow> \<exists>r. rel_parts bs ts = Some (''..'' # r)"
  by (induction bs ts rule: rel_parts.induct) (auto simp: plain_def)

lemma join_path_Cons: "join_path (p # ps) = p @ (if ps = [] then [] else CHR ''/'' # join_path ps)"
  by (cases ps) simp_all

lemma join_below:
  assumes "plain p"
  shows "join_path (p # ps) \<noteq> ''.'' \<and> join_path (p # ps) \<noteq> ''..'' \<and> take 3 (join_path (p # ps)) \<noteq> ''../''"
proof -
  obtain a q where p: "p = a # q" using assms by (cases p) (auto simp: plain_def)
  show ?thesis
    using assms unfolding p join_path_Cons
    by (cases q; cases "tl q"; cases "tl (tl q)") (auto simp: plain_def numeral_3_eq_3 split: if_splits)
qed

lemma within_abs:
  assumes "IsAbs root" and "IsAbs path"
  shows "within root path \<longleftrightarrow> (\<exists>below. below \<noteq> [] \<and> parts path = parts root @ below)"
proof -
  note r = Clean_abs [OF assms(1)] and p = Clean_abs [OF assms(2)]
  have rp: "Rel (Clean root) (Clean path) = (if parts path = parts root then Some ''.'' else map_option join_path (rel_parts (parts root) (parts path)))"
  proof -
    have "Clean (Clean root) = Clean root" "Clean (Clean path) = Clean path"
      using Clean_abs(3) [OF r(1)] Clean_abs(3) [OF p(1)] r(2,3) p(2,3) by simp_all
    moreover have "Clean path = Clean root \<longleftrightarrow> parts path = parts root" using r(2,3) p(2,3) by metis
    ultimately show ?thesis using r(1,2) p(1,2) by (simp add: Rel_def)
  qed
  show ?thesis
  proof (cases "\<exists>below. parts path = parts root @ below")
    case True
    then obtain b where b: "parts path = parts root @ b" by blast
    have "list_all plain b" using parts_plain [OF assms(2)] b by (simp add: list_all_iff)
    then show ?thesis using b rp join_below by (cases b) (auto simp: within_def rel_parts_below)
  next
    case False
    then obtain u where "rel_parts (parts root) (parts path) = Some (''..'' # u)"
      using rel_parts_out [OF parts_plain [OF assms(1)]] by blast
    then show ?thesis using False rp by (auto simp: within_def join_path_Cons)
  qed
qed

lemma abs_prefix [simp]: "IsAbs managedBinaryPrefix" "parts managedBinaryPrefix = [''opt'', ''split-tunnel'']"
  by (simp_all add: managedBinaryPrefix_def IsAbs_def HasPrefix_def parts_def)

lemma last_element: "CHR ''/'' \<notin> set u \<Longrightarrow> rev (takeWhile (\<lambda>c. c \<noteq> CHR ''/'') (rev u)) = u"
proof -
  assume "CHR ''/'' \<notin> set u"
  then have "takeWhile (\<lambda>c. c \<noteq> CHR ''/'') (rev u) = rev u" by (auto simp: takeWhile_eq_all_conv)
  then show ?thesis by (simp only: rev_rev_ident)
qed

lemma service_name:
  assumes b: "Base u = u" and e: "Ext u = ''.service''" and "u \<noteq> []"
  shows "CHR ''/'' \<notin> set u \<and> HasSuffix u ''.service''"
proof -
  have "u = ''/'' \<or> (\<exists>q. u = rev (takeWhile (\<lambda>c. c \<noteq> CHR ''/'') (rev q)))"
    using b \<open>u \<noteq> []\<close> unfolding Base_def Let_def by (metis rev_rev_ident)
  moreover have "u \<noteq> ''/''" using e by (auto simp: Ext_def)
  ultimately have s: "CHR ''/'' \<notin> set u" by (auto dest: set_takeWhileD)
  obtain x y where xy: "rev u = x @ CHR ''.'' # y" "CHR ''.'' \<notin> set x"
    using split_list_first [of "CHR ''.''" "rev u"] e by (auto simp: Ext_def last_element [OF s] split: if_splits)
  then have "takeWhile (\<lambda>c. c \<noteq> CHR ''.'') (rev u) = x" by (auto simp: takeWhile_append takeWhile_eq_all_conv [THEN iffD2])
  then have "rev x = ''service''" using e by (auto simp: Ext_def last_element [OF s] split: if_splits)
  moreover have "u = rev y @ CHR ''.'' # rev x" using xy(1) by (metis append.assoc append_Cons append_Nil rev.simps(2) rev_append rev_rev_ident)
  ultimately show ?thesis using s by (simp add: HasSuffix_def)
qed

text \<open>C39. A journal that validates confines recovery: the cleaned path of every file it names lies strictly below the state
  root, every directory it names lies strictly below the managed binary prefix, whatever dots and slashes the names contain,
  and every unit is a plain service name without a directory.\<close>

theorem journal_confined:
  assumes "validate_journal root j" and "IsAbs root"
  shows "(\<forall>f \<in> set (j_Files j @ j_PreFiles j). \<exists>below. below \<noteq> [] \<and> list_all plain below \<and> parts f = parts root @ below) \<and>
     (\<forall>d \<in> {j_XrayDir j, j_OriginDir j} - {[]}. \<exists>below. below \<noteq> [] \<and> list_all plain below \<and>
        parts d = [''opt'', ''split-tunnel''] @ below) \<and>
     (\<forall>u \<in> set (j_Units j @ j_PreUnits j). CHR ''/'' \<notin> set u \<and> HasSuffix u ''.service'')"
proof -
  have w: "\<exists>below. below \<noteq> [] \<and> list_all plain below \<and> parts f = parts r @ below" if wf: "within r f" "IsAbs f" "IsAbs r" for f r
  proof -
    obtain b where b: "b \<noteq> []" "parts f = parts r @ b" using within_abs [OF wf(3,2)] wf(1) by blast
    then show ?thesis using parts_plain [OF wf(2)] by (auto simp: list_all_iff)
  qed
  have "\<forall>d \<in> {j_XrayDir j, j_OriginDir j} - {[]}. IsAbs d \<and> within managedBinaryPrefix d"
    using assms(1) by (auto simp: validate_journal_def binaryPrefixContained_def IsAbs_def)
  then have "\<forall>d \<in> {j_XrayDir j, j_OriginDir j} - {[]}. \<exists>below. below \<noteq> [] \<and> list_all plain below \<and> parts d = [''opt'', ''split-tunnel''] @ below"
    using w [of managedBinaryPrefix] by auto
  moreover have "\<forall>f \<in> set (j_Files j @ j_PreFiles j). \<exists>below. below \<noteq> [] \<and> list_all plain below \<and> parts f = parts root @ below"
  proof
    fix f assume "f \<in> set (j_Files j @ j_PreFiles j)"
    then have "IsAbs f \<and> within root f" using assms(1) unfolding validate_journal_def list_all_iff by blast
    then show "\<exists>below. below \<noteq> [] \<and> list_all plain below \<and> parts f = parts root @ below" using w assms(2) by blast
  qed
  moreover have "\<forall>u \<in> set (j_Units j @ j_PreUnits j). CHR ''/'' \<notin> set u \<and> HasSuffix u ''.service''"
    using assms(1) service_name unfolding validate_journal_def list_all_iff by blast
  ultimately show ?thesis by blast
qed

definition demo_journal :: ArtifactJournal where
  "demo_journal = \<lparr>j_Generation = ''pending-1'', j_Role = ''germany'', j_EnvChanged = True,
     j_Files = [''/etc/split-tunnel/./germany.env''], j_PreFiles = [''/etc/split-tunnel/x/../xray.json''],
     j_Units = [''germany-splitter.service''], j_PreUnits = [], j_Firewall = False,
     j_XrayDir = ''/opt/split-tunnel/xray/v26.3.27'', j_OriginDir = []\<rparr>"

theorem journal_confined_witness:
  "\<exists>below. below \<noteq> [] \<and> parts ''/etc/split-tunnel/x/../xray.json'' = parts ''/etc/split-tunnel'' @ below"
proof -
  have "validate_journal ''/etc/split-tunnel'' demo_journal" by code_simp
  moreover have "IsAbs ''/etc/split-tunnel''" by (simp add: IsAbs_def HasPrefix_def)
  ultimately show ?thesis using journal_confined [of "''/etc/split-tunnel''" demo_journal] by (auto simp: demo_journal_def)
qed

section \<open>Plans\<close>

text \<open>What it means that a recorded state meets a request: structural fields are equal, asserted identity fields are equal.\<close>

definition asserted :: "string \<Rightarrow> string \<Rightarrow> bool" where
  "asserted recorded wanted \<longleftrightarrow> wanted = [] \<or> recorded = wanted"

lemma compare_Nil [simp]: "compare f b a x = [] \<longleftrightarrow> b = a"
  by (simp add: compare_def)

lemma compareIdentity_Nil [simp]: "compareIdentity f b a x = [] \<longleftrightarrow> asserted b a"
  by (simp add: compareIdentity_def asserted_def)

lemma asserted_refl [simp]: "asserted a a"
  by (simp add: asserted_def)

lemma servicesEqual_refl [simp]: "servicesEqual s s"
  by (simp add: servicesEqual_def list_all2_same)

text \<open>A manifest that carries the desired fields is met, whatever its other fields are.\<close>

lemma plan_recorded:
  assumes "m_Components m = d_Components d" "m_Services m = d_Services d" "m_Firewall m = d_Firewall d"
    "m_ConfigFingerprint m = d_ConfigFingerprint d"
    "\<exists>root. m_Paths m = (d_Paths d)\<lparr>p_StateRoot := root\<rparr>" "\<exists>b. m_Pairing m = (d_Pairing d)\<lparr>ps_PairingStale := b\<rparr>"
  shows "plan_changes m d = []"
  using assms by (auto simp: plan_changes_def component_changes_def origin_changes_def path_changes_def firewall_changes_def pairing_changes_def)

text \<open>The origin port is asserted even by a request that leaves it unset, since its text is never empty.\<close>

lemma digits_nonempty: "digits n \<noteq> []"
  by (simp add: digits.simps [of n])

lemma unset_port_is_drift:
  assumes "o_OriginPort (Origin (m_Components m)) \<noteq> 0" "o_OriginPort (Origin (d_Components d)) = 0"
  shows "plan_changes m d \<noteq> []"
proof -
  have "Itoa n \<noteq> Itoa 0 \<or> n = 0" for n
  proof -
    have "char_of (48 + k) = CHR ''0'' \<Longrightarrow> k < 10 \<Longrightarrow> k = 0" for k :: nat
    proof -
      assume "char_of (48 + k) = CHR ''0''" and k: "k < 10"
      then have "(of_char (char_of (48 + k) :: char) :: nat) = of_char (CHR ''0'')" by (simp only:)
      then have "(48 + k) mod 256 = (48 :: nat)" by (simp only: of_char_of) simp
      then show "k = 0" using k by simp
    qed
    then have "digits k = ''0'' \<Longrightarrow> k = 0" for k
      by (subst (asm) digits.simps) (auto split: if_splits simp: digits_nonempty)
    moreover have "Itoa 0 = ''0''" by code_simp
    ultimately show ?thesis by (fastforce simp: Itoa_def split: if_splits)
  qed
  then have "\<not> asserted (Itoa (o_OriginPort (Origin (m_Components m)))) (Itoa (o_OriginPort (Origin (d_Components d))))"
    using assms by (simp add: asserted_def Itoa_def digits_nonempty) (metis Itoa_def digits_nonempty nat_0_iff order.refl)
  then show ?thesis unfolding plan_changes_def origin_changes_def by auto
qed

end
