(* ===== verification/Deploy.thy ===== *)
theory Deploy
  imports DeployPlan Pairing
begin

text \<open>
  The deployment store, transactions and the controller (\<^verbatim>\<open>src/internal/deploy/state.go\<close>, \<^verbatim>\<open>journal.go\<close>,
  \<^verbatim>\<open>transaction.go\<close>, \<^verbatim>\<open>adapter.go\<close>, \<^verbatim>\<open>rollback.go\<close>, \<^verbatim>\<open>controller.go\<close>). The state directory is three kinds of file contents: the
  committed manifest, the in-flight journal, and one snapshot per retained revision; \<open>atomicWrite\<close> replaces a file or
  leaves it. Which file operation fails is an argument \<open>ok\<close>, the time another one. The host behind the injected adapter
  is a type parameter that the adapter's operations transform, each reporting success or failure. JSON and SHA-256
  are parameters.
\<close>

section \<open>The store\<close>

record disk =
  state_json :: "bytes option"
  journal_json :: "bytes option"
  revisions :: "(string \<times> bytes) list"

record deploy_libs =
  json_Marshal :: "Manifest \<Rightarrow> bytes"
  json_Indent :: "Manifest \<Rightarrow> bytes"
  json_Strict :: "bytes \<Rightarrow> Manifest option"
  json_Unmarshal :: "bytes \<Rightarrow> Manifest option"
  journal_Indent :: "ArtifactJournal \<Rightarrow> bytes"
  journal_Strict :: "bytes \<Rightarrow> ArtifactJournal option"
  sha256_Sum :: "bytes \<Rightarrow> bytes"

datatype disk_op =
    RootForJournal | RootForCommit | RootForSave | MakeRevisions | WriteSnapshot | WriteState | ReadDir | RemoveSnapshot string
  | PutJournal | RemoveJournal | ReadState | GetJournal | GetRevision | RemoveState | RemoveRevisions

datatype deploy_error =
    NotExist | Tampered | InvalidManifest | UnsafePath | IO disk_op
  | Cancelled | StepFailed string | AuditFailed | ConvergeFailed | StaleInFlight | RoleChange | JournalInvalid
  | AlreadyActive | RestoreFailed | UninstallFailed | RecoverFailed | NothingInstalled | BadRequest

definition maxRevisions :: nat where "maxRevisions = 10"

definition validateManifest :: "Manifest \<Rightarrow> bool" where
  "validateManifest m \<longleftrightarrow>
     (m_Schema m = SchemaVersion \<or> legacySchema (m_Schema m)) \<and> known_role (m_Role m) \<and>
     p_StateRoot (m_Paths m) \<noteq> [] \<and> IsAbs (p_StateRoot (m_Paths m))"

definition manifestHash :: "deploy_libs \<Rightarrow> Manifest \<Rightarrow> string" where
  "manifestHash lb m = hex_Encode (sha256_Sum lb (json_Marshal lb (m\<lparr>m_ManifestHash := []\<rparr>)))"

text \<open>\<open>json.MarshalIndent\<close> and a final newline, with the hash filled in.\<close>

definition canonicalManifestBytes :: "deploy_libs \<Rightarrow> Manifest \<Rightarrow> bytes" where
  "canonicalManifestBytes lb m = json_Indent lb (m\<lparr>m_ManifestHash := manifestHash lb m\<rparr>) @ [10]"

text \<open>\<open>strings.EqualFold\<close> of a hexadecimal digest with a string: case folding other than that of ASCII letters does not
  meet a hexadecimal digit.\<close>

definition store_Load :: "deploy_libs \<Rightarrow> (disk_op \<Rightarrow> bool) \<Rightarrow> disk \<Rightarrow> deploy_error + Manifest" where
  "store_Load lb ok d =
     (case state_json d of
        None \<Rightarrow> Inl NotExist
      | Some b \<Rightarrow>
          if \<not> ok ReadState then Inl (IO ReadState)
          else (case json_Strict lb b of
                  None \<Rightarrow> Inl Tampered
                | Some m \<Rightarrow>
                    if \<not> validateManifest m then Inl InvalidManifest
                    else if ToLower (manifestHash lb m) \<noteq> ToLower (m_ManifestHash m) then Inl Tampered
                    else Inr m))"

definition Save :: "deploy_libs \<Rightarrow> (disk_op \<Rightarrow> bool) \<Rightarrow> Manifest \<Rightarrow> disk \<Rightarrow> deploy_error option \<times> disk" where
  "Save lb ok m d =
     (if \<not> validateManifest m then (Some InvalidManifest, d)
      else if \<not> ok RootForSave then (Some (IO RootForSave), d)
      else if \<not> ok WriteState then (Some (IO WriteState), d)
      else (None, d\<lparr>state_json := Some (canonicalManifestBytes lb m)\<rparr>))"

text \<open>The loop of \<open>prune\<close> over the directory stops at the first removal that fails.\<close>

fun prune_list :: "(disk_op \<Rightarrow> bool) \<Rightarrow> string list \<Rightarrow> (string \<times> bytes) list \<Rightarrow> deploy_error option \<times> (string \<times> bytes) list" where
  "prune_list ok keep [] = (None, [])"
| "prune_list ok keep ((i, b) # rs) =
     (if i \<in> set keep then (case prune_list ok keep rs of (r, rs') \<Rightarrow> (r, (i, b) # rs'))
      else if \<not> ok (RemoveSnapshot i) then (Some (IO (RemoveSnapshot i)), (i, b) # rs)
      else prune_list ok keep rs)"

definition prune :: "(disk_op \<Rightarrow> bool) \<Rightarrow> Revision list \<Rightarrow> disk \<Rightarrow> deploy_error option \<times> disk" where
  "prune ok revs d =
     (if \<not> ok ReadDir then (Some (IO ReadDir), d)
      else (case prune_list ok (map r_ID revs) (revisions d) of (r, rs) \<Rightarrow> (r, d\<lparr>revisions := rs\<rparr>)))"

definition snapshot_path :: "string \<Rightarrow> string" where
  "snapshot_path i = ''revisions/'' @ i @ ''.json''"

text \<open>The manifest that \<open>Commit\<close> writes at time \<open>now\<close>, before any file is touched.\<close>

definition stamped :: "string \<Rightarrow> int \<Rightarrow> Manifest \<Rightarrow> Manifest" where
  "stamped root now m = m\<lparr>m_Schema := SchemaVersion,
     m_CreatedAt := (if m_CreatedAt m = None then Some now else m_CreatedAt m), m_UpdatedAt := Some now,
     m_Generation := (if m_Generation m = [] then ''s-'' @ Itoa now else m_Generation m),
     m_Paths := (if p_StateRoot (m_Paths m) = [] then (m_Paths m)\<lparr>p_StateRoot := root\<rparr> else m_Paths m)\<rparr>"

definition revision_id :: "Manifest \<Rightarrow> int \<Rightarrow> string" where
  "revision_id m now = m_Generation m @ ''-'' @ Itoa now"

definition with_revision :: "int \<Rightarrow> string \<Rightarrow> Manifest \<Rightarrow> Manifest" where
  "with_revision now label m =
     (let i = revision_id m now;
          revs = m_Revisions m @ [\<lparr>r_ID = i, r_Timestamp = now, r_Label = label, r_Snapshot = snapshot_path i\<rparr>];
          kept = (if length revs > maxRevisions then drop (length revs - maxRevisions) revs else revs)
      in m\<lparr>m_Revisions := map (\<lambda>r. r\<lparr>r_Snapshot := snapshot_path (r_ID r)\<rparr>) kept\<rparr>)"

definition put_file :: "string \<Rightarrow> bytes \<Rightarrow> (string \<times> bytes) list \<Rightarrow> (string \<times> bytes) list" where
  "put_file i b fs = (if i \<in> fst ` set fs then map (\<lambda>(k, c). (k, if k = i then b else c)) fs else fs @ [(i, b)])"

definition Commit :: "deploy_libs \<Rightarrow> (disk_op \<Rightarrow> bool) \<Rightarrow> string \<Rightarrow> int \<Rightarrow> Manifest \<Rightarrow> string \<Rightarrow> disk \<Rightarrow>
    (deploy_error + Manifest) \<times> disk" where
  "Commit lb ok root now m0 label d =
     (let m1 = stamped root now m0; m = with_revision now label m1
      in if \<not> validateManifest m1 then (Inl InvalidManifest, d)
         else if \<not> ok RootForCommit then (Inl (IO RootForCommit), d)
         else if \<not> ok MakeRevisions then (Inl (IO MakeRevisions), d)
         else if \<not> ok WriteSnapshot then (Inl (IO WriteSnapshot), d)
         else (let d1 = d\<lparr>revisions := put_file (revision_id m1 now) (canonicalManifestBytes lb m) (revisions d)\<rparr>
               in case Save lb ok m d1 of
                    (Some e, d2) \<Rightarrow> (Inl e, d2)
                  | (None, d2) \<Rightarrow>
                      (case prune ok (m_Revisions m) d2 of
                         (Some e, d3) \<Rightarrow> (Inl e, d3)
                       | (None, d3) \<Rightarrow> (Inr m, d3))))"

definition token_char :: "char \<Rightarrow> bool" where
  "token_char c \<longleftrightarrow> (let n = (of_char c :: nat) in 97 \<le> n \<and> n \<le> 122 \<or> 65 \<le> n \<and> n \<le> 90 \<or> 48 \<le> n \<and> n \<le> 57 \<or> c = CHR ''-'' \<or> c = CHR ''_'')"

definition validToken :: "string \<Rightarrow> bool" where
  "validToken s \<longleftrightarrow> s \<noteq> [] \<and> length s \<le> 128 \<and> list_all token_char s"

definition ReadRevision :: "deploy_libs \<Rightarrow> (disk_op \<Rightarrow> bool) \<Rightarrow> string \<Rightarrow> disk \<Rightarrow> deploy_error + Manifest" where
  "ReadRevision lb ok i d =
     (if \<not> validToken i then Inl UnsafePath
      else case map_of (revisions d) i of
             None \<Rightarrow> Inl NotExist
           | Some b \<Rightarrow>
               if \<not> ok GetRevision then Inl (IO GetRevision)
               else (case json_Unmarshal lb b of
                       None \<Rightarrow> Inl InvalidManifest
                     | Some m \<Rightarrow> if validateManifest m then Inr m else Inl InvalidManifest))"

definition WriteJournal :: "deploy_libs \<Rightarrow> (disk_op \<Rightarrow> bool) \<Rightarrow> string \<Rightarrow> ArtifactJournal \<Rightarrow> disk \<Rightarrow> deploy_error option \<times> disk" where
  "WriteJournal lb ok root j d =
     (if \<not> validate_journal root j then (Some JournalInvalid, d)
      else if \<not> ok RootForJournal then (Some (IO RootForJournal), d)
      else if \<not> ok PutJournal then (Some (IO PutJournal), d)
      else (None, d\<lparr>journal_json := Some (journal_Indent lb j @ [10])\<rparr>))"

definition ReadJournal :: "deploy_libs \<Rightarrow> (disk_op \<Rightarrow> bool) \<Rightarrow> string \<Rightarrow> disk \<Rightarrow> deploy_error + ArtifactJournal" where
  "ReadJournal lb ok root d =
     (case journal_json d of
        None \<Rightarrow> Inl NotExist
      | Some b \<Rightarrow>
          if \<not> ok GetJournal then Inl (IO GetJournal)
          else (case journal_Strict lb b of
                  None \<Rightarrow> Inl Tampered
                | Some j \<Rightarrow> if validate_journal root j then Inr j else Inl Tampered))"

definition ClearJournal :: "(disk_op \<Rightarrow> bool) \<Rightarrow> disk \<Rightarrow> deploy_error option \<times> disk" where
  "ClearJournal ok d =
     (if journal_json d = None then (None, d)
      else if \<not> ok RemoveJournal then (Some (IO RemoveJournal), d)
      else (None, d\<lparr>journal_json := None\<rparr>))"

section \<open>Transactions\<close>

record 'h adapter =
  Prepare :: "DesiredState \<Rightarrow> 'h \<Rightarrow> bool \<times> 'h"
  ValidateHost :: "DesiredState \<Rightarrow> 'h \<Rightarrow> bool \<times> 'h"
  Backup :: "Manifest \<Rightarrow> 'h \<Rightarrow> bool \<times> 'h"
  ActivateHost :: "DesiredState \<Rightarrow> 'h \<Rightarrow> bool \<times> 'h"
  Transition :: "DesiredState \<Rightarrow> 'h \<Rightarrow> bool \<times> 'h"
  Health :: "DesiredState \<Rightarrow> 'h \<Rightarrow> bool \<times> 'h"
  Restore :: "Manifest \<Rightarrow> 'h \<Rightarrow> bool \<times> 'h"
  CleanupFresh :: "DesiredState \<Rightarrow> 'h \<Rightarrow> bool \<times> 'h"
  RecoverJournal :: "ArtifactJournal \<Rightarrow> Manifest \<Rightarrow> 'h \<Rightarrow> bool \<times> 'h"
  Uninstall :: "Manifest \<Rightarrow> 'h \<Rightarrow> bool \<times> 'h"
  ConvergeStateDir :: "('h \<Rightarrow> bool \<times> 'h) option"
  AuditLiveDrift :: "('h \<Rightarrow> bool option) option"
  MarkPairingStale :: "('h \<Rightarrow> bool) option"

datatype Phase = NoPhase | PhasePreflight | PhaseValidate | PhaseBackup | PhaseActivate | PhaseTransition | PhaseHealth | PhaseCommit | PhaseRecover

record 'h machine =
  mc_disk :: disk
  mc_host :: 'h

record Result =
  res_Manifest :: "Manifest option"
  res_Phase :: Phase
  res_Changed :: bool

text \<open>What a failed transaction reports besides its cause: whether the recovery ran and succeeded.\<close>

datatype recovery = NotAttempted | Recovered | RecoveryFailed

datatype tx_result = TxOk Result | TxFail Phase deploy_error recovery

type_synonym 'h step = "Phase \<times> string \<times> ('h \<Rightarrow> bool \<times> 'h)"

text \<open>The steps of the loop, with the context polled before each; the result is the phase and cause of the failure.\<close>

fun run_steps :: "(nat \<Rightarrow> bool) \<Rightarrow> nat \<Rightarrow> 'h step list \<Rightarrow> 'h \<Rightarrow> (Phase \<times> deploy_error) option \<times> 'h" where
  "run_steps cancelled i [] h = (None, h)"
| "run_steps cancelled i ((ph, name, run) # steps) h =
     (if cancelled i then (Some (ph, Cancelled), h)
      else case run h of
             (False, h') \<Rightarrow> (Some (ph, StepFailed name), h')
           | (True, h') \<Rightarrow> run_steps cancelled (Suc i) steps h')"

definition adapter_steps :: "'h adapter \<Rightarrow> Manifest \<Rightarrow> DesiredState \<Rightarrow> 'h step list" where
  "adapter_steps ad previous d =
     [(PhasePreflight, ''prepare'', Prepare ad d), (PhaseValidate, ''validate'', ValidateHost ad d),
      (PhaseBackup, ''backup'', Backup ad previous), (PhaseActivate, ''activate'', ActivateHost ad d),
      (PhaseTransition, ''transition'', Transition ad d), (PhaseHealth, ''health'', Health ad d)]"

definition recover_host :: "'h adapter \<Rightarrow> Manifest \<Rightarrow> DesiredState \<Rightarrow> 'h \<Rightarrow> bool \<times> 'h" where
  "recover_host ad previous d = (if m_Generation previous = [] then CleanupFresh ad d else Restore ad previous)"

definition tx_fail :: "'h adapter \<Rightarrow> Manifest \<Rightarrow> DesiredState \<Rightarrow> Phase \<Rightarrow> deploy_error \<Rightarrow> 'h machine \<Rightarrow> tx_result \<times> 'h machine" where
  "tx_fail ad previous d ph e mc =
     (case recover_host ad previous d (mc_host mc) of
        (r, h) \<Rightarrow> (TxFail ph e (if r then Recovered else RecoveryFailed), mc\<lparr>mc_host := h\<rparr>))"

definition desired_manifest :: "DesiredState \<Rightarrow> bool \<Rightarrow> Manifest" where
  "desired_manifest d stale =
     \<lparr>m_Schema = SchemaVersion, m_Role = d_Role d, m_Generation = [], m_CreatedAt = None, m_UpdatedAt = None, m_ManifestHash = [],
      m_Components = d_Components d, m_Paths = d_Paths d,
      m_Pairing = (if stale then (d_Pairing d)\<lparr>ps_PairingStale := True\<rparr> else d_Pairing d),
      m_Services = d_Services d, m_Firewall = d_Firewall d, m_ConfigFingerprint = d_ConfigFingerprint d,
      m_Revisions = [], m_Extra = []\<rparr>"

text \<open>What surrounds one run: the file operations that succeed, the poll of the context before each step, and the clock.\<close>

record surroundings =
  file_ok :: "disk_op \<Rightarrow> bool"
  ctx_done :: "nat \<Rightarrow> bool"
  clock :: int
  stat :: "string \<Rightarrow> lstat"

text \<open>The part of \<open>Transaction.Apply\<close> after the plan: journal, steps, commit, removal of the journal.\<close>

definition apply_changes :: "deploy_libs \<Rightarrow> surroundings \<Rightarrow> string \<Rightarrow> ArtifactJournal \<Rightarrow> Manifest \<Rightarrow> DesiredState \<Rightarrow> 'h adapter \<Rightarrow>
    'h machine \<Rightarrow> tx_result \<times> 'h machine" where
  "apply_changes lb sr root j0 previous d ad mc =
     (let j = j0\<lparr>j_Role := (if j_Role j0 = [] then d_Role d else j_Role j0),
                 j_Generation := (if j_Generation j0 = [] then ''pending-'' @ Itoa (clock sr) else j_Generation j0)\<rparr>
      in case WriteJournal lb (file_ok sr) root j (mc_disk mc) of
           (Some e, dk) \<Rightarrow> (TxFail NoPhase e NotAttempted, mc\<lparr>mc_disk := dk\<rparr>)
         | (None, dk) \<Rightarrow>
             (case run_steps (ctx_done sr) 0 (adapter_steps ad previous d) (mc_host mc) of
                (Some (ph, e), h) \<Rightarrow> tx_fail ad previous d ph e \<lparr>mc_disk = dk, mc_host = h\<rparr>
              | (None, h) \<Rightarrow>
                  (let stale = (case MarkPairingStale ad of None \<Rightarrow> False | Some f \<Rightarrow> f h);
                       label = (if m_Generation previous \<noteq> [] then ''upgrade'' else ''install'')
                   in case Commit lb (file_ok sr) root (clock sr) (desired_manifest d stale) label dk of
                        (Inl e, dk') \<Rightarrow> tx_fail ad previous d PhaseCommit e \<lparr>mc_disk = dk', mc_host = h\<rparr>
                      | (Inr m, dk') \<Rightarrow>
                          (case ClearJournal (file_ok sr) dk' of
                             (Some e, dk'') \<Rightarrow> (TxFail PhaseCommit e NotAttempted, \<lparr>mc_disk = dk'', mc_host = h\<rparr>)
                           | (None, dk'') \<Rightarrow>
                               (TxOk \<lparr>res_Manifest = Some m, res_Phase = PhaseCommit, res_Changed = True\<rparr>, \<lparr>mc_disk = dk'', mc_host = h\<rparr>)))))"

definition Apply :: "deploy_libs \<Rightarrow> surroundings \<Rightarrow> string \<Rightarrow> ArtifactJournal \<Rightarrow> Manifest \<Rightarrow> DesiredState \<Rightarrow> 'h adapter \<Rightarrow>
    'h machine \<Rightarrow> tx_result \<times> 'h machine" where
  "Apply lb sr root j previous d ad mc =
     (case (case ConvergeStateDir ad of None \<Rightarrow> (True, mc_host mc) | Some f \<Rightarrow> f (mc_host mc)) of
        (False, h) \<Rightarrow> (TxFail NoPhase ConvergeFailed NotAttempted, mc\<lparr>mc_host := h\<rparr>)
      | (True, h) \<Rightarrow>
          (case PlanDesired (if m_Generation previous = [] then None else Some previous) d of
             None \<Rightarrow> (TxFail NoPhase InvalidManifest NotAttempted, mc\<lparr>mc_host := h\<rparr>)
           | Some plan \<Rightarrow>
               if Unchanged plan
               then (case (case AuditLiveDrift ad of None \<Rightarrow> Some False | Some f \<Rightarrow> f h) of
                       None \<Rightarrow> (TxFail NoPhase AuditFailed NotAttempted, mc\<lparr>mc_host := h\<rparr>)
                     | Some drifted \<Rightarrow>
                         if \<not> drifted
                         then (TxOk \<lparr>res_Manifest = Some previous, res_Phase = NoPhase, res_Changed = False\<rparr>, mc\<lparr>mc_host := h\<rparr>)
                         else apply_changes lb sr root j previous d ad (mc\<lparr>mc_host := h\<rparr>))
               else apply_changes lb sr root j previous d ad (mc\<lparr>mc_host := h\<rparr>)))"

definition ApplyDesired :: "deploy_libs \<Rightarrow> surroundings \<Rightarrow> string \<Rightarrow> Manifest \<Rightarrow> DesiredState \<Rightarrow> 'h adapter \<Rightarrow>
    'h machine \<Rightarrow> tx_result \<times> 'h machine" where
  "ApplyDesired lb sr root previous d ad mc =
     (case BuildJournal (stat sr) root previous d of
        None \<Rightarrow> (TxFail NoPhase JournalInvalid NotAttempted, mc)
      | Some j \<Rightarrow> Apply lb sr root j previous d ad mc)"

section \<open>The controller\<close>

text \<open>The empty manifest stands for nothing installed.\<close>

definition no_manifest :: Manifest where
  "no_manifest = (let c = \<lparr>c_Version = [], c_Path = [], c_SHA256 = [], c_RealityFingerprint = []\<rparr>
     in \<lparr>m_Schema = 0, m_Role = [], m_Generation = [], m_CreatedAt = None, m_UpdatedAt = None, m_ManifestHash = [],
         m_Components = \<lparr>Splitter = c, Xray = c, Origin = \<lparr>o_Mode = [], o_Version = [], o_Domain = [], o_UpstreamAddr = [], o_OriginPort = 0,
           o_ACMEChallenge = [], o_ACMEEmail = [], o_CDNSecurity = [], o_CDNOriginTrust = [], o_CaddyfileHash = []\<rparr>\<rparr>,
         m_Paths = \<lparr>p_StateRoot = [], p_Env = [], p_Config = [], p_UnitDir = [], p_WantsDir = [], p_LogDir = [], p_DataDir = [],
           p_BinaryPrefix = [], p_UnitsBackupDir = [], p_UnitFiles = [], p_BinaryPointer = []\<rparr>,
         m_Pairing = \<lparr>ps_PeerRole = [], ps_State = [], ps_Fingerprints = [], ps_PairingStale = False\<rparr>,
         m_Services = [], m_Firewall = \<lparr>f_Backend = [], f_Ownership = [], f_RulesHash = []\<rparr>, m_ConfigFingerprint = [],
         m_Revisions = [], m_Extra = []\<rparr>)"

definition StaleJournal :: "deploy_libs \<Rightarrow> (disk_op \<Rightarrow> bool) \<Rightarrow> string \<Rightarrow> disk \<Rightarrow> deploy_error + bool" where
  "StaleJournal lb ok root d =
     (case ReadJournal lb ok root d of
        Inl NotExist \<Rightarrow> Inr False
      | Inl e \<Rightarrow> Inl e
      | Inr _ \<Rightarrow> Inr True)"

text \<open>The outcome of validating the request and projecting it to a desired state is an argument.\<close>

definition ApplyRequest :: "deploy_libs \<Rightarrow> surroundings \<Rightarrow> string \<Rightarrow> DesiredState option \<Rightarrow> 'h adapter \<Rightarrow> 'h machine \<Rightarrow> tx_result \<times> 'h machine" where
  "ApplyRequest lb sr root request ad mc =
     (case StaleJournal lb (file_ok sr) root (mc_disk mc) of
        Inl e \<Rightarrow> (TxFail NoPhase e NotAttempted, mc)
      | Inr True \<Rightarrow> (TxFail NoPhase StaleInFlight NotAttempted, mc)
      | Inr False \<Rightarrow>
          (case request of
             None \<Rightarrow> (TxFail NoPhase BadRequest NotAttempted, mc)
           | Some desired \<Rightarrow>
               (let go = (\<lambda>previous.
                      if m_Generation previous \<noteq> [] \<and> m_Role previous \<noteq> d_Role desired then (TxFail NoPhase RoleChange NotAttempted, mc)
                      else ApplyDesired lb sr root previous
                             (if m_Generation previous \<noteq> [] then desired\<lparr>d_Pairing := m_Pairing previous\<rparr> else desired) ad mc)
                in case store_Load lb (file_ok sr) (mc_disk mc) of
                     Inl NotExist \<Rightarrow> go no_manifest
                   | Inl e \<Rightarrow> (TxFail NoPhase e NotAttempted, mc)
                   | Inr previous \<Rightarrow> go previous)))"

text \<open>\<open>Store.Rollback\<close>; the context is polled at the start and after the host was restored.\<close>

definition store_Rollback :: "deploy_libs \<Rightarrow> surroundings \<Rightarrow> string \<Rightarrow> string \<Rightarrow> 'h adapter \<Rightarrow> 'h machine \<Rightarrow> (deploy_error + Manifest) \<times> 'h machine" where
  "store_Rollback lb sr root i ad mc =
     (if ctx_done sr 0 then (Inl Cancelled, mc)
      else case store_Load lb (file_ok sr) (mc_disk mc) of
             Inl e \<Rightarrow> (Inl e, mc)
           | Inr current \<Rightarrow>
               (case ReadRevision lb (file_ok sr) i (mc_disk mc) of
                  Inl e \<Rightarrow> (Inl e, mc)
                | Inr target \<Rightarrow>
                    if m_Role target \<noteq> m_Role current then (Inl RoleChange, mc)
                    else if m_Generation target = m_Generation current \<and> m_ManifestHash target = m_ManifestHash current
                    then (Inl AlreadyActive, mc)
                    else (case Restore ad target (mc_host mc) of
                            (False, h) \<Rightarrow> (Inl RestoreFailed, mc\<lparr>mc_host := h\<rparr>)
                          | (True, h) \<Rightarrow>
                              if ctx_done sr 1 then (Inl Cancelled, mc\<lparr>mc_host := h\<rparr>)
                              else (case Commit lb (file_ok sr) root (clock sr) (target\<lparr>m_Revisions := m_Revisions current\<rparr>) ''rollback'' (mc_disk mc) of
                                      (r, dk) \<Rightarrow> (r, \<lparr>mc_disk = dk, mc_host = h\<rparr>)))))"

definition Rollback :: "deploy_libs \<Rightarrow> surroundings \<Rightarrow> string \<Rightarrow> string \<Rightarrow> 'h adapter \<Rightarrow> 'h machine \<Rightarrow> (deploy_error + Manifest) \<times> 'h machine" where
  "Rollback lb sr root i ad mc =
     (case StaleJournal lb (file_ok sr) root (mc_disk mc) of
        Inl e \<Rightarrow> (Inl e, mc)
      | Inr True \<Rightarrow> (Inl StaleInFlight, mc)
      | Inr False \<Rightarrow> store_Rollback lb sr root i ad mc)"

definition controller_Uninstall :: "deploy_libs \<Rightarrow> surroundings \<Rightarrow> bool \<Rightarrow> 'h adapter \<Rightarrow> 'h machine \<Rightarrow> deploy_error option \<times> 'h machine" where
  "controller_Uninstall lb sr purge ad mc =
     (let go = (\<lambda>previous.
          if m_Generation previous = [] then (Some NothingInstalled, mc)
          else case Uninstall ad previous (mc_host mc) of
                 (False, h) \<Rightarrow> (Some UninstallFailed, mc\<lparr>mc_host := h\<rparr>)
               | (True, h) \<Rightarrow>
                   if \<not> file_ok sr RemoveState then (Some (IO RemoveState), mc\<lparr>mc_host := h\<rparr>)
                   else (let dk = (mc_disk mc)\<lparr>state_json := None\<rparr>
                         in if \<not> purge then (None, \<lparr>mc_disk = dk, mc_host = h\<rparr>)
                            else case ClearJournal (file_ok sr) dk of
                                   (Some e, dk') \<Rightarrow> (Some e, \<lparr>mc_disk = dk', mc_host = h\<rparr>)
                                 | (None, dk') \<Rightarrow>
                                     if file_ok sr RemoveRevisions then (None, \<lparr>mc_disk = dk'\<lparr>revisions := []\<rparr>, mc_host = h\<rparr>)
                                     else (Some (IO RemoveRevisions), \<lparr>mc_disk = dk', mc_host = h\<rparr>)))
      in case store_Load lb (file_ok sr) (mc_disk mc) of
           Inl NotExist \<Rightarrow> go no_manifest
         | Inl e \<Rightarrow> (Some e, mc)
         | Inr m \<Rightarrow> go m)"

definition controller_Recover :: "deploy_libs \<Rightarrow> surroundings \<Rightarrow> string \<Rightarrow> 'h adapter \<Rightarrow> 'h machine \<Rightarrow> tx_result \<times> 'h machine" where
  "controller_Recover lb sr root ad mc =
     (if ctx_done sr 0 then (TxFail NoPhase Cancelled NotAttempted, mc)
      else case ReadJournal lb (file_ok sr) root (mc_disk mc) of
             Inl NotExist \<Rightarrow> (TxOk \<lparr>res_Manifest = None, res_Phase = PhaseRecover, res_Changed = False\<rparr>, mc)
           | Inl e \<Rightarrow> (TxFail PhaseRecover e NotAttempted, mc)
           | Inr j \<Rightarrow>
               (let go = (\<lambda>previous.
                    if m_Generation previous \<noteq> [] \<and> m_Role previous \<noteq> j_Role j then (TxFail PhaseRecover RoleChange NotAttempted, mc)
                    else case RecoverJournal ad j previous (mc_host mc) of
                           (False, h) \<Rightarrow> (TxFail PhaseRecover RecoverFailed NotAttempted, mc\<lparr>mc_host := h\<rparr>)
                         | (True, h) \<Rightarrow>
                             (case ClearJournal (file_ok sr) (mc_disk mc) of
                                (Some e, dk) \<Rightarrow> (TxFail PhaseRecover e NotAttempted, \<lparr>mc_disk = dk, mc_host = h\<rparr>)
                              | (None, dk) \<Rightarrow>
                                  (TxOk \<lparr>res_Manifest = Some previous, res_Phase = PhaseRecover, res_Changed = True\<rparr>, \<lparr>mc_disk = dk, mc_host = h\<rparr>)))
                in case store_Load lb (file_ok sr) (mc_disk mc) of
                     Inl NotExist \<Rightarrow> go no_manifest
                   | Inl e \<Rightarrow> (TxFail PhaseRecover e NotAttempted, mc)
                   | Inr previous \<Rightarrow> go previous))"

section \<open>Commits\<close>

lemma prune_list_result:
  "prune_list ok keep rs = (r, rs') \<Longrightarrow> set (filter (\<lambda>x. fst x \<in> set keep) rs) \<subseteq> set rs' \<and> set rs' \<subseteq> set rs \<and>
     (r = None \<longrightarrow> rs' = filter (\<lambda>x. fst x \<in> set keep) rs) \<and> (r = None \<or> (\<exists>i. r = Some (IO (RemoveSnapshot i))))"
proof (induction ok keep rs arbitrary: r rs' rule: prune_list.induct)
  case (2 ok keep i b rs)
  then show ?case by (cases "prune_list ok keep rs") (auto split: if_splits)
qed simp

lemma prune_disk:
  "prune ok revs d = (r, d') \<Longrightarrow> state_json d' = state_json d \<and> journal_json d' = journal_json d \<and>
     (r = None \<longrightarrow> revisions d' = filter (\<lambda>x. fst x \<in> r_ID ` set revs) (revisions d)) \<and>
     set (filter (\<lambda>x. fst x \<in> r_ID ` set revs) (revisions d)) \<subseteq> set (revisions d') \<and>
     (\<forall>e. r = Some e \<longrightarrow> e = IO ReadDir \<or> (\<exists>i. e = IO (RemoveSnapshot i)))"
  using prune_list_result [of ok "map r_ID revs" "revisions d"]
  by (cases "prune_list ok (map r_ID revs) (revisions d)") (auto simp: prune_def split: if_splits)

text \<open>The manifest a commit writes.\<close>

definition committed :: "string \<Rightarrow> int \<Rightarrow> string \<Rightarrow> Manifest \<Rightarrow> Manifest" where
  "committed root now label m = with_revision now label (stamped root now m)"

lemma with_revision_fields [simp]:
  "m_Generation (with_revision now l m) = m_Generation m" "m_Role (with_revision now l m) = m_Role m"
  "m_Schema (with_revision now l m) = m_Schema m" "m_Paths (with_revision now l m) = m_Paths m"
  "m_Components (with_revision now l m) = m_Components m" "m_Pairing (with_revision now l m) = m_Pairing m"
  "m_Services (with_revision now l m) = m_Services m" "m_Firewall (with_revision now l m) = m_Firewall m"
  "m_ConfigFingerprint (with_revision now l m) = m_ConfigFingerprint m" "m_Extra (with_revision now l m) = m_Extra m"
  "m_ManifestHash (with_revision now l m) = m_ManifestHash m"
  by (simp_all add: with_revision_def Let_def)

lemma validate_committed: "validateManifest (committed root now l m) = validateManifest (stamped root now m)"
  by (simp add: committed_def validateManifest_def)

lemma Commit_cases:
  assumes "Commit lb ok root now m label d = (r, d')" and c: "c = committed root now label m"
  shows "journal_json d' = journal_json d \<and>
     (case r of
        Inr m' \<Rightarrow> m' = c \<and> validateManifest c \<and> state_json d' = Some (canonicalManifestBytes lb c) \<and>
          revisions d' = filter (\<lambda>x. fst x \<in> r_ID ` set (m_Revisions c))
            (put_file (revision_id c now) (canonicalManifestBytes lb c) (revisions d))
      | Inl e \<Rightarrow> state_json d' = state_json d \<or>
          (e = IO ReadDir \<or> (\<exists>i. e = IO (RemoveSnapshot i))) \<and> validateManifest c \<and> state_json d' = Some (canonicalManifestBytes lb c))"
proof -
  let ?v = "validateManifest (stamped root now m) \<and> ok RootForCommit \<and> ok MakeRevisions \<and> ok WriteSnapshot \<and> ok RootForSave \<and> ok WriteState"
  define d2 where "d2 = d\<lparr>revisions := put_file (revision_id c now) (canonicalManifestBytes lb c) (revisions d), state_json := Some (canonicalManifestBytes lb c)\<rparr>"
  have i: "revision_id (stamped root now m) now = revision_id c now" by (simp add: c committed_def revision_id_def)
  have cc: "with_revision now label (stamped root now m) = c" by (simp add: c committed_def)
  have vc: "validateManifest c = validateManifest (stamped root now m)" using validate_committed c by simp
  show ?thesis
  proof (cases ?v)
    case True
    obtain p d3 where p: "prune ok (m_Revisions c) d2 = (p, d3)" by (cases "prune ok (m_Revisions c) d2")
    have "Commit lb ok root now m label d = (case p of Some e \<Rightarrow> (Inl e, d3) | None \<Rightarrow> (Inr c, d3))"
      using True p vc unfolding Commit_def Let_def cc Save_def i d2_def by (simp split: option.split)
    then show ?thesis
      using assms(1) prune_disk [OF p] True vc
      by (auto simp: d2_def split: option.splits)
  next
    case False
    then show ?thesis
      using assms(1) vc unfolding Commit_def Let_def cc Save_def by (auto split: if_splits)
  qed
qed

lemma Load_committed:
  assumes "state_json d = Some (canonicalManifestBytes lb m)" and "validateManifest m" and "ok ReadState"
    and "json_Strict lb (canonicalManifestBytes lb m) = Some (m\<lparr>m_ManifestHash := manifestHash lb m\<rparr>)"
  shows "store_Load lb ok d = Inr (m\<lparr>m_ManifestHash := manifestHash lb m\<rparr>)"
  using assms by (simp add: store_Load_def validateManifest_def manifestHash_def)
section \<open>Transactions are all or nothing\<close>

text \<open>A journal on disk that its reader accepts once JSON gives back what was written.\<close>

definition journal_present :: "deploy_libs \<Rightarrow> string \<Rightarrow> disk \<Rightarrow> bool" where
  "journal_present lb root d \<longleftrightarrow> (\<exists>j. validate_journal root j \<and> journal_json d = Some (journal_Indent lb j @ [10]))"

definition late :: "deploy_error \<Rightarrow> bool" where
  "late e \<longleftrightarrow> e = IO ReadDir \<or> (\<exists>i. e = IO (RemoveSnapshot i)) \<or> e = IO RemoveJournal"

lemma WriteJournal_cases:
  "WriteJournal lb ok root j d = (r, d') \<Longrightarrow>
     (if r = None then validate_journal root j \<and> d' = d\<lparr>journal_json := Some (journal_Indent lb j @ [10])\<rparr> else d' = d)"
  by (auto simp: WriteJournal_def split: if_splits)

lemma ClearJournal_cases:
  "ClearJournal ok d = (r, d') \<Longrightarrow> (if r = None then d' = d\<lparr>journal_json := None\<rparr> else r = Some (IO RemoveJournal) \<and> d' = d)"
  by (auto simp: ClearJournal_def split: if_splits)

text \<open>What a run of the steps and the commit leaves behind.\<close>

definition tx_post :: "deploy_libs \<Rightarrow> surroundings \<Rightarrow> string \<Rightarrow> Manifest \<Rightarrow> DesiredState \<Rightarrow> 'h adapter \<Rightarrow> 'h machine \<Rightarrow> tx_result \<Rightarrow> 'h machine \<Rightarrow> bool" where
  "tx_post lb sr root previous d ad mc r mc' \<longleftrightarrow>
     (case r of
        TxOk res \<Rightarrow>
          (\<exists>m stale. m = committed root (clock sr) (if m_Generation previous \<noteq> [] then ''upgrade'' else ''install'') (desired_manifest d stale) \<and>
             res = \<lparr>res_Manifest = Some m, res_Phase = PhaseCommit, res_Changed = True\<rparr> \<and> validateManifest m \<and>
             run_steps (ctx_done sr) 0 (adapter_steps ad previous d) (mc_host mc) = (None, mc_host mc') \<and>
             mc_disk mc' = \<lparr>state_json = Some (canonicalManifestBytes lb m), journal_json = None,
               revisions = filter (\<lambda>x. fst x \<in> r_ID ` set (m_Revisions m))
                 (put_file (revision_id m (clock sr)) (canonicalManifestBytes lb m) (revisions (mc_disk mc)))\<rparr>)
      | TxFail ph e rec \<Rightarrow>
          (if rec = NotAttempted \<and> ph = NoPhase then mc' = mc
           else journal_present lb root (mc_disk mc') \<and>
             (if rec = NotAttempted then e = IO RemoveJournal
              else \<exists>h. recover_host ad previous d h = (rec = Recovered, mc_host mc')) \<and>
             (if ph = PhaseCommit \<and> late e
              then \<exists>m. validateManifest m \<and> m_Generation m \<noteq> [] \<and> state_json (mc_disk mc') = Some (canonicalManifestBytes lb m)
              else state_json (mc_disk mc') = state_json (mc_disk mc))))"

lemma tx_fail_result:
  "tx_fail ad previous d ph e mc = (r, mc') \<Longrightarrow>
     \<exists>rec. rec \<noteq> NotAttempted \<and> r = TxFail ph e rec \<and> mc_disk mc' = mc_disk mc \<and> recover_host ad previous d (mc_host mc) = (rec = Recovered, mc_host mc')"
  by (cases "recover_host ad previous d (mc_host mc)") (auto simp: tx_fail_def split: if_splits)

lemma run_steps_error: "run_steps c i steps h = (Some (ph, e), h') \<Longrightarrow> (\<exists>x. (ph, x) \<in> set steps) \<and> \<not> late e"
proof (induction c i steps h rule: run_steps.induct)
  case (2 c i ph' name run steps h)
  obtain b h1 where r: "run h = (b, h1)" by (cases "run h")
  show ?case
  proof (cases "c i \<or> \<not> b")
    case True
    then show ?thesis using 2(2) r by (auto simp: late_def split: if_splits)
  next
    case False
    then have "run_steps c (Suc i) steps h1 = (Some (ph, e), h')" using 2(2) r by simp
    then have "(\<exists>x. (ph, x) \<in> set steps) \<and> \<not> late e" using 2(1) [of b h1] r False by simp
    then show ?thesis by auto
  qed
qed simp

lemma adapter_phase: "(ph, x) \<in> set (adapter_steps ad p d) \<Longrightarrow> ph \<noteq> NoPhase \<and> ph \<noteq> PhaseCommit"
  by (auto simp: adapter_steps_def)

lemma committed_generation: "m_Generation (committed root now l m) \<noteq> []"
  by (simp add: committed_def stamped_def)

lemma apply_changes_post:
  assumes "apply_changes lb sr root j previous d ad mc = (r, mc')"
  shows "tx_post lb sr root previous d ad mc r mc'"
proof -
  define j' where "j' = j\<lparr>j_Role := (if j_Role j = [] then d_Role d else j_Role j),
    j_Generation := (if j_Generation j = [] then ''pending-'' @ Itoa (clock sr) else j_Generation j)\<rparr>"
  obtain w dk where w: "WriteJournal lb (file_ok sr) root j' (mc_disk mc) = (w, dk)" by (cases "WriteJournal lb (file_ok sr) root j' (mc_disk mc)")
  note wc = WriteJournal_cases [OF w]
  obtain x h where x: "run_steps (ctx_done sr) 0 (adapter_steps ad previous d) (mc_host mc) = (x, h)"
    by (cases "run_steps (ctx_done sr) 0 (adapter_steps ad previous d) (mc_host mc)")
  note a = assms [unfolded apply_changes_def Let_def j'_def [symmetric] w prod.case]
  show ?thesis
  proof (cases w)
    case (Some e)
    then have "r = TxFail NoPhase e NotAttempted" "mc' = mc" using a wc by (cases mc, simp)+
    then show ?thesis by (simp add: tx_post_def)
  next
    case None
    then have jp: "journal_present lb root dk" and dk: "dk = (mc_disk mc)\<lparr>journal_json := Some (journal_Indent lb j' @ [10])\<rparr>"
      using wc by (auto simp: journal_present_def)
    note b = a [unfolded None option.case x prod.case]
    show ?thesis
    proof (cases x)
      case (Some pe)
      obtain ph e where pe: "pe = (ph, e)" by (cases pe)
      have n: "ph \<noteq> NoPhase \<and> ph \<noteq> PhaseCommit \<and> \<not> late e"
        using run_steps_error [OF x [unfolded Some pe]] adapter_phase by blast
      have "tx_fail ad previous d ph e \<lparr>mc_disk = dk, mc_host = h\<rparr> = (r, mc')" using b Some pe by simp
      from tx_fail_result [OF this] show ?thesis using jp dk n by (auto simp: tx_post_def)
    next
      case none: None
      define stale where "stale = (case MarkPairingStale ad of None \<Rightarrow> False | Some f \<Rightarrow> f h)"
      define label where "label = (if m_Generation previous \<noteq> [] then ''upgrade'' else ''install'')"
      define c where "c = committed root (clock sr) label (desired_manifest d stale)"
      obtain q dk' where q: "Commit lb (file_ok sr) root (clock sr) (desired_manifest d stale) label dk = (q, dk')"
        by (cases "Commit lb (file_ok sr) root (clock sr) (desired_manifest d stale) label dk")
      note cc = Commit_cases [OF q c_def]
      note b' = b [unfolded none option.case stale_def [symmetric] label_def [symmetric] q prod.case]
      have jp': "journal_present lb root dk'" using jp cc by (simp add: journal_present_def)
      have g: "m_Generation c \<noteq> []" by (simp add: c_def committed_generation)
      show ?thesis
      proof (cases q)
        case (Inl e)
        have "tx_fail ad previous d PhaseCommit e \<lparr>mc_disk = dk', mc_host = h\<rparr> = (r, mc')" using b' Inl by simp
        moreover have "late e \<Longrightarrow> state_json dk' = Some (canonicalManifestBytes lb c) \<and> validateManifest c \<or> state_json dk' = state_json dk"
          using cc Inl by auto
        moreover have "\<not> late e \<Longrightarrow> state_json dk' = state_json dk" using cc Inl by (auto simp: late_def)
        moreover have "late e \<Longrightarrow> state_json dk' = Some (canonicalManifestBytes lb c) \<and> validateManifest c"
          using q Inl unfolding Commit_def Let_def Save_def late_def c_def committed_def
          by (auto split: if_splits option.splits prod.splits dest!: prune_disk simp: validateManifest_def)
        ultimately have sj: "if late e then validateManifest c \<and> state_json dk' = Some (canonicalManifestBytes lb c) else state_json dk' = state_json (mc_disk mc)"
          and "tx_fail ad previous d PhaseCommit e \<lparr>mc_disk = dk', mc_host = h\<rparr> = (r, mc')" using dk by auto
        from tx_fail_result [OF this(2)] obtain rec where rec: "rec \<noteq> NotAttempted" "r = TxFail PhaseCommit e rec" "mc_disk mc' = dk'"
          "recover_host ad previous d h = (rec = Recovered, mc_host mc')" by auto
        then have "\<exists>h. recover_host ad previous d h = (rec = Recovered, mc_host mc')" by blast
        moreover have "late e \<Longrightarrow> \<exists>m. validateManifest m \<and> m_Generation m \<noteq> [] \<and> state_json dk' = Some (canonicalManifestBytes lb m)"
          using sj g by auto
        ultimately show ?thesis using rec jp' sj unfolding tx_post_def by simp
      next
        case (Inr m)
        obtain z dk'' where z: "ClearJournal (file_ok sr) dk' = (z, dk'')" by (cases "ClearJournal (file_ok sr) dk'")
        note zc = ClearJournal_cases [OF z]
        have m: "m = c" "validateManifest c" "state_json dk' = Some (canonicalManifestBytes lb c)"
          "revisions dk' = filter (\<lambda>x. fst x \<in> r_ID ` set (m_Revisions c)) (put_file (revision_id c (clock sr)) (canonicalManifestBytes lb c) (revisions dk))"
          using cc Inr by auto
        show ?thesis
        proof (cases z)
          case None
          then have "r = TxOk \<lparr>res_Manifest = Some c, res_Phase = PhaseCommit, res_Changed = True\<rparr>" "mc' = \<lparr>mc_disk = dk'\<lparr>journal_json := None\<rparr>, mc_host = h\<rparr>"
            using b' Inr z zc m(1) by auto
          moreover have "dk'\<lparr>journal_json := None\<rparr> = \<lparr>state_json = Some (canonicalManifestBytes lb c), journal_json = None,
              revisions = filter (\<lambda>x. fst x \<in> r_ID ` set (m_Revisions c)) (put_file (revision_id c (clock sr)) (canonicalManifestBytes lb c) (revisions dk))\<rparr>"
            using m by simp
          ultimately show ?thesis using m(2) x none dk c_def label_def by (auto simp: tx_post_def)
        next
          case (Some e)
          then have "r = TxFail PhaseCommit e NotAttempted" "mc' = \<lparr>mc_disk = dk', mc_host = h\<rparr>" "e = IO RemoveJournal"
            using b' Inr z zc by auto
          then show ?thesis using jp' m g by (auto simp: tx_post_def late_def)
        qed
      qed
    qed
  qed
qed
text \<open>The state before the transaction proper: refused or nothing to do, with nothing on disk changed, or a run of \<open>apply_changes\<close>.\<close>

lemma Apply_cases:
  assumes "Apply lb sr root j previous d ad mc = (r, mc')"
  shows "(mc_disk mc' = mc_disk mc \<and> (\<exists>e. r = TxFail NoPhase e NotAttempted)) \<or>
     (mc_disk mc' = mc_disk mc \<and> r = TxOk \<lparr>res_Manifest = Some previous, res_Phase = NoPhase, res_Changed = False\<rparr> \<and>
        m_Generation previous \<noteq> [] \<and> m_Role previous = d_Role d \<and> plan_changes previous d = []) \<or>
     (\<exists>h. known_role (d_Role d) \<and> apply_changes lb sr root j previous d ad (mc\<lparr>mc_host := h\<rparr>) = (r, mc'))"
proof -
  obtain b h where c: "(case ConvergeStateDir ad of None \<Rightarrow> (True, mc_host mc) | Some f \<Rightarrow> f (mc_host mc)) = (b, h)"
    by (cases "case ConvergeStateDir ad of None \<Rightarrow> (True, mc_host mc) | Some f \<Rightarrow> f (mc_host mc)")
  have k: "PlanDesired x d = Some plan \<Longrightarrow> known_role (d_Role d)" for x plan
    by (auto simp: PlanDesired_def split: if_splits)
  have u: "PlanDesired (if m_Generation previous = [] then None else Some previous) d = Some plan \<Longrightarrow> Unchanged plan \<Longrightarrow>
      m_Generation previous \<noteq> [] \<and> m_Role previous = d_Role d \<and> plan_changes previous d = []" for plan
    by (auto simp: PlanDesired_def split: if_splits)
  define P where "P = PlanDesired (if m_Generation previous = [] then None else Some previous) d"
  define A where "A = (case AuditLiveDrift ad of None \<Rightarrow> Some False | Some f \<Rightarrow> f h)"
  note s = assms [unfolded Apply_def c prod.case P_def [symmetric] A_def [symmetric]]
  show ?thesis
  proof (cases "b \<and> P \<noteq> None")
    case True
    then obtain plan where p: "P = Some plan" "b" by auto
    note kp = k [OF p(1) [unfolded P_def]]
    show ?thesis
    proof (cases "Unchanged plan")
      case un: True
      note up = u [OF p(1) [unfolded P_def] un]
      show ?thesis using s p un up kp by (cases A) (auto split: if_splits)
    next
      case False
      then have "apply_changes lb sr root j previous d ad (mc\<lparr>mc_host := h\<rparr>) = (r, mc')" using s p by simp
      then show ?thesis using kp by blast
    qed
  next
    case False
    then show ?thesis using s by (cases b; cases P) auto
  qed
qed

lemma BuildJournal_valid: "BuildJournal st root previous d = Some j \<Longrightarrow> validate_journal root j \<and> known_role (d_Role d)"
  by (auto simp: BuildJournal_def Let_def split: if_splits)

definition carried :: "Manifest \<Rightarrow> DesiredState \<Rightarrow> DesiredState" where
  "carried previous d = (if m_Generation previous \<noteq> [] then d\<lparr>d_Pairing := m_Pairing previous\<rparr> else d)"

lemma carried_fields [simp]:
  "d_Role (carried p d) = d_Role d" "d_Components (carried p d) = d_Components d" "d_Paths (carried p d) = d_Paths d"
  "d_Services (carried p d) = d_Services d" "d_Firewall (carried p d) = d_Firewall d" "d_ConfigFingerprint (carried p d) = d_ConfigFingerprint d"
  by (simp_all add: carried_def)

text \<open>The committed manifest a controller starts from.\<close>

definition loaded :: "deploy_libs \<Rightarrow> (disk_op \<Rightarrow> bool) \<Rightarrow> disk \<Rightarrow> Manifest \<Rightarrow> bool" where
  "loaded lb ok d m \<longleftrightarrow> store_Load lb ok d = Inr m \<or> store_Load lb ok d = Inl NotExist \<and> m = no_manifest"

lemma ApplyRequest_cases:
  assumes "ApplyRequest lb sr root request ad mc = (r, mc')"
  shows "(mc' = mc \<and> (\<exists>e. r = TxFail NoPhase e NotAttempted)) \<or>
     (\<exists>d previous j. request = Some d \<and> journal_json (mc_disk mc) = None \<and> loaded lb (file_ok sr) (mc_disk mc) previous \<and>
        (m_Generation previous \<noteq> [] \<longrightarrow> m_Role previous = d_Role d) \<and>
        BuildJournal (stat sr) root previous (carried previous d) = Some j \<and>
        Apply lb sr root j previous (carried previous d) ad mc = (r, mc'))"
proof -
  have s: "StaleJournal lb (file_ok sr) root (mc_disk mc) = Inr False \<Longrightarrow> journal_json (mc_disk mc) = None"
    by (auto simp: StaleJournal_def ReadJournal_def split: option.splits sum.splits deploy_error.splits if_splits)
  show ?thesis
    using assms s unfolding ApplyRequest_def Let_def
    by (auto simp: loaded_def carried_def ApplyDesired_def
        split: sum.splits bool.splits option.splits deploy_error.splits if_splits)
qed

section \<open>A failed deployment blocks the next one\<close>

lemma stale_blocks:
  assumes "journal_present lb root (mc_disk mc)" and "\<And>b. journal_json (mc_disk mc) = Some b \<Longrightarrow> \<exists>j. journal_Strict lb b = Some j \<and> validate_journal root j"
    and "file_ok sr GetJournal"
  shows "ApplyRequest lb sr root q ad mc = (TxFail NoPhase StaleInFlight NotAttempted, mc)"
    "Rollback lb sr root i ad mc = (Inl StaleInFlight, mc)"
proof -
  have "StaleJournal lb (file_ok sr) root (mc_disk mc) = Inr True"
    using assms by (fastforce simp: StaleJournal_def ReadJournal_def journal_present_def)
  then show "ApplyRequest lb sr root q ad mc = (TxFail NoPhase StaleInFlight NotAttempted, mc)" "Rollback lb sr root i ad mc = (Inl StaleInFlight, mc)"
    by (simp_all add: ApplyRequest_def Rollback_def)
qed

lemma recover_clears:
  "controller_Recover lb sr root ad mc = (TxOk res, mc') \<Longrightarrow> res_Changed res \<Longrightarrow> journal_json (mc_disk mc') = None \<and> state_json (mc_disk mc') = state_json (mc_disk mc)"
  by (auto simp: controller_Recover_def Let_def dest!: ClearJournal_cases
      split: if_splits sum.splits deploy_error.splits prod.splits bool.splits option.splits)

text \<open>A deployment that failed after it began blocks every other one: as long as its journal reads back as a valid one, no install and no
  rollback does anything to the host or the disk, also when the recovery of the failed one succeeded; the explicit recovery, when it reports a
  change, is what removes the block, and it leaves the committed manifest alone.\<close>

lemma failed_apply_blocks:
  assumes "ApplyRequest lb sr root (Some d) ad mc = (TxFail ph e rec, mc1)" and "rec \<noteq> NotAttempted"
    and "\<And>b. journal_json (mc_disk mc1) = Some b \<Longrightarrow> \<exists>j. journal_Strict lb b = Some j \<and> validate_journal root j" and "file_ok sr1 GetJournal"
  shows "ApplyRequest lb sr1 root q ad mc1 = (TxFail NoPhase StaleInFlight NotAttempted, mc1) \<and>
     Rollback lb sr1 root i ad mc1 = (Inl StaleInFlight, mc1) \<and>
     (\<forall>sr2 res mc2. controller_Recover lb sr2 root ad mc1 = (TxOk res, mc2) \<and> res_Changed res \<longrightarrow>
        journal_json (mc_disk mc2) = None \<and> state_json (mc_disk mc2) = state_json (mc_disk mc1))"
proof -
  obtain previous j where "Apply lb sr root j previous (carried previous d) ad mc = (TxFail ph e rec, mc1)"
    using ApplyRequest_cases [OF assms(1)] assms(2) by auto
  from Apply_cases [OF this] obtain h where "apply_changes lb sr root j previous (carried previous d) ad (mc\<lparr>mc_host := h\<rparr>) = (TxFail ph e rec, mc1)"
    using assms(2) by auto
  from apply_changes_post [OF this] have "journal_present lb root (mc_disk mc1)" using assms(2) by (simp add: tx_post_def)
  then show ?thesis using stale_blocks assms(3,4) recover_clears by blast
qed

section \<open>Converging\<close>

text \<open>JSON gives a committed manifest back.\<close>

definition reads_back :: "deploy_libs \<Rightarrow> Manifest \<Rightarrow> bool" where
  "reads_back lb m \<longleftrightarrow> (let w = m\<lparr>m_ManifestHash := manifestHash lb m\<rparr>
     in json_Strict lb (canonicalManifestBytes lb m) = Some w \<and> json_Unmarshal lb (canonicalManifestBytes lb m) = Some w)"

definition unit_names :: "string list \<Rightarrow> bool" where
  "unit_names us \<longleftrightarrow> list_all (\<lambda>u. u \<noteq> [] \<and> Base u = u \<and> Ext u = ''.service'') us"

definition version_dirs :: "DesiredState \<Rightarrow> string list" where
  "version_dirs d =
     [if d_Role d = ''germany'' \<and> c_Version (Xray (d_Components d)) \<noteq> []
      then (case xray_VersionDir (c_Version (Xray (d_Components d))) of Some x \<Rightarrow> x | None \<Rightarrow> []) else [],
      if d_Role d = ''iran'' \<and> o_Version (Origin (d_Components d)) \<noteq> []
      then (case origin_VersionDir (o_Version (Origin (d_Components d))) of Some x \<Rightarrow> x | None \<Rightarrow> []) else []]"

lemma BuildJournal_iff:
  "BuildJournal st root p d \<noteq> None \<longleftrightarrow> known_role (d_Role d) \<and>
     (\<forall>f \<in> {p_Env (d_Paths d), p_Config (d_Paths d)} - {[]}. st f \<noteq> StatError \<and> IsAbs f \<and> within root f) \<and>
     unit_names (map sv_Unit (d_Services d)) \<and> unit_names (map sv_Unit (m_Services p)) \<and>
     list_all (\<lambda>x. x = [] \<or> binaryPrefixContained x) (version_dirs d)"
proof -
  define fs where "fs = sort_strings (filter (\<lambda>f. f \<noteq> []) [p_Env (d_Paths d), p_Config (d_Paths d)])"
  have ss: "set (sort_strings xs) = set xs" for xs by (simp add: sort_strings_def)
  have fs: "set fs = {p_Env (d_Paths d), p_Config (d_Paths d)} - {[]}" by (auto simp: fs_def ss)
  have st: "st f = StatError \<or> st f = Absent \<or> st f = Present" for f by (cases "st f") simp_all
  have q1: "BuildJournal st root p d \<noteq> None \<longleftrightarrow> known_role (d_Role d) \<and> StatError \<notin> st ` set fs \<and>
      (\<forall>f \<in> set (filter (\<lambda>f. st f = Absent) fs @ filter (\<lambda>f. st f = Present) fs). IsAbs f \<and> within root f) \<and>
      unit_names (sort_strings (map sv_Unit (d_Services d)) @ sort_strings (map sv_Unit (m_Services p))) \<and>
      list_all (\<lambda>x. x = [] \<or> binaryPrefixContained x) (version_dirs d)"
    unfolding BuildJournal_def Let_def fs_def [symmetric] validate_journal_def unit_names_def version_dirs_def list_all_iff
    by simp
  have q2: "StatError \<notin> st ` set fs \<and> (\<forall>f \<in> set (filter (\<lambda>f. st f = Absent) fs @ filter (\<lambda>f. st f = Present) fs). Q f) \<longleftrightarrow>
      (\<forall>f \<in> set fs. st f \<noteq> StatError \<and> Q f)" for Q
  proof (cases "StatError \<in> st ` set fs")
    case False
    then have "set (filter (\<lambda>f. st f = Absent) fs @ filter (\<lambda>f. st f = Present) fs) = set fs" using st by (auto, metis image_eqI)
    then show ?thesis using False by (simp only:) (metis image_eqI)
  qed force
  have q3: "unit_names (sort_strings xs @ sort_strings ys) \<longleftrightarrow> unit_names xs \<and> unit_names ys" for xs ys
    by (auto simp: unit_names_def list_all_iff ss)
  have "BuildJournal st root p d \<noteq> None \<longleftrightarrow> known_role (d_Role d) \<and> (\<forall>f \<in> set fs. st f \<noteq> StatError \<and> IsAbs f \<and> within root f) \<and>
      unit_names (map sv_Unit (d_Services d)) \<and> unit_names (map sv_Unit (m_Services p)) \<and>
      list_all (\<lambda>x. x = [] \<or> binaryPrefixContained x) (version_dirs d)"
    unfolding q1 q3 using q2 [of "\<lambda>f. IsAbs f \<and> within root f"] by blast
  then show ?thesis unfolding fs .
qed

lemma self_update: "\<exists>x. (p :: Paths) = p\<lparr>p_StateRoot := x\<rparr>" "\<exists>x. (q :: PairingState) = q\<lparr>ps_PairingStale := x\<rparr>"
  by (rule exI [of _ "p_StateRoot p"], simp) (rule exI [of _ "ps_PairingStale q"], simp)

lemma Apply_noop:
  assumes "known_role (d_Role d)" "m_Role p = d_Role d" "m_Generation p \<noteq> []" "plan_changes p d = []"
    and "\<And>h. ConvergeStateDir ad = None \<or> fst (the (ConvergeStateDir ad) h)" "\<And>h. AuditLiveDrift ad = None \<or> the (AuditLiveDrift ad) h = Some False"
  shows "\<exists>h. Apply lb sr root j p d ad mc = (TxOk \<lparr>res_Manifest = Some p, res_Phase = NoPhase, res_Changed = False\<rparr>, mc\<lparr>mc_host := h\<rparr>)"
proof -
  obtain h where "(case ConvergeStateDir ad of None \<Rightarrow> (True, mc_host mc) | Some f \<Rightarrow> f (mc_host mc)) = (True, h)"
    using assms(5) [of "mc_host mc"] by (cases "ConvergeStateDir ad") (auto, metis eq_fst_iff)
  moreover have "(case AuditLiveDrift ad of None \<Rightarrow> Some False | Some f \<Rightarrow> f h) = Some False"
    using assms(6) [of h] by (cases "AuditLiveDrift ad") auto
  ultimately have "Apply lb sr root j p d ad mc = (TxOk \<lparr>res_Manifest = Some p, res_Phase = NoPhase, res_Changed = False\<rparr>, mc\<lparr>mc_host := h\<rparr>)"
    using assms(1-4) unfolding Apply_def by (simp add: PlanDesired_def)
  then show ?thesis by blast
qed

section \<open>Revisions and rollback\<close>

lemma new_revision:
  "m_Revisions (committed root now l m) \<noteq> [] \<and> r_ID (last (m_Revisions (committed root now l m))) = revision_id (committed root now l m) now \<and>
     length (m_Revisions (committed root now l m)) \<le> maxRevisions \<and>
     (m_Revisions m = [] \<longrightarrow> map r_ID (m_Revisions (committed root now l m)) = [revision_id (committed root now l m) now])"
proof -
  have r: "m_Revisions (stamped root now m) = m_Revisions m" by (simp add: stamped_def)
  show ?thesis
    by (auto simp: committed_def with_revision_def Let_def revision_id_def r maxRevisions_def last_map)
qed

lemma map_of_put: "map_of (put_file i b fs) k = (if k = i then Some b else map_of fs k)"
proof -
  have m: "map_of (map (\<lambda>(k, c). (k, if k = i then b else c)) fs) k = map_option (\<lambda>c. if k = i then b else c) (map_of fs k)"
    by (induction fs) auto
  show ?thesis
  proof (cases "i \<in> fst ` set fs")
    case True
    then obtain c where "map_of fs i = Some c" by (metis map_of_eq_None_iff not_None_eq)
    then show ?thesis using True m by (cases "k = i") (simp_all add: put_file_def option.map_ident)
  next
    case False
    then have "map_of fs i = None" by (simp add: map_of_eq_None_iff)
    then show ?thesis using False by (auto simp: put_file_def map_add_def split: option.splits)
  qed
qed

lemma map_of_kept: "map_of (filter (\<lambda>x. fst x \<in> K) fs) k = (if k \<in> K then map_of fs k else None)"
  by (induction fs) auto

text \<open>What a commit keeps: at most ten revisions are listed, the last of them is the new one and its snapshot is the committed manifest; the
  snapshots on disk are exactly the listed ones that were there before and the new one.\<close>

lemma commit_keeps_listed:
  assumes "Commit lb ok root now m label d = (Inr c, d')"
  shows "length (m_Revisions c) \<le> maxRevisions \<and> m_Revisions c \<noteq> [] \<and>
     state_json d' = Some (canonicalManifestBytes lb c) \<and>
     map_of (revisions d') (r_ID (last (m_Revisions c))) = state_json d' \<and>
     (\<forall>i. i \<noteq> r_ID (last (m_Revisions c)) \<longrightarrow>
        map_of (revisions d') i = (if i \<in> r_ID ` set (m_Revisions c) then map_of (revisions d) i else None))"
proof -
  note cc = Commit_cases [OF assms refl]
  then have c: "c = committed root now label m" by simp
  have l: "r_ID (last (m_Revisions c)) = revision_id c now" "m_Revisions c \<noteq> []" "length (m_Revisions c) \<le> maxRevisions"
    using new_revision [of root now label m] by (simp_all add: c)
  then have "revision_id c now \<in> r_ID ` set (m_Revisions c)" by (metis image_eqI last_in_set)
  then show ?thesis using cc l by (simp add: c map_of_put map_of_kept)
qed

text \<open>C38. An install or an upgrade that changes something forgets the history it replaces: afterwards the only snapshot on disk is the one just
  committed, the records of extra units are gone, and no rollback, to whatever revision, does anything.\<close>

theorem apply_forgets_history:
  assumes "ApplyRequest lb sr root (Some d) ad mc = (TxOk res, mc1)" and "res_Changed res"
    and "\<And>m. res_Manifest res = Some m \<Longrightarrow> reads_back lb m"
  shows "(\<exists>m i. res_Manifest res = Some m \<and> map r_ID (m_Revisions m) = [i] \<and> set (map fst (revisions (mc_disk mc1))) = {i} \<and> m_Extra m = []) \<and>
     (\<forall>sr1 i. \<exists>e. Rollback lb sr1 root i ad mc1 = (Inl e, mc1))"
proof -
  obtain previous j where "Apply lb sr root j previous (carried previous d) ad mc = (TxOk res, mc1)"
    using ApplyRequest_cases [OF assms(1)] by auto
  from Apply_cases [OF this] obtain h where "apply_changes lb sr root j previous (carried previous d) ad (mc\<lparr>mc_host := h\<rparr>) = (TxOk res, mc1)"
    using assms(2) by auto
  from apply_changes_post [OF this] obtain m stale l where
    m: "m = committed root (clock sr) l (desired_manifest (carried previous d) stale)" "res_Manifest res = Some m" "validateManifest m"
      and dk: "mc_disk mc1 = \<lparr>state_json = Some (canonicalManifestBytes lb m), journal_json = None,
        revisions = filter (\<lambda>x. fst x \<in> r_ID ` set (m_Revisions m)) (put_file (revision_id m (clock sr)) (canonicalManifestBytes lb m) (revisions (mc_disk mc)))\<rparr>"
    unfolding tx_post_def by auto
  define i where "i = revision_id m (clock sr)"
  define w where "w = m\<lparr>m_ManifestHash := manifestHash lb m\<rparr>"
  have mr: "m_Revisions (desired_manifest x s) = []" for x s by (simp add: desired_manifest_def)
  have r: "map r_ID (m_Revisions m) = [i]" using new_revision [of root "clock sr" l "desired_manifest (carried previous d) stale"] mr by (simp add: m(1) i_def)
  then have s: "r_ID ` set (m_Revisions m) = {i}" by (metis list.simps(15) list.set_map list.set(1))
  have mo: "map_of (revisions (mc_disk mc1)) k = (if k = i then Some (canonicalManifestBytes lb m) else None)" for k
  proof -
    have "revisions (mc_disk mc1) = filter (\<lambda>x. fst x \<in> {i}) (put_file i (canonicalManifestBytes lb m) (revisions (mc_disk mc)))"
      unfolding dk s i_def by simp
    then show ?thesis by (simp only: map_of_kept map_of_put) simp
  qed
  have rb: "json_Strict lb (canonicalManifestBytes lb m) = Some w" "json_Unmarshal lb (canonicalManifestBytes lb m) = Some w"
    using assms(3) [OF m(2)] by (simp_all add: reads_back_def w_def Let_def)
  have vw: "validateManifest w" using m(3) by (simp add: w_def validateManifest_def)
  have "\<exists>e. Rollback lb sr1 root k ad mc1 = (Inl e, mc1)" for sr1 k
  proof -
    have st: "StaleJournal lb (file_ok sr1) root (mc_disk mc1) = Inr False" by (simp add: dk StaleJournal_def ReadJournal_def)
    have ld: "store_Load lb (file_ok sr1) (mc_disk mc1) = Inr w \<or> (\<exists>e. store_Load lb (file_ok sr1) (mc_disk mc1) = Inl e)"
      using rb vw by (simp add: store_Load_def dk)
    have rd: "ReadRevision lb (file_ok sr1) k (mc_disk mc1) = Inr w \<or> (\<exists>e. ReadRevision lb (file_ok sr1) k (mc_disk mc1) = Inl e)"
      using rb vw by (simp add: ReadRevision_def mo)
    show ?thesis using ld rd by (auto simp: Rollback_def st store_Rollback_def)
  qed
  moreover have "set (map fst (revisions (mc_disk mc1))) = {i}"
  proof -
    have "k \<in> set (map fst (revisions (mc_disk mc1))) \<longleftrightarrow> map_of (revisions (mc_disk mc1)) k \<noteq> None" for k
      by (simp add: map_of_eq_None_iff)
    then show ?thesis unfolding set_eq_iff mo by simp
  qed
  moreover have "m_Extra m = []" by (simp add: m(1) committed_def stamped_def desired_manifest_def)
  ultimately show ?thesis using m(2) r by (intro conjI exI [of _ m] exI [of _ i] allI) simp_all
qed

lemma store_Rollback_run:
  assumes "store_Rollback lb sr root i ad mc = (r, mc')" and "\<not> (state_json (mc_disk mc') = state_json (mc_disk mc) \<and> isl r)"
  shows "\<exists>current target h dk. store_Load lb (file_ok sr) (mc_disk mc) = Inr current \<and> ReadRevision lb (file_ok sr) i (mc_disk mc) = Inr target \<and>
     m_Role target = m_Role current \<and> Restore ad target (mc_host mc) = (True, h) \<and> mc' = \<lparr>mc_disk = dk, mc_host = h\<rparr> \<and>
     Commit lb (file_ok sr) root (clock sr) (target\<lparr>m_Revisions := m_Revisions current\<rparr>) ''rollback'' (mc_disk mc) = (r, dk)"
proof -
  have f: "Inl e = x \<Longrightarrow> isl x" for e :: deploy_error and x :: "deploy_error + Manifest" by auto
  obtain current where c: "store_Load lb (file_ok sr) (mc_disk mc) = Inr current"
    using assms by (cases "store_Load lb (file_ok sr) (mc_disk mc)") (auto simp: store_Rollback_def split: if_splits dest: f)
  obtain target where t: "ReadRevision lb (file_ok sr) i (mc_disk mc) = Inr target"
    using assms c by (cases "ReadRevision lb (file_ok sr) i (mc_disk mc)") (auto simp: store_Rollback_def split: if_splits dest: f)
  obtain b h where h: "Restore ad target (mc_host mc) = (b, h)" by (cases "Restore ad target (mc_host mc)")
  show ?thesis using assms c t h by (cases b) (auto simp: store_Rollback_def split: if_splits prod.splits)
qed

text \<open>C37. A rollback that succeeds reactivates its target: the host is the one the adapter restored for the target, the committed manifest has the
  target's components, services and pairing, the history of the replaced deployment is kept up to the ten newest, and nothing is left in flight. One that
  fails leaves the committed manifest alone, unless the failure came from pruning after the commit.\<close>

theorem rollback_reactivates:
  assumes "Rollback lb sr root i ad mc = (r, mc')"
  shows "case r of
       Inr m \<Rightarrow> \<exists>current target. store_Load lb (file_ok sr) (mc_disk mc) = Inr current \<and> ReadRevision lb (file_ok sr) i (mc_disk mc) = Inr target \<and>
         m_Role target = m_Role current \<and> Restore ad target (mc_host mc) = (True, mc_host mc') \<and>
         state_json (mc_disk mc') = Some (canonicalManifestBytes lb m) \<and> journal_json (mc_disk mc') = None \<and>
         m_Components m = m_Components target \<and> m_Services m = m_Services target \<and> m_Pairing m = m_Pairing target \<and>
         map r_ID (m_Revisions m) = drop (length (m_Revisions current) + 1 - maxRevisions) (map r_ID (m_Revisions current) @ [revision_id m (clock sr)])
     | Inl e \<Rightarrow> state_json (mc_disk mc') = state_json (mc_disk mc) \<or> e = IO ReadDir \<or> (\<exists>k. e = IO (RemoveSnapshot k))"
proof -
  have s: "StaleJournal lb (file_ok sr) root (mc_disk mc) = Inr False \<Longrightarrow> journal_json (mc_disk mc) = None"
    by (auto simp: StaleJournal_def ReadJournal_def split: option.splits sum.splits deploy_error.splits if_splits)
  show ?thesis
  proof (cases "state_json (mc_disk mc') = state_json (mc_disk mc) \<and> isl r")
    case False
    then have "StaleJournal lb (file_ok sr) root (mc_disk mc) = Inr False \<and> store_Rollback lb sr root i ad mc = (r, mc')"
      using assms unfolding Rollback_def
      by (cases "StaleJournal lb (file_ok sr) root (mc_disk mc)") (auto split: bool.splits)
    then obtain current target h dk where x: "StaleJournal lb (file_ok sr) root (mc_disk mc) = Inr False"
        "store_Load lb (file_ok sr) (mc_disk mc) = Inr current" "ReadRevision lb (file_ok sr) i (mc_disk mc) = Inr target"
        "m_Role target = m_Role current" "Restore ad target (mc_host mc) = (True, h)" "mc' = \<lparr>mc_disk = dk, mc_host = h\<rparr>"
        "Commit lb (file_ok sr) root (clock sr) (target\<lparr>m_Revisions := m_Revisions current\<rparr>) ''rollback'' (mc_disk mc) = (r, dk)"
      using store_Rollback_run [of lb sr root i ad mc r mc'] False by blast
    note cc = Commit_cases [OF x(7) refl]
    show ?thesis
    proof (cases r)
      case (Inr m)
      then have m: "m = committed root (clock sr) ''rollback'' (target\<lparr>m_Revisions := m_Revisions current\<rparr>)" using cc by simp
      have "map r_ID (m_Revisions m) = drop (length (m_Revisions current) + 1 - maxRevisions) (map r_ID (m_Revisions current) @ [revision_id m (clock sr)])"
        by (auto simp: m committed_def with_revision_def stamped_def Let_def revision_id_def maxRevisions_def drop_map)
      moreover have "m_Components m = m_Components target" "m_Services m = m_Services target" "m_Pairing m = m_Pairing target"
        by (simp_all add: m committed_def stamped_def)
      ultimately show ?thesis using x cc Inr s by auto
    next
      case (Inl e)
      then show ?thesis using cc x(6) by auto
    qed
  next
    case True
    then show ?thesis by (cases r) auto
  qed
qed

section \<open>Examples\<close>

text \<open>A host that records the steps, whose activation fails on a host that starts with \<open>bad\<close>.\<close>

definition log_step :: "string \<Rightarrow> string list \<Rightarrow> bool \<times> string list" where
  "log_step s h = (True, h @ [s])"

definition demo_adapter :: "string list adapter" where
  "demo_adapter = \<lparr>Prepare = (\<lambda>_. log_step ''prepare''), ValidateHost = (\<lambda>_. log_step ''validate''), Backup = (\<lambda>_. log_step ''backup''),
     ActivateHost = (\<lambda>_ h. (take 1 h \<noteq> [''bad''], h @ [''activate''])), Transition = (\<lambda>_. log_step ''transition''), Health = (\<lambda>_. log_step ''health''),
     Restore = (\<lambda>_. log_step ''restore''), CleanupFresh = (\<lambda>_. log_step ''cleanup''), RecoverJournal = (\<lambda>_ _. log_step ''recover''),
     Uninstall = (\<lambda>_. log_step ''uninstall''), ConvergeStateDir = None, AuditLiveDrift = None, MarkPairingStale = None\<rparr>"

definition demo_desired :: DesiredState where
  "demo_desired = \<lparr>d_Role = ''iran'', d_Components = (m_Components no_manifest)\<lparr>Splitter := \<lparr>c_Version = ''v1'', c_Path = ''/opt/split-tunnel/iran-splitter'',
      c_SHA256 = [], c_RealityFingerprint = []\<rparr>\<rparr>,
     d_Paths = (m_Paths no_manifest)\<lparr>p_StateRoot := ''/etc/st'', p_Env := ''/etc/st/iran.env''\<rparr>, d_Pairing = (m_Pairing no_manifest)\<lparr>ps_State := ''none''\<rparr>,
     d_Services = [\<lparr>sv_Unit = ''iran-splitter.service'', sv_Component = ''splitter'', sv_Hash = []\<rparr>],
     d_Firewall = m_Firewall no_manifest, d_ConfigFingerprint = ''f1''\<rparr>"

definition demo_manifest :: Manifest where
  "demo_manifest = committed ''/etc/st'' 5 ''install'' (desired_manifest demo_desired False)"

definition demo_deploy :: deploy_libs where
  "demo_deploy = \<lparr>json_Marshal = (\<lambda>_. []), json_Indent = (\<lambda>m. bytes_of_string (m_Generation m)),
     json_Strict = (\<lambda>b. if b = [] then None else Some demo_manifest), json_Unmarshal = (\<lambda>_. Some demo_manifest),
     journal_Indent = (\<lambda>_. [1]), journal_Strict = (\<lambda>_. Some (demo_journal\<lparr>j_Files := [], j_PreFiles := []\<rparr>)), sha256_Sum = (\<lambda>_. [])\<rparr>"

definition calm :: surroundings where
  "calm = \<lparr>file_ok = (\<lambda>_. True), ctx_done = (\<lambda>_. False), clock = 5, stat = (\<lambda>_. Absent)\<rparr>"

definition demo_machine :: "string list \<Rightarrow> string list machine" where
  "demo_machine h = \<lparr>mc_disk = \<lparr>state_json = None, journal_json = None, revisions = [(''old'', [7])]\<rparr>, mc_host = h\<rparr>"

lemma demo_hash: "manifestHash demo_deploy m = []"
  by (simp add: manifestHash_def demo_deploy_def hex_Encode_def)

lemma demo_reads_back: "reads_back demo_deploy demo_manifest"
proof -
  have "demo_manifest\<lparr>m_ManifestHash := []\<rparr> = demo_manifest"
    by (simp add: demo_manifest_def committed_def with_revision_def stamped_def desired_manifest_def Let_def)
  then show ?thesis by (simp add: reads_back_def demo_hash Let_def canonicalManifestBytes_def) (simp add: demo_deploy_def)
qed

lemma demo_journal_built: "BuildJournal (stat calm) ''/etc/st'' no_manifest demo_desired \<noteq> None"
  unfolding BuildJournal_iff by code_simp


lemma demo_install:
  "fst (ApplyRequest demo_deploy calm ''/etc/st'' (Some demo_desired) demo_adapter (demo_machine [])) =
     TxOk \<lparr>res_Manifest = Some demo_manifest, res_Phase = PhaseCommit, res_Changed = True\<rparr>"
  by code_simp

lemma demo_failure:
  "fst (ApplyRequest demo_deploy calm ''/etc/st'' (Some demo_desired) demo_adapter (demo_machine [''bad''])) =
     TxFail PhaseActivate (StepFailed ''activate'') Recovered"
  by code_simp

definition demo_installed :: "string list machine" where
  "demo_installed = snd (ApplyRequest demo_deploy calm ''/etc/st'' (Some demo_desired) demo_adapter (demo_machine []))"

definition demo_broken :: "string list machine" where
  "demo_broken = snd (ApplyRequest demo_deploy calm ''/etc/st'' (Some demo_desired) demo_adapter (demo_machine [''bad'']))"

lemma demo_installed_run:
  "ApplyRequest demo_deploy calm ''/etc/st'' (Some demo_desired) demo_adapter (demo_machine []) =
     (TxOk \<lparr>res_Manifest = Some demo_manifest, res_Phase = PhaseCommit, res_Changed = True\<rparr>, demo_installed)"
  using demo_install unfolding demo_installed_def by (metis prod.collapse)

lemma demo_broken_run:
  "ApplyRequest demo_deploy calm ''/etc/st'' (Some demo_desired) demo_adapter (demo_machine [''bad'']) =
     (TxFail PhaseActivate (StepFailed ''activate'') Recovered, demo_broken)"
  using demo_failure unfolding demo_broken_def by (metis prod.collapse)

lemma demo_calm: "file_ok calm x" "StatError \<noteq> stat calm y"
  by (simp_all add: calm_def)


lemma failed_apply_blocks_witness:
  "ApplyRequest demo_deploy calm ''/etc/st'' (Some demo_desired) demo_adapter demo_broken = (TxFail NoPhase StaleInFlight NotAttempted, demo_broken)"
proof -
  have "validate_journal ''/etc/st'' (demo_journal\<lparr>j_Files := [], j_PreFiles := []\<rparr>)" by code_simp
  then have "\<exists>j. journal_Strict demo_deploy b = Some j \<and> validate_journal ''/etc/st'' j" for b by (simp add: demo_deploy_def)
  from failed_apply_blocks [OF demo_broken_run _ this demo_calm(1)] show ?thesis by simp
qed


theorem apply_forgets_history_witness:
  "\<exists>i. set (map fst (revisions (mc_disk demo_installed))) = {i} \<and>
     (\<exists>e. Rollback demo_deploy calm ''/etc/st'' ''old'' demo_adapter demo_installed = (Inl e, demo_installed))"
  using apply_forgets_history [OF demo_installed_run] by (auto simp: demo_reads_back)

definition demo_rolled :: "(deploy_error + Manifest) \<times> string list machine" where
  "demo_rolled = Rollback (demo_deploy\<lparr>json_Unmarshal := (\<lambda>_. Some (demo_manifest\<lparr>m_Generation := ''g0''\<rparr>))\<rparr>) calm ''/etc/st'' ''old'' demo_adapter
     \<lparr>mc_disk = \<lparr>state_json = Some [1], journal_json = None, revisions = [(''old'', [7])]\<rparr>, mc_host = []\<rparr>"

theorem rollback_reactivates_witness:
  "(\<exists>m. fst demo_rolled = Inr m \<and> m_Components m = d_Components demo_desired) \<and> mc_host (snd demo_rolled) = [''restore'']"
proof -
  have r: "isl (fst demo_rolled) = False" by code_simp
  then obtain m where m: "fst demo_rolled = Inr m" by (cases "fst demo_rolled") auto
  then have "demo_rolled = (Inr m, snd demo_rolled)" by (metis prod.collapse)
  from rollback_reactivates [OF this [unfolded demo_rolled_def]] obtain target where
    t: "ReadRevision (demo_deploy\<lparr>json_Unmarshal := (\<lambda>_. Some (demo_manifest\<lparr>m_Generation := ''g0''\<rparr>))\<rparr>) (file_ok calm) ''old''
         \<lparr>state_json = Some [1], journal_json = None, revisions = [(''old'', [7])]\<rparr> = Inr target"
       "Restore demo_adapter target [] = (True, mc_host (snd demo_rolled))" "m_Components m = m_Components target"
    by (auto simp: demo_rolled_def)
  have "target = demo_manifest\<lparr>m_Generation := ''g0''\<rparr>" using t(1) by (auto simp: ReadRevision_def split: if_splits)
  then show ?thesis using t m by (simp add: demo_adapter_def log_step_def demo_manifest_def committed_def stamped_def desired_manifest_def)
qed

lemma commit_keeps_listed_witness:
  "\<exists>c d'. Commit demo_deploy (\<lambda>_. True) ''/etc/st'' 5 (desired_manifest demo_desired False) ''install'' (mc_disk (demo_machine [])) = (Inr c, d') \<and>
     map_of (revisions d') ''old'' = None \<and> map_of (revisions d') (r_ID (last (m_Revisions c))) = state_json d'"
proof -
  have "isl (fst (Commit demo_deploy (\<lambda>_. True) ''/etc/st'' 5 (desired_manifest demo_desired False) ''install'' (mc_disk (demo_machine [])))) = False" by code_simp
  then obtain c d' where c: "Commit demo_deploy (\<lambda>_. True) ''/etc/st'' 5 (desired_manifest demo_desired False) ''install'' (mc_disk (demo_machine [])) = (Inr c, d')"
    by (cases "Commit demo_deploy (\<lambda>_. True) ''/etc/st'' 5 (desired_manifest demo_desired False) ''install'' (mc_disk (demo_machine []))")
      (metis (no_types) fst_conv isl_def sumE)
  have "''old'' \<notin> r_ID ` set (m_Revisions c)" "''old'' \<noteq> r_ID (last (m_Revisions c))"
    using Commit_cases [OF c refl] new_revision [of "''/etc/st''" 5 "''install''" "desired_manifest demo_desired False"]
    by (auto simp: desired_manifest_def committed_def with_revision_def stamped_def Let_def revision_id_def maxRevisions_def)
  then show ?thesis using commit_keeps_listed [OF c] c by auto
qed

text \<open>A cleanup that fails after the new manifest was written leaves the host and the manifest apart: the host is handed back to the previous
  deployment while the manifest on disk is the new one.\<close>

lemma late_failure_splits:
  "fst (ApplyRequest demo_deploy (calm\<lparr>file_ok := (\<lambda>x. x \<noteq> ReadDir)\<rparr>) ''/etc/st'' (Some demo_desired) demo_adapter (demo_machine [])) =
       TxFail PhaseCommit (IO ReadDir) Recovered \<and>
   state_json (mc_disk (snd (ApplyRequest demo_deploy (calm\<lparr>file_ok := (\<lambda>x. x \<noteq> ReadDir)\<rparr>) ''/etc/st'' (Some demo_desired) demo_adapter (demo_machine [])))) \<noteq> None"
  by code_simp

text \<open>The integrity hash guards the manifest and not the snapshots: an accepted manifest carries the hash of its own contents; a
  snapshot is accepted whatever hash it carries.\<close>

lemma load_checks_hash: "store_Load lb ok d = Inr m \<Longrightarrow> ToLower (manifestHash lb m) = ToLower (m_ManifestHash m)"
  by (auto simp: store_Load_def split: option.splits if_splits)

lemma revision_hash_unchecked:
  assumes "ReadRevision lb ok i d = Inr m" "map_of (revisions d) i = Some b"
  shows "ReadRevision (lb\<lparr>json_Unmarshal := (json_Unmarshal lb)(b := Some (m\<lparr>m_ManifestHash := h\<rparr>))\<rparr>) ok i d = Inr (m\<lparr>m_ManifestHash := h\<rparr>)"
  using assms by (auto simp: ReadRevision_def validateManifest_def split: option.splits if_splits)

end
