(* ===== verification/Exchange.thy ===== *)
theory Exchange
  imports Deploy
begin

text \<open>
  The pairing exchange between the two hosts (\<^verbatim>\<open>src/internal/deploy/pair.go\<close> and \<open>pairCommand\<close> of
  \<^verbatim>\<open>src/cmd/splitterctl/main.go\<close>): Iran generates a blob, Germany applies it and answers with one derived from its installed
  configuration, Iran finalizes with that answer; each step commits the pairing state. What a command reads from its
  environment and files is a record of inputs, where \<open>None\<close> is an input that is missing or cannot be read; the parameters
  read from the installed configuration are one of them, and \<open>in_out\<close> is the file the blob is also written to. Printing and the rewriting of the consumer
  configuration after the commit are left out.
\<close>

section \<open>The steps of the exchange\<close>

definition fingerprint :: "(bytes \<Rightarrow> bytes) \<Rightarrow> string \<Rightarrow> string" where
  "fingerprint sha256 s = hex_Encode (sha256 (bytes_of_string s))"

definition pairing_state :: "string \<Rightarrow> string \<Rightarrow> string list \<Rightarrow> PairingState" where
  "pairing_state peer st fps = \<lparr>ps_PeerRole = peer, ps_State = st, ps_Fingerprints = fps, ps_PairingStale = False\<rparr>"

definition GenerateA :: "(bytes \<Rightarrow> bytes) \<Rightarrow> jsonlib \<Rightarrow> string \<Rightarrow> string \<Rightarrow> pair_error + (string \<times> PairingState)" where
  "GenerateA sha256 js secret uploadDomain =
     (case NewBlobA secret uploadDomain of
        Inl e \<Rightarrow> Inl e
      | Inr blob \<Rightarrow>
          (case EncodeA sha256 js blob of
             Inl e \<Rightarrow> Inl e
           | Inr encoded \<Rightarrow> Inr (encoded, pairing_state ''germany'' ''a-generated'' [fingerprint sha256 encoded])))"

definition ApplyA :: "(bytes \<Rightarrow> bytes) \<Rightarrow> jsonlib \<Rightarrow> string \<Rightarrow> pair_error + (BlobA \<times> PairingState)" where
  "ApplyA sha256 js encoded =
     (case ParseBlobA sha256 js encoded of
        Inl e \<Rightarrow> Inl e
      | Inr blob \<Rightarrow> Inr (blob, pairing_state ''iran'' ''a-applied'' [fingerprint sha256 encoded]))"

definition GenerateB :: "(bytes \<Rightarrow> bytes) \<Rightarrow> jsonlib \<Rightarrow> PublicParams \<Rightarrow> DownTarget \<Rightarrow> pair_error + (string \<times> PairingState)" where
  "GenerateB sha256 js public target =
     (case NewBlobB public target of
        Inl e \<Rightarrow> Inl e
      | Inr blob \<Rightarrow>
          (case EncodeB sha256 js blob of
             Inl e \<Rightarrow> Inl e
           | Inr encoded \<Rightarrow> Inr (encoded, pairing_state ''iran'' ''b-generated'' [fingerprint sha256 encoded])))"

definition ApplyB :: "(bytes \<Rightarrow> bytes) \<Rightarrow> jsonlib \<Rightarrow> string \<Rightarrow> pair_error + (BlobB \<times> PairingState)" where
  "ApplyB sha256 js encoded =
     (case ParseBlobB sha256 js encoded of
        Inl e \<Rightarrow> Inl e
      | Inr blob \<Rightarrow> Inr (blob, pairing_state ''germany'' ''finalized'' [fingerprint sha256 encoded]))"

definition realityFingerprint :: "(bytes \<Rightarrow> bytes) \<Rightarrow> PublicParams \<Rightarrow> string" where
  "realityFingerprint sha256 p =
     hex_Encode (sha256 (bytes_of_string (SNI p @ [CHR 0x0A] @ ShortID p @ [CHR 0x0A] @ UUID p)))"

definition recordedRealityFingerprint :: "ComponentState \<Rightarrow> string" where
  "recordedRealityFingerprint c = (if c_RealityFingerprint c \<noteq> [] then c_RealityFingerprint c else c_SHA256 c)"

datatype pair_failure =
    PairStore deploy_error | PairBlob pair_error | PairRole | PairFinalized | PairInput | PairStateGate | PairNoConfig | PairNoHost
  | PairConfig | PairMismatch | PairUsage

text \<open>The store is always given by the command.\<close>

definition ApplyAGermany :: "(bytes \<Rightarrow> bytes) \<Rightarrow> jsonlib \<Rightarrow> (deploy_error + Manifest) \<Rightarrow> (PublicParams \<times> int) option \<Rightarrow> string \<Rightarrow> string \<Rightarrow>
    pair_failure + (string \<times> PairingState)" where
  "ApplyAGermany sha256 js current installed encoded downHost =
     (case ApplyA sha256 js encoded of
        Inl e \<Rightarrow> Inl (PairBlob e)
      | Inr (_, aState) \<Rightarrow>
          (case installed of
             None \<Rightarrow> Inl PairConfig
           | Some (p, port) \<Rightarrow>
               (let emit = (case GenerateB sha256 js p \<lparr>dt_Host = downHost, dt_Port = port\<rparr> of
                              Inl e \<Rightarrow> Inl (PairBlob e)
                            | Inr (encodedB, _) \<Rightarrow>
                                Inr (encodedB, pairing_state (ps_PeerRole aState) (ps_State aState)
                                  [fingerprint sha256 encoded, fingerprint sha256 encodedB]))
                in case current of
                     Inl NotExist \<Rightarrow> emit
                   | Inl e \<Rightarrow> Inl (PairStore e)
                   | Inr m \<Rightarrow>
                       (let recorded = recordedRealityFingerprint (Xray (m_Components m))
                        in if recorded \<noteq> [] \<and> realityFingerprint sha256 p \<noteq> recorded then Inl PairMismatch else emit))))"

definition ValidatePairRole :: "PairingState \<Rightarrow> string \<Rightarrow> bool" where
  "ValidatePairRole st role \<longleftrightarrow> known_role role \<and> \<not> (ps_PeerRole st \<noteq> [] \<and> ps_PeerRole st = role)"

section \<open>The command\<close>

record pair_input =
  in_secret :: "string option"
  in_domain :: string
  in_blob :: "string option"
  in_host :: "string option"
  in_installed :: "(PublicParams \<times> int) option"
  in_out :: string

text \<open>The state and the texts a command produces before it commits: the blob to show, and the received answer.\<close>

definition pair_step :: "(bytes \<Rightarrow> bytes) \<Rightarrow> jsonlib \<Rightarrow> string \<Rightarrow> bool \<Rightarrow> pair_input \<Rightarrow> (deploy_error + Manifest) \<Rightarrow> Manifest \<Rightarrow>
    pair_failure + (PairingState \<times> string \<times> BlobB option)" where
  "pair_step sha256 js action force inp reload m =
     (if action = ''generate''
      then (if m_Role m \<noteq> ''iran'' then Inl PairRole
            else if ps_State (m_Pairing m) = ''finalized'' \<and> \<not> force then Inl PairFinalized
            else case in_secret inp of
                   None \<Rightarrow> Inl PairInput
                 | Some s \<Rightarrow>
                     if in_domain inp = [] then Inl PairInput
                     else (case GenerateA sha256 js (TrimSpace s) (in_domain inp) of
                             Inl e \<Rightarrow> Inl (PairBlob e)
                           | Inr (blob, st) \<Rightarrow> Inr (st, blob, None)))
      else if action = ''apply'' \<or> action = ''finalize''
      then (case in_blob inp of
              None \<Rightarrow> Inl PairInput
            | Some raw \<Rightarrow>
                (let encoded = TrimSpace raw
                 in if m_Role m = ''germany''
                    then (if action \<noteq> ''apply'' then Inl PairRole
                          else if ps_State (m_Pairing m) \<notin> {[], ''none'', ''a-applied''} then Inl PairStateGate
                          else if p_Config (m_Paths m) = [] then Inl PairNoConfig
                          else case in_host inp of
                                 None \<Rightarrow> Inl PairNoHost
                               | Some h \<Rightarrow>
                                   (case ApplyAGermany sha256 js reload (in_installed inp) encoded h of
                                      Inl e \<Rightarrow> Inl e
                                    | Inr (blob, st) \<Rightarrow> Inr (st, blob, None)))
                    else (if action \<noteq> ''finalize'' then Inl PairRole
                          else case ApplyB sha256 js encoded of
                                 Inl e \<Rightarrow> Inl (PairBlob e)
                               | Inr (b, st) \<Rightarrow> Inr (st, [], Some b))))
      else Inl PairUsage)"

definition pairCommand :: "deploy_libs \<Rightarrow> (bytes \<Rightarrow> bytes) \<Rightarrow> jsonlib \<Rightarrow> (disk_op \<Rightarrow> bool) \<Rightarrow> string \<Rightarrow> int \<Rightarrow> string \<Rightarrow> bool \<Rightarrow> pair_input \<Rightarrow> disk \<Rightarrow>
    (pair_failure + (string \<times> BlobB option)) \<times> disk" where
  "pairCommand lb sha256 js ok root now action force inp d =
     (case store_Load lb ok d of
        Inl e \<Rightarrow> (Inl (PairStore e), d)
      | Inr m \<Rightarrow>
          if in_out inp \<noteq> [] \<and> \<not> IsAbs (in_out inp) then (Inl PairInput, d)
          else
          (case pair_step sha256 js action force inp (store_Load lb ok d) m of
             Inl e \<Rightarrow> (Inl e, d)
           | Inr (st, blob, b) \<Rightarrow>
               (case Commit lb ok root now (m\<lparr>m_Pairing := st\<rparr>) (''pair-'' @ action) d of
                  (Inl e, d') \<Rightarrow> (Inl (PairStore e), d')
                | (Inr _, d') \<Rightarrow> (Inr (blob, b), d'))))"

section \<open>The whole exchange\<close>

lemma loaded_valid: "store_Load lb ok d = Inr m \<Longrightarrow> validateManifest m"
  by (auto simp: store_Load_def split: option.splits if_splits)

lemma Commit_ok:
  assumes "validateManifest m" and "\<And>x. ok x"
  shows "\<exists>d'. Commit lb ok root now m label d = (Inr (committed root now label m), d') \<and>
     state_json d' = Some (canonicalManifestBytes lb (committed root now label m)) \<and> validateManifest (committed root now label m)"
proof -
  have v: "validateManifest (stamped root now m)" using assms(1) by (auto simp: validateManifest_def stamped_def)
  obtain r d' where c: "Commit lb ok root now m label d = (r, d')" by (cases "Commit lb ok root now m label d")
  have p: "fst (prune ok rs dk) = None" for rs dk
  proof -
    have "fst (prune_list ok keep xs) = None" for keep xs
      by (induction xs) (auto simp: assms(2) split: prod.splits)
    then show ?thesis by (simp add: prune_def assms(2) split: prod.split) (metis fst_conv)
  qed
  have "\<nexists>e. r = Inl e"
    using c v assms(2) validate_committed [of root now label m] p
    by (auto simp: Commit_def Save_def Let_def committed_def split: option.splits prod.splits) (metis fst_conv option.distinct(1))+
  then obtain m' where "r = Inr m'" by (cases r) auto
  then show ?thesis using Commit_cases [OF c refl] c by auto
qed

lemma committed_pairing [simp]: "m_Pairing (committed root now l m) = m_Pairing m" "m_Role (committed root now l m) = m_Role m"
  by (simp_all add: committed_def stamped_def)

lemma parsed_trim: "ParseBlobA sha256 js s = Inr a \<Longrightarrow> TrimSpace s = s" "ParseBlobB sha256 js s = Inr b \<Longrightarrow> TrimSpace s = s"
  by (auto simp: ParseBlobA_def ParseBlobB_def split: sum.splits dest!: open_blob_ok)

text \<open>C40. The exchange completes: when Iran has not finalized, Germany has not gone past applying and its installed parameters are the recorded ones,
  then generate on Iran, apply of its blob on Germany and finalize of the answer on Iran all succeed in that order; Germany receives Iran's blob and Iran receives
  Germany's installed parameters and address; and the committed pairing states are applied and finalized, with the fingerprints of the blobs
  that were exchanged and nothing else of them.\<close>

theorem pairing_exchange:
  assumes sha: "\<And>x. length (sha256 x) = 32"
    and jsonA: "decodeEnvelope js (marshalA js a) = Some (a_V a, a_Role a)" "strictDecodeA js (marshalA js a) = Some a"
    and jsonB: "decodeEnvelope js (marshalB js b) = Some (b_V b, b_Role b)" "strictDecodeB js (marshalB js b) = Some b"
    and a: "NewBlobA (TrimSpace raw) domain = Inr a" "domain \<noteq> []" and b: "NewBlobB p \<lparr>dt_Host = h, dt_Port = port\<rparr> = Inr b"
    and ok: "\<And>x. ok x"
    and iran: "store_Load lb ok di = Inr mi" "m_Role mi = ''iran''" "ps_State (m_Pairing mi) \<noteq> ''finalized''"
    and germany: "store_Load lb ok dg = Inr mg" "m_Role mg = ''germany''" "ps_State (m_Pairing mg) \<in> {[], ''none'', ''a-applied''}"
      "p_Config (m_Paths mg) \<noteq> []" "recordedRealityFingerprint (Xray (m_Components mg)) \<in> {[], realityFingerprint sha256 p}"
    and json: "reads_back lb (committed root t1 ''pair-generate''
        (mi\<lparr>m_Pairing := pairing_state ''germany'' ''a-generated'' [fingerprint sha256 (encodeBlob sha256 (marshalA js a))]\<rparr>))"
  shows "\<exists>A B di1 dg1 di2 mg1 mi2.
     pairCommand lb sha256 js ok root t1 ''generate'' False
       \<lparr>in_secret = Some raw, in_domain = domain, in_blob = None, in_host = None, in_installed = None, in_out = []\<rparr> di = (Inr (A, None), di1) \<and>
     pairCommand lb sha256 js ok root t2 ''apply'' False
       \<lparr>in_secret = None, in_domain = [], in_blob = Some A, in_host = Some h, in_installed = Some (p, port), in_out = []\<rparr> dg = (Inr (B, None), dg1) \<and>
     pairCommand lb sha256 js ok root t3 ''finalize'' False
       \<lparr>in_secret = None, in_domain = [], in_blob = Some B, in_host = None, in_installed = None, in_out = []\<rparr> di1 = (Inr ([], Some b), di2) \<and>
     ParseBlobA sha256 js A = Inr a \<and>
     state_json dg1 = Some (canonicalManifestBytes lb mg1) \<and> m_Pairing mg1 = pairing_state ''iran'' ''a-applied'' [fingerprint sha256 A, fingerprint sha256 B] \<and>
     state_json di2 = Some (canonicalManifestBytes lb mi2) \<and> m_Pairing mi2 = pairing_state ''germany'' ''finalized'' [fingerprint sha256 B]"
proof -
  obtain A B where A: "EncodeA sha256 js a = Inr A" "ParseBlobA sha256 js A = Inr a" and B: "EncodeB sha256 js b = Inr B" "ParseBlobB sha256 js B = Inr b"
    using encoded_blobs [of sha256, OF sha jsonA jsonB a(1) b] by blast
  note trim = parsed_trim(1) [OF A(2)] parsed_trim(2) [OF B(2)]
  have Ae: "A = encodeBlob sha256 (marshalA js a)" using A(1) by (auto simp: EncodeA_def split: option.splits)
  define sA where "sA = pairing_state ''germany'' ''a-generated'' [fingerprint sha256 A]"
  define sG where "sG = pairing_state ''iran'' ''a-applied'' [fingerprint sha256 A, fingerprint sha256 B]"
  define sF where "sF = pairing_state ''germany'' ''finalized'' [fingerprint sha256 B]"
  have vset: "validateManifest m \<Longrightarrow> validateManifest (m\<lparr>m_Pairing := s\<rparr>)" for m s by (simp add: validateManifest_def)
  define c1 where "c1 = committed root t1 ''pair-generate'' (mi\<lparr>m_Pairing := sA\<rparr>)"
  define w1 where "w1 = c1\<lparr>m_ManifestHash := manifestHash lb c1\<rparr>"
  obtain di1 where d1: "Commit lb ok root t1 (mi\<lparr>m_Pairing := sA\<rparr>) ''pair-generate'' di = (Inr c1, di1)" "state_json di1 = Some (canonicalManifestBytes lb c1)" "validateManifest c1"
    using Commit_ok [of "mi\<lparr>m_Pairing := sA\<rparr>" ok lb root t1 "''pair-generate''" di] vset [OF loaded_valid [OF iran(1)]] ok unfolding c1_def by blast
  obtain dg1 cg where dg: "Commit lb ok root t2 (mg\<lparr>m_Pairing := sG\<rparr>) ''pair-apply'' dg = (Inr cg, dg1)" "state_json dg1 = Some (canonicalManifestBytes lb cg)" "m_Pairing cg = sG"
    using Commit_ok [of "mg\<lparr>m_Pairing := sG\<rparr>" ok lb root t2 "''pair-apply''" dg] vset [OF loaded_valid [OF germany(1)]] ok by auto
  have l1: "store_Load lb ok di1 = Inr w1"
    unfolding w1_def using d1 ok json by (intro Load_committed) (simp_all add: reads_back_def Let_def c1_def sA_def Ae)
  obtain di2 c2 where d2: "Commit lb ok root t3 (w1\<lparr>m_Pairing := sF\<rparr>) ''pair-finalize'' di1 = (Inr c2, di2)" "state_json di2 = Some (canonicalManifestBytes lb c2)" "m_Pairing c2 = sF"
    using Commit_ok [of "w1\<lparr>m_Pairing := sF\<rparr>" ok lb root t3 "''pair-finalize''" di1] vset [OF loaded_valid [OF l1]] ok by auto
  have w1: "m_Role w1 = ''iran''" by (simp add: w1_def c1_def iran)
  have "pairCommand lb sha256 js ok root t1 ''generate'' False
       \<lparr>in_secret = Some raw, in_domain = domain, in_blob = None, in_host = None, in_installed = None, in_out = []\<rparr> di = (Inr (A, None), di1)"
    using iran a A(1) d1(1) by (simp add: pairCommand_def pair_step_def GenerateA_def sA_def)
  moreover have "pairCommand lb sha256 js ok root t2 ''apply'' False
       \<lparr>in_secret = None, in_domain = [], in_blob = Some A, in_host = Some h, in_installed = Some (p, port), in_out = []\<rparr> dg = (Inr (B, None), dg1)"
  proof -
    have "ApplyAGermany sha256 js (store_Load lb ok dg) (Some (p, port)) A h = Inr (B, sG)"
      using germany A(2) b B(1) by (auto simp: ApplyAGermany_def ApplyA_def GenerateB_def pairing_state_def sG_def Let_def)
    then show ?thesis using germany dg(1) trim by (simp add: pairCommand_def pair_step_def)
  qed
  moreover have "pairCommand lb sha256 js ok root t3 ''finalize'' False
       \<lparr>in_secret = None, in_domain = [], in_blob = Some B, in_host = None, in_installed = None, in_out = []\<rparr> di1 = (Inr ([], Some b), di2)"
    using l1 w1 B(2) trim d2(1) by (simp add: pairCommand_def pair_step_def ApplyB_def sF_def)
  ultimately show ?thesis using A(2) dg(2,3) d2(2,3) unfolding sG_def sF_def by blast
qed

section \<open>An exchange\<close>

definition iran_manifest :: Manifest where
  "iran_manifest = no_manifest\<lparr>m_Schema := 2, m_Role := ''iran'', m_Generation := ''g1'', m_Paths := (m_Paths no_manifest)\<lparr>p_StateRoot := ''/etc/st''\<rparr>\<rparr>"

definition germany_manifest :: Manifest where
  "germany_manifest = no_manifest\<lparr>m_Schema := 2, m_Role := ''germany'', m_Generation := ''g2'',
     m_Paths := (m_Paths no_manifest)\<lparr>p_StateRoot := ''/etc/st'', p_Config := ''/etc/st/xray.json''\<rparr>\<rparr>"

definition iran_generated :: Manifest where
  "iran_generated = committed ''/etc/st'' 1 ''pair-generate'' (iran_manifest\<lparr>m_Pairing := pairing_state ''germany'' ''a-generated''
     [fingerprint demo_sha (encodeBlob demo_sha (marshalA demo_js demo_a))]\<rparr>)"

definition exchange_libs :: deploy_libs where
  "exchange_libs = demo_deploy\<lparr>json_Strict := (\<lambda>b. if b = [1] then Some iran_manifest else if b = [2] then Some germany_manifest else Some iran_generated),
     json_Unmarshal := (\<lambda>_. Some iran_generated)\<rparr>"

definition host_disk :: "bytes \<Rightarrow> disk" where
  "host_disk b = \<lparr>state_json = Some b, journal_json = None, revisions = []\<rparr>"

lemma exchange_hash: "manifestHash exchange_libs m = []"
  by (simp add: manifestHash_def exchange_libs_def demo_deploy_def hex_Encode_def)

lemma exchange_loads:
  "store_Load exchange_libs (\<lambda>_. True) (host_disk [1]) = Inr iran_manifest"
  "store_Load exchange_libs (\<lambda>_. True) (host_disk [2]) = Inr germany_manifest"
proof -
  have v: "validateManifest iran_manifest" "validateManifest germany_manifest"
    by (simp_all add: validateManifest_def iran_manifest_def germany_manifest_def no_manifest_def Let_def SchemaVersion_def IsAbs_def HasPrefix_def)
  have h: "m_ManifestHash iran_manifest = []" "m_ManifestHash germany_manifest = []"
    by (simp_all add: iran_manifest_def germany_manifest_def no_manifest_def Let_def)
  show "store_Load exchange_libs (\<lambda>_. True) (host_disk [1]) = Inr iran_manifest"
    "store_Load exchange_libs (\<lambda>_. True) (host_disk [2]) = Inr germany_manifest"
    using v h exchange_hash by (simp_all add: store_Load_def host_disk_def) (simp_all add: exchange_libs_def)
qed

lemma exchange_reads_back: "reads_back exchange_libs iran_generated"
proof -
  have g: "m_Generation iran_generated = ''g1''" by (simp add: iran_generated_def committed_def stamped_def iran_manifest_def)
  have "canonicalManifestBytes exchange_libs iran_generated \<noteq> [1] \<and> canonicalManifestBytes exchange_libs iran_generated \<noteq> [2]"
    by (simp add: canonicalManifestBytes_def exchange_libs_def demo_deploy_def bytes_of_string_def g)
  moreover have "iran_generated\<lparr>m_ManifestHash := []\<rparr> = iran_generated"
    by (simp add: iran_generated_def committed_def with_revision_def stamped_def iran_manifest_def no_manifest_def Let_def)
  ultimately show ?thesis by (simp add: reads_back_def Let_def exchange_hash) (simp add: exchange_libs_def)
qed

lemma exchange_secret: "TrimSpace ''0123456789abcdef0123456789abcdef'' = ''0123456789abcdef0123456789abcdef''"
  by code_simp

theorem pairing_exchange_witness:
  "\<exists>A B di1 dg1 di2.
     pairCommand exchange_libs demo_sha demo_js (\<lambda>_. True) ''/etc/st'' 1 ''generate'' False
       \<lparr>in_secret = Some ''0123456789abcdef0123456789abcdef'', in_domain = ''cdn.example.org'', in_blob = None, in_host = None, in_installed = None, in_out = []\<rparr> (host_disk [1]) = (Inr (A, None), di1) \<and>
     pairCommand exchange_libs demo_sha demo_js (\<lambda>_. True) ''/etc/st'' 2 ''apply'' False
       \<lparr>in_secret = None, in_domain = [], in_blob = Some A, in_host = Some ''www.example.org'', in_installed = Some (b_Public demo_b, 443), in_out = []\<rparr> (host_disk [2]) = (Inr (B, None), dg1) \<and>
     pairCommand exchange_libs demo_sha demo_js (\<lambda>_. True) ''/etc/st'' 3 ''finalize'' False
       \<lparr>in_secret = None, in_domain = [], in_blob = Some B, in_host = None, in_installed = None, in_out = []\<rparr> di1 = (Inr ([], Some demo_b), di2)"
proof -
  have a: "NewBlobA (TrimSpace ''0123456789abcdef0123456789abcdef'') ''cdn.example.org'' = Inr demo_a"
    using demo_new(1) exchange_secret by (simp add: demo_a_def)
  have b: "NewBlobB (b_Public demo_b) \<lparr>dt_Host = ''www.example.org'', dt_Port = 443\<rparr> = Inr demo_b"
    using demo_new(2) by (simp add: demo_b_def)
  have s: "m_Role iran_manifest = ''iran''" "ps_State (m_Pairing iran_manifest) \<noteq> ''finalized''" "m_Role germany_manifest = ''germany''"
    "ps_State (m_Pairing germany_manifest) \<in> {[], ''none'', ''a-applied''}" "p_Config (m_Paths germany_manifest) \<noteq> []"
    "recordedRealityFingerprint (Xray (m_Components germany_manifest)) \<in> {[], realityFingerprint demo_sha (b_Public demo_b)}"
    by (simp_all add: iran_manifest_def germany_manifest_def no_manifest_def Let_def recordedRealityFingerprint_def)
  show ?thesis
    using pairing_exchange [of demo_sha, OF demo_sha_length demo_json a _ b _ exchange_loads(1) s(1,2) exchange_loads(2) s(3-6)
      exchange_reads_back [unfolded iran_generated_def], of 2 3] by simp blast
qed

end
