(* ===== verification/Spec2Isabelle.thy ===== *)
theory Spec2Isabelle
  imports Prelude Frame Secret Auth QStats Queue Carrier Writer Attachment Session Budget Credit
    Registry Backoff NetIP Routing Destination Telemetry Intel Node
    Lifecycle Recovery Bootstrap NodeRun Relay Governor Egress GoText Pairing Config Startup Socks DeployPlan Deploy Exchange
begin

text \<open>
  \<^bold>\<open>A verification development for the split tunnel.\<close>

  The program carries TCP sessions between two nodes (the Iran and the Germany splitter)
  over two one-directional groups of carriers: uploads travel on an \<^emph>\<open>up\<close> carrier, downloads
  on a \<^emph>\<open>down\<close> carrier. A carrier is one authenticated connection that multiplexes many
  streams with a small frame protocol (\<^verbatim>\<open>src/pkg/mux\<close>). A session (\<^verbatim>\<open>src/pkg/session\<close>)
  owns one stream id, used in both directions, and one attachment per direction that binds
  it to the carrier generation currently in use; when a carrier dies the attachment waits
  for a rebind to a new one until its grace timer runs out. The node
  (\<^verbatim>\<open>src/pkg/node\<close>) relays bytes between sockets and streams, paced by a buffer budget and a
  credit plane, and keeps the carriers of a direction in a priority registry. The Germany
  node dials targets through the routing engine (\<^verbatim>\<open>src/pkg/routing\<close>), a dial governor and an
  address-family policy. The Iran splitter accepts clients with SOCKS5
  (\<^verbatim>\<open>src/cmd/iran-splitter\<close>). Both splitters are built from an environment
  (\<^verbatim>\<open>src/internal/config\<close>); the operator command pairs the hosts (\<^verbatim>\<open>src/internal/pairing\<close>) and deploys them
  in journalled transactions (\<^verbatim>\<open>src/internal/deploy\<close>). The rest of the repository provisions and observes the two nodes.

  \<^bold>\<open>Theories and sources.\<close> Definitions keep the names of the sources; where a name is taken
  by HOL or by another component it carries a prefix or suffix.

  \<^item> \<open>Prelude\<close>: Go's integers, slices, \<^verbatim>\<open>encoding/binary\<close> and \<^verbatim>\<open>strings\<close> helpers; the locale
    \<open>first_match\<close> of a priority scan, and \<open>run_system\<close>, by which every run function below inherits
    the induction over its labels.
  \<^item> \<open>Frame\<close> (\<^verbatim>\<open>mux/frame.go\<close>): \<open>WriteFrame\<close>, \<open>ReadFrame\<close> and the payload codecs; the locales
    \<open>exact_codec\<close> and \<open>wire_codec\<close>, interpreted on each payload codec. Shown: a stream of written
    frames, torn anywhere, is read back as exactly the complete ones; the accepted
    payloads are exactly the encodings.
  \<^item> \<open>Secret\<close> (\<^verbatim>\<open>mux/secret.go\<close>): the startup policy for the shared secret.
  \<^item> \<open>Auth\<close> (\<^verbatim>\<open>mux/auth.go\<close>): both sides of the challenge/response handshake, with the MAC, the
    clocks and the nonces as arguments. Shown: completeness, soundness, replay and tag-reuse
    resistance (up to a MAC collision), refusal of other frames.
  \<^item> \<open>QStats\<close>, \<open>Queue\<close> (\<^verbatim>\<open>mux/qstats.go\<close>, \<^verbatim>\<open>mux/queue.go\<close>): the two-region bounded mailbox. A
    blocking call is its locked section and the numbered channel it then waits on. Shown
    through the locale \<open>fifo_mailbox\<close>: first-in first-out over the abstraction
    \<open>contents\<close>; bounds; no lost wake-up on one mailbox; and the starvation of a pusher
    that waits for the shared budget.
  \<^item> \<open>Carrier\<close> (\<^verbatim>\<open>mux/carrier.go\<close>): the carrier as a transition system. The read loop, the
    dispatcher (with a program counter inside \<open>deliver\<close>), one worker per stream,
    \<open>Terminate\<close>, \<open>Deregister\<close>, the keepalive ticks and \<open>Close\<close> interleave freely in
    \<open>carrier_run\<close>. Shown of every run from a fresh carrier, by the invariant \<open>carrier_inv\<close>: deliver
    or fail, the memory bound, release at \<open>Close\<close>, finality of termination, absence of the
    nil dereference, blackhole detection.
  \<^item> \<open>Writer\<close> (\<^verbatim>\<open>mux/carrier.go\<close>): the write plane, its callers, the writer goroutine and the
    drain of \<open>Close\<close>, as a second transition system over the same connection. Shown: each
    request has exactly one place and at most one outcome, order per plane, and termination of \<open>Close\<close>
    with the measure \<open>work_left\<close>.
  \<^item> \<open>Attachment\<close>, \<open>Session\<close> (\<^verbatim>\<open>session/attachment.go\<close>, \<^verbatim>\<open>session/session.go\<close>): the binding state
    machine with Go's timer semantics (a stopped timer may already have started its
    callback), the rebind payloads, the session lifecycle under concurrent callers, the
    bootstrap verdict and the store's two indices.
  \<^item> \<open>Budget\<close>, \<open>Credit\<close>, \<open>Registry\<close> (\<^verbatim>\<open>node/budget.go\<close>, \<^verbatim>\<open>node/credit.go\<close>,
    \<^verbatim>\<open>node/carrier_registry.go\<close>): exact accounting and admission order of the relay budget; the
    in-flight bound of the credit gate, its tolerance of lost and reordered credits, the
    truthfulness of the emitter and a stall of the capped gate; static priority.
  \<^item> \<open>Backoff\<close> (\<^verbatim>\<open>internal/backoff\<close>): the reconnect schedule in 64-bit arithmetic.
  \<^item> \<open>NetIP\<close>, \<open>Routing\<close> (\<^verbatim>\<open>routing/rule.go\<close>, \<^verbatim>\<open>matcher.go\<close>, \<^verbatim>\<open>engine.go\<close>): Go's address parsing, rule
    validation, first-match evaluation and the WARP dial. Shown: the first matching rule
    decides, no silent fallback to the direct path, CIDR rules as bit prefixes, and the
    trailing dot that escapes every domain rule.
  \<^item> \<open>Destination\<close> (\<^verbatim>\<open>session/session.go\<close>): the destination header, to and from streams and
    buffers, over Go's printing of addresses. Shown: both parsers are one function; writing back what
    was read gives the same bytes, but for IPv4-mapped addresses.
  \<^item> \<open>Telemetry\<close> (\<^verbatim>\<open>session/streamstats.go\<close>, \<^verbatim>\<open>node/metrics.go\<close>): the per-session marks and the
    counters of the node.
  \<^item> \<open>Intel\<close> (\<^verbatim>\<open>node/intel.go\<close>): the carrier policy, with rationals for floating point and the
    exponential as an argument. Shown of every sequence of recordings and evaluations: evidence for
    each switch, the cooldown of an excluded carrier, the probe budget, the exact window of
    outcomes, independence of the connect times; and two defects, a round robin that does not rotate and a
    probe scheduler that locks itself out.
  \<^item> \<open>Node\<close>, \<open>Lifecycle\<close>, \<open>Recovery\<close>, \<open>Bootstrap\<close>, \<open>NodeRun\<close> (\<^verbatim>\<open>node/node.go\<close>): the node's configuration and state,
    installation of carriers, the close path of a session, loss and rebind sweeps with the peer's answer, the
    start of a session on both nodes, and all of it as one transition system. Shown: a closed session holds no stream, buffer or index
    entry; a lost carrier touches its own streams only; a rebind reattaches both ends and a stale one is refused; a session
    start is all or nothing and is answered once; well-formedness and increasing generations over every run; and, among the
    defects, a policy that never gets to choose and streams moved away from a working carrier.
  \<^item> \<open>Relay\<close> (\<^verbatim>\<open>node/relays.go\<close>): both relay shapes as steps between blocking points. Shown: the upload relay
    writes the bytes it read, in order and without gaps, while no rebind happens; what a rebind loses.
  \<^item> \<open>Governor\<close> (\<^verbatim>\<open>node/target_dial_governor.go\<close>): breaker, retry backoff, recency map and bounded dial, for any
    number of concurrent dials. Shown: the bounds and consistency of the state, refusal during the cooldown, the fate of every
    dialed connection; the tumbling window and the second half-open probe.
  \<^item> \<open>Egress\<close> (\<^verbatim>\<open>node/target_ipv4.go\<close>): the address-family policies over a resolver and dialer given as functions of
    time. Shown: the order of contacts, the hard filter, the time a dial may take.
  \<^item> \<open>GoText\<close>, \<open>Pairing\<close> (\<^verbatim>\<open>internal/pairing/pairing.go\<close>): trimming, number and base64 codecs; validators,
    generators, the two blobs, redaction. Shown: round trips, what the checksum binds, validity of generated material, completeness
    of redaction.
  \<^item> \<open>Config\<close>, \<open>Startup\<close> (\<^verbatim>\<open>internal/config/config.go\<close>, \<^verbatim>\<open>cmd/germany-splitter/main.go\<close>): every knob, range and cross
    check of the loader; the wiring from an accepted environment to a node. Shown: what is accepted, that every problem is reported,
    that an accepted environment starts except for two contradictory queue limits, that listeners do not collide.
  \<^item> \<open>Socks\<close> (\<^verbatim>\<open>cmd/iran-splitter/socks.go\<close> and the handler in \<^verbatim>\<open>main.go\<close>): negotiation, authentication, source gate, and the
    handler next to its session. Shown: exactly which byte sequences are accepted, every possible transcript, and that the one reply
    precedes all payload under every interleaving.
  \<^item> \<open>DeployPlan\<close>, \<open>Deploy\<close>, \<open>Exchange\<close> (\<^verbatim>\<open>internal/deploy\<close>): the planner and journal over lexical paths; the store with
    its snapshots, transactions, rollback, recovery and uninstall over an abstract host; the pairing exchange of the operator
    command. Shown: a journal cannot reach outside its directories, a deployment is all or nothing, applying twice is applying once, what a rollback
    restores, that an upgrade forgets the history, and that the exchange completes with what each side sent.

  \<^bold>\<open>State, steps and errors.\<close> A struct is a record, a pointer to a shared object an index or
  number, a lock-protected method one function, and a method that releases its lock in the
  middle several steps. Concurrency is a list of labels: a run function applies one step per
  label and is \<open>None\<close> when a step is not enabled, so a statement about all runs covers all
  interleavings. What the environment chooses (whether a hand-off goes through, which case a
  select takes, what a connection answers) is an argument or part of the label. Errors are
  values. Frame and carrier identifiers, generations and wire fields are machine words; byte
  counters are unbounded, since the limits they are compared with are far below their width.
  No definition uses fuel: loops are structural recursions over what they consume.

  \<^bold>\<open>Parameters.\<close> SHA-256, HMAC, JSON, URL parsing, the resolver, sockets, clocks and randomness are arguments; what a
  theorem needs of them (that JSON gives back what was written, that a digest has 32 bytes) is a named hypothesis,
  and a witness instantiates them. The host behind the deployment adapter is a type parameter.

  \<^bold>\<open>Not modelled.\<close> Logging and rendering of metrics and errors, deadlines that interrupt a blocked read, the accept loops,
  signal handling and HTTP servers of the splitters, the projection of an install request to a desired state, the Linux
  adapter and the packages it drives (unit files, downloads, firewall commands: effects on the host that the code only
  issues), the dashboard and the control agent.
\<close>

end
